(* ===== verification/Prelude.thy ===== *)
theory Prelude
  imports Main "HOL-Library.Word"
begin

text \<open>
  Shared vocabulary of the development: machine-integer type names, the error values that
  stand for C++ exceptions and for undefined behaviour, the little-endian byte image of an
  integer (what \<^verbatim>\<open>memcpy\<close>, \<^verbatim>\<open>reinterpret_cast\<close> and a socket write of
  \<^verbatim>\<open>sizeof(T)\<close> bytes see on x86), and generic facts on lists and words that several
  components use.
\<close>

unbundle bit_operations_syntax

named_theorems xor_simps \<open>xor as an involutive commutative group operation\<close>
named_theorems byte_simps \<open>lengths and decodings of byte images\<close>

type_synonym byte = "8 word"
type_synonym u8 = "8 word"
type_synonym u32 = "32 word"
type_synonym u64 = "64 word"
type_synonym m128 = "128 word"
type_synonym m256 = "256 word"

text \<open>
  \<open>Runtime_error\<close> is \<^verbatim>\<open>std::runtime_error\<close> with its message; \<open>Undefined\<close>
  marks executions whose result the language leaves open (a null dereference, a read past a
  buffer, use of an indeterminate value); \<open>Assertion\<close> is a failed \<^verbatim>\<open>assert\<close>.
\<close>

datatype err = Runtime_error string | Undefined string | Assertion string

type_synonym 'a result = "err + 'a"

definition res_bind :: "'a result \<Rightarrow> ('a \<Rightarrow> 'b result) \<Rightarrow> 'b result" where
  "res_bind r f = (case r of Inl e \<Rightarrow> Inl e | Inr a \<Rightarrow> f a)"

lemma res_bind_simps [simp]:
  "res_bind (Inl e) f = Inl e"
  "res_bind (Inr a) f = f a"
  by (simp_all add: res_bind_def)

lemma res_bind_Inr_iff: "res_bind r f = Inr b \<longleftrightarrow> (\<exists>a. r = Inr a \<and> f a = Inr b)"
  by (cases r) simp_all


subsection \<open>Exclusive or\<close>

lemma xor_self_left [simp]: "(a :: 'a::len word) XOR (a XOR b) = b"
  by (simp add: bit_eq_iff bit_simps)

lemma xor_self_right [simp]: "((a :: 'a::len word) XOR b) XOR b = a"
  by (auto simp: bit_eq_iff bit_simps)

lemma xor_self_mid [simp]: "((a :: 'a::len word) XOR b) XOR a = b"
  by (simp add: bit_eq_iff bit_simps) blast

lemmas [xor_simps] = xor.assoc xor.commute xor.left_commute

lemma xor_eq_0_iff [simp]: "(a :: 'a::len word) XOR b = 0 \<longleftrightarrow> a = b"
  by (auto simp: bit_eq_iff bit_simps)

lemma and_xor_distrib:
  "(a :: 'a::len word) AND (b XOR c) = (a AND b) XOR (a AND c)"
  "((b :: 'a::len word) XOR c) AND a = (b AND a) XOR (c AND a)"
  by (auto simp: bit_eq_iff bit_simps)


subsection \<open>Word bounds\<close>

lemma unat_lt2p: "unat (w :: 'a::len word) < 2 ^ LENGTH('a)"
  by (rule unsigned_less)


subsection \<open>Byte images\<close>

text \<open>The first \<open>n\<close> bytes of a word, least significant byte first.\<close>

definition le_bytes :: "nat \<Rightarrow> 'a::len word \<Rightarrow> byte list" where
  "le_bytes n w = map (\<lambda>i. ucast (drop_bit (8 * i) w)) [0..<n]"

text \<open>\<open>sizeof\<close> of the integer type and the whole object's bytes.\<close>

definition sizeof :: "'a::len word itself \<Rightarrow> nat" where
  "sizeof _ = LENGTH('a) div 8"

definition to_bytes :: "'a::len word \<Rightarrow> byte list" where
  "to_bytes w = le_bytes (LENGTH('a) div 8) w"

fun of_bytes :: "byte list \<Rightarrow> 'a::len word" where
  "of_bytes [] = 0"
| "of_bytes (b # bs) = ucast b OR push_bit 8 (of_bytes bs)"

lemma length_le_bytes [simp, byte_simps]: "length (le_bytes n w) = n"
  by (simp add: le_bytes_def)

lemma length_to_bytes [simp, byte_simps]:
  "length (to_bytes (w :: 'a::len word)) = LENGTH('a) div 8"
  by (simp add: to_bytes_def)

lemma bit_of_bytes:
  "bit (of_bytes bs :: 'a::len word) i \<longleftrightarrow>
     i < LENGTH('a) \<and> i div 8 < length bs \<and> bit (bs ! (i div 8)) (i mod 8)"
proof (induction bs arbitrary: i)
  case Nil
  then show ?case by simp
next
  case (Cons b bs)
  show ?case
  proof (cases "i < 8")
    case True
    then show ?thesis
      by (auto simp: bit_simps)
  next
    case False
    then have b: "\<not> bit b i"
      using bit_imp_le_length [of b i] by auto
    from False have d: "i div 8 = Suc ((i - 8) div 8)" "(i - 8) mod 8 = i mod 8"
      by (simp_all add: le_div_geq le_mod_geq)
    from False b show ?thesis
      by (auto simp: bit_simps Cons.IH d)
  qed
qed

lemma nth_le_bytes_bit:
  "i < n \<Longrightarrow> bit (le_bytes n w ! i) k \<longleftrightarrow> k < 8 \<and> bit w (8 * i + k)"
  by (auto simp: le_bytes_def bit_simps add.commute)

lemma of_bytes_to_bytes [simp, byte_simps]:
  assumes "8 dvd LENGTH('a::len)"
  shows "of_bytes (to_bytes (w :: 'a word)) = w"
proof (rule bit_word_eqI)
  fix i
  assume i: "i < LENGTH('a)"
  with assms have "i div 8 < LENGTH('a) div 8"
    by (metis div_less_mono dvd_div_mult_self less_mult_imp_div_less)
  with i show "bit (of_bytes (to_bytes w) :: 'a word) i = bit w i"
    by (simp add: bit_of_bytes to_bytes_def nth_le_bytes_bit)
qed

lemma le_bytes_of_bytes:
  assumes "length bs = n" "8 * n \<le> LENGTH('a::len)"
  shows "le_bytes n (of_bytes bs :: 'a word) = bs"
proof (rule nth_equalityI)
  show "length (le_bytes n (of_bytes bs :: 'a word)) = length bs"
    using assms by simp
next
  fix i
  assume "i < length (le_bytes n (of_bytes bs :: 'a word))"
  then have i: "i < n" by simp
  show "le_bytes n (of_bytes bs :: 'a word) ! i = bs ! i"
  proof (rule bit_word_eqI)
    fix k
    assume k: "k < LENGTH(8)"
    with i assms have "8 * i + k < LENGTH('a)" "(8 * i + k) div 8 = i" "(8 * i + k) mod 8 = k"
      by simp_all
    with i k assms show "bit (le_bytes n (of_bytes bs :: 'a word) ! i) k = bit (bs ! i) k"
      by (simp add: nth_le_bytes_bit bit_of_bytes)
  qed
qed

lemma to_bytes_of_bytes [byte_simps]:
  assumes "length bs = LENGTH('a) div 8"
  shows "to_bytes (of_bytes bs :: 'a::len word) = bs"
  using assms unfolding to_bytes_def by (intro le_bytes_of_bytes) simp_all

lemma to_bytes_inject:
  assumes "8 dvd LENGTH('a::len)"
  shows "to_bytes (v :: 'a word) = to_bytes w \<longleftrightarrow> v = w"
  by (metis assms of_bytes_to_bytes)


subsection \<open>Lists\<close>

lemma map2_nth [simp]:
  "length xs = length ys \<Longrightarrow> i < length xs \<Longrightarrow> map2 f xs ys ! i = f (xs ! i) (ys ! i)"
  by simp

lemma list_all2_map2_eq:
  "length xs = length ys \<Longrightarrow> length (map2 f xs ys) = length xs"
  by simp

lemma take_drop_append_same [simp]:
  "length xs = n \<Longrightarrow> take n (xs @ ys) = xs"
  "length xs = n \<Longrightarrow> drop n (xs @ ys) = ys"
  by simp_all

text \<open>Splitting a byte string into \<open>n\<close> pieces of \<open>w\<close> bytes each.\<close>

fun chunks :: "nat \<Rightarrow> nat \<Rightarrow> 'a list \<Rightarrow> 'a list list" where
  "chunks w 0 bs = []"
| "chunks w (Suc n) bs = take w bs # chunks w n (drop w bs)"

lemma length_chunks [simp]: "length (chunks w n bs) = n"
  by (induction n arbitrary: bs) auto

lemma chunks_concat:
  "(\<And>x. x \<in> set xs \<Longrightarrow> length (f x) = w) \<Longrightarrow> chunks w (length xs) (concat (map f xs) @ ys) = map f xs"
  by (induction xs) auto

lemma length_concat_map_const:
  "(\<And>x. x \<in> set xs \<Longrightarrow> length (f x) = w) \<Longrightarrow> length (concat (map f xs)) = length xs * w"
  by (induction xs) auto

text \<open>\<^verbatim>\<open>bit_width\<close> and \<^verbatim>\<open>log2ceil\<close> of \<^verbatim>\<open>cryptoTools/Common/Defines.h\<close>.\<close>

fun bit_width :: "nat \<Rightarrow> nat" where
  "bit_width x = (if x = 0 then 0 else Suc (bit_width (x div 2)))"

declare bit_width.simps [simp del]

definition log2ceil :: "nat \<Rightarrow> nat" where
  "log2ceil x = (if x = 0 then 64 else bit_width (x - 1))"

lemma bit_width_bound: "x < 2 ^ bit_width x"
proof (induction x rule: bit_width.induct)
  case (1 x)
  show ?case
  proof (cases "x = 0")
    case False
    with 1 have "x div 2 < 2 ^ bit_width (x div 2)" by simp
    then have "x < 2 * 2 ^ bit_width (x div 2)" by linarith
    with False show ?thesis by (subst bit_width.simps) simp
  qed simp
qed

lemma log2ceil_bound: "0 < x \<Longrightarrow> x \<le> 2 ^ log2ceil x"
  using bit_width_bound [of "x - 1"] by (simp add: log2ceil_def)

text \<open>A loop over a list that stops at the first error.\<close>

fun res_map :: "('a \<Rightarrow> 'b result) \<Rightarrow> 'a list \<Rightarrow> 'b list result" where
  "res_map f [] = Inr []"
| "res_map f (x # xs) = res_bind (f x) (\<lambda>y. res_bind (res_map f xs) (\<lambda>ys. Inr (y # ys)))"

lemma res_map_Inr: "\<forall>x\<in>set xs. f x = Inr (g x) \<Longrightarrow> res_map f xs = Inr (map g xs)"
  by (induction xs) auto

end
