(* ===== verification/Coro.thy ===== *)
theory Coro
  imports Prelude
begin

text \<open>
  The execution model of the coroutines. An \<^verbatim>\<open>awaitable<T>\<close> is a resumption: it has returned, thrown, or
  awaits a group of branches combined with \<^verbatim>\<open>&&\<close>. A branch works on one direction of one socket: a
  sequence of \<^verbatim>\<open>async_write\<close>s, or \<^verbatim>\<open>async_read\<close>s whose sizes may depend on what was read. The branches
  of a group advance independently; operations outstanding on the same direction of a socket take
  effect in the order in which they were started, and a socket delivers bytes in order. The group is
  done when all its branches are. A schedule is a sequence of single completed operations of the
  three parties.
\<close>

datatype role = P0 | P1 | P2

datatype rstrand = RDone "byte list" | RRead nat "byte list \<Rightarrow> rstrand"

datatype branch = Send role "byte list list" | Recv role rstrand

datatype 'a coro =
    Return 'a
  | Throw err
  | Await "branch list" "byte list list \<Rightarrow> 'a coro"

primrec bind :: "'a coro \<Rightarrow> ('a \<Rightarrow> 'b coro) \<Rightarrow> 'b coro" where
  "bind (Return a) f = f a"
| "bind (Throw e) f = Throw e"
| "bind (Await bs k) f = Await bs (\<lambda>r. bind (k r) f)"

definition lift_result :: "'a result \<Rightarrow> 'a coro" where
  "lift_result r = (case r of Inl e \<Rightarrow> Throw e | Inr a \<Rightarrow> Return a)"

lemma lift_result_simps [simp]: "lift_result (Inr a) = Return a" "lift_result (Inl e) = Throw e"
  by (simp_all add: lift_result_def)



lemma bind_bind: "bind (bind c f) g = bind c (\<lambda>a. bind (f a) g)"
  by (induction c) simp_all


section \<open>Threads\<close>

text \<open>
  A blocked thread has, for every peer, the queue of writes and the queue of reads in the order they
  were started; a queue entry carries what the branch does after the operation. The values read are
  kept per peer, at the position of their branch in the group.
\<close>

type_synonym outq = "role \<Rightarrow> (byte list \<times> byte list list) list"
type_synonym inq = "role \<Rightarrow> (nat \<times> nat \<times> (byte list \<Rightarrow> rstrand)) list"

type_synonym results = "role \<Rightarrow> byte list list"

datatype 'a thread =
    Done 'a
  | Failed err
  | Blocked outq inq results "results \<Rightarrow> 'a coro"

fun start_send :: "role \<Rightarrow> branch \<Rightarrow> (byte list \<times> byte list list) list" where
  "start_send r (Send q (c # cs)) = (if q = r then [(c, cs)] else [])"
| "start_send r _ = []"

fun start_recv :: "role \<Rightarrow> nat \<Rightarrow> branch list \<Rightarrow> (nat \<times> nat \<times> (byte list \<Rightarrow> rstrand)) list" where
  "start_recv r i [] = []"
| "start_recv r i (Recv q (RRead n f) # bs) =
     (if q = r then (i, n, f) # start_recv r (Suc i) bs else start_recv r (Suc i) bs)"
| "start_recv r i (_ # bs) = start_recv r (Suc i) bs"

fun start_result :: "branch \<Rightarrow> byte list" where
  "start_result (Recv q (RDone v)) = v"
| "start_result _ = []"

fun collect :: "nat \<Rightarrow> branch list \<Rightarrow> results \<Rightarrow> byte list list" where
  "collect i [] res = []"
| "collect i (Send q cs # bs) res = [] # collect (Suc i) bs res"
| "collect i (Recv q s # bs) res = res q ! i # collect (Suc i) bs res"

definition idle :: "outq \<Rightarrow> inq \<Rightarrow> bool" where
  "idle oq iq \<longleftrightarrow> oq P0 = [] \<and> oq P1 = [] \<and> oq P2 = [] \<and> iq P0 = [] \<and> iq P1 = [] \<and> iq P2 = []"

primrec settle :: "'a coro \<Rightarrow> 'a thread" where
  "settle (Return a) = Done a"
| "settle (Throw e) = Failed e"
| "settle (Await bs k) =
     (let oq = (\<lambda>r. concat (map (start_send r) bs));
          iq = (\<lambda>r. start_recv r 0 bs);
          res = (\<lambda>r. map start_result bs)
      in if idle oq iq then settle (k (collect 0 bs res))
         else Blocked oq iq res (\<lambda>res. k (collect 0 bs res)))"

definition advance :: "outq \<Rightarrow> inq \<Rightarrow> results \<Rightarrow> (results \<Rightarrow> 'a coro) \<Rightarrow> 'a thread" where
  "advance oq iq res k = (if idle oq iq then settle (k res) else Blocked oq iq res k)"

fun thread_send :: "role \<Rightarrow> 'a thread \<Rightarrow> (byte list \<times> 'a thread) option" where
  "thread_send r (Blocked oq iq res k) =
     (case oq r of
        [] \<Rightarrow> None
      | (c, cs) # q \<Rightarrow>
          Some (c, advance (oq(r := q @ (case cs of [] \<Rightarrow> [] | d # ds \<Rightarrow> [(d, ds)]))) iq res k))"
| "thread_send r _ = None"

fun thread_recv :: "role \<Rightarrow> byte list \<Rightarrow> 'a thread \<Rightarrow> (nat \<times> 'a thread) option" where
  "thread_recv r avail (Blocked oq iq res k) =
     (case iq r of
        [] \<Rightarrow> None
      | (i, n, f) # q \<Rightarrow>
          if length avail < n then None
          else Some (n,
            case f (take n avail) of
              RDone v \<Rightarrow> advance oq (iq(r := q)) (res(r := (res r)[i := v])) k
            | RRead n' f' \<Rightarrow> advance oq (iq(r := q @ [(i, n', f')])) res k))"
| "thread_recv r avail _ = None"


section \<open>The three parties\<close>

type_synonym net = "role \<Rightarrow> role \<Rightarrow> byte list"
type_synonym 'a config = "(role \<Rightarrow> 'a thread) \<times> net"

text \<open>\<open>ASend p q\<close>: party \<open>p\<close>'s next write to \<open>q\<close> completes; \<open>ARecv p q\<close>: its next read from \<open>q\<close>.\<close>

datatype act = ASend role role | ARecv role role

definition push :: "net \<Rightarrow> role \<Rightarrow> role \<Rightarrow> byte list \<Rightarrow> net" where
  "push N p q bs = N(p := (N p)(q := N p q @ bs))"

definition pop :: "net \<Rightarrow> role \<Rightarrow> role \<Rightarrow> nat \<Rightarrow> net" where
  "pop N p q n = N(p := (N p)(q := drop n (N p q)))"

fun fire :: "act \<Rightarrow> 'a config \<Rightarrow> 'a config option" where
  "fire (ASend p q) (ths, N) =
     (case thread_send q (ths p) of
        None \<Rightarrow> None
      | Some (bs, th) \<Rightarrow> Some (ths(p := th), push N p q bs))"
| "fire (ARecv p q) (ths, N) =
     (case thread_recv q (N q p) (ths p) of
        None \<Rightarrow> None
      | Some (n, th) \<Rightarrow> Some (ths(p := th), pop N q p n))"

fun run_sched :: "act list \<Rightarrow> 'a config \<Rightarrow> 'a config option" where
  "run_sched [] c = Some c"
| "run_sched (a # as) c = (case fire a c of None \<Rightarrow> None | Some c' \<Rightarrow> run_sched as c')"

definition start :: "(role \<Rightarrow> 'a coro) \<Rightarrow> net \<Rightarrow> 'a config" where
  "start c N = (\<lambda>r. settle (c r), N)"

text \<open>All connections empty.\<close>

definition quiet :: net where "quiet = (\<lambda>_ _. [])"


section \<open>Transition systems with the diamond property\<close>

locale diamond_lts =
  fixes step :: "'a \<Rightarrow> 's \<Rightarrow> 's option"
    and runs :: "'a list \<Rightarrow> 's \<Rightarrow> 's option"
  assumes diamond: "step a s = Some t \<Longrightarrow> step b s = Some u \<Longrightarrow> a \<noteq> b \<Longrightarrow>
      \<exists>v. step b t = Some v \<and> step a u = Some v"
    and runs_Nil: "runs [] s = Some s"
    and runs_Cons: "runs (a # as) s = (case step a s of None \<Rightarrow> None | Some t \<Rightarrow> runs as t)"
begin

text \<open>
  A step that is possible now can be brought forward in any run to a state where nothing is possible.
\<close>

lemma bring_forward:
  assumes "runs as s = Some f" "\<And>c. step c f = None" "step a s = Some t"
  shows "\<exists>bs. runs bs t = Some f \<and> length as = Suc (length bs)"
  using assms(1,3)
proof (induction as arbitrary: s t)
  case Nil
  then show ?case using assms(2) [of a] by (simp add: runs_Nil)
next
  case (Cons b as)
  then obtain u where u: "step b s = Some u" "runs as u = Some f"
    by (auto simp: runs_Cons split: option.splits)
  show ?case
  proof (cases "a = b")
    case True
    with u Cons.prems show ?thesis by auto
  next
    case False
    with diamond [OF Cons.prems(2) u(1)] obtain v where v: "step b t = Some v" "step a u = Some v" by auto
    from Cons.IH [OF u(2) v(2)] obtain bs where "runs bs v = Some f" "length as = Suc (length bs)" by auto
    with v(1) show ?thesis by (intro exI [of _ "b # bs"]) (simp add: runs_Cons)
  qed
qed

theorem schedule_independent:
  assumes "runs as s = Some f" "\<And>c. step c f = None" "runs bs s = Some t"
  shows "\<exists>cs. runs cs t = Some f \<and> length as = length bs + length cs"
  using assms(1,3)
proof (induction bs arbitrary: as s)
  case Nil
  then show ?case by (auto simp: runs_Nil)
next
  case (Cons b bs)
  then obtain u where u: "step b s = Some u" "runs bs u = Some t"
    by (auto simp: runs_Cons split: option.splits)
  from bring_forward [OF Cons.prems(1) assms(2) u(1)] obtain as' where
    "runs as' u = Some f" "length as = Suc (length as')" by auto
  with Cons.IH [OF _ u(2)] show ?case by fastforce
qed

end

section \<open>Schedule independence\<close>

lemma idle_upd [simp]:
  "x \<noteq> [] \<Longrightarrow> \<not> idle (oq(r := x)) iq" "y \<noteq> [] \<Longrightarrow> \<not> idle oq (iq(r := y))"
  "oq r \<noteq> [] \<Longrightarrow> \<not> idle oq iq" "iq r \<noteq> [] \<Longrightarrow> \<not> idle oq iq"
  by (cases r; simp add: idle_def)+

lemma thread_send_Some:
  "thread_send q th = Some (bs, th') \<longleftrightarrow>
     (\<exists>oq iq res k cs rest. th = Blocked oq iq res k \<and> oq q = (bs, cs) # rest \<and>
        th' = advance (oq(q := rest @ (case cs of [] \<Rightarrow> [] | d # ds \<Rightarrow> [(d, ds)]))) iq res k)"
  by (cases th) (auto split: list.splits)

lemma thread_recv_Some:
  "thread_recv q avail th = Some (n, th') \<longleftrightarrow>
     (\<exists>oq iq res k i f rest. th = Blocked oq iq res k \<and> iq q = (i, n, f) # rest \<and> n \<le> length avail \<and>
        th' = (case f (take n avail) of
              RDone v \<Rightarrow> advance oq (iq(q := rest)) (res(q := (res q)[i := v])) k
            | RRead n' f' \<Rightarrow> advance oq (iq(q := rest @ [(i, n', f')])) res k))"
  by (cases th) (auto split: list.splits if_splits simp: not_less)

lemma advance_busy [simp]:
  "oq r \<noteq> [] \<Longrightarrow> advance oq iq res k = Blocked oq iq res k"
  "iq r \<noteq> [] \<Longrightarrow> advance oq iq res k = Blocked oq iq res k"
  by (simp_all add: advance_def)

text \<open>More available bytes do not change a read.\<close>

lemma thread_recv_append:
  "thread_recv q avail th = Some (n, th') \<Longrightarrow> thread_recv q (avail @ more) th = Some (n, th')"
  by (auto simp: thread_recv_Some)

lemma thread_recv_length: "thread_recv q avail th = Some (n, th') \<Longrightarrow> n \<le> length avail"
  by (auto simp: thread_recv_Some)

text \<open>Different operations of one thread commute.\<close>

lemma thread_send_send:
  assumes "thread_send q th = Some (b1, t1)" "thread_send q' th = Some (b2, t2)" "q \<noteq> q'"
  shows "\<exists>u. thread_send q' t1 = Some (b2, u) \<and> thread_send q t2 = Some (b1, u)"
proof -
  from assms obtain oq iq res k cs rest cs' rest' where
    th: "th = Blocked oq iq res k" "oq q = (b1, cs) # rest" "oq q' = (b2, cs') # rest'"
    "t1 = advance (oq(q := rest @ (case cs of [] \<Rightarrow> [] | d # ds \<Rightarrow> [(d, ds)]))) iq res k"
    "t2 = advance (oq(q' := rest' @ (case cs' of [] \<Rightarrow> [] | d # ds \<Rightarrow> [(d, ds)]))) iq res k"
    by (auto simp: thread_send_Some)
  have "t1 = Blocked (oq(q := rest @ (case cs of [] \<Rightarrow> [] | d # ds \<Rightarrow> [(d, ds)]))) iq res k"
    "t2 = Blocked (oq(q' := rest' @ (case cs' of [] \<Rightarrow> [] | d # ds \<Rightarrow> [(d, ds)]))) iq res k"
    using th assms(3) by (simp_all add: advance_busy(1) [where r = q'] advance_busy(1) [where r = q])
  with th(1-3) assms(3) show ?thesis by (simp add: fun_upd_twist)
qed

lemma thread_send_recv:
  assumes "thread_send q th = Some (b1, t1)" "thread_recv q' avail th = Some (n, t2)"
  shows "\<exists>u. thread_recv q' avail t1 = Some (n, u) \<and> thread_send q t2 = Some (b1, u)"
proof -
  from assms obtain oq iq res k cs rest i f rest' where
    th: "th = Blocked oq iq res k" "oq q = (b1, cs) # rest" "iq q' = (i, n, f) # rest'" "n \<le> length avail"
    "t1 = advance (oq(q := rest @ (case cs of [] \<Rightarrow> [] | d # ds \<Rightarrow> [(d, ds)]))) iq res k"
    "t2 = (case f (take n avail) of
              RDone v \<Rightarrow> advance oq (iq(q' := rest')) (res(q' := (res q')[i := v])) k
            | RRead n' f' \<Rightarrow> advance oq (iq(q' := rest' @ [(i, n', f')])) res k)"
    by (auto simp: thread_send_Some thread_recv_Some)
  then have "t1 = Blocked (oq(q := rest @ (case cs of [] \<Rightarrow> [] | d # ds \<Rightarrow> [(d, ds)]))) iq res k"
    using advance_busy(2) [of iq q'] by auto
  moreover have "t2 = (case f (take n avail) of
              RDone v \<Rightarrow> Blocked oq (iq(q' := rest')) (res(q' := (res q')[i := v])) k
            | RRead n' f' \<Rightarrow> Blocked oq (iq(q' := rest' @ [(i, n', f')])) res k)"
    using th advance_busy(1) [of oq q] by (auto split: rstrand.splits)
  ultimately show ?thesis
    using th(1-4) by (cases "f (take n avail)") (simp_all add: not_less)
qed

lemma thread_recv_recv:
  assumes "thread_recv q av th = Some (n1, t1)" "thread_recv q' av' th = Some (n2, t2)" "q \<noteq> q'"
  shows "\<exists>u. thread_recv q' av' t1 = Some (n2, u) \<and> thread_recv q av t2 = Some (n1, u)"
proof -
  from assms obtain oq iq res k i f rest i' f' rest' where
    th: "th = Blocked oq iq res k" "iq q = (i, n1, f) # rest" "n1 \<le> length av"
    "iq q' = (i', n2, f') # rest'" "n2 \<le> length av'"
    "t1 = (case f (take n1 av) of
              RDone v \<Rightarrow> advance oq (iq(q := rest)) (res(q := (res q)[i := v])) k
            | RRead n' g \<Rightarrow> advance oq (iq(q := rest @ [(i, n', g)])) res k)"
    "t2 = (case f' (take n2 av') of
              RDone v \<Rightarrow> advance oq (iq(q' := rest')) (res(q' := (res q')[i' := v])) k
            | RRead n' g \<Rightarrow> advance oq (iq(q' := rest' @ [(i', n', g)])) res k)"
    by (auto simp: thread_recv_Some)
  have "t1 = (case f (take n1 av) of
              RDone v \<Rightarrow> Blocked oq (iq(q := rest)) (res(q := (res q)[i := v])) k
            | RRead n' g \<Rightarrow> Blocked oq (iq(q := rest @ [(i, n', g)])) res k)"
    using th assms(3) by (simp add: advance_busy(2) [where r = q'] split: rstrand.splits)
  moreover have "t2 = (case f' (take n2 av') of
              RDone v \<Rightarrow> Blocked oq (iq(q' := rest')) (res(q' := (res q')[i' := v])) k
            | RRead n' g \<Rightarrow> Blocked oq (iq(q' := rest' @ [(i', n', g)])) res k)"
    using th assms(3) by (simp add: advance_busy(2) [where r = q] split: rstrand.splits)
  ultimately show ?thesis
    using th(1-5) assms(3) by (cases "f (take n1 av)"; cases "f' (take n2 av')") (simp_all add: not_less fun_upd_twist)
qed

lemma push_pop_commute:
  assumes "n \<le> length (N p q)"
  shows "pop (push N p q bs) p q n = push (pop N p q n) p q bs"
  using assms by (auto simp: push_def pop_def)

lemma net_commute:
  "(p, q) \<noteq> (p', q') \<Longrightarrow> push (push N p q bs) p' q' bs' = push (push N p' q' bs') p q bs"
  "(p, q) \<noteq> (p', q') \<Longrightarrow> pop (push N p q bs) p' q' n = push (pop N p' q' n) p q bs"
  "(p, q) \<noteq> (p', q') \<Longrightarrow> pop (pop N p q m) p' q' n = pop (pop N p' q' n) p q m"
  by (auto simp: push_def pop_def fun_eq_iff)

lemma net_lookup [simp]:
  "push N p q bs p' q' = (if p' = p \<and> q' = q then N p q @ bs else N p' q')"
  "pop N p q n p' q' = (if p' = p \<and> q' = q then drop n (N p q) else N p' q')"
  by (auto simp: push_def pop_def)

lemma fire_Some:
  "fire (ASend p q) (ths, N) = Some c \<longleftrightarrow>
     (\<exists>bs th. thread_send q (ths p) = Some (bs, th) \<and> c = (ths(p := th), push N p q bs))"
  "fire (ARecv p q) (ths, N) = Some c \<longleftrightarrow>
     (\<exists>n th. thread_recv q (N q p) (ths p) = Some (n, th) \<and> c = (ths(p := th), pop N q p n))"
  by (auto split: option.splits)

lemma diamond_send_send:
  assumes "fire (ASend p q) s = Some t" "fire (ASend p' q') s = Some u" "(p, q) \<noteq> (p', q')"
  shows "\<exists>v. fire (ASend p' q') t = Some v \<and> fire (ASend p q) u = Some v"
proof (cases "p = p'")
  case True
  obtain ths N where s: "s = (ths, N)" by (cases s)
  from assms True obtain b1 t1 b2 t2 where st: "thread_send q (ths p) = Some (b1, t1)"
    "thread_send q' (ths p) = Some (b2, t2)" "t = (ths(p := t1), push N p q b1)" "u = (ths(p := t2), push N p q' b2)"
    by (auto simp: s fire_Some simp del: fire.simps)
  obtain w where "thread_send q' t1 = Some (b2, w)" "thread_send q t2 = Some (b1, w)"
    using thread_send_send [OF st(1,2)] assms(3) True by auto
  then show ?thesis using st True assms(3) by (simp add: net_commute)
next
  case False
  then show ?thesis using assms
    by (cases s) (auto simp: fire_Some net_commute fun_upd_twist simp del: fire.simps)
qed

lemma diamond_send_recv:
  assumes "fire (ASend p q) s = Some t" "fire (ARecv p' q') s = Some u"
  shows "\<exists>v. fire (ARecv p' q') t = Some v \<and> fire (ASend p q) u = Some v"
proof -
  obtain ths N where s: "s = (ths, N)" by (cases s)
  from assms obtain b1 t1 n t2 where st: "thread_send q (ths p) = Some (b1, t1)"
    "thread_recv q' (N q' p') (ths p') = Some (n, t2)" "t = (ths(p := t1), push N p q b1)"
    "u = (ths(p' := t2), pop N q' p' n)"
    by (auto simp: s fire_Some simp del: fire.simps)
  have net: "pop (push N p q b1) q' p' n = push (pop N q' p' n) p q b1"
    using thread_recv_length [OF st(2)] by (cases "(p, q) = (q', p')") (auto simp: push_pop_commute net_commute)
  have av: "thread_recv q' (push N p q b1 q' p') th = thread_recv q' (N q' p') th"
    if "thread_recv q' (N q' p') th = Some x" for th :: "'a thread" and x
    using that thread_recv_append by (cases x) auto
  show ?thesis
  proof (cases "p = p'")
    case True
    then obtain w where "thread_recv q' (N q' p') t1 = Some (n, w)" "thread_send q t2 = Some (b1, w)"
      using thread_send_recv [OF st(1), of q' "N q' p'" n t2] st(2) by auto
    then show ?thesis using st True av [of t1] net by simp
  next
    case False
    then show ?thesis using st av [OF st(2)] net by (simp add: fun_upd_twist)
  qed
qed

lemma diamond_recv_recv:
  assumes "fire (ARecv p q) s = Some t" "fire (ARecv p' q') s = Some u" "(p, q) \<noteq> (p', q')"
  shows "\<exists>v. fire (ARecv p' q') t = Some v \<and> fire (ARecv p q) u = Some v"
proof -
  obtain ths N where s: "s = (ths, N)" by (cases s)
  from assms obtain n t1 m t2 where st: "thread_recv q (N q p) (ths p) = Some (n, t1)"
    "thread_recv q' (N q' p') (ths p') = Some (m, t2)" "t = (ths(p := t1), pop N q p n)"
    "u = (ths(p' := t2), pop N q' p' m)"
    by (auto simp: s fire_Some simp del: fire.simps)
  have net: "pop (pop N q p n) q' p' m = pop (pop N q' p' m) q p n"
    using assms(3) by (auto simp: net_commute)
  show ?thesis
  proof (cases "p = p'")
    case True
    then obtain w where "thread_recv q' (N q' p') t1 = Some (m, w)" "thread_recv q (N q p) t2 = Some (n, w)"
      using thread_recv_recv [OF st(1), of q' "N q' p'" m t2] st(2) assms(3) by auto
    then show ?thesis using st True assms(3) net by simp
  next
    case False
    then show ?thesis using st assms(3) net by (simp add: fun_upd_twist)
  qed
qed

lemma fire_diamond:
  assumes "fire a s = Some t" "fire b s = Some u" "a \<noteq> b"
  shows "\<exists>v. fire b t = Some v \<and> fire a u = Some v"
proof (cases a)
  case a: (ASend p q)
  show ?thesis
  proof (cases b)
    case (ASend p' q')
    then show ?thesis using diamond_send_send [of p q s t p' q' u] assms a by auto
  next
    case (ARecv p' q')
    then show ?thesis using diamond_send_recv [of p q s t p' q' u] assms a by auto
  qed
next
  case a: (ARecv p q)
  show ?thesis
  proof (cases b)
    case (ASend p' q')
    then show ?thesis using diamond_send_recv [of p' q' s u p q t] assms a by auto
  next
    case (ARecv p' q')
    then show ?thesis using diamond_recv_recv [of p q s t p' q' u] assms a by auto
  qed
qed

interpretation net_lts: diamond_lts fire run_sched
  by unfold_locales (rule fire_diamond, simp_all)


section \<open>Sequential composition\<close>

text \<open>
  Running \<open>c\<close> in the three parties and then, in each, what its continuation makes of its result: a
  schedule of the first parts is a schedule of the compositions.
\<close>

fun tbind :: "'a thread \<Rightarrow> ('a \<Rightarrow> 'b coro) \<Rightarrow> 'b thread" where
  "tbind (Done a) f = settle (f a)"
| "tbind (Failed e) f = Failed e"
| "tbind (Blocked oq iq res k) f = Blocked oq iq res (\<lambda>r. bind (k r) f)"

lemma settle_bind: "settle (bind c f) = tbind (settle c) f"
  by (induction c) (simp_all add: Let_def)

lemma tbind_advance: "tbind (advance oq iq res k) f = advance oq iq res (\<lambda>r. bind (k r) f)"
  by (simp add: advance_def settle_bind)

lemma thread_send_tbind:
  "thread_send q th = Some (bs, th') \<Longrightarrow> thread_send q (tbind th f) = Some (bs, tbind th' f)"
  by (auto simp: thread_send_Some tbind_advance)

lemma thread_recv_tbind:
  "thread_recv q av th = Some (n, th') \<Longrightarrow> thread_recv q av (tbind th f) = Some (n, tbind th' f)"
proof -
  assume "thread_recv q av th = Some (n, th')"
  then obtain oq iq res k i g rest where th: "th = Blocked oq iq res k" "iq q = (i, n, g) # rest" "n \<le> length av"
    "th' = (case g (take n av) of
              RDone v \<Rightarrow> advance oq (iq(q := rest)) (res(q := (res q)[i := v])) k
            | RRead n' f' \<Rightarrow> advance oq (iq(q := rest @ [(i, n', f')])) res k)"
    unfolding thread_recv_Some by auto
  then show ?thesis
    by (cases "g (take n av)") (simp_all add: tbind_advance not_less)
qed

lemma fire_tbind:
  assumes "fire a (ths, N) = Some (ths', N')"
  shows "fire a (\<lambda>r. tbind (ths r) (f r), N) = Some (\<lambda>r. tbind (ths' r) (f r), N')"
proof (cases a)
  case (ASend p q)
  with assms obtain bs th where "thread_send q (ths p) = Some (bs, th)" "ths' = ths(p := th)" "N' = push N p q bs"
    by (auto simp: fire_Some simp del: fire.simps)
  with ASend show ?thesis
    by (simp add: thread_send_tbind fun_eq_iff)
next
  case (ARecv p q)
  with assms obtain n th where "thread_recv q (N q p) (ths p) = Some (n, th)" "ths' = ths(p := th)" "N' = pop N q p n"
    by (auto simp: fire_Some simp del: fire.simps)
  with ARecv show ?thesis
    by (simp add: thread_recv_tbind fun_eq_iff)
qed

lemma run_sched_tbind:
  "run_sched as (ths, N) = Some (ths', N') \<Longrightarrow>
     run_sched as (\<lambda>r. tbind (ths r) (f r), N) = Some (\<lambda>r. tbind (ths' r) (f r), N')"
proof (induction as arbitrary: ths N)
  case (Cons a as)
  then obtain ths1 N1 where "fire a (ths, N) = Some (ths1, N1)" "run_sched as (ths1, N1) = Some (ths', N')"
    by (auto split: option.splits)
  with fire_tbind [OF this(1), of f] Cons.IH show ?case by simp
qed simp

lemma run_sched_append:
  "run_sched (as @ bs) c = (case run_sched as c of None \<Rightarrow> None | Some d \<Rightarrow> run_sched bs d)"
  by (induction as arbitrary: c) (auto split: option.splits)

text \<open>
  \<open>joint c N v N'\<close>: some schedule takes the three coroutines \<open>c\<close> from network state \<open>N\<close> to the results \<open>v\<close>
  with network state \<open>N'\<close>. \<open>every_run\<close> says that all schedules do: each one is at most as long as a
  bound and can be continued to this outcome, so none fails, blocks or runs on.
\<close>

definition joint :: "(role \<Rightarrow> 'a coro) \<Rightarrow> net \<Rightarrow> (role \<Rightarrow> 'a) \<Rightarrow> net \<Rightarrow> bool" where
  "joint c N v N' \<longleftrightarrow> (\<exists>as. run_sched as (start c N) = Some (\<lambda>r. Done (v r), N'))"

definition every_run :: "(role \<Rightarrow> 'a coro) \<Rightarrow> net \<Rightarrow> (role \<Rightarrow> 'a thread) \<Rightarrow> net \<Rightarrow> bool" where
  "every_run c N ths N' \<longleftrightarrow>
     (\<exists>len. \<forall>as t. run_sched as (start c N) = Some t \<longrightarrow>
        (\<exists>bs. run_sched bs t = Some (ths, N') \<and> length as + length bs = len))"

definition stopped :: "'a thread \<Rightarrow> bool" where
  "stopped th = (case th of Blocked _ _ _ _ \<Rightarrow> False | _ \<Rightarrow> True)"

lemma fire_stopped:
  assumes "\<And>r. stopped (ths r)"
  shows "fire a (ths, N) = None"
proof -
  have "thread_send q (ths p) = None" "thread_recv q av (ths p) = None" for q p av
    using assms [of p] by (cases "ths p"; simp add: stopped_def)+
  then show ?thesis by (cases a) simp_all
qed

lemma every_run_terminalI:
  assumes "run_sched as (start c N) = Some (ths, N')" "\<And>a. fire a (ths, N') = None"
  shows "every_run c N ths N'"
  unfolding every_run_def
proof (rule exI [of _ "length as"], intro allI impI)
  fix bs and t :: "'a config"
  assume t: "run_sched bs (start c N) = Some t"
  from net_lts.schedule_independent [OF assms t]
  show "\<exists>cs. run_sched cs t = Some (ths, N') \<and> length bs + length cs = length as" by auto
qed

lemma every_runI:
  assumes "run_sched as (start c N) = Some (ths, N')" "\<And>r. stopped (ths r)"
  shows "every_run c N ths N'"
  by (rule every_run_terminalI [OF assms(1) fire_stopped [OF assms(2)]])

lemma joint_every_run: "joint c N v N' \<Longrightarrow> every_run c N (\<lambda>r. Done (v r)) N'"
  unfolding joint_def by (auto intro: every_runI simp: stopped_def)

lemma every_run_terminal:
  assumes "every_run c N ths N'" "run_sched as (start c N) = Some t" "\<And>a. fire a t = None"
  shows "t = (ths, N')"
proof -
  obtain bs where "run_sched bs t = Some (ths, N')" using assms(1,2) unfolding every_run_def by blast
  with assms(3) show ?thesis by (cases bs) auto
qed

lemma joint_return: "joint (\<lambda>r. Return (v r)) N v N"
  unfolding joint_def by (intro exI [of _ "[]"]) (simp add: start_def)

lemma joint_bind:
  assumes "joint c N v N'" "joint (\<lambda>r. f r (v r)) N' w N''"
  shows "joint (\<lambda>r. bind (c r) (f r)) N w N''"
proof -
  obtain as bs where "run_sched as (start c N) = Some (\<lambda>r. Done (v r), N')"
    and b: "run_sched bs (start (\<lambda>r. f r (v r)) N') = Some (\<lambda>r. Done (w r), N'')"
    using assms unfolding joint_def by auto
  from run_sched_tbind [OF this(1) [unfolded start_def], where f = f]
  have "run_sched as (start (\<lambda>r. bind (c r) (f r)) N) = Some (start (\<lambda>r. f r (v r)) N')"
    by (simp add: start_def settle_bind)
  with b have "run_sched (as @ bs) (start (\<lambda>r. bind (c r) (f r)) N) = Some (\<lambda>r. Done (w r), N'')"
    by (simp add: run_sched_append)
  then show ?thesis unfolding joint_def by blast
qed


section \<open>Symbolic execution\<close>

text \<open>A function of the role, given by its three values.\<close>

fun three :: "'a \<Rightarrow> 'a \<Rightarrow> 'a \<Rightarrow> role \<Rightarrow> 'a" where
  "three a b c P0 = a"
| "three a b c P1 = b"
| "three a b c P2 = c"

lemma three_eqI: "f P0 = a \<Longrightarrow> f P1 = b \<Longrightarrow> f P2 = c \<Longrightarrow> f = three a b c"
proof
  fix r assume "f P0 = a" "f P1 = b" "f P2 = c"
  then show "f r = three a b c r" by (cases r) simp_all
qed

lemma three_upd [simp]:
  "(three a b c)(P0 := x) = three x b c" "(three a b c)(P1 := x) = three a x c"
  "(three a b c)(P2 := x) = three a b x"
  by (rule three_eqI; simp)+

lemma quiet_three: "quiet = three (three [] [] []) (three [] [] []) (three [] [] [])"
  unfolding quiet_def by (rule three_eqI; rule three_eqI; simp)

lemma settle_Await:
  "settle (Await bs k) =
     (let oq = three (concat (map (start_send P0) bs)) (concat (map (start_send P1) bs))
                 (concat (map (start_send P2) bs));
          iq = three (start_recv P0 0 bs) (start_recv P1 0 bs) (start_recv P2 0 bs);
          res = three (map start_result bs) (map start_result bs) (map start_result bs)
      in advance oq iq res (\<lambda>res. k (collect 0 bs res)))"
proof -
  have "three (concat (map (start_send P0) bs)) (concat (map (start_send P1) bs)) (concat (map (start_send P2) bs))
      = (\<lambda>r. concat (map (start_send r) bs))"
    "three (start_recv P0 0 bs) (start_recv P1 0 bs) (start_recv P2 0 bs) = (\<lambda>r. start_recv r 0 bs)"
    "three (map start_result bs) (map start_result bs) (map start_result bs) = (\<lambda>r. map start_result bs)"
    by (rule three_eqI [symmetric]; simp)+
  then show ?thesis by (simp add: advance_def Let_def)
qed

lemma start_three: "start c N = (three (settle (c P0)) (settle (c P1)) (settle (c P2)), N)"
  unfolding start_def by (auto intro: three_eqI)

lemma joint_threeI:
  assumes "run_sched as (three (settle (c P0)) (settle (c P1)) (settle (c P2)), N)
      = Some (three (Done (v P0)) (Done (v P1)) (Done (v P2)), N')"
  shows "joint c N v N'"
proof -
  have "(\<lambda>r. Done (v r)) = three (Done (v P0)) (Done (v P1)) (Done (v P2))"
    by (rule three_eqI) simp_all
  with assms show ?thesis unfolding joint_def start_three by auto
qed

declare settle.simps(3) [simp del]

lemmas exec_simps = settle_Await advance_def idle_def Let_def push_def pop_def quiet_three

text \<open>A phase of a protocol: from the start of \<open>c\<close> to the start of \<open>d\<close>.\<close>

definition reaches :: "(role \<Rightarrow> 'a coro) \<Rightarrow> net \<Rightarrow> (role \<Rightarrow> 'a coro) \<Rightarrow> net \<Rightarrow> bool" where
  "reaches c N d N' \<longleftrightarrow> (\<exists>as. run_sched as (start c N) = Some (start d N'))"

lemma reaches_joint:
  assumes "reaches c N d N'" "joint d N' v N''"
  shows "joint c N v N''"
proof -
  obtain as bs where "run_sched as (start c N) = Some (start d N')" "run_sched bs (start d N') = Some (\<lambda>r. Done (v r), N'')"
    using assms unfolding reaches_def joint_def by auto
  then have "run_sched (as @ bs) (start c N) = Some (\<lambda>r. Done (v r), N'')"
    by (simp add: run_sched_append)
  then show ?thesis unfolding joint_def by blast
qed

lemma reaches_threeI:
  assumes "run_sched as (three (settle a) (settle b) (settle c), N) = Some (three (settle a') (settle b') (settle c'), N')"
  shows "reaches (three a b c) N (three a' b' c') N'"
  using assms unfolding reaches_def start_three by auto

lemma joint_three_return: "joint (three (Return a) (Return b) (Return c)) N (three a b c) N"
  by (rule joint_threeI [where as = "[]"]) simp

lemma joint_three_every_run:
  assumes "joint c N (three a b d) N'"
  shows "every_run c N (three (Done a) (Done b) (Done d)) N'"
proof -
  have "(\<lambda>r. Done (three a b d r)) = three (Done a) (Done b) (Done d)" by (rule three_eqI) simp_all
  with joint_every_run [OF assms] show ?thesis by simp
qed

lemma joint_three_every_run_ex:
  assumes "\<exists>z0 z1. joint c N (three (v0 z0) (v1 z1) d) N' \<and> Q z0 z1"
  shows "\<exists>z0 z1. every_run c N (three (Done (v0 z0)) (Done (v1 z1)) (Done d)) N' \<and> Q z0 z1"
  using assms joint_three_every_run by metis

lemma joint_three_bind:
  assumes "joint (three a b c) N (three v0 v1 v2) N'" "joint (three (f0 v0) (f1 v1) (f2 v2)) N' w N''"
  shows "joint (three (bind a f0) (bind b f1) (bind c f2)) N w N''"
proof -
  have e: "(\<lambda>r. three f0 f1 f2 r (three v0 v1 v2 r)) = three (f0 v0) (f1 v1) (f2 v2)"
    "(\<lambda>r. bind (three a b c r) (three f0 f1 f2 r)) = three (bind a f0) (bind b f1) (bind c f2)"
    by (rule three_eqI; simp)+
  from joint_bind [OF assms(1), where f = "three f0 f1 f2"] show ?thesis
    unfolding e using assms(2) by blast
qed

lemma reaches_trans: "reaches c N d N' \<Longrightarrow> reaches d N' e N'' \<Longrightarrow> reaches c N e N''"
proof -
  assume "reaches c N d N'" "reaches d N' e N''"
  then obtain as bs where "run_sched as (start c N) = Some (start d N')" "run_sched bs (start d N') = Some (start e N'')"
    unfolding reaches_def by blast
  then have "run_sched (as @ bs) (start c N) = Some (start e N'')" by (simp add: run_sched_append)
  then show ?thesis unfolding reaches_def by blast
qed

lemma reaches_refl: "reaches c N c N"
  unfolding reaches_def by (rule exI [of _ "[]"]) simp

text \<open>A phase that ends in coroutines which have stopped is the outcome of every run.\<close>

lemma reaches_every_run:
  assumes "reaches c N (three a b d) N'" "stopped (settle a)" "stopped (settle b)" "stopped (settle d)"
  shows "every_run c N (three (settle a) (settle b) (settle d)) N'"
proof -
  from assms(1) obtain as where "run_sched as (start c N) = Some (three (settle a) (settle b) (settle d), N')"
    unfolding reaches_def start_three by auto
  moreover have "stopped (three (settle a) (settle b) (settle d) r)" for r using assms(2-4) by (cases r) simp_all
  ultimately show ?thesis by (rule every_runI)
qed

end
