(* ===== verification/Network.thy ===== *)
theory Network
  imports Coro
begin

text \<open>
  \<^verbatim>\<open>mpc/network.hpp\<close> (and the earlier \<^verbatim>\<open>NetPeer\<close> of \<^verbatim>\<open>mpc/common.hpp\<close>): typed sends and receives as branches of
  the coroutine model, the peer table, and the connection retry loop. A socket is named by the
  party at its other end; there is one connection per pair of parties. The label \<^verbatim>\<open>role\<close> of a
  \<^verbatim>\<open>NetPeer\<close> is kept apart from it: a party labels its connection to the dealer with its own role.
\<close>

record netpeer =
  np_role :: role
  np_sock :: role

section \<open>Messages\<close>

text \<open>A trivially copyable value travels as its bytes.\<close>

definition send_val :: "netpeer \<Rightarrow> 'a::len word \<Rightarrow> branch" where
  "send_val p v = Send (np_sock p) [to_bytes v]"

definition recv_val :: "'a::len word itself \<Rightarrow> netpeer \<Rightarrow> branch" where
  "recv_val T p = Recv (np_sock p) (RRead (sizeof T) RDone)"

text \<open>A vector travels as a 64-bit count followed, when it is not empty, by the elements' bytes.\<close>

text \<open>
  \<^verbatim>\<open>async_write\<close> and \<^verbatim>\<open>async_read\<close> are composed: a transfer that the socket takes only in parts goes on behind whatever else is
  outstanding on the same direction. Data of at most one segment is taken whole; where two vectors are outstanding at
  once the properties ask for vectors of at most this many bytes.
\<close>

definition one_segment :: nat where
  "one_segment = 1448"

definition vec_bytes :: "'a::len word list \<Rightarrow> byte list" where
  "vec_bytes vs = concat (map to_bytes vs)"

definition send_vec :: "netpeer \<Rightarrow> 'a::len word list \<Rightarrow> branch" where
  "send_vec p vs =
     (let sz = of_nat (length vs) :: u64
      in Send (np_sock p) (to_bytes sz # (if 0 < sz then [vec_bytes vs] else [])))"

definition recv_vec :: "'a::len word itself \<Rightarrow> netpeer \<Rightarrow> branch" where
  "recv_vec T p =
     Recv (np_sock p) (RRead 8 (\<lambda>b.
       let sz = of_bytes b :: u64 in if 0 < sz then RRead (sizeof T * unat sz) RDone else RDone []))"

definition vec_of_bytes :: "byte list \<Rightarrow> 'a::len word list" where
  "vec_of_bytes bs = map of_bytes (chunks (LENGTH('a) div 8) (length bs div (LENGTH('a) div 8)) bs)"

lemma length_vec_bytes [simp]: "length (vec_bytes (vs :: 'a::len word list)) = length vs * (LENGTH('a) div 8)"
  by (simp add: vec_bytes_def length_concat_map_const)

lemma vec_of_bytes_vec_bytes [simp]:
  assumes "8 dvd LENGTH('a::len)"
  shows "vec_of_bytes (vec_bytes (vs :: 'a word list)) = vs"
proof -
  have "0 < LENGTH('a) div 8" using assms by (simp add: div_greater_zero_iff dvd_imp_le)
  then show ?thesis
    using chunks_concat [of vs to_bytes "LENGTH('a) div 8" "[]"] assms
    by (simp add: vec_of_bytes_def vec_bytes_def length_concat_map_const map_idI)
qed

lemma unat_of_nat_u64 [simp]: "n < 2 ^ 64 \<Longrightarrow> unat (of_nat n :: u64) = n"
  by (simp add: unsigned_of_nat take_bit_nat_eq_self)

lemma of_nat_u64_gt_0: "n < 2 ^ 64 \<Longrightarrow> (0 < (of_nat n :: u64)) = (0 < n)"
  by (metis unat_0 unat_of_nat_u64 word_less_nat_alt)


section \<open>Peers\<close>

record net_context =
  nc_self_role :: role
  nc_peers :: "netpeer list"

definition add_peer :: "net_context \<Rightarrow> role \<Rightarrow> role \<Rightarrow> net_context" where
  "add_peer nc r sock = nc\<lparr>nc_peers := nc_peers nc @ [\<lparr>np_role = r, np_sock = sock\<rparr>]\<rparr>"

fun find_peer :: "netpeer list \<Rightarrow> role \<Rightarrow> netpeer result" where
  "find_peer [] r = Inl (Runtime_error ''peer not found'')"
| "find_peer (p # ps) r = (if np_role p = r then Inr p else find_peer ps r)"

definition nc_peer :: "net_context \<Rightarrow> role \<Rightarrow> netpeer result" where
  "nc_peer nc r = find_peer (nc_peers nc) r"

lemma find_peer_append:
  "find_peer (ps @ qs) r = (case find_peer ps r of Inl e \<Rightarrow> find_peer qs r | Inr p \<Rightarrow> Inr p)"
  by (induction ps) auto

lemma find_peer_Inl: "find_peer ps r = Inl e \<Longrightarrow> e = Runtime_error ''peer not found''"
  by (induction ps) (auto split: if_splits)

lemma nc_peer_add:
  "nc_peer (add_peer nc r sock) r' =
     (case nc_peer nc r' of
        Inr p \<Rightarrow> Inr p
      | Inl e \<Rightarrow> if r' = r then Inr \<lparr>np_role = r, np_sock = sock\<rparr> else Inl e)"
  by (auto simp: nc_peer_def add_peer_def find_peer_append dest: find_peer_Inl split: sum.splits)


section \<open>Connecting\<close>

text \<open>
  \<^verbatim>\<open>connect_with_retry\<close>: \<open>dial i\<close> is what resolving and connecting gives at attempt \<open>i\<close> (from 0). With
  \<^verbatim>\<open>max_tries <= 0\<close> the loop need not end; the code's \<^verbatim>\<open>int\<close> counter then overflows after \<open>2 ^ 31\<close> attempts, which is not modelled.
\<close>

partial_function (option) connect_loop :: "(nat \<Rightarrow> 's result) \<Rightarrow> int \<Rightarrow> nat \<Rightarrow> 's result option" where
  "connect_loop dial max_tries attempt =
     (case dial attempt of
        Inr s \<Rightarrow> Some (Inr s)
      | Inl e \<Rightarrow>
          if max_tries > 0 \<and> int (attempt + 1) \<ge> max_tries then Some (Inl e)
          else connect_loop dial max_tries (attempt + 1))"

definition connect_with_retry :: "(nat \<Rightarrow> 's result) \<Rightarrow> int \<Rightarrow> 's result option" where
  "connect_with_retry dial max_tries = connect_loop dial max_tries 0"

lemma connect_loop_success:
  assumes "\<And>j. a \<le> j \<Longrightarrow> j < a + k \<Longrightarrow> \<exists>e. dial j = Inl e" "dial (a + k) = Inr s"
    "max_tries \<le> 0 \<or> int (a + k) < max_tries"
  shows "connect_loop dial max_tries a = Some (Inr s)"
  using assms
proof (induction k arbitrary: a)
  case 0
  then show ?case by (simp add: connect_loop.simps [of dial max_tries a])
next
  case (Suc k)
  from Suc.prems(1) [of a] obtain e where e: "dial a = Inl e" by auto
  have "connect_loop dial max_tries (a + 1) = Some (Inr s)"
    using Suc.prems by (intro Suc.IH) auto
  then show ?case
    using Suc.prems(3) e by (subst connect_loop.simps) auto
qed

lemma connect_loop_failure:
  assumes "\<And>j. a \<le> j \<Longrightarrow> j \<le> a + k \<Longrightarrow> dial j = Inl (e j)" "max_tries = int (a + k) + 1"
  shows "connect_loop dial max_tries a = Some (Inl (e (a + k)))"
  using assms
proof (induction k arbitrary: a)
  case 0
  then show ?case by (subst connect_loop.simps) simp
next
  case (Suc k)
  have "connect_loop dial max_tries (a + 1) = Some (Inl (e (a + 1 + k)))"
    using Suc.prems by (intro Suc.IH) auto
  then show ?case
    using Suc.prems by (subst connect_loop.simps) simp
qed

end
