(* ===== verification/Shares.thy ===== *)
theory Shares
  imports Network
begin

text \<open>
  \<^verbatim>\<open>mpc/shares.hpp\<close>: the party's context with its randomness tapes, the two kinds of shares and their
  local operations, sharing, and reconstruction over the network. A party has one \<^verbatim>\<open>MPCContext\<close>; a
  share's pointer to it is \<open>Null\<close> or \<open>Ctx\<close>. Beside the context the state of a party holds the
  thread-local generator behind \<^verbatim>\<open>arc4random_buf\<close>, as an arbitrary infinite byte sequence with a
  position.
\<close>

datatype rand_mode = Online | Record | Replay

text \<open>
  A file stream is \<open>None\<close> when it is not open or in a failed state. The counters are \<open>None\<close> until a
  value has been stored in them: the constructor of \<^verbatim>\<open>MPCContext\<close> leaves them uninitialised.
\<close>

type_synonym fstream = "byte list option"

record mpc_ctx =
  mc_role :: role
  mc_self :: netpeer
  mc_peer0 :: "netpeer option"
  mc_peer1 :: "netpeer option"
  mc_mode :: rand_mode
  rand_out :: fstream
  rand_in :: fstream
  mul_out_p0 :: fstream
  mul_out_p1 :: fstream
  mul_in_p0 :: fstream
  mul_in_p1 :: fstream
  and_out_p0 :: fstream
  and_out_p1 :: fstream
  and_in_p0 :: fstream
  and_in_p1 :: fstream
  mul_ctr :: "u64 option"
  and_ctr :: "u64 option"

definition MPCContext :: "role \<Rightarrow> netpeer \<Rightarrow> netpeer option \<Rightarrow> netpeer option \<Rightarrow> mpc_ctx" where
  "MPCContext r s p0 p1 =
     \<lparr>mc_role = r, mc_self = s, mc_peer0 = p0, mc_peer1 = p1, mc_mode = Online,
      rand_out = None, rand_in = None,
      mul_out_p0 = None, mul_out_p1 = None, mul_in_p0 = None, mul_in_p1 = None,
      and_out_p0 = None, and_out_p1 = None, and_in_p0 = None, and_in_p1 = None,
      mul_ctr = None, and_ctr = None\<rparr>"

record pstate =
  ps_ctx :: mpc_ctx
  ps_rng :: "nat \<Rightarrow> byte"
  ps_pos :: nat

definition fwrite :: "fstream \<Rightarrow> byte list \<Rightarrow> fstream" where
  "fwrite f bs = map_option (\<lambda>c. c @ bs) f"

text \<open>A read that comes up short sets the fail state and leaves the variable undetermined.\<close>

definition fread :: "nat \<Rightarrow> fstream \<Rightarrow> (byte list \<times> fstream) option" where
  "fread n f = (case f of None \<Rightarrow> None | Some c \<Rightarrow> if length c < n then None else Some (take n c, Some (drop n c)))"

lemma fread_append [simp]: "length bs = n \<Longrightarrow> fread n (Some (bs @ c)) = Some (bs, Some c)"
  by (simp add: fread_def)

lemma fwrite_Some [simp]: "fwrite (Some c) bs = Some (c @ bs)"
  by (simp add: fwrite_def)


section \<open>Randomness\<close>

definition arc4random_buf :: "nat \<Rightarrow> pstate \<Rightarrow> byte list \<times> pstate" where
  "arc4random_buf n st = (map (\<lambda>i. ps_rng st (ps_pos st + i)) [0..<n], st\<lparr>ps_pos := ps_pos st + n\<rparr>)"

definition arc4random_val :: "pstate \<Rightarrow> 'a::len word \<times> pstate" where
  "arc4random_val st = (let (bs, st') = arc4random_buf (LENGTH('a) div 8) st in (of_bytes bs, st'))"

definition mpc_random :: "pstate \<Rightarrow> ('a::len word \<times> pstate) result" where
  "mpc_random st =
     (case mc_mode (ps_ctx st) of
        Online \<Rightarrow> Inr (arc4random_val st)
      | Record \<Rightarrow>
          let (v, st) = arc4random_val st;
              out = fwrite (rand_out (ps_ctx st)) (to_bytes v)
          in if out = None then Inl (Runtime_error ''Failed to record randomness'')
             else Inr (v, st\<lparr>ps_ctx := (ps_ctx st)\<lparr>rand_out := out\<rparr>\<rparr>)
      | Replay \<Rightarrow>
          (case fread (LENGTH('a) div 8) (rand_in (ps_ctx st)) of
             None \<Rightarrow> Inl (Runtime_error ''Out of preprocessing randomness'')
           | Some (bs, rest) \<Rightarrow> Inr (of_bytes bs, st\<lparr>ps_ctx := (ps_ctx st)\<lparr>rand_in := rest\<rparr>\<rparr>)))"


section \<open>Shares\<close>

datatype ctx_ptr = Null | Ctx

record 'v xshare =
  xs_val :: 'v
  xs_ctx :: ctx_ptr

record 'v ashare =
  as_val :: 'v
  as_ctx :: ctx_ptr

definition XShare :: "'v \<Rightarrow> ctx_ptr \<Rightarrow> 'v xshare" where
  "XShare v c = \<lparr>xs_val = v, xs_ctx = c\<rparr>"

definition AShare :: "'v \<Rightarrow> ctx_ptr \<Rightarrow> 'v ashare" where
  "AShare v c = \<lparr>as_val = v, as_ctx = c\<rparr>"

definition xshare_xor :: "'a::len word xshare \<Rightarrow> 'a word xshare \<Rightarrow> 'a word xshare" where
  "xshare_xor a b = XShare (xs_val a XOR xs_val b) (xs_ctx a)"

definition xshare_xor_assign :: "'a::len word xshare \<Rightarrow> 'a word xshare \<Rightarrow> 'a word xshare" where
  "xshare_xor_assign a b = a\<lparr>xs_val := xs_val a XOR xs_val b\<rparr>"

definition xshare_plus :: "'a::len word xshare \<Rightarrow> 'a word xshare \<Rightarrow> 'a word xshare" where
  "xshare_plus a b = xshare_xor a b"

definition xshare_minus :: "'a::len word xshare \<Rightarrow> 'a word xshare \<Rightarrow> 'a word xshare" where
  "xshare_minus a b = xshare_xor a b"

definition ashare_plus :: "'a::len word ashare \<Rightarrow> 'a word ashare \<Rightarrow> 'a word ashare" where
  "ashare_plus a b = AShare (as_val a + as_val b) (as_ctx a)"

definition ashare_minus :: "'a::len word ashare \<Rightarrow> 'a word ashare \<Rightarrow> 'a word ashare" where
  "ashare_minus a b = AShare (as_val a - as_val b) (as_ctx a)"

definition ashare_plus_assign :: "'a::len word ashare \<Rightarrow> 'a word ashare \<Rightarrow> 'a word ashare" where
  "ashare_plus_assign a b = a\<lparr>as_val := as_val a + as_val b\<rparr>"

text \<open>Vectors of shares; the element-wise operators throw on a size mismatch.\<close>

record 'v xshare_vec =
  xv_vals :: "'v list"

record 'v ashare_vec =
  av_vals :: "'v list"
  av_ctx :: ctx_ptr

definition xvec_xor :: "'a::len word xshare_vec \<Rightarrow> 'a word xshare_vec \<Rightarrow> 'a word xshare_vec result" where
  "xvec_xor a b =
     (if length (xv_vals a) \<noteq> length (xv_vals b) then Inl (Runtime_error ''XorShareVector size mismatch'')
      else Inr \<lparr>xv_vals = map (\<lambda>i. xv_vals a ! i XOR xv_vals b ! i) [0..<length (xv_vals a)]\<rparr>)"

definition avec_plus :: "'a::len word ashare_vec \<Rightarrow> 'a word ashare_vec \<Rightarrow> 'a word ashare_vec result" where
  "avec_plus a b =
     (if length (av_vals a) \<noteq> length (av_vals b) then Inl (Runtime_error ''AdditiveShareVector size mismatch'')
      else Inr \<lparr>av_vals = map (\<lambda>i. av_vals a ! i + av_vals b ! i) [0..<length (av_vals a)], av_ctx = av_ctx a\<rparr>)"

definition avec_minus :: "'a::len word ashare_vec \<Rightarrow> 'a word ashare_vec \<Rightarrow> 'a word ashare_vec result" where
  "avec_minus a b =
     (if length (av_vals a) \<noteq> length (av_vals b) then Inl (Runtime_error ''AdditiveShareVector size mismatch'')
      else Inr \<lparr>av_vals = map (\<lambda>i. av_vals a ! i - av_vals b ! i) [0..<length (av_vals a)], av_ctx = av_ctx a\<rparr>)"

text \<open>Sharing a secret; \<open>rnd\<close> is the result of \<^verbatim>\<open>random_u64\<close>.\<close>

definition share_secret_additive :: "u64 \<Rightarrow> 'a::len word \<Rightarrow> 'a word ashare \<times> 'a word ashare" where
  "share_secret_additive rnd secret =
     (let s0 = ucast rnd; s1 = secret - s0 in (AShare s0 Null, AShare s1 Null))"

definition share_secret_xor :: "u64 \<Rightarrow> 'a::len word \<Rightarrow> 'a word xshare \<times> 'a word xshare" where
  "share_secret_xor rnd secret =
     (let s0 = ucast rnd; s1 = s0 XOR secret in (XShare s0 Null, XShare s1 Null))"


section \<open>Reconstruction\<close>

definition reconstruct_remote_A :: "netpeer \<Rightarrow> 'a::len word ashare \<Rightarrow> 'a word coro" where
  "reconstruct_remote_A peer my_share =
     Await [send_val peer (as_val my_share)] (\<lambda>_.
     Await [recv_val TYPE('a word) peer] (\<lambda>r.
     Return (as_val my_share + of_bytes (r ! 0))))"

definition reconstruct_remote_X :: "netpeer \<Rightarrow> 'a::len word xshare \<Rightarrow> 'a word coro" where
  "reconstruct_remote_X peer my_share =
     Await [send_val peer (xs_val my_share)] (\<lambda>_.
     Await [recv_val TYPE('a word) peer] (\<lambda>r.
     Return (xs_val my_share XOR of_bytes (r ! 0))))"

definition reconstruct_remote_vector :: "netpeer \<Rightarrow> 'a::len word xshare_vec \<Rightarrow> 'a word list coro" where
  "reconstruct_remote_vector peer my_share =
     Await [send_vec peer (xv_vals my_share)] (\<lambda>_.
     Await [recv_vec TYPE('a word) peer] (\<lambda>r.
     let other = vec_of_bytes (r ! 0) :: 'a word list
     in if length other \<noteq> length (xv_vals my_share)
        then Throw (Runtime_error ''reconstruct_remote_vector: size mismatch'')
        else Return (map (\<lambda>i. xv_vals my_share ! i XOR other ! i) [0..<length other])))"


section \<open>Lemmas\<close>

lemma share_simps [simp]:
  "xs_val (XShare v c) = v" "xs_ctx (XShare v c) = c" "as_val (AShare v c) = v" "as_ctx (AShare v c) = c"
  by (simp_all add: XShare_def AShare_def)

text \<open>
  What the protocols assume of a party: the connection to the dealer and to the other computing
  party, under the party's own and the other's label.
\<close>

definition peer_at :: "role \<Rightarrow> role \<Rightarrow> netpeer" where
  "peer_at label remote = \<lparr>np_role = label, np_sock = remote\<rparr>"

lemma np_sock_peer_at [simp]: "np_sock (peer_at l r) = r"
  by (simp add: peer_at_def)

lemmas msg_simps = send_val_def recv_val_def sizeof_def

lemma exchange_A:
  assumes [simp]: "8 dvd LENGTH('a::len)"
  shows "joint (three (reconstruct_remote_A (peer_at P1 P1) a) (reconstruct_remote_A (peer_at P0 P0) b) (Return 0))
     quiet (three (as_val a + as_val b :: 'a word) (as_val a + as_val b) 0) quiet"
  by (rule joint_threeI [where as = "[ASend P0 P1, ASend P1 P0, ARecv P0 P1, ARecv P1 P0]"])
    (simp add: exec_simps reconstruct_remote_A_def msg_simps add.commute)

lemma exchange_X:
  assumes [simp]: "8 dvd LENGTH('a::len)"
  shows "joint (three (reconstruct_remote_X (peer_at P1 P1) a) (reconstruct_remote_X (peer_at P0 P0) b) (Return 0))
     quiet (three (xs_val a XOR xs_val b :: 'a word) (xs_val a XOR xs_val b) 0) quiet"
  by (rule joint_threeI [where as = "[ASend P0 P1, ASend P1 P0, ARecv P0 P1, ARecv P1 P0]"])
    (simp add: exec_simps reconstruct_remote_X_def msg_simps xor.commute)

lemma mpc_random_Online [simp]:
  "mc_mode (ps_ctx st) = Online \<Longrightarrow> mpc_random st = Inr (arc4random_val st)"
  by (simp add: mpc_random_def)

lemma arc4random_val_ctx [simp]: "ps_ctx (snd (arc4random_val st)) = ps_ctx st"
  by (simp add: arc4random_val_def arc4random_buf_def)

text \<open>What is recorded replays: the same value comes back, and the tape is consumed exactly.\<close>

lemma mpc_random_record_replay:
  assumes "mc_mode (ps_ctx st) = Record" "rand_out (ps_ctx st) = Some c"
    and "mc_mode (ps_ctx st') = Replay" "8 dvd LENGTH('a::len)"
  shows "\<exists>v w. mpc_random st = Inr (v :: 'a word, w) \<and> rand_out (ps_ctx w) = Some (c @ to_bytes v) \<and>
    (rand_in (ps_ctx st') = Some (to_bytes v @ rest) \<longrightarrow>
      mpc_random st' = Inr (v, st'\<lparr>ps_ctx := (ps_ctx st')\<lparr>rand_in := Some rest\<rparr>\<rparr>))"
  using assms
  by (auto simp: mpc_random_def arc4random_val_def arc4random_buf_def Let_def)

lemma exchange_vec:
  assumes [simp]: "8 dvd LENGTH('a::len)" and len: "length xs = length ys" "length ys < 2 ^ 64"
  shows "joint (three (reconstruct_remote_vector (peer_at P1 P1) \<lparr>xv_vals = xs\<rparr>)
      (reconstruct_remote_vector (peer_at P0 P0) \<lparr>xv_vals = ys\<rparr>) (Return []))
     quiet (three (map2 (XOR) xs ys :: 'a word list) (map2 (XOR) xs ys) []) quiet"
proof -
  have eq: "map (\<lambda>i. xs ! i XOR ys ! i) [0..<length ys] = map2 (XOR) xs ys"
    "map (\<lambda>i. ys ! i XOR xs ! i) [0..<length ys] = map2 (XOR) xs ys"
    by (rule nth_equalityI; simp add: len(1) xor.commute)+
  show ?thesis
  proof (cases "ys = []")
    case True
    then have e: "ys = []" "xs = []" using len(1) by simp_all
    have v: "vec_of_bytes [] = ([] :: 'a word list)" by (simp add: vec_of_bytes_def)
    show ?thesis
      unfolding e
      by (rule joint_threeI [where as = "[ASend P0 P1, ASend P1 P0, ARecv P0 P1, ARecv P1 P0]"])
        (simp add: exec_simps reconstruct_remote_vector_def send_vec_def recv_vec_def v)
  next
    case False
    define sz where "sz = (of_nat (length ys) :: u64)"
    have sz: "0 < sz" "unat sz = length ys" "sizeof TYPE('a word) * unat sz = length (vec_bytes ys)"
      "length (vec_bytes xs) = length (vec_bytes ys)"
      using False len by (simp_all add: sz_def of_nat_u64_gt_0 sizeof_def)
    define dx dy where "dx = vec_bytes xs" and "dy = vec_bytes ys"
    have d: "vec_of_bytes dx = xs" "vec_of_bytes dy = ys" "length dx = length dy"
      by (simp_all add: dx_def dy_def len(1))
    have branches: "send_vec p xs = Send (np_sock p) [to_bytes sz, dx]" "send_vec p ys = Send (np_sock p) [to_bytes sz, dy]"
      for p using sz by (simp_all add: send_vec_def dx_def dy_def len(1) flip: sz_def)
    have recv: "recv_vec TYPE('a word) p = Recv (np_sock p) (RRead 8 (\<lambda>b.
       let sz = of_bytes b :: u64 in if 0 < sz then RRead (sizeof TYPE('a word) * unat sz) RDone else RDone []))" for p
      by (simp add: recv_vec_def)
    have n: "sizeof TYPE('a word) * unat sz = length dy" using sz by (simp add: dy_def)
    show ?thesis
      by (rule joint_threeI [where as = "[ASend P0 P1, ASend P0 P1, ASend P1 P0, ASend P1 P0,
            ARecv P0 P1, ARecv P0 P1, ARecv P1 P0, ARecv P1 P0]"])
        (simp add: exec_simps reconstruct_remote_vector_def branches recv n sz(1) d eq len(1))
  qed
qed

end
