(* ===== verification/M128.thy ===== *)
theory M128
  imports Prelude
begin

text \<open>
  The 128- and 256-bit blocks of \<^verbatim>\<open>mpc/types.hpp\<close> and \<^verbatim>\<open>mpc/common.hpp\<close>: the SSE/AVX
  intrinsics the code uses, as operations on \<open>128 word\<close> and \<open>256 word\<close>; the mask tables and
  the bit helpers \<^verbatim>\<open>xor_if\<close>, \<^verbatim>\<open>get_lsb\<close>, \<^verbatim>\<open>clear_lsb\<close>, \<^verbatim>\<open>set_lsb\<close>, \<^verbatim>\<open>set_lsbs\<close>; and
  the arithmetic modulo \<open>2 ^ 128\<close> assembled from 64-bit halves, with \<^verbatim>\<open>struct mX\<close> on top of it.
  The lemmas show that the half-word arithmetic is the ring arithmetic of \<open>128 word\<close>.
\<close>

section \<open>Intrinsics\<close>

definition mm_set_epi64x :: "u64 \<Rightarrow> u64 \<Rightarrow> m128" where
  "mm_set_epi64x hi lo = push_bit 64 (ucast hi) OR ucast lo"

definition mm_cvtsi128_si64 :: "m128 \<Rightarrow> u64" where
  "mm_cvtsi128_si64 a = ucast a"

definition mm_extract_epi64_1 :: "m128 \<Rightarrow> u64" where
  "mm_extract_epi64_1 a = ucast (drop_bit 64 a)"

definition mm256_set_epi64x :: "u64 \<Rightarrow> u64 \<Rightarrow> u64 \<Rightarrow> u64 \<Rightarrow> m256" where
  "mm256_set_epi64x e3 e2 e1 e0 =
     push_bit 192 (ucast e3) OR push_bit 128 (ucast e2) OR push_bit 64 (ucast e1) OR ucast e0"

text \<open>\<^verbatim>\<open>_mm_testz_si128(a, b)\<close>: 1 when \<open>a AND b\<close> is zero.\<close>

definition mm_testz :: "'a::len word \<Rightarrow> 'a word \<Rightarrow> u8" where
  "mm_testz a b = (if a AND b = 0 then 1 else 0)"


section \<open>Mask tables and bit helpers\<close>

definition bool128_mask :: "m128 list" where
  "bool128_mask = [mm_set_epi64x 0 1, mm_set_epi64x 1 0]"

definition lsb128_mask :: "m128 list" where
  "lsb128_mask = [0, mm_set_epi64x 0 1, mm_set_epi64x 0 2, mm_set_epi64x 0 3]"

definition lsb128_mask_inv :: "m128 list" where
  "lsb128_mask_inv =
     [-1, mm_set_epi64x (-1) (-2), mm_set_epi64x (-1) (-3), mm_set_epi64x (-1) (-4)]"

definition if128_mask :: "m128 list" where
  "if128_mask = [0, -1]"

definition bool256_mask :: "m256 list" where
  "bool256_mask =
     [mm256_set_epi64x 0 0 0 1, mm256_set_epi64x 0 0 1 0,
      mm256_set_epi64x 0 1 0 0, mm256_set_epi64x 1 0 0 0]"

definition lsb256_mask :: "m256 list" where
  "lsb256_mask =
     [0, mm256_set_epi64x 0 0 0 1, mm256_set_epi64x 0 0 0 2, mm256_set_epi64x 0 0 0 3]"

definition lsb256_mask_inv :: "m256 list" where
  "lsb256_mask_inv =
     [-1, mm256_set_epi64x (-1) (-1) (-1) (-2), mm256_set_epi64x (-1) (-1) (-1) (-3),
      mm256_set_epi64x (-1) (-1) (-1) (-4)]"

definition if256_mask :: "m256 list" where
  "if256_mask = [0, -1]"

definition xor_if :: "m128 \<Rightarrow> m128 \<Rightarrow> bool \<Rightarrow> m128" where
  "xor_if block1 block2 flag = block1 XOR (block2 AND if128_mask ! (if flag then 1 else 0))"

definition xor_if_256 :: "m256 \<Rightarrow> m256 \<Rightarrow> bool \<Rightarrow> m256" where
  "xor_if_256 block1 block2 flag = block1 XOR (block2 AND if256_mask ! (if flag then 1 else 0))"

definition get_lsb :: "m128 \<Rightarrow> nat \<Rightarrow> u8" where
  "get_lsb block bits =
     (let vcmp = (block AND lsb128_mask ! bits) XOR lsb128_mask ! bits in mm_testz vcmp vcmp)"

definition get_lsb_256 :: "m256 \<Rightarrow> nat \<Rightarrow> u8" where
  "get_lsb_256 block bits =
     (let vcmp = (block AND lsb256_mask ! bits) XOR lsb256_mask ! bits in mm_testz vcmp vcmp)"

definition clear_lsb :: "m128 \<Rightarrow> nat \<Rightarrow> m128" where
  "clear_lsb block bits = block AND lsb128_mask_inv ! bits"

definition clear_lsb_256 :: "m256 \<Rightarrow> nat \<Rightarrow> m256" where
  "clear_lsb_256 block bits = block AND lsb256_mask_inv ! bits"

definition set_lsb :: "m128 \<Rightarrow> bool \<Rightarrow> m128" where
  "set_lsb block val = clear_lsb block 1 OR lsb128_mask ! (if val then 1 else 0)"

definition set_lsb_256 :: "m256 \<Rightarrow> bool \<Rightarrow> m256" where
  "set_lsb_256 block val = clear_lsb_256 block 1 OR lsb256_mask ! (if val then 1 else 0)"

definition set_lsbs :: "m128 \<Rightarrow> bool \<times> bool \<Rightarrow> m128" where
  "set_lsbs block bits =
     (let i = (if fst bits then 1 else 0) + 2 * (if snd bits then 1 else 0)
      in clear_lsb block 3 OR lsb128_mask ! i)"

definition set_lsbs_256 :: "m256 \<Rightarrow> bool \<times> bool \<Rightarrow> m256" where
  "set_lsbs_256 block bits =
     (let i = (if fst bits then 1 else 0) + 2 * (if snd bits then 1 else 0)
      in clear_lsb_256 block 3 OR lsb256_mask ! i)"


section \<open>Arithmetic modulo \<open>2 ^ 128\<close>\<close>

definition mul128_mod2_128 :: "m128 \<Rightarrow> m128 \<Rightarrow> m128" where
  "mul128_mod2_128 a b =
     (let a_lo = mm_cvtsi128_si64 a; a_hi = mm_extract_epi64_1 a;
          b_lo = mm_cvtsi128_si64 b; b_hi = mm_extract_epi64_1 b;
          lo = (ucast a_lo :: m128) * ucast b_lo;
          mid1 = (ucast a_lo :: m128) * ucast b_hi;
          mid2 = (ucast a_hi :: m128) * ucast b_lo;
          r = lo + push_bit 64 (mid1 + mid2);
          r_lo = ucast r :: u64;
          r_hi = ucast (drop_bit 64 r) :: u64
      in mm_set_epi64x r_hi r_lo)"

definition add128_mod2_128 :: "m128 \<Rightarrow> m128 \<Rightarrow> m128" where
  "add128_mod2_128 a b =
     (let a_lo = mm_cvtsi128_si64 a; a_hi = mm_extract_epi64_1 a;
          b_lo = mm_cvtsi128_si64 b; b_hi = mm_extract_epi64_1 b;
          lo = a_lo + b_lo;
          carry = (if lo < a_lo then 1 else 0);
          hi = a_hi + b_hi + carry
      in mm_set_epi64x hi lo)"

definition sub128_mod2_128 :: "m128 \<Rightarrow> m128 \<Rightarrow> m128" where
  "sub128_mod2_128 a b =
     (let a_lo = mm_cvtsi128_si64 a; a_hi = mm_extract_epi64_1 a;
          b_lo = mm_cvtsi128_si64 b; b_hi = mm_extract_epi64_1 b;
          lo = a_lo - b_lo;
          borrow = (if a_lo < b_lo then 1 else 0);
          hi = a_hi - b_hi - borrow
      in mm_set_epi64x hi lo)"

datatype mX = mX (mx_v: m128)

definition mX_of_halves :: "u64 \<Rightarrow> u64 \<Rightarrow> mX" where
  "mX_of_halves hi lo = mX (mm_set_epi64x hi lo)"

definition mX_lo :: "mX \<Rightarrow> u64" where "mX_lo x = mm_cvtsi128_si64 (mx_v x)"
definition mX_hi :: "mX \<Rightarrow> u64" where "mX_hi x = mm_extract_epi64_1 (mx_v x)"

definition mX_plus :: "mX \<Rightarrow> mX \<Rightarrow> mX" where
  "mX_plus x y = mX (add128_mod2_128 (mx_v x) (mx_v y))"
definition mX_minus :: "mX \<Rightarrow> mX \<Rightarrow> mX" where
  "mX_minus x y = mX (sub128_mod2_128 (mx_v x) (mx_v y))"
definition mX_times :: "mX \<Rightarrow> mX \<Rightarrow> mX" where
  "mX_times x y = mX (mul128_mod2_128 (mx_v x) (mx_v y))"

definition mX_times_u8 :: "mX \<Rightarrow> u8 \<Rightarrow> mX" where
  "mX_times_u8 x s = mX (mul128_mod2_128 (mx_v x) (mm_set_epi64x 0 (ucast s)))"
definition mX_plus_u8 :: "mX \<Rightarrow> u8 \<Rightarrow> mX" where
  "mX_plus_u8 x s = mX (add128_mod2_128 (mx_v x) (mm_set_epi64x 0 (ucast s)))"
definition mX_minus_u8 :: "mX \<Rightarrow> u8 \<Rightarrow> mX" where
  "mX_minus_u8 x s = mX (sub128_mod2_128 (mx_v x) (mm_set_epi64x 0 (ucast s)))"
definition u8_minus_mX :: "u8 \<Rightarrow> mX \<Rightarrow> mX" where
  "u8_minus_mX s x = mX (sub128_mod2_128 (mm_set_epi64x 0 (ucast s)) (mx_v x))"

definition mX_and :: "mX \<Rightarrow> mX \<Rightarrow> mX" where "mX_and x y = mX (mx_v x AND mx_v y)"
definition mX_or :: "mX \<Rightarrow> mX \<Rightarrow> mX" where "mX_or x y = mX (mx_v x OR mx_v y)"
definition mX_xor :: "mX \<Rightarrow> mX \<Rightarrow> mX" where "mX_xor x y = mX (mx_v x XOR mx_v y)"
definition mX_not :: "mX \<Rightarrow> mX" where "mX_not x = mX (mx_v x XOR -1)"

definition mX_eq :: "mX \<Rightarrow> mX \<Rightarrow> bool" where
  "mX_eq x y = (let cmp = mx_v x XOR mx_v y in mm_testz cmp cmp \<noteq> 0)"


section \<open>Lemmas\<close>

subsection \<open>Halves\<close>

lemma bit_mm_set_epi64x:
  "bit (mm_set_epi64x hi lo) i \<longleftrightarrow> (if i < 64 then bit lo i else bit hi (i - 64))"
proof (cases "i < 64")
  case True
  then show ?thesis
    by (auto simp: mm_set_epi64x_def bit_simps)
next
  case False
  then have "\<not> bit lo i"
    using bit_imp_le_length [of lo i] by auto
  with False show ?thesis
    by (auto simp: mm_set_epi64x_def bit_simps dest: bit_imp_le_length)
qed

lemma mm_halves [simp]:
  "mm_cvtsi128_si64 (mm_set_epi64x hi lo) = lo"
  "mm_extract_epi64_1 (mm_set_epi64x hi lo) = hi"
  by (rule bit_word_eqI,
      simp add: mm_cvtsi128_si64_def mm_extract_epi64_1_def bit_simps bit_mm_set_epi64x)+

lemma mm_set_halves [simp]: "mm_set_epi64x (mm_extract_epi64_1 a) (mm_cvtsi128_si64 a) = a"
  by (rule bit_word_eqI)
    (auto simp: bit_mm_set_epi64x mm_cvtsi128_si64_def mm_extract_epi64_1_def bit_simps)

lemma mm_set_epi64x_ring: "mm_set_epi64x hi lo = ucast hi * 2 ^ 64 + ucast lo"
proof -
  have "push_bit 64 (ucast hi) OR ucast lo = push_bit 64 (ucast hi) + (ucast lo :: m128)"
    by (rule disjunctive_add_eq_or [symmetric])
      (auto simp: bit_eq_iff bit_simps dest: bit_imp_le_length)
  then show ?thesis
    by (simp add: mm_set_epi64x_def push_bit_eq_mult)
qed

lemma m128_split: "a = ucast (mm_extract_epi64_1 a) * 2 ^ 64 + ucast (mm_cvtsi128_si64 a)"
  using mm_set_halves [of a] by (simp only: mm_set_epi64x_ring)

subsection \<open>The arithmetic is ring arithmetic\<close>

lemma unat_ucast_u64 [simp]: "unat (ucast (a :: u64) :: m128) = unat a"
proof -
  have "unat a < 2 ^ 128"
    by (rule less_trans [OF unat_lt2p]) simp
  then show ?thesis
    by (simp add: unsigned_ucast_eq take_bit_nat_eq_self)
qed

lemma unat_add_u64:
  "unat (a + b :: u64) = (if unat a + unat b < 2 ^ 64 then unat a + unat b else unat a + unat b - 2 ^ 64)"
  using unat_lt2p [of a] unat_lt2p [of b] by (simp add: unat_word_ariths le_mod_geq)

lemma ucast_add_carry:
  "(ucast (a + b :: u64) :: m128) + (if a + b < a then 2 ^ 64 else 0) = ucast a + ucast b"
proof -
  have "unat a < 2 ^ 64" "unat b < 2 ^ 64"
    using unat_lt2p [of a] unat_lt2p [of b] by simp_all
  then have "unat (ucast (a + b :: u64) + (if a + b < a then 2 ^ 64 else 0) :: m128)
      = unat (ucast a + ucast b :: m128)"
    by (auto simp: word_less_nat_alt unat_add_u64 unat_word_ariths)
  then show ?thesis by (simp only: word_unat_eq_iff)
qed

lemma ucast_add_shift:
  "(ucast (x + y :: u64) :: m128) * 2 ^ 64 = (ucast x + ucast y) * 2 ^ 64"
proof -
  have "(ucast x + ucast y :: m128) * 2 ^ 64
      = (ucast (x + y) + (if x + y < x then 2 ^ 64 else 0)) * 2 ^ 64"
    by (simp only: ucast_add_carry)
  then show ?thesis by (simp add: distrib_right)
qed

lemma ucast_sub_borrow:
  "(ucast (a - b :: u64) :: m128) = ucast a - ucast b + (if a < b then 2 ^ 64 else 0)"
proof -
  have "(a - b) + b < a - b \<longleftrightarrow> a < b"
    by (simp add: word_less_nat_alt unat_sub_if_size word_size)
      (use unat_lt2p [of a] unat_lt2p [of b] in auto)
  then have "(ucast a :: m128) + (if a < b then 2 ^ 64 else 0) = ucast (a - b) + ucast b"
    using ucast_add_carry [of "a - b" b] by simp
  then show ?thesis by (simp add: algebra_simps)
qed

lemma ucast_sub_shift:
  "(ucast (x - y :: u64) :: m128) * 2 ^ 64 = (ucast x - ucast y) * 2 ^ 64"
  by (simp add: ucast_sub_borrow distrib_right)

text \<open>
  Ring facts: the addition, subtraction and multiplication built from 64-bit halves are
  those of \<open>128 word\<close>, that is, of the integers modulo \<open>2 ^ 128\<close>.
\<close>

lemma add128_eq: "add128_mod2_128 a b = a + b"
proof -
  let ?al = "mm_cvtsi128_si64 a" and ?ah = "mm_extract_epi64_1 a"
  let ?bl = "mm_cvtsi128_si64 b" and ?bh = "mm_extract_epi64_1 b"
  let ?c = "if ?al + ?bl < ?al then 1 else 0 :: u64"
  have c: "(ucast ?c :: m128) * 2 ^ 64 = (if ?al + ?bl < ?al then 2 ^ 64 else 0)"
    by simp
  have "add128_mod2_128 a b = (ucast (?ah + ?bh + ?c) :: m128) * 2 ^ 64 + ucast (?al + ?bl)"
    by (simp only: add128_mod2_128_def Let_def mm_set_epi64x_ring)
  also have "\<dots> = (ucast ?ah + ucast ?bh) * 2 ^ 64 + (ucast ?al + ucast ?bl)"
    by (simp only: ucast_add_shift distrib_right c ucast_add_carry [of ?al ?bl, symmetric] add.assoc)
      (simp add: algebra_simps)
  also have "\<dots> = a + b"
    by (subst (3) m128_split [of a], subst (3) m128_split [of b]) (simp add: algebra_simps)
  finally show ?thesis .
qed

lemma sub128_eq: "sub128_mod2_128 a b = a - b"
proof -
  let ?al = "mm_cvtsi128_si64 a" and ?ah = "mm_extract_epi64_1 a"
  let ?bl = "mm_cvtsi128_si64 b" and ?bh = "mm_extract_epi64_1 b"
  let ?c = "if ?al < ?bl then 1 else 0 :: u64"
  have c: "(ucast ?c :: m128) * 2 ^ 64 = (if ?al < ?bl then 2 ^ 64 else 0)"
    by simp
  have "sub128_mod2_128 a b = (ucast (?ah - ?bh - ?c) :: m128) * 2 ^ 64 + ucast (?al - ?bl)"
    by (simp only: sub128_mod2_128_def Let_def mm_set_epi64x_ring)
  also have "\<dots> = (ucast ?ah - ucast ?bh) * 2 ^ 64 + (ucast ?al - ucast ?bl)"
    by (simp only: ucast_sub_shift left_diff_distrib c ucast_sub_borrow [of ?al ?bl])
      (simp add: algebra_simps)
  also have "\<dots> = a - b"
    by (subst (3) m128_split [of a], subst (3) m128_split [of b]) (simp add: algebra_simps)
  finally show ?thesis .
qed

lemma mul128_eq: "mul128_mod2_128 a b = a * b"
proof -
  let ?al = "ucast (mm_cvtsi128_si64 a) :: m128" and ?ah = "ucast (mm_extract_epi64_1 a) :: m128"
  let ?bl = "ucast (mm_cvtsi128_si64 b) :: m128" and ?bh = "ucast (mm_extract_epi64_1 b) :: m128"
  let ?r = "?al * ?bl + push_bit 64 (?al * ?bh + ?ah * ?bl)"
  have "mul128_mod2_128 a b = mm_set_epi64x (mm_extract_epi64_1 ?r) (mm_cvtsi128_si64 ?r)"
    by (simp only: mul128_mod2_128_def Let_def mm_extract_epi64_1_def mm_cvtsi128_si64_def)
  then have *: "mul128_mod2_128 a b = ?al * ?bl + (?al * ?bh + ?ah * ?bl) * 2 ^ 64"
    by (simp add: push_bit_eq_mult)
  have zero: "x * 2 ^ 64 * (y * 2 ^ 64) = 0" for x y :: m128
  proof -
    have "x * 2 ^ 64 * (y * 2 ^ 64) = x * y * (2 ^ 64 * 2 ^ 64)"
      by (simp only: mult_ac)
    moreover have "(2 ^ 64 * 2 ^ 64 :: m128) = 0" by simp
    ultimately show ?thesis by (simp only: mult_zero_right)
  qed
  have "a * b = (?ah * 2 ^ 64 + ?al) * (?bh * 2 ^ 64 + ?bl)"
    using m128_split [of a] m128_split [of b] by simp
  also have "\<dots> = ?al * ?bl + (?al * ?bh + ?ah * ?bl) * 2 ^ 64"
    by (simp only: distrib_left distrib_right zero) (simp add: algebra_simps)
  finally show ?thesis using * by simp
qed

lemmas m128_arith = add128_eq sub128_eq mul128_eq

lemma mX_ring:
  "mX_plus x y = mX (mx_v x + mx_v y)"
  "mX_minus x y = mX (mx_v x - mx_v y)"
  "mX_times x y = mX (mx_v x * mx_v y)"
  "mX_times_u8 x s = mX (mx_v x * ucast s)"
  "mX_plus_u8 x s = mX (mx_v x + ucast s)"
  "mX_minus_u8 x s = mX (mx_v x - ucast s)"
  "u8_minus_mX s x = mX (ucast s - mx_v x)"
proof -
  have "mm_set_epi64x 0 (ucast s) = ucast s"
    by (rule bit_word_eqI) (auto simp: bit_mm_set_epi64x bit_simps dest: bit_imp_le_length)
  then show "mX_times_u8 x s = mX (mx_v x * ucast s)" "mX_plus_u8 x s = mX (mx_v x + ucast s)"
    "mX_minus_u8 x s = mX (mx_v x - ucast s)" "u8_minus_mX s x = mX (ucast s - mx_v x)"
    by (simp_all add: mX_times_u8_def mX_plus_u8_def mX_minus_u8_def u8_minus_mX_def m128_arith)
qed (simp_all add: mX_plus_def mX_minus_def mX_times_def m128_arith)

lemma mX_eq_iff [simp]: "mX_eq x y \<longleftrightarrow> x = y"
  by (cases x; cases y) (simp add: mX_eq_def mm_testz_def)


subsection \<open>The low bits of a block\<close>

lemma bit_small:
  "bit (1 :: 'a::len word) i \<longleftrightarrow> i = 0"
  "bit (2 :: m128) i \<longleftrightarrow> i = 1"
  "bit (3 :: m128) i \<longleftrightarrow> i < 2"
  "bit (2 :: u64) i \<longleftrightarrow> i = 1"
  "bit (3 :: u64) i \<longleftrightarrow> i < 2"
  "bit (3 :: int) i \<longleftrightarrow> i < 2"
proof -
  have "(3 :: int) = mask 2"
    by (simp add: mask_eq_exp_minus_1)
  then show "bit (3 :: int) i \<longleftrightarrow> i < 2"
    by (simp only: bit_mask_iff) simp
  have three: "(3 :: 'b::len word) = mask 2"
    by (simp add: mask_eq_exp_minus_1)
  show "bit (3 :: m128) i \<longleftrightarrow> i < 2" "bit (3 :: u64) i \<longleftrightarrow> i < 2"
    by (simp_all only: three bit_mask_iff) auto
  have two: "(2 :: 'b::len word) = push_bit 1 1"
    by simp
  show "bit (2 :: m128) i \<longleftrightarrow> i = 1" "bit (2 :: u64) i \<longleftrightarrow> i = 1"
    by (simp_all only: two bit_push_bit_iff bit_1_iff) auto
qed (auto simp: bit_simps)

lemma lsb_tables:
  "lsb128_mask = [0, 1, 2, 3]"
  "lsb128_mask_inv = [NOT 0, NOT 1, NOT 2, NOT 3]"
proof -
  have neg: "(-2 :: u64) = NOT 1" "(-3 :: u64) = NOT 2" "(-4 :: u64) = NOT 3"
    "(-1 :: u64) = NOT 0"
    by simp_all
  have all: "mm_set_epi64x (NOT 0) (NOT a) = NOT b"
    if "\<And>i. bit b i \<longleftrightarrow> bit a i" for a b
    by (rule bit_word_eqI) (auto simp: bit_mm_set_epi64x bit_simps that dest: bit_imp_le_length)
  show "lsb128_mask_inv = [NOT 0, NOT 1, NOT 2, NOT 3]"
    unfolding lsb128_mask_inv_def neg list.inject
    by (intro conjI all refl) (simp_all only: bit_small bit.compl_zero)
  show "lsb128_mask = [0, 1, 2, 3]"
    by (simp add: lsb128_mask_def mm_set_epi64x_def)
qed

lemma xor_if_eq: "xor_if a b flag = (if flag then a XOR b else a)"
  by (simp add: xor_if_def if128_mask_def)

lemma get_lsb_1: "get_lsb b 1 = of_bool (bit b 0)"
proof -
  have "b AND 1 = (if bit b 0 then 1 else 0)"
    by (rule bit_word_eqI) (auto simp: bit_simps bit_small intro: ccontr)
  then show ?thesis
    by (simp add: get_lsb_def lsb_tables mm_testz_def)
qed

lemma get_lsb_2: "get_lsb b 2 = of_bool (bit b 1)"
proof -
  have "b AND 2 = (if bit b 1 then 2 else 0)"
    by (rule bit_word_eqI) (auto simp: bit_simps bit_small intro: ccontr)
  then show ?thesis
    by (simp add: get_lsb_def lsb_tables mm_testz_def)
qed

lemma bit_clear_lsb:
  "bit (clear_lsb b 3) i \<longleftrightarrow> 2 \<le> i \<and> bit b i"
  "bit (clear_lsb b 1) i \<longleftrightarrow> 1 \<le> i \<and> bit b i"
  by (auto simp: clear_lsb_def lsb_tables bit_simps bit_small dest: bit_imp_le_length)

lemma bit_set_lsb: "bit (set_lsb b v) i \<longleftrightarrow> (if i = 0 then v else bit b i)"
  by (auto simp: set_lsb_def bit_simps bit_clear_lsb [unfolded One_nat_def] lsb_tables bit_small)

lemma bit_set_lsbs:
  "bit (set_lsbs b bs) i \<longleftrightarrow> (if i = 0 then fst bs else if i = 1 then snd bs else bit b i)"
  by (auto simp: set_lsbs_def bit_simps bit_small bit_clear_lsb lsb_tables)

end
