(* ===== verification/VecOps.thy ===== *)
theory VecOps
  imports M128
begin

text \<open>
  The leaf helpers and the vector operators of \<^verbatim>\<open>mpc/types.hpp\<close> (and their earlier versions in
  \<^verbatim>\<open>mpc/common.hpp\<close>). A \<^verbatim>\<open>std::vector<T>\<close> is a list, and an operator that throws on a size
  mismatch returns \<open>Inl\<close> of its \<^verbatim>\<open>runtime_error\<close>. The element type is any type with the operators
  the template needs; \<^verbatim>\<open>struct mX\<close> gets them by class instances, so one algebra of dot products
  serves integers and \<^verbatim>\<open>mX\<close>.
\<close>

section \<open>Leaves\<close>

text \<open>The leaf types the templates accept, as a tagged union of their values.\<close>

datatype leaf_ty = T_u8 | T_u32 | T_u64 | T_m128 | T_arr nat

datatype leaf = L8 u8 | L32 u32 | L64 u64 | L128 m128 | LArr "m128 list"

fun leaf_type :: "leaf \<Rightarrow> leaf_ty" where
  "leaf_type (L8 _) = T_u8"
| "leaf_type (L32 _) = T_u32"
| "leaf_type (L64 _) = T_u64"
| "leaf_type (L128 _) = T_m128"
| "leaf_type (LArr bs) = T_arr (length bs)"

fun leaf_equal :: "leaf \<Rightarrow> leaf \<Rightarrow> bool" where
  "leaf_equal (L8 a) (L8 b) = (a = b)"
| "leaf_equal (L32 a) (L32 b) = (a = b)"
| "leaf_equal (L64 a) (L64 b) = (a = b)"
| "leaf_equal (L128 a) (L128 b) = (to_bytes a = to_bytes b)"
| "leaf_equal (LArr as) (LArr bs) =
     (length as = length bs \<and> list_all2 (\<lambda>a b. to_bytes a = to_bytes b) as bs)"
| "leaf_equal _ _ = False"

fun leaf_xor :: "leaf \<Rightarrow> leaf \<Rightarrow> leaf" where
  "leaf_xor (L8 a) (L8 b) = L8 (a XOR b)"
| "leaf_xor (L32 a) (L32 b) = L32 (a XOR b)"
| "leaf_xor (L64 a) (L64 b) = L64 (a XOR b)"
| "leaf_xor (L128 a) (L128 b) = L128 (a XOR b)"
| "leaf_xor (LArr as) (LArr bs) = LArr (map2 (XOR) as bs)"
| "leaf_xor a _ = a"

definition make_m128i_from_u64pair :: "u64 \<Rightarrow> u64 \<Rightarrow> m128" where
  "make_m128i_from_u64pair hi lo = mm_set_epi64x hi lo"

fun make_leaf_from_u64_pair :: "leaf_ty \<Rightarrow> u64 \<Rightarrow> u64 \<Rightarrow> leaf" where
  "make_leaf_from_u64_pair T_u8 hi lo = L8 (ucast (lo AND 0xFF))"
| "make_leaf_from_u64_pair T_u32 hi lo = L32 (ucast (lo AND 0xFFFFFFFF))"
| "make_leaf_from_u64_pair T_u64 hi lo = L64 lo"
| "make_leaf_from_u64_pair T_m128 hi lo = L128 (make_m128i_from_u64pair hi lo)"
| "make_leaf_from_u64_pair (T_arr n) hi lo =
     LArr ((replicate n 0)[0 := make_m128i_from_u64pair hi lo])"

definition set_target_values :: "leaf_ty \<Rightarrow> u64 \<Rightarrow> u64 \<Rightarrow> u64 \<Rightarrow> u64 \<Rightarrow> leaf" where
  "set_target_values ty hi0 lo0 hi1 lo1 =
     (case ty of
        T_arr n \<Rightarrow>
          LArr (map (\<lambda>i. if i = 0 then make_m128i_from_u64pair hi0 lo0
                         else if i = 1 then make_m128i_from_u64pair hi1 lo1
                         else 0) [0..<n])
      | _ \<Rightarrow> make_leaf_from_u64_pair ty hi0 lo0)"

text \<open>Hexadecimal output as \<^verbatim>\<open>std::hex\<close> with \<^verbatim>\<open>setfill('0')\<close> prints it.\<close>

definition hex_digit :: "nat \<Rightarrow> char" where
  "hex_digit d = ''0123456789abcdef'' ! (d mod 16)"

fun hex_nat :: "nat \<Rightarrow> string" where
  "hex_nat n = (if n < 16 then [hex_digit n] else hex_nat (n div 16) @ [hex_digit n])"

declare hex_nat.simps [simp del]

definition hex_byte :: "byte \<Rightarrow> string" where
  "hex_byte b = [hex_digit (unat b div 16), hex_digit (unat b)]"

definition hex_m128 :: "m128 \<Rightarrow> string" where
  "hex_m128 x = concat (map hex_byte (to_bytes x))"

fun hex_m128s :: "m128 list \<Rightarrow> string" where
  "hex_m128s [] = []"
| "hex_m128s [x] = ''{'' @ hex_m128 x @ ''}''"
| "hex_m128s (x # xs) = ''{'' @ hex_m128 x @ ''}'' @ '','' @ hex_m128s xs"

fun leaf_to_hex_string :: "leaf \<Rightarrow> string" where
  "leaf_to_hex_string (L8 x) = ''0x'' @ hex_nat (unat x)"
| "leaf_to_hex_string (L32 x) = ''0x'' @ hex_nat (unat x)"
| "leaf_to_hex_string (L64 x) = ''0x'' @ hex_nat (unat x)"
| "leaf_to_hex_string (L128 x) = hex_m128 x"
| "leaf_to_hex_string (LArr xs) = hex_m128s xs"

fun set_zero :: "leaf \<Rightarrow> leaf" where
  "set_zero (L8 _) = L8 0"
| "set_zero (L32 _) = L32 0"
| "set_zero (L64 _) = L64 0"
| "set_zero (L128 _) = L128 0"
| "set_zero (LArr bs) = LArr (map (\<lambda>_. 0) bs)"


section \<open>Vector operators\<close>

definition size_mismatch :: "string \<Rightarrow> 'a result" where
  "size_mismatch who = Inl (Runtime_error (who @ '': size mismatch''))"

definition vec_xor :: "'a::len word list \<Rightarrow> 'a word list \<Rightarrow> 'a word list result" where
  "vec_xor a b =
     (if length a \<noteq> length b then size_mismatch ''operator+'' else Inr (map2 (XOR) a b))"

definition vec_plus :: "'a::plus list \<Rightarrow> 'a list \<Rightarrow> 'a list result" where
  "vec_plus a b =
     (if length a \<noteq> length b then size_mismatch ''operator+'' else Inr (map2 (+) a b))"

definition vec_minus :: "'a::minus list \<Rightarrow> 'a list \<Rightarrow> 'a list result" where
  "vec_minus a b =
     (if length a \<noteq> length b then size_mismatch ''operator-'' else Inr (map2 (-) a b))"

text \<open>The accumulation loop of the dot products: \<^verbatim>\<open>acc = acc + (a[i] * b[i])\<close>.\<close>

fun dot_loop :: "'a::{plus,times} \<Rightarrow> 'a list \<Rightarrow> 'a list \<Rightarrow> 'a" where
  "dot_loop acc (x # xs) (y # ys) = dot_loop (acc + x * y) xs ys"
| "dot_loop acc _ _ = acc"

definition vec_dot :: "'a::{zero,plus,times} list \<Rightarrow> 'a list \<Rightarrow> 'a result" where
  "vec_dot a b = (if length a \<noteq> length b then size_mismatch ''dot'' else Inr (dot_loop 0 a b))"

text \<open>\<^verbatim>\<open>operator&\<close> on vectors: the product is integer multiplication, the sum is xor.\<close>

fun and_loop :: "'a::len word \<Rightarrow> 'a word list \<Rightarrow> 'a word list \<Rightarrow> 'a word" where
  "and_loop acc (x # xs) (y # ys) = and_loop (acc XOR (x * y)) xs ys"
| "and_loop acc _ _ = acc"

definition vec_and :: "'a::len word list \<Rightarrow> 'a word list \<Rightarrow> 'a word result" where
  "vec_and a b = (if length a \<noteq> length b then size_mismatch ''dot'' else Inr (and_loop 0 a b))"

text \<open>The mixed dot product casts every scalar to \<^verbatim>\<open>uint8_t\<close>.\<close>

fun mixed_loop :: "mX \<Rightarrow> mX list \<Rightarrow> 'b::len word list \<Rightarrow> mX" where
  "mixed_loop acc (x # xs) (y # ys) = mixed_loop (mX_plus acc (mX_times_u8 x (ucast y))) xs ys"
| "mixed_loop acc _ _ = acc"

definition vec_dot_mixed :: "mX list \<Rightarrow> 'b::len word list \<Rightarrow> mX result" where
  "vec_dot_mixed a b =
     (if length a \<noteq> length b then size_mismatch ''dot (mX,Scalar)'' else Inr (mixed_loop (mX 0) a b))"

text \<open>
  The versions of \<^verbatim>\<open>common.hpp\<close>: \<^verbatim>\<open>+\<close> and \<^verbatim>\<open>-\<close> index the right operand without comparing sizes, so a
  shorter right operand is read out of range.
\<close>

definition vec_plus_unchecked :: "'a::plus list \<Rightarrow> 'a list \<Rightarrow> 'a list result" where
  "vec_plus_unchecked a b =
     (if length b < length a then Inl (Undefined ''vector index out of range'')
      else Inr (map (\<lambda>i. a ! i + b ! i) [0..<length a]))"

definition vec_minus_unchecked :: "'a::minus list \<Rightarrow> 'a list \<Rightarrow> 'a list result" where
  "vec_minus_unchecked a b =
     (if length b < length a then Inl (Undefined ''vector index out of range'')
      else Inr (map (\<lambda>i. a ! i - b ! i) [0..<length a]))"

instantiation mX :: comm_ring_1
begin

definition zero_mX :: mX where "zero_mX = mX 0"
definition one_mX :: mX where "one_mX = mX 1"
definition plus_mX :: "mX \<Rightarrow> mX \<Rightarrow> mX" where "plus_mX = mX_plus"
definition minus_mX :: "mX \<Rightarrow> mX \<Rightarrow> mX" where "minus_mX = mX_minus"
definition times_mX :: "mX \<Rightarrow> mX \<Rightarrow> mX" where "times_mX = mX_times"
definition uminus_mX :: "mX \<Rightarrow> mX" where "uminus_mX x = mX (- mx_v x)"

instance
  by standard
    (auto simp: zero_mX_def one_mX_def plus_mX_def minus_mX_def times_mX_def uminus_mX_def
      mX_ring algebra_simps mX.expand)

end

definition dotproduct :: "mX list \<Rightarrow> mX list \<Rightarrow> mX result" where
  "dotproduct a b = vec_dot a b"


section \<open>Lemmas\<close>

subsection \<open>Leaf operations\<close>

lemma to_bytes_m128_inject [simp]: "to_bytes (a :: m128) = to_bytes b \<longleftrightarrow> a = b"
  by (simp add: to_bytes_inject)

lemma leaf_equal_iff: "leaf_equal a b \<longleftrightarrow> a = b"
  by (cases "(a, b)" rule: leaf_equal.cases) (auto simp: list.rel_eq)

lemma leaf_xor_type:
  "leaf_type a = leaf_type b \<Longrightarrow> leaf_type (leaf_xor a b) = leaf_type a"
  by (cases "(a, b)" rule: leaf_xor.cases) auto

lemma map2_xor_cancel:
  "length as = length bs \<Longrightarrow> map2 (XOR) (map2 (XOR) as bs) bs = (as :: 'a::len word list)"
  by (induction as bs rule: list_induct2) simp_all

lemma leaf_xor_cancel:
  "leaf_type a = leaf_type b \<Longrightarrow> leaf_xor (leaf_xor a b) b = a"
  by (cases "(a, b)" rule: leaf_xor.cases) (auto simp: map2_xor_cancel)

lemma make_leaf_type:
  "leaf_type (make_leaf_from_u64_pair ty hi lo) = ty"
  "leaf_type (set_target_values ty hi0 lo0 hi1 lo1) = ty"
  by (cases ty; simp add: set_target_values_def)+

lemma set_zero_neutral: "leaf_xor a (set_zero a) = a"
proof -
  have "map2 (XOR) bs (map (\<lambda>_. 0) bs) = bs" for bs :: "m128 list"
    by (induction bs) simp_all
  then show ?thesis by (cases a) simp_all
qed


subsection \<open>Dot products\<close>

lemma dot_loop_acc: "dot_loop acc a b = acc + dot_loop (0 :: 'a::comm_ring_1) a b"
proof (induction a arbitrary: acc b)
  case (Cons x xs)
  show ?case
  proof (cases b)
    case (Cons y ys)
    then show ?thesis
      using Cons.IH [of "acc + x * y" ys] Cons.IH [of "x * y" ys] by (simp add: add.assoc)
  qed simp
qed simp

lemma dot_loop_Cons [simp]:
  "dot_loop (0 :: 'a::comm_ring_1) (x # xs) (y # ys) = x * y + dot_loop 0 xs ys"
  by (simp add: dot_loop_acc [of "x * y"])

declare dot_loop.simps(1) [simp del]

lemma dot_loop_sum: "dot_loop (0 :: 'a::comm_ring_1) a b = (\<Sum>(x, y)\<leftarrow>zip a b. x * y)"
proof (induction a arbitrary: b)
  case (Cons x xs)
  then show ?case by (cases b) simp_all
qed simp

lemma dot_loop_plus_left:
  "length a = length b \<Longrightarrow> length b = length c \<Longrightarrow>
     dot_loop (0 :: 'a::comm_ring_1) (map2 (+) a b) c = dot_loop 0 a c + dot_loop 0 b c"
  by (induction a b c rule: list_induct3) (simp_all add: algebra_simps)

lemma dot_loop_commute: "dot_loop (0 :: 'a::comm_ring_1) a b = dot_loop 0 b a"
proof (induction a arbitrary: b)
  case (Cons x xs)
  then show ?case by (cases b) (simp_all add: mult.commute)
next
  case Nil
  then show ?case by (cases b) simp_all
qed

lemma dot_loop_plus_right:
  "length a = length b \<Longrightarrow> length b = length c \<Longrightarrow>
     dot_loop (0 :: 'a::comm_ring_1) a (map2 (+) b c) = dot_loop 0 a b + dot_loop 0 a c"
  by (metis dot_loop_commute dot_loop_plus_left)

lemma vec_dot_Inr [simp]:
  "length a = length b \<Longrightarrow> vec_dot a b = Inr (dot_loop 0 a b)"
  "length a = length c \<Longrightarrow> vec_plus a c = Inr (map2 (+) a c)"
  by (simp_all add: vec_dot_def vec_plus_def)

lemma mixed_loop_eq:
  "mixed_loop acc a b = dot_loop acc a (map (\<lambda>y. mX (ucast (ucast y :: u8))) b)"
  by (induction acc a b rule: mixed_loop.induct)
    (simp_all add: plus_mX_def times_mX_def mX_ring dot_loop.simps(1))

lemma and_loop_acc: "and_loop acc a b = acc XOR and_loop 0 a b"
proof (induction a arbitrary: acc b)
  case (Cons x xs)
  show ?case
  proof (cases b)
    case (Cons y ys)
    then show ?thesis
      using Cons.IH [of "acc XOR (x * y)" ys] Cons.IH [of "x * y" ys] by (simp add: xor.assoc)
  qed simp
qed simp

lemma and_loop_Cons [simp]:
  "and_loop 0 (x # xs) (y # ys) = (x * y) XOR and_loop 0 xs ys"
  by (simp add: and_loop_acc [of "x * y"])

declare and_loop.simps(1) [simp del]

text \<open>With selection bits as the second operand, \<^verbatim>\<open>operator&\<close> xors the selected entries.\<close>

lemma and_loop_bits:
  "length a = length ws \<Longrightarrow>
     and_loop 0 a (map of_bool ws) = fold (XOR) (map fst (filter snd (zip a ws))) 0"
proof -
  have gen: "length a = length ws \<Longrightarrow>
     fold (XOR) (map fst (filter snd (zip a ws))) acc
       = (acc :: 'a word) XOR and_loop 0 a (map of_bool ws)" for acc
    by (induction a ws arbitrary: acc rule: list_induct2) (simp_all add: xor_simps)
  then show "length a = length ws \<Longrightarrow> ?thesis"
    by simp
qed

end
