(* ===== verification/Aes.thy ===== *)
theory Aes
  imports M128
begin

text \<open>
  \<^verbatim>\<open>mpc/aes.h\<close> (and its copy \<^verbatim>\<open>mpc/dpf/aes.h\<close>): the AES-128 key schedule, block encryption, the
  decryption key schedule and block decryption, over the AES-NI instructions. The instructions are
  given by their documented byte-level meaning on the 16 bytes of a block (byte \<open>r + 4 * c\<close> is row
  \<open>r\<close>, column \<open>c\<close>). The main lemma is that decryption with the schedule of
  \<^verbatim>\<open>AES_set_decrypt_key_fast\<close> inverts encryption.
\<close>

section \<open>AES-NI instructions\<close>

definition sbox :: "byte list" where
  "sbox = [
    0x63, 0x7c, 0x77, 0x7b, 0xf2, 0x6b, 0x6f, 0xc5, 0x30, 0x01, 0x67, 0x2b, 0xfe, 0xd7, 0xab, 0x76,
    0xca, 0x82, 0xc9, 0x7d, 0xfa, 0x59, 0x47, 0xf0, 0xad, 0xd4, 0xa2, 0xaf, 0x9c, 0xa4, 0x72, 0xc0,
    0xb7, 0xfd, 0x93, 0x26, 0x36, 0x3f, 0xf7, 0xcc, 0x34, 0xa5, 0xe5, 0xf1, 0x71, 0xd8, 0x31, 0x15,
    0x04, 0xc7, 0x23, 0xc3, 0x18, 0x96, 0x05, 0x9a, 0x07, 0x12, 0x80, 0xe2, 0xeb, 0x27, 0xb2, 0x75,
    0x09, 0x83, 0x2c, 0x1a, 0x1b, 0x6e, 0x5a, 0xa0, 0x52, 0x3b, 0xd6, 0xb3, 0x29, 0xe3, 0x2f, 0x84,
    0x53, 0xd1, 0x00, 0xed, 0x20, 0xfc, 0xb1, 0x5b, 0x6a, 0xcb, 0xbe, 0x39, 0x4a, 0x4c, 0x58, 0xcf,
    0xd0, 0xef, 0xaa, 0xfb, 0x43, 0x4d, 0x33, 0x85, 0x45, 0xf9, 0x02, 0x7f, 0x50, 0x3c, 0x9f, 0xa8,
    0x51, 0xa3, 0x40, 0x8f, 0x92, 0x9d, 0x38, 0xf5, 0xbc, 0xb6, 0xda, 0x21, 0x10, 0xff, 0xf3, 0xd2,
    0xcd, 0x0c, 0x13, 0xec, 0x5f, 0x97, 0x44, 0x17, 0xc4, 0xa7, 0x7e, 0x3d, 0x64, 0x5d, 0x19, 0x73,
    0x60, 0x81, 0x4f, 0xdc, 0x22, 0x2a, 0x90, 0x88, 0x46, 0xee, 0xb8, 0x14, 0xde, 0x5e, 0x0b, 0xdb,
    0xe0, 0x32, 0x3a, 0x0a, 0x49, 0x06, 0x24, 0x5c, 0xc2, 0xd3, 0xac, 0x62, 0x91, 0x95, 0xe4, 0x79,
    0xe7, 0xc8, 0x37, 0x6d, 0x8d, 0xd5, 0x4e, 0xa9, 0x6c, 0x56, 0xf4, 0xea, 0x65, 0x7a, 0xae, 0x08,
    0xba, 0x78, 0x25, 0x2e, 0x1c, 0xa6, 0xb4, 0xc6, 0xe8, 0xdd, 0x74, 0x1f, 0x4b, 0xbd, 0x8b, 0x8a,
    0x70, 0x3e, 0xb5, 0x66, 0x48, 0x03, 0xf6, 0x0e, 0x61, 0x35, 0x57, 0xb9, 0x86, 0xc1, 0x1d, 0x9e,
    0xe1, 0xf8, 0x98, 0x11, 0x69, 0xd9, 0x8e, 0x94, 0x9b, 0x1e, 0x87, 0xe9, 0xce, 0x55, 0x28, 0xdf,
    0x8c, 0xa1, 0x89, 0x0d, 0xbf, 0xe6, 0x42, 0x68, 0x41, 0x99, 0x2d, 0x0f, 0xb0, 0x54, 0xbb, 0x16]"

definition inv_sbox :: "byte list" where
  "inv_sbox = [
    0x52, 0x09, 0x6a, 0xd5, 0x30, 0x36, 0xa5, 0x38, 0xbf, 0x40, 0xa3, 0x9e, 0x81, 0xf3, 0xd7, 0xfb,
    0x7c, 0xe3, 0x39, 0x82, 0x9b, 0x2f, 0xff, 0x87, 0x34, 0x8e, 0x43, 0x44, 0xc4, 0xde, 0xe9, 0xcb,
    0x54, 0x7b, 0x94, 0x32, 0xa6, 0xc2, 0x23, 0x3d, 0xee, 0x4c, 0x95, 0x0b, 0x42, 0xfa, 0xc3, 0x4e,
    0x08, 0x2e, 0xa1, 0x66, 0x28, 0xd9, 0x24, 0xb2, 0x76, 0x5b, 0xa2, 0x49, 0x6d, 0x8b, 0xd1, 0x25,
    0x72, 0xf8, 0xf6, 0x64, 0x86, 0x68, 0x98, 0x16, 0xd4, 0xa4, 0x5c, 0xcc, 0x5d, 0x65, 0xb6, 0x92,
    0x6c, 0x70, 0x48, 0x50, 0xfd, 0xed, 0xb9, 0xda, 0x5e, 0x15, 0x46, 0x57, 0xa7, 0x8d, 0x9d, 0x84,
    0x90, 0xd8, 0xab, 0x00, 0x8c, 0xbc, 0xd3, 0x0a, 0xf7, 0xe4, 0x58, 0x05, 0xb8, 0xb3, 0x45, 0x06,
    0xd0, 0x2c, 0x1e, 0x8f, 0xca, 0x3f, 0x0f, 0x02, 0xc1, 0xaf, 0xbd, 0x03, 0x01, 0x13, 0x8a, 0x6b,
    0x3a, 0x91, 0x11, 0x41, 0x4f, 0x67, 0xdc, 0xea, 0x97, 0xf2, 0xcf, 0xce, 0xf0, 0xb4, 0xe6, 0x73,
    0x96, 0xac, 0x74, 0x22, 0xe7, 0xad, 0x35, 0x85, 0xe2, 0xf9, 0x37, 0xe8, 0x1c, 0x75, 0xdf, 0x6e,
    0x47, 0xf1, 0x1a, 0x71, 0x1d, 0x29, 0xc5, 0x89, 0x6f, 0xb7, 0x62, 0x0e, 0xaa, 0x18, 0xbe, 0x1b,
    0xfc, 0x56, 0x3e, 0x4b, 0xc6, 0xd2, 0x79, 0x20, 0x9a, 0xdb, 0xc0, 0xfe, 0x78, 0xcd, 0x5a, 0xf4,
    0x1f, 0xdd, 0xa8, 0x33, 0x88, 0x07, 0xc7, 0x31, 0xb1, 0x12, 0x10, 0x59, 0x27, 0x80, 0xec, 0x5f,
    0x60, 0x51, 0x7f, 0xa9, 0x19, 0xb5, 0x4a, 0x0d, 0x2d, 0xe5, 0x7a, 0x9f, 0x93, 0xc9, 0x9c, 0xef,
    0xa0, 0xe0, 0x3b, 0x4d, 0xae, 0x2a, 0xf5, 0xb0, 0xc8, 0xeb, 0xbb, 0x3c, 0x83, 0x53, 0x99, 0x61,
    0x17, 0x2b, 0x04, 0x7e, 0xba, 0x77, 0xd6, 0x26, 0xe1, 0x69, 0x14, 0x63, 0x55, 0x21, 0x0c, 0x7d]"

definition sub_byte :: "byte \<Rightarrow> byte" where "sub_byte b = sbox ! unat b"
definition inv_sub_byte :: "byte \<Rightarrow> byte" where "inv_sub_byte b = inv_sbox ! unat b"

definition xtime :: "byte \<Rightarrow> byte" where
  "xtime x = push_bit 1 x XOR (if bit x 7 then 0x1b else 0)"

fun mix_columns :: "byte list \<Rightarrow> byte list" where
  "mix_columns (a # b # c # d # rest) =
     (xtime a XOR xtime b XOR b XOR c XOR d)
     # (a XOR xtime b XOR xtime c XOR c XOR d)
     # (a XOR b XOR xtime c XOR xtime d XOR d)
     # (xtime a XOR a XOR b XOR c XOR xtime d)
     # mix_columns rest"
| "mix_columns bs = bs"

definition gm9 :: "byte \<Rightarrow> byte" where "gm9 x = xtime (xtime (xtime x)) XOR x"
definition gm11 :: "byte \<Rightarrow> byte" where "gm11 x = xtime (xtime (xtime x)) XOR xtime x XOR x"
definition gm13 :: "byte \<Rightarrow> byte" where "gm13 x = xtime (xtime (xtime x)) XOR xtime (xtime x) XOR x"
definition gm14 :: "byte \<Rightarrow> byte" where
  "gm14 x = xtime (xtime (xtime x)) XOR xtime (xtime x) XOR xtime x"

fun inv_mix_columns :: "byte list \<Rightarrow> byte list" where
  "inv_mix_columns (a # b # c # d # rest) =
     (gm14 a XOR gm11 b XOR gm13 c XOR gm9 d)
     # (gm9 a XOR gm14 b XOR gm11 c XOR gm13 d)
     # (gm13 a XOR gm9 b XOR gm14 c XOR gm11 d)
     # (gm11 a XOR gm13 b XOR gm9 c XOR gm14 d)
     # inv_mix_columns rest"
| "inv_mix_columns bs = bs"

definition shift_rows :: "byte list \<Rightarrow> byte list" where
  "shift_rows s = map (\<lambda>i. s ! i) [0, 5, 10, 15, 4, 9, 14, 3, 8, 13, 2, 7, 12, 1, 6, 11]"

definition inv_shift_rows :: "byte list \<Rightarrow> byte list" where
  "inv_shift_rows s = map (\<lambda>i. s ! i) [0, 13, 10, 7, 4, 1, 14, 11, 8, 5, 2, 15, 12, 9, 6, 3]"

definition mm_aesenc :: "m128 \<Rightarrow> m128 \<Rightarrow> m128" where
  "mm_aesenc a k = of_bytes (mix_columns (map sub_byte (shift_rows (to_bytes a)))) XOR k"

definition mm_aesenclast :: "m128 \<Rightarrow> m128 \<Rightarrow> m128" where
  "mm_aesenclast a k = of_bytes (map sub_byte (shift_rows (to_bytes a))) XOR k"

definition mm_aesdec :: "m128 \<Rightarrow> m128 \<Rightarrow> m128" where
  "mm_aesdec a k = of_bytes (inv_mix_columns (map inv_sub_byte (inv_shift_rows (to_bytes a)))) XOR k"

definition mm_aesdeclast :: "m128 \<Rightarrow> m128 \<Rightarrow> m128" where
  "mm_aesdeclast a k = of_bytes (map inv_sub_byte (inv_shift_rows (to_bytes a))) XOR k"

definition mm_aesimc :: "m128 \<Rightarrow> m128" where
  "mm_aesimc a = of_bytes (inv_mix_columns (to_bytes a))"

text \<open>32-bit lanes of a block, lane 0 least significant.\<close>

definition lane32 :: "m128 \<Rightarrow> nat \<Rightarrow> u32" where
  "lane32 a i = ucast (drop_bit (32 * i) a)"

definition mm_set_lanes :: "u32 \<Rightarrow> u32 \<Rightarrow> u32 \<Rightarrow> u32 \<Rightarrow> m128" where
  "mm_set_lanes l3 l2 l1 l0 =
     push_bit 96 (ucast l3) OR push_bit 64 (ucast l2) OR push_bit 32 (ucast l1) OR ucast l0"

definition sub_word :: "u32 \<Rightarrow> u32" where
  "sub_word x = of_bytes (map sub_byte (to_bytes x))"

definition mm_aeskeygenassist :: "m128 \<Rightarrow> u32 \<Rightarrow> m128" where
  "mm_aeskeygenassist a rcon =
     (let x1 = sub_word (lane32 a 1); x3 = sub_word (lane32 a 3)
      in mm_set_lanes (word_rotr 8 x3 XOR rcon) x3 (word_rotr 8 x1 XOR rcon) x1)"

text \<open>\<^verbatim>\<open>_mm_shuffle_ps(a, b, imm)\<close>: the two low lanes from \<open>a\<close>, the two high lanes from \<open>b\<close>.\<close>

definition mm_shuffle_ps :: "m128 \<Rightarrow> m128 \<Rightarrow> nat \<Rightarrow> m128" where
  "mm_shuffle_ps a b imm =
     mm_set_lanes (lane32 b (imm div 64 mod 4)) (lane32 b (imm div 16 mod 4))
       (lane32 a (imm div 4 mod 4)) (lane32 a (imm mod 4))"

definition mm_shuffle_epi32 :: "m128 \<Rightarrow> nat \<Rightarrow> m128" where
  "mm_shuffle_epi32 a imm = mm_shuffle_ps a a imm"


section \<open>Key schedule and block operations\<close>

text \<open>\<^verbatim>\<open>EXPAND_ASSIST(v1, v2, v3, v4, shuff_const, aes_const)\<close> returns the new \<open>v1\<close> and \<open>v3\<close>.\<close>

definition EXPAND_ASSIST :: "m128 \<Rightarrow> m128 \<Rightarrow> m128 \<Rightarrow> nat \<Rightarrow> u32 \<Rightarrow> m128 \<times> m128" where
  "EXPAND_ASSIST v1 v3 v4 shuff_const aes_const =
     (let v2 = mm_aeskeygenassist v4 aes_const;
          v3 = mm_shuffle_ps v3 v1 16;
          v1 = v1 XOR v3;
          v3 = mm_shuffle_ps v3 v1 140;
          v1 = v1 XOR v3;
          v2 = mm_shuffle_epi32 v2 shuff_const;
          v1 = v1 XOR v2
      in (v1, v3))"

record AES_KEY =
  rd_key :: "m128 list"
  rounds :: nat

fun expand_keys :: "m128 \<Rightarrow> m128 \<Rightarrow> u32 list \<Rightarrow> m128 list" where
  "expand_keys x0 x2 [] = []"
| "expand_keys x0 x2 (c # cs) =
     (let (x0', x2') = EXPAND_ASSIST x0 x2 x0 255 c in x0' # expand_keys x0' x2' cs)"

definition aes_round_constants :: "u32 list" where
  "aes_round_constants = [1, 2, 4, 8, 16, 32, 64, 128, 27, 54]"

definition aes_key :: "m128 \<Rightarrow> AES_KEY" where
  "aes_key userkey =
     \<lparr>rd_key = userkey # expand_keys userkey 0 aes_round_constants, rounds = 10\<rparr>"

text \<open>The default argument of the constructor: \<^verbatim>\<open>_mm_set_epi64x(597349, 121379)\<close>.\<close>

definition default_aes_key :: AES_KEY where
  "default_aes_key = aes_key (mm_set_epi64x 597349 121379)"

text \<open>
  The three loops of \<^verbatim>\<open>AES_ecb_encrypt_blks\<close> and \<^verbatim>\<open>AES_ecb_decrypt_blks\<close> over the array of
  blocks; the round loop is a fold over the round numbers \<open>1, \<dots>, rounds - 1\<close>.
\<close>

definition AES_ecb_encrypt_blks :: "m128 list \<Rightarrow> AES_KEY \<Rightarrow> m128 list" where
  "AES_ecb_encrypt_blks blks key =
     (let blks = map (\<lambda>b. b XOR rd_key key ! 0) blks;
          blks = fold (\<lambda>j. map (\<lambda>b. mm_aesenc b (rd_key key ! j))) [1..<rounds key] blks
      in map (\<lambda>b. mm_aesenclast b (rd_key key ! rounds key)) blks)"

definition AES_ecb_decrypt_blks :: "m128 list \<Rightarrow> AES_KEY \<Rightarrow> m128 list" where
  "AES_ecb_decrypt_blks blks key =
     (let blks = map (\<lambda>b. b XOR rd_key key ! 0) blks;
          blks = fold (\<lambda>j. map (\<lambda>b. mm_aesdec b (rd_key key ! j))) [1..<rounds key] blks
      in map (\<lambda>b. mm_aesdeclast b (rd_key key ! rounds key)) blks)"

text \<open>
  \<^verbatim>\<open>AES_set_decrypt_key_fast\<close>: the encryption round keys in reverse, the inner ones passed through
  the inverse column mix. \<open>imc_loop\<close> is the \<^verbatim>\<open>while (i)\<close> loop on \<open>(i, j)\<close>.
\<close>

fun imc_loop :: "nat \<Rightarrow> nat \<Rightarrow> m128 list \<Rightarrow> m128 list \<Rightarrow> m128 list \<times> nat" where
  "imc_loop 0 j ekeys dkeys = (dkeys, j)"
| "imc_loop (Suc i) j ekeys dkeys =
     imc_loop i (Suc j) ekeys (dkeys[Suc i := mm_aesimc (ekeys ! j)])"

definition AES_set_decrypt_key_fast :: "AES_KEY \<Rightarrow> AES_KEY \<Rightarrow> AES_KEY" where
  "AES_set_decrypt_key_fast dkey ekey =
     (let i = rounds ekey;
          keys = (rd_key dkey)[i := rd_key ekey ! 0];
          (keys, j) = imc_loop (i - 1) 1 (rd_key ekey) keys
      in \<lparr>rd_key = keys[0 := rd_key ekey ! j], rounds = i\<rparr>)"


section \<open>Decryption inverts encryption\<close>

subsection \<open>Bytes of blocks\<close>

lemma to_bytes_xor: "to_bytes (a XOR b :: m128) = map2 (XOR) (to_bytes a) (to_bytes b)"
  by (rule nth_equalityI)
    (auto simp: to_bytes_def le_bytes_def intro!: bit_word_eqI simp: bit_simps)

lemma of_bytes_xor:
  "length as = length bs \<Longrightarrow>
     (of_bytes (map2 (XOR) as bs) :: 'a::len word) = of_bytes as XOR of_bytes bs"
  by (rule bit_word_eqI) (auto simp: bit_of_bytes bit_simps)

lemma bytes16_cases:
  assumes "length (s :: 'a list) = 16"
  obtains a b c d e f g h i j k l m n p q where "s = [a, b, c, d, e, f, g, h, i, j, k, l, m, n, p, q]"
  using assms by (auto simp: length_Suc_conv numeral_eq_Suc)

lemma inv_sbox_sbox: "map (\<lambda>s. inv_sbox ! unat s) sbox = map of_nat [0..<256]"
  unfolding sbox_def inv_sbox_def by simp (simp add: upt_conv_Cons)

lemma inv_sub_byte_sub_byte [simp]: "inv_sub_byte (sub_byte b) = b"
proof -
  have len: "length sbox = 256" by (simp add: sbox_def)
  have b: "unat b < 256" using unat_lt2p [of b] by simp
  then have "map (\<lambda>s. inv_sbox ! unat s) sbox ! unat b = inv_sbox ! unat (sbox ! unat b)"
    by (simp add: len)
  with b show ?thesis
    by (simp add: inv_sbox_sbox sub_byte_def inv_sub_byte_def)
qed

subsection \<open>The column mix\<close>

lemma xtime_xor [simp]: "xtime (a XOR b) = xtime a XOR xtime b"
  by (rule bit_word_eqI) (auto simp: xtime_def bit_simps)

lemma inv_mix_mix: "inv_mix_columns (mix_columns s) = s"
proof (induction s rule: mix_columns.induct)
  case (1 a b c d rest)
  then show ?case
    by (simp add: gm9_def gm11_def gm13_def gm14_def) (simp add: xor_simps)
qed simp_all

lemma length_mix [simp]:
  "length (mix_columns s) = length s" "length (inv_mix_columns s) = length s"
  by (induction s rule: mix_columns.induct) simp_all

lemma inv_mix_xor:
  "length s = length t \<Longrightarrow>
     inv_mix_columns (map2 (XOR) s t) = map2 (XOR) (inv_mix_columns s) (inv_mix_columns t)"
proof (induction s arbitrary: t rule: inv_mix_columns.induct)
  case (1 a b c d rest)
  then obtain a' b' c' d' rest' where "t = a' # b' # c' # d' # rest'" "length rest = length rest'"
    by (auto simp: length_Suc_conv Suc_length_conv)
  with "1.IH" show ?case
    by (simp add: gm9_def gm11_def gm13_def gm14_def) (simp add: xor_simps)
qed (auto simp: length_Suc_conv Suc_length_conv)

subsection \<open>One round and its inverse\<close>

definition sr_block :: "m128 \<Rightarrow> m128" where
  "sr_block a = of_bytes (map sub_byte (shift_rows (to_bytes a)))"
definition inv_sr_block :: "m128 \<Rightarrow> m128" where
  "inv_sr_block a = of_bytes (map inv_sub_byte (inv_shift_rows (to_bytes a)))"
definition mix_block :: "m128 \<Rightarrow> m128" where
  "mix_block a = of_bytes (mix_columns (to_bytes a))"

lemma length_shift_rows [simp]:
  "length (shift_rows s) = 16" "length (inv_shift_rows s) = 16"
  by (simp_all add: shift_rows_def inv_shift_rows_def)

lemma to_of_bytes_m128 [simp]: "length bs = 16 \<Longrightarrow> to_bytes (of_bytes bs :: m128) = bs"
  by (simp add: to_bytes_of_bytes)

lemma aes_rounds:
  "mm_aesenc a k = mix_block (sr_block a) XOR k"
  "mm_aesenclast a k = sr_block a XOR k"
  "mm_aesdec a k = mm_aesimc (inv_sr_block a) XOR k"
  "mm_aesdeclast a k = inv_sr_block a XOR k"
  by (simp_all add: mm_aesenc_def mm_aesenclast_def mm_aesdec_def mm_aesdeclast_def mm_aesimc_def
      mix_block_def sr_block_def inv_sr_block_def)

lemma inv_sr_block_sr_block [simp]: "inv_sr_block (sr_block a) = a"
proof -
  have "map inv_sub_byte (inv_shift_rows (map sub_byte (shift_rows s))) = s"
    if "length s = 16" for s
    using that by (rule bytes16_cases) (simp add: shift_rows_def inv_shift_rows_def)
  from this [of "to_bytes a"] show ?thesis
    by (simp add: inv_sr_block_def sr_block_def)
qed

lemma aesimc_mix_block [simp]: "mm_aesimc (mix_block a) = a"
  by (simp add: mm_aesimc_def mix_block_def inv_mix_mix)

lemma aesimc_xor [simp]: "mm_aesimc (a XOR b) = mm_aesimc a XOR mm_aesimc b"
  by (simp add: mm_aesimc_def to_bytes_xor inv_mix_xor of_bytes_xor)

subsection \<open>The decryption schedule and the block loops\<close>

lemma imc_loop_nth:
  "i < length dkeys \<Longrightarrow> imc_loop i j ekeys dkeys = (d, j') \<Longrightarrow>
     j' = j + i \<and> length d = length dkeys \<and>
     (\<forall>k < length dkeys. d ! k = (if 1 \<le> k \<and> k \<le> i then mm_aesimc (ekeys ! (j + i - k)) else dkeys ! k))"
proof (induction i arbitrary: j dkeys)
  case (Suc i)
  then show ?case
    by (force simp: nth_list_update le_Suc_eq)
qed simp

lemma decrypt_schedule_nth:
  assumes "1 \<le> n" "rounds ek = n" "length (rd_key dk) = Suc n"
  shows "rounds (AES_set_decrypt_key_fast dk ek) = n"
    and "rd_key (AES_set_decrypt_key_fast dk ek) ! 0 = rd_key ek ! n"
    and "rd_key (AES_set_decrypt_key_fast dk ek) ! n = rd_key ek ! 0"
    and "\<And>k. 1 \<le> k \<Longrightarrow> k < n \<Longrightarrow>
           rd_key (AES_set_decrypt_key_fast dk ek) ! k = mm_aesimc (rd_key ek ! (n - k))"
proof -
  obtain d j where l: "imc_loop (n - 1) 1 (rd_key ek) ((rd_key dk)[n := rd_key ek ! 0]) = (d, j)"
    by fastforce
  from imc_loop_nth [OF _ this] assms
  have j: "j = n" and len: "length d = Suc n" and
    nth: "\<And>k. k < Suc n \<Longrightarrow> d ! k = (if 1 \<le> k \<and> k \<le> n - 1 then mm_aesimc (rd_key ek ! (n - k))
                                     else (rd_key dk)[n := rd_key ek ! 0] ! k)"
    by auto
  note key = AES_set_decrypt_key_fast_def Let_def assms(2) l [unfolded One_nat_def]
  show "rounds (AES_set_decrypt_key_fast dk ek) = n"
    "rd_key (AES_set_decrypt_key_fast dk ek) ! 0 = rd_key ek ! n"
    using j len by (simp_all add: key)
  show "rd_key (AES_set_decrypt_key_fast dk ek) ! n = rd_key ek ! 0"
    using assms len nth [of n] by (auto simp: key)
  fix k assume "1 \<le> k" "k < n"
  with len nth [of k] show
    "rd_key (AES_set_decrypt_key_fast dk ek) ! k = mm_aesimc (rd_key ek ! (n - k))"
    by (auto simp: key)
qed

lemma fold_map_blocks:
  "fold (\<lambda>j. map (f j)) js blks = map (\<lambda>b. fold f js b) blks"
  by (induction js arbitrary: blks) simp_all

text \<open>
  \<open>enc_state ks i b\<close> is the state before the substitution of round \<open>i + 1\<close>. Undoing rounds from the
  outside, \<open>i\<close> steps of the decryption loop lead from round \<open>n - 1\<close> back to round \<open>n - 1 - i\<close>.
\<close>

definition enc_state :: "m128 list \<Rightarrow> nat \<Rightarrow> m128 \<Rightarrow> m128" where
  "enc_state ks i b = fold (\<lambda>j b. mm_aesenc b (ks ! j)) [1..<Suc i] (b XOR ks ! 0)"

lemma enc_state_Suc: "enc_state ks (Suc i) b = mm_aesenc (enc_state ks i b) (ks ! Suc i)"
  by (simp add: enc_state_def)

lemma decrypt_loop:
  assumes "\<And>k. 1 \<le> k \<Longrightarrow> k < n \<Longrightarrow> ds ! k = mm_aesimc (ks ! (n - k))"
  shows "i < n \<Longrightarrow>
    fold (\<lambda>j b. mm_aesdec b (ds ! j)) [1..<Suc i] (sr_block (enc_state ks (n - 1) b))
      = sr_block (enc_state ks (n - 1 - i) b)"
proof (induction i)
  case (Suc i)
  define m where "m = n - Suc (Suc i)"
  with Suc.prems have m: "n - Suc i = Suc m" "n - Suc (Suc i) = m"
    by simp_all
  have "fold (\<lambda>j b. mm_aesdec b (ds ! j)) [1..<Suc i] (sr_block (enc_state ks (n - 1) b))
      = sr_block (enc_state ks (Suc m) b)"
    using Suc m by simp
  then have "fold (\<lambda>j b. mm_aesdec b (ds ! j)) [1..<Suc (Suc i)] (sr_block (enc_state ks (n - 1) b))
      = mm_aesdec (sr_block (enc_state ks (Suc m) b)) (ds ! Suc i)"
    by simp
  with Suc.prems m show ?case
    by (simp add: aes_rounds enc_state_Suc assms)
qed simp

lemma decrypt_encrypt_block:
  assumes "1 \<le> n" "rounds ek = n" "length (rd_key dk) = Suc n"
  shows "AES_ecb_decrypt_blks (AES_ecb_encrypt_blks blks ek) (AES_set_decrypt_key_fast dk ek) = blks"
proof -
  let ?ks = "rd_key ek" and ?d = "AES_set_decrypt_key_fast dk ek"
  note sched = decrypt_schedule_nth [OF assms]
  have n: "Suc (n - Suc 0) = n" using assms(1) by simp
  have enc: "AES_ecb_encrypt_blks blks ek
      = map (\<lambda>b. sr_block (enc_state ?ks (n - 1) b) XOR ?ks ! n) blks"
    by (simp add: AES_ecb_encrypt_blks_def Let_def assms(2) fold_map_blocks enc_state_def aes_rounds(2) n
        del: upt_Suc)
  have undone: "fold (\<lambda>j b. mm_aesdec b (rd_key ?d ! j)) [1..<n] (sr_block (enc_state ?ks (n - 1) b))
      = sr_block (b XOR ?ks ! 0)" for b
    using decrypt_loop [of n "rd_key ?d" ?ks "n - 1" b, OF sched(4)] assms(1)
    by (simp add: n enc_state_def)
  show ?thesis
    by (simp add: AES_ecb_decrypt_blks_def Let_def sched(1,2,3) fold_map_blocks enc undone [unfolded One_nat_def] aes_rounds(4)
        comp_def)
qed

end
