(* ===== verification/Prg.thy ===== *)
theory Prg
  imports Aes
begin

text \<open>
  \<^verbatim>\<open>mpc/prg.h\<close> (copied as \<^verbatim>\<open>mpc/dpf/prg.h\<close>) and \<^verbatim>\<open>mpc/prg.hpp\<close>: the fixed-key AES generator \<^verbatim>\<open>PRG\<close>, its
  variant for unaligned buffers, and the expansion of a seed into a vector of integers.
  \<^verbatim>\<open>PRG\<close> takes its count and its first counter as \<^verbatim>\<open>uint32_t\<close> and adds the block index to the counter in 64 bits, without
  wrapping; a caller with a larger count converts it first, as \<open>fill_vector_with_prg\<close> writes out.
  The interface \<open>block_prg\<close> states what the users of the generator rely on: a call returns as many
  blocks as asked for, and each block is the one a single-block call at that counter returns.
\<close>

definition prg_tweak :: "nat \<Rightarrow> m128" where
  "prg_tweak i = mm_set_epi64x 0 (of_nat i)"

definition PRG :: "AES_KEY \<Rightarrow> m128 \<Rightarrow> nat \<Rightarrow> nat \<Rightarrow> m128 list" where
  "PRG prgkey seed len from =
     (let outbuf = map (\<lambda>i. seed XOR prg_tweak (from + i)) [0..<len];
          outbuf = AES_ecb_encrypt_blks outbuf prgkey
      in map (\<lambda>i. (outbuf ! i XOR prg_tweak (from + i)) XOR seed) [0..<len])"

text \<open>\<^verbatim>\<open>PRG_safe\<close> works on the bytes of the output buffer; \<open>None\<close> is a null pointer.\<close>

definition load_blocks :: "byte list \<Rightarrow> nat \<Rightarrow> m128 list" where
  "load_blocks out n = map of_bytes (chunks 16 n out)"

definition store_blocks :: "m128 list \<Rightarrow> byte list" where
  "store_blocks bs = concat (map to_bytes bs)"

definition PRG_safe :: "AES_KEY \<Rightarrow> m128 \<Rightarrow> byte list option \<Rightarrow> nat \<Rightarrow> nat \<Rightarrow> byte list result" where
  "PRG_safe prgkey seed outbuf len_blocks from =
     (case outbuf of
        None \<Rightarrow> Inl (Assertion ''outbuf != nullptr'')
      | Some buf \<Rightarrow>
          if len_blocks = 0 then Inr buf
          else if length buf < 16 * len_blocks then Inl (Undefined ''buffer overrun'')
          else
            let rest = drop (16 * len_blocks) buf;
                out = store_blocks (map (\<lambda>i. seed XOR prg_tweak (from + i)) [0..<len_blocks]);
                out = store_blocks (AES_ecb_encrypt_blks (load_blocks out len_blocks) prgkey);
                cts = load_blocks out len_blocks;
                out = store_blocks
                  (map (\<lambda>i. (cts ! i XOR prg_tweak (from + i)) XOR seed) [0..<len_blocks])
            in Inr (out @ rest))"

text \<open>
  \<^verbatim>\<open>fill_vector_with_prg\<close>: each block yields its low, then its high half, until the vector is full. The number of blocks is
  cut to 32 bits for the call of \<^verbatim>\<open>PRG\<close>; blocks that it does not write keep the zero they were initialised with.
\<close>

fun fill_loop :: "nat \<Rightarrow> m128 list \<Rightarrow> 'a::len word list" where
  "fill_loop 0 buf = []"
| "fill_loop n [] = replicate n 0"
| "fill_loop (Suc 0) (b # buf) = [ucast (mm_cvtsi128_si64 b)]"
| "fill_loop (Suc (Suc n)) (b # buf) =
     ucast (mm_cvtsi128_si64 b) # ucast (mm_extract_epi64_1 b) # fill_loop n buf"

definition fill_vector_with_prg :: "nat \<Rightarrow> AES_KEY \<Rightarrow> m128 \<Rightarrow> 'a::len word list" where
  "fill_vector_with_prg n key seed =
     (let blocks = (n + 1) div 2; len = unat (of_nat blocks :: u32)
      in fill_loop n (PRG key seed len 0 @ replicate (blocks - len) 0))"


section \<open>The interface of a counter-mode generator\<close>

locale block_prg =
  fixes G :: "'k \<Rightarrow> m128 \<Rightarrow> nat \<Rightarrow> nat \<Rightarrow> m128 list"
  assumes length_G: "length (G k s n f) = n"
    and nth_G: "i < n \<Longrightarrow> G k s n f ! i = G k s 1 (f + i) ! 0"
begin

lemma G_two: "G k s 2 0 = [G k s 1 0 ! 0, G k s 1 1 ! 0]"
proof -
  have "G k s 2 0 = [G k s 2 0 ! 0, G k s 2 0 ! 1]"
    by (rule nth_equalityI) (auto simp: length_G less_2_cases_iff)
  with nth_G [of 0 2 k s 0] nth_G [of 1 2 k s 0] show ?thesis by simp
qed

lemma G_one: "G k s 1 f = [G k s 1 f ! 0]"
  by (rule nth_equalityI) (auto simp: length_G)

end

definition aes_block :: "AES_KEY \<Rightarrow> m128 \<Rightarrow> m128" where
  "aes_block key b =
     mm_aesenclast (fold (\<lambda>j b. mm_aesenc b (rd_key key ! j)) [1..<rounds key] (b XOR rd_key key ! 0))
       (rd_key key ! rounds key)"

lemma AES_ecb_blockwise: "AES_ecb_encrypt_blks blks key = map (aes_block key) blks"
  by (simp add: AES_ecb_encrypt_blks_def Let_def fold_map_blocks aes_block_def)

lemma length_PRG [simp]: "length (PRG key seed n f) = n"
  by (simp add: PRG_def Let_def)

lemma nth_PRG:
  "i < n \<Longrightarrow> PRG key seed n f ! i =
     aes_block key (seed XOR prg_tweak (f + i)) XOR prg_tweak (f + i) XOR seed"
  by (simp add: PRG_def Let_def AES_ecb_blockwise xor.assoc)

interpretation aes_prg: block_prg PRG
  by unfold_locales (simp_all add: nth_PRG)


section \<open>Lemmas\<close>

lemma load_store_blocks [simp]: "load_blocks (store_blocks bs) (length bs) = bs"
  using chunks_concat [of bs to_bytes 16 "[]"]
  by (simp add: load_blocks_def store_blocks_def map_idI)

lemma length_store_blocks [simp]: "length (store_blocks bs) = 16 * length bs"
  by (simp add: store_blocks_def length_concat_map_const [where w = 16])

text \<open>The unaligned variant writes the bytes of the blocks the aligned one writes.\<close>

lemma PRG_safe_eq:
  assumes "16 * n \<le> length buf"
  shows "PRG_safe key seed (Some buf) n f = Inr (store_blocks (PRG key seed n f) @ drop (16 * n) buf)"
proof (cases "n = 0")
  case True
  then show ?thesis by (simp add: PRG_safe_def store_blocks_def PRG_def Let_def)
next
  case False
  let ?in = "map (\<lambda>i. seed XOR prg_tweak (f + i)) [0..<n]"
  have "load_blocks (store_blocks ?in) n = ?in"
    using load_store_blocks [of ?in] by simp
  moreover have "load_blocks (store_blocks (AES_ecb_encrypt_blks ?in key)) n = AES_ecb_encrypt_blks ?in key"
    using load_store_blocks [of "AES_ecb_encrypt_blks ?in key"] by (simp add: AES_ecb_blockwise)
  ultimately show ?thesis
    using False assms by (simp add: PRG_safe_def PRG_def Let_def)
qed

lemma length_fill_loop [simp]: "length (fill_loop n buf) = n"
  by (induction n buf rule: fill_loop.induct) simp_all

lemma nth_fill_loop:
  "n \<le> 2 * length buf \<Longrightarrow> i < n \<Longrightarrow>
     fill_loop n buf ! i =
       ucast (if even i then mm_cvtsi128_si64 (buf ! (i div 2)) else mm_extract_epi64_1 (buf ! (i div 2)))"
proof (induction n buf arbitrary: i rule: fill_loop.induct)
  case (4 n b buf)
  show ?case
  proof (cases "i < 2")
    case True
    then show ?thesis by (auto simp: less_2_cases_iff)
  next
    case False
    then obtain j where j: "i = Suc (Suc j)"
      by (metis Suc_1 Suc_lessI less_2_cases_iff not0_implies_Suc)
    with 4 show ?thesis by simp
  qed
qed auto

lemma length_fill_vector [simp]: "length (fill_vector_with_prg n key seed) = n"
  by (simp add: fill_vector_with_prg_def Let_def)

lemma fill_vector_small:
  assumes "(n + 1) div 2 < 2 ^ 32"
  shows "fill_vector_with_prg n key seed = fill_loop n (PRG key seed ((n + 1) div 2) 0)"
  using assms by (simp add: fill_vector_with_prg_def Let_def unat_of_nat take_bit_nat_eq_self)

end
