(* ===== verification/MpcOps.thy ===== *)
theory MpcOps
  imports Shares VecOps Prg
begin

text \<open>
  \<^verbatim>\<open>mpc/mpcops.hpp\<close>: the three-party protocols on shares. Every operation is the coroutine one party runs;
  it takes the party's state and returns its result with the state after it. Where the code reads
  an uninitialised variable or dereferences a null context the coroutine throws \<open>Undefined\<close>.
\<close>

definition null_ctx :: err where
  "null_ctx = Undefined ''null MPCContext dereferenced''"

section \<open>Multiplication of additive shares\<close>

text \<open>
  \<^verbatim>\<open>mpc_mul\<close> at \<^verbatim>\<open>uint64_t\<close>, the type \<^verbatim>\<open>operator*\<close> calls it at. The dealer draws four masks, and sends the
  material or appends it to the tapes under the running index.
\<close>

definition random4 :: "pstate \<Rightarrow> (('a::len word \<times> 'a word \<times> 'a word \<times> 'a word) \<times> pstate) result" where
  "random4 st =
     res_bind (mpc_random st) (\<lambda>(a, st).
     res_bind (mpc_random st) (\<lambda>(b, st).
     res_bind (mpc_random st) (\<lambda>(c, st).
     res_bind (mpc_random st) (\<lambda>(d, st). Inr ((a, b, c, d), st)))))"

definition tape_entry :: "u64 \<Rightarrow> 'a::len word \<Rightarrow> 'a word \<Rightarrow> 'a word \<Rightarrow> byte list" where
  "tape_entry idx X Y gamma = to_bytes idx @ to_bytes X @ to_bytes Y @ to_bytes gamma"

definition mul_deal :: "netpeer \<Rightarrow> netpeer \<Rightarrow> pstate \<Rightarrow> (u64 \<times> pstate) coro" where
  "mul_deal p0 p1 st =
     bind (lift_result (random4 st)) (\<lambda>((X0, Y0, X1, Y1), st).
       let gamma0 = X0 * Y1; gamma1 = X1 * Y0 :: u64
       in case mc_mode (ps_ctx st) of
            Online \<Rightarrow>
              Await [send_val p0 X0, send_val p1 Y0, send_val p0 X1, send_val p1 Y1,
                     send_val p0 gamma0, send_val p1 gamma1] (\<lambda>_. Return (0, st))
          | Record \<Rightarrow>
              (case mul_ctr (ps_ctx st) of
                 None \<Rightarrow> Throw (Undefined ''mul_ctr uninitialised'')
               | Some idx \<Rightarrow>
                   Return (0, st\<lparr>ps_ctx := (ps_ctx st)\<lparr>
                     mul_ctr := Some (idx + 1),
                     mul_out_p0 := fwrite (mul_out_p0 (ps_ctx st)) (tape_entry idx X0 Y0 gamma0),
                     mul_out_p1 := fwrite (mul_out_p1 (ps_ctx st)) (tape_entry idx X1 Y1 gamma1)\<rparr>\<rparr>))
          | Replay \<Rightarrow> Return (0, st))"

text \<open>One entry of a tape; a short read leaves the index or the masks undetermined.\<close>

definition read_entry :: "string \<Rightarrow> u64 \<Rightarrow> fstream \<Rightarrow> (('a::len word \<times> 'a word \<times> 'a word) \<times> fstream) result" where
  "read_entry desync expected tape =
     (let short = Inl (Undefined ''preprocessing tape exhausted''); n = LENGTH('a) div 8
      in case fread 8 tape of None \<Rightarrow> short | Some (i, tape) \<Rightarrow>
           if (of_bytes i :: u64) \<noteq> expected then Inl (Runtime_error desync)
           else case fread n tape of None \<Rightarrow> short | Some (X, tape) \<Rightarrow>
             case fread n tape of None \<Rightarrow> short | Some (Y, tape) \<Rightarrow>
             case fread n tape of None \<Rightarrow> short | Some (g, tape) \<Rightarrow>
               Inr ((of_bytes X, of_bytes Y, of_bytes g), tape))"

definition party_name :: "bool \<Rightarrow> string" where
  "party_name is_p0 = (if is_p0 then ''P0'' else ''P1'')"

definition mul_material :: "bool \<Rightarrow> netpeer \<Rightarrow> pstate \<Rightarrow> ((u64 \<times> u64 \<times> u64) \<times> pstate) coro" where
  "mul_material is_p0 self st =
     (let ctx = ps_ctx st
      in case mc_mode ctx of
           Online \<Rightarrow>
             Await [recv_val TYPE(u64) self, recv_val TYPE(u64) self, recv_val TYPE(u64) self]
               (\<lambda>r. Return ((of_bytes (r ! 0), of_bytes (r ! 1), of_bytes (r ! 2)), st))
         | Replay \<Rightarrow>
             (case mul_ctr ctx of
                None \<Rightarrow> Throw (Undefined ''mul_ctr uninitialised'')
              | Some expected \<Rightarrow>
                  bind (lift_result (read_entry (''Replay desync in mpc_mul at '' @ party_name is_p0) expected
                          (if is_p0 then mul_in_p0 ctx else mul_in_p1 ctx)))
                    (\<lambda>(m, tape). Return (m, st\<lparr>ps_ctx :=
                       (if is_p0 then ctx\<lparr>mul_ctr := Some (expected + 1), mul_in_p0 := tape\<rparr>
                        else ctx\<lparr>mul_ctr := Some (expected + 1), mul_in_p1 := tape\<rparr>)\<rparr>)))
         | Record \<Rightarrow> Throw (Undefined ''X, Y, gamma uninitialised''))"

definition mul_exchange :: "bool \<Rightarrow> netpeer \<Rightarrow> u64 \<Rightarrow> u64 \<Rightarrow> u64 \<Rightarrow> u64 \<Rightarrow> u64 \<Rightarrow> u64 coro" where
  "mul_exchange is_p0 peer x_i y_i X Y gamma =
     (let out = (\<lambda>X_tilde Y_tilde. x_i * (y_i + Y_tilde) - Y * X_tilde + gamma)
      in if is_p0 then
           Await [send_val peer (x_i + X), send_val peer (y_i + Y), recv_val TYPE(u64) peer, recv_val TYPE(u64) peer]
             (\<lambda>r. Return (out (of_bytes (r ! 2)) (of_bytes (r ! 3))))
         else
           Await [recv_val TYPE(u64) peer, recv_val TYPE(u64) peer, send_val peer (x_i + X), send_val peer (y_i + Y)]
             (\<lambda>r. Return (out (of_bytes (r ! 0)) (of_bytes (r ! 1)))))"

definition mpc_mul :: "u64 ashare \<Rightarrow> u64 ashare \<Rightarrow> role \<Rightarrow> netpeer \<Rightarrow> netpeer option \<Rightarrow> netpeer option
    \<Rightarrow> pstate \<Rightarrow> (u64 \<times> pstate) coro" where
  "mpc_mul x y role self peer_ptr second_peer st =
     (if role = P2 then
        (case (peer_ptr, second_peer) of
           (Some p0, Some p1) \<Rightarrow> if as_ctx x = Null then Throw null_ctx else mul_deal p0 p1 st
         | _ \<Rightarrow> Return (0, st))
      else
        (case peer_ptr of
           None \<Rightarrow> Return (0, st)
         | Some peer \<Rightarrow>
             if as_ctx x = Null then Throw null_ctx
             else bind (mul_material (role = P0) self st) (\<lambda>((X, Y, gamma), st).
                  bind (mul_exchange (role = P0) peer (as_val x) (as_val y) X Y gamma) (\<lambda>out.
                  Return (out, st)))))"

text \<open>\<^verbatim>\<open>operator*\<close> on additive shares.\<close>

definition ashare_times :: "u64 ashare \<Rightarrow> u64 ashare \<Rightarrow> pstate \<Rightarrow> (u64 ashare \<times> pstate) coro" where
  "ashare_times x y st =
     (if as_ctx x = Null \<or> as_ctx y = Null then Throw (Runtime_error ''AShare::operator* missing ctx'')
      else let ctx = ps_ctx st
           in bind (mpc_mul x y (mc_role ctx) (mc_self ctx) (mc_peer0 ctx) (mc_peer1 ctx) st)
                (\<lambda>(result, st). Return (AShare result (as_ctx x), st)))"


section \<open>Conjunction of xor shares\<close>

definition and_deal :: "netpeer \<Rightarrow> netpeer \<Rightarrow> pstate \<Rightarrow> ('a::len word \<times> pstate) coro" where
  "and_deal p0 p1 st =
     (case mc_mode (ps_ctx st) of
        Replay \<Rightarrow> Return (0, st)
      | mode \<Rightarrow>
          bind (lift_result (random4 st)) (\<lambda>((X0, Y0, X1, Y1), st).
            let gamma0 = X0 AND Y1; gamma1 = X1 AND Y0 :: 'a word
            in if mode = Online then
                 Await [send_val p0 X0, send_val p0 Y0, send_val p0 gamma0,
                        send_val p1 X1, send_val p1 Y1, send_val p1 gamma1] (\<lambda>_. Return (0, st))
               else
                 (case and_ctr (ps_ctx st) of
                    None \<Rightarrow> Throw (Undefined ''and_ctr uninitialised'')
                  | Some idx \<Rightarrow>
                      Return (0, st\<lparr>ps_ctx := (ps_ctx st)\<lparr>
                        and_ctr := Some (idx + 1),
                        and_out_p0 := fwrite (and_out_p0 (ps_ctx st)) (tape_entry idx X0 Y0 gamma0),
                        and_out_p1 := fwrite (and_out_p1 (ps_ctx st)) (tape_entry idx X1 Y1 gamma1)\<rparr>\<rparr>))))"

definition and_material :: "bool \<Rightarrow> netpeer \<Rightarrow> pstate \<Rightarrow> (('a::len word \<times> 'a word \<times> 'a word) \<times> pstate) coro" where
  "and_material is_p0 self st =
     (let ctx = ps_ctx st
      in case mc_mode ctx of
           Online \<Rightarrow>
             Await [recv_val TYPE('a word) self, recv_val TYPE('a word) self, recv_val TYPE('a word) self]
               (\<lambda>r. Return ((of_bytes (r ! 0), of_bytes (r ! 1), of_bytes (r ! 2)), st))
         | Replay \<Rightarrow>
             (case and_ctr ctx of
                None \<Rightarrow> Throw (Undefined ''and_ctr uninitialised'')
              | Some expected \<Rightarrow>
                  bind (lift_result (read_entry (''Replay desync in mpc_and at '' @ party_name is_p0) expected
                          (if is_p0 then and_in_p0 ctx else and_in_p1 ctx)))
                    (\<lambda>(m, tape). Return (m, st\<lparr>ps_ctx :=
                       (if is_p0 then ctx\<lparr>and_ctr := Some (expected + 1), and_in_p0 := tape\<rparr>
                        else ctx\<lparr>and_ctr := Some (expected + 1), and_in_p1 := tape\<rparr>)\<rparr>)))
         | Record \<Rightarrow> Throw (Undefined ''X, Y, gamma uninitialised''))"

definition and_exchange :: "bool \<Rightarrow> netpeer \<Rightarrow> 'a::len word \<Rightarrow> 'a word \<Rightarrow> 'a word \<Rightarrow> 'a word \<Rightarrow> 'a word
    \<Rightarrow> 'a word coro" where
  "and_exchange is_p0 peer xi yi X Y gamma =
     (let ai = xi XOR X; bi = yi XOR Y;
          out = (\<lambda>aj bj. (xi AND (yi XOR bj)) XOR (Y AND aj) XOR gamma)
      in if is_p0 then
           Await [send_val peer ai, send_val peer bi, recv_val TYPE('a word) peer, recv_val TYPE('a word) peer]
             (\<lambda>r. Return (out (of_bytes (r ! 2)) (of_bytes (r ! 3))))
         else
           Await [recv_val TYPE('a word) peer, recv_val TYPE('a word) peer, send_val peer ai, send_val peer bi]
             (\<lambda>r. Return (out (of_bytes (r ! 0)) (of_bytes (r ! 1)))))"

definition mpc_and :: "'a::len word xshare \<Rightarrow> 'a word xshare \<Rightarrow> role \<Rightarrow> netpeer \<Rightarrow> netpeer option
    \<Rightarrow> netpeer option \<Rightarrow> pstate \<Rightarrow> ('a word \<times> pstate) coro" where
  "mpc_and x y role self peer_ptr second_peer st =
     (if role = P2 then
        (case (peer_ptr, second_peer) of
           (Some p0, Some p1) \<Rightarrow> if xs_ctx x = Null then Throw null_ctx else and_deal p0 p1 st
         | _ \<Rightarrow> Return (0, st))
      else
        (case peer_ptr of
           None \<Rightarrow> Return (0, st)
         | Some peer \<Rightarrow>
             if xs_ctx x = Null then Throw null_ctx
             else bind (and_material (role = P0) self st) (\<lambda>((X, Y, gamma), st).
                  bind (and_exchange (role = P0) peer (xs_val x) (xs_val y) X Y gamma) (\<lambda>out.
                  Return (out, st)))))"

definition xshare_times :: "'a::len word xshare \<Rightarrow> 'a word xshare \<Rightarrow> pstate \<Rightarrow> ('a word xshare \<times> pstate) coro" where
  "xshare_times x y st =
     (if xs_ctx x = Null \<or> xs_ctx y = Null then Throw (Runtime_error ''XShare::operator* missing ctx'')
      else let ctx = ps_ctx st
           in bind (mpc_and x y (mc_role ctx) (mc_self ctx) (mc_peer0 ctx) (mc_peer1 ctx) st)
                (\<lambda>(result, st). Return (XShare result (xs_ctx x), st)))"

text \<open>
  The namespace-level \<^verbatim>\<open>+\<close>, \<^verbatim>\<open>-\<close>, \<^verbatim>\<open>^\<close> on xor shares check the contexts; an expression \<^verbatim>\<open>x ^ y\<close> resolves to
  the member operator, which does not.
\<close>

definition xshare_op_checked :: "string \<Rightarrow> 'a::len word xshare \<Rightarrow> 'a word xshare \<Rightarrow> 'a word xshare result" where
  "xshare_op_checked name a b =
     (if xs_ctx a = Null \<or> xs_ctx b = Null then Inl (Runtime_error (''XShare::operator'' @ name @ '' missing ctx''))
      else Inr (XShare (xs_val a XOR xs_val b) (xs_ctx a)))"


section \<open>Disjunction and the test for zero\<close>

definition mpc_or :: "'a::len word xshare \<Rightarrow> 'a word xshare \<Rightarrow> role \<Rightarrow> netpeer \<Rightarrow> netpeer option
    \<Rightarrow> netpeer option \<Rightarrow> pstate \<Rightarrow> ('a word \<times> pstate) coro" where
  "mpc_or x y role self peer_ptr second_peer st =
     (let xor_xy = xshare_xor x y
      in bind (xshare_times x y st) (\<lambda>(and_xy, st). Return (xs_val (xshare_xor xor_xy and_xy), st)))"

definition xshare_or :: "'a::len word xshare \<Rightarrow> 'a word xshare \<Rightarrow> pstate \<Rightarrow> ('a word xshare \<times> pstate) coro" where
  "xshare_or x y st =
     (if xs_ctx x = Null \<or> xs_ctx y = Null then Throw (Runtime_error ''XShare::operator| missing ctx'')
      else let ctx = ps_ctx st
           in bind (mpc_or x y (mc_role ctx) (mc_self ctx) (mc_peer0 ctx) (mc_peer1 ctx) st)
                (\<lambda>(result, st). Return (XShare result (xs_ctx x), st)))"

text \<open>
  The reduction of a vector of shares by a two-input gate: one level, and the loop
  \<^verbatim>\<open>while (level.size() > 1)\<close>. Each iteration halves the size; the first argument bounds the
  iterations, and the 64 leaves of \<^verbatim>\<open>mpc_eqz\<close> need 6.
\<close>

type_synonym 'v gate = "'v xshare \<Rightarrow> 'v xshare \<Rightarrow> pstate \<Rightarrow> ('v xshare \<times> pstate) coro"

fun tree_level :: "'v gate \<Rightarrow> 'v xshare list \<Rightarrow> pstate \<Rightarrow> ('v xshare list \<times> pstate) coro" where
  "tree_level g (a # b # level) st =
     bind (g a b st) (\<lambda>(t, st).
     bind (tree_level g level st) (\<lambda>(next, st). Return (t # next, st)))"
| "tree_level g level st = Return (level, st)"

fun tree_loop :: "nat \<Rightarrow> 'v gate \<Rightarrow> 'v xshare list \<Rightarrow> pstate \<Rightarrow> ('v xshare list \<times> pstate) coro" where
  "tree_loop 0 g level st =
     (if length level \<le> 1 then Return (level, st) else Throw (Undefined ''tree_loop: bound exceeded''))"
| "tree_loop (Suc r) g level st =
     (if length level \<le> 1 then Return (level, st)
      else bind (tree_level g level st) (\<lambda>(next, st). tree_loop r g next st))"

definition eqz_leaves :: "bool \<Rightarrow> u64 \<Rightarrow> u64 \<Rightarrow> u64 list" where
  "eqz_leaves is_p1 c_rec rXS =
     map (\<lambda>i. let rXS_i = drop_bit i rXS AND 1
              in if is_p1 then (drop_bit i c_rec AND 1) XOR rXS_i else rXS_i) [0..<64]"

definition mpc_eqz :: "u64 ashare \<Rightarrow> role \<Rightarrow> netpeer \<Rightarrow> netpeer option \<Rightarrow> netpeer option \<Rightarrow> pstate
    \<Rightarrow> (u64 xshare \<times> pstate) coro" where
  "mpc_eqz x role self peer_ptr second_peer st =
     (if role = P2 then
        (case (peer_ptr, second_peer) of
           (Some p0, Some p1) \<Rightarrow>
             let (r, st) = arc4random_val st;
                 (r0AS, st) = arc4random_val st;
                 (r0XS, st) = arc4random_val st;
                 r1AS = r - r0AS; r1XS = r XOR r0XS :: u64
             in Await [send_val p0 r0AS, send_val p1 r1AS, send_val p0 r0XS, send_val p1 r1XS] (\<lambda>_.
                bind (tree_loop 6 xshare_or (replicate 64 (XShare (0 :: u64) (as_ctx x))) st) (\<lambda>(_, st).
                Return (XShare 0 (as_ctx x), st)))
         | _ \<Rightarrow> Return (XShare 0 Null, st))
      else
        (case peer_ptr of
           None \<Rightarrow> Return (XShare 0 Null, st)
         | Some peer \<Rightarrow>
             Await [recv_val TYPE(u64) self, recv_val TYPE(u64) self] (\<lambda>m.
             let rAS = of_bytes (m ! 0) :: u64; rXS = of_bytes (m ! 1) :: u64; c = as_val x + rAS
             in Await [send_val peer c, recv_val TYPE(u64) peer] (\<lambda>m.
                let c_recv = of_bytes (m ! 1) :: u64; c_rec = c + c_recv
                in bind (tree_loop 6 xshare_or (map (\<lambda>v. XShare v (as_ctx x)) (eqz_leaves (role = P1) c_rec rXS)) st)
                     (\<lambda>(level, st). Return (level ! 0, st))))))"

definition ashare_eq_zero :: "u64 ashare \<Rightarrow> u64 \<Rightarrow> pstate \<Rightarrow> (u64 xshare \<times> pstate) coro" where
  "ashare_eq_zero x zero st =
     (if zero \<noteq> 0 then Throw (Runtime_error ''operator== only supports == 0 for AShare'')
      else if as_ctx x = Null then Throw (Runtime_error ''AShare::operator== missing ctx'')
      else let ctx = ps_ctx st
           in mpc_eqz x (mc_role ctx) (mc_self ctx) (mc_peer0 ctx) (mc_peer1 ctx) st)"


section \<open>Dot products of additive share vectors\<close>

definition dot_deal :: "netpeer \<Rightarrow> netpeer \<Rightarrow> nat \<Rightarrow> nat \<Rightarrow> pstate \<Rightarrow> (u64 \<times> pstate) coro" where
  "dot_deal p0 p1 nx ny st =
     (let key = default_aes_key;
          (seed_X0, st) = arc4random_val st;
          (seed_X1, st) = arc4random_val st;
          (seed_Y0, st) = arc4random_val st;
          (seed_Y1, st) = arc4random_val st;
          X0 = fill_vector_with_prg nx key seed_X0; X1 = fill_vector_with_prg nx key seed_X1;
          Y0 = fill_vector_with_prg ny key seed_Y0; Y1 = fill_vector_with_prg ny key seed_Y1
      in bind (lift_result (vec_dot X0 Y1)) (\<lambda>gamma0 :: u64.
         bind (lift_result (vec_dot X1 Y0)) (\<lambda>gamma1 :: u64.
         Await [send_val p0 seed_X0, send_val p0 seed_Y0, send_val p0 gamma0,
                send_val p1 seed_X1, send_val p1 seed_Y1, send_val p1 gamma1] (\<lambda>_. Return (0, st)))))"

definition dot_exchange :: "netpeer \<Rightarrow> u64 list \<Rightarrow> u64 list \<Rightarrow> m128 \<Rightarrow> m128 \<Rightarrow> u64 \<Rightarrow> u64 coro" where
  "dot_exchange peer x y seed_X seed_Y gamma =
     (let key = default_aes_key;
          X_blind = fill_vector_with_prg (length x) key seed_X;
          Y_blind = fill_vector_with_prg (length x) key seed_Y
      in bind (lift_result (vec_plus x X_blind)) (\<lambda>xb.
         bind (lift_result (vec_plus y Y_blind)) (\<lambda>yb.
         Await [send_vec peer xb, send_vec peer yb, recv_vec TYPE(u64) peer, recv_vec TYPE(u64) peer] (\<lambda>r.
         let X_tilde = vec_of_bytes (r ! 2); Y_tilde = vec_of_bytes (r ! 3)
         in bind (lift_result (vec_plus y Y_tilde)) (\<lambda>yy.
            bind (lift_result (vec_dot x yy)) (\<lambda>d.
            bind (lift_result (vec_dot Y_blind X_tilde)) (\<lambda>e.
            Return (d - e + gamma))))))))"

definition mpc_dotproduct :: "u64 ashare_vec \<Rightarrow> u64 ashare_vec \<Rightarrow> role \<Rightarrow> netpeer \<Rightarrow> netpeer option
    \<Rightarrow> netpeer option \<Rightarrow> pstate \<Rightarrow> (u64 \<times> pstate) coro" where
  "mpc_dotproduct x y role self peer_ptr second_peer st =
     (if role = P2 then
        (case (peer_ptr, second_peer) of
           (Some p0, Some p1) \<Rightarrow> dot_deal p0 p1 (length (av_vals x)) (length (av_vals y)) st
         | _ \<Rightarrow> Return (0, st))
      else
        (case peer_ptr of
           None \<Rightarrow> Return (0, st)
         | Some peer \<Rightarrow>
             Await [recv_val TYPE(m128) self, recv_val TYPE(m128) self, recv_val TYPE(u64) self] (\<lambda>r.
             bind (dot_exchange peer (av_vals x) (av_vals y)
                     (of_bytes (r ! 0)) (of_bytes (r ! 1)) (of_bytes (r ! 2))) (\<lambda>out.
             Return (out, st)))))"

definition avec_times :: "u64 ashare_vec \<Rightarrow> u64 ashare_vec \<Rightarrow> pstate \<Rightarrow> (u64 \<times> pstate) coro" where
  "avec_times x y st =
     (if av_ctx x = Null then Throw (Runtime_error ''AdditiveShareVector missing MPC context'')
      else let ctx = ps_ctx st
           in mpc_dotproduct x y (mc_role ctx) (mc_self ctx) (mc_peer0 ctx) (mc_peer1 ctx) st)"

end
