(* ===== verification/MpcCorrect.thy ===== *)
theory MpcCorrect
  imports MpcOps
begin

text \<open>
  Correctness of the three-party protocols: from well-wired parties every schedule ends with the
  parties holding shares of the intended result.
\<close>

section \<open>Wiring\<close>

text \<open>The connections \<^verbatim>\<open>main.cpp\<close> sets up, and the mode the parties run in.\<close>

definition wired :: "rand_mode \<Rightarrow> role \<Rightarrow> pstate \<Rightarrow> bool" where
  "wired mode r st \<longleftrightarrow>
     mc_role (ps_ctx st) = r \<and> mc_mode (ps_ctx st) = mode \<and>
     mc_self (ps_ctx st) = three (peer_at P0 P2) (peer_at P1 P2) (peer_at P0 P0) r \<and>
     mc_peer0 (ps_ctx st) = three (Some (peer_at P1 P1)) (Some (peer_at P0 P0)) (Some (peer_at P0 P0)) r \<and>
     mc_peer1 (ps_ctx st) = three None None (Some (peer_at P1 P1)) r"

lemma wiredD:
  assumes "wired mode r st"
  shows "mc_role (ps_ctx st) = r" "mc_mode (ps_ctx st) = mode"
    "mc_self (ps_ctx st) = three (peer_at P0 P2) (peer_at P1 P2) (peer_at P0 P0) r"
    "mc_peer0 (ps_ctx st) = three (Some (peer_at P1 P1)) (Some (peer_at P0 P0)) (Some (peer_at P0 P0)) r"
    "mc_peer1 (ps_ctx st) = three None None (Some (peer_at P1 P1)) r"
  using assms by (simp_all add: wired_def)

text \<open>Drawing values moves the position of the generator only.\<close>

definition rng_val :: "pstate \<Rightarrow> nat \<Rightarrow> 'a::len word" where
  "rng_val st k = of_bytes (map (\<lambda>i. ps_rng st (ps_pos st + k + i)) [0..<LENGTH('a) div 8])"

definition skip_rng :: "nat \<Rightarrow> pstate \<Rightarrow> pstate" where
  "skip_rng n st = st\<lparr>ps_pos := ps_pos st + n\<rparr>"

lemma skip_rng_simps [simp]:
  "ps_ctx (skip_rng n st) = ps_ctx st" "skip_rng m (skip_rng n st) = skip_rng (n + m) st"
  "rng_val (skip_rng n st) k = rng_val st (n + k)" "wired mode r (skip_rng n st) = wired mode r st"
  by (simp_all add: skip_rng_def rng_val_def wired_def add.assoc)

lemma arc4random_val_eq: "arc4random_val st = (rng_val st 0 :: 'a::len word, skip_rng (LENGTH('a) div 8) st)"
  by (simp add: arc4random_val_def arc4random_buf_def rng_val_def skip_rng_def)

lemma random4_Online:
  assumes "mc_mode (ps_ctx st) = Online"
  shows "random4 st =
    (let w = LENGTH('a::len) div 8
     in Inr ((rng_val st 0 :: 'a word, rng_val st w, rng_val st (2 * w), rng_val st (3 * w)), skip_rng (4 * w) st))"
proof -
  have w: "2 * w = w + w" "3 * w = w + w + w" "4 * w = w + w + w + w" for w :: nat
    by simp_all
  from assms show ?thesis
    by (simp add: random4_def arc4random_val_eq Let_def w)
qed


section \<open>Beaver triples\<close>

text \<open>
  Any material with \<open>g0 + g1 = Y0 * X1 + Y1 * X0\<close> makes the two outputs shares of the product; the
  online dealer, which sends \<open>X1\<close> to P0 and \<open>Y0\<close> to P1, satisfies it as well as the recorded tapes.
\<close>

lemma beaver_mul:
  fixes x0 :: "'a::comm_ring"
  assumes "g0 + g1 = Y0 * X1 + Y1 * X0"
  shows "(x0 * (y0 + (y1 + Y1)) - Y0 * (x1 + X1) + g0) + (x1 * (y1 + (y0 + Y0)) - Y1 * (x0 + X0) + g1)
    = (x0 + x1) * (y0 + y1)"
proof -
  have "(x0 * (y0 + (y1 + Y1)) - Y0 * (x1 + X1) + g0) + (x1 * (y1 + (y0 + Y0)) - Y1 * (x0 + X0) + g1)
      = (x0 + x1) * (y0 + y1) + ((g0 + g1) - (Y0 * X1 + Y1 * X0))"
    by (simp add: algebra_simps)
  with assms show ?thesis by simp
qed

lemma beaver_and:
  fixes x0 :: "'a::len word"
  shows "((x0 AND (y0 XOR (y1 XOR Y1))) XOR (Y0 AND (x1 XOR X1)) XOR (X0 AND Y1)) XOR
     ((x1 AND (y1 XOR (y0 XOR Y0))) XOR (Y1 AND (x0 XOR X0)) XOR (X1 AND Y0))
    = (x0 XOR x1) AND (y0 XOR y1)"
  by (rule bit_word_eqI) (simp add: bit_simps; blast)

section \<open>Phases\<close>

text \<open>The dealer hands three values to each party; the parties exchange two values.\<close>

definition deal_acts :: "nat \<Rightarrow> act list" where
  "deal_acts n = replicate n (ASend P2 P0) @ replicate n (ASend P2 P1)
     @ replicate n (ARecv P0 P2) @ replicate n (ARecv P1 P2)"

definition swap_acts :: "nat \<Rightarrow> act list" where
  "swap_acts n = replicate n (ASend P0 P1) @ replicate n (ASend P1 P0)
     @ replicate n (ARecv P0 P1) @ replicate n (ARecv P1 P0)"

lemmas acts_simps = deal_acts_def swap_acts_def numeral_2_eq_2 numeral_3_eq_3

lemma deal3_alternating:
  assumes [simp]: "length a1 = n" "length a2 = n" "length a3 = n" "length b1 = n" "length b2 = n" "length b3 = n"
  shows "reaches
     (three (Await [Recv P2 (RRead n RDone), Recv P2 (RRead n RDone), Recv P2 (RRead n RDone)] k0)
        (Await [Recv P2 (RRead n RDone), Recv P2 (RRead n RDone), Recv P2 (RRead n RDone)] k1)
        (Await [Send P0 [a1], Send P1 [b1], Send P0 [a2], Send P1 [b2], Send P0 [a3], Send P1 [b3]] k2)) quiet
     (three (k0 [a1, a2, a3]) (k1 [b1, b2, b3]) (k2 [[], [], [], [], [], []])) quiet"
  by (rule reaches_threeI [where as = "deal_acts 3"]) (simp add: exec_simps acts_simps)

lemma deal3_grouped:
  assumes [simp]: "length a1 = n" "length a2 = n" "length a3 = m" "length b1 = n" "length b2 = n" "length b3 = m"
  shows "reaches
     (three (Await [Recv P2 (RRead n RDone), Recv P2 (RRead n RDone), Recv P2 (RRead m RDone)] k0)
        (Await [Recv P2 (RRead n RDone), Recv P2 (RRead n RDone), Recv P2 (RRead m RDone)] k1)
        (Await [Send P0 [a1], Send P0 [a2], Send P0 [a3], Send P1 [b1], Send P1 [b2], Send P1 [b3]] k2)) quiet
     (three (k0 [a1, a2, a3]) (k1 [b1, b2, b3]) (k2 [[], [], [], [], [], []])) quiet"
  by (rule reaches_threeI [where as = "deal_acts 3"]) (simp add: exec_simps acts_simps)

lemma deal2:
  assumes [simp]: "length a1 = n" "length a2 = n" "length b1 = n" "length b2 = n"
  shows "reaches
     (three (Await [Recv P2 (RRead n RDone), Recv P2 (RRead n RDone)] k0)
        (Await [Recv P2 (RRead n RDone), Recv P2 (RRead n RDone)] k1)
        (Await [Send P0 [a1], Send P1 [b1], Send P0 [a2], Send P1 [b2]] k2)) quiet
     (three (k0 [a1, a2]) (k1 [b1, b2]) (k2 [[], [], [], []])) quiet"
  by (rule reaches_threeI [where as = "deal_acts 2"]) (simp add: exec_simps acts_simps)

lemma swap2:
  assumes [simp]: "length a1 = n" "length a2 = n" "length b1 = n" "length b2 = n"
  shows "reaches
     (three (Await [Send P1 [a1], Send P1 [a2], Recv P1 (RRead n RDone), Recv P1 (RRead n RDone)] k0)
        (Await [Recv P0 (RRead n RDone), Recv P0 (RRead n RDone), Send P0 [b1], Send P0 [b2]] k1) c) quiet
     (three (k0 [[], [], b1, b2]) (k1 [a1, a2, [], []]) c) quiet"
  by (rule reaches_threeI [where as = "swap_acts 2"]) (simp add: exec_simps acts_simps)

lemma swap1:
  assumes [simp]: "length a = n" "length b = n"
  shows "reaches
     (three (Await [Send P1 [a], Recv P1 (RRead n RDone)] k0)
        (Await [Send P0 [b], Recv P0 (RRead n RDone)] k1) c) quiet
     (three (k0 [[], b]) (k1 [[], a]) c) quiet"
  by (rule reaches_threeI [where as = "swap_acts 1"]) (simp add: exec_simps acts_simps)

lemma reaches_joint_ex:
  assumes "reaches c N d N'" "\<exists>z0 z1. joint d N' (v z0 z1) N'' \<and> Q z0 z1"
  shows "\<exists>z0 z1. joint c N (v z0 z1) N'' \<and> Q z0 z1"
  using assms reaches_joint by metis


section \<open>Multiplication\<close>

lemma mul_exchange_joint:
  assumes "joint (three (f0 (x0 * (y0 + (y1 + Y1)) - Y0 * (x1 + X1) + g0))
     (f1 (x1 * (y1 + (y0 + Y0)) - Y1 * (x0 + X0) + g1)) c) quiet v quiet"
  shows "joint (three (bind (mul_exchange True (peer_at P1 P1) x0 y0 X0 Y0 g0) f0)
     (bind (mul_exchange False (peer_at P0 P0) x1 y1 X1 Y1 g1) f1) c) quiet v quiet"
  unfolding mul_exchange_def msg_simps Let_def if_True if_False bind.simps np_sock_peer_at
  by (rule reaches_joint [OF swap2]) (use assms in simp_all)

text \<open>Both parties hold material, wherever it came from.\<close>

lemma mul_finish:
  assumes "g0 + g1 = Y0 * X1 + Y1 * X0"
  shows "\<exists>z0 z1. joint (three
       (bind (mul_exchange True (peer_at P1 P1) x0 y0 X0 Y0 g0) (\<lambda>out. Return (out, s0)))
       (bind (mul_exchange False (peer_at P0 P0) x1 y1 X1 Y1 g1) (\<lambda>out. Return (out, s1)))
       (Return (0, s2))) quiet (three (z0, s0) (z1, s1) (0, s2)) quiet
     \<and> z0 + z1 = (x0 + x1) * (y0 + y1)"
  by (intro exI conjI, rule mul_exchange_joint, rule joint_three_return, rule beaver_mul [OF assms])

lemma mpc_mul_online:
  assumes "wired Online P0 s0" "wired Online P1 s1" "wired Online P2 s2"
    and [simp]: "as_ctx x0 = Ctx" "as_ctx x1 = Ctx" "as_ctx x2 = Ctx"
  shows "\<exists>z0 z1. joint (three (mpc_mul x0 y0 P0 (peer_at P0 P2) (Some (peer_at P1 P1)) None s0)
        (mpc_mul x1 y1 P1 (peer_at P1 P2) (Some (peer_at P0 P0)) None s1)
        (mpc_mul x2 y2 P2 (peer_at P0 P0) (Some (peer_at P0 P0)) (Some (peer_at P1 P1)) s2)) quiet
      (three (z0, s0) (z1, s1) (0, skip_rng 32 s2)) quiet
    \<and> z0 + z1 = (as_val x0 + as_val x1) * (as_val y0 + as_val y1)"
proof -
  note [simp] = wiredD [OF assms(1)] wiredD [OF assms(2)] wiredD [OF assms(3)]
  define X0 Y0 X1 Y1 where "X0 = (rng_val s2 0 :: u64)" and "Y0 = (rng_val s2 8 :: u64)"
    and "X1 = (rng_val s2 16 :: u64)" and "Y1 = (rng_val s2 24 :: u64)"
  have r4: "random4 s2 = Inr ((X0, Y0, X1, Y1), skip_rng 32 s2)"
    by (simp add: random4_Online X0_def Y0_def X1_def Y1_def)
  have gammas: "X0 * Y1 + X1 * Y0 = X1 * Y0 + Y1 * X0"
    by (simp add: algebra_simps)
  show ?thesis
    unfolding mpc_mul_def mul_deal_def mul_material_def msg_simps
    by (simp add: r4) (rule reaches_joint_ex [OF deal3_alternating], use mul_finish [OF gammas] in simp_all)
qed

lemma ashare_times_online:
  assumes "wired Online P0 s0" "wired Online P1 s1" "wired Online P2 s2"
  shows "\<exists>z0 z1. joint (three (ashare_times (AShare a0 Ctx) (AShare b0 Ctx) s0)
        (ashare_times (AShare a1 Ctx) (AShare b1 Ctx) s1) (ashare_times (AShare a2 Ctx) (AShare b2 Ctx) s2)) quiet
      (three (AShare z0 Ctx, s0) (AShare z1 Ctx, s1) (AShare 0 Ctx, skip_rng 32 s2)) quiet
    \<and> z0 + z1 = (a0 + a1) * (b0 + b1)"
proof -
  note [simp] = wiredD [OF assms(1)] wiredD [OF assms(2)] wiredD [OF assms(3)]
  obtain z0 z1 where j: "joint (three
        (mpc_mul (AShare a0 Ctx) (AShare b0 Ctx) P0 (peer_at P0 P2) (Some (peer_at P1 P1)) None s0)
        (mpc_mul (AShare a1 Ctx) (AShare b1 Ctx) P1 (peer_at P1 P2) (Some (peer_at P0 P0)) None s1)
        (mpc_mul (AShare a2 Ctx) (AShare b2 Ctx) P2 (peer_at P0 P0) (Some (peer_at P0 P0)) (Some (peer_at P1 P1)) s2)) quiet
      (three (z0, s0) (z1, s1) (0, skip_rng 32 s2)) quiet"
    and z: "z0 + z1 = (a0 + a1) * (b0 + b1)"
    using mpc_mul_online [OF assms, of "AShare a0 Ctx" "AShare a1 Ctx" "AShare a2 Ctx" "AShare b0 Ctx" "AShare b1 Ctx" "AShare b2 Ctx"]
    by auto
  have "joint (three (ashare_times (AShare a0 Ctx) (AShare b0 Ctx) s0)
        (ashare_times (AShare a1 Ctx) (AShare b1 Ctx) s1) (ashare_times (AShare a2 Ctx) (AShare b2 Ctx) s2)) quiet
      (three (AShare z0 Ctx, s0) (AShare z1 Ctx, s1) (AShare 0 Ctx, skip_rng 32 s2)) quiet"
    unfolding ashare_times_def Let_def
    by simp (rule joint_three_bind [OF j], simp add: joint_three_return)
  with z show ?thesis by blast
qed


section \<open>Conjunction\<close>

lemma and_exchange_joint:
  assumes "joint (three (f0 ((x0 AND (y0 XOR (y1 XOR Y1))) XOR (Y0 AND (x1 XOR X1)) XOR g0))
     (f1 ((x1 AND (y1 XOR (y0 XOR Y0))) XOR (Y1 AND (x0 XOR X0)) XOR g1)) c) quiet v quiet"
    and [simp]: "8 dvd LENGTH('a::len)"
  shows "joint (three (bind (and_exchange True (peer_at P1 P1) x0 y0 X0 Y0 g0) f0)
     (bind (and_exchange False (peer_at P0 P0) x1 y1 X1 Y1 (g1 :: 'a word)) f1) c) quiet v quiet"
  unfolding and_exchange_def msg_simps Let_def if_True if_False bind.simps np_sock_peer_at
  by (rule reaches_joint [OF swap2]) (use assms in simp_all)

lemma and_finish:
  fixes x0 :: "'a::len word"
  assumes "8 dvd LENGTH('a)"
  shows "\<exists>z0 z1. joint (three
       (bind (and_exchange True (peer_at P1 P1) x0 y0 X0 Y0 (X0 AND Y1)) (\<lambda>out. Return (out, s0)))
       (bind (and_exchange False (peer_at P0 P0) x1 y1 X1 Y1 (X1 AND Y0)) (\<lambda>out. Return (out, s1)))
       (Return (0, s2))) quiet (three (z0, s0) (z1, s1) (0, s2)) quiet
     \<and> z0 XOR z1 = (x0 XOR x1) AND (y0 XOR y1)"
  by (intro exI conjI, rule and_exchange_joint, rule joint_three_return, rule assms, rule beaver_and)

lemma mpc_and_online:
  fixes x0 :: "'a::len word xshare"
  assumes "wired Online P0 s0" "wired Online P1 s1" "wired Online P2 s2"
    and [simp]: "xs_ctx x0 = Ctx" "xs_ctx x1 = Ctx" "xs_ctx x2 = Ctx" "8 dvd LENGTH('a)"
  shows "\<exists>z0 z1. joint (three (mpc_and x0 y0 P0 (peer_at P0 P2) (Some (peer_at P1 P1)) None s0)
        (mpc_and x1 y1 P1 (peer_at P1 P2) (Some (peer_at P0 P0)) None s1)
        (mpc_and x2 y2 P2 (peer_at P0 P0) (Some (peer_at P0 P0)) (Some (peer_at P1 P1)) s2)) quiet
      (three (z0, s0) (z1, s1) (0, skip_rng (4 * (LENGTH('a) div 8)) s2)) quiet
    \<and> z0 XOR z1 = (xs_val x0 XOR xs_val x1) AND (xs_val y0 XOR xs_val y1)"
proof -
  note [simp] = wiredD [OF assms(1)] wiredD [OF assms(2)] wiredD [OF assms(3)]
  let ?w = "LENGTH('a) div 8"
  define X0 Y0 X1 Y1 where "X0 = (rng_val s2 0 :: 'a word)" and "Y0 = (rng_val s2 ?w :: 'a word)"
    and "X1 = (rng_val s2 (2 * ?w) :: 'a word)" and "Y1 = (rng_val s2 (3 * ?w) :: 'a word)"
  have r4: "random4 s2 = Inr ((X0, Y0, X1, Y1), skip_rng (4 * ?w) s2)"
    by (simp add: random4_Online X0_def Y0_def X1_def Y1_def Let_def)
  show ?thesis
    unfolding mpc_and_def and_deal_def and_material_def msg_simps
    by (simp add: r4) (rule reaches_joint_ex [OF deal3_grouped], use and_finish [OF assms(7)] in simp_all)
qed

section \<open>Gates and trees of gates\<close>

text \<open>
  The interface of a two-input gate on xor shares: whenever the three parties are ready, every call
  ends, the results are shares of \<open>F\<close> of the inputs, and the parties are ready again.
\<close>

abbreviation share_of :: "'v \<Rightarrow> 'v xshare" where
  "share_of v \<equiv> XShare v Ctx"

fun pair_up :: "('v \<Rightarrow> 'v \<Rightarrow> 'v) \<Rightarrow> 'v list \<Rightarrow> 'v list" where
  "pair_up F (a # b # vs) = F a b # pair_up F vs"
| "pair_up F vs = vs"

lemma length_pair_up: "length (pair_up F vs) = (length vs + 1) div 2"
  by (induction F vs rule: pair_up.induct) auto

fun reduce :: "nat \<Rightarrow> ('v \<Rightarrow> 'v \<Rightarrow> 'v) \<Rightarrow> 'v list \<Rightarrow> 'v list" where
  "reduce 0 F vs = vs"
| "reduce (Suc r) F vs = (if length vs \<le> 1 then vs else reduce r F (pair_up F vs))"

lemma reduce_small: "length vs \<le> 1 \<Longrightarrow> reduce r F vs = vs"
  by (cases r) auto

locale binary_gate =
  fixes g :: "'a::len word gate" and F :: "'a word \<Rightarrow> 'a word \<Rightarrow> 'a word"
    and ready :: "role \<Rightarrow> pstate \<Rightarrow> bool"
  assumes gate: "ready P0 s0 \<Longrightarrow> ready P1 s1 \<Longrightarrow> ready P2 s2 \<Longrightarrow>
    \<exists>z0 z1 z2 t0 t1 t2. joint (three (g (share_of x0) (share_of y0) s0) (g (share_of x1) (share_of y1) s1)
        (g (share_of x2) (share_of y2) s2)) quiet
      (three (share_of z0, t0) (share_of z1, t1) (share_of z2, t2)) quiet
    \<and> z0 XOR z1 = F (x0 XOR x1) (y0 XOR y1) \<and> ready P0 t0 \<and> ready P1 t1 \<and> ready P2 t2"
begin

lemma tree_level_joint:
  assumes "length v1 = length v0" "length v2 = length v0" "ready P0 s0" "ready P1 s1" "ready P2 s2"
  shows "\<exists>w0 w1 w2 t0 t1 t2. joint (three (tree_level g (map share_of v0) s0) (tree_level g (map share_of v1) s1)
        (tree_level g (map share_of v2) s2)) quiet
      (three (map share_of w0, t0) (map share_of w1, t1) (map share_of w2, t2)) quiet
    \<and> length w0 = length (pair_up F v0) \<and> length w1 = length w0 \<and> length w2 = length w0
    \<and> map2 (XOR) w0 w1 = pair_up F (map2 (XOR) v0 v1) \<and> ready P0 t0 \<and> ready P1 t1 \<and> ready P2 t2"
  using assms
proof (induction v0 arbitrary: v1 v2 s0 s1 s2 rule: induct_list012)
  case (3 a a' v0)
  then obtain b b' v1' c c' v2' where v: "v1 = b # b' # v1'" "v2 = c # c' # v2'"
    "length v1' = length v0" "length v2' = length v0"
    by (auto simp: length_Suc_conv)
  from gate [OF 3(5-7), of a a' b b' c c'] obtain z0 z1 z2 t0 t1 t2 where
    j1: "joint (three (g (share_of a) (share_of a') s0) (g (share_of b) (share_of b') s1)
        (g (share_of c) (share_of c') s2)) quiet
      (three (share_of z0, t0) (share_of z1, t1) (share_of z2, t2)) quiet"
    and z: "z0 XOR z1 = F (a XOR b) (a' XOR b')" and t: "ready P0 t0" "ready P1 t1" "ready P2 t2"
    by blast
  from 3(1) [OF v(3,4) t] obtain w0 w1 w2 u0 u1 u2 where
    j2: "joint (three (tree_level g (map share_of v0) t0) (tree_level g (map share_of v1') t1)
        (tree_level g (map share_of v2') t2)) quiet
      (three (map share_of w0, u0) (map share_of w1, u1) (map share_of w2, u2)) quiet"
    and w: "length w0 = length (pair_up F v0)" "length w1 = length w0" "length w2 = length w0"
      "map2 (XOR) w0 w1 = pair_up F (map2 (XOR) v0 v1')" "ready P0 u0" "ready P1 u1" "ready P2 u2"
    by blast
  have "joint (three (tree_level g (map share_of (a # a' # v0)) s0) (tree_level g (map share_of v1) s1)
        (tree_level g (map share_of v2) s2)) quiet
      (three (map share_of (z0 # w0), u0) (map share_of (z1 # w1), u1) (map share_of (z2 # w2), u2)) quiet"
    unfolding v list.map tree_level.simps
    by (rule joint_three_bind [OF j1], unfold case_prod_conv, rule joint_three_bind [OF j2], unfold case_prod_conv,
        rule joint_three_return)
  with w z v show ?case
    by (intro exI [of _ "z0 # w0"] exI [of _ "z1 # w1"] exI [of _ "z2 # w2"] exI [of _ u0] exI [of _ u1] exI [of _ u2]) simp
next
  case 1
  then show ?case using joint_three_return by fastforce
next
  case (2 a)
  then obtain b c where "v1 = [b]" "v2 = [c]" by (auto simp: length_Suc_conv)
  with 2 show ?case
    by (intro exI [of _ "[a]"] exI [of _ "[b]"] exI [of _ "[c]"] exI [of _ s0] exI [of _ s1] exI [of _ s2])
      (simp add: joint_three_return)
qed

lemma tree_loop_joint:
  assumes "length v1 = length v0" "length v2 = length v0" "length v0 \<le> 2 ^ r"
    "ready P0 s0" "ready P1 s1" "ready P2 s2"
  shows "\<exists>w0 w1 w2 t0 t1 t2. joint (three (tree_loop r g (map share_of v0) s0) (tree_loop r g (map share_of v1) s1)
        (tree_loop r g (map share_of v2) s2)) quiet
      (three (map share_of w0, t0) (map share_of w1, t1) (map share_of w2, t2)) quiet
    \<and> length w1 = length w0
    \<and> map2 (XOR) w0 w1 = reduce r F (map2 (XOR) v0 v1) \<and> ready P0 t0 \<and> ready P1 t1 \<and> ready P2 t2"
  using assms
proof (induction r arbitrary: v0 v1 v2 s0 s1 s2)
  case 0
  then show ?case
    by (intro exI [of _ v0] exI [of _ v1] exI [of _ v2] exI [of _ s0] exI [of _ s1] exI [of _ s2])
      (simp add: joint_three_return)
next
  case (Suc r)
  show ?case
  proof (cases "length v0 \<le> 1")
    case True
    with Suc.prems show ?thesis
      by (intro exI [of _ v0] exI [of _ v1] exI [of _ v2] exI [of _ s0] exI [of _ s1] exI [of _ s2])
        (simp add: joint_three_return)
  next
    case False
    from tree_level_joint [OF Suc.prems(1,2,4-6)] obtain w0 w1 w2 t0 t1 t2 where
      j: "joint (three (tree_level g (map share_of v0) s0) (tree_level g (map share_of v1) s1)
          (tree_level g (map share_of v2) s2)) quiet
        (three (map share_of w0, t0) (map share_of w1, t1) (map share_of w2, t2)) quiet"
      and w: "length w0 = length (pair_up F v0)" "length w1 = length w0" "length w2 = length w0"
        "map2 (XOR) w0 w1 = pair_up F (map2 (XOR) v0 v1)" "ready P0 t0" "ready P1 t1" "ready P2 t2"
      by blast
    from w(1) Suc.prems(3) have "length w0 \<le> 2 ^ r" by (simp add: length_pair_up)
    from Suc.IH [OF w(2,3) this w(5-7)] obtain u0 u1 u2 q0 q1 q2 where
      k: "joint (three (tree_loop r g (map share_of w0) t0) (tree_loop r g (map share_of w1) t1)
          (tree_loop r g (map share_of w2) t2)) quiet
        (three (map share_of u0, q0) (map share_of u1, q1) (map share_of u2, q2)) quiet"
      and u: "length u1 = length u0" "map2 (XOR) u0 u1 = reduce r F (map2 (XOR) w0 w1)"
        "ready P0 q0" "ready P1 q1" "ready P2 q2"
      by blast
    have "joint (three (tree_loop (Suc r) g (map share_of v0) s0) (tree_loop (Suc r) g (map share_of v1) s1)
        (tree_loop (Suc r) g (map share_of v2) s2)) quiet
      (three (map share_of u0, q0) (map share_of u1, q1) (map share_of u2, q2)) quiet"
      using False Suc.prems(1,2) by (simp del: One_nat_def) (rule joint_three_bind [OF j], use k in simp)
    with u w(4) False Suc.prems(1) show ?thesis
      by (intro exI [of _ u0] exI [of _ u1] exI [of _ u2] exI [of _ q0] exI [of _ q1] exI [of _ q2]) simp
  qed
qed

end

lemma xshare_times_online:
  assumes "wired Online P0 s0" "wired Online P1 s1" "wired Online P2 s2" "8 dvd LENGTH('a::len)"
  shows "\<exists>z0 z1. joint (three (xshare_times (share_of x0) (share_of y0) s0)
        (xshare_times (share_of x1) (share_of y1) s1) (xshare_times (share_of x2) (share_of (y2 :: 'a word)) s2)) quiet
      (three (share_of z0, s0) (share_of z1, s1) (share_of 0, skip_rng (4 * (LENGTH('a) div 8)) s2)) quiet
    \<and> z0 XOR z1 = (x0 XOR x1) AND (y0 XOR y1)"
proof -
  note [simp] = wiredD [OF assms(1)] wiredD [OF assms(2)] wiredD [OF assms(3)]
  obtain z0 z1 where j: "joint (three
        (mpc_and (share_of x0) (share_of y0) P0 (peer_at P0 P2) (Some (peer_at P1 P1)) None s0)
        (mpc_and (share_of x1) (share_of y1) P1 (peer_at P1 P2) (Some (peer_at P0 P0)) None s1)
        (mpc_and (share_of x2) (share_of y2) P2 (peer_at P0 P0) (Some (peer_at P0 P0)) (Some (peer_at P1 P1)) s2)) quiet
      (three (z0, s0) (z1, s1) (0, skip_rng (4 * (LENGTH('a) div 8)) s2)) quiet"
    and z: "z0 XOR z1 = (x0 XOR x1) AND (y0 XOR y1)"
    using mpc_and_online [OF assms(1-3), of "share_of x0" "share_of x1" "share_of x2" "share_of y0" "share_of y1"
        "share_of y2"] assms(4) by auto
  have "joint (three (xshare_times (share_of x0) (share_of y0) s0)
        (xshare_times (share_of x1) (share_of y1) s1) (xshare_times (share_of x2) (share_of y2) s2)) quiet
      (three (share_of z0, s0) (share_of z1, s1) (share_of 0, skip_rng (4 * (LENGTH('a) div 8)) s2)) quiet"
    by (simp add: xshare_times_def) (rule joint_three_bind [OF j], simp add: joint_three_return)
  with z show ?thesis by blast
qed

lemma xshare_or_online:
  assumes "wired Online P0 s0" "wired Online P1 s1" "wired Online P2 s2" "8 dvd LENGTH('a::len)"
  shows "\<exists>z0 z1. joint (three (xshare_or (share_of x0) (share_of y0) s0)
        (xshare_or (share_of x1) (share_of y1) s1) (xshare_or (share_of x2) (share_of (y2 :: 'a word)) s2)) quiet
      (three (share_of z0, s0) (share_of z1, s1)
        (share_of (x2 XOR y2), skip_rng (4 * (LENGTH('a) div 8)) s2)) quiet
    \<and> z0 XOR z1 = (x0 XOR x1) OR (y0 XOR y1)"
proof -
  obtain z0 z1 where j: "joint (three (xshare_times (share_of x0) (share_of y0) s0)
        (xshare_times (share_of x1) (share_of y1) s1) (xshare_times (share_of x2) (share_of y2) s2)) quiet
      (three (share_of z0, s0) (share_of z1, s1) (share_of 0, skip_rng (4 * (LENGTH('a) div 8)) s2)) quiet"
    and z: "z0 XOR z1 = (x0 XOR x1) AND (y0 XOR y1)"
    using xshare_times_online [OF assms] by blast
  have or: "(a XOR b) XOR (a AND b) = a OR b" for a b :: "'a word"
    by (rule bit_word_eqI) (auto simp: bit_simps)
  have "((x0 XOR y0) XOR z0) XOR ((x1 XOR y1) XOR z1) = ((x0 XOR x1) XOR (y0 XOR y1)) XOR (z0 XOR z1)"
    by (simp add: xor_simps)
  then have "((x0 XOR y0) XOR z0) XOR ((x1 XOR y1) XOR z1) = (x0 XOR x1) OR (y0 XOR y1)"
    unfolding z or .
  moreover have "joint (three (xshare_or (share_of x0) (share_of y0) s0)
        (xshare_or (share_of x1) (share_of y1) s1) (xshare_or (share_of x2) (share_of y2) s2)) quiet
      (three (share_of ((x0 XOR y0) XOR z0), s0) (share_of ((x1 XOR y1) XOR z1), s1)
        (share_of (x2 XOR y2), skip_rng (4 * (LENGTH('a) div 8)) s2)) quiet"
    unfolding xshare_or_def mpc_or_def Let_def
    by (simp add: xshare_xor_def)
      (rule joint_three_bind, rule joint_three_bind [OF j], unfold case_prod_conv, rule joint_three_return,
        simp add: joint_three_return)
  ultimately show ?thesis by blast
qed

interpretation and_gate: binary_gate "xshare_times :: u64 gate" "(AND)" "wired Online"
proof
  fix s0 s1 s2 and x0 y0 x1 y1 x2 y2 :: u64
  assume w: "wired Online P0 s0" "wired Online P1 s1" "wired Online P2 s2"
  obtain z0 z1 where "joint (three (xshare_times (share_of x0) (share_of y0) s0)
        (xshare_times (share_of x1) (share_of y1) s1) (xshare_times (share_of x2) (share_of y2) s2)) quiet
      (three (share_of z0, s0) (share_of z1, s1) (share_of 0, skip_rng 32 s2)) quiet"
    "z0 XOR z1 = (x0 XOR x1) AND (y0 XOR y1)"
    using xshare_times_online [OF w, where 'a = 64, of x0 y0 x1 y1 x2 y2] by auto
  with w show "\<exists>z0 z1 z2 t0 t1 t2. joint (three (xshare_times (share_of x0) (share_of y0) s0)
        (xshare_times (share_of x1) (share_of y1) s1) (xshare_times (share_of x2) (share_of y2) s2)) quiet
      (three (share_of z0, t0) (share_of z1, t1) (share_of z2, t2)) quiet
    \<and> z0 XOR z1 = (x0 XOR x1) AND (y0 XOR y1) \<and> wired Online P0 t0 \<and> wired Online P1 t1 \<and> wired Online P2 t2"
    by (intro exI [of _ z0] exI [of _ z1] exI [of _ "0"] exI [of _ s0] exI [of _ s1] exI [of _ "skip_rng 32 s2"]) simp
qed

interpretation or_gate: binary_gate "xshare_or :: u64 gate" "(OR)" "wired Online"
proof
  fix s0 s1 s2 and x0 y0 x1 y1 x2 y2 :: u64
  assume w: "wired Online P0 s0" "wired Online P1 s1" "wired Online P2 s2"
  obtain z0 z1 where "joint (three (xshare_or (share_of x0) (share_of y0) s0)
        (xshare_or (share_of x1) (share_of y1) s1) (xshare_or (share_of x2) (share_of y2) s2)) quiet
      (three (share_of z0, s0) (share_of z1, s1) (share_of (x2 XOR y2), skip_rng 32 s2)) quiet"
    "z0 XOR z1 = (x0 XOR x1) OR (y0 XOR y1)"
    using xshare_or_online [OF w, where 'a = 64, of x0 y0 x1 y1 x2 y2] by auto
  with w show "\<exists>z0 z1 z2 t0 t1 t2. joint (three (xshare_or (share_of x0) (share_of y0) s0)
        (xshare_or (share_of x1) (share_of y1) s1) (xshare_or (share_of x2) (share_of y2) s2)) quiet
      (three (share_of z0, t0) (share_of z1, t1) (share_of z2, t2)) quiet
    \<and> z0 XOR z1 = (x0 XOR x1) OR (y0 XOR y1) \<and> wired Online P0 t0 \<and> wired Online P1 t1 \<and> wired Online P2 t2"
    by (intro exI [of _ z0] exI [of _ z1] exI [of _ "(x2 XOR y2)"] exI [of _ s0] exI [of _ s1] exI [of _ "skip_rng 32 s2"]) simp
qed


section \<open>The test for zero\<close>

lemma reduce_OR:
  "vs \<noteq> [] \<Longrightarrow> length vs \<le> 2 ^ r \<Longrightarrow> reduce r (OR) vs = [foldr (OR) vs (0 :: 'a::len word)]"
proof (induction r arbitrary: vs)
  case 0
  then show ?case by (cases vs) auto
next
  case (Suc r)
  have pair: "foldr (OR) (pair_up (OR) us) (0 :: 'a word) = foldr (OR) us 0" for us
    by (induction "(OR) :: 'a word \<Rightarrow> _" us rule: pair_up.induct) (auto simp: or.assoc)
  show ?case
  proof (cases "length vs \<le> 1")
    case True
    with Suc.prems show ?thesis by (cases vs) auto
  next
    case False
    then have "pair_up (OR) vs \<noteq> []" by (cases vs rule: remdups_adj.cases) auto
    with False Suc.IH [of "pair_up (OR) vs"] Suc.prems show ?thesis
      by (simp add: length_pair_up pair)
  qed
qed

lemma bit_foldr_OR: "bit (foldr (OR) vs (0 :: 'a::len word)) n \<longleftrightarrow> (\<exists>v \<in> set vs. bit v n)"
  by (induction vs) (auto simp: bit_simps)

text \<open>The leaves of the two parties xor to the bits of \<open>c XOR r\<close>.\<close>

lemma eqz_leaves_xor:
  "map2 (XOR) (eqz_leaves False c r0) (eqz_leaves True c r1)
     = map (\<lambda>i. of_bool (bit (c XOR (r0 XOR r1)) i)) [0..<64]"
proof -
  have "drop_bit i w AND 1 = (of_bool (bit w i) :: u64)" for w i
    by (rule bit_word_eqI) (auto simp: bit_simps)
  then show ?thesis
    by (auto simp: eqz_leaves_def Let_def list_eq_iff_nth_eq bit_simps)
qed

lemma foldr_OR_bits:
  "foldr (OR) (map (\<lambda>i. of_bool (bit w i)) [0..<64]) (0 :: u64) = of_bool ((w :: u64) \<noteq> 0)"
proof (rule bit_word_eqI)
  fix n assume "n < LENGTH(64)"
  have "(\<exists>i<64. bit w i) \<longleftrightarrow> w \<noteq> 0"
    using bit_word_eqI [of w 0] by auto
  then show "bit (foldr (OR) (map (\<lambda>i. of_bool (bit w i)) [0..<64]) (0 :: u64)) n
      = bit (of_bool (w \<noteq> 0) :: u64) n"
    by (auto simp: bit_foldr_OR bit_simps)
qed

lemma mpc_eqz_online:
  assumes w: "wired Online P0 s0" "wired Online P1 s1" "wired Online P2 s2"
    and c: "as_ctx x0 = Ctx" "as_ctx x1 = Ctx" "as_ctx x2 = Ctx"
  shows "\<exists>z0 z1 t0 t1 t2. joint (three (ashare_eq_zero x0 0 s0) (ashare_eq_zero x1 0 s1) (ashare_eq_zero x2 0 s2)) quiet
      (three (share_of z0, t0) (share_of z1, t1) (share_of 0, t2)) quiet
    \<and> z0 XOR z1 = of_bool (as_val x0 + as_val x1 \<noteq> 0)
    \<and> wired Online P0 t0 \<and> wired Online P1 t1 \<and> wired Online P2 t2"
proof -
  note [simp] = wiredD [OF w(1)] wiredD [OF w(2)] wiredD [OF w(3)] c
  define r ra rx where "r = (rng_val s2 0 :: u64)" and "ra = (rng_val s2 8 :: u64)" and "rx = (rng_val s2 16 :: u64)"
  define cc where "cc = as_val x0 + as_val x1 + r"
  let ?v0 = "eqz_leaves False cc rx" and ?v1 = "eqz_leaves True cc (r XOR rx)" and ?v2 = "replicate 64 (0 :: u64)"
  have len: "length ?v1 = length ?v0" "length ?v2 = length ?v0" "length ?v0 \<le> 2 ^ 6"
    by (simp_all add: eqz_leaves_def)
  have w2: "wired Online P2 (skip_rng 24 s2)" using w(3) by simp
  from or_gate.tree_loop_joint [OF len w(1,2) w2] obtain w0 w1 w2 t0 t1 t2 where
    j: "joint (three (tree_loop 6 xshare_or (map share_of ?v0) s0) (tree_loop 6 xshare_or (map share_of ?v1) s1)
        (tree_loop 6 xshare_or (map share_of ?v2) (skip_rng 24 s2))) quiet
      (three (map share_of w0, t0) (map share_of w1, t1) (map share_of w2, t2)) quiet"
    and wl: "length w1 = length w0" "map2 (XOR) w0 w1 = reduce 6 (OR) (map2 (XOR) ?v0 ?v1)"
    and t: "wired Online P0 t0" "wired Online P1 t1" "wired Online P2 t2"
    by blast
  have red: "map2 (XOR) w0 w1 = [of_bool (as_val x0 + as_val x1 \<noteq> 0)]"
    unfolding wl(2) eqz_leaves_xor
    by (subst reduce_OR) (simp_all add: foldr_OR_bits cc_def xor.commute [of r])
  then have "length w0 = 1" using wl(1) by (metis length_Cons list.size(3) map2_nth length_map length_zip min.idem One_nat_def)
  with wl(1) obtain z0 z1 where z: "w0 = [z0]" "w1 = [z1]" by (auto simp: length_Suc_conv)
  have zx: "z0 XOR z1 = of_bool (as_val x0 + as_val x1 \<noteq> 0)" using red z by simp
  have sum: "as_val x0 + ra + (as_val x1 + (r - ra)) = cc" "as_val x1 + (r - ra) + (as_val x0 + ra) = cc"
    by (simp_all add: cc_def algebra_simps)
  have "joint (three (ashare_eq_zero x0 0 s0) (ashare_eq_zero x1 0 s1) (ashare_eq_zero x2 0 s2)) quiet
      (three (share_of z0, t0) (share_of z1, t1) (share_of 0, t2)) quiet"
    unfolding ashare_eq_zero_def mpc_eqz_def msg_simps
    by (simp add: arc4random_val_eq Let_def flip: r_def ra_def rx_def)
      (rule reaches_joint [OF deal2], simp_all, rule reaches_joint [OF swap1], simp_all add: sum,
       rule joint_three_bind [OF j [unfolded map_replicate]], simp add: z joint_three_return)
  with zx t show ?thesis by blast
qed


section \<open>Dot products\<close>

text \<open>
  Two vectors each way. The size prefixes of both vectors precede the data of both on the wire, on
  the sending as on the receiving side.
\<close>

lemma swap_vec2:
  fixes a1 a2 b1 b2 :: "u64 list"
  assumes len: "length a1 = n" "length a2 = n" "length b1 = n" "length b2 = n" "n < 2 ^ 64"
  shows "reaches
     (three (Await [send_vec (peer_at P1 P1) a1, send_vec (peer_at P1 P1) a2,
               recv_vec TYPE(u64) (peer_at P1 P1), recv_vec TYPE(u64) (peer_at P1 P1)] k0)
        (Await [send_vec (peer_at P0 P0) b1, send_vec (peer_at P0 P0) b2,
               recv_vec TYPE(u64) (peer_at P0 P0), recv_vec TYPE(u64) (peer_at P0 P0)] k1) c) quiet
     (three (k0 [[], [], vec_bytes b1, vec_bytes b2]) (k1 [[], [], vec_bytes a1, vec_bytes a2]) c) quiet"
proof (cases "n = 0")
  case True
  with len have e: "a1 = []" "a2 = []" "b1 = []" "b2 = []" by simp_all
  define hdr where "hdr = to_bytes (0 :: u64)"
  have h: "length hdr = 8" "of_bytes hdr = (0 :: u64)" by (simp_all add: hdr_def)
  have empty: "send_vec p ([] :: u64 list) = Send (np_sock p) [hdr]" "vec_bytes ([] :: u64 list) = []" for p
    by (simp_all add: send_vec_def hdr_def vec_bytes_def)
  show ?thesis
    unfolding e recv_vec_def empty
    by (rule reaches_threeI [where as = "swap_acts 2"]) (simp add: exec_simps acts_simps h)
next
  case False
  define sz hdr m where "sz = (of_nat n :: u64)" and "hdr = to_bytes sz" and "m = 8 * n"
  have sz: "0 < sz" "sizeof TYPE(u64) * unat sz = m" and h: "length hdr = 8" "of_bytes hdr = sz"
    using False len(5) by (simp_all add: sz_def m_def hdr_def of_nat_u64_gt_0 sizeof_def)
  have send: "send_vec p v = Send (np_sock p) [hdr, vec_bytes v]" "length (vec_bytes v) = m"
    if "length v = n" for p and v :: "u64 list"
    using sz(1) that by (simp_all add: send_vec_def m_def hdr_def flip: sz_def)
  have core: "reaches
     (three (Await [Send P1 [hdr, d1], Send P1 [hdr, d2], recv_vec TYPE(u64) (peer_at P1 P1), recv_vec TYPE(u64) (peer_at P1 P1)] k0)
        (Await [Send P0 [hdr, e1], Send P0 [hdr, e2], recv_vec TYPE(u64) (peer_at P0 P0), recv_vec TYPE(u64) (peer_at P0 P0)] k1) c) quiet
     (three (k0 [[], [], e1, e2]) (k1 [[], [], d1, d2]) c) quiet"
    if "length d1 = m" "length d2 = m" "length e1 = m" "length e2 = m" for d1 d2 e1 e2
    unfolding recv_vec_def
    by (rule reaches_threeI [where as = "swap_acts 2 @ swap_acts 2"]) (simp add: exec_simps acts_simps sz h that)
  show ?thesis
    unfolding send(1) [OF len(1)] send(1) [OF len(2)] send(1) [OF len(3)] send(1) [OF len(4)] np_sock_peer_at
    by (intro core send(2) len)
qed

lemma dot_algebra:
  fixes x0 :: "u64 list"
  assumes "length x0 = n" "length x1 = n" "length y0 = n" "length y1 = n"
    "length X0 = n" "length X1 = n" "length Y0 = n" "length Y1 = n"
  shows "(dot_loop 0 x0 (map2 (+) y0 (map2 (+) y1 Y1)) - dot_loop 0 Y0 (map2 (+) x1 X1) + dot_loop 0 X0 Y1)
      + (dot_loop 0 x1 (map2 (+) y1 (map2 (+) y0 Y0)) - dot_loop 0 Y1 (map2 (+) x0 X0) + dot_loop 0 X1 Y0)
    = dot_loop 0 (map2 (+) x0 x1) (map2 (+) y0 y1)"
  using assms
  by (simp add: dot_loop_plus_left dot_loop_plus_right dot_loop_commute [of Y0 _] dot_loop_commute [of Y1 _])

lemma mpc_dotproduct_online:
  assumes w: "wired Online P0 s0" "wired Online P1 s1" "wired Online P2 s2"
    and c: "av_ctx x0 = Ctx" "av_ctx x1 = Ctx" "av_ctx x2 = Ctx"
    and len: "length (av_vals x0) = n" "length (av_vals x1) = n" "length (av_vals x2) = n"
      "length (av_vals y0) = n" "length (av_vals y1) = n" "length (av_vals y2) = n" "n < 2 ^ 64"
  shows "\<exists>z0 z1. joint (three (avec_times x0 y0 s0) (avec_times x1 y1 s1) (avec_times x2 y2 s2)) quiet
      (three (z0, s0) (z1, s1) (0, skip_rng 64 s2)) quiet
    \<and> z0 + z1 = dot_loop 0 (map2 (+) (av_vals x0) (av_vals x1)) (map2 (+) (av_vals y0) (av_vals y1))"
proof -
  note [simp] = wiredD [OF w(1)] wiredD [OF w(2)] wiredD [OF w(3)] c len(1-6)
  define S0 S1 T0 T1 where "S0 = (rng_val s2 0 :: m128)" and "S1 = (rng_val s2 16 :: m128)"
    and "T0 = (rng_val s2 32 :: m128)" and "T1 = (rng_val s2 48 :: m128)"
  define X0 X1 Y0 Y1 where "X0 = (fill_vector_with_prg n default_aes_key S0 :: u64 list)"
    and "X1 = (fill_vector_with_prg n default_aes_key S1 :: u64 list)"
    and "Y0 = (fill_vector_with_prg n default_aes_key T0 :: u64 list)"
    and "Y1 = (fill_vector_with_prg n default_aes_key T1 :: u64 list)"
  have L [simp]: "length X0 = n" "length X1 = n" "length Y0 = n" "length Y1 = n"
    by (simp_all add: X0_def X1_def Y0_def Y1_def)
  let ?x0 = "av_vals x0" and ?x1 = "av_vals x1" and ?y0 = "av_vals y0" and ?y1 = "av_vals y1"
  have seeds: "fill_vector_with_prg n default_aes_key S0 = X0" "fill_vector_with_prg n default_aes_key S1 = X1"
    "fill_vector_with_prg n default_aes_key T0 = Y0" "fill_vector_with_prg n default_aes_key T1 = Y1"
    by (simp_all add: X0_def X1_def Y0_def Y1_def)
  have "joint (three (avec_times x0 y0 s0) (avec_times x1 y1 s1) (avec_times x2 y2 s2)) quiet
      (three (dot_loop 0 ?x0 (map2 (+) ?y0 (map2 (+) ?y1 Y1)) - dot_loop 0 Y0 (map2 (+) ?x1 X1) + dot_loop 0 X0 Y1, s0)
        (dot_loop 0 ?x1 (map2 (+) ?y1 (map2 (+) ?y0 Y0)) - dot_loop 0 Y1 (map2 (+) ?x0 X0) + dot_loop 0 X1 Y0, s1)
        (0, skip_rng 64 s2)) quiet"
    unfolding avec_times_def mpc_dotproduct_def dot_deal_def msg_simps
    by (simp add: arc4random_val_eq Let_def seeds flip: S0_def S1_def T0_def T1_def)
      (rule reaches_joint [OF deal3_grouped], simp_all add: dot_exchange_def seeds Let_def,
       rule reaches_joint [OF swap_vec2 [where n = n]], use len(7) in \<open>simp_all add: joint_three_return\<close>)
  with dot_algebra [OF len(1,2,4,5) L] show ?thesis by blast
qed


section \<open>Recorded and replayed preprocessing\<close>

text \<open>A dealer that records: the tapes it writes to are open and the counter has been set.\<close>

definition recording :: "u64 \<Rightarrow> byte list \<Rightarrow> byte list \<Rightarrow> pstate \<Rightarrow> bool" where
  "recording idx t0 t1 st \<longleftrightarrow>
     mc_mode (ps_ctx st) = Record \<and> rand_out (ps_ctx st) \<noteq> None \<and> mul_ctr (ps_ctx st) = Some idx \<and>
     mul_out_p0 (ps_ctx st) = Some t0 \<and> mul_out_p1 (ps_ctx st) = Some t1"

text \<open>A party that replays: its counter and what is left of its tape.\<close>

definition replaying :: "bool \<Rightarrow> u64 \<Rightarrow> byte list \<Rightarrow> pstate \<Rightarrow> bool" where
  "replaying is_p0 idx tape st \<longleftrightarrow>
     mc_mode (ps_ctx st) = Replay \<and> mul_ctr (ps_ctx st) = Some idx \<and>
     (if is_p0 then mul_in_p0 (ps_ctx st) else mul_in_p1 (ps_ctx st)) = Some tape"

lemma mpc_random_Record:
  assumes "recording idx t0 t1 st"
  obtains v st' where "mpc_random st = Inr (v :: 'a::len word, st')" "recording idx t0 t1 st'"
  using assms
  by (auto simp: mpc_random_def recording_def arc4random_val_eq Let_def fwrite_def skip_rng_def)

lemma random4_Record:
  assumes "recording idx t0 t1 st"
  obtains a b c d st' where "random4 st = Inr ((a, b, c, d :: 'a::len word), st')" "recording idx t0 t1 st'"
proof -
  from mpc_random_Record [OF assms] obtain a :: "'a word" and s1 where 1: "mpc_random st = Inr (a, s1)" "recording idx t0 t1 s1" by blast
  from mpc_random_Record [OF 1(2)] obtain b :: "'a word" and s2 where 2: "mpc_random s1 = Inr (b, s2)" "recording idx t0 t1 s2" by blast
  from mpc_random_Record [OF 2(2)] obtain c :: "'a word" and s3 where 3: "mpc_random s2 = Inr (c, s3)" "recording idx t0 t1 s3" by blast
  from mpc_random_Record [OF 3(2)] obtain d :: "'a word" and s4 where 4: "mpc_random s3 = Inr (d, s4)" "recording idx t0 t1 s4" by blast
  show thesis
    by (rule that [of a b c d s4]) (simp_all add: random4_def 1 2 3 4)
qed

lemma mpc_mul_record:
  assumes "recording idx t0 t1 st" "as_ctx x = Ctx"
  obtains X0 Y0 X1 Y1 :: u64 and st' where "mpc_mul x y P2 self (Some p0) (Some p1) st = Return (0, st')"
    "recording (idx + 1) (t0 @ tape_entry idx X0 Y0 (X0 * Y1)) (t1 @ tape_entry idx X1 Y1 (X1 * Y0)) st'"
proof -
  obtain X0 Y0 X1 Y1 :: u64 and st1 where r: "random4 st = Inr ((X0, Y0, X1, Y1), st1)" "recording idx t0 t1 st1"
    using random4_Record [OF assms(1)] by blast
  have "mul_deal p0 p1 st = Return (0, st1\<lparr>ps_ctx := (ps_ctx st1)\<lparr>mul_ctr := Some (idx + 1),
       mul_out_p0 := Some (t0 @ tape_entry idx X0 Y0 (X0 * Y1)),
       mul_out_p1 := Some (t1 @ tape_entry idx X1 Y1 (X1 * Y0))\<rparr>\<rparr>)"
    using r by (simp add: mul_deal_def recording_def)
  with r(2) assms(2) show thesis
    by (intro that [of _ X0 Y0 Y1 X1]) (auto simp: mpc_mul_def recording_def)
qed

lemma read_entry_tape:
  assumes "8 dvd LENGTH('a::len)"
  shows "read_entry desync idx (Some (tape_entry idx X Y (g :: 'a word) @ rest)) = Inr ((X, Y, g), Some rest)"
  using assms by (simp add: read_entry_def tape_entry_def Let_def)

lemma tape_entry_desync:
  assumes "idx \<noteq> expected"
  shows "read_entry desync expected (Some (tape_entry idx X Y g @ rest)) = Inl (Runtime_error desync)"
  using assms by (simp add: read_entry_def tape_entry_def Let_def)

lemma mul_material_replay:
  fixes X Y g :: u64
  assumes "replaying is_p0 idx (tape_entry idx X Y g @ rest) st"
  obtains st' where "mul_material is_p0 self st = Return ((X, Y, g), st')" "replaying is_p0 (idx + 1) rest st'"
  using assms
  by (cases is_p0) (auto simp: mul_material_def replaying_def Let_def read_entry_tape)

lemma mpc_mul_replay:
  fixes X0 Y0 X1 Y1 :: u64
  assumes "replaying True idx (tape_entry idx X0 Y0 (X0 * Y1) @ r0) s0"
    and "replaying False idx (tape_entry idx X1 Y1 (X1 * Y0) @ r1) s1"
    and [simp]: "as_ctx x0 = Ctx" "as_ctx x1 = Ctx"
  shows "\<exists>z0 z1 s0' s1'. joint (three (mpc_mul x0 y0 P0 self0 (Some (peer_at P1 P1)) None s0)
        (mpc_mul x1 y1 P1 self1 (Some (peer_at P0 P0)) None s1) (Return (0, s2))) quiet
      (three (z0, s0') (z1, s1') (0, s2)) quiet
    \<and> z0 + z1 = (as_val x0 + as_val x1) * (as_val y0 + as_val y1)
    \<and> replaying True (idx + 1) r0 s0' \<and> replaying False (idx + 1) r1 s1'"
proof -
  obtain s0' where m0: "mul_material True self0 s0 = Return ((X0, Y0, X0 * Y1), s0')" "replaying True (idx + 1) r0 s0'"
    using mul_material_replay [OF assms(1)] by blast
  obtain s1' where m1: "mul_material False self1 s1 = Return ((X1, Y1, X1 * Y0), s1')" "replaying False (idx + 1) r1 s1'"
    using mul_material_replay [OF assms(2)] by blast
  have "X0 * Y1 + X1 * Y0 = Y0 * X1 + Y1 * X0" by (simp add: algebra_simps)
  from mul_finish [OF this, of "as_val x0" "as_val y0" s0' "as_val x1" "as_val y1" s1' s2]
  obtain z0 z1 where "joint (three
       (bind (mul_exchange True (peer_at P1 P1) (as_val x0) (as_val y0) X0 Y0 (X0 * Y1)) (\<lambda>out. Return (out, s0')))
       (bind (mul_exchange False (peer_at P0 P0) (as_val x1) (as_val y1) X1 Y1 (X1 * Y0)) (\<lambda>out. Return (out, s1')))
       (Return (0, s2))) quiet (three (z0, s0') (z1, s1') (0, s2)) quiet"
    "z0 + z1 = (as_val x0 + as_val x1) * (as_val y0 + as_val y1)" by blast
  with m0 m1 show ?thesis
    by (intro exI [of _ z0] exI [of _ z1] exI [of _ s0'] exI [of _ s1']) (simp add: mpc_mul_def)
qed

text \<open>A program that multiplies a list of pairs one after the other.\<close>

fun mul_seq :: "role \<Rightarrow> netpeer \<Rightarrow> netpeer option \<Rightarrow> netpeer option \<Rightarrow> (u64 ashare \<times> u64 ashare) list
    \<Rightarrow> pstate \<Rightarrow> (u64 list \<times> pstate) coro" where
  "mul_seq r self p q [] st = Return ([], st)"
| "mul_seq r self p q ((x, y) # ops) st =
     bind (mpc_mul x y r self p q st) (\<lambda>(z, st).
     bind (mul_seq r self p q ops st) (\<lambda>(zs, st). Return (z # zs, st)))"

definition has_ctx :: "u64 ashare \<times> u64 ashare \<Rightarrow> bool" where
  "has_ctx xy \<longleftrightarrow> as_ctx (fst xy) = Ctx"

definition products :: "(u64 ashare \<times> u64 ashare) list \<Rightarrow> (u64 ashare \<times> u64 ashare) list \<Rightarrow> u64 list" where
  "products ops0 ops1 = map2 (\<lambda>(x0, y0) (x1, y1). (as_val x0 + as_val x1) * (as_val y0 + as_val y1)) ops0 ops1"

text \<open>
  \<open>replays e0 e1 idx n\<close>: two parties that start at index \<open>idx\<close> with tapes beginning with \<open>e0\<close> and \<open>e1\<close> get
  correct shares of any \<open>n\<close> products, with no message of the dealer, and consume exactly these parts.
\<close>

definition replays :: "byte list \<Rightarrow> byte list \<Rightarrow> u64 \<Rightarrow> nat \<Rightarrow> bool" where
  "replays e0 e1 idx n \<longleftrightarrow>
    (\<forall>ops0 ops1 s0 s1 s2 self0 self1 r0 r1.
       length ops0 = n \<and> length ops1 = n \<and> list_all has_ctx ops0 \<and> list_all has_ctx ops1 \<and>
       replaying True idx (e0 @ r0) s0 \<and> replaying False idx (e1 @ r1) s1 \<longrightarrow>
       (\<exists>z0 z1 t0 t1. joint (three (mul_seq P0 self0 (Some (peer_at P1 P1)) None ops0 s0)
           (mul_seq P1 self1 (Some (peer_at P0 P0)) None ops1 s1) (Return ([], s2))) quiet
         (three (z0, t0) (z1, t1) ([], s2)) quiet
         \<and> length z0 = n \<and> length z1 = n \<and> map2 (+) z0 z1 = products ops0 ops1
         \<and> replaying True (idx + of_nat n) r0 t0 \<and> replaying False (idx + of_nat n) r1 t1))"

lemma replays_0: "replays [] [] idx 0"
  unfolding replays_def using joint_three_return by (fastforce simp: products_def)

lemma replays_Suc:
  assumes "replays e0 e1 (idx + 1) n"
  shows "replays (tape_entry idx X0 Y0 (X0 * Y1) @ e0) (tape_entry idx X1 Y1 (X1 * (Y0 :: u64)) @ e1) idx (Suc n)"
  unfolding replays_def
proof (intro allI impI, elim conjE)
  fix ops0 ops1 and s0 s1 s2 :: pstate and self0 self1 r0 r1
  assume len: "length ops0 = Suc n" "length ops1 = Suc n" and ctx: "list_all has_ctx ops0" "list_all has_ctx ops1"
    and rep: "replaying True idx ((tape_entry idx X0 Y0 (X0 * Y1) @ e0) @ r0) s0"
      "replaying False idx ((tape_entry idx X1 Y1 (X1 * Y0) @ e1) @ r1) s1"
  obtain x0 y0 ops0' x1 y1 ops1' where ops: "ops0 = (x0, y0) # ops0'" "ops1 = (x1, y1) # ops1'"
    "length ops0' = n" "length ops1' = n"
    using len by (auto simp: length_Suc_conv)
  obtain z0 z1 t0 t1 where
    j1: "joint (three (mpc_mul x0 y0 P0 self0 (Some (peer_at P1 P1)) None s0)
        (mpc_mul x1 y1 P1 self1 (Some (peer_at P0 P0)) None s1) (Return (0, s2))) quiet
      (three (z0, t0) (z1, t1) (0, s2)) quiet"
    and z: "z0 + z1 = (as_val x0 + as_val x1) * (as_val y0 + as_val y1)"
    and t: "replaying True (idx + 1) (e0 @ r0) t0" "replaying False (idx + 1) (e1 @ r1) t1"
    using mpc_mul_replay [OF rep [unfolded append_assoc], of x0 x1 y0 self0 y1 self1 s2] ctx ops
    by (auto simp: has_ctx_def)
  have "list_all has_ctx ops0'" "list_all has_ctx ops1'" using ctx ops by simp_all
  then obtain zs0 zs1 u0 u1 where
    j2: "joint (three (mul_seq P0 self0 (Some (peer_at P1 P1)) None ops0' t0)
           (mul_seq P1 self1 (Some (peer_at P0 P0)) None ops1' t1) (Return ([], s2))) quiet
         (three (zs0, u0) (zs1, u1) ([], s2)) quiet"
    and zs: "length zs0 = n" "length zs1 = n" "map2 (+) zs0 zs1 = products ops0' ops1'"
    and u: "replaying True (idx + 1 + of_nat n) r0 u0" "replaying False (idx + 1 + of_nat n) r1 u1"
    using assms ops t unfolding replays_def by blast
  have "joint (three (mul_seq P0 self0 (Some (peer_at P1 P1)) None ops0 s0)
           (mul_seq P1 self1 (Some (peer_at P0 P0)) None ops1 s1)
           (bind (Return (0, s2)) (\<lambda>(_ :: u64, s). bind (Return ([], s)) (\<lambda>(zs, s). Return (zs, s))))) quiet
         (three (z0 # zs0, u0) (z1 # zs1, u1) ([], s2)) quiet"
    unfolding ops mul_seq.simps
    by (rule joint_three_bind [OF j1], unfold case_prod_conv, rule joint_three_bind [OF j2], unfold case_prod_conv,
        rule joint_three_return)
  with z zs u show "\<exists>z0 z1 t0 t1. joint (three (mul_seq P0 self0 (Some (peer_at P1 P1)) None ops0 s0)
           (mul_seq P1 self1 (Some (peer_at P0 P0)) None ops1 s1) (Return ([], s2))) quiet
         (three (z0, t0) (z1, t1) ([], s2)) quiet
         \<and> length z0 = Suc n \<and> length z1 = Suc n \<and> map2 (+) z0 z1 = products ops0 ops1
         \<and> replaying True (idx + of_nat (Suc n)) r0 t0 \<and> replaying False (idx + of_nat (Suc n)) r1 t1"
    by (intro exI [of _ "z0 # zs0"] exI [of _ "z1 # zs1"] exI [of _ u0] exI [of _ u1])
      (simp add: ops products_def add.assoc)
qed

lemma mul_seq_record_replay:
  assumes "recording idx t0 t1 st" "list_all has_ctx ops"
  shows "\<exists>zs st' e0 e1. mul_seq P2 self (Some p0) (Some p1) ops st = Return (zs, st')
    \<and> recording (idx + of_nat (length ops)) (t0 @ e0) (t1 @ e1) st' \<and> replays e0 e1 idx (length ops)"
  using assms
proof (induction ops arbitrary: idx t0 t1 st)
  case Nil
  then show ?case by (auto simp: replays_0 intro!: exI [of _ "[]"])
next
  case (Cons xy ops)
  obtain x y where xy: "xy = (x, y)" by (cases xy)
  with Cons.prems have "as_ctx x = Ctx" by (simp add: has_ctx_def)
  from mpc_mul_record [OF Cons.prems(1) this, of y self p0 p1] obtain X0 Y0 X1 Y1 :: u64 and st1 where
    m: "mpc_mul x y P2 self (Some p0) (Some p1) st = Return (0, st1)"
    and r: "recording (idx + 1) (t0 @ tape_entry idx X0 Y0 (X0 * Y1)) (t1 @ tape_entry idx X1 Y1 (X1 * Y0)) st1"
    by metis
  from Cons.IH [OF r] Cons.prems(2) obtain zs st' e0 e1 where
    "mul_seq P2 self (Some p0) (Some p1) ops st1 = Return (zs, st')"
    "recording (idx + 1 + of_nat (length ops)) ((t0 @ tape_entry idx X0 Y0 (X0 * Y1)) @ e0)
      ((t1 @ tape_entry idx X1 Y1 (X1 * Y0)) @ e1) st'" and e: "replays e0 e1 (idx + 1) (length ops)"
    by auto
  with m replays_Suc [OF e, of X0 Y0 Y1 X1] show ?case
    by (intro exI [of _ "0 # zs"] exI [of _ st'] exI [of _ "tape_entry idx X0 Y0 (X0 * Y1) @ e0"]
        exI [of _ "tape_entry idx X1 Y1 (X1 * Y0) @ e1"]) (simp add: xy add.assoc)
qed

end
