(* ===== verification/Dpf.thy ===== *)
theory Dpf
  imports Prg VecOps "HOL-Library.Log_Nat"
begin

text \<open>
  The distributed point function of \<^verbatim>\<open>mpc/dpf.hpp\<close>: key generation and point evaluation.
  The templates' \<^verbatim>\<open>leaf_t\<close> is the argument \<open>lt\<close>, their \<^verbatim>\<open>prgkey_t\<close> with its \<^verbatim>\<open>PRG\<close> specialisation is
  the argument \<open>G\<close>, instantiated by \<^verbatim>\<open>PRG\<close> on \<^verbatim>\<open>AES_KEY\<close> in the properties. The two blocks that
  \<^verbatim>\<open>arc4random_buf\<close> puts into \<^verbatim>\<open>root\<close> are arguments of \<open>gen\<close>. The sizes computed through
  \<^verbatim>\<open>double\<close>, \<^verbatim>\<open>std::ceil\<close> and \<^verbatim>\<open>std::log2\<close> are exact natural-number computations, which the code's
  agree with for domains below \<open>2 ^ 47\<close> entries.
\<close>

section \<open>Template constants\<close>

fun bits_per_leaf :: "leaf_ty \<Rightarrow> nat" where
  "bits_per_leaf T_u8 = 8"
| "bits_per_leaf T_u32 = 32"
| "bits_per_leaf T_u64 = 64"
| "bits_per_leaf T_m128 = 128"
| "bits_per_leaf (T_arr n) = 128 * n"

definition is_packed :: "leaf_ty \<Rightarrow> bool" where
  "is_packed lt = (bits_per_leaf lt div 8 < 16)"

definition leaves_per_node :: "leaf_ty \<Rightarrow> nat" where
  "leaves_per_node lt = (if is_packed lt then 128 div bits_per_leaf lt else 1)"

definition ceil_div :: "nat \<Rightarrow> nat \<Rightarrow> nat" where
  "ceil_div a b = (a + b - 1) div b"

definition nodes_per_leaf :: "leaf_ty \<Rightarrow> nat" where
  "nodes_per_leaf lt = (if is_packed lt then 1 else ceil_div (bits_per_leaf lt) 128)"

definition nodes_in_interval :: "leaf_ty \<Rightarrow> nat \<Rightarrow> nat \<Rightarrow> nat" where
  "nodes_in_interval lt from to =
     (if to < from then 0
      else max 1 (ceil_div (to + 1) (leaves_per_node lt) - from div leaves_per_node lt))"

definition dpf_depth :: "leaf_ty \<Rightarrow> nat \<Rightarrow> nat" where
  "dpf_depth lt n = ceillog2 (ceil_div n (leaves_per_node lt))"

definition input_bits :: "nat \<Rightarrow> nat" where
  "input_bits n = ceillog2 n"

record 'k dpf_key =
  dk_nitems :: nat
  dk_root :: m128
  dk_cw :: "m128 list"
  dk_finalizer :: "m128 list"
  dk_prgkey :: 'k

text \<open>\<^verbatim>\<open>operator==\<close> leaves the generator key out of the comparison.\<close>

definition dpf_key_eq :: "'k dpf_key \<Rightarrow> 'k dpf_key \<Rightarrow> bool" where
  "dpf_key_eq a b \<longleftrightarrow> dk_nitems a = dk_nitems b \<and> dk_root a = dk_root b \<and> dk_cw a = dk_cw b
     \<and> dk_finalizer a = dk_finalizer b"


section \<open>Tree steps\<close>

type_synonym 'k prg = "'k \<Rightarrow> m128 \<Rightarrow> nat \<Rightarrow> nat \<Rightarrow> m128 list"

text \<open>\<^verbatim>\<open>expand\<close>: the children's seeds and advice bits, \<open>(s[L], s[R], t[L], t[R])\<close>.\<close>

definition expand :: "'k prg \<Rightarrow> 'k \<Rightarrow> m128 \<Rightarrow> m128 \<times> m128 \<times> u8 \<times> u8" where
  "expand G prgkey seed =
     (let s = G prgkey (clear_lsb seed 3) 2 0
      in (clear_lsb (s ! 0) 3, clear_lsb (s ! 1) 3, get_lsb (s ! 0) 1, get_lsb (s ! 1) 1))"

definition traverse1 :: "'k prg \<Rightarrow> 'k \<Rightarrow> m128 \<Rightarrow> nat \<Rightarrow> u8 \<Rightarrow> m128 \<Rightarrow> u8 \<Rightarrow> m128 \<times> u8" where
  "traverse1 G prgkey seed direction cw_t cw prev_t =
     (let s = G prgkey (clear_lsb seed 3) 1 direction ! 0;
          t = get_lsb s 1 XOR (cw_t AND prev_t)
      in (clear_lsb (xor_if s cw (prev_t \<noteq> 0)) 3, t))"

definition traverse2 ::
    "'k prg \<Rightarrow> 'k \<Rightarrow> m128 \<Rightarrow> u8 \<times> u8 \<Rightarrow> m128 \<Rightarrow> u8 \<Rightarrow> (m128 \<times> u8) \<times> (m128 \<times> u8)" where
  "traverse2 G prgkey seed cw_t cw prev_t =
     (let s = G prgkey (clear_lsb seed 3) 2 0;
          tL = get_lsb (s ! 0) 1 XOR (fst cw_t AND prev_t);
          tR = get_lsb (s ! 1) 1 XOR (snd cw_t AND prev_t)
      in ((clear_lsb (xor_if (s ! 0) cw (prev_t \<noteq> 0)) 3, tL),
          (clear_lsb (xor_if (s ! 1) cw (prev_t \<noteq> 0)) 3, tR)))"

definition stretch_leaf :: "'k prg \<Rightarrow> 'k \<Rightarrow> m128 \<Rightarrow> nat \<Rightarrow> m128 list" where
  "stretch_leaf G prgkey seed npl = G prgkey (clear_lsb seed 1) npl 0"


section \<open>Key generation\<close>

definition memcpy_at :: "'a list \<Rightarrow> nat \<Rightarrow> 'a list \<Rightarrow> 'a list" where
  "memcpy_at dst off src = take off dst @ src @ drop (off + length src) dst"

definition make_vec :: "nat \<Rightarrow> nat \<Rightarrow> u64 \<Rightarrow> m128" where
  "make_vec lane_bytes lane_idx v =
     of_bytes (memcpy_at (replicate 16 0) (lane_idx * lane_bytes) (le_bytes lane_bytes v))"

definition elements_per_vector :: "leaf_ty \<Rightarrow> nat" where
  "elements_per_vector lt = (case lt of T_m128 \<Rightarrow> 1 | _ \<Rightarrow> 16 div (bits_per_leaf lt div 8))"

text \<open>The leaf's value as blocks: one lane of a zero block when packed, a copy otherwise.\<close>

fun leaf_blocks :: "leaf \<Rightarrow> nat \<Rightarrow> m128 list" where
  "leaf_blocks (L8 v) lane = [make_vec 1 lane (ucast v)]"
| "leaf_blocks (L32 v) lane = [make_vec 4 lane (ucast v)]"
| "leaf_blocks (L64 v) lane = [make_vec 8 lane v]"
| "leaf_blocks (L128 v) lane = [v]"
| "leaf_blocks (LArr vs) lane = vs"

text \<open>
  \<^verbatim>\<open>make_finalizer\<close> divides 16 by the leaf's size and reduces the target modulo the quotient, also in
  the unpacked case that does not use the lane; for a leaf of two or more blocks the quotient is 0.
\<close>

definition make_finalizer ::
    "'k prg \<Rightarrow> leaf_ty \<Rightarrow> 'k \<Rightarrow> nat \<Rightarrow> leaf \<Rightarrow> m128 \<Rightarrow> m128 \<Rightarrow> m128 list result" where
  "make_finalizer G lt prgkey target val sL sR =
     (if elements_per_vector lt = 0 then Inl (Undefined ''target % elements_per_vector: division by zero'')
      else
      let lane_in_vector = target mod elements_per_vector lt;
          stretchedL = stretch_leaf G prgkey sL (nodes_per_leaf lt);
          stretchedR = stretch_leaf G prgkey sR (nodes_per_leaf lt);
          finalizer = leaf_blocks val lane_in_vector
      in Inr (map (\<lambda>j. finalizer ! j XOR (stretchedL ! j XOR stretchedR ! j)) [0..<nodes_per_leaf lt]))"

text \<open>The bit of \<open>x\<close> that selects the child at a layer: \<^verbatim>\<open>(x >> (nbits - layer - 1)) & 1\<close>.\<close>

definition path_bit :: "nat \<Rightarrow> nat \<Rightarrow> nat \<Rightarrow> nat" where
  "path_bit nbits layer x = (x div 2 ^ (nbits - layer - 1)) mod 2"

text \<open>One iteration of the layer loop of \<^verbatim>\<open>gen\<close>; the state is \<open>(s[0], t[0], s[1], t[1], cw)\<close>.\<close>

type_synonym gen_state = "m128 \<times> u8 \<times> m128 \<times> u8 \<times> m128 list"

definition gen_layer :: "'k prg \<Rightarrow> 'k \<Rightarrow> nat \<Rightarrow> nat \<Rightarrow> nat \<Rightarrow> gen_state \<Rightarrow> gen_state" where
  "gen_layer G prgkey nbits target layer st =
     (let (sP0, tP0, sP1, tP1, cw) = st;
          bit = path_bit nbits layer target;
          (s0L, s0R, t0L, t0R) = expand G prgkey sP0;
          (s1L, s1R, t1L, t1R) = expand G prgkey sP1;
          keep = (bit \<noteq> 0);
          cwtL = t0L XOR t1L XOR of_nat bit XOR 1;
          cwtR = t0R XOR t1R XOR of_nat bit;
          nextcw = (if keep then s0L XOR s1L else s0R XOR s1R);
          cwt_keep = (if keep then cwtR else cwtL);
          sP0' = xor_if (if keep then s0R else s0L) nextcw (tP0 \<noteq> 0);
          tP0' = (if keep then t0R else t0L) XOR (tP0 AND cwt_keep);
          sP1' = xor_if (if keep then s1R else s1L) nextcw (tP1 \<noteq> 0);
          tP1' = (if keep then t1R else t1L) XOR (tP1 AND cwt_keep)
      in (sP0', tP0', sP1', tP1', cw @ [set_lsbs nextcw (cwtL \<noteq> 0, cwtR \<noteq> 0)]))"

definition gen ::
    "'k prg \<Rightarrow> leaf_ty \<Rightarrow> 'k \<Rightarrow> nat \<Rightarrow> nat \<Rightarrow> leaf \<Rightarrow> m128 \<Rightarrow> m128 \<Rightarrow> ('k dpf_key \<times> 'k dpf_key) result"
  where
  "gen G lt prgkey n target val rnd0 rnd1 =
     (if n \<le> target then Inl (Runtime_error ''target point out of range'')
      else
        let t0 = get_lsb rnd0 1;
            t1 = (if t0 = 0 then 1 else 0);
            root0 = rnd0;
            root1 = set_lsb rnd1 (t1 \<noteq> 0);
            nbits = input_bits n;
            (sL, tL, sR, tR, cw) =
              fold (gen_layer G prgkey nbits target) [0..<dpf_depth lt n] (root0, t0, root1, t1, [])
        in res_bind (make_finalizer G lt prgkey target val sL sR) (\<lambda>finalizer. Inr (\<lparr>dk_nitems = n, dk_root = root0, dk_cw = cw, dk_finalizer = finalizer, dk_prgkey = prgkey\<rparr>,
                \<lparr>dk_nitems = n, dk_root = root1, dk_cw = cw, dk_finalizer = finalizer, dk_prgkey = prgkey\<rparr>)))"


section \<open>Point evaluation\<close>

text \<open>One node's output blocks, as an iteration of \<^verbatim>\<open>finalize\<close> computes them.\<close>

definition finalize_node :: "'k prg \<Rightarrow> leaf_ty \<Rightarrow> 'k \<Rightarrow> m128 list \<Rightarrow> m128 \<Rightarrow> u8 \<Rightarrow> m128 list" where
  "finalize_node G lt prgkey finalizer s t =
     (let stretched = stretch_leaf G prgkey s (nodes_per_leaf lt)
      in map (\<lambda>j. xor_if (stretched ! j) (finalizer ! j) (t \<noteq> 0)) [0..<nodes_per_leaf lt])"

definition eval_layer :: "'k prg \<Rightarrow> 'k dpf_key \<Rightarrow> nat \<Rightarrow> nat \<Rightarrow> nat \<Rightarrow> m128 \<times> u8 \<Rightarrow> m128 \<times> u8" where
  "eval_layer G key nbits input layer st =
     (let (S, T) = st;
          cw = dk_cw key ! layer;
          nextbit = path_bit nbits layer input
      in traverse1 G (dk_prgkey key) S nextbit (get_lsb cw (if nextbit \<noteq> 0 then 2 else 1)) cw T)"

text \<open>
  \<^verbatim>\<open>getword\<close>: the block read as an array of leaves. Its only declaration is in \<^verbatim>\<open>dpf/dpf.h\<close>; \<^verbatim>\<open>dpf.hpp\<close> uses it for packed
  leaves without including that header.
\<close>

fun getword :: "leaf_ty \<Rightarrow> m128 \<Rightarrow> nat \<Rightarrow> leaf" where
  "getword T_u8 S i = L8 (ucast (drop_bit (8 * i) S))"
| "getword T_u32 S i = L32 (ucast (drop_bit (32 * i) S))"
| "getword T_u64 S i = L64 (ucast (drop_bit (64 * i) S))"
| "getword T_m128 S i = L128 S"
| "getword (T_arr n) S i = LArr [S]"

definition leaf_of_nodes :: "leaf_ty \<Rightarrow> m128 list \<Rightarrow> nat \<Rightarrow> leaf" where
  "leaf_of_nodes lt nodes input =
     (if is_packed lt then getword lt (nodes ! 0) (input mod leaves_per_node lt)
      else case lt of T_m128 \<Rightarrow> L128 (nodes ! 0) | _ \<Rightarrow> LArr nodes)"

definition eval_nodes :: "'k prg \<Rightarrow> leaf_ty \<Rightarrow> 'k dpf_key \<Rightarrow> nat \<Rightarrow> m128 \<times> u8" where
  "eval_nodes G lt key input =
     fold (eval_layer G key (input_bits (dk_nitems key)) input) [0..<dpf_depth lt (dk_nitems key)]
       (dk_root key, get_lsb (dk_root key) 1)"

definition eval_leaf :: "'k prg \<Rightarrow> leaf_ty \<Rightarrow> 'k dpf_key \<Rightarrow> nat \<Rightarrow> leaf" where
  "eval_leaf G lt key input =
     (let (S, T) = eval_nodes G lt key input
      in leaf_of_nodes lt (finalize_node G lt (dk_prgkey key) (dk_finalizer key) S T) input)"

text \<open>The loop reads \<^verbatim>\<open>cw[layer]\<close> of every layer without a check: a key with too few words is read out of bounds.\<close>

definition cw_oob :: "'a result" where
  "cw_oob = Inl (Undefined ''cw index out of range'')"

definition eval :: "'k prg \<Rightarrow> leaf_ty \<Rightarrow> 'k dpf_key \<Rightarrow> nat \<Rightarrow> leaf result" where
  "eval G lt key input =
     (if length (dk_cw key) < dpf_depth lt (dk_nitems key) then cw_oob else Inr (eval_leaf G lt key input))"

end
