(* ===== verification/DpfCorrect.thy ===== *)
theory DpfCorrect
  imports Dpf
begin

text \<open>
  Correctness of key generation and point evaluation, for every generator that satisfies the
  \<open>block_prg\<close> interface: the two evaluations of a key pair differ by the programmed value at the
  target and agree everywhere else. The proof follows the layers: with differing control bits a layer
  keeps the two states of the target's path apart (\<open>gen_layer_correct\<close>) and merges them off the path,
  \<open>dpf_inv\<close> is what holds after \<open>m\<close> layers, and the last sections relate paths to node indices and
  nodes to leaves.
\<close>

section \<open>One layer\<close>


lemma get_lsb_set_lsbs [simp]:
  "get_lsb (set_lsbs c (p, q)) 1 = of_bool p" "get_lsb (set_lsbs c (p, q)) (Suc 0) = of_bool p"
  "get_lsb (set_lsbs c (p, q)) 2 = of_bool q"
  by (simp_all add: get_lsb_1 get_lsb_1 [unfolded One_nat_def] get_lsb_2 bit_set_lsbs)

lemma clear_lsb_xor: "clear_lsb (a XOR b) 3 = clear_lsb a 3 XOR clear_lsb b 3"
  by (rule bit_word_eqI) (auto simp: bit_clear_lsb bit_simps)

lemma clear_lsb_idem [simp]: "clear_lsb (clear_lsb a 3) 3 = clear_lsb a 3"
  by (rule bit_word_eqI) (auto simp: bit_clear_lsb)

lemma clear_lsb_set_lsbs [simp]: "clear_lsb (set_lsbs c bs) 3 = clear_lsb c 3"
  by (rule bit_word_eqI) (auto simp: bit_clear_lsb bit_set_lsbs)

lemma of_bool_u8 [simp]:
  "(of_bool p :: u8) XOR of_bool q = of_bool (p \<noteq> q)"
  "(of_bool p :: u8) AND of_bool q = of_bool (p \<and> q)"
  "(of_bool p :: u8) XOR 1 = of_bool (\<not> p)"
  "1 XOR (of_bool p :: u8) = of_bool (\<not> p)"
  "(of_bool p = (0 :: u8)) = (\<not> p)"
  by (cases p; cases q; simp)+

lemma path_bit_of_bool: "path_bit nbits l x = of_bool (bit x (nbits - l - 1))"
  by (simp add: path_bit_def bit_iff_odd mod_2_eq_odd)

lemma path_bit_cases [simp]: "(path_bit nbits l x \<noteq> 0) = (path_bit nbits l x = 1)"
  by (simp add: path_bit_of_bool)

text \<open>A child: the block that the generator returns for one direction.\<close>

definition dpf_child :: "'k prg \<Rightarrow> 'k \<Rightarrow> m128 \<Rightarrow> bool \<Rightarrow> m128" where
  "dpf_child G k s d = G k (clear_lsb s 3) 1 (of_bool d) ! 0"

text \<open>One layer of evaluation, in terms of booleans.\<close>

definition walk1 :: "'k prg \<Rightarrow> 'k \<Rightarrow> m128 \<Rightarrow> bool \<Rightarrow> bool \<Rightarrow> m128 \<times> bool \<Rightarrow> m128 \<times> bool" where
  "walk1 G k c ct d st =
     (let b = dpf_child G k (fst st) d
      in (clear_lsb b 3 XOR (if snd st then clear_lsb c 3 else 0), bit b 0 \<noteq> (ct \<and> snd st)))"

text \<open>
  What holds after \<open>m\<close> layers: keys that begin with the correction words so far take an input on the
  target's path to the two generation states, and any other input to one common state.
\<close>

definition agree :: "nat \<Rightarrow> nat \<Rightarrow> nat \<Rightarrow> nat \<Rightarrow> bool" where
  "agree nbits m x y \<longleftrightarrow> (\<forall>l<m. bit x (nbits - l - 1) = bit y (nbits - l - 1))"

lemma agree_Suc:
  "agree nbits (Suc m) x y \<longleftrightarrow> agree nbits m x y \<and> bit x (nbits - m - 1) = bit y (nbits - m - 1)"
  by (auto simp: agree_def less_Suc_eq)

definition walk_end :: "'k prg \<Rightarrow> 'k dpf_key \<Rightarrow> nat \<Rightarrow> nat \<Rightarrow> nat \<Rightarrow> m128 \<times> u8 \<Rightarrow> m128 \<times> u8" where
  "walk_end G key nbits input m st = fold (eval_layer G key nbits input) [0..<m] st"

lemma walk_end_simps [simp]:
  "walk_end G key nbits input 0 st = st"
  "walk_end G key nbits input (Suc m) st = eval_layer G key nbits input m (walk_end G key nbits input m st)"
  by (simp_all add: walk_end_def)

definition dpf_inv ::
    "'k prg \<Rightarrow> 'k \<Rightarrow> nat \<Rightarrow> nat \<Rightarrow> m128 \<times> u8 \<Rightarrow> m128 \<times> u8 \<Rightarrow> nat \<Rightarrow> m128 \<Rightarrow> bool \<Rightarrow> m128 \<Rightarrow> m128 list \<Rightarrow> bool"
  where
  "dpf_inv G k nbits target rt0 rt1 m s0 p s1 cws \<longleftrightarrow>
     length cws = m \<and>
     (\<forall>key0 key1 input. take m (dk_cw key0) = cws \<and> take m (dk_cw key1) = cws
        \<and> dk_prgkey key0 = k \<and> dk_prgkey key1 = k \<longrightarrow>
        (if agree nbits m input target
         then walk_end G key0 nbits input m rt0 = (s0, of_bool p)
            \<and> walk_end G key1 nbits input m rt1 = (s1, of_bool (\<not> p))
         else \<exists>s q. walk_end G key0 nbits input m rt0 = (s, of_bool q)
            \<and> walk_end G key1 nbits input m rt1 = (s, of_bool q)))"

lemma take_Suc_snoc:
  assumes "take (Suc m) xs = ys @ [y]" "length ys = m"
  shows "xs ! m = y" "take m xs = ys"
  using arg_cong [OF assms(1), of "\<lambda>xs. xs ! m"] arg_cong [OF assms(1), of "take m"] assms(2)
  by (simp_all add: nth_append min_def)

context block_prg
begin

lemma expand_child:
  "expand G k s = (clear_lsb (dpf_child G k s False) 3, clear_lsb (dpf_child G k s True) 3,
     of_bool (bit (dpf_child G k s False) 0), of_bool (bit (dpf_child G k s True) 0))"
  by (simp add: expand_def G_two dpf_child_def get_lsb_1 get_lsb_1 [unfolded One_nat_def])

lemma eval_layer_walk1:
  assumes "dk_cw key ! layer = set_lsbs c (cl, cr)"
  shows "eval_layer G key nbits input layer (S, of_bool T) =
     (let d = bit input (nbits - layer - 1);
          st = walk1 G (dk_prgkey key) c (if d then cr else cl) d (S, T)
      in (fst st, of_bool (snd st)))"
  by (simp add: eval_layer_def assms traverse1_def walk1_def Let_def path_bit_of_bool xor_if_eq
      clear_lsb_xor dpf_child_def get_lsb_1 get_lsb_1 [unfolded One_nat_def] bit_set_lsbs)

text \<open>
  One layer of generation: with differing control bits it emits a correction word under which the
  walk along the target's bit gives the two new states, again with differing control bits, and the
  walk along the other bit makes the two states equal.
\<close>

lemma gen_layer_correct:
  assumes d: "bit target (nbits - layer - 1) = d"
  obtains c cl cr where
    "gen_layer G k nbits target layer (s0, of_bool p, s1, of_bool (\<not> p), cws) =
       (let st0 = walk1 G k c (if d then cr else cl) d (s0, p);
            st1 = walk1 G k c (if d then cr else cl) d (s1, \<not> p)
        in (fst st0, of_bool (snd st0), fst st1, of_bool (snd st1), cws @ [set_lsbs c (cl, cr)]))"
    "snd (walk1 G k c (if d then cr else cl) d (s1, \<not> p)) \<longleftrightarrow>
       \<not> snd (walk1 G k c (if d then cr else cl) d (s0, p))"
    "walk1 G k c (if d then cl else cr) (\<not> d) (s0, p) = walk1 G k c (if d then cl else cr) (\<not> d) (s1, \<not> p)"
proof -
  let ?a = "\<lambda>e. dpf_child G k s0 e" and ?b = "\<lambda>e. dpf_child G k s1 e"
  define c where "c = clear_lsb (?a (\<not> d)) 3 XOR clear_lsb (?b (\<not> d)) 3"
  define cl where "cl \<longleftrightarrow> ((bit (?a False) 0 \<noteq> bit (?b False) 0) \<noteq> (\<not> d))"
  define cr where "cr \<longleftrightarrow> ((bit (?a True) 0 \<noteq> bit (?b True) 0) \<noteq> d)"
  have pb: "path_bit nbits layer target = of_bool d"
    using d by (simp add: path_bit_of_bool)
  have c3: "clear_lsb c 3 = c"
    by (simp add: c_def clear_lsb_xor)
  show ?thesis
  proof (rule that [of c cr cl])
    show "gen_layer G k nbits target layer (s0, of_bool p, s1, of_bool (\<not> p), cws) =
       (let st0 = walk1 G k c (if d then cr else cl) d (s0, p);
            st1 = walk1 G k c (if d then cr else cl) d (s1, \<not> p)
        in (fst st0, of_bool (snd st0), fst st1, of_bool (snd st1), cws @ [set_lsbs c (cl, cr)]))"
      by (cases d; cases p; simp add: gen_layer_def Let_def expand_child pb walk1_def c3
         xor_if_eq c_def cl_def cr_def clear_lsb_xor)
  qed (cases d; cases p; auto simp: walk1_def Let_def c3; auto simp: c_def cl_def cr_def xor_simps)+
qed

lemma dpf_inv_Suc:
  assumes inv: "dpf_inv G k nbits target rt0 rt1 m s0 p s1 cws"
    and d: "bit target (nbits - m - 1) = d"
    and w0: "w0 = walk1 G k c (if d then cr else cl) d (s0, p)"
    and w1: "w1 = walk1 G k c (if d then cr else cl) d (s1, \<not> p)"
    and differ: "snd w1 \<longleftrightarrow> \<not> snd w0"
    and merge: "walk1 G k c (if d then cl else cr) (\<not> d) (s0, p)
       = walk1 G k c (if d then cl else cr) (\<not> d) (s1, \<not> p)"
  shows "dpf_inv G k nbits target rt0 rt1 (Suc m) (fst w0) (snd w0) (fst w1) (cws @ [set_lsbs c (cl, cr)])"
  unfolding dpf_inv_def
proof (intro conjI allI impI)
  have len: "length cws = m" using inv by (simp add: dpf_inv_def)
  then show "length (cws @ [set_lsbs c (cl, cr)]) = Suc m" by simp
  fix key0 key1 :: "'k dpf_key" and input
  assume keys: "take (Suc m) (dk_cw key0) = cws @ [set_lsbs c (cl, cr)]
      \<and> take (Suc m) (dk_cw key1) = cws @ [set_lsbs c (cl, cr)] \<and> dk_prgkey key0 = k \<and> dk_prgkey key1 = k"
  note n0 = take_Suc_snoc [OF conjunct1 [OF keys] len]
  note n1 = take_Suc_snoc [OF conjunct1 [OF conjunct2 [OF keys]] len]
  have k: "dk_prgkey key0 = k" "dk_prgkey key1 = k" using keys by auto
  note E = eval_layer_walk1 [OF n0(1), unfolded k] eval_layer_walk1 [OF n1(1), unfolded k]
  have IH: "if agree nbits m input target
      then walk_end G key0 nbits input m rt0 = (s0, of_bool p)
         \<and> walk_end G key1 nbits input m rt1 = (s1, of_bool (\<not> p))
      else \<exists>s q. walk_end G key0 nbits input m rt0 = (s, of_bool q)
         \<and> walk_end G key1 nbits input m rt1 = (s, of_bool q)"
    using inv n0(2) n1(2) k unfolding dpf_inv_def by blast
  let ?i = "bit input (nbits - m - 1)"
  consider "agree nbits m input target" "?i = d" | "agree nbits m input target" "?i = (\<not> d)"
    | "\<not> agree nbits m input target" by blast
  then show "if agree nbits (Suc m) input target
      then walk_end G key0 nbits input (Suc m) rt0 = (fst w0, of_bool (snd w0))
         \<and> walk_end G key1 nbits input (Suc m) rt1 = (fst w1, of_bool (\<not> snd w0))
      else \<exists>s q. walk_end G key0 nbits input (Suc m) rt0 = (s, of_bool q)
         \<and> walk_end G key1 nbits input (Suc m) rt1 = (s, of_bool q)"
  proof cases
    case 1
    then show ?thesis using IH d differ [unfolded w0 w1] by (cases d) (simp_all add: agree_Suc E w0 w1 Let_def)
  next
    case 2
    then show ?thesis using IH d merge by (cases d) (auto simp: agree_Suc E Let_def)
  next
    case 3
    with IH obtain s q where e: "walk_end G key0 nbits input m rt0 = (s, of_bool q)"
      "walk_end G key1 nbits input m rt1 = (s, of_bool q)" by auto
    let ?w = "walk1 G k c (if ?i then cr else cl) ?i (s, q)"
    have w: "walk_end G key0 nbits input (Suc m) rt0 = (fst ?w, of_bool (snd ?w))"
      "walk_end G key1 nbits input (Suc m) rt1 = (fst ?w, of_bool (snd ?w))"
      by (simp_all only: walk_end_simps e E Let_def)
    from 3 have "\<not> agree nbits (Suc m) input target" by (simp add: agree_Suc)
    from if_not_P [OF this] show ?thesis by (rule ssubst) (intro exI conjI, rule w(1), rule w(2))
  qed
qed

lemma gen_fold_correct:
  assumes "t0 = of_bool p0" "t1 = of_bool (\<not> p0)"
  shows "\<exists>s0 p s1 cws. fold (gen_layer G k nbits target) [0..<m] (r0, t0, r1, t1, []) =
      (s0, of_bool p, s1, of_bool (\<not> p), cws) \<and> dpf_inv G k nbits target (r0, t0) (r1, t1) m s0 p s1 cws"
proof (induction m)
  case 0
  show ?case using assms by (auto simp: dpf_inv_def agree_def)
next
  case (Suc m)
  then obtain s0 p s1 cws where
    st: "fold (gen_layer G k nbits target) [0..<m] (r0, t0, r1, t1, []) =
      (s0, of_bool p, s1, of_bool (\<not> p), cws)"
    and inv: "dpf_inv G k nbits target (r0, t0) (r1, t1) m s0 p s1 cws"
    by blast
  show ?case
  proof (rule gen_layer_correct [OF refl, where target = target and nbits = nbits and layer = m and k = k
        and ?s0.0 = s0 and p = p and ?s1.0 = s1 and cws = cws], goal_cases)
    case (1 c cl cr)
    note dpf_inv_Suc [OF inv refl refl refl 1(2,3)]
    moreover have "fold (gen_layer G k nbits target) [0..<Suc m] (r0, t0, r1, t1, []) =
      gen_layer G k nbits target m (s0, of_bool p, s1, of_bool (\<not> p), cws)"
      by (simp add: st)
    ultimately show ?case
      unfolding 1(1) Let_def 1(2) by (intro exI conjI) assumption
  qed
qed

lemma finalize_node_xor:
  assumes "length fin = nodes_per_leaf lt"
  shows "map2 (XOR) (finalize_node G lt k fin s t) (finalize_node G lt k fin s t) = replicate (nodes_per_leaf lt) 0"
    "map2 (XOR) (finalize_node G lt k fin s0 (of_bool p)) (finalize_node G lt k fin s1 (of_bool (\<not> p)))
      = map (\<lambda>j. fin ! j XOR (stretch_leaf G k s0 (nodes_per_leaf lt) ! j XOR stretch_leaf G k s1 (nodes_per_leaf lt) ! j))
          [0..<nodes_per_leaf lt]"
  by (auto simp: finalize_node_def Let_def list_eq_iff_nth_eq xor_if_eq xor_simps)

end

section \<open>Lanes\<close>

lemma nth_memcpy_at:
  "off + length src \<le> length dst \<Longrightarrow>
     memcpy_at dst off src ! i = (if off \<le> i \<and> i < off + length src then src ! (i - off) else dst ! i)"
  by (auto simp: memcpy_at_def nth_append)

lemma length_memcpy_at [simp]:
  "off + length src \<le> length dst \<Longrightarrow> length (memcpy_at dst off src) = length dst"
  by (simp add: memcpy_at_def)

lemma bit_make_vec:
  assumes "(lane + 1) * lb \<le> 16" "i < 128"
  shows "bit (make_vec lb lane v) i \<longleftrightarrow> lane * lb * 8 \<le> i \<and> i < (lane + 1) * lb * 8 \<and> bit v (i - lane * lb * 8)"
proof -
  let ?b = "memcpy_at (replicate 16 0) (lane * lb) (le_bytes lb v)"
  have fit: "lane * lb + length (le_bytes lb v) \<le> length (replicate 16 (0 :: byte))"
    using assms(1) by simp
  have "i div 8 < 16" using assms(2) by simp
  then have "bit (make_vec lb lane v) i \<longleftrightarrow>
      (lane * lb \<le> i div 8 \<and> i div 8 < lane * lb + lb \<and> bit (le_bytes lb v ! (i div 8 - lane * lb)) (i mod 8))"
    using assms(2) by (auto simp: make_vec_def bit_of_bytes nth_memcpy_at [OF fit] length_memcpy_at [OF fit])
  also have "\<dots> \<longleftrightarrow> lane * lb \<le> i div 8 \<and> i div 8 < lane * lb + lb \<and> bit v (8 * (i div 8 - lane * lb) + i mod 8)"
    by (auto simp: nth_le_bytes_bit)
  also have "\<dots> \<longleftrightarrow> lane * lb * 8 \<le> i \<and> i < (lane + 1) * lb * 8 \<and> bit v (i - lane * lb * 8)"
  proof -
    have "8 * (i div 8 - q) + i mod 8 = i - q * 8" if "q \<le> i div 8" for q
      using that by (simp add: diff_mult_distrib2 mult.commute)
    moreover have "q \<le> i div 8 \<longleftrightarrow> q * 8 \<le> i" "i div 8 < q \<longleftrightarrow> i < q * 8" for q
      by (auto simp: less_eq_div_iff_mult_less_eq div_less_iff_less_mult)
    ultimately show ?thesis by (auto simp: algebra_simps)
  qed
  finally show ?thesis .
qed

text \<open>Reading a lane of a block in which one lane was written.\<close>

lemma lane_make_vec:
  assumes "(lane + 1) * lb \<le> 16" "(j + 1) * lb \<le> 16" "LENGTH('a) = 8 * lb" "lb \<le> 8"
  shows "ucast (drop_bit (8 * lb * j) (make_vec lb lane (ucast (v :: 'a::len word)))) = (if j = lane then v else 0)"
proof (rule bit_word_eqI)
  fix i assume i: "i < LENGTH('a)"
  have "(j + 1) * (8 * lb) \<le> 128" using assms(2) by (simp add: algebra_simps)
  then have lt: "8 * lb * j + i < 128"
    using i assms(3) by (simp add: algebra_simps)
  have sep: "(a + 1) * lb \<le> b * lb" if "a < b" for a b
    using that by (intro mult_le_mono1) simp
  have "bit (ucast (drop_bit (8 * lb * j) (make_vec lb lane (ucast v))) :: 'a word) i
      \<longleftrightarrow> bit (make_vec lb lane (ucast v)) (8 * lb * j + i)"
    using i by (simp add: bit_simps add.commute)
  also have "\<dots> \<longleftrightarrow> bit (if j = lane then v else 0) i"
    unfolding bit_make_vec [OF assms(1) lt]
    using i assms(3,4) sep [of j lane] sep [of lane j]
    by (cases j lane rule: linorder_cases) (auto simp: bit_simps algebra_simps)
  finally show "bit (ucast (drop_bit (8 * lb * j) (make_vec lb lane (ucast v))) :: 'a word) i
      = bit (if j = lane then v else 0) i" .
qed



section \<open>Depth and paths\<close>

lemma ceil_div_le_iff: "0 < b \<Longrightarrow> ceil_div a b \<le> c \<longleftrightarrow> a \<le> c * b"
proof -
  assume b: "0 < b"
  have "ceil_div a b \<le> c \<longleftrightarrow> (a + b - 1) div b < c + 1" by (simp add: ceil_div_def less_Suc_eq_le)
  also have "\<dots> \<longleftrightarrow> a + b - 1 < (c + 1) * b" using b by (rule div_less_iff_less_mult)
  also have "\<dots> \<longleftrightarrow> a \<le> c * b" using b by (auto simp: algebra_simps)
  finally show ?thesis .
qed

lemma ceil_div_pos: "0 < b \<Longrightarrow> 0 < a \<Longrightarrow> 0 < ceil_div a b"
  using ceil_div_le_iff [of b a 0] by simp

lemma ceillog2_ceil_div: "0 < n \<Longrightarrow> ceillog2 (ceil_div n (2 ^ k)) = ceillog2 n - k"
proof -
  assume n: "0 < n"
  have "ceillog2 (ceil_div n (2 ^ k)) \<le> l \<longleftrightarrow> ceillog2 n - k \<le> l" for l
  proof -
    have "ceillog2 (ceil_div n (2 ^ k)) \<le> l \<longleftrightarrow> ceil_div n (2 ^ k) \<le> 2 ^ l"
      using n by (simp add: ceillog2_le_iff ceil_div_pos)
    also have "\<dots> \<longleftrightarrow> ceillog2 n \<le> l + k"
      using n by (simp add: ceil_div_le_iff ceillog2_le_iff power_add)
    finally show ?thesis by auto
  qed
  then show ?thesis by (meson eq_iff order_refl)
qed

lemma agree_iff:
  assumes "x < 2 ^ nbits" "y < 2 ^ nbits"
  shows "agree nbits (nbits - k) x y \<longleftrightarrow> x div 2 ^ k = y div 2 ^ k"
proof
  assume a: "agree nbits (nbits - k) x y"
  have "bit x p = bit y p" if "k \<le> p" for p
  proof (cases "p < nbits")
    case True
    then have "nbits - 1 - p < nbits - k" "nbits - (nbits - 1 - p) - 1 = p" using that by auto
    with a show ?thesis unfolding agree_def by metis
  next
    case False
    then have "x < 2 ^ p" "y < 2 ^ p"
      using assms by (meson less_le_trans not_less one_le_numeral power_increasing)+
    then show ?thesis by (simp add: bit_iff_odd)
  qed
  then have "drop_bit k x = drop_bit k y"
    by (simp add: bit_eq_iff bit_drop_bit_eq)
  then show "x div 2 ^ k = y div 2 ^ k" by (simp add: drop_bit_eq_div)
next
  assume "x div 2 ^ k = y div 2 ^ k"
  then have "bit (drop_bit k x) p = bit (drop_bit k y) p" for p by (simp add: drop_bit_eq_div)
  then have *: "bit x (k + p) = bit y (k + p)" for p by (simp add: bit_drop_bit_eq)
  show "agree nbits (nbits - k) x y"
    unfolding agree_def
  proof (intro allI impI)
    fix l assume "l < nbits - k"
    then have "nbits - l - 1 = k + (nbits - l - 1 - k)" by simp
    with * show "bit x (nbits - l - 1) = bit y (nbits - l - 1)" by metis
  qed
qed

text \<open>The leaf types for which key generation is defined, and their packing.\<close>

lemma leaf_ty_ok:
  assumes "elements_per_vector lt \<noteq> 0"
  shows "lt = T_u8 \<or> lt = T_u32 \<or> lt = T_u64 \<or> lt = T_m128 \<or> lt = T_arr 1"
proof (cases lt)
  case (T_arr n)
  then have "16 div (16 * n) \<noteq> 0" using assms by (simp add: elements_per_vector_def)
  then have "n = 1" by (cases n) (auto simp: div_eq_0_iff)
  with T_arr show ?thesis by simp
qed auto

lemma packing:
  assumes "elements_per_vector lt \<noteq> 0"
  obtains k where "leaves_per_node lt = 2 ^ k" "elements_per_vector lt = 2 ^ k" "nodes_per_leaf lt = 1"
proof -
  have "\<exists>k \<in> {0, 1, 2, 4}. leaves_per_node lt = 2 ^ k \<and> elements_per_vector lt = 2 ^ k \<and> nodes_per_leaf lt = 1"
    using leaf_ty_ok [OF assms]
    by (auto simp: leaves_per_node_def elements_per_vector_def nodes_per_leaf_def is_packed_def ceil_div_def)
  then show ?thesis using that by blast
qed

lemma nonempty_leaf: "elements_per_vector lt \<noteq> 0 \<Longrightarrow> lt \<noteq> T_arr 0"
  by (auto simp: elements_per_vector_def)

lemma leaves_per_node_power:
  assumes "lt \<noteq> T_arr 0"
  obtains k where "leaves_per_node lt = 2 ^ k"
proof -
  have "\<exists>k \<in> {0, 1, 2, 4}. leaves_per_node lt = 2 ^ k"
    using assms by (cases lt) (auto simp: leaves_per_node_def is_packed_def)
  with that show thesis by blast
qed

lemma same_node_iff:
  assumes "lt \<noteq> T_arr 0" "x < n" "y < n"
  shows "agree (input_bits n) (dpf_depth lt n) x y \<longleftrightarrow> x div leaves_per_node lt = y div leaves_per_node lt"
proof -
  obtain k where k: "leaves_per_node lt = 2 ^ k" by (rule leaves_per_node_power [OF assms(1)])
  have "n \<le> 2 ^ ceillog2 n" using assms by (simp add: le_two_power_ceillog2)
  with assms show ?thesis
    by (simp add: k dpf_depth_def input_bits_def ceillog2_ceil_div agree_iff)
qed

lemma leaf_of_nodes_xor:
  assumes "elements_per_vector lt \<noteq> 0" "length a = nodes_per_leaf lt" "length b = nodes_per_leaf lt"
  shows "leaf_xor (leaf_of_nodes lt a i) (leaf_of_nodes lt b i) = leaf_of_nodes lt (map2 (XOR) a b) i"
proof -
  have "nodes_per_leaf lt = 1" using packing [OF assms(1)] by metis
  with assms leaf_ty_ok [OF assms(1)] show ?thesis
    by (auto simp: leaf_of_nodes_def length_Suc_conv unsigned_xor_eq is_packed_def drop_bit_xor)
qed

lemma leaf_of_nodes_zero:
  assumes "elements_per_vector lt \<noteq> 0" "leaf_type val = lt"
  shows "leaf_of_nodes lt (replicate (nodes_per_leaf lt) 0) i = set_zero val"
  using leaf_ty_ok [OF assms(1)] assms(2)
  by (cases val) (auto simp: leaf_of_nodes_def is_packed_def nodes_per_leaf_def ceil_div_def length_Suc_conv)

lemma leaf_of_nodes_blocks:
  assumes "elements_per_vector lt \<noteq> 0" "leaf_type val = lt"
  shows "leaf_of_nodes lt (leaf_blocks val (t mod elements_per_vector lt)) i
    = (if i mod leaves_per_node lt = t mod leaves_per_node lt then val else set_zero val)"
proof -
  have "(i mod m + 1) * l \<le> 16" if "m * l = 16" for i m l :: nat
  proof -
    have "i mod m < m" using that by (metis mod_less_divisor mult_0 neq0_conv zero_neq_numeral)
    then have "(i mod m + 1) * l \<le> m * l" by (intro mult_le_mono1) simp
    with that show ?thesis by simp
  qed
  then have b: "(i mod 16 + 1) * 1 \<le> 16" "(i mod 4 + 1) * 4 \<le> 16" "(i mod 2 + 1) * 8 \<le> 16" for i :: nat
    by fastforce+
  note lanes = lane_make_vec [OF b(1) b(1), where 'a = 8] lane_make_vec [OF b(2) b(2), where 'a = 32]
     lane_make_vec [OF b(3) b(3), where 'a = 64]
  show ?thesis
    using leaf_ty_ok [OF assms(1)] assms(2) lanes
    by (cases val) (auto simp: leaf_of_nodes_def is_packed_def nodes_per_leaf_def ceil_div_def
        leaves_per_node_def elements_per_vector_def length_Suc_conv)
qed


section \<open>Key pairs\<close>

lemma get_lsb_set_lsb: "get_lsb (set_lsb b v) 1 = of_bool v"
  by (simp only: get_lsb_1 bit_set_lsb if_True simp_thms)

lemma dpf_inv_walk:
  assumes "dpf_inv G k nbits target rt0 rt1 m s0 p s1 cws" "take m (dk_cw key0) = cws"
    "take m (dk_cw key1) = cws" "dk_prgkey key0 = k" "dk_prgkey key1 = k"
  shows "if agree nbits m input target
         then walk_end G key0 nbits input m rt0 = (s0, of_bool p)
            \<and> walk_end G key1 nbits input m rt1 = (s1, of_bool (\<not> p))
         else \<exists>s q. walk_end G key0 nbits input m rt0 = (s, of_bool q)
            \<and> walk_end G key1 nbits input m rt1 = (s, of_bool q)"
  using assms unfolding dpf_inv_def by blast

context block_prg
begin

text \<open>A generation, unfolded: both keys share correction words and finalizer.\<close>

lemma gen_cases:
  assumes "target < n"
  obtains s0 p s1 cws where
    "dpf_inv G k (input_bits n) target (r0, get_lsb r0 1)
       (set_lsb r1 (\<not> bit r0 0), get_lsb (set_lsb r1 (\<not> bit r0 0)) 1) (dpf_depth lt n) s0 p s1 cws"
    "gen G lt k n target val r0 r1 = res_bind (make_finalizer G lt k target val s0 s1) (\<lambda>fin.
       Inr (\<lparr>dk_nitems = n, dk_root = r0, dk_cw = cws, dk_finalizer = fin, dk_prgkey = k\<rparr>,
            \<lparr>dk_nitems = n, dk_root = set_lsb r1 (\<not> bit r0 0), dk_cw = cws, dk_finalizer = fin,
             dk_prgkey = k\<rparr>))"
proof -
  define t1 :: u8 where "t1 = (if get_lsb r0 1 = 0 then 1 else 0)"
  have t: "get_lsb r0 1 = of_bool (bit r0 0)" "t1 = of_bool (\<not> bit r0 0)" "(t1 \<noteq> 0) = (\<not> bit r0 0)"
    by (auto simp: t1_def get_lsb_1 get_lsb_1 [unfolded One_nat_def])
  obtain s0 p s1 cws where
    f: "fold (gen_layer G k (input_bits n) target) [0..<dpf_depth lt n]
      (r0, get_lsb r0 1, set_lsb r1 (\<not> bit r0 0), t1, []) = (s0, of_bool p, s1, of_bool (\<not> p), cws)"
    and inv: "dpf_inv G k (input_bits n) target (r0, get_lsb r0 1) (set_lsb r1 (\<not> bit r0 0), t1)
      (dpf_depth lt n) s0 p s1 cws"
    using gen_fold_correct [OF t(1,2)] by metis
  show thesis
  proof (rule that)
    show "dpf_inv G k (input_bits n) target (r0, get_lsb r0 1)
       (set_lsb r1 (\<not> bit r0 0), get_lsb (set_lsb r1 (\<not> bit r0 0)) 1) (dpf_depth lt n) s0 p s1 cws"
      using inv by (simp only: get_lsb_set_lsb t(2))
    show "gen G lt k n target val r0 r1 = res_bind (make_finalizer G lt k target val s0 s1) (\<lambda>fin.
       Inr (\<lparr>dk_nitems = n, dk_root = r0, dk_cw = cws, dk_finalizer = fin, dk_prgkey = k\<rparr>,
            \<lparr>dk_nitems = n, dk_root = set_lsb r1 (\<not> bit r0 0), dk_cw = cws, dk_finalizer = fin,
             dk_prgkey = k\<rparr>))"
      using assms by (simp only: gen_def Let_def t1_def [symmetric] t(3) f not_le [symmetric] if_False
          case_prod_conv)
  qed
qed

lemma eval_nodes_pair:
  assumes ok: "lt \<noteq> T_arr 0" and "target < n" "i < n"
    and inv: "dpf_inv G k (input_bits n) target (r0, get_lsb r0 1) (r1, get_lsb r1 1) (dpf_depth lt n) s0 p s1 cws"
    and k0: "k0 = \<lparr>dk_nitems = n, dk_root = r0, dk_cw = cws, dk_finalizer = fin, dk_prgkey = k\<rparr>"
    and k1: "k1 = \<lparr>dk_nitems = n, dk_root = r1, dk_cw = cws, dk_finalizer = fin, dk_prgkey = k\<rparr>"
  shows "if i div leaves_per_node lt = target div leaves_per_node lt
    then eval_nodes G lt k0 i = (s0, of_bool p) \<and> eval_nodes G lt k1 i = (s1, of_bool (\<not> p))
    else \<exists>s q. eval_nodes G lt k0 i = (s, of_bool q) \<and> eval_nodes G lt k1 i = (s, of_bool q)"
proof -
  have keys: "take (dpf_depth lt n) (dk_cw k0) = cws" "take (dpf_depth lt n) (dk_cw k1) = cws"
    "dk_prgkey k0 = k" "dk_prgkey k1 = k"
    using inv by (simp_all add: dpf_inv_def k0 k1)
  have ev: "eval_nodes G lt k0 i = walk_end G k0 (input_bits n) i (dpf_depth lt n) (r0, get_lsb r0 1)"
    "eval_nodes G lt k1 i = walk_end G k1 (input_bits n) i (dpf_depth lt n) (r1, get_lsb r1 1)"
    by (simp_all add: eval_nodes_def walk_end_def k0 k1)
  show ?thesis
    unfolding same_node_iff [OF ok assms(3,2), symmetric] ev by (rule dpf_inv_walk [OF inv keys])
qed

lemma length_finalize_node [simp]: "length (finalize_node G lt k fin s t) = nodes_per_leaf lt"
  by (simp add: finalize_node_def Let_def)

lemma finalizer_opens:
  assumes "make_finalizer G lt k target val s0 s1 = Inr fin" "leaf_type val = lt"
  shows "map2 (XOR) (finalize_node G lt k fin s0 (of_bool p)) (finalize_node G lt k fin s1 (of_bool (\<not> p)))
    = leaf_blocks val (target mod elements_per_vector lt)" and "length fin = nodes_per_leaf lt"
proof -
  let ?n = "nodes_per_leaf lt" and ?b = "leaf_blocks val (target mod elements_per_vector lt)"
  have ok: "elements_per_vector lt \<noteq> 0" and
    fin: "fin = map (\<lambda>j. ?b ! j XOR (stretch_leaf G k s0 ?n ! j XOR stretch_leaf G k s1 ?n ! j)) [0..<?n]"
    using assms(1) by (auto simp: make_finalizer_def Let_def split: if_splits)
  then show len: "length fin = ?n" by simp
  have "?n = 1" using packing [OF ok] by metis
  then have "length ?b = ?n"
    using leaf_ty_ok [OF ok] assms(2) by (cases val) auto
  then show "map2 (XOR) (finalize_node G lt k fin s0 (of_bool p)) (finalize_node G lt k fin s1 (of_bool (\<not> p))) = ?b"
    unfolding finalize_node_xor(2) [OF len] by (auto simp: fin list_eq_iff_nth_eq)
qed

theorem dpf_correct:
  assumes "gen G lt k n target val r0 r1 = Inr (k0, k1)" "leaf_type val = lt" "i < n"
  shows "leaf_xor (eval_leaf G lt k0 i) (eval_leaf G lt k1 i) = (if i = target then val else set_zero val)"
proof -
  have t: "target < n"
    using assms(1) by (simp add: gen_def split: if_splits)
  obtain s0 p s1 cws where inv: "dpf_inv G k (input_bits n) target (r0, get_lsb r0 1)
       (set_lsb r1 (\<not> bit r0 0), get_lsb (set_lsb r1 (\<not> bit r0 0)) 1) (dpf_depth lt n) s0 p s1 cws"
    and g: "gen G lt k n target val r0 r1 = res_bind (make_finalizer G lt k target val s0 s1) (\<lambda>fin.
       Inr (\<lparr>dk_nitems = n, dk_root = r0, dk_cw = cws, dk_finalizer = fin, dk_prgkey = k\<rparr>,
            \<lparr>dk_nitems = n, dk_root = set_lsb r1 (\<not> bit r0 0), dk_cw = cws, dk_finalizer = fin,
             dk_prgkey = k\<rparr>))"
    by (rule gen_cases [OF t])
  from assms(1) obtain fin where fin: "make_finalizer G lt k target val s0 s1 = Inr fin"
    and k0: "k0 = \<lparr>dk_nitems = n, dk_root = r0, dk_cw = cws, dk_finalizer = fin, dk_prgkey = k\<rparr>"
    and k1: "k1 = \<lparr>dk_nitems = n, dk_root = set_lsb r1 (\<not> bit r0 0), dk_cw = cws, dk_finalizer = fin,
             dk_prgkey = k\<rparr>"
    unfolding g res_bind_Inr_iff by auto
  have ok: "elements_per_vector lt \<noteq> 0"
    using fin by (simp add: make_finalizer_def split: if_splits)
  note fo = finalizer_opens [OF fin assms(2)]
  note pair = eval_nodes_pair [OF nonempty_leaf [OF ok] t assms(3) inv k0 k1]
  let ?l = "leaves_per_node lt"
  have eq: "i = target \<longleftrightarrow> i div ?l = target div ?l \<and> i mod ?l = target mod ?l"
    by (metis div_mult_mod_eq)
  show ?thesis
  proof (cases "i div ?l = target div ?l")
    case True
    with pair show ?thesis
      by (simp add: eval_leaf_def k0 k1 leaf_of_nodes_xor [OF ok] fo(1) leaf_of_nodes_blocks [OF ok assms(2)] eq)
  next
    case False
    with pair obtain s q where "eval_nodes G lt k0 i = (s, of_bool q)" "eval_nodes G lt k1 i = (s, of_bool q)"
      by auto
    with False show ?thesis
      by (simp add: eval_leaf_def k0 k1 leaf_of_nodes_xor [OF ok] finalize_node_xor(1) [OF fo(2)]
          leaf_of_nodes_zero [OF ok assms(2)] eq)
  qed
qed

lemma gen_total:
  assumes "target < n" "elements_per_vector lt \<noteq> 0"
  shows "\<exists>k0 k1. gen G lt k n target val r0 r1 = Inr (k0, k1)"
  using assms by (simp add: gen_def Let_def split_def make_finalizer_def)

lemma length_gen_layers [simp]:
  "length (snd (snd (snd (snd (fold (gen_layer G k nbits target) ls st))))) = length (snd (snd (snd (snd st)))) + length ls"
  by (induction ls arbitrary: st) (auto simp: gen_layer_def Let_def split_def)

lemma gen_shape:
  assumes "gen G lt k n target val r0 r1 = Inr (k0, k1)"
  shows "elements_per_vector lt \<noteq> 0" "target < n" "0 < n" "dk_nitems k0 = n" "dk_nitems k1 = n"
    "dk_prgkey k0 = k" "dk_prgkey k1 = k" "length (dk_cw k0) = dpf_depth lt n" "length (dk_cw k1) = dpf_depth lt n"
  using assms by (auto simp: gen_def make_finalizer_def Let_def split_def split: if_splits)

end


end
