(* ===== verification/DpfEval.thy ===== *)
theory DpfEval
  imports DpfCorrect
begin

text \<open>
  \<^verbatim>\<open>finalize\<close> and \<^verbatim>\<open>__evalinterval\<close> of \<^verbatim>\<open>mpc/dpf.hpp\<close>: evaluation of a range of leaves, layer by layer and in
  place. The two layer buffers \<^verbatim>\<open>s[0]\<close>, \<^verbatim>\<open>s[1]\<close> overlap inside the output array, and the flags have the
  same layout in \<^verbatim>\<open>_t\<close>; both arrays are explicit here, indexed in nodes, and an access outside them is
  \<open>Undefined\<close>. The result is proved equal to point evaluation for the full range.
\<close>

section \<open>The code\<close>

type_synonym bufs = "m128 list \<times> u8 list"

definition oob :: "'a result" where
  "oob = Inl (Undefined ''access outside the output arrays'')"

text \<open>Positions of entry \<open>i\<close> of layer buffer \<open>b\<close>.\<close>

definition s_pos :: "nat \<Rightarrow> nat \<Rightarrow> nat \<Rightarrow> nat \<Rightarrow> nat" where
  "s_pos n npl b i = n * (npl - 1) + (if b = 0 then 0 else n div 2) + i"

definition t_pos :: "nat \<Rightarrow> nat \<Rightarrow> nat \<Rightarrow> nat" where
  "t_pos n b i = (if b = 0 then 0 else n div 2) + i"

definition load :: "nat \<Rightarrow> nat \<Rightarrow> nat \<Rightarrow> nat \<Rightarrow> bufs \<Rightarrow> (m128 \<times> u8) result" where
  "load n npl b i st =
     (let p = s_pos n npl b i; q = t_pos n b i
      in if p < length (fst st) \<and> q < length (snd st) then Inr (fst st ! p, snd st ! q) else oob)"

definition store :: "nat \<Rightarrow> nat \<Rightarrow> nat \<Rightarrow> nat \<Rightarrow> m128 \<times> u8 \<Rightarrow> bufs \<Rightarrow> bufs result" where
  "store n npl b i v st =
     (let p = s_pos n npl b i; q = t_pos n b i
      in if p < length (fst st) \<and> q < length (snd st)
         then Inr ((fst st)[p := fst v], (snd st)[q := snd v]) else oob)"

text \<open>
  The calls of \<^verbatim>\<open>traverse2\<close> and \<^verbatim>\<open>traverse_\<close>: the parent is read before a child is written, also when they
  share a location.
\<close>

definition visit2 :: "'k prg \<Rightarrow> 'k \<Rightarrow> m128 \<Rightarrow> nat \<Rightarrow> nat \<Rightarrow> nat \<Rightarrow> nat \<Rightarrow> nat \<Rightarrow> bufs \<Rightarrow> bufs result" where
  "visit2 G prgkey cw n npl cur j i st =
     res_bind (load n npl (1 - cur) j st) (\<lambda>(S, T).
       let (l, r) = traverse2 G prgkey S (get_lsb cw 1, get_lsb cw 2) cw T
       in res_bind (store n npl cur i l st) (store n npl cur (i + 1) r))"

definition visit1 :: "'k prg \<Rightarrow> 'k \<Rightarrow> m128 \<Rightarrow> nat \<Rightarrow> nat \<Rightarrow> nat \<Rightarrow> nat \<Rightarrow> nat \<Rightarrow> nat \<Rightarrow> bufs \<Rightarrow> bufs result" where
  "visit1 G prgkey cw n npl cur direction j i st =
     res_bind (load n npl (1 - cur) j st) (\<lambda>(S, T).
       store n npl cur i
         (traverse1 G prgkey S direction (get_lsb cw (if direction \<noteq> 0 then 2 else 1)) cw T) st)"

text \<open>The loop \<^verbatim>\<open>for (i = nextbit, j = nextbit; j < nodes_in_prev_layer-1; ++j, i+=2)\<close>, by the iterations left.\<close>

fun visit_loop :: "'k prg \<Rightarrow> 'k \<Rightarrow> m128 \<Rightarrow> nat \<Rightarrow> nat \<Rightarrow> nat \<Rightarrow> nat \<Rightarrow> nat \<Rightarrow> nat \<Rightarrow> bufs \<Rightarrow> bufs result" where
  "visit_loop G prgkey cw n npl cur 0 j i st = Inr st"
| "visit_loop G prgkey cw n npl cur (Suc k) j i st =
     res_bind (visit2 G prgkey cw n npl cur j i st) (visit_loop G prgkey cw n npl cur k (j + 1) (i + 2))"

definition interval_layer :: "'k prg \<Rightarrow> 'k dpf_key \<Rightarrow> nat \<Rightarrow> nat \<Rightarrow> nat \<Rightarrow> nat \<Rightarrow> nat \<Rightarrow> nat \<Rightarrow> nat \<Rightarrow> bufs \<Rightarrow> bufs result" where
  "interval_layer G key n npl nbits depth from_node layer cur st =
     (if length (dk_cw key) \<le> layer then cw_oob else
      let cw = dk_cw key ! layer;
          prgkey = dk_prgkey key;
          nextbit = path_bit nbits layer from_node;
          prev = ceil_div n (2 ^ (depth - layer));
          now = ceil_div n (2 ^ (depth - layer - 1));
          k = (prev - 1) - nextbit;
          j = nextbit + k;
          i = nextbit + 2 * k
      in res_bind (if nextbit = 1 then visit1 G prgkey cw n npl cur 1 0 0 st else Inr st) (\<lambda>st.
         res_bind (visit_loop G prgkey cw n npl cur k nextbit nextbit st) (\<lambda>st.
         if prev > j then
           (if i < now - 1 then visit2 G prgkey cw n npl cur j i st
            else visit1 G prgkey cw n npl cur 0 j i st)
         else Inr st)))"

fun interval_layers :: "'k prg \<Rightarrow> 'k dpf_key \<Rightarrow> nat \<Rightarrow> nat \<Rightarrow> nat \<Rightarrow> nat \<Rightarrow> nat \<Rightarrow> nat \<Rightarrow> nat \<Rightarrow> nat \<Rightarrow> bufs \<Rightarrow> bufs result" where
  "interval_layers G key n npl nbits depth from_node 0 layer cur st = Inr st"
| "interval_layers G key n npl nbits depth from_node (Suc left) layer cur st =
     res_bind (interval_layer G key n npl nbits depth from_node layer (1 - cur) st)
       (interval_layers G key n npl nbits depth from_node left (layer + 1) (1 - cur))"

text \<open>\<^verbatim>\<open>finalize\<close> over \<open>nnodes\<close> nodes; block \<open>j\<close> of leaf \<open>i\<close> is at \<open>i * npl + j\<close>.\<close>

fun finalize :: "'k prg \<Rightarrow> leaf_ty \<Rightarrow> 'k \<Rightarrow> m128 list \<Rightarrow> nat \<Rightarrow> nat \<Rightarrow> nat \<Rightarrow> bufs \<Rightarrow> bufs result" where
  "finalize G lt prgkey finalizer n 0 i st = Inr st"
| "finalize G lt prgkey finalizer n (Suc left) i st =
     res_bind (load n (nodes_per_leaf lt) 0 i st) (\<lambda>(S, T).
       let npl = nodes_per_leaf lt; blocks = finalize_node G lt prgkey finalizer S T
       in if (i + 1) * npl \<le> length (fst st)
          then finalize G lt prgkey finalizer n left (i + 1) (memcpy_at (fst st) (i * npl) blocks, snd st)
          else oob)"

text \<open>
  For an empty interval the loop bound \<^verbatim>\<open>nodes_in_prev_layer-1\<close> wraps around and the loop leaves the arrays.
\<close>

definition evalinterval :: "'k prg \<Rightarrow> leaf_ty \<Rightarrow> 'k dpf_key \<Rightarrow> nat \<Rightarrow> nat \<Rightarrow> bufs \<Rightarrow> bufs result" where
  "evalinterval G lt key from to st =
     (let npl = nodes_per_leaf lt;
          depth = dpf_depth lt (dk_nitems key);
          nbits = input_bits (dk_nitems key);
          n = nodes_in_interval lt from to;
          from_node = from div npl;
          cur = depth mod 2
      in res_bind (store n npl cur 0 (dk_root key, get_lsb (dk_root key) 1) st) (\<lambda>st.
         if n = 0 \<and> 0 < depth then oob else
         res_bind (interval_layers G key n npl nbits depth from_node depth 0 cur st) (\<lambda>st.
         finalize G lt (dk_prgkey key) (dk_finalizer key) n n 0 st)))"


section \<open>Nodes of the tree\<close>

text \<open>The state at node \<open>i\<close> of layer \<open>l\<close>, reached from the root along the bits of \<open>i\<close>.\<close>

fun node_at :: "'k prg \<Rightarrow> 'k dpf_key \<Rightarrow> nat \<Rightarrow> nat \<Rightarrow> m128 \<times> u8" where
  "node_at G key 0 i = (dk_root key, get_lsb (dk_root key) 1)"
| "node_at G key (Suc l) i =
     (let (S, T) = node_at G key l (i div 2); cw = dk_cw key ! l; d = i mod 2
      in traverse1 G (dk_prgkey key) S d (get_lsb cw (if d \<noteq> 0 then 2 else 1)) cw T)"

lemma walk_node_at:
  assumes "m \<le> nbits" "x < 2 ^ nbits"
  shows "fold (eval_layer G key nbits x) [0..<m] (dk_root key, get_lsb (dk_root key) 1)
    = node_at G key m (x div 2 ^ (nbits - m))"
  using assms(1)
proof (induction m)
  case 0
  show ?case by simp
next
  case (Suc m)
  then have e: "nbits - m = Suc (nbits - Suc m)" by simp
  have "x div 2 ^ (nbits - Suc m) div 2 = x div 2 ^ (nbits - m)"
    unfolding e power_Suc2 div_mult2_eq ..
  with Suc show ?case
    by (simp add: eval_layer_def path_bit_def Let_def split: prod.splits)
qed

lemma eval_nodes_node_at:
  assumes "lt \<noteq> T_arr 0" "x < dk_nitems key"
  shows "eval_nodes G lt key x = node_at G key (dpf_depth lt (dk_nitems key)) (x div leaves_per_node lt)"
proof -
  obtain k where k: "leaves_per_node lt = 2 ^ k" by (rule leaves_per_node_power [OF assms(1)])
  let ?N = "dk_nitems key"
  have x: "x < 2 ^ input_bits ?N"
    using assms(2) le_two_power_ceillog2 [of ?N] by (simp add: input_bits_def)
  have d: "dpf_depth lt ?N = input_bits ?N - k"
    using assms(2) by (simp add: dpf_depth_def input_bits_def k ceillog2_ceil_div)
  have "x div 2 ^ (input_bits ?N - dpf_depth lt ?N) = x div 2 ^ k
    \<or> dpf_depth lt ?N = 0" by (auto simp: d)
  then show ?thesis
    unfolding eval_nodes_def k using walk_node_at [OF _ x, of "dpf_depth lt ?N" G key] d by auto
qed


section \<open>Views of the arrays\<close>

definition view :: "bufs \<Rightarrow> nat \<Rightarrow> m128 \<times> u8" where
  "view st p = (fst st ! p, snd st ! p)"

definition shape :: "bufs \<Rightarrow> nat \<times> nat" where
  "shape st = (length (fst st), length (snd st))"

definition fits :: "nat \<Rightarrow> bufs \<Rightarrow> bool" where
  "fits n st \<longleftrightarrow> n \<le> length (fst st) \<and> n \<le> length (snd st)"

lemma s_pos_1 [simp]: "s_pos n 1 b i = t_pos n b i" "s_pos n (Suc 0) b i = t_pos n b i"
  by (simp_all add: s_pos_def t_pos_def)

lemma load_view:
  assumes "fits n st" "t_pos n b i < n"
  shows "load n 1 b i st = Inr (view st (t_pos n b i))"
  using assms by (auto simp: load_def fits_def view_def Let_def)

lemma store_view:
  assumes "fits n st" "t_pos n b i < n"
  obtains st' where "store n 1 b i v st = Inr st'" "fits n st'" "shape st' = shape st"
    "view st' = (view st)(t_pos n b i := v)"
  using assms by (auto simp: store_def fits_def view_def Let_def shape_def fun_eq_iff nth_list_update)

context block_prg
begin

lemma traverse2_traverse1:
  "traverse2 G k S (a, b) cw T = (traverse1 G k S 0 a cw T, traverse1 G k S 1 b cw T)"
  by (simp add: traverse2_def traverse1_def G_two Let_def)

lemma visit2_view:
  assumes fit: "fits n st" and pos: "t_pos n (1 - cur) j < n" "t_pos n cur (2 * j) < n" "t_pos n cur (2 * j + 1) < n"
    and v: "view st (t_pos n (1 - cur) j) = node_at G key l j"
  obtains st' where "visit2 G (dk_prgkey key) (dk_cw key ! l) n 1 cur j (2 * j) st = Inr st'"
    "fits n st'" "shape st' = shape st"
    "view st' = (view st)(t_pos n cur (2 * j) := node_at G key (Suc l) (2 * j),
        t_pos n cur (2 * j + 1) := node_at G key (Suc l) (2 * j + 1))"
proof -
  obtain S T where ST: "node_at G key l j = (S, T)" by fastforce
  from store_view [OF fit pos(2), of "node_at G key (Suc l) (2 * j)"] obtain s1 where
    s1: "store n 1 cur (2 * j) (node_at G key (Suc l) (2 * j)) st = Inr s1" "fits n s1" "shape s1 = shape st"
      "view s1 = (view st)(t_pos n cur (2 * j) := node_at G key (Suc l) (2 * j))" by blast
  from store_view [OF s1(2) pos(3), of "node_at G key (Suc l) (2 * j + 1)"] obtain s2 where
    s2: "store n 1 cur (2 * j + 1) (node_at G key (Suc l) (2 * j + 1)) s1 = Inr s2" "fits n s2" "shape s2 = shape s1"
      "view s2 = (view s1)(t_pos n cur (2 * j + 1) := node_at G key (Suc l) (2 * j + 1))" by blast
  have n: "node_at G key (Suc l) (2 * j) = traverse1 G (dk_prgkey key) S 0 (get_lsb (dk_cw key ! l) 1) (dk_cw key ! l) T"
    "node_at G key (Suc l) (2 * j + 1) = traverse1 G (dk_prgkey key) S 1 (get_lsb (dk_cw key ! l) 2) (dk_cw key ! l) T"
    by (simp_all add: ST Let_def)
  have "visit2 G (dk_prgkey key) (dk_cw key ! l) n 1 cur j (2 * j) st = Inr s2"
    unfolding visit2_def load_view [OF fit pos(1)] v ST res_bind_simps case_prod_conv traverse2_traverse1 Let_def
    using s1(1) s2(1) by (simp only: n res_bind_simps)
  with s1 s2 show thesis by (intro that [of s2]) simp_all
qed

end

text \<open>
  One layer, for any placement of the two buffers in which a write never hits a parent that is still
  to be read (\<open>sep\<close>).
\<close>

definition placed :: "nat \<Rightarrow> nat \<Rightarrow> nat \<Rightarrow> nat \<Rightarrow> bool" where
  "placed n cur prev now \<longleftrightarrow>
     (\<forall>j<prev. t_pos n (1 - cur) j < n) \<and> (\<forall>i<now. t_pos n cur i < n) \<and>
     (\<forall>j j' i. j < j' \<longrightarrow> j' < prev \<longrightarrow> i \<le> 2 * j + 1 \<longrightarrow> t_pos n cur i \<noteq> t_pos n (1 - cur) j')"

lemma placed_sep:
  "placed n cur prev now \<Longrightarrow> j < j' \<Longrightarrow> j' < prev \<Longrightarrow> i \<le> 2 * j + 1 \<Longrightarrow> t_pos n cur i \<noteq> t_pos n (1 - cur) j'"
  by (simp add: placed_def)

definition layer_inv :: "'k prg \<Rightarrow> 'k dpf_key \<Rightarrow> nat \<Rightarrow> nat \<Rightarrow> nat \<Rightarrow> nat \<Rightarrow> nat \<Rightarrow> bufs \<Rightarrow> bool" where
  "layer_inv G key n cur prev l j st \<longleftrightarrow> fits n st \<and>
     (\<forall>i<2 * j. view st (t_pos n cur i) = node_at G key (Suc l) i) \<and>
     (\<forall>i. j \<le> i \<longrightarrow> i < prev \<longrightarrow> view st (t_pos n (1 - cur) i) = node_at G key l i)"

definition frame :: "nat \<Rightarrow> bufs \<Rightarrow> bufs \<Rightarrow> bool" where
  "frame n st st' \<longleftrightarrow> shape st' = shape st \<and> (\<forall>p\<ge>n. view st' p = view st p)"

lemma t_pos_inj: "t_pos n b i = t_pos n b j \<longleftrightarrow> i = j"
  by (simp add: t_pos_def)

lemma frame_trans: "frame n a b \<Longrightarrow> frame n b c \<Longrightarrow> frame n a c"
  by (simp add: frame_def)

lemma frame_refl [simp]: "frame n a a"
  by (simp add: frame_def)

context block_prg
begin

lemma visit2_inv:
  assumes inv: "layer_inv G key n cur prev l j st" and pl: "placed n cur prev now"
    and j: "j < prev" "2 * j + 1 < now"
  obtains st' where "visit2 G (dk_prgkey key) (dk_cw key ! l) n 1 cur j (2 * j) st = Inr st'"
    "layer_inv G key n cur prev l (j + 1) st'" "frame n st st'"
proof -
  have pos: "t_pos n (1 - cur) j < n" "t_pos n cur (2 * j) < n" "t_pos n cur (2 * j + 1) < n"
    using pl j by (simp_all add: placed_def)
  have fit: "fits n st" and v: "view st (t_pos n (1 - cur) j) = node_at G key l j"
    using inv j by (simp_all add: layer_inv_def)
  obtain st' where st': "visit2 G (dk_prgkey key) (dk_cw key ! l) n 1 cur j (2 * j) st = Inr st'"
    "fits n st'" "shape st' = shape st"
    "view st' = (view st)(t_pos n cur (2 * j) := node_at G key (Suc l) (2 * j),
        t_pos n cur (2 * j + 1) := node_at G key (Suc l) (2 * j + 1))"
    by (rule visit2_view [OF fit pos v])
  have "view st' (t_pos n cur i) = node_at G key (Suc l) i" if "i < 2 * (j + 1)" for i
    using that inv by (cases "i < 2 * j")
      (auto simp: st'(4) t_pos_inj layer_inv_def less_Suc_eq simp del: node_at.simps)
  moreover have "view st' (t_pos n (1 - cur) i) = node_at G key l i" if "j + 1 \<le> i" "i < prev" for i
  proof -
    have "t_pos n cur (2 * j) \<noteq> t_pos n (1 - cur) i" "t_pos n cur (2 * j + 1) \<noteq> t_pos n (1 - cur) i"
      using placed_sep [OF pl, of j i] that by simp_all
    then show ?thesis using inv that by (simp add: st'(4) layer_inv_def)
  qed
  ultimately have "layer_inv G key n cur prev l (j + 1) st'"
    using st'(2) by (simp add: layer_inv_def)
  moreover have "frame n st st'"
    using pos st'(3,4) by (auto simp: frame_def)
  ultimately show thesis using st'(1) that by blast
qed

lemma visit_loop_inv:
  assumes "layer_inv G key n cur prev l j st" "placed n cur prev now" "j + k \<le> prev" "2 * (j + k) \<le> now"
  obtains st' where "visit_loop G (dk_prgkey key) (dk_cw key ! l) n 1 cur k j (2 * j) st = Inr st'"
    "layer_inv G key n cur prev l (j + k) st'" "frame n st st'"
  using assms
proof (induction k arbitrary: j st thesis)
  case 0
  then show ?case by simp
next
  case (Suc k)
  obtain s1 where s1: "visit2 G (dk_prgkey key) (dk_cw key ! l) n 1 cur j (2 * j) st = Inr s1"
    "layer_inv G key n cur prev l (j + 1) s1" "frame n st s1"
    by (rule visit2_inv [OF Suc.prems(2,3)]) (use Suc.prems in auto)
  obtain s2 where s2: "visit_loop G (dk_prgkey key) (dk_cw key ! l) n 1 cur k (j + 1) (2 * (j + 1)) s1 = Inr s2"
    "layer_inv G key n cur prev l (j + 1 + k) s2" "frame n s1 s2"
    by (rule Suc.IH [OF _ s1(2) Suc.prems(3)]) (use Suc.prems in auto)
  show ?case
    using Suc.prems(1) [of s2] s1 s2 frame_trans by (simp add: numeral_2_eq_2) 
qed

lemma visit1_inv:
  assumes inv: "layer_inv G key n cur prev l j st" and pl: "placed n cur prev now"
    and j: "j < prev" "2 * j < now"
  obtains st' where "visit1 G (dk_prgkey key) (dk_cw key ! l) n 1 cur 0 j (2 * j) st = Inr st'"
    "fits n st'" "\<And>i. i < 2 * j + 1 \<Longrightarrow> view st' (t_pos n cur i) = node_at G key (Suc l) i" "frame n st st'"
proof -
  have pos: "t_pos n (1 - cur) j < n" "t_pos n cur (2 * j) < n"
    using pl j by (simp_all add: placed_def)
  have fit: "fits n st" and v: "view st (t_pos n (1 - cur) j) = node_at G key l j"
    using inv j by (simp_all add: layer_inv_def)
  obtain S T where ST: "node_at G key l j = (S, T)" by fastforce
  obtain s1 where s1: "store n 1 cur (2 * j) (node_at G key (Suc l) (2 * j)) st = Inr s1" "fits n s1"
    "shape s1 = shape st" "view s1 = (view st)(t_pos n cur (2 * j) := node_at G key (Suc l) (2 * j))"
    by (rule store_view [OF fit pos(2), of "node_at G key (Suc l) (2 * j)"])
  have n: "node_at G key (Suc l) (2 * j) = traverse1 G (dk_prgkey key) S 0 (get_lsb (dk_cw key ! l) 1) (dk_cw key ! l) T"
    by (simp add: ST Let_def)
  show thesis
  proof (rule that)
    show "visit1 G (dk_prgkey key) (dk_cw key ! l) n 1 cur 0 j (2 * j) st = Inr s1"
      unfolding visit1_def load_view [OF fit pos(1)] v ST res_bind_simps case_prod_conv
      using s1(1) by (simp only: n) simp
    show "view s1 (t_pos n cur i) = node_at G key (Suc l) i" if "i < 2 * j + 1" for i
      using that inv by (auto simp: s1(4) t_pos_inj layer_inv_def less_Suc_eq simp del: node_at.simps)
    show "frame n st s1" using pos s1(3,4) by (auto simp: frame_def)
  qed (fact s1(2))
qed

lemma interval_layer_inv:
  assumes inv: "layer_inv G key n cur prev l 0 st" and pl: "placed n cur prev now"
    and prev: "prev = ceil_div n (2 ^ (depth - l))" and now: "now = ceil_div n (2 ^ (depth - l - 1))"
    and half: "0 < prev" "now = 2 * prev \<or> now = 2 * prev - 1" and nb: "path_bit nbits l from_node = 0" and cw: "l < length (dk_cw key)"
  obtains st' where "interval_layer G key n 1 nbits depth from_node l cur st = Inr st'"
    "fits n st'" "\<And>i. i < now \<Longrightarrow> view st' (t_pos n cur i) = node_at G key (Suc l) i" "frame n st st'"
proof -
  obtain j where j: "prev = Suc j" using half(1) by (cases prev) auto
  obtain s1 where s1: "visit_loop G (dk_prgkey key) (dk_cw key ! l) n 1 cur j 0 (2 * 0) st = Inr s1"
    "layer_inv G key n cur prev l (0 + j) s1" "frame n st s1"
    by (rule visit_loop_inv [OF inv pl, of j]) (use j half in auto)
  have code: "interval_layer G key n 1 nbits depth from_node l cur st =
     (if 2 * j < now - 1 then visit2 G (dk_prgkey key) (dk_cw key ! l) n 1 cur j (2 * j) s1
      else visit1 G (dk_prgkey key) (dk_cw key ! l) n 1 cur 0 j (2 * j) s1)"
    unfolding interval_layer_def nb prev [symmetric] now [symmetric] Let_def using s1(1) j cw by simp
  show thesis
  proof (cases "now = 2 * prev")
    case True
    obtain s2 where s2: "visit2 G (dk_prgkey key) (dk_cw key ! l) n 1 cur j (2 * j) s1 = Inr s2"
      "layer_inv G key n cur prev l (j + 1) s2" "frame n s1 s2"
      by (rule visit2_inv [OF s1(2) [unfolded add_0] pl]) (use True j in auto)
    show thesis
      by (rule that [of s2])
        (use s2 s1(3) True j code in \<open>auto simp: layer_inv_def intro: frame_trans simp del: node_at.simps\<close>)
  next
    case False
    with half(2) have now': "now = 2 * j + 1" using j by auto
    obtain s2 where s2: "visit1 G (dk_prgkey key) (dk_cw key ! l) n 1 cur 0 j (2 * j) s1 = Inr s2"
      "fits n s2" "\<And>i. i < 2 * j + 1 \<Longrightarrow> view s2 (t_pos n cur i) = node_at G key (Suc l) i" "frame n s1 s2"
      by (rule visit1_inv [OF s1(2) [unfolded add_0] pl]) (use now' j in auto)
    show thesis
      by (rule that [of s2]) (use s2 s1(3) now' code frame_trans in \<open>auto simp del: node_at.simps\<close>)
  qed
qed

end

section \<open>Layers\<close>

lemma ceil_div_anti: "0 < b \<Longrightarrow> b \<le> b' \<Longrightarrow> ceil_div n b' \<le> ceil_div n b"
proof -
  assume b: "0 < b" "b \<le> b'"
  have "n \<le> ceil_div n b * b" using ceil_div_le_iff [OF b(1), of n "ceil_div n b"] by simp
  also have "\<dots> \<le> ceil_div n b * b'" using b(2) by simp
  finally show ?thesis using b by (subst ceil_div_le_iff) auto
qed

lemma ceil_div_double:
  assumes "0 < b"
  shows "ceil_div n b = 2 * ceil_div n (2 * b) \<or> ceil_div n b = 2 * ceil_div n (2 * b) - 1"
proof -
  let ?m = "ceil_div n (2 * b)" and ?m' = "ceil_div n b"
  have b2: "0 < 2 * b" using assms by simp
  have "n \<le> ?m * (2 * b)" using ceil_div_le_iff [OF b2, of n ?m] by simp
  then have up: "?m' \<le> 2 * ?m" using ceil_div_le_iff [OF assms, of n "2 * ?m"] by (simp add: algebra_simps)
  have "n \<le> ?m' * b" using ceil_div_le_iff [OF assms, of n ?m'] by simp
  also have "\<dots> \<le> ((?m' + 1) div 2 * 2) * b" by (intro mult_le_mono1) simp
  finally have "?m \<le> (?m' + 1) div 2" using ceil_div_le_iff [OF b2, of n "(?m' + 1) div 2"] by (simp add: algebra_simps)
  with up show ?thesis by linarith
qed

lemma placed_layers:
  assumes "cur = k mod 2"
  shows "placed n cur (ceil_div n (2 ^ Suc k)) (ceil_div n (2 ^ k))"
proof -
  have c1: "ceil_div n 1 = n" "ceil_div n (Suc 0) = n" and c2: "ceil_div n 2 = (n + 1) div 2" and c4: "ceil_div n 4 = (n + 3) div 4"
    by (simp_all add: ceil_div_def)
  have p1: "ceil_div n (2 ^ k) \<le> n" "ceil_div n (2 ^ Suc k) \<le> (n + 1) div 2"
    using ceil_div_anti [of 1 "2 ^ k" n] ceil_div_anti [of 2 "2 ^ Suc k" n] by (simp_all add: c1 c2)
  show ?thesis
  proof (cases "cur = 0")
    case True
    with p1 show ?thesis by (auto simp: placed_def t_pos_def)
  next
    case False
    then have cur: "cur = 1" and "0 < k" using assms by (auto simp: mod2_eq_if split: if_splits intro: Nat.gr0I)
    then obtain k' where "k = Suc k'" by (cases k) auto
    then have "ceil_div n (2 ^ k) \<le> (n + 1) div 2" "ceil_div n (2 ^ Suc k) \<le> (n + 3) div 4"
      using ceil_div_anti [of 2 "2 ^ k" n] ceil_div_anti [of 4 "2 ^ Suc k" n] by (simp_all add: c2 c4)
    with p1 cur show ?thesis by (auto simp: placed_def t_pos_def)
  qed
qed

context block_prg
begin

lemma interval_layers_inv:
  assumes "depth \<le> length (dk_cw key)" "left = depth - l" "l \<le> depth" "0 < n" "cur = (depth - l) mod 2" "fits n st"
    "\<And>i. i < ceil_div n (2 ^ (depth - l)) \<Longrightarrow> view st (t_pos n cur i) = node_at G key l i"
  obtains st' where "interval_layers G key n 1 nbits depth 0 left l cur st = Inr st'"
    "fits n st'" "\<And>i. i < n \<Longrightarrow> view st' i = node_at G key depth i" "frame n st st'"
  using assms
proof (induction left arbitrary: l cur st thesis)
  case 0
  then have "l = depth" "cur = 0" by simp_all
  with 0 show ?case by (simp add: t_pos_def ceil_div_def)
next
  case (Suc left)
  define k where "k = depth - l - 1"
  have k: "depth - l = Suc k" "left = depth - Suc l" "Suc l \<le> depth" "left = k" using Suc.prems by (auto simp: k_def)
  have cur': "1 - cur = k mod 2" and cc: "1 - (1 - cur) = cur"
    using Suc.prems(6) by (auto simp: k(1) mod_Suc)
  have pos: "0 < ceil_div n (2 ^ Suc k)" using Suc.prems(5) by (simp add: ceil_div_pos)
  have inv: "layer_inv G key n (1 - cur) (ceil_div n (2 ^ Suc k)) l 0 st"
    using Suc.prems(7,8) unfolding layer_inv_def cc k(1) by simp
  have c: "ceil_div n (2 ^ Suc k) = ceil_div n (2 ^ (depth - l))" "ceil_div n (2 ^ k) = ceil_div n (2 ^ (depth - l - 1))"
    unfolding k(1) by simp_all
  have half: "ceil_div n (2 ^ k) = 2 * ceil_div n (2 ^ Suc k) \<or> ceil_div n (2 ^ k) = 2 * ceil_div n (2 ^ Suc k) - 1"
    unfolding power_Suc by (rule ceil_div_double) simp
  have nb: "path_bit nbits l 0 = 0" by (simp add: path_bit_def)
  obtain s1 where s1: "interval_layer G key n 1 nbits depth 0 l (1 - cur) st = Inr s1" "fits n s1"
    "\<And>i. i < ceil_div n (2 ^ k) \<Longrightarrow> view s1 (t_pos n (1 - cur) i) = node_at G key (Suc l) i" "frame n st s1"
    by (rule interval_layer_inv [OF inv placed_layers [OF cur'] c pos half nb]) (use Suc.prems(2,3,4) k(1) in auto)
  have pre: "\<And>i. i < ceil_div n (2 ^ (depth - Suc l)) \<Longrightarrow> view s1 (t_pos n (1 - cur) i) = node_at G key (Suc l) i"
    using s1(3) k(2,4) by simp
  obtain s2 where s2: "interval_layers G key n 1 nbits depth 0 left (Suc l) (1 - cur) s1 = Inr s2"
    "fits n s2" "\<And>i. i < n \<Longrightarrow> view s2 i = node_at G key depth i" "frame n s1 s2"
    by (rule Suc.IH [OF _ Suc.prems(2) k(2,3) Suc.prems(5) _ s1(2) pre]) (use cur' k(2,4) in auto)
  show ?case
    by (rule Suc.prems(1) [of s2]) (use s1 s2 frame_trans in auto)
qed

lemma finalize_inv:
  assumes npl: "nodes_per_leaf lt = 1" and "fits n st" "i + left \<le> n"
  shows "\<exists>out. finalize G lt k fin n left i st = Inr (out, snd st) \<and> length out = length (fst st) \<and>
    (\<forall>p. out ! p = (if i \<le> p \<and> p < i + left then finalize_node G lt k fin (fst st ! p) (snd st ! p) ! 0 else fst st ! p))"
  using assms(2,3)
proof (induction left arbitrary: i st)
  case 0
  then show ?case by (cases st) auto
next
  case (Suc left)
  obtain o1 t where st: "st = (o1, t)" by (cases st)
  have fit: "n \<le> length o1" "n \<le> length t" and i: "i < n" using Suc.prems by (auto simp: fits_def st)
  obtain b where b: "finalize_node G lt k fin (o1 ! i) (t ! i) = [b]"
    using npl by (simp add: finalize_node_def Let_def)
  have mc: "memcpy_at o1 i [b] = o1[i := b]"
    using fit i by (simp add: memcpy_at_def upd_conv_take_nth_drop)
  from Suc.IH [of "(o1[i := b], t)" "i + 1"] Suc.prems obtain out where
    out: "finalize G lt k fin n left (i + 1) (o1[i := b], t) = Inr (out, t)" "length out = length o1"
    "\<And>p. out ! p = (if i + 1 \<le> p \<and> p < i + 1 + left then finalize_node G lt k fin (o1[i := b] ! p) (t ! p) ! 0 else o1[i := b] ! p)"
    by (auto simp: fits_def st)
  have "finalize G lt k fin n (Suc left) i st = Inr (out, t)"
    using fit i out(1) by (simp add: st npl load_def t_pos_def b mc)
  moreover have "out ! p = (if i \<le> p \<and> p < i + Suc left then finalize_node G lt k fin (o1 ! p) (t ! p) ! 0 else o1 ! p)" for p
    using fit i by (cases "p = i") (auto simp: out(3) b)
  ultimately show ?case using out(2) by (auto simp: st)
qed

text \<open>The root and the layers below it, in a buffer of \<open>n\<close> nodes.\<close>

lemma interval_tree:
  assumes n0: "0 < n" and d: "d = ceillog2 n" and fit: "fits n st" and cw: "d \<le> length (dk_cw key)"
  obtains s1 s2 where "store n 1 (d mod 2) 0 (dk_root key, get_lsb (dk_root key) 1) st = Inr s1"
    "interval_layers G key n 1 nbits d 0 d 0 (d mod 2) s1 = Inr s2" "fits n s2"
    "\<And>i. i < n \<Longrightarrow> view s2 i = node_at G key d i" "shape s2 = shape st" "\<And>i. n \<le> i \<Longrightarrow> view s2 i = view st i"
proof -
  have "n \<le> 2 ^ d" using n0 by (simp add: d le_two_power_ceillog2)
  then have one: "ceil_div n (2 ^ d) = 1"
    using n0 ceil_div_le_iff [of "2 ^ d" n 1] ceil_div_pos [of "2 ^ d" n] by simp
  have p: "t_pos n (d mod 2) 0 < n"
  proof (cases "d mod 2 = 0")
    case False
    then have "n \<noteq> 1" using d by auto
    with n0 show ?thesis by (simp add: t_pos_def)
  qed (simp add: t_pos_def n0)
  obtain s1 where s1: "store n 1 (d mod 2) 0 (dk_root key, get_lsb (dk_root key) 1) st = Inr s1" "fits n s1"
    "shape s1 = shape st" "view s1 = (view st)(t_pos n (d mod 2) 0 := (dk_root key, get_lsb (dk_root key) 1))"
    by (rule store_view [OF fit p])
  obtain s2 where s2: "interval_layers G key n 1 nbits d 0 d 0 (d mod 2) s1 = Inr s2"
    "fits n s2" "\<And>i. i < n \<Longrightarrow> view s2 i = node_at G key d i" "frame n s1 s2"
    by (rule interval_layers_inv [of d key d 0 n "d mod 2" s1]) (use n0 s1 one cw in auto)
  show thesis
    by (rule that [OF s1(1) s2(1-3)]) (use s2(4) s1(3,4) p in \<open>auto simp: frame_def\<close>)
qed

theorem evalinterval_full:
  assumes ok: "elements_per_vector lt \<noteq> 0" and N: "0 < dk_nitems key" "n = ceil_div (dk_nitems key) (leaves_per_node lt)"
    and fit: "fits n st" and cw: "dpf_depth lt (dk_nitems key) \<le> length (dk_cw key)"
  shows "\<exists>out t. evalinterval G lt key 0 (dk_nitems key - 1) st = Inr (out, t)
    \<and> length out = length (fst st) \<and> length t = length (snd st)
    \<and> (\<forall>i<n. let (S, T) = node_at G key (dpf_depth lt (dk_nitems key)) i
          in out ! i = finalize_node G lt (dk_prgkey key) (dk_finalizer key) S T ! 0 \<and> t ! i = T)
    \<and> (\<forall>i\<ge>n. out ! i = fst st ! i \<and> t ! i = snd st ! i)"
proof -
  obtain lk where lk: "leaves_per_node lt = 2 ^ lk" and npl: "nodes_per_leaf lt = 1" using packing [OF ok] by metis
  have n0: "0 < n" using N by (simp add: lk ceil_div_pos)
  have nodes: "nodes_in_interval lt 0 (dk_nitems key - 1) = n"
    using N n0 by (simp add: nodes_in_interval_def)
  define d where "d = dpf_depth lt (dk_nitems key)"
  have d: "d = ceillog2 n" by (simp add: d_def dpf_depth_def N(2))
  obtain s1 s2 where s1: "store n 1 (d mod 2) 0 (dk_root key, get_lsb (dk_root key) 1) st = Inr s1"
    and s2: "interval_layers G key n 1 (input_bits (dk_nitems key)) d 0 d 0 (d mod 2) s1 = Inr s2"
      "fits n s2" "\<And>i. i < n \<Longrightarrow> view s2 i = node_at G key d i"
    and rest: "shape s2 = shape st" "\<And>i. i \<ge> n \<Longrightarrow> view s2 i = view st i"
    by (rule interval_tree [OF n0 d fit, of key "input_bits (dk_nitems key)"]) (use cw d_def in auto)
  obtain out where out: "finalize G lt (dk_prgkey key) (dk_finalizer key) n n 0 s2 = Inr (out, snd s2)"
    "length out = length (fst s2)"
    "\<And>q. out ! q = (if q < n then finalize_node G lt (dk_prgkey key) (dk_finalizer key) (fst s2 ! q) (snd s2 ! q) ! 0 else fst s2 ! q)"
    using finalize_inv [OF npl s2(2), of 0 n "dk_prgkey key" "dk_finalizer key"] by auto
  have "evalinterval G lt key 0 (dk_nitems key - 1) st = Inr (out, snd s2)"
    unfolding evalinterval_def npl nodes Let_def d_def [symmetric] using s1 s2(1) out(1) n0 by simp
  moreover have "fst s2 ! i = fst (node_at G key d i)" "snd s2 ! i = snd (node_at G key d i)" if "i < n" for i
    using s2(3) [OF that] by (simp_all add: view_def prod_eq_iff)
  ultimately show ?thesis
    using out rest by (auto simp: shape_def view_def Let_def split_def simp flip: d_def)
qed

text \<open>Read as an array of leaves, the output is the point evaluation of every index of the domain.\<close>

lemma evalinterval_leaves:
  assumes ok: "elements_per_vector lt \<noteq> 0" and N: "0 < dk_nitems key" "n = ceil_div (dk_nitems key) (leaves_per_node lt)"
    and fit: "fits n st" and cw: "dpf_depth lt (dk_nitems key) \<le> length (dk_cw key)"
  shows "\<exists>out t. evalinterval G lt key 0 (dk_nitems key - 1) st = Inr (out, t)
    \<and> length out = length (fst st) \<and> length t = length (snd st)
    \<and> (\<forall>x<dk_nitems key. leaf_of_nodes lt [out ! (x div leaves_per_node lt)] x = eval_leaf G lt key x
          \<and> t ! (x div leaves_per_node lt) = snd (eval_nodes G lt key x))
    \<and> (\<forall>i\<ge>n. out ! i = fst st ! i \<and> t ! i = snd st ! i)"
proof -
  obtain lk where lk: "leaves_per_node lt = 2 ^ lk" and npl: "nodes_per_leaf lt = 1" using packing [OF ok] by metis
  obtain out t where o: "evalinterval G lt key 0 (dk_nitems key - 1) st = Inr (out, t)"
    "length out = length (fst st)" "length t = length (snd st)"
    "\<forall>i<n. let (S, T) = node_at G key (dpf_depth lt (dk_nitems key)) i
          in out ! i = finalize_node G lt (dk_prgkey key) (dk_finalizer key) S T ! 0 \<and> t ! i = T"
    "\<forall>i\<ge>n. out ! i = fst st ! i \<and> t ! i = snd st ! i"
    using evalinterval_full [OF assms] by blast
  have "leaf_of_nodes lt [out ! (x div leaves_per_node lt)] x = eval_leaf G lt key x
      \<and> t ! (x div leaves_per_node lt) = snd (eval_nodes G lt key x)" if x: "x < dk_nitems key" for x
  proof -
    have "dk_nitems key \<le> n * leaves_per_node lt"
      using ceil_div_le_iff [of "leaves_per_node lt" "dk_nitems key" n] N(2) by (simp add: lk)
    with x have "x div leaves_per_node lt < n"
      by (simp add: lk div_less_iff_less_mult)
    then show ?thesis
      using o(4) by (auto simp: eval_leaf_def eval_nodes_node_at [OF nonempty_leaf [OF ok] x] finalize_node_def npl Let_def split_def)
  qed
  with o show ?thesis by blast
qed

text \<open>The flags of a key pair differ at the target's node only.\<close>

lemma flags_differ:
  assumes "gen G lt k n target val r0 r1 = Inr (k0, k1)" "i < n"
  shows "snd (eval_nodes G lt k0 i) XOR snd (eval_nodes G lt k1 i)
    = of_bool (i div leaves_per_node lt = target div leaves_per_node lt)"
proof -
  have t: "target < n" using assms(1) by (simp add: gen_def split: if_splits)
  show ?thesis
  proof (rule gen_cases [OF t, where k = k and lt = lt and val = val and ?r0.0 = r0 and ?r1.0 = r1], goal_cases)
    case (1 s0 p s1 cws)
    from assms(1) obtain fin where fin: "make_finalizer G lt k target val s0 s1 = Inr fin"
      and k0: "k0 = \<lparr>dk_nitems = n, dk_root = r0, dk_cw = cws, dk_finalizer = fin, dk_prgkey = k\<rparr>"
      and k1: "k1 = \<lparr>dk_nitems = n, dk_root = set_lsb r1 (\<not> bit r0 0), dk_cw = cws, dk_finalizer = fin, dk_prgkey = k\<rparr>"
      unfolding 1(2) res_bind_Inr_iff by auto
    have ok: "elements_per_vector lt \<noteq> 0"
      using fin by (simp add: make_finalizer_def split: if_splits)
    from eval_nodes_pair [OF nonempty_leaf [OF ok] t assms(2) 1(1) k0 k1] show ?case
      by (auto split: if_splits)
  qed
qed

end


section \<open>Arrays that are too small\<close>

text \<open>
  The evaluation keeps the sizes of its arrays, and its last pass visits as many nodes as the tree has, so
  it cannot succeed on an array with fewer.
\<close>

lemma store_shape: "store n npl b i v st = Inr st' \<Longrightarrow> shape st' = shape st"
  by (auto simp: store_def shape_def Let_def oob_def split: if_splits)

lemma visit2_shape: "visit2 G k cw n npl cur j i st = Inr st' \<Longrightarrow> shape st' = shape st"
  by (auto simp: visit2_def res_bind_Inr_iff split_def Let_def dest!: store_shape)

lemma visit1_shape: "visit1 G k cw n npl cur d j i st = Inr st' \<Longrightarrow> shape st' = shape st"
  by (auto simp: visit1_def res_bind_Inr_iff split_def Let_def dest!: store_shape)

lemma visit_loop_shape: "visit_loop G k cw n npl cur m j i st = Inr st' \<Longrightarrow> shape st' = shape st"
proof (induction m arbitrary: j i st)
  case (Suc m)
  then obtain st1 where "visit2 G k cw n npl cur j i st = Inr st1" "visit_loop G k cw n npl cur m (j + 1) (i + 2) st1 = Inr st'"
    by (auto simp: res_bind_Inr_iff)
  with Suc.IH visit2_shape show ?case by metis
qed simp

lemma interval_layer_shape:
  "interval_layer G key n npl nbits d f l cur st = Inr st' \<Longrightarrow> shape st' = shape st"
  unfolding interval_layer_def Let_def
  by (auto simp: res_bind_Inr_iff cw_oob_def split: if_splits dest!: visit1_shape visit2_shape visit_loop_shape)

lemma interval_layers_shape:
  "interval_layers G key n npl nbits d f m l cur st = Inr st' \<Longrightarrow> shape st' = shape st"
proof (induction m arbitrary: l cur st)
  case (Suc m)
  then obtain st1 where "interval_layer G key n npl nbits d f l (1 - cur) st = Inr st1"
    "interval_layers G key n npl nbits d f m (l + 1) (1 - cur) st1 = Inr st'"
    by (auto simp: res_bind_Inr_iff)
  with Suc.IH interval_layer_shape show ?case by metis
qed simp

lemma finalize_fits:
  assumes "finalize G lt k fin n m i st = Inr st'" "nodes_per_leaf lt = 1" "0 < m"
  shows "i + m \<le> length (fst st)"
  using assms(1,3)
proof (induction m arbitrary: i st)
  case (Suc m)
  from Suc.prems(1) obtain S T where l: "load n 1 0 i st = Inr (S, T)"
    and f: "finalize G lt k fin n m (i + 1) (memcpy_at (fst st) i (finalize_node G lt k fin S T), snd st) = Inr st'"
    by (auto simp: res_bind_Inr_iff assms(2) Let_def oob_def split: if_splits)
  have i: "i < length (fst st)" using l by (auto simp: load_def t_pos_def oob_def Let_def split: if_splits)
  have "length (finalize_node G lt k fin S T) = 1" by (simp add: finalize_node_def assms(2) Let_def)
  with i have len: "length (memcpy_at (fst st) i (finalize_node G lt k fin S T)) = length (fst st)"
    by (simp add: memcpy_at_def)
  show ?case using Suc.IH [OF f] i len by (cases "m = 0") simp_all
qed simp

text \<open>With a word for every layer the arrays are the only thing that can be overrun.\<close>

definition array_overrun :: err where
  "array_overrun = Undefined ''access outside the output arrays''"

lemma res_bind_InlE:
  assumes "res_bind r f = Inl e"
  obtains "r = Inl e" | x where "r = Inr x" "f x = Inl e"
  using assms by (cases r) auto

lemma access_overrun: "load n npl b i st = Inl e \<Longrightarrow> e = array_overrun" "store n npl b i v st = Inl e \<Longrightarrow> e = array_overrun"
  by (auto simp: load_def store_def Let_def oob_def array_overrun_def split: if_splits)

lemma visit_overrun: "visit1 G k cw n npl cur d j i st = Inl e \<Longrightarrow> e = array_overrun" "visit2 G k cw n npl cur j i st = Inl e \<Longrightarrow> e = array_overrun"
  unfolding visit1_def visit2_def by (auto simp: Let_def split_def elim!: res_bind_InlE dest: access_overrun)

lemma visit_loop_overrun: "visit_loop G k cw n npl cur m j i st = Inl e \<Longrightarrow> e = array_overrun"
  by (induction m arbitrary: j i st) (auto elim!: res_bind_InlE dest: visit_overrun)

lemma interval_layer_overrun:
  assumes "interval_layer G key n npl nbits d f l cur st = Inl e" "l < length (dk_cw key)"
  shows "e = array_overrun"
  using assms unfolding interval_layer_def Let_def
  by (auto elim!: res_bind_InlE dest: visit_overrun visit_loop_overrun split: if_splits)

lemma interval_layers_overrun:
  "interval_layers G key n npl nbits d f m l cur st = Inl e \<Longrightarrow> l + m \<le> length (dk_cw key) \<Longrightarrow> e = array_overrun"
proof (induction m arbitrary: l cur st)
  case (Suc m)
  from Suc.prems(1) consider "interval_layer G key n npl nbits d f l (1 - cur) st = Inl e"
    | st' where "interval_layers G key n npl nbits d f m (l + 1) (1 - cur) st' = Inl e"
    by (auto elim: res_bind_InlE)
  then show ?case
    by cases (use Suc.IH Suc.prems(2) in \<open>auto intro: interval_layer_overrun\<close>)
qed simp

lemma finalize_overrun: "finalize G lt k fin n m i st = Inl e \<Longrightarrow> e = array_overrun"
proof (induction m arbitrary: i st)
  case (Suc m)
  from Suc.prems have "load n (nodes_per_leaf lt) 0 i st = Inl e \<or> Inl e = (oob :: bufs result) \<or> (\<exists>st'. finalize G lt k fin n m (i + 1) st' = Inl e)"
    by (auto simp: Let_def split_def elim!: res_bind_InlE split: if_splits)
  then show ?case by (elim disjE) (use Suc.IH access_overrun in \<open>auto simp: oob_def array_overrun_def\<close>)
qed simp

lemma evalinterval_overrun:
  assumes "evalinterval G lt key from to st = Inl e" "dpf_depth lt (dk_nitems key) \<le> length (dk_cw key)"
  shows "e = array_overrun"
  using assms(1) unfolding evalinterval_def Let_def
  by (elim res_bind_InlE; simp split: if_splits; elim res_bind_InlE;
      use assms(2) in \<open>auto dest: access_overrun interval_layers_overrun finalize_overrun simp: oob_def array_overrun_def\<close>)

end
