(* ===== verification/DpfIo.thy ===== *)
theory DpfIo
  imports DpfCorrect Shares
begin

text \<open>
  Serialization of keys (the end of \<^verbatim>\<open>mpc/dpf.hpp\<close>) and their transport (\<^verbatim>\<open>mpc/dpfio.hpp\<close>). Decoding reads
  memory through an advancing pointer and never consults the buffer's length; a read past the end of
  the buffer is \<open>Undefined\<close>. The generator key is copied as raw memory, so its encoding is a
  parameter with the interface \<open>raw_object\<close>; for \<^verbatim>\<open>AES_KEY\<close> the last 12 of its 192 bytes are padding
  of unspecified content.
\<close>

section \<open>Raw memory\<close>

definition overrun :: "'a result" where
  "overrun = Inl (Undefined ''read past the end of the buffer'')"

definition serialize_m128i :: "byte list \<Rightarrow> m128 \<Rightarrow> byte list" where
  "serialize_m128i buf val = buf @ to_bytes val"

definition deserialize_m128i :: "byte list \<Rightarrow> (m128 \<times> byte list) result" where
  "deserialize_m128i ptr = (if length ptr < 16 then overrun else Inr (of_bytes (take 16 ptr), drop 16 ptr))"

definition serialize_bytes :: "('v \<Rightarrow> byte list) \<Rightarrow> byte list \<Rightarrow> 'v \<Rightarrow> byte list" where
  "serialize_bytes enc buf val = buf @ enc val"

definition deserialize_bytes :: "nat \<Rightarrow> (byte list \<Rightarrow> 'v) \<Rightarrow> byte list \<Rightarrow> ('v \<times> byte list) result" where
  "deserialize_bytes osize dec ptr = (if length ptr < osize then overrun else Inr (dec (take osize ptr), drop osize ptr))"

fun deserialize_blocks :: "nat \<Rightarrow> byte list \<Rightarrow> (m128 list \<times> byte list) result" where
  "deserialize_blocks 0 ptr = Inr ([], ptr)"
| "deserialize_blocks (Suc n) ptr =
     res_bind (deserialize_m128i ptr) (\<lambda>(b, ptr).
     res_bind (deserialize_blocks n ptr) (\<lambda>(bs, ptr). Inr (b # bs, ptr)))"


section \<open>Keys\<close>

definition serialize_dpf_key :: "('k \<Rightarrow> byte list) \<Rightarrow> 'k dpf_key \<Rightarrow> byte list" where
  "serialize_dpf_key enc key =
     (let buf = [];
          buf = serialize_bytes to_bytes buf (of_nat (dk_nitems key) :: u64);
          buf = serialize_m128i buf (dk_root key);
          buf = serialize_bytes to_bytes buf (of_nat (length (dk_cw key)) :: u64);
          buf = foldl serialize_m128i buf (dk_cw key);
          buf = foldl serialize_m128i buf (dk_finalizer key)
      in serialize_bytes enc buf (dk_prgkey key))"

definition deserialize_dpf_key :: "nat \<Rightarrow> (byte list \<Rightarrow> 'k) \<Rightarrow> leaf_ty \<Rightarrow> byte list \<Rightarrow> 'k dpf_key result" where
  "deserialize_dpf_key osize dec lt ptr =
     res_bind (deserialize_bytes 8 (of_bytes :: byte list \<Rightarrow> u64) ptr) (\<lambda>(nitems, ptr).
     res_bind (deserialize_m128i ptr) (\<lambda>(root, ptr).
     res_bind (deserialize_bytes 8 (of_bytes :: byte list \<Rightarrow> u64) ptr) (\<lambda>(cw_size, ptr).
     res_bind (deserialize_blocks (unat cw_size) ptr) (\<lambda>(cw, ptr).
     res_bind (deserialize_blocks (nodes_per_leaf lt) ptr) (\<lambda>(finalizer, ptr).
     res_bind (deserialize_bytes osize dec ptr) (\<lambda>(prgkey, ptr).
     Inr \<lparr>dk_nitems = unat nitems, dk_root = root, dk_cw = cw, dk_finalizer = finalizer, dk_prgkey = prgkey\<rparr>))))))"

text \<open>What copying an object to a buffer and back relies on.\<close>

locale raw_object =
  fixes enc :: "'k \<Rightarrow> byte list" and dec :: "byte list \<Rightarrow> 'k" and osize :: nat and ok :: "'k \<Rightarrow> bool"
  assumes length_enc: "ok k \<Longrightarrow> length (enc k) = osize"
    and dec_enc: "ok k \<Longrightarrow> dec (enc k) = k"

lemma foldl_serialize: "foldl serialize_m128i buf bs = buf @ concat (map to_bytes bs)"
  by (induction bs arbitrary: buf) (simp_all add: serialize_m128i_def)

lemma deserialize_m128i_Cons [simp]: "deserialize_m128i (to_bytes b @ rest) = Inr (b, rest)"
  by (simp add: deserialize_m128i_def)

lemma deserialize_blocks_append [simp]:
  "deserialize_blocks (length bs) (concat (map to_bytes bs) @ rest) = Inr (bs, rest)"
  by (induction bs) simp_all

lemma deserialize_word [simp]:
  "deserialize_bytes 8 of_bytes (to_bytes (w :: u64) @ rest) = Inr (w, rest)"
  by (simp add: deserialize_bytes_def)

lemma serialize_layout:
  "serialize_dpf_key enc key = to_bytes (of_nat (dk_nitems key) :: u64) @ to_bytes (dk_root key)
     @ to_bytes (of_nat (length (dk_cw key)) :: u64) @ concat (map to_bytes (dk_cw key))
     @ concat (map to_bytes (dk_finalizer key)) @ enc (dk_prgkey key)"
  by (simp add: serialize_dpf_key_def serialize_bytes_def foldl_serialize serialize_m128i_def)

text \<open>The keys the encoding is meant for.\<close>

definition key_wf :: "('k \<Rightarrow> bool) \<Rightarrow> leaf_ty \<Rightarrow> 'k dpf_key \<Rightarrow> bool" where
  "key_wf ok lt key \<longleftrightarrow> dk_nitems key < 2 ^ 64 \<and> length (dk_cw key) < 2 ^ 64
     \<and> length (dk_finalizer key) = nodes_per_leaf lt \<and> ok (dk_prgkey key)"

context raw_object
begin

lemma deserialize_serialize:
  assumes "key_wf ok lt key"
  shows "deserialize_dpf_key osize dec lt (serialize_dpf_key enc key @ rest) = Inr key"
proof -
  have f: "length (dk_finalizer key) = nodes_per_leaf lt" and p: "ok (dk_prgkey key)"
    and n: "dk_nitems key < 2 ^ 64" "length (dk_cw key) < 2 ^ 64"
    using assms by (simp_all add: key_wf_def)
  show ?thesis
    using deserialize_blocks_append [of "dk_finalizer key" "enc (dk_prgkey key) @ rest"]
      length_enc [OF p] dec_enc [OF p]
    by (simp add: serialize_layout deserialize_dpf_key_def f unat_of_nat_u64 [OF n(1)] unat_of_nat_u64 [OF n(2)])
      (simp add: deserialize_bytes_def)
qed

lemma length_serialize:
  assumes "key_wf ok lt key"
  shows "length (serialize_dpf_key enc key) = 32 + 16 * length (dk_cw key) + 16 * nodes_per_leaf lt + osize"
  using assms length_enc by (simp add: serialize_layout key_wf_def length_concat_map_const [where w = 16])

end

lemma deserialize_blocks_length:
  "deserialize_blocks n ptr = Inr (bs, rest) \<Longrightarrow> length ptr = 16 * n + length rest"
proof (induction n arbitrary: ptr bs)
  case (Suc n)
  then show ?case
    by (fastforce simp: res_bind_Inr_iff deserialize_m128i_def overrun_def split: if_splits)
qed simp

text \<open>A successful decoding has read all it needs.\<close>

lemma deserialize_needs:
  assumes "deserialize_dpf_key osize dec lt ptr = Inr key"
  shows "32 + 16 * unat (of_bytes (take 8 (drop 24 ptr)) :: u64) + 16 * nodes_per_leaf lt + osize \<le> length ptr"
  using assms
  by (auto simp: deserialize_dpf_key_def res_bind_Inr_iff deserialize_bytes_def deserialize_m128i_def overrun_def
      split: if_splits dest!: deserialize_blocks_length)

context raw_object
begin

text \<open>A buffer that was cut short is read past its end.\<close>

lemma deserialize_truncated:
  assumes "key_wf ok lt key" "m < length (serialize_dpf_key enc key)"
  shows "\<exists>e. deserialize_dpf_key osize dec lt (take m (serialize_dpf_key enc key)) = Inl e"
proof (rule ccontr)
  assume "\<nexists>e. deserialize_dpf_key osize dec lt (take m (serialize_dpf_key enc key)) = Inl e"
  then obtain k where "deserialize_dpf_key osize dec lt (take m (serialize_dpf_key enc key)) = Inr k"
    by (cases "deserialize_dpf_key osize dec lt (take m (serialize_dpf_key enc key))") auto
  note need = deserialize_needs [OF this]
  then have m: "32 \<le> m" by simp
  have "take 8 (drop 24 (take m (serialize_dpf_key enc key))) = to_bytes (of_nat (length (dk_cw key)) :: u64)"
    using m by (simp add: serialize_layout drop_take take_append)
  with need have "32 + 16 * length (dk_cw key) + 16 * nodes_per_leaf lt + osize \<le> m"
    using assms(1) by (simp add: key_wf_def)
  with assms show False by (simp add: length_serialize)
qed

end


section \<open>The AES key as raw memory\<close>

text \<open>The bytes of the object, with any content \<open>pad\<close> of its 12 bytes of padding.\<close>

definition aes_key_bytes :: "(nat \<Rightarrow> byte) \<Rightarrow> AES_KEY \<Rightarrow> byte list" where
  "aes_key_bytes pad k = concat (map to_bytes (rd_key k)) @ to_bytes (of_nat (rounds k) :: u32) @ map pad [0..<12]"

definition aes_key_of_bytes :: "byte list \<Rightarrow> AES_KEY" where
  "aes_key_of_bytes bs =
     \<lparr>rd_key = map of_bytes (chunks 16 11 bs), rounds = unat (of_bytes (take 4 (drop 176 bs)) :: u32)\<rparr>"

definition aes_key_ok :: "AES_KEY \<Rightarrow> bool" where
  "aes_key_ok k \<longleftrightarrow> length (rd_key k) = 11 \<and> rounds k < 2 ^ 32"

lemma aes_key_ok_ctor: "aes_key_ok (aes_key userkey)"
proof -
  have "length (expand_keys x y cs) = length cs" for x y cs
    by (induction cs arbitrary: x y) (simp_all add: split_def Let_def)
  moreover have "length aes_round_constants = 10" by (simp add: aes_round_constants_def)
  ultimately show ?thesis by (simp add: aes_key_ok_def aes_key_def)
qed

lemma aes_key_roundtrip:
  assumes "aes_key_ok k"
  shows "length (aes_key_bytes pad k) = 192" "aes_key_of_bytes (aes_key_bytes pad k) = k"
proof -
  have l: "length (concat (map to_bytes (rd_key k))) = 176"
    using assms(1) by (simp add: aes_key_ok_def length_concat_map_const [where w = 16])
  then show "length (aes_key_bytes pad k) = 192"
    using assms by (simp add: aes_key_bytes_def)
  have "chunks 16 11 (concat (map to_bytes (rd_key k)) @ rest) = map to_bytes (rd_key k)" for rest
    using chunks_concat [of "rd_key k" to_bytes 16 rest] assms(1) by (simp add: aes_key_ok_def)
  moreover have "unat (of_nat (rounds k) :: u32) = rounds k"
    using assms(1) by (simp add: aes_key_ok_def unsigned_of_nat take_bit_nat_eq_self)
  ultimately show "aes_key_of_bytes (aes_key_bytes pad k) = k"
    using l by (simp add: aes_key_of_bytes_def aes_key_bytes_def comp_def)
qed

interpretation aes_raw: raw_object "aes_key_bytes pad" aes_key_of_bytes 192 aes_key_ok for pad
  by unfold_locales (simp_all add: aes_key_roundtrip)

text \<open>The keys that \<^verbatim>\<open>gen\<close> builds are of this kind.\<close>

lemma generated_key_wf:
  assumes g: "gen PRG lt (aes_key userkey) n target val r0 r1 = Inr (k0, k1)" and n: "n < 2 ^ 64"
  shows "key_wf aes_key_ok lt k0" "key_wf aes_key_ok lt k1" "length (dk_cw k0) \<le> 64" "length (dk_cw k1) \<le> 64"
    "nodes_per_leaf lt = 1"
proof -
  note shape = aes_prg.gen_shape [OF g]
  have one: "nodes_per_leaf lt = 1" using packing [OF shape(1)] by blast
  have d: "dpf_depth lt n \<le> 64"
  proof -
    obtain lk where lk: "leaves_per_node lt = 2 ^ lk" using packing [OF shape(1)] by blast
    have "ceillog2 n \<le> 64" using n shape(3) ceillog2_le_iff [of n 64] by simp
    then show ?thesis using shape(3) by (simp add: dpf_depth_def lk ceillog2_ceil_div)
  qed
  obtain s0 p s1 cws where inv: "dpf_inv PRG (aes_key userkey) (input_bits n) target (r0, get_lsb r0 1)
       (set_lsb r1 (\<not> bit r0 0), get_lsb (set_lsb r1 (\<not> bit r0 0)) 1) (dpf_depth lt n) s0 p s1 cws"
    and e: "gen PRG lt (aes_key userkey) n target val r0 r1 = res_bind (make_finalizer PRG lt (aes_key userkey) target val s0 s1) (\<lambda>fin.
       Inr (\<lparr>dk_nitems = n, dk_root = r0, dk_cw = cws, dk_finalizer = fin, dk_prgkey = aes_key userkey\<rparr>,
            \<lparr>dk_nitems = n, dk_root = set_lsb r1 (\<not> bit r0 0), dk_cw = cws, dk_finalizer = fin,
             dk_prgkey = aes_key userkey\<rparr>))"
    by (rule aes_prg.gen_cases [OF shape(2)])
  have l: "length cws \<le> 64" using inv d by (simp add: dpf_inv_def)
  from g obtain fin where "make_finalizer PRG lt (aes_key userkey) target val s0 s1 = Inr fin"
    and k: "k0 = \<lparr>dk_nitems = n, dk_root = r0, dk_cw = cws, dk_finalizer = fin, dk_prgkey = aes_key userkey\<rparr>"
      "k1 = \<lparr>dk_nitems = n, dk_root = set_lsb r1 (\<not> bit r0 0), dk_cw = cws, dk_finalizer = fin, dk_prgkey = aes_key userkey\<rparr>"
    unfolding e res_bind_Inr_iff by auto
  then have "length fin = 1" using shape(1) one by (auto simp: make_finalizer_def Let_def)
  with n l one show "key_wf aes_key_ok lt k0" "key_wf aes_key_ok lt k1"
    by (auto simp: key_wf_def k aes_key_ok_ctor)
  show "length (dk_cw k0) \<le> 64" "length (dk_cw k1) \<le> 64" "nodes_per_leaf lt = 1" using l one by (simp_all add: k)
qed


section \<open>Transport\<close>

definition send_dpf_key :: "('k \<Rightarrow> byte list) \<Rightarrow> netpeer \<Rightarrow> 'k dpf_key \<Rightarrow> unit coro" where
  "send_dpf_key enc p key =
     (let buf = serialize_dpf_key enc key; len = of_nat (length buf) :: u64
      in Await [send_val p len] (\<lambda>_.
         if 0 < len then Await [Send (np_sock p) [buf]] (\<lambda>_. Return ()) else Return ()))"

definition recv_dpf_key :: "nat \<Rightarrow> (byte list \<Rightarrow> 'k) \<Rightarrow> leaf_ty \<Rightarrow> netpeer \<Rightarrow> 'k dpf_key coro" where
  "recv_dpf_key osize dec lt p =
     Await [recv_val TYPE(u64) p] (\<lambda>r.
     let len = of_bytes (r ! 0) :: u64
     in if 0 < len
        then Await [Recv (np_sock p) (RRead (unat len) RDone)] (\<lambda>r. lift_result (deserialize_dpf_key osize dec lt (r ! 0)))
        else lift_result (deserialize_dpf_key osize dec lt []))"

context raw_object
begin

text \<open>The dealer sends each party its key, and both decode what was encoded.\<close>

lemma keys_delivered:
  assumes k: "key_wf ok lt k0" "key_wf ok lt k1"
    and l: "length (serialize_dpf_key enc k0) < 2 ^ 64" "length (serialize_dpf_key enc k1) < 2 ^ 64"
  shows "joint (three (bind (recv_dpf_key osize dec lt (peer_at P0 P2)) (\<lambda>k. Return (Some k)))
       (bind (recv_dpf_key osize dec lt (peer_at P1 P2)) (\<lambda>k. Return (Some k)))
       (bind (send_dpf_key enc (peer_at P0 P0) k0) (\<lambda>_.
        bind (send_dpf_key enc (peer_at P1 P1) k1) (\<lambda>_. Return None)))) quiet
     (three (Some k0) (Some k1) None) quiet"
proof -
  define b0 b1 n0 n1 where "b0 = serialize_dpf_key enc k0" and "b1 = serialize_dpf_key enc k1"
    and "n0 = length b0" and "n1 = length b1"
  have "0 < n0" "0 < n1" by (simp_all add: n0_def n1_def b0_def b1_def serialize_layout)
  then have pos: "0 < (of_nat n0 :: u64)" "0 < (of_nat n1 :: u64)"
    using l by (simp_all add: of_nat_u64_gt_0 n0_def n1_def b0_def b1_def)
  have un: "unat (of_nat n0 :: u64) = n0" "unat (of_nat n1 :: u64) = n1"
    using l by (simp_all add: n0_def n1_def b0_def b1_def)
  have dec: "deserialize_dpf_key osize dec lt b0 = Inr k0" "deserialize_dpf_key osize dec lt b1 = Inr k1"
    using deserialize_serialize [OF k(1), of "[]"] deserialize_serialize [OF k(2), of "[]"]
    by (simp_all add: b0_def b1_def)
  have send: "send_dpf_key enc p k0 = Await [send_val p (of_nat n0 :: u64)] (\<lambda>_. Await [Send (np_sock p) [b0]] (\<lambda>_. Return ()))"
    "send_dpf_key enc p k1 = Await [send_val p (of_nat n1 :: u64)] (\<lambda>_. Await [Send (np_sock p) [b1]] (\<lambda>_. Return ()))" for p
    using pos by (simp_all add: send_dpf_key_def Let_def flip: b0_def b1_def n0_def n1_def)
  define h0 h1 where "h0 = to_bytes (of_nat n0 :: u64)" and "h1 = to_bytes (of_nat n1 :: u64)"
  have h: "length h0 = 8" "length h1 = 8" "of_bytes h0 = (of_nat n0 :: u64)" "of_bytes h1 = (of_nat n1 :: u64)"
    by (simp_all add: h0_def h1_def)
  have len: "length b0 = n0" "length b1 = n1" by (simp_all add: n0_def n1_def)
  show ?thesis
    unfolding send recv_dpf_key_def msg_simps h0_def [symmetric] h1_def [symmetric]
    by (rule joint_threeI [where as = "[ASend P2 P0, ASend P2 P0, ASend P2 P1, ASend P2 P1,
          ARecv P0 P2, ARecv P0 P2, ARecv P1 P2, ARecv P1 P2]"])
      (simp add: exec_simps h un pos dec len lift_result_def)
qed

end

end
