(* ===== verification/Locoram.thy ===== *)
theory Locoram
  imports MpcCorrect DpfEval DpfIo
begin

text \<open>
  \<^verbatim>\<open>mpc/locoram.hpp\<close> and \<^verbatim>\<open>mpc/locoram.tpp\<close>: the distributed memory at \<^verbatim>\<open>leaf_t = uint64_t\<close>, the type its program
  instantiates (\<^verbatim>\<open>read\<close> needs an arithmetic leaf). Vectors of \<^verbatim>\<open>n\<close> words that are handed to \<^verbatim>\<open>__evalinterval\<close> hold
  \<open>n div 2\<close> whole nodes; a write behind them is \<open>Undefined\<close>, as are out-of-range vector accesses.
\<close>

section \<open>The code\<close>

record locoram =
  secret_share :: "u64 list"
  blind :: "u64 list"
  peer_blinded :: "u64 list"
  sbv_secret_share :: "u64 list"
  sbv_blind :: "u64 list"
  sbv_peer_blinded :: "u64 list"
  update_inds :: "u64 xshare list"
  update_vals :: "u64 xshare list"
  read_inds :: "u64 xshare list"
  cancellation_term :: u64
  lo_nitems :: nat
  lo_prgkey :: AES_KEY

definition Locoram :: "nat \<Rightarrow> AES_KEY \<Rightarrow> locoram" where
  "Locoram n key =
     \<lparr>secret_share = replicate n 0, blind = replicate n 0, peer_blinded = replicate n 0,
      sbv_secret_share = replicate n 0, sbv_blind = replicate n 0, sbv_peer_blinded = replicate n 0,
      update_inds = [], update_vals = [], read_inds = [], cancellation_term = 0, lo_nitems = n, lo_prgkey = key\<rparr>"

definition set_share :: "locoram \<Rightarrow> u64 list \<Rightarrow> locoram result" where
  "set_share lo share =
     (if length share \<noteq> lo_nitems lo then Inl (Runtime_error ''Size mismatch in Locoram::set_share'')
      else Inr (lo\<lparr>secret_share := share\<rparr>))"

definition range_error :: "'a result" where
  "range_error = Inl (Undefined ''vector index out of range'')"

text \<open>A loop \<^verbatim>\<open>for (j = 0; j < n; ++j) v[j] = v[j] ^ w[j]\<close>.\<close>

definition xor_into :: "nat \<Rightarrow> u64 list \<Rightarrow> u64 list \<Rightarrow> u64 list result" where
  "xor_into n v w =
     (if length v < n \<or> length w < n then range_error
      else Inr (map (\<lambda>j. v ! j XOR w ! j) [0..<n] @ drop n v))"

text \<open>The memory of \<open>n\<close> words as nodes, and read back as words.\<close>

definition words_of_nodes :: "nat \<Rightarrow> m128 list \<Rightarrow> u64 list" where
  "words_of_nodes n out = map (\<lambda>i. ucast (drop_bit (64 * (i mod 2)) (out ! (i div 2)))) [0..<n]"

definition eval_range :: "AES_KEY dpf_key \<Rightarrow> nat \<Rightarrow> (u64 list \<times> u8 list) result" where
  "eval_range key n =
     res_bind (evalinterval PRG T_u64 key 0 (n - 1) (replicate (n div 2) 0, replicate n 0))
       (\<lambda>(out, flags). Inr (words_of_nodes n out, flags))"

definition decode_key :: "byte list \<Rightarrow> AES_KEY dpf_key result" where
  "decode_key buf = deserialize_dpf_key 192 aes_key_of_bytes T_u64 buf"

subsection \<open>Reconstruction\<close>

definition reconstruct_with_ctx :: "ctx_ptr \<Rightarrow> locoram \<Rightarrow> pstate \<Rightarrow> u64 list coro" where
  "reconstruct_with_ctx ctx lo st =
     (if ctx = Null then Throw (Runtime_error ''Missing MPCContext in Locoram::reconstruct_with_ctx'')
      else
        let c = ps_ctx st; role = mc_role c
        in if role = P2 then Return []
           else
             (case (if role = P0 then (case mc_peer1 c of Some p \<Rightarrow> Some p | None \<Rightarrow> mc_peer0 c)
                    else (case mc_peer0 c of Some p \<Rightarrow> Some p | None \<Rightarrow> mc_peer1 c)) of
                None \<Rightarrow> Throw (Runtime_error ''Locoram::reconstruct_with_ctx: missing peer NetPeer pointer'')
              | Some peer \<Rightarrow>
                  let n = lo_nitems lo; bytes = n * 8;
                      buf = take bytes (vec_bytes (secret_share lo));
                      finish = (\<lambda>buf_peer.
                        if length buf_peer \<noteq> bytes
                        then Throw (Runtime_error ''Locoram::reconstruct_with_ctx: received buffer size mismatch'')
                        else let peer_data = vec_of_bytes buf_peer :: u64 list
                             in Return (map (\<lambda>i. secret_share lo ! i XOR peer_data ! i) [0..<n]))
                  in if length (secret_share lo) < n then lift_result range_error
                     else if role = P0 then
                       Await [send_vec peer buf] (\<lambda>_. Await [recv_vec TYPE(u8) peer] (\<lambda>r. finish (r ! 0)))
                     else
                       Await [recv_vec TYPE(u8) peer] (\<lambda>r. Await [send_vec peer buf] (\<lambda>_. finish (r ! 0)))))"

subsection \<open>Update\<close>

definition apply_update :: "byte list \<Rightarrow> locoram \<Rightarrow> locoram result" where
  "apply_update buf lo =
     res_bind (decode_key buf) (\<lambda>key.
     let n = lo_nitems lo
     in if n = 0 then Inr lo
        else res_bind (eval_range key n) (\<lambda>(output, flags).
             res_bind (xor_into n (secret_share lo) output) (\<lambda>s.
             res_bind (xor_into n (blind lo) output) (\<lambda>b.
             Inr (lo\<lparr>secret_share := s, blind := b\<rparr>)))))"

definition locoram_recv_and_apply :: "netpeer \<Rightarrow> locoram \<Rightarrow> locoram coro" where
  "locoram_recv_and_apply self lo = Await [recv_vec TYPE(u8) self] (\<lambda>r. lift_result (apply_update (r ! 0) lo))"

text \<open>The two blocks that \<^verbatim>\<open>gen\<close> draws.\<close>

definition gen_random :: "nat \<Rightarrow> nat \<Rightarrow> u64 \<Rightarrow> pstate \<Rightarrow> (AES_KEY dpf_key \<times> AES_KEY dpf_key) result \<times> pstate" where
  "gen_random n target v st =
     (let (r0, st) = arc4random_val st; (r1, st) = arc4random_val st
      in (gen PRG T_u64 default_aes_key n target (L64 v) r0 r1, st))"

definition send_keys :: "(nat \<Rightarrow> byte) \<Rightarrow> netpeer option \<Rightarrow> netpeer option \<Rightarrow> AES_KEY dpf_key \<Rightarrow> AES_KEY dpf_key \<Rightarrow> 'v \<Rightarrow> 'v coro" where
  "send_keys pad peer0 peer1 k0 k1 v =
     (case (peer0, peer1) of
        (Some p0, Some p1) \<Rightarrow>
          Await [send_vec p0 (serialize_dpf_key (aes_key_bytes pad) k0), send_vec p1 (serialize_dpf_key (aes_key_bytes pad) k1)]
            (\<lambda>_. Return v)
      | _ \<Rightarrow> Throw (Runtime_error ''P2 missing peer connections''))"

definition log_update :: "u64 xshare \<Rightarrow> u64 xshare \<Rightarrow> locoram \<Rightarrow> locoram" where
  "log_update shared_index value_share lo =
     lo\<lparr>update_inds := update_inds lo @ [shared_index], update_vals := update_vals lo @ [value_share]\<rparr>"

definition ref_update :: "(nat \<Rightarrow> byte) \<Rightarrow> nat \<Rightarrow> u64 xshare \<Rightarrow> u64 xshare \<Rightarrow> locoram \<Rightarrow> pstate \<Rightarrow> (u64 \<times> locoram \<times> pstate) coro" where
  "ref_update pad idx shared_index value_share lo st =
     (if xs_ctx shared_index = Null then Throw (Runtime_error ''Missing MPCContext in Locoram::Ref::update'')
      else
        let lo = log_update shared_index value_share lo;
            c = ps_ctx st
        in if length (secret_share lo) \<le> idx then lift_result range_error
           else
             let result = secret_share lo ! idx
             in if mc_role c = P2 then
                  (if lo_nitems lo = 0 then Throw (Undefined ''alpha % 0'')
                   else
                     let (alpha :: u64, st) = arc4random_val st;
                         (target_value :: u64, st) = arc4random_val st;
                         (keys, st) = gen_random (lo_nitems lo) 2 100 st
                     in bind (lift_result keys) (\<lambda>(k0, k1). send_keys pad (mc_peer0 c) (mc_peer1 c) k0 k1 (result, lo, st)))
                else bind (locoram_recv_and_apply (mc_self c) lo) (\<lambda>lo. Return (result, lo, st)))"

definition locoram_update :: "(nat \<Rightarrow> byte) \<Rightarrow> u64 xshare \<Rightarrow> u64 xshare \<Rightarrow> locoram \<Rightarrow> pstate \<Rightarrow> (locoram \<times> pstate) coro" where
  "locoram_update pad shared_index value_share lo st =
     (if xs_ctx shared_index = Null then Throw (Runtime_error ''AShare index missing MPCContext in Locoram::update'')
      else let local_idx = unat (xs_val shared_index)
           in if lo_nitems lo \<le> local_idx then Throw (Runtime_error ''Index out of bounds in Locoram::update'')
              else bind (ref_update pad local_idx shared_index value_share lo st) (\<lambda>(_, lo, st). Return (lo, st)))"

subsection \<open>Read\<close>

text \<open>Step 1 of \<^verbatim>\<open>Ref::read\<close>; \<open>corr\<close> is the extra term of the version for xor-shared indices.\<close>

definition apply_read :: "(locoram \<Rightarrow> u64 result) \<Rightarrow> byte list \<Rightarrow> locoram \<Rightarrow> locoram result" where
  "apply_read corr buf lo =
     res_bind (decode_key buf) (\<lambda>key.
     let n = lo_nitems lo
     in if n = 0 then oob
        else res_bind (eval_range key n) (\<lambda>(_, flags).
             let w_vals = map ucast (take n flags) :: u64 list
             in res_bind (xor_into n (sbv_secret_share lo) w_vals) (\<lambda>s.
                res_bind (xor_into n (sbv_blind lo) w_vals) (\<lambda>b.
                if length (secret_share lo) < n then range_error
                else res_bind (vec_and (blind lo) w_vals) (\<lambda>d.
                     res_bind (corr lo) (\<lambda>e.
                     Inr (lo\<lparr>sbv_secret_share := s, sbv_blind := b,
                          cancellation_term := cancellation_term lo XOR (d XOR e)\<rparr>)))))))"

definition read_apply :: "(locoram \<Rightarrow> u64 result) \<Rightarrow> netpeer \<Rightarrow> locoram \<Rightarrow> locoram coro" where
  "read_apply corr self lo = Await [recv_vec TYPE(u8) self] (\<lambda>r. lift_result (apply_read corr (r ! 0) lo))"

text \<open>Step 3, with the eight entries of each vector that it prints.\<close>

definition read_result :: "locoram \<Rightarrow> u64 result" where
  "read_result lo =
     res_bind (vec_xor (sbv_secret_share lo) (sbv_peer_blinded lo)) (\<lambda>tmp.
     res_bind (vec_and (secret_share lo) tmp) (\<lambda>a.
     res_bind (vec_and (peer_blinded lo) (sbv_blind lo)) (\<lambda>b.
     if length tmp < 8 \<or> length (secret_share lo) < 8 \<or> length (sbv_secret_share lo) < 8 then range_error
     else Inr (a XOR b XOR cancellation_term lo))))"

definition read_with :: "(locoram \<Rightarrow> u64 result) \<Rightarrow> (nat \<Rightarrow> byte) \<Rightarrow> locoram \<Rightarrow> pstate \<Rightarrow> (u64 \<times> locoram \<times> pstate) coro" where
  "read_with corr pad lo st =
     (let c = ps_ctx st
      in bind
        (if mc_role c = P2 then
           (if lo_nitems lo = 0 then Throw (Undefined ''alpha % 0'')
            else let (alpha :: u64, st) = arc4random_val st;
                     (keys, st) = gen_random (lo_nitems lo) 5 1 st
                 in bind (lift_result keys) (\<lambda>(k0, k1). send_keys pad (mc_peer0 c) (mc_peer1 c) k0 k1 (lo, st)))
         else bind (read_apply corr (mc_self c) lo) (\<lambda>lo. Return (lo, st)))
        (\<lambda>(lo, st). bind (lift_result (read_result lo)) (\<lambda>result. Return (result, lo, st))))"

definition first_update :: "locoram \<Rightarrow> u64 result" where
  "first_update lo = (case update_vals lo of [] \<Rightarrow> range_error | v # _ \<Rightarrow> Inr (xs_val v))"

definition read_A :: "(nat \<Rightarrow> byte) \<Rightarrow> u64 ashare \<Rightarrow> locoram \<Rightarrow> pstate \<Rightarrow> (u64 \<times> locoram \<times> pstate) coro" where
  "read_A pad shared_index lo st =
     (if as_ctx shared_index = Null then Throw (Runtime_error ''Missing MPCContext in Locoram::Ref::read'')
      else read_with (\<lambda>_. Inr 0) pad lo st)"

definition read_X :: "(nat \<Rightarrow> byte) \<Rightarrow> u64 xshare \<Rightarrow> locoram \<Rightarrow> pstate \<Rightarrow> (u64 \<times> locoram \<times> pstate) coro" where
  "read_X pad shared_index lo st =
     (if xs_ctx shared_index = Null then Throw (Runtime_error ''Missing MPCContext in Locoram::Ref::read'')
      else read_with first_update pad (lo\<lparr>read_inds := read_inds lo @ [shared_index]\<rparr>) st)"

text \<open>\<^verbatim>\<open>operator[]\<close>: the party's own share is used as an index into its memory.\<close>

definition at_index :: "locoram \<Rightarrow> nat \<Rightarrow> nat result" where
  "at_index lo idx =
     (if lo_nitems lo \<le> idx then Inl (Runtime_error ''Index out of bounds in Locoram::operator[]'') else Inr idx)"

definition at_A :: "(nat \<Rightarrow> byte) \<Rightarrow> u64 ashare \<Rightarrow> locoram \<Rightarrow> pstate \<Rightarrow> (u64 \<times> locoram \<times> pstate) coro" where
  "at_A pad shared_index lo st =
     (if as_ctx shared_index = Null then Throw (Runtime_error ''AShare index missing MPCContext in Locoram::operator[]'')
      else bind (lift_result (at_index lo (unat (as_val shared_index)))) (\<lambda>_. read_A pad shared_index lo st))"

definition at_X :: "(nat \<Rightarrow> byte) \<Rightarrow> u64 xshare \<Rightarrow> locoram \<Rightarrow> pstate \<Rightarrow> (u64 \<times> locoram \<times> pstate) coro" where
  "at_X pad shared_index lo st =
     (if xs_ctx shared_index = Null then Throw (Runtime_error ''XShare index missing MPCContext in Locoram::operator[]'')
      else bind (lift_result (at_index lo (unat (xs_val shared_index)))) (\<lambda>_. read_X pad shared_index lo st))"


section \<open>Distribution of the keys\<close>

lemma vec_bytes_bytes [simp]: "vec_bytes (bs :: byte list) = bs"
proof -
  have "to_bytes (b :: byte) = [b]" for b by (simp add: to_bytes_def le_bytes_def)
  then show ?thesis by (induction bs) (simp_all add: vec_bytes_def)
qed

text \<open>The dealer sends each party a non-empty byte vector.\<close>

lemma deal_vec:
  fixes b0 b1 :: "byte list"
  assumes "b0 \<noteq> []" "b1 \<noteq> []" "length b0 < 2 ^ 64" "length b1 < 2 ^ 64"
  shows "reaches (three (Await [recv_vec TYPE(u8) (peer_at P0 P2)] k0) (Await [recv_vec TYPE(u8) (peer_at P1 P2)] k1)
      (Await [send_vec (peer_at P0 P0) b0, send_vec (peer_at P1 P1) b1] k2)) quiet
    (three (k0 [b0]) (k1 [b1]) (k2 [[], []])) quiet"
proof -
  define n0 n1 where "n0 = length b0" and "n1 = length b1"
  define sz0 sz1 where "sz0 = (of_nat n0 :: u64)" and "sz1 = (of_nat n1 :: u64)"
  define h0 h1 where "h0 = to_bytes sz0" and "h1 = to_bytes sz1"
  have sz: "0 < sz0" "0 < sz1" "sizeof TYPE(u8) * unat sz0 = n0" "sizeof TYPE(u8) * unat sz1 = n1"
    using assms by (simp_all add: sz0_def sz1_def n0_def n1_def of_nat_u64_gt_0 sizeof_def)
  have h: "length h0 = 8" "length h1 = 8" "of_bytes h0 = sz0" "of_bytes h1 = sz1"
    by (simp_all add: h0_def h1_def)
  have send: "send_vec p b0 = Send (np_sock p) [h0, b0]" "send_vec p b1 = Send (np_sock p) [h1, b1]" for p
    using sz by (simp_all add: send_vec_def h0_def h1_def sz0_def sz1_def n0_def n1_def)
  have len: "length b0 = n0" "length b1 = n1" by (simp_all add: n0_def n1_def)
  show ?thesis
    unfolding send recv_vec_def np_sock_peer_at
    by (rule reaches_threeI [where as = "deal_acts 2"]) (simp add: exec_simps acts_simps h sz len)
qed


section \<open>The effect of an update\<close>

lemma lpn_u64 [simp]: "leaves_per_node T_u64 = 2" "is_packed T_u64"
  by (simp_all add: leaves_per_node_def is_packed_def)

lemma length_words_of_nodes [simp]: "length (words_of_nodes n out) = n"
  by (simp add: words_of_nodes_def)

text \<open>
  The full-range evaluation of one key of a pair over memory of an even number of words: the words are
  the point evaluations, and the flags of the nodes stand in the first half of the flag array.
\<close>

lemma eval_range_even:
  assumes "dk_nitems key = n" "0 < n" "even n" "dpf_depth T_u64 n \<le> length (dk_cw key)"
  obtains out flags where "eval_range key n = Inr (out, flags)" "length out = n" "length flags = n"
    "\<And>x. x < n \<Longrightarrow> L64 (out ! x) = eval_leaf PRG T_u64 key x"
    "\<And>i. i < n div 2 \<Longrightarrow> flags ! i = snd (eval_nodes PRG T_u64 key (2 * i))"
    "\<And>i. n div 2 \<le> i \<Longrightarrow> i < n \<Longrightarrow> flags ! i = 0"
proof -
  have c: "ceil_div n 2 = n div 2" using assms(3) by (auto simp: ceil_div_def elim!: evenE)
  have ok: "elements_per_vector T_u64 \<noteq> 0" by (simp add: elements_per_vector_def)
  have fit: "fits (n div 2) (replicate (n div 2) 0, replicate n 0)" by (simp add: fits_def)
  from aes_prg.evalinterval_leaves [OF ok, of key "n div 2", OF _ _ fit] assms(1,2,4) c
  obtain nodes t where e: "evalinterval PRG T_u64 key 0 (n - 1) (replicate (n div 2) 0, replicate n 0) = Inr (nodes, t)"
    and l: "length t = n"
    and x: "\<forall>x<n. leaf_of_nodes T_u64 [nodes ! (x div 2)] x = eval_leaf PRG T_u64 key x \<and> t ! (x div 2) = snd (eval_nodes PRG T_u64 key x)"
    and z: "\<forall>i\<ge>n div 2. t ! i = replicate n 0 ! i"
    by auto
  show thesis
  proof (rule that [of "words_of_nodes n nodes" t])
    show "eval_range key n = Inr (words_of_nodes n nodes, t)" unfolding eval_range_def e by simp
    show "L64 (words_of_nodes n nodes ! i) = eval_leaf PRG T_u64 key i" if "i < n" for i
      using x that by (simp add: words_of_nodes_def leaf_of_nodes_def)
    show "t ! i = snd (eval_nodes PRG T_u64 key (2 * i))" if "i < n div 2" for i
      using x [rule_format, of "2 * i"] that by auto
  qed (use l z in auto)
qed

lemma xor_into_Inr:
  "length v = n \<Longrightarrow> length w = n \<Longrightarrow> xor_into n v w = Inr (map2 (XOR) v w)"
  by (auto simp: xor_into_def intro: nth_equalityI)

definition lo_wf :: "nat \<Rightarrow> locoram \<Rightarrow> bool" where
  "lo_wf n lo \<longleftrightarrow> lo_nitems lo = n \<and> length (secret_share lo) = n \<and> length (blind lo) = n \<and> length (peer_blinded lo) = n
     \<and> length (sbv_secret_share lo) = n \<and> length (sbv_blind lo) = n \<and> length (sbv_peer_blinded lo) = n"

lemma lo_wf_Locoram: "lo_wf n (Locoram n key)"
  by (simp add: lo_wf_def Locoram_def)

lemma set_share_wf: "lo_wf n lo \<Longrightarrow> set_share lo share = Inr lo' \<Longrightarrow> lo_wf n lo' \<and> secret_share lo' = share"
  by (auto simp: lo_wf_def set_share_def split: if_splits)

lemma gen_random_pair:
  assumes "target < n" "n < 2 ^ 64"
  obtains k0 k1 st' where "gen_random n target v st = (Inr (k0, k1), st')"
    "gen PRG T_u64 default_aes_key n target (L64 v) (rng_val st 0) (rng_val st 16) = Inr (k0, k1)"
    "st' = skip_rng 32 st"
proof -
  obtain k0 k1 where g: "gen PRG T_u64 default_aes_key n target (L64 v) (rng_val st 0) (rng_val st 16) = Inr (k0, k1)"
    using aes_prg.gen_total [OF assms(1), of T_u64 default_aes_key "L64 v" "rng_val st 0" "rng_val st 16"]
    by (auto simp: elements_per_vector_def)
  then have "gen_random n target v st = (Inr (k0, k1), skip_rng 32 st)"
    by (simp add: gen_random_def arc4random_val_eq Let_def)
  from that [OF this g] show thesis by simp
qed

lemma key_bytes_decode:
  assumes g: "gen PRG T_u64 default_aes_key n target v r0 r1 = Inr (k0, k1)" and n: "n < 2 ^ 64"
  shows "decode_key (serialize_dpf_key (aes_key_bytes pad) k0) = Inr k0"
    "decode_key (serialize_dpf_key (aes_key_bytes pad) k1) = Inr k1"
    "serialize_dpf_key (aes_key_bytes pad) k0 \<noteq> []" "serialize_dpf_key (aes_key_bytes pad) k1 \<noteq> []"
    "length (serialize_dpf_key (aes_key_bytes pad) k0) < 2 ^ 64" "length (serialize_dpf_key (aes_key_bytes pad) k1) < 2 ^ 64"
proof -
  note wf = generated_key_wf [OF g [unfolded default_aes_key_def] n]
  show "decode_key (serialize_dpf_key (aes_key_bytes pad) k0) = Inr k0"
    "decode_key (serialize_dpf_key (aes_key_bytes pad) k1) = Inr k1"
    using aes_raw.deserialize_serialize [OF wf(1), of pad "[]"] aes_raw.deserialize_serialize [OF wf(2), of pad "[]"]
    by (simp_all add: decode_key_def)
  show "serialize_dpf_key (aes_key_bytes pad) k0 \<noteq> []" "serialize_dpf_key (aes_key_bytes pad) k1 \<noteq> []"
    by (simp_all add: serialize_layout to_bytes_def le_bytes_def)
  show "length (serialize_dpf_key (aes_key_bytes pad) k0) < 2 ^ 64" "length (serialize_dpf_key (aes_key_bytes pad) k1) < 2 ^ 64"
    using aes_raw.length_serialize [OF wf(1)] aes_raw.length_serialize [OF wf(2)] wf(3-5) by simp_all
qed


text \<open>What a party does with the key it receives.\<close>

lemma apply_update_even:
  assumes "decode_key b = Inr key" "dk_nitems key = n" "0 < n" "even n" "lo_wf n lo" "dpf_depth T_u64 n \<le> length (dk_cw key)"
  obtains out where
    "apply_update b lo = Inr (lo\<lparr>secret_share := map2 (XOR) (secret_share lo) out, blind := map2 (XOR) (blind lo) out\<rparr>)"
    "length out = n" "\<And>x. x < n \<Longrightarrow> L64 (out ! x) = eval_leaf PRG T_u64 key x"
proof -
  obtain out flags where o: "eval_range key n = Inr (out, flags)" "length out = n"
    "\<And>x. x < n \<Longrightarrow> L64 (out ! x) = eval_leaf PRG T_u64 key x"
    by (rule eval_range_even [OF assms(2-4,6)]) blast
  have "apply_update b lo = Inr (lo\<lparr>secret_share := map2 (XOR) (secret_share lo) out, blind := map2 (XOR) (blind lo) out\<rparr>)"
    using assms(1,3,5) o(1,2) by (simp add: apply_update_def lo_wf_def xor_into_Inr)
  from that [OF this o(2,3)] show thesis .
qed

lemma pair_words:
  assumes g: "gen PRG T_u64 default_aes_key n target (L64 v) r0 r1 = Inr (k0, k1)"
    and "length out0 = n" "length out1 = n" "\<And>x. x < n \<Longrightarrow> L64 (out0 ! x) = eval_leaf PRG T_u64 k0 x"
    "\<And>x. x < n \<Longrightarrow> L64 (out1 ! x) = eval_leaf PRG T_u64 k1 x"
  shows "map2 (XOR) out0 out1 = (replicate n 0)[target := v]"
proof (rule nth_equalityI)
  fix x assume "x < length (map2 (XOR) out0 out1)"
  then have x: "x < n" using assms(2,3) by simp
  have "leaf_xor (L64 (out0 ! x)) (L64 (out1 ! x)) = (if x = target then L64 v else L64 0)"
    unfolding assms(4) [OF x] assms(5) [OF x] using aes_prg.dpf_correct [OF g _ x] by simp
  then have "out0 ! x XOR out1 ! x = (if x = target then v else 0)" by (simp split: if_splits)
  with x assms(2,3) aes_prg.gen_shape(2) [OF g] show "map2 (XOR) out0 out1 ! x = (replicate n 0)[target := v] ! x"
    by (simp add: nth_list_update)
qed (use assms in simp)

text \<open>The program of each party, up to what it sends and receives.\<close>

lemma log_update_simps [simp]:
  "lo_wf n (log_update i v lo) = lo_wf n lo" "secret_share (log_update i v lo) = secret_share lo"
  "blind (log_update i v lo) = blind lo" "update_vals (log_update i v lo) = update_vals lo @ [v]"
  "lo_nitems (log_update i v lo) = lo_nitems lo"
  by (simp_all add: log_update_def lo_wf_def)

lemma update_party:
  assumes "wired Online r st" "r \<noteq> P2" "lo_wf n lo" "unat i < n"
  shows "locoram_update pad (XShare i Ctx) v lo st = Await [recv_vec TYPE(u8) (mc_self (ps_ctx st))]
    (\<lambda>b. bind (lift_result (apply_update (b ! 0) (log_update (XShare i Ctx) v lo))) (\<lambda>lo. Return (lo, st)))"
  using assms wiredD(1) [OF assms(1)]
  by (simp add: locoram_update_def ref_update_def locoram_recv_and_apply_def Let_def bind_bind lo_wf_def not_le)

lemma update_dealer:
  assumes "wired Online P2 st" "lo_wf n lo" "unat i < n" "gen_random n 2 100 (skip_rng 16 st) = (Inr (k0, k1), skip_rng 48 st)"
  shows "locoram_update pad (XShare i Ctx) v lo st =
    Await [send_vec (peer_at P0 P0) (serialize_dpf_key (aes_key_bytes pad) k0),
           send_vec (peer_at P1 P1) (serialize_dpf_key (aes_key_bytes pad) k1)]
      (\<lambda>_. Return (log_update (XShare i Ctx) v lo, skip_rng 48 st))"
  using assms wiredD [OF assms(1)]
  by (auto simp: locoram_update_def ref_update_def send_keys_def Let_def arc4random_val_eq lo_wf_def not_le)

lemma xor_pair_words:
  fixes out0 out1 d :: "u64 list"
  assumes "map2 (XOR) out0 out1 = d" "length a = n" "length b = n" "length out0 = n" "length out1 = n"
  shows "map2 (XOR) (map2 (XOR) a out0) (map2 (XOR) b out1) = map2 (XOR) (map2 (XOR) a b) d"
proof (rule nth_equalityI)
  fix x assume "x < length (map2 (XOR) (map2 (XOR) a out0) (map2 (XOR) b out1))"
  then have x: "x < n" by (simp add: assms(2-))
  then have "out0 ! x XOR out1 ! x = d ! x" using assms by auto
  with x assms show "map2 (XOR) (map2 (XOR) a out0) (map2 (XOR) b out1) ! x = map2 (XOR) (map2 (XOR) a b) d ! x"
    by (simp add: assms(1) [symmetric] xor.assoc xor.left_commute)
qed (use assms in auto)

lemma locoram_update_joint:
  assumes w: "wired Online P0 s0" "wired Online P1 s1" "wired Online P2 s2"
    and lo: "lo_wf n lo0" "lo_wf n lo1" "lo_wf n lo2"
    and n: "2 < n" "even n" "n < 2 ^ 64"
    and i: "unat i0 < n" "unat i1 < n" "unat i2 < n"
  shows "\<exists>lo0' lo1' lo2'. joint (three (locoram_update pad (XShare i0 Ctx) v0 lo0 s0)
        (locoram_update pad (XShare i1 Ctx) v1 lo1 s1) (locoram_update pad (XShare i2 Ctx) v2 lo2 s2)) quiet
      (three (lo0', s0) (lo1', s1) (lo2', skip_rng 48 s2)) quiet
    \<and> lo_wf n lo0' \<and> lo_wf n lo1' \<and> lo_wf n lo2'
    \<and> map2 (XOR) (secret_share lo0') (secret_share lo1') =
        map2 (XOR) (map2 (XOR) (secret_share lo0) (secret_share lo1)) ((replicate n 0)[2 := 100])
    \<and> map2 (XOR) (blind lo0') (blind lo1') =
        map2 (XOR) (map2 (XOR) (blind lo0) (blind lo1)) ((replicate n 0)[2 := 100])
    \<and> update_vals lo0' = update_vals lo0 @ [v0] \<and> update_vals lo1' = update_vals lo1 @ [v1]"
proof -
  let ?s = "skip_rng 16 s2"
  obtain k0 k1 where gr: "gen_random n 2 100 ?s = (Inr (k0, k1), skip_rng 48 s2)"
    and g: "gen PRG T_u64 default_aes_key n 2 (L64 100) (rng_val ?s 0) (rng_val ?s 16) = Inr (k0, k1)"
    by (rule gen_random_pair [OF n(1,3), of 100 ?s]) simp
  note shape = aes_prg.gen_shape [OF g] and kb = key_bytes_decode [OF g n(3), where pad = pad]
  let ?l0 = "log_update (XShare i0 Ctx) v0 lo0" and ?l1 = "log_update (XShare i1 Ctx) v1 lo1"
  let ?l2 = "log_update (XShare i2 Ctx) v2 lo2"
  define upd :: "u64 list \<Rightarrow> locoram \<Rightarrow> locoram" where
    "upd = (\<lambda>out lo. lo\<lparr>secret_share := map2 (XOR) (secret_share lo) out, blind := map2 (XOR) (blind lo) out\<rparr>)"
  obtain out0 where a0: "apply_update (serialize_dpf_key (aes_key_bytes pad) k0) ?l0 = Inr (upd out0 ?l0)"
    and o0: "length out0 = n" "\<And>x. x < n \<Longrightarrow> L64 (out0 ! x) = eval_leaf PRG T_u64 k0 x"
    unfolding upd_def by (rule apply_update_even [OF kb(1) shape(4,3) n(2), of ?l0]) (use lo(1) shape(8) in \<open>simp, simp, blast\<close>)
  obtain out1 where a1: "apply_update (serialize_dpf_key (aes_key_bytes pad) k1) ?l1 = Inr (upd out1 ?l1)"
    and o1: "length out1 = n" "\<And>x. x < n \<Longrightarrow> L64 (out1 ! x) = eval_leaf PRG T_u64 k1 x"
    unfolding upd_def by (rule apply_update_even [OF kb(2) shape(5,3) n(2), of ?l1]) (use lo(2) shape(9) in \<open>simp, simp, blast\<close>)
  note pw = pair_words [OF g o0(1) o1(1) o0(2) o1(2)]
  have "joint (three (locoram_update pad (XShare i0 Ctx) v0 lo0 s0)
        (locoram_update pad (XShare i1 Ctx) v1 lo1 s1) (locoram_update pad (XShare i2 Ctx) v2 lo2 s2)) quiet
      (three (upd out0 ?l0, s0) (upd out1 ?l1, s1) (?l2, skip_rng 48 s2)) quiet"
    unfolding update_party [OF w(1) _ lo(1) i(1), simplified] update_party [OF w(2) _ lo(2) i(2), simplified]
      update_dealer [OF w(3) lo(3) i(3) gr] wiredD(3) [OF w(1)] wiredD(3) [OF w(2)] three.simps
    by (rule reaches_joint [OF deal_vec]) (use kb in \<open>simp_all add: a0 a1 joint_three_return\<close>)
  moreover have "lo_wf n (upd out0 ?l0)" "lo_wf n (upd out1 ?l1)" "lo_wf n ?l2"
    using lo o0(1) o1(1) by (auto simp: lo_wf_def upd_def log_update_def)
  ultimately show ?thesis
    using xor_pair_words [OF pw, of "secret_share lo0" n "secret_share lo1"] xor_pair_words [OF pw, of "blind lo0" n "blind lo1"]
      lo o0(1) o1(1)
    by (intro exI [of _ "upd out0 ?l0"] exI [of _ "upd out1 ?l1"] exI [of _ ?l2]) (simp add: upd_def lo_wf_def)
qed


section \<open>Reconstruction of the memory\<close>

lemma swap_bytes:
  fixes b0 b1 :: "byte list"
  assumes "length b0 = m" "length b1 = m" "0 < m" "m < 2 ^ 64"
  shows "reaches (three (Await [send_vec (peer_at P1 P1) b0] (\<lambda>_. Await [recv_vec TYPE(u8) (peer_at P1 P1)] k0))
      (Await [recv_vec TYPE(u8) (peer_at P0 P0)] (\<lambda>r. Await [send_vec (peer_at P0 P0) b1] (\<lambda>_. k1 r))) c) quiet
    (three (k0 [b1]) (k1 [b0]) c) quiet"
proof -
  define sz where "sz = (of_nat m :: u64)"
  define h where "h = to_bytes sz"
  have sz: "0 < sz" "sizeof TYPE(u8) * unat sz = m"
    using assms(3,4) by (simp_all add: sz_def of_nat_u64_gt_0 sizeof_def)
  have h: "length h = 8" "of_bytes h = sz" by (simp_all add: h_def)
  have send: "send_vec p b0 = Send (np_sock p) [h, b0]" "send_vec p b1 = Send (np_sock p) [h, b1]" for p
    using sz assms(1,2) by (simp_all add: send_vec_def h_def sz_def)
  show ?thesis
    unfolding send recv_vec_def np_sock_peer_at
    by (rule reaches_threeI [where as = "[ASend P0 P1, ASend P0 P1, ARecv P1 P0, ARecv P1 P0, ASend P1 P0, ASend P1 P0, ARecv P0 P1, ARecv P0 P1]"])
      (simp add: exec_simps h sz assms(1,2))
qed

lemma reconstruct_joint:
  assumes w: "wired Online P0 s0" "wired Online P1 s1" "wired Online P2 s2"
    and lo: "lo_wf n lo0" "lo_wf n lo1" and n: "0 < n" "n * 8 < 2 ^ 64"
  shows "joint (three (reconstruct_with_ctx Ctx lo0 s0) (reconstruct_with_ctx Ctx lo1 s1) (reconstruct_with_ctx Ctx lo2 s2)) quiet
    (three (map2 (XOR) (secret_share lo0) (secret_share lo1)) (map2 (XOR) (secret_share lo0) (secret_share lo1)) []) quiet"
proof -
  note [simp] = wiredD [OF w(1)] wiredD [OF w(2)] wiredD [OF w(3)]
  define v0 v1 where "v0 = secret_share lo0" and "v1 = secret_share lo1"
  have len: "length v0 = n" "length v1 = n" "lo_nitems lo0 = n" "lo_nitems lo1 = n"
    using lo by (simp_all add: lo_wf_def v0_def v1_def)
  have eq: "map (\<lambda>i. v0 ! i XOR v1 ! i) [0..<n] = map2 (XOR) v0 v1" "map (\<lambda>i. v1 ! i XOR v0 ! i) [0..<n] = map2 (XOR) v0 v1"
    by (rule nth_equalityI; simp add: len xor.commute)+
  have lb: "length (vec_bytes v0) = n * 8" "length (vec_bytes v1) = n * 8" by (simp_all add: len)
  show ?thesis
    unfolding reconstruct_with_ctx_def v0_def [symmetric] v1_def [symmetric]
    by (simp add: len lb Let_def)
      (rule reaches_joint [OF swap_bytes [OF lb]], use n len lb in \<open>simp_all add: eq joint_three_return\<close>)
qed


section \<open>Memory of an odd number of words\<close>

lemma eval_range_odd:
  assumes "odd n" "dpf_depth T_u64 (dk_nitems key) \<le> length (dk_cw key)"
  shows "eval_range key n = Inl array_overrun"
proof (rule ccontr)
  assume ne: "eval_range key n \<noteq> Inl array_overrun"
  have "e = array_overrun" if "eval_range key n = Inl e" for e
    using that evalinterval_overrun [OF _ assms(2)] by (auto simp: eval_range_def elim!: res_bind_InlE)
  with ne obtain r where "eval_range key n = Inr r" by (cases "eval_range key n") auto
  then obtain r where e: "evalinterval PRG T_u64 key 0 (n - 1) (replicate (n div 2) 0, replicate n 0) = Inr r"
    by (auto simp: eval_range_def res_bind_Inr_iff)
  have npl: "nodes_per_leaf T_u64 = 1" by (simp add: nodes_per_leaf_def)
  have "nodes_in_interval T_u64 0 (n - 1) = n div 2 + 1"
    using assms(1) by (auto simp: nodes_in_interval_def ceil_div_def elim!: oddE)
  with e obtain st where "shape st = (n div 2, n)"
    "finalize PRG T_u64 (dk_prgkey key) (dk_finalizer key) (n div 2 + 1) (n div 2 + 1) 0 st = Inr r"
    by (auto simp: evalinterval_def Let_def res_bind_Inr_iff npl shape_def oob_def split: if_splits
        dest!: interval_layers_shape store_shape)
  with finalize_fits [OF this(2) npl] show False by (simp add: shape_def)
qed


section \<open>The vectors of a memory keep their sizes\<close>

text \<open>The memories that operations make from a new one: whatever bytes a party is sent, and whatever fails.\<close>

inductive memory :: "nat \<Rightarrow> locoram \<Rightarrow> bool" for n where
  new: "memory n (Locoram n key)"
| share: "memory n lo \<Longrightarrow> set_share lo share = Inr lo' \<Longrightarrow> memory n lo'"
| log: "memory n lo \<Longrightarrow> memory n (log_update i v lo)"
| update: "memory n lo \<Longrightarrow> apply_update buf lo = Inr lo' \<Longrightarrow> memory n lo'"
| read: "memory n lo \<Longrightarrow> apply_read corr buf lo = Inr lo' \<Longrightarrow> memory n lo'"
| read_log: "memory n lo \<Longrightarrow> memory n (lo\<lparr>read_inds := read_inds lo @ [i]\<rparr>)"

lemma length_xor_into: "xor_into n v w = Inr u \<Longrightarrow> length u = length v"
  by (auto simp: xor_into_def range_error_def split: if_splits)

lemma apply_update_wf: "lo_wf n lo \<Longrightarrow> apply_update buf lo = Inr lo' \<Longrightarrow> lo_wf n lo'"
  by (auto simp: apply_update_def Let_def res_bind_Inr_iff lo_wf_def dest!: length_xor_into split: if_splits)

lemma apply_read_wf: "lo_wf n lo \<Longrightarrow> apply_read corr buf lo = Inr lo' \<Longrightarrow> lo_wf n lo'"
  by (auto simp: apply_read_def Let_def res_bind_Inr_iff lo_wf_def oob_def range_error_def dest!: length_xor_into split: if_splits)

lemma memory_wf: "memory n lo \<Longrightarrow> lo_wf n lo"
  by (induction rule: memory.induct)
    (auto simp: lo_wf_Locoram set_share_wf dest: apply_update_wf apply_read_wf, simp_all add: lo_wf_def)

lemma length_eval_range: "eval_range key n = Inr (out, flags) \<Longrightarrow> length out = n"
  by (auto simp: eval_range_def res_bind_Inr_iff words_of_nodes_def)

text \<open>A memory's update fails in the decoder or in the evaluation of the key, never on its own vectors.\<close>

lemma memory_update_cases:
  assumes "memory n lo" "0 < n"
  shows "apply_update buf lo = res_bind (decode_key buf) (\<lambda>key. res_bind (eval_range key n) (\<lambda>(out, _).
    Inr (lo\<lparr>secret_share := map2 (XOR) (secret_share lo) out, blind := map2 (XOR) (blind lo) out\<rparr>)))"
  using memory_wf [OF assms(1)] assms(2)
  by (auto simp: apply_update_def Let_def lo_wf_def xor_into_Inr dest!: length_eval_range
      split: sum.splits intro!: arg_cong [where f = "res_bind (decode_key buf)"] simp: res_bind_def)

text \<open>The final step of a read is defined on memories of at least eight words only.\<close>

lemma memory_read_result:
  assumes "memory n lo"
  shows "read_result lo = (if n < 8 then range_error
    else Inr (and_loop 0 (secret_share lo) (map2 (XOR) (sbv_secret_share lo) (sbv_peer_blinded lo))
      XOR and_loop 0 (peer_blinded lo) (sbv_blind lo) XOR cancellation_term lo))"
  using memory_wf [OF assms] by (simp add: read_result_def lo_wf_def vec_xor_def vec_and_def)

text \<open>The index of a read is not used: any two additive shares in range give the same computation.\<close>

lemma read_ignores_index:
  assumes "unat i < lo_nitems lo" "unat j < lo_nitems lo"
  shows "at_A pad (AShare i c) lo st = at_A pad (AShare j c) lo st"
  using assms by (simp add: at_A_def at_index_def read_A_def not_le)


section \<open>A write seen by a reconstruction\<close>

definition memory_words :: "locoram \<Rightarrow> locoram \<Rightarrow> u64 list" where
  "memory_words lo0 lo1 = map2 (XOR) (secret_share lo0) (secret_share lo1)"

lemma map2_xor_unit:
  "map2 (XOR) m ((replicate (length m) 0)[k := d]) = m[k := m ! k XOR d]" for m :: "u64 list"
  by (cases "k < length m") (auto simp: nth_list_update intro: nth_equalityI)

lemma update_then_reconstruct:
  assumes w: "wired Online P0 s0" "wired Online P1 s1" "wired Online P2 s2"
    and lo: "lo_wf n lo0" "lo_wf n lo1" "lo_wf n lo2"
    and n: "2 < n" "even n" "n * 8 < 2 ^ 64"
    and i: "unat i0 < n" "unat i1 < n" "unat i2 < n"
  shows "let m = memory_words lo0 lo1; m' = m[2 := m ! 2 XOR 100]
    in joint (three (bind (locoram_update pad (XShare i0 Ctx) v0 lo0 s0) (\<lambda>(lo, st). reconstruct_with_ctx Ctx lo st))
        (bind (locoram_update pad (XShare i1 Ctx) v1 lo1 s1) (\<lambda>(lo, st). reconstruct_with_ctx Ctx lo st))
        (bind (locoram_update pad (XShare i2 Ctx) v2 lo2 s2) (\<lambda>(lo, st). reconstruct_with_ctx Ctx lo st))) quiet
      (three m' m' []) quiet"
proof -
  have "n < 2 ^ 64" using n(3) by simp
  then obtain lo0' lo1' lo2' where u: "joint (three (locoram_update pad (XShare i0 Ctx) v0 lo0 s0)
        (locoram_update pad (XShare i1 Ctx) v1 lo1 s1) (locoram_update pad (XShare i2 Ctx) v2 lo2 s2)) quiet
      (three (lo0', s0) (lo1', s1) (lo2', skip_rng 48 s2)) quiet"
    and wf: "lo_wf n lo0'" "lo_wf n lo1'"
    and m: "map2 (XOR) (secret_share lo0') (secret_share lo1') =
        map2 (XOR) (map2 (XOR) (secret_share lo0) (secret_share lo1)) ((replicate n 0)[2 := 100])"
    using locoram_update_joint [OF w lo n(1,2) _ i, of pad v0 v1 v2] by blast
  have len: "length (memory_words lo0 lo1) = n" using lo by (simp add: memory_words_def lo_wf_def)
  have m': "map2 (XOR) (secret_share lo0') (secret_share lo1') = (memory_words lo0 lo1)[2 := memory_words lo0 lo1 ! 2 XOR 100]"
    unfolding m using map2_xor_unit [of "memory_words lo0 lo1" 2 100] unfolding len by (simp only: memory_words_def)
  have "wired Online P2 (skip_rng 48 s2)" using w(3) by simp
  from reconstruct_joint [OF w(1,2) this wf, of lo2'] n show ?thesis
    unfolding Let_def m' [symmetric] by (intro joint_three_bind [OF u]) simp
qed


section \<open>Sequences of updates refine a plain memory\<close>

text \<open>The calls a party makes, each with its index and value share, and the memory they are meant to change.\<close>

fun update_seq :: "(nat \<Rightarrow> byte) \<Rightarrow> (u64 xshare \<times> u64 xshare) list \<Rightarrow> locoram \<Rightarrow> pstate \<Rightarrow> (locoram \<times> pstate) coro" where
  "update_seq pad [] lo st = Return (lo, st)"
| "update_seq pad ((i, v) # ops) lo st = bind (locoram_update pad i v lo st) (\<lambda>(lo, st). update_seq pad ops lo st)"

definition plain_update :: "u64 list \<Rightarrow> u64 list" where
  "plain_update m = m[2 := m ! 2 XOR 100]"

text \<open>A call in which every party's own index share is in range.\<close>

definition in_range :: "nat \<Rightarrow> (role \<Rightarrow> u64 xshare \<times> u64 xshare) \<Rightarrow> bool" where
  "in_range n op \<longleftrightarrow> (\<forall>r. xs_ctx (fst (op r)) = Ctx \<and> unat (xs_val (fst (op r))) < n)"

lemma update_joint_words:
  assumes w: "wired Online P0 s0" "wired Online P1 s1" "wired Online P2 s2"
    and lo: "lo_wf n lo0" "lo_wf n lo1" "lo_wf n lo2" and n: "2 < n" "even n" "n < 2 ^ 64" and op: "in_range n op"
  obtains lo0' lo1' lo2' where "joint (three (locoram_update pad (fst (op P0)) (snd (op P0)) lo0 s0)
      (locoram_update pad (fst (op P1)) (snd (op P1)) lo1 s1) (locoram_update pad (fst (op P2)) (snd (op P2)) lo2 s2)) quiet
      (three (lo0', s0) (lo1', s1) (lo2', skip_rng 48 s2)) quiet"
    "lo_wf n lo0'" "lo_wf n lo1'" "lo_wf n lo2'" "memory_words lo0' lo1' = plain_update (memory_words lo0 lo1)"
    "update_vals lo0' = update_vals lo0 @ [snd (op P0)]" "update_vals lo1' = update_vals lo1 @ [snd (op P1)]"
proof -
  have ix: "fst (op r) = XShare (xs_val (fst (op r))) Ctx" "unat (xs_val (fst (op r))) < n" for r
  proof -
    have "xs_ctx (fst (op r)) = Ctx" using op by (simp add: in_range_def)
    then show "fst (op r) = XShare (xs_val (fst (op r))) Ctx" by (cases "fst (op r)") (simp add: XShare_def)
    show "unat (xs_val (fst (op r))) < n" using op by (simp add: in_range_def)
  qed
  have len: "length (memory_words lo0 lo1) = n" using lo by (simp add: memory_words_def lo_wf_def)
  obtain lo0' lo1' lo2' where u: "joint (three
      (locoram_update pad (XShare (xs_val (fst (op P0))) Ctx) (snd (op P0)) lo0 s0)
      (locoram_update pad (XShare (xs_val (fst (op P1))) Ctx) (snd (op P1)) lo1 s1)
      (locoram_update pad (XShare (xs_val (fst (op P2))) Ctx) (snd (op P2)) lo2 s2)) quiet
      (three (lo0', s0) (lo1', s1) (lo2', skip_rng 48 s2)) quiet"
    and l: "lo_wf n lo0'" "lo_wf n lo1'" "lo_wf n lo2'"
      "map2 (XOR) (secret_share lo0') (secret_share lo1') =
        map2 (XOR) (map2 (XOR) (secret_share lo0) (secret_share lo1)) ((replicate n 0)[2 := 100])"
      "update_vals lo0' = update_vals lo0 @ [snd (op P0)]" "update_vals lo1' = update_vals lo1 @ [snd (op P1)]"
    using locoram_update_joint [OF w lo n ix(2) [of P0] ix(2) [of P1] ix(2) [of P2],
        where pad = pad and ?v0.0 = "snd (op P0)" and ?v1.0 = "snd (op P1)" and ?v2.0 = "snd (op P2)"] by blast
  have "memory_words lo0' lo1' = plain_update (memory_words lo0 lo1)"
    unfolding plain_update_def map2_xor_unit [symmetric] len by (simp only: memory_words_def l(4))
  with that u [folded ix(1)] l show thesis by blast
qed

lemma update_seq_refines:
  assumes "wired Online P0 s0" "wired Online P1 s1" "wired Online P2 s2"
    and "lo_wf n lo0" "lo_wf n lo1" "lo_wf n lo2" and n: "2 < n" "even n" "n < 2 ^ 64"
    and "\<forall>op \<in> set ops. in_range n op"
  shows "\<exists>lo0' lo1' lo2'. joint (three (update_seq pad (map (\<lambda>op. op P0) ops) lo0 s0)
        (update_seq pad (map (\<lambda>op. op P1) ops) lo1 s1) (update_seq pad (map (\<lambda>op. op P2) ops) lo2 s2)) quiet
      (three (lo0', s0) (lo1', s1) (lo2', skip_rng (48 * length ops) s2)) quiet
    \<and> lo_wf n lo0' \<and> lo_wf n lo1' \<and> lo_wf n lo2'
    \<and> memory_words lo0' lo1' = (plain_update ^^ length ops) (memory_words lo0 lo1)
    \<and> update_vals lo0' = update_vals lo0 @ map (\<lambda>op. snd (op P0)) ops
    \<and> update_vals lo1' = update_vals lo1 @ map (\<lambda>op. snd (op P1)) ops"
  using assms(3-6,10)
proof (induction ops arbitrary: lo0 lo1 lo2 s2)
  case Nil
  have "skip_rng 0 s2 = s2" by (simp add: skip_rng_def)
  with Nil show ?case by (intro exI [of _ lo0] exI [of _ lo1] exI [of _ lo2]) (simp add: joint_three_return)
next
  case (Cons op ops)
  have "in_range n op" using Cons.prems by simp
  then obtain l0 l1 l2 where u: "joint (three (locoram_update pad (fst (op P0)) (snd (op P0)) lo0 s0)
      (locoram_update pad (fst (op P1)) (snd (op P1)) lo1 s1) (locoram_update pad (fst (op P2)) (snd (op P2)) lo2 s2)) quiet
      (three (l0, s0) (l1, s1) (l2, skip_rng 48 s2)) quiet"
    and l: "lo_wf n l0" "lo_wf n l1" "lo_wf n l2" "memory_words l0 l1 = plain_update (memory_words lo0 lo1)"
    "update_vals l0 = update_vals lo0 @ [snd (op P0)]" "update_vals l1 = update_vals lo1 @ [snd (op P1)]"
    using update_joint_words [OF assms(1,2) Cons.prems(1-4) n, of op pad] by blast
  have "wired Online P2 (skip_rng 48 s2)" using Cons.prems(1) by simp
  from Cons.IH [OF this l(1-3)] Cons.prems(5) obtain lo0' lo1' lo2' where
    r: "joint (three (update_seq pad (map (\<lambda>op. op P0) ops) l0 s0)
        (update_seq pad (map (\<lambda>op. op P1) ops) l1 s1) (update_seq pad (map (\<lambda>op. op P2) ops) l2 (skip_rng 48 s2))) quiet
      (three (lo0', s0) (lo1', s1) (lo2', skip_rng (48 + 48 * length ops) s2)) quiet"
    and l': "lo_wf n lo0'" "lo_wf n lo1'" "lo_wf n lo2'" "memory_words lo0' lo1' = (plain_update ^^ length ops) (memory_words l0 l1)"
    "update_vals lo0' = update_vals l0 @ map (\<lambda>op. snd (op P0)) ops" "update_vals lo1' = update_vals l1 @ map (\<lambda>op. snd (op P1)) ops"
    by auto
  have step: "update_seq pad (map (\<lambda>op. op r) (op # ops)) lo st =
    bind (locoram_update pad (fst (op r)) (snd (op r)) lo st) (\<lambda>(lo, st). update_seq pad (map (\<lambda>op. op r) ops) lo st)" for r lo st
    by (cases "op r") simp
  have "joint (three (update_seq pad (map (\<lambda>op. op P0) (op # ops)) lo0 s0)
        (update_seq pad (map (\<lambda>op. op P1) (op # ops)) lo1 s1) (update_seq pad (map (\<lambda>op. op P2) (op # ops)) lo2 s2)) quiet
      (three (lo0', s0) (lo1', s1) (lo2', skip_rng (48 * length (op # ops)) s2)) quiet"
    unfolding step by (rule joint_three_bind [OF u]) (use r in simp)
  with l l' show ?case
    by (intro exI [of _ lo0'] exI [of _ lo1'] exI [of _ lo2']) (simp add: funpow_swap1)
qed

end
