(* ===== verification/OtManager.thy ===== *)
theory OtManager
  imports Prelude
begin

text \<open>
  \<^verbatim>\<open>mpc/ot_manager.hpp\<close>: oblivious transfer of chosen messages on top of random transfers, and the worker
  thread with its task queue. The random transfer (\<^verbatim>\<open>SimplestOT\<close>) is a parameter here: for the receiver's
  choices it yields the sender's pads and the receiver's blocks; the theory \<open>SimplestOt\<close> puts the code in its place. The two tasks are split at their
  messages, so that their composition is explicit.
\<close>

section \<open>Transfers of chosen messages\<close>

type_synonym ot_pair = "m128 \<times> m128"

definition sel :: "ot_pair \<Rightarrow> bool \<Rightarrow> m128" where
  "sel p b = (if b then snd p else fst p)"

text \<open>The receiver's second step: one bit per transfer, set when the choice equals the random choice.\<close>

definition eq_bytes :: "nat \<Rightarrow> bool list \<Rightarrow> bool list \<Rightarrow> byte list" where
  "eq_bytes n choices q =
     fold (\<lambda>i eqb. let c = choices ! i; qb = q ! i; eq = (c = qb)
                  in if eq then eqb[i div 8 := eqb ! (i div 8) OR push_bit (i mod 8) 1] else eqb)
       [0..<n] (replicate ((n + 7) div 8) 0)"

text \<open>The sender's third step.\<close>

definition eq_bit :: "byte list \<Rightarrow> nat \<Rightarrow> bool" where
  "eq_bit eqb i = (drop_bit (i mod 8) (eqb ! (i div 8)) AND 1 \<noteq> 0)"

definition masked_pairs :: "nat \<Rightarrow> ot_pair list \<Rightarrow> ot_pair list \<Rightarrow> byte list \<Rightarrow> m128 list" where
  "masked_pairs n msgs pads eqb =
     concat (map (\<lambda>i. let eq = eq_bit eqb i
                      in [sel (msgs ! i) False XOR sel (pads ! i) (\<not> eq), sel (msgs ! i) True XOR sel (pads ! i) eq])
       [0..<n])"

definition unmask :: "nat \<Rightarrow> bool list \<Rightarrow> m128 list \<Rightarrow> m128 list \<Rightarrow> m128 list" where
  "unmask n choices masked r_q =
     map (\<lambda>i. masked ! (2 * i + (if choices ! i then 1 else 0)) XOR r_q ! i) [0..<n]"

text \<open>
  The tasks: \<open>Inl\<close> is what ends up in the future as an exception. With \<open>n = 0\<close> no message is exchanged
  (\<open>None\<close>).
\<close>

definition ot_send :: "nat \<Rightarrow> ot_pair list \<Rightarrow> ot_pair list \<Rightarrow> byte list \<Rightarrow> (m128 list option \<times> ot_pair list) result" where
  "ot_send n msgs pads eqb =
     (if length msgs \<noteq> n then Inl (Runtime_error ''ot_send: msgs.size() must equal n'')
      else if n = 0 then Inr (None, msgs)
      else Inr (Some (masked_pairs n msgs pads eqb), msgs))"

definition ot_receive_request :: "nat \<Rightarrow> bool list \<Rightarrow> bool list \<Rightarrow> byte list option result" where
  "ot_receive_request n choices q =
     (if length choices \<noteq> n then Inl (Runtime_error ''ot_receive: choices.size() must equal n'')
      else if n = 0 then Inr None
      else Inr (Some (eq_bytes n choices q)))"

definition ot_receive_finish :: "nat \<Rightarrow> bool list \<Rightarrow> m128 list \<Rightarrow> m128 list option \<Rightarrow> m128 list" where
  "ot_receive_finish n choices r_q reply = (case reply of None \<Rightarrow> [] | Some masked \<Rightarrow> unmask n choices masked r_q)"

text \<open>Both tasks on the two ends of the connection; \<open>rot q\<close> is the random transfer for choices \<open>q\<close>.\<close>

definition ot_transfer :: "(bool list \<Rightarrow> ot_pair list \<times> m128 list) \<Rightarrow> nat \<Rightarrow> ot_pair list \<Rightarrow> bool list \<Rightarrow> bool list
    \<Rightarrow> m128 list result" where
  "ot_transfer rot n msgs choices q =
     res_bind (ot_receive_request n choices q) (\<lambda>request.
     res_bind (ot_send n msgs (fst (rot q)) (case request of None \<Rightarrow> [] | Some eqb \<Rightarrow> eqb)) (\<lambda>(reply, _).
     Inr (ot_receive_finish n choices (snd (rot q)) reply)))"

text \<open>
  The tasks for random transfers only: \<open>ot_out\<close> is what the library leaves in the vector it is given (or
  its exception). Afterwards the first entry is printed, which an empty vector does not have.
\<close>

definition send_batch :: "(ot_pair list \<Rightarrow> ot_pair list result) \<Rightarrow> nat \<Rightarrow> ot_pair list \<Rightarrow> ot_pair list result" where
  "send_batch ot_out n msgs =
     res_bind (ot_out msgs) (\<lambda>msgs. if msgs = [] then Inl (Undefined ''msgs[0] of an empty batch'') else Inr msgs)"

definition recv_batch :: "(bool list \<Rightarrow> m128 list \<Rightarrow> m128 list result) \<Rightarrow> nat \<Rightarrow> bool list \<Rightarrow> m128 list \<Rightarrow> m128 list result" where
  "recv_batch ot_out n choices outputs =
     res_bind (ot_out choices outputs) (\<lambda>outputs.
       if choices = [] \<or> outputs = [] then Inl (Undefined ''outputs[0] of an empty batch'') else Inr outputs)"

text \<open>What a random transfer promises.\<close>

definition rot_correct :: "(bool list \<Rightarrow> ot_pair list \<times> m128 list) \<Rightarrow> nat \<Rightarrow> bool" where
  "rot_correct rot n \<longleftrightarrow>
     (\<forall>q. length q = n \<longrightarrow> length (fst (rot q)) = n \<and> length (snd (rot q)) = n \<and>
        (\<forall>i<n. snd (rot q) ! i = sel (fst (rot q) ! i) (q ! i)))"

lemma eq_bytes_bit:
  assumes "length choices = n" "length q = n" "i < n"
  shows "eq_bit (eq_bytes n choices q) i \<longleftrightarrow> choices ! i = q ! i"
proof -
  define f where "f = (\<lambda>i (eqb :: byte list). let c = choices ! i; qb = q ! i; eq = (c = qb)
                  in if eq then eqb[i div 8 := eqb ! (i div 8) OR push_bit (i mod 8) 1] else eqb)"
  have len: "length (fold f [0..<m] eqb) = length eqb" for m eqb
    by (induction m) (simp_all add: f_def Let_def)
  have step: "bit (f m eqb ! j) b \<longleftrightarrow> bit (eqb ! j) b \<or> m = 8 * j + b \<and> choices ! m = q ! m"
    if "m div 8 < length eqb" "b < 8" for m eqb j b
  proof -
    have "m = 8 * j + b \<longleftrightarrow> m div 8 = j \<and> m mod 8 = b" using that(2) by auto
    moreover have "bit (push_bit (m mod 8) (1 :: byte)) b \<longleftrightarrow> m mod 8 = b"
      using that(2) by (auto simp: bit_simps)
    ultimately show ?thesis
      using that(1) by (auto simp: f_def Let_def bit_or_iff nth_list_update simp del: push_bit_of_1)
  qed
  have bits: "bit (fold f [0..<m] (replicate ((n + 7) div 8) 0) ! j) b \<longleftrightarrow> 8 * j + b < m \<and> choices ! (8 * j + b) = q ! (8 * j + b)"
    if "m \<le> n" "j < (n + 7) div 8" "b < 8" for m j b
    using that
  proof (induction m)
    case (Suc m)
    have m: "m div 8 < (n + 7) div 8" using Suc.prems(1) by simp
    with Suc show ?case by (auto simp: step len less_Suc_eq)
  qed simp
  have "eq_bit eqb i \<longleftrightarrow> bit (eqb ! (i div 8)) (i mod 8)" for eqb
    by (simp add: eq_bit_def and_one_eq mod_2_eq_odd bit_iff_odd_drop_bit)
  then show ?thesis
    using bits [of n "i div 8" "i mod 8"] assms(3) by (simp add: eq_bytes_def f_def)
qed

lemma nth_masked_pairs:
  assumes "i < n"
  shows "masked_pairs n msgs pads eqb ! (2 * i + (if c then 1 else 0)) =
    sel (msgs ! i) c XOR sel (pads ! i) (c = eq_bit eqb i)"
proof -
  have gen: "concat (map (\<lambda>i. [f i, g i]) [0..<n]) ! (2 * i + (if c then 1 else 0)) = (if c then g i else f i)"
    for f g :: "nat \<Rightarrow> m128"
    using assms
  proof (induction n)
    case (Suc n)
    have l: "length (concat (map (\<lambda>i. [f i, g i]) [0..<n])) = 2 * n"
      by (simp add: length_concat_map_const [where w = 2])
    show ?case using Suc l by (cases "i < n") (auto simp: nth_append less_Suc_eq)
  qed simp
  show ?thesis unfolding masked_pairs_def Let_def gen by (auto simp: sel_def)
qed

text \<open>The receiver obtains exactly the message of its choice in every transfer.\<close>

lemma ot_transfer_correct:
  assumes "length msgs = n" "length choices = n" "length q = n" "rot_correct rot n"
  shows "ot_transfer rot n msgs choices q = Inr (map (\<lambda>i. sel (msgs ! i) (choices ! i)) [0..<n])"
proof (cases "n = 0")
  case True
  with assms show ?thesis by (simp add: ot_transfer_def ot_receive_request_def ot_send_def ot_receive_finish_def)
next
  case False
  have "unmask n choices (masked_pairs n msgs (fst (rot q)) (eq_bytes n choices q)) (snd (rot q))
      = map (\<lambda>i. sel (msgs ! i) (choices ! i)) [0..<n]"
    unfolding unmask_def
  proof (rule map_cong [OF refl])
    fix i assume "i \<in> set [0..<n]"
    then have i: "i < n" by simp
    have r: "snd (rot q) ! i = sel (fst (rot q) ! i) (q ! i)" using assms(3,4) i by (simp add: rot_correct_def)
    have "(choices ! i = eq_bit (eq_bytes n choices q) i) = q ! i"
      using eq_bytes_bit [OF assms(2,3) i] by auto
    then show "masked_pairs n msgs (fst (rot q)) (eq_bytes n choices q) ! (2 * i + (if choices ! i then 1 else 0)) XOR snd (rot q) ! i
        = sel (msgs ! i) (choices ! i)"
      unfolding nth_masked_pairs [OF i] r by simp
  qed
  with False assms show ?thesis
    by (simp add: ot_transfer_def ot_receive_request_def ot_send_def ot_receive_finish_def)
qed


section \<open>The worker thread\<close>

text \<open>
  The state the mutex protects, what the worker is doing, and, as ghost state, all tasks in the order
  they were queued and completed. The destructor clears \<open>running\<close> and then joins the worker.
\<close>

datatype 't worker = Waiting | Executing 't | Exited

record 't ot_mgr =
  tasks :: "'t list"
  running :: bool
  worker :: "'t worker"
  submitted :: "'t list"
  completed :: "'t list"

definition ot_mgr_init :: "'t ot_mgr" where
  "ot_mgr_init = \<lparr>tasks = [], running = True, worker = Waiting, submitted = [], completed = []\<rparr>"

definition enqueue :: "'t \<Rightarrow> 't ot_mgr \<Rightarrow> 't ot_mgr" where
  "enqueue t m = m\<lparr>tasks := tasks m @ [t], submitted := submitted m @ [t]\<rparr>"

definition shut_down :: "'t ot_mgr \<Rightarrow> 't ot_mgr" where
  "shut_down m = m\<lparr>running := False\<rparr>"

text \<open>The body of the loop of \<^verbatim>\<open>run\<close>: when the wait condition holds, return or take the front task.\<close>

definition wake :: "'t ot_mgr \<Rightarrow> 't ot_mgr option" where
  "wake m =
     (if worker m = Waiting \<and> (\<not> running m \<or> tasks m \<noteq> []) then
        (if \<not> running m \<and> tasks m = [] then Some (m\<lparr>worker := Exited\<rparr>)
         else Some (m\<lparr>worker := Executing (hd (tasks m)), tasks := tl (tasks m)\<rparr>))
      else None)"

definition finish_task :: "'t ot_mgr \<Rightarrow> 't ot_mgr option" where
  "finish_task m =
     (case worker m of
        Executing t \<Rightarrow> Some (m\<lparr>worker := Waiting, completed := completed m @ [t]\<rparr>)
      | _ \<Rightarrow> None)"

inductive ot_step :: "'t ot_mgr \<Rightarrow> 't ot_mgr \<Rightarrow> bool" where
  step_enqueue: "running m \<Longrightarrow> ot_step m (enqueue t m)"
| step_shut_down: "running m \<Longrightarrow> ot_step m (shut_down m)"
| step_wake: "wake m = Some m' \<Longrightarrow> ot_step m m'"
| step_finish: "finish_task m = Some m' \<Longrightarrow> ot_step m m'"

inductive_cases ot_stepE: "ot_step m m'"

inductive ot_reach :: "'t ot_mgr \<Rightarrow> bool" where
  reach_init: "ot_reach ot_mgr_init"
| reach_step: "ot_reach m \<Longrightarrow> ot_step m m' \<Longrightarrow> ot_reach m'"

definition in_progress :: "'t ot_mgr \<Rightarrow> 't list" where
  "in_progress m = (case worker m of Executing t \<Rightarrow> [t] | _ \<Rightarrow> [])"

text \<open>Tasks run one at a time in queue order; the worker exits only after the queue has drained.\<close>

definition ot_inv :: "'t ot_mgr \<Rightarrow> bool" where
  "ot_inv m \<longleftrightarrow> submitted m = completed m @ in_progress m @ tasks m
     \<and> (worker m = Exited \<longrightarrow> \<not> running m \<and> tasks m = [])"

lemmas ot_step_defs = enqueue_def shut_down_def wake_def finish_task_def in_progress_def

lemma ot_inv_step: "ot_step m m' \<Longrightarrow> ot_inv m \<Longrightarrow> ot_inv m'"
  by (erule ot_stepE) (auto simp: ot_inv_def ot_step_defs split: if_splits worker.splits)

lemma ot_reach_inv: "ot_reach m \<Longrightarrow> ot_inv m"
  by (induction rule: ot_reach.induct)
    (auto simp: ot_inv_def ot_mgr_init_def in_progress_def dest: ot_inv_step [unfolded ot_inv_def in_progress_def])

text \<open>After shutdown the worker's own steps lead to its exit, whatever is still queued.\<close>

definition left_to_do :: "'t ot_mgr \<Rightarrow> nat" where
  "left_to_do m = 2 * length (tasks m) + (case worker m of Waiting \<Rightarrow> 1 | Executing _ \<Rightarrow> 2 | Exited \<Rightarrow> 0)"

lemma ot_progress:
  assumes "\<not> running m" "worker m \<noteq> Exited"
  shows "\<exists>m'. ot_step m m'"
proof -
  have "wake m \<noteq> None \<or> finish_task m \<noteq> None"
    using assms by (cases "worker m") (auto simp: wake_def finish_task_def)
  then show ?thesis by (auto intro: ot_step.intros)
qed

lemma ot_decrease:
  assumes "ot_step m m'" "\<not> running m"
  shows "left_to_do m' < left_to_do m \<and> \<not> running m'"
  using assms
  by (auto elim!: ot_stepE simp: ot_step_defs left_to_do_def neq_Nil_conv split: if_splits worker.splits)

lemma ot_drains:
  assumes "ot_reach m" "\<not> running m"
  shows "\<exists>m'. ot_step\<^sup>*\<^sup>* m m' \<and> worker m' = Exited \<and> completed m' = submitted m"
  using assms
proof (induction "left_to_do m" arbitrary: m rule: less_induct)
  case less
  show ?case
  proof (cases "worker m = Exited")
    case True
    with ot_reach_inv [OF less.prems(1)] show ?thesis
      by (intro exI [of _ m]) (simp add: ot_inv_def in_progress_def)
  next
    case False
    then obtain m1 where s: "ot_step m m1" using ot_progress less.prems(2) by blast
    with ot_decrease [OF s less.prems(2)] less.hyps [of m1] less.prems(1) obtain m' where
      "ot_step\<^sup>*\<^sup>* m1 m'" "worker m' = Exited" "completed m' = submitted m1" by (blast intro: reach_step)
    moreover have "submitted m1 = submitted m"
      using s less.prems(2) by (auto elim!: ot_stepE simp: ot_step_defs split: if_splits worker.splits)
    ultimately show ?thesis using s by (metis converse_rtranclp_into_rtranclp)
  qed
qed


section \<open>Waiting for a future\<close>

text \<open>\<^verbatim>\<open>await_future\<close> polls; \<open>ready i\<close> is the answer of the \<open>i\<close>-th poll.\<close>

partial_function (option) await_loop :: "(nat \<Rightarrow> bool) \<Rightarrow> 'v result \<Rightarrow> nat \<Rightarrow> 'v result option" where
  "await_loop ready value i = (if ready i then Some value else await_loop ready value (i + 1))"

definition await_future :: "(nat \<Rightarrow> bool) \<Rightarrow> 'v result \<Rightarrow> 'v result option" where
  "await_future ready value = await_loop ready value 0"

lemma await_loop_ready: "ready (i + k) \<Longrightarrow> await_loop ready value i = Some value"
proof (induction k arbitrary: i)
  case 0
  then show ?case by (subst await_loop.simps) simp
next
  case (Suc k)
  then show ?case by (subst await_loop.simps) simp
qed

lemma await_loop_Some: "await_loop ready value i = Some v \<Longrightarrow> \<exists>j. ready j"
  by (rule await_loop.raw_induct [rotated]) (auto split: if_splits)

lemma await_loop_never: "(\<And>j. \<not> ready j) \<Longrightarrow> await_loop ready value i = None"
  using await_loop_Some [of ready "value" i] by (cases "await_loop ready value i") auto

end
