(* ===== verification/Program.thy ===== *)
theory Program
  imports MpcCorrect
begin

text \<open>
  \<^verbatim>\<open>mpc/main.cpp\<close>: the three programs that the argument of the executable selects. A program is the coroutine it runs
  once its connections stand; its sockets are arguments, and its result is the list of shares it prints. The generator
  behind \<^verbatim>\<open>arc4random_buf\<close> is an argument too.
\<close>

section \<open>The code\<close>

definition start_state :: "mpc_ctx \<Rightarrow> (nat \<Rightarrow> byte) \<Rightarrow> pstate" where
  "start_state ctx rng = \<lparr>ps_ctx = ctx, ps_rng = rng, ps_pos = 0\<rparr>"

definition run_p2 :: "role \<Rightarrow> role \<Rightarrow> (nat \<Rightarrow> byte) \<Rightarrow> u64 list coro" where
  "run_p2 sock0 sock1 rng =
     (let p0 = \<lparr>np_role = P0, np_sock = sock0\<rparr>;
          p1 = \<lparr>np_role = P1, np_sock = sock1\<rparr>;
          st = start_state (MPCContext P2 p0 (Some p0) (Some p1)) rng;
          dummy_x = AShare 0 Ctx; dummy_y = AShare 0 Ctx
      in bind (mpc_mul dummy_x dummy_y P2 p0 (Some p0) (Some p1) st) (\<lambda>(_, st).
         let xx = XShare (0 :: u64) Ctx; yy = XShare 0 Ctx
         in bind (mpc_and xx yy P2 p0 (Some p0) (Some p1) st) (\<lambda>_. Return [])))"

definition run_p0 :: "role \<Rightarrow> role \<Rightarrow> (nat \<Rightarrow> byte) \<Rightarrow> u64 list coro" where
  "run_p0 sock_p2 peer_sock rng =
     (let self = \<lparr>np_role = P0, np_sock = sock_p2\<rparr>;
          peer = \<lparr>np_role = P1, np_sock = peer_sock\<rparr>;
          st = start_state (MPCContext P0 self (Some peer) None) rng;
          a = AShare 5 Ctx; b = AShare 7 Ctx
      in bind (mpc_mul a b P0 self (Some peer) None st) (\<lambda>(z0, st).
         let x1 = XShare (1 :: u64) Ctx; y1 = XShare 1 Ctx
         in bind (mpc_and x1 y1 P0 self (Some peer) None st) (\<lambda>(z_and0, st). Return [z0, z_and0])))"

definition run_p1 :: "role \<Rightarrow> role \<Rightarrow> (nat \<Rightarrow> byte) \<Rightarrow> u64 list coro" where
  "run_p1 sock_p2 peer_sock rng =
     (let self = \<lparr>np_role = P1, np_sock = sock_p2\<rparr>;
          peer = \<lparr>np_role = P0, np_sock = peer_sock\<rparr>;
          st = start_state (MPCContext P1 self (Some peer) None) rng;
          a = AShare 5 Ctx; b = AShare 7 Ctx
      in bind (mpc_mul a b P1 self (Some peer) None st) (\<lambda>(z1, st).
         let x1 = XShare (1 :: u64) Ctx; y1 = XShare 1 Ctx
         in bind (mpc_and x1 y1 P1 self (Some peer) None st) (\<lambda>(z_and1, st). Return [z1, z_and1])))"

text \<open>
  \<^verbatim>\<open>main\<close>: the exit status, or the coroutine to spawn before \<^verbatim>\<open>io.run()\<close>. \<open>argv\<close> holds the name of the executable first;
  \<open>conn r\<close> gives the sockets that party \<open>r\<close>'s connections end in.
\<close>

definition main_program :: "(role \<Rightarrow> role \<times> role) \<Rightarrow> string list \<Rightarrow> (nat \<Rightarrow> byte) \<Rightarrow> int + u64 list coro" where
  "main_program conn argv rng =
     (if length argv \<noteq> 2 then Inl 1
      else let role = argv ! 1
           in if role = ''p0'' then Inr (case conn P0 of (a, b) \<Rightarrow> run_p0 a b rng)
              else if role = ''p1'' then Inr (case conn P1 of (a, b) \<Rightarrow> run_p1 a b rng)
              else if role = ''p2'' then Inr (case conn P2 of (a, b) \<Rightarrow> run_p2 a b rng)
              else Inl 1)"


section \<open>The three programs together\<close>

text \<open>The sockets after P0 and P1 have connected to P2, and P1 to P0.\<close>

definition connections :: "role \<Rightarrow> role \<times> role" where
  "connections = three (P2, P1) (P2, P0) (P0, P1)"

lemma wired_start:
  "wired Online P0 (start_state (MPCContext P0 (peer_at P0 P2) (Some (peer_at P1 P1)) None) rng)"
  "wired Online P1 (start_state (MPCContext P1 (peer_at P1 P2) (Some (peer_at P0 P0)) None) rng)"
  "wired Online P2 (start_state (MPCContext P2 (peer_at P0 P0) (Some (peer_at P0 P0)) (Some (peer_at P1 P1))) rng)"
  by (simp_all add: wired_def start_state_def MPCContext_def)

lemma programs_joint:
  "\<exists>z0 z1 a0 a1. joint (three (run_p0 P2 P1 rng0) (run_p1 P2 P0 rng1) (run_p2 P0 P1 rng2)) quiet
      (three [z0, a0] [z1, a1] []) quiet \<and> z0 + z1 = 140 \<and> a0 XOR a1 = 0"
proof -
  let ?s0 = "start_state (MPCContext P0 (peer_at P0 P2) (Some (peer_at P1 P1)) None) rng0"
    and ?s1 = "start_state (MPCContext P1 (peer_at P1 P2) (Some (peer_at P0 P0)) None) rng1"
    and ?s2 = "start_state (MPCContext P2 (peer_at P0 P0) (Some (peer_at P0 P0)) (Some (peer_at P1 P1))) rng2"
  note w = wired_start [of rng0] wired_start [of rng1] wired_start [of rng2]
  have w2: "wired Online P2 (skip_rng 32 ?s2)" using w(9) by simp
  obtain z0 z1 where m: "joint (three (mpc_mul (AShare 5 Ctx) (AShare 7 Ctx) P0 (peer_at P0 P2) (Some (peer_at P1 P1)) None ?s0)
        (mpc_mul (AShare 5 Ctx) (AShare 7 Ctx) P1 (peer_at P1 P2) (Some (peer_at P0 P0)) None ?s1)
        (mpc_mul (AShare 0 Ctx) (AShare 0 Ctx) P2 (peer_at P0 P0) (Some (peer_at P0 P0)) (Some (peer_at P1 P1)) ?s2)) quiet
      (three (z0, ?s0) (z1, ?s1) (0, skip_rng 32 ?s2)) quiet" "z0 + z1 = 140"
    using mpc_mul_online [OF w(1) w(5) w(9), of "AShare 5 Ctx" "AShare 5 Ctx" "AShare 0 Ctx" "AShare 7 Ctx" "AShare 7 Ctx" "AShare 0 Ctx"]
    by auto
  obtain a0 a1 t where a: "joint (three (mpc_and (XShare (1 :: u64) Ctx) (XShare 1 Ctx) P0 (peer_at P0 P2) (Some (peer_at P1 P1)) None ?s0)
        (mpc_and (XShare 1 Ctx) (XShare 1 Ctx) P1 (peer_at P1 P2) (Some (peer_at P0 P0)) None ?s1)
        (mpc_and (XShare 0 Ctx) (XShare 0 Ctx) P2 (peer_at P0 P0) (Some (peer_at P0 P0)) (Some (peer_at P1 P1)) (skip_rng 32 ?s2))) quiet
      (three (a0, ?s0) (a1, ?s1) (0, t)) quiet" "a0 XOR a1 = 0"
    using mpc_and_online [where 'a = 64, OF w(1) w(5) w2, of "XShare 1 Ctx" "XShare 1 Ctx" "XShare 0 Ctx" "XShare 1 Ctx" "XShare 1 Ctx" "XShare 0 Ctx"]
    by auto
  have "joint (three (run_p0 P2 P1 rng0) (run_p1 P2 P0 rng1) (run_p2 P0 P1 rng2)) quiet (three [z0, a0] [z1, a1] []) quiet"
    unfolding run_p0_def run_p1_def run_p2_def Let_def peer_at_def [symmetric]
    by (rule joint_three_bind [OF m(1)], simp, rule joint_three_bind [OF a(1)], simp add: joint_three_return)
  with m(2) a(2) show ?thesis by blast
qed

end
