(* ===== verification/DpfWide.thy ===== *)
theory DpfWide
  imports DpfEval
begin

text \<open>
  \<^verbatim>\<open>mpc/dpf/dpf.h\<close>, the header of the prototypes in \<^verbatim>\<open>mpc/dpf\<close>: key generation with a callback for the finalizer. The tree
  code, \<^verbatim>\<open>eval\<close> and \<^verbatim>\<open>__evalinterval\<close> are those of \<^verbatim>\<open>mpc/dpf.hpp\<close> and modelled there. The bit helpers it calls have their
  only definitions in \<^verbatim>\<open>mpc/types.hpp\<close>, since \<^verbatim>\<open>dpf/block.h\<close> is empty. The leaves are unpacked: one block or
  an array of blocks, as in \<^verbatim>\<open>dpf/preproc.cpp\<close>; the branch for packed leaves does not compile for \<^verbatim>\<open>__m128i\<close> nodes. For
  leaves of several blocks the layers lie at the end of the output array, and \<^verbatim>\<open>finalize\<close> overwrites them from the front.
\<close>

section \<open>The code\<close>

type_synonym 'k finalizer_callback =
  "'k \<Rightarrow> nat \<Rightarrow> leaf \<Rightarrow> m128 \<times> m128 \<Rightarrow> u8 \<times> u8 \<Rightarrow> (m128 list \<times> m128 list) result"

text \<open>The bytes of an unpacked leaf, as blocks.\<close>

fun unpacked_blocks :: "leaf \<Rightarrow> m128 list option" where
  "unpacked_blocks (L128 v) = Some [v]"
| "unpacked_blocks (LArr vs) = Some vs"
| "unpacked_blocks _ = None"

definition default_make_finalizer :: "'k prg \<Rightarrow> leaf_ty \<Rightarrow> 'k finalizer_callback" where
  "default_make_finalizer G lt prgkey target val s t =
     (let npl = nodes_per_leaf lt;
          stretchedL = stretch_leaf G prgkey (fst s) npl;
          stretchedR = stretch_leaf G prgkey (snd s) npl
      in case unpacked_blocks val of
           None \<Rightarrow> Inl (Undefined ''packed leaf: __m128i has no member shiftl'')
         | Some finalizer \<Rightarrow>
             let f = map (\<lambda>j. finalizer ! j XOR (stretchedL ! j XOR stretchedR ! j)) [0..<npl]
             in Inr (f, f))"

definition gen_cb ::
    "'k prg \<Rightarrow> leaf_ty \<Rightarrow> 'k \<Rightarrow> nat \<Rightarrow> nat \<Rightarrow> leaf \<Rightarrow> 'k finalizer_callback \<Rightarrow> m128 \<Rightarrow> m128 \<Rightarrow> ('k dpf_key \<times> 'k dpf_key) result"
  where
  "gen_cb G lt prgkey n target val finalize_cb rnd0 rnd1 =
     (if n \<le> target then Inl (Runtime_error ''target point out of range'')
      else
        let t0 = get_lsb rnd0 1;
            t1 = (if t0 = 0 then 1 else 0);
            root0 = rnd0;
            root1 = set_lsb rnd1 (t1 \<noteq> 0);
            nbits = input_bits n;
            (sL, tL, sR, tR, cw) =
              fold (gen_layer G prgkey nbits target) [0..<dpf_depth lt n] (root0, t0, root1, t1, [])
        in res_bind (finalize_cb prgkey target val (sL, sR) (tL, tR)) (\<lambda>(finalizer0, finalizer1).
           Inr (\<lparr>dk_nitems = n, dk_root = root0, dk_cw = cw, dk_finalizer = finalizer0, dk_prgkey = prgkey\<rparr>,
                \<lparr>dk_nitems = n, dk_root = root1, dk_cw = cw, dk_finalizer = finalizer1, dk_prgkey = prgkey\<rparr>)))"


section \<open>Unpacked leaves\<close>

text \<open>The leaf types of one or more blocks.\<close>

definition wide :: "leaf_ty \<Rightarrow> bool" where
  "wide lt \<longleftrightarrow> lt = T_m128 \<or> (\<exists>m. lt = T_arr (Suc m))"

lemma wide_simps:
  assumes "wide lt"
  shows "leaves_per_node lt = 1" "\<not> is_packed lt" "0 < nodes_per_leaf lt" "lt \<noteq> T_arr 0" "dpf_depth lt n = ceillog2 n"
  using assms
  by (auto simp: wide_def leaves_per_node_def is_packed_def nodes_per_leaf_def ceil_div_def dpf_depth_def)

lemma unpacked_blocks_wide:
  assumes "wide lt" "leaf_type val = lt"
  obtains bs where "unpacked_blocks val = Some bs" "length bs = nodes_per_leaf lt"
    "leaf_of_nodes lt bs i = val" "leaf_of_nodes lt (replicate (nodes_per_leaf lt) 0) i = set_zero val"
  using assms
  by (cases val) (auto simp: wide_def leaf_of_nodes_def is_packed_def nodes_per_leaf_def ceil_div_def map_replicate_const)

lemma leaf_xor_wide:
  assumes "wide lt" "length a = nodes_per_leaf lt" "length b = nodes_per_leaf lt"
  shows "leaf_xor (leaf_of_nodes lt a i) (leaf_of_nodes lt b i) = leaf_of_nodes lt (map2 (XOR) a b) i"
  using assms by (auto simp: wide_def leaf_of_nodes_def is_packed_def nodes_per_leaf_def ceil_div_def length_Suc_conv)

context block_prg
begin

text \<open>A generation with the default callback, unfolded.\<close>

lemma gen_cb_cases:
  assumes "target < n" "wide lt" "leaf_type val = lt"
  obtains s0 p s1 cws fin where
    "dpf_inv G k (input_bits n) target (r0, get_lsb r0 1)
       (set_lsb r1 (\<not> bit r0 0), get_lsb (set_lsb r1 (\<not> bit r0 0)) 1) (dpf_depth lt n) s0 p s1 cws"
    "length fin = nodes_per_leaf lt"
    "leaf_of_nodes lt (map2 (XOR) (finalize_node G lt k fin s0 (of_bool p)) (finalize_node G lt k fin s1 (of_bool (\<not> p)))) i = val"
    "gen_cb G lt k n target val (default_make_finalizer G lt) r0 r1 =
       Inr (\<lparr>dk_nitems = n, dk_root = r0, dk_cw = cws, dk_finalizer = fin, dk_prgkey = k\<rparr>,
            \<lparr>dk_nitems = n, dk_root = set_lsb r1 (\<not> bit r0 0), dk_cw = cws, dk_finalizer = fin, dk_prgkey = k\<rparr>)"
proof -
  let ?n = "nodes_per_leaf lt"
  define t1 :: u8 where "t1 = (if get_lsb r0 1 = 0 then 1 else 0)"
  have t: "get_lsb r0 1 = of_bool (bit r0 0)" "t1 = of_bool (\<not> bit r0 0)" "(t1 \<noteq> 0) = (\<not> bit r0 0)"
    by (auto simp: t1_def get_lsb_1 get_lsb_1 [unfolded One_nat_def])
  obtain s0 p s1 cws where
    f: "fold (gen_layer G k (input_bits n) target) [0..<dpf_depth lt n]
      (r0, get_lsb r0 1, set_lsb r1 (\<not> bit r0 0), t1, []) = (s0, of_bool p, s1, of_bool (\<not> p), cws)"
    and inv: "dpf_inv G k (input_bits n) target (r0, get_lsb r0 1) (set_lsb r1 (\<not> bit r0 0), t1)
      (dpf_depth lt n) s0 p s1 cws"
    using gen_fold_correct [OF t(1,2)] by metis
  obtain bs where bs: "unpacked_blocks val = Some bs" "length bs = ?n" "leaf_of_nodes lt bs i = val"
    by (rule unpacked_blocks_wide [OF assms(2,3)])
  define fin where "fin = map (\<lambda>j. bs ! j XOR (stretch_leaf G k s0 ?n ! j XOR stretch_leaf G k s1 ?n ! j)) [0..<?n]"
  have len: "length fin = ?n" by (simp add: fin_def)
  have "map2 (XOR) (finalize_node G lt k fin s0 (of_bool p)) (finalize_node G lt k fin s1 (of_bool (\<not> p))) = bs"
    unfolding finalize_node_xor(2) [OF len] by (auto simp: fin_def list_eq_iff_nth_eq bs(2))
  moreover have "default_make_finalizer G lt k target val (s0, s1) tt = Inr (fin, fin)" for tt
    by (simp add: default_make_finalizer_def bs(1) fin_def Let_def)
  then have "gen_cb G lt k n target val (default_make_finalizer G lt) r0 r1 =
       Inr (\<lparr>dk_nitems = n, dk_root = r0, dk_cw = cws, dk_finalizer = fin, dk_prgkey = k\<rparr>,
            \<lparr>dk_nitems = n, dk_root = set_lsb r1 (\<not> bit r0 0), dk_cw = cws, dk_finalizer = fin, dk_prgkey = k\<rparr>)"
    using assms(1) by (simp only: gen_cb_def Let_def t1_def [symmetric] t(3) f not_le [symmetric] if_False
        case_prod_conv res_bind_simps)
  ultimately show thesis
    using that inv len bs(3) by (simp only: get_lsb_set_lsb t(2))
qed

lemma gen_cb_correct:
  assumes "target < n" "wide lt" "leaf_type val = lt" "i < n"
  shows "\<exists>k0 k1. gen_cb G lt k n target val (default_make_finalizer G lt) r0 r1 = Inr (k0, k1)
    \<and> dk_nitems k0 = n \<and> dk_nitems k1 = n
    \<and> leaf_xor (eval_leaf G lt k0 i) (eval_leaf G lt k1 i) = (if i = target then val else set_zero val)
    \<and> (\<exists>q. snd (eval_nodes G lt k0 i) = of_bool q \<and> snd (eval_nodes G lt k1 i) = of_bool (q \<noteq> (i = target)))"
proof (rule gen_cb_cases [OF assms(1-3), where k = k and ?r0.0 = r0 and ?r1.0 = r1 and i = i], goal_cases)
  case (1 s0 p s1 cws fin)
  let ?k0 = "\<lparr>dk_nitems = n, dk_root = r0, dk_cw = cws, dk_finalizer = fin, dk_prgkey = k\<rparr>"
    and ?k1 = "\<lparr>dk_nitems = n, dk_root = set_lsb r1 (\<not> bit r0 0), dk_cw = cws, dk_finalizer = fin, dk_prgkey = k\<rparr>"
  note w = wide_simps [OF assms(2)]
  note pair = eval_nodes_pair [OF w(4) assms(1,4) 1(1) refl [of ?k0] refl [of ?k1]]
  have z: "leaf_of_nodes lt (replicate (nodes_per_leaf lt) 0) i = set_zero val"
    by (rule unpacked_blocks_wide [OF assms(2,3), of i])
  have "leaf_xor (eval_leaf G lt ?k0 i) (eval_leaf G lt ?k1 i) = (if i = target then val else set_zero val)
    \<and> (\<exists>q. snd (eval_nodes G lt ?k0 i) = of_bool q \<and> snd (eval_nodes G lt ?k1 i) = of_bool (q \<noteq> (i = target)))"
  proof (cases "i = target")
    case True
    with pair 1(3) show ?thesis by (auto simp: eval_leaf_def w(1) leaf_xor_wide [OF assms(2)] intro: exI [of _ p])
  next
    case False
    with pair obtain s q where "eval_nodes G lt ?k0 i = (s, of_bool q)" "eval_nodes G lt ?k1 i = (s, of_bool q)"
      by (auto simp: w(1))
    with False z show ?thesis
      by (auto simp: eval_leaf_def leaf_xor_wide [OF assms(2)] finalize_node_xor(1) [OF 1(2)])
  qed
  with 1(4) show ?case by auto
qed

lemma gen_cb_shape:
  assumes "gen_cb G lt k n target val (default_make_finalizer G lt) r0 r1 = Inr (k0, k1)" "wide lt" "leaf_type val = lt"
  shows "dk_nitems k0 = n" "dk_nitems k1 = n" "dk_prgkey k0 = k" "dk_prgkey k1 = k"
    "length (dk_cw k0) = ceillog2 n" "length (dk_cw k1) = ceillog2 n"
    "length (dk_finalizer k0) = nodes_per_leaf lt" "length (dk_finalizer k1) = nodes_per_leaf lt"
proof -
  have t: "target < n" using assms(1) by (simp add: gen_cb_def split: if_splits)
  obtain s0 p s1 cws fin where g: "dpf_inv G k (input_bits n) target (r0, get_lsb r0 1)
       (set_lsb r1 (\<not> bit r0 0), get_lsb (set_lsb r1 (\<not> bit r0 0)) 1) (dpf_depth lt n) s0 p s1 cws"
    "length fin = nodes_per_leaf lt"
    "gen_cb G lt k n target val (default_make_finalizer G lt) r0 r1 =
       Inr (\<lparr>dk_nitems = n, dk_root = r0, dk_cw = cws, dk_finalizer = fin, dk_prgkey = k\<rparr>,
            \<lparr>dk_nitems = n, dk_root = set_lsb r1 (\<not> bit r0 0), dk_cw = cws, dk_finalizer = fin, dk_prgkey = k\<rparr>)"
    by (rule gen_cb_cases [OF t assms(2,3)])
  have "length cws = ceillog2 n" using g(1) by (simp add: dpf_inv_def wide_simps [OF assms(2)])
  with g(2) assms(1) [unfolded g(3)]
  show "dk_nitems k0 = n" "dk_nitems k1 = n" "dk_prgkey k0 = k" "dk_prgkey k1 = k"
    "length (dk_cw k0) = ceillog2 n" "length (dk_cw k1) = ceillog2 n"
    "length (dk_finalizer k0) = nodes_per_leaf lt" "length (dk_finalizer k1) = nodes_per_leaf lt"
    by auto
qed

lemma gen_cb_pair:
  assumes "target < n" "wide lt" "leaf_type val = lt"
  obtains k0 k1 where "gen_cb G lt k n target val (default_make_finalizer G lt) r0 r1 = Inr (k0, k1)"
    "dk_nitems k0 = n" "dk_nitems k1 = n" "length (dk_cw k0) = ceillog2 n" "length (dk_cw k1) = ceillog2 n"
    "\<And>i. i < n \<Longrightarrow> leaf_xor (eval_leaf G lt k0 i) (eval_leaf G lt k1 i) = (if i = target then val else set_zero val)"
    "\<And>i. i < n \<Longrightarrow> \<exists>q. snd (eval_nodes G lt k0 i) = of_bool q \<and> snd (eval_nodes G lt k1 i) = of_bool (q \<noteq> (i = target))"
proof -
  obtain k0 k1 where g: "gen_cb G lt k n target val (default_make_finalizer G lt) r0 r1 = Inr (k0, k1)"
    "dk_nitems k0 = n" "dk_nitems k1 = n"
    using gen_cb_correct [OF assms assms(1)] by blast
  note all = gen_cb_correct [OF assms, where k = k and ?r0.0 = r0 and ?r1.0 = r1, unfolded g(1)]
  show thesis
    by (rule that [OF g gen_cb_shape(5,6) [OF g(1) assms(2,3)]]) (use all in auto)
qed

end


section \<open>Evaluation of a range of unpacked leaves\<close>

text \<open>
  With several blocks per leaf the layers work behind a prefix of the output that they do not touch, exactly as
  they work in an array without it.
\<close>

definition with_prefix :: "m128 list \<Rightarrow> bufs result \<Rightarrow> bufs result" where
  "with_prefix pre r = res_bind r (\<lambda>(out, t). Inr (pre @ out, t))"

lemma with_prefix_simps [simp]:
  "with_prefix pre (Inl e) = Inl e" "with_prefix pre (Inr (out, t)) = Inr (pre @ out, t)"
  by (simp_all add: with_prefix_def)

lemma load_prefix:
  "length pre = n * (npl - 1) \<Longrightarrow> load n npl b i (pre @ out, t) = load n 1 b i (out, t)"
  by (auto simp: load_def s_pos_def Let_def nth_append)

lemma store_prefix:
  "length pre = n * (npl - 1) \<Longrightarrow> store n npl b i v (pre @ out, t) = with_prefix pre (store n 1 b i v (out, t))"
  by (auto simp: store_def s_pos_def Let_def list_update_append oob_def)

lemma with_prefix_bind:
  assumes "\<And>out t. f (pre @ out, t) = with_prefix pre (g (out, t))"
  shows "res_bind (with_prefix pre r) f = with_prefix pre (res_bind r g)"
  using assms by (cases r) auto

lemma visit2_prefix:
  assumes "length pre = n * (npl - 1)"
  shows "visit2 G k cw n npl cur j i (pre @ out, t) = with_prefix pre (visit2 G k cw n 1 cur j i (out, t))"
  unfolding visit2_def load_prefix [OF assms] using store_prefix [OF assms]
  by (cases "load n 1 (1 - cur) j (out, t)") (auto simp: with_prefix_bind split: prod.splits)

lemma visit1_prefix:
  assumes "length pre = n * (npl - 1)"
  shows "visit1 G k cw n npl cur d j i (pre @ out, t) = with_prefix pre (visit1 G k cw n 1 cur d j i (out, t))"
  unfolding visit1_def load_prefix [OF assms] using store_prefix [OF assms]
  by (cases "load n 1 (1 - cur) j (out, t)") (auto split: prod.splits)

lemma visit_loop_prefix:
  assumes "length pre = n * (npl - 1)"
  shows "visit_loop G k cw n npl cur m j i (pre @ out, t) = with_prefix pre (visit_loop G k cw n 1 cur m j i (out, t))"
  by (induction m arbitrary: j i out t)
    (simp_all add: visit2_prefix [OF assms] with_prefix_bind)

lemma interval_layer_prefix:
  assumes "length pre = n * (npl - 1)"
  shows "interval_layer G key n npl nbits depth from_node l cur (pre @ out, t) =
    with_prefix pre (interval_layer G key n 1 nbits depth from_node l cur (out, t))"
proof -
  note simps = visit1_prefix [OF assms] visit2_prefix [OF assms] visit_loop_prefix [OF assms]
  have first: "(if c then visit1 G k cw n npl cur 1 0 0 (pre @ out, t) else Inr (pre @ out, t)) =
    with_prefix pre (if c then visit1 G k cw n 1 cur 1 0 0 (out, t) else Inr (out, t))" for c k cw
    by (simp add: simps)
  show ?thesis
    unfolding interval_layer_def Let_def first
    by (cases "length (dk_cw key) \<le> l")
      (simp add: cw_oob_def with_prefix_def, simp only: if_False, rule with_prefix_bind, subst simps(3), rule with_prefix_bind, simp add: simps(1,2))
qed

lemma interval_layers_prefix:
  assumes "length pre = n * (npl - 1)"
  shows "interval_layers G key n npl nbits depth from_node left l cur (pre @ out, t) =
    with_prefix pre (interval_layers G key n 1 nbits depth from_node left l cur (out, t))"
  by (induction left arbitrary: l cur out t)
    (simp_all add: interval_layer_prefix [OF assms] with_prefix_bind)

text \<open>\<^verbatim>\<open>finalize\<close> reads node \<open>k\<close> of the last layer at \<open>n * (npl - 1) + k\<close>, which no earlier leaf has overwritten.\<close>

lemma take_drop_eqI:
  "length b = m \<Longrightarrow> q + m \<le> length xs \<Longrightarrow> (\<And>r. r < m \<Longrightarrow> xs ! (q + r) = b ! r) \<Longrightarrow> take m (drop q xs) = b"
  by (rule nth_equalityI) auto

lemma node_behind_leaf:
  fixes npl :: nat
  assumes "i < j" "j < n" "0 < npl"
  shows "(i + 1) * npl \<le> n * (npl - 1) + j"
proof -
  have "(i + 1) * (npl - 1) \<le> n * (npl - 1)" using assms by (intro mult_le_mono1) simp
  then have "(i + 1) * (npl - 1) + (i + 1) \<le> n * (npl - 1) + j" using assms(1) by linarith
  moreover have "(i + 1) * (npl - 1) + (i + 1) = (i + 1) * npl" using assms(3) by (cases npl) auto
  ultimately show ?thesis by simp
qed

lemma finalize_wide:
  assumes npl: "npl = nodes_per_leaf lt" "0 < npl" and "n * npl \<le> length out" "n \<le> length t" "i + left = n"
    and "\<And>j. i \<le> j \<Longrightarrow> j < n \<Longrightarrow> out ! (n * (npl - 1) + j) = S j"
  shows "\<exists>out'. finalize G lt k fin n left i (out, t) = Inr (out', t) \<and> length out' = length out
    \<and> (\<forall>j. i \<le> j \<longrightarrow> j < n \<longrightarrow> take npl (drop (j * npl) out') = finalize_node G lt k fin (S j) (t ! j))
    \<and> (\<forall>p. p < i * npl \<or> n * npl \<le> p \<longrightarrow> out' ! p = out ! p)"
  using assms(3-)
proof (induction left arbitrary: i out)
  case 0
  then show ?case by auto
next
  case (Suc left)
  define b where "b = finalize_node G lt k fin (S i) (t ! i)"
  have lb: "length b = npl" by (simp add: b_def npl(1) finalize_node_def Let_def)
  have i: "i < n" using Suc.prems by simp
  then have step: "(i + 1) * npl \<le> n * npl" by (intro mult_le_mono1) simp
  then have fit: "(i + 1) * npl \<le> length out" using Suc.prems(1) by linarith
  have off: "n * (npl - 1) + n = n * npl" using npl(2) by (cases npl) auto
  define o1 where "o1 = memcpy_at out (i * npl) b"
  have l1: "length o1 = length out" using fit lb by (simp add: o1_def)
  have o1: "o1 ! p = (if i * npl \<le> p \<and> p < (i + 1) * npl then b ! (p - i * npl) else out ! p)" for p
    using nth_memcpy_at [of "i * npl" b out p] fit lb by (simp add: o1_def add.commute)
  have s1: "o1 ! (n * (npl - 1) + j) = S j" if "i + 1 \<le> j" "j < n" for j
    using node_behind_leaf [of i j n npl] that npl(2) Suc.prems(4) [of j] by (subst o1) auto
  obtain out' where out': "finalize G lt k fin n left (i + 1) (o1, t) = Inr (out', t)" "length out' = length out"
    "\<And>j. i + 1 \<le> j \<Longrightarrow> j < n \<Longrightarrow> take npl (drop (j * npl) out') = finalize_node G lt k fin (S j) (t ! j)"
    "\<And>p. p < (i + 1) * npl \<or> n * npl \<le> p \<Longrightarrow> out' ! p = o1 ! p"
    using Suc.IH [of o1 "i + 1"] Suc.prems(1-3) s1 l1 by auto
  have ld: "load n (nodes_per_leaf lt) 0 i (out, t) = Inr (S i, t ! i)"
    using Suc.prems i off by (simp add: load_def s_pos_def t_pos_def npl(1))
  have "finalize G lt k fin n (Suc left) i (out, t) = Inr (out', t)"
    using fit out'(1) by (simp add: ld [folded npl(1)] b_def [symmetric] npl(1) [symmetric] o1_def)
  moreover have "take npl (drop (i * npl) out') = b"
    by (rule take_drop_eqI [OF lb]) (use fit out'(2,4) o1 in auto)
  moreover have "out' ! p = out ! p" if "p < i * npl \<or> n * npl \<le> p" for p
    using that out'(4) [of p] step by (auto simp: o1)
  ultimately show ?case using out'(2,3) by (auto simp: b_def not_less_eq_eq le_Suc_eq dest!: le_neq_implies_less)
qed

lemma finalize_all:
  assumes "npl = nodes_per_leaf lt" "0 < npl" "n * npl \<le> length out" "n \<le> length t"
    and "\<And>j. j < n \<Longrightarrow> out ! (n * (npl - 1) + j) = S j"
  obtains out' where "finalize G lt k fin n n 0 (out, t) = Inr (out', t)" "length out' = length out"
    "\<And>j. j < n \<Longrightarrow> take npl (drop (j * npl) out') = finalize_node G lt k fin (S j) (t ! j)"
  using finalize_wide [OF assms(1-4), of 0 n S G k fin] assms(5) by auto

context block_prg
begin

text \<open>Over the whole domain, leaf \<open>x\<close> of the output holds the blocks of the point evaluation at \<open>x\<close>.\<close>

lemma evalinterval_wide:
  assumes w: "wide lt" and N: "0 < n" "dk_nitems key = n" and npl: "npl = nodes_per_leaf lt"
    and fit: "n * npl \<le> length out" "n \<le> length t" and cw: "ceillog2 n \<le> length (dk_cw key)"
  obtains out' t' where "evalinterval G lt key 0 (n - 1) (out, t) = Inr (out', t')"
    "length out' = length out" "length t' = length t"
    "\<And>x. x < n \<Longrightarrow> leaf_of_nodes lt (take npl (drop (x * npl) out')) x = eval_leaf G lt key x"
    "\<And>x. x < n \<Longrightarrow> t' ! x = snd (eval_nodes G lt key x)"
proof -
  note ws = wide_simps [OF w]
  define pre where "pre = take (n * (npl - 1)) out"
  define o1 where "o1 = drop (n * (npl - 1)) out"
  define d where "d = ceillog2 n"
  have out: "out = pre @ o1" by (simp add: pre_def o1_def)
  have off: "n * (npl - 1) + n = n * npl" using ws(3) by (cases npl) (auto simp: npl)
  then have lp: "length pre = n * (npl - 1)" "n \<le> length o1" using fit(1) by (simp_all add: pre_def o1_def)
  obtain s1 s2 where s1: "store n 1 (d mod 2) 0 (dk_root key, get_lsb (dk_root key) 1) (o1, t) = Inr s1"
    and s2: "interval_layers G key n 1 (input_bits n) d 0 d 0 (d mod 2) s1 = Inr s2"
      "\<And>i. i < n \<Longrightarrow> view s2 i = node_at G key d i" "shape s2 = shape (o1, t)"
    using interval_tree [OF N(1) d_def, of "(o1, t)" key "input_bits n" thesis] lp fit(2) cw by (auto simp: fits_def d_def)
  have len: "length (pre @ fst s2) = length out" "length (snd s2) = length t"
    using s2(3) by (simp_all add: shape_def out)
  have at: "(pre @ fst s2) ! (n * (npl - 1) + j) = fst (node_at G key d j)" if "j < n" for j
    using s2(2) [OF that, symmetric] lp(1) by (simp add: view_def nth_append)
  obtain out' where f: "finalize G lt (dk_prgkey key) (dk_finalizer key) n n 0 (pre @ fst s2, snd s2) = Inr (out', snd s2)"
    "length out' = length out"
    "\<And>j. j < n \<Longrightarrow> take npl (drop (j * npl) out') =
       finalize_node G lt (dk_prgkey key) (dk_finalizer key) (fst (node_at G key d j)) (snd s2 ! j)"
    by (rule finalize_all [OF npl ws(3) [folded npl], of n "pre @ fst s2" "snd s2" "\<lambda>j. fst (node_at G key d j)"
          G "dk_prgkey key" "dk_finalizer key"]) (use at fit len in auto)
  have nodes: "nodes_in_interval lt 0 (n - 1) = n" using N(1) by (simp add: nodes_in_interval_def ws(1) ceil_div_def)
  have "evalinterval G lt key 0 (n - 1) (out, t) = Inr (out', snd s2)"
    unfolding evalinterval_def N(2) ws(5) nodes npl [symmetric] Let_def d_def [symmetric]
    using s1 s2(1) f(1) N(1)
    by (cases s1; cases s2) (simp add: out store_prefix [OF lp(1)] interval_layers_prefix [OF lp(1)])
  moreover have "eval_nodes G lt key x = node_at G key d x" if "x < n" for x
    using eval_nodes_node_at [OF ws(4), of x key G] that N(2) by (simp add: ws(1,5) d_def)
  moreover have "snd s2 ! x = snd (node_at G key d x)" if "x < n" for x
    using s2(2) [OF that] by (metis view_def snd_conv)
  ultimately show thesis
    using that [of out' "snd s2"] f(2,3) len(2) by (simp add: eval_leaf_def split_def Let_def)
qed

end

end
