(* ===== verification/Prototype.thy ===== *)
theory Prototype
  imports DpfWide
begin

text \<open>
  \<^verbatim>\<open>mpc/dpf/dpf.cpp\<close>: the single-process prototype of the blinded reads behind the distributed memory. It keeps a shared
  database with blinded copies, selects an entry by the flags of a DPF, reads it by dot products that a dealer's
  cancellation terms correct, moves the selection to a new target, and finally reads a public database by private
  information retrieval at an offset. Values from \<^verbatim>\<open>arc4random_buf\<close> and the contents of arrays that the code does not
  initialise are fields of an input record; the exponent of the domain size is the argument, already parsed. The result
  holds the values the program prints, apart from the gammas and cancellation terms. The local variables that are not
  used (\<^verbatim>\<open>Y_i_star0\<close>, \<^verbatim>\<open>cancellation_correction0\<close> and their partners) and the timing are left out.
\<close>

section \<open>The code\<close>

definition mm_set1_epi8 :: "u8 \<Rightarrow> m128" where
  "mm_set1_epi8 b = of_bytes (replicate 16 b)"

definition mm_add_epi8 :: "m128 \<Rightarrow> m128 \<Rightarrow> m128" where
  "mm_add_epi8 a b = of_bytes (map2 (+) (to_bytes a) (to_bytes b))"

text \<open>\<^verbatim>\<open>(i + offset) % nitems\<close>, on 64-bit words.\<close>

definition rot :: "nat \<Rightarrow> u64 \<Rightarrow> nat \<Rightarrow> nat" where
  "rot n offset i = unat (of_nat i + offset) mod n"

text \<open>The two functions \<^verbatim>\<open>dotProductVector\<close>.\<close>

definition dot_flags :: "m128 list \<Rightarrow> u8 list \<Rightarrow> nat \<Rightarrow> u64 \<Rightarrow> m128" where
  "dot_flags proofdb t n offset =
     fold (\<lambda>i accumulator.
       let mask = mm_set1_epi8 (- (t ! i AND 1)); masked = proofdb ! rot n offset i AND mask
       in accumulator XOR masked) [0..<n] 0"

definition dot_words :: "u64 list \<Rightarrow> u64 list \<Rightarrow> nat \<Rightarrow> u64" where
  "dot_words X Y n = fold (\<lambda>j dot. dot + X ! j * Y ! j) [0..<n] 0"

text \<open>\<^verbatim>\<open>refresh_blinds\<close>, with the arrays it updates returned: \<open>(DB0, DB0_tilde, X0)\<close>.\<close>

definition refresh_blinds :: "u64 list \<Rightarrow> u64 list \<Rightarrow> u64 list \<Rightarrow> u64 list \<Rightarrow> u64 list \<Rightarrow> nat \<Rightarrow> u64 list \<times> u64 list \<times> u64 list" where
  "refresh_blinds DB0 DB0_tilde X0 update0 update1 n =
     (map (\<lambda>j. DB0 ! j + update0 ! j) [0..<n],
      map (\<lambda>j. DB0_tilde ! j - update1 ! j + update1 ! j) [0..<n],
      map (\<lambda>j. X0 ! j - update0 ! j) [0..<n])"

record proto_input =
  in_X0 :: "u64 list"
  in_X1 :: "u64 list"
  in_Y0 :: "u64 list"
  in_Y1 :: "u64 list"
  in_f0 :: "u64 list"
  in_roots :: "nat \<Rightarrow> m128 \<times> m128"
  in_mem0 :: bufs
  in_mem1 :: bufs
  in_alpha :: u64
  in_alpha0 :: u64
  in_proof0 :: u64
  in_proof1 :: u64
  in_target0 :: u64

record proto_output =
  out_flags :: "(nat \<times> u64) list"
  out_dot :: u64
  out_assert1 :: u64
  out_assert2 :: u64
  out_reconstruction :: "nat list"
  out_dot_new :: u64
  out_x :: m128
  out_check0 :: m128
  out_check1 :: m128
  out_BB0 :: "m128 list"
  out_BB1 :: "m128 list"
  out_differ :: "nat list"

definition target_ind :: nat where "target_ind = 5"
definition target_ind2 :: nat where "target_ind2 = 5"
definition target_value :: leaf where "target_value = L128 (mm_set_epi64x 100 500)"

text \<open>The seven calls of \<^verbatim>\<open>gen\<close>; the keys of the first are used.\<close>

definition proto_gen :: "nat \<Rightarrow> nat \<Rightarrow> m128 \<times> m128 \<Rightarrow> (AES_KEY dpf_key \<times> AES_KEY dpf_key) result" where
  "proto_gen n target roots =
     gen_cb PRG T_m128 default_aes_key n target target_value (default_make_finalizer PRG T_m128) (fst roots) (snd roots)"

definition proto_keys :: "nat \<Rightarrow> (nat \<Rightarrow> m128 \<times> m128) \<Rightarrow> (AES_KEY dpf_key \<times> AES_KEY dpf_key) result" where
  "proto_keys n roots =
     (let alpha = 534
      in res_bind (proto_gen n target_ind (roots 0)) (\<lambda>keys.
         res_bind (proto_gen n target_ind (roots 1)) (\<lambda>_.
         res_bind (proto_gen n target_ind (roots 2)) (\<lambda>_.
         res_bind (proto_gen n alpha (roots 3)) (\<lambda>_.
         res_bind (proto_gen n alpha (roots 4)) (\<lambda>_.
         res_bind (proto_gen n alpha (roots 5)) (\<lambda>_.
         res_bind (proto_gen n alpha (roots 6)) (\<lambda>_. Inr keys))))))))"

text \<open>The selection vectors from the flags of the two keys.\<close>

definition select_entry :: "u8 list \<Rightarrow> u8 list \<Rightarrow> nat \<Rightarrow> u64 \<times> u64" where
  "select_entry t0 t1 j =
     (let e0 = ucast (t0 ! j) :: u64; e1 = - ucast (t1 ! j) :: u64
      in if j = target_ind then
           let e1 = (if e0 = 0 then 1 else e1); e0 = (if e1 = 0 then 1 else e0) in (e0, e1)
         else (e0, e1))"

definition select_vectors :: "u8 list \<Rightarrow> u8 list \<Rightarrow> nat \<Rightarrow> u64 list \<times> u64 list" where
  "select_vectors t0 t1 n = (map (\<lambda>j. fst (select_entry t0 t1 j)) [0..<n], map (\<lambda>j. snd (select_entry t0 t1 j)) [0..<n])"

definition flag_report :: "u8 list \<Rightarrow> u8 list \<Rightarrow> u64 list \<Rightarrow> u64 list \<Rightarrow> nat \<Rightarrow> (nat \<times> u64) list" where
  "flag_report t0 t1 e0 e1 n = map (\<lambda>j. (j, e0 ! j + e1 ! j)) (filter (\<lambda>j. t0 ! j \<noteq> t1 ! j) [0..<n])"

text \<open>Both parties' dot products, with \<^verbatim>\<open>e0_plus\<close> and \<^verbatim>\<open>e1_plus\<close>.\<close>

definition blinded_read :: "u64 list \<Rightarrow> u64 list \<Rightarrow> u64 list \<Rightarrow> u64 list \<Rightarrow> u64 list \<Rightarrow> u64 list \<Rightarrow> u64 list \<Rightarrow> u64 list
    \<Rightarrow> u64 list \<Rightarrow> u64 list \<Rightarrow> u64 \<Rightarrow> u64 \<Rightarrow> nat \<Rightarrow> u64" where
  "blinded_read DB0 DB1 DB0_tilde DB1_tilde e0 e1 e0_tilde e1_tilde Y0 Y1 term0 term1 n =
     (let e0_plus = map (\<lambda>j. e0 ! j + e1_tilde ! j) [0..<n];
          e1_plus = map (\<lambda>j. e1 ! j + e0_tilde ! j) [0..<n];
          dot0 = dot_words DB0 e0_plus n - dot_words Y0 DB1_tilde n + term0;
          dot1 = dot_words DB1 e1_plus n - dot_words Y1 DB0_tilde n + term1
      in dot0 + dot1)"

text \<open>The loop \<^verbatim>\<open>for (j = 0; j + 3 < nitems; j += 4)\<close> that adds the rotated outputs.\<close>

definition add_rotated :: "nat \<Rightarrow> u64 \<Rightarrow> m128 list \<Rightarrow> m128 list \<Rightarrow> m128 list" where
  "add_rotated n offset output BB =
     fold (\<lambda>j BB. BB[j := mm_add_epi8 (BB ! j) (output ! rot n offset j)]) [0..<4 * (n div 4)] BB"

text \<open>The final loop: indices where the low words differ are printed, elsewhere the flags must agree.\<close>

fun compare_outputs :: "m128 list \<Rightarrow> m128 list \<Rightarrow> u8 list \<Rightarrow> u8 list \<Rightarrow> nat list \<Rightarrow> nat list result" where
  "compare_outputs o0 o1 t0 t1 [] = Inr []"
| "compare_outputs o0 o1 t0 t1 (j # js) =
     (if mm_cvtsi128_si64 (o0 ! j) \<noteq> mm_cvtsi128_si64 (o1 ! j)
      then res_bind (compare_outputs o0 o1 t0 t1 js) (\<lambda>r. Inr (j # r))
      else if t0 ! j \<noteq> t1 ! j then Inl (Assertion ''_t0[j] == _t1[j]'')
      else compare_outputs o0 o1 t0 t1 js)"

text \<open>The shared database, its selection and reads: lines from the random blinds to the second dot product.\<close>

record proto_reads =
  rd_dot :: u64
  rd_assert1 :: u64
  rd_assert2 :: u64
  rd_reconstruction :: "nat list"
  rd_dot_new :: u64

definition proto_read :: "proto_input \<Rightarrow> u64 list \<Rightarrow> u64 list \<Rightarrow> nat \<Rightarrow> proto_reads" where
  "proto_read i e0 e1 n =
     (let X0 = in_X0 i; X1 = in_X1 i; Y0 = in_Y0 i; Y1 = in_Y1 i; f0 = in_f0 i; alpha = in_alpha i;
          DB0 = replicate n 0; DB1 = map of_nat [0..<n];
          DB0_tilde = map (\<lambda>j. DB0 ! j + X0 ! j) [0..<n];
          DB1_tilde = map (\<lambda>j. DB1 ! j + X1 ! j) [0..<n];
          neg_e0 = map (\<lambda>j. - e0 ! j) [0..<n];
          neg_e1 = map (\<lambda>j. - e1 ! j) [0..<n];
          f1 = map (\<lambda>j. if j = target_ind2 then 1 - f0 ! j else 0 - f0 ! j) [0..<n];
          e0_tilde = map (\<lambda>j. e0 ! j + Y0 ! j) [0..<n];
          e1_tilde = map (\<lambda>j. e1 ! j + Y1 ! j) [0..<n];
          gamma0 = dot_words X0 Y1 n;
          gamma1 = dot_words X1 Y0 n;
          term0 = gamma0 + alpha;
          term1 = gamma1 - alpha;
          dot = blinded_read DB0 DB1 DB0_tilde DB1_tilde e0 e1 e0_tilde e1_tilde Y0 Y1 term0 term1 n;
          (a0, a0_tilde, Ya0) = refresh_blinds e0 e0_tilde Y0 f0 f1 n;
          (a1, a1_tilde, Ya1) = refresh_blinds e1 e1_tilde Y1 f1 f0 n;
          (b0, b0_tilde, Yb0) = refresh_blinds a0 a0_tilde Ya0 neg_e0 neg_e1 n;
          (b1, b1_tilde, Yb1) = refresh_blinds a1 a1_tilde Ya1 neg_e1 neg_e0 n;
          new0 = term0 - X0 ! target_ind2 + dot_words X0 f0 n + X0 ! target_ind + dot_words X0 neg_e0 n;
          new1 = term1 - X1 ! target_ind2 + dot_words X1 f1 n + X1 ! target_ind + dot_words X1 neg_e1 n
      in \<lparr>rd_dot = dot,
          rd_assert1 = dot_words X0 Yb1 n + dot_words X1 Yb0 n,
          rd_assert2 = new0 + new1,
          rd_reconstruction = filter (\<lambda>j. b0 ! j + b1 ! j \<noteq> 0) [0..<n],
          rd_dot_new = blinded_read DB0 DB1 DB0_tilde DB1_tilde b0 b1 b0_tilde b1_tilde Yb0 Yb1 new0 new1 n\<rparr>)"

definition proof_database :: "nat \<Rightarrow> m128 list" where
  "proof_database n = map (\<lambda>j. mm_set_epi64x (200 * of_nat j) (100 * of_nat j)) [0..<n]"

definition pir_offset :: "proto_input \<Rightarrow> u64" where
  "pir_offset i =
     (let alpha1 = in_alpha i - in_alpha0 i; target_ind0 = in_target0 i; target_ind1 = of_nat target_ind - target_ind0
      in (in_alpha0 i - target_ind0) - (alpha1 - target_ind1))"

definition proto_main :: "nat \<Rightarrow> proto_input \<Rightarrow> proto_output result" where
  "proto_main log_nitems i =
     (if 64 \<le> log_nitems then Inl (Undefined ''1ULL << log_nitems'')
      else
        let n = 2 ^ log_nitems
        in res_bind (proto_keys n (in_roots i)) (\<lambda>(dpfkey0, dpfkey1).
           res_bind (evalinterval PRG T_m128 dpfkey0 0 (n - 1) (in_mem0 i)) (\<lambda>(output0, t0).
           res_bind (evalinterval PRG T_m128 dpfkey1 0 (n - 1) (in_mem1 i)) (\<lambda>(output1, t1).
           let (e0, e1) = select_vectors t0 t1 n;
               reads = proto_read i e0 e1 n;
               proofdb = proof_database n;
               offset = pir_offset i;
               BB0 = replicate n 0;
               BB1 = replicate n 0
           in res_bind (evalinterval PRG T_m128 dpfkey0 0 (n - 1) (output0, t0)) (\<lambda>(output0, t0').
              let x0 = dot_flags proofdb t0' n offset; BB0 = add_rotated n offset output0 BB0
              in res_bind (evalinterval PRG T_m128 dpfkey1 0 (n - 1) (output1, t1)) (\<lambda>(output1, t1').
                 let x1 = dot_flags proofdb t1' n offset; BB1 = add_rotated n offset output1 BB1
                 in res_bind (compare_outputs output0 output1 t0' t1' [0..<n]) (\<lambda>differ.
                    Inr \<lparr>out_flags = flag_report t0 t1 e0 e1 n,
                         out_dot = rd_dot reads, out_assert1 = rd_assert1 reads, out_assert2 = rd_assert2 reads,
                         out_reconstruction = rd_reconstruction reads, out_dot_new = rd_dot_new reads,
                         out_x = x0 XOR x1,
                         out_check0 = x0 XOR mm_set_epi64x 0 (in_proof0 i),
                         out_check1 = x1 XOR mm_set_epi64x 0 (in_proof1 i),
                         out_BB0 = BB0, out_BB1 = BB1, out_differ = differ\<rparr>)))))))"


section \<open>Dot products\<close>

lemma dot_words_sum: "dot_words X Y n = (\<Sum>j<n. X ! j * Y ! j)"
  by (induction n) (simp_all add: dot_words_def)

lemma sum_of_bool: "k < n \<Longrightarrow> (\<Sum>j<n. f j * of_bool (j = k)) = f k" for f :: "nat \<Rightarrow> u64"
  by (simp add: of_bool_def if_distrib [where f = "\<lambda>b. _ * b"] sum.delta cong: if_cong)

lemma filter_upt_single: "k < n \<Longrightarrow> filter (\<lambda>j. j = k) [0..<n] = [k]"
  by (induction n) (auto simp: less_Suc_eq)

text \<open>The cancellation terms remove what the blinds add, so a blinded read is the plain dot product.\<close>

lemma blinded_read_plain:
  assumes "\<And>j. j < n \<Longrightarrow> e0_tilde ! j = e0 ! j + Y0 ! j" "\<And>j. j < n \<Longrightarrow> e1_tilde ! j = e1 ! j + Y1 ! j"
    and "\<And>j. j < n \<Longrightarrow> DB0_tilde ! j = DB0 ! j + X0 ! j" "\<And>j. j < n \<Longrightarrow> DB1_tilde ! j = DB1 ! j + X1 ! j"
    and t: "term0 + term1 = dot_words X0 Y1 n + dot_words X1 Y0 n"
  shows "blinded_read DB0 DB1 DB0_tilde DB1_tilde e0 e1 e0_tilde e1_tilde Y0 Y1 term0 term1 n
    = (\<Sum>j<n. (DB0 ! j + DB1 ! j) * (e0 ! j + e1 ! j))"
proof -
  have "blinded_read DB0 DB1 DB0_tilde DB1_tilde e0 e1 e0_tilde e1_tilde Y0 Y1 term0 term1 n =
    (\<Sum>j<n. DB0 ! j * (e0 ! j + e1_tilde ! j)) - (\<Sum>j<n. Y0 ! j * DB1_tilde ! j)
    + (\<Sum>j<n. DB1 ! j * (e1 ! j + e0_tilde ! j)) - (\<Sum>j<n. Y1 ! j * DB0_tilde ! j) + (term0 + term1)"
    by (simp add: blinded_read_def Let_def dot_words_sum)
  also have "\<dots> = (\<Sum>j<n. DB0 ! j * (e0 ! j + e1_tilde ! j) - Y0 ! j * DB1_tilde ! j
    + DB1 ! j * (e1 ! j + e0_tilde ! j) - Y1 ! j * DB0_tilde ! j + X0 ! j * Y1 ! j + X1 ! j * Y0 ! j)"
    by (simp add: t dot_words_sum sum.distrib sum_subtractf)
  also have "\<dots> = (\<Sum>j<n. (DB0 ! j + DB1 ! j) * (e0 ! j + e1 ! j))"
    by (rule sum.cong) (simp_all add: assms(1-4) algebra_simps)
  finally show ?thesis .
qed

text \<open>
  Selections of the same entry by two pairs of vectors: after moving from \<open>e\<close> to \<open>f\<close> the corrected cancellation terms
  are those of the new blinds.
\<close>

lemma proto_read_correct:
  assumes n: "5 < n" and e: "\<And>j. j < n \<Longrightarrow> e0 ! j + e1 ! j = of_bool (j = 5)"
  shows "rd_dot (proto_read i e0 e1 n) = 5" "rd_assert1 (proto_read i e0 e1 n) = rd_assert2 (proto_read i e0 e1 n)"
    "rd_reconstruction (proto_read i e0 e1 n) = [5]" "rd_dot_new (proto_read i e0 e1 n) = 5"
proof -
  let ?X0 = "in_X0 i" and ?X1 = "in_X1 i" and ?Y0 = "in_Y0 i" and ?Y1 = "in_Y1 i" and ?f0 = "in_f0 i"
  have e1: "e1 ! j = of_bool (j = 5) - e0 ! j" if "j < n" for j using e [OF that] by (simp add: algebra_simps)
  have entry: "(\<Sum>j<n. (replicate n 0 ! j + map of_nat [0..<n] ! j) * v j) = 5"
    if "\<And>j. j < n \<Longrightarrow> v j = of_bool (j = 5)" for v :: "nat \<Rightarrow> u64"
  proof -
    have "(\<Sum>j<n. (replicate n 0 ! j + map of_nat [0..<n] ! j) * v j) = (\<Sum>j<n. of_nat j * of_bool (j = 5))"
      by (rule sum.cong) (simp_all add: that)
    then show ?thesis unfolding sum_of_bool [OF n] by simp
  qed
  note unf = proto_read_def Let_def refresh_blinds_def case_prod_conv proto_reads.select_convs target_ind_def target_ind2_def
  show "rd_dot (proto_read i e0 e1 n) = 5"
    unfolding unf by (rule trans [OF blinded_read_plain [where ?X0.0 = ?X0 and ?X1.0 = ?X1] entry]) (simp_all add: e)
  have asserts: "(\<Sum>j<n. ?X0 ! j * (?Y1 ! j - ((if j = 5 then 1 - ?f0 ! j else 0 - ?f0 ! j)) - - e1 ! j))
      + (\<Sum>j<n. ?X1 ! j * (?Y0 ! j - ?f0 ! j - - e0 ! j))
    = (\<Sum>j<n. ?X0 ! j * ?Y1 ! j) + (\<Sum>j<n. ?X0 ! j * ?f0 ! j) + (\<Sum>j<n. ?X0 ! j * - e0 ! j)
      + ((\<Sum>j<n. ?X1 ! j * ?Y0 ! j) + (\<Sum>j<n. ?X1 ! j * (if j = 5 then 1 - ?f0 ! j else 0 - ?f0 ! j)) + (\<Sum>j<n. ?X1 ! j * - e1 ! j))"
    unfolding sum.distrib [symmetric]
    by (rule sum.cong) (simp_all add: e1 algebra_simps)
  then show a: "rd_assert1 (proto_read i e0 e1 n) = rd_assert2 (proto_read i e0 e1 n)"
    unfolding unf dot_words_sum by (simp add: algebra_simps cong: if_cong)
  have "rd_reconstruction (proto_read i e0 e1 n) = filter (\<lambda>j. j = 5) [0..<n]"
    unfolding unf by (rule filter_cong) auto
  then show "rd_reconstruction (proto_read i e0 e1 n) = [5]" by (simp only: filter_upt_single [OF n])
  show "rd_dot_new (proto_read i e0 e1 n) = 5"
    using a unfolding unf
    by (intro trans [OF blinded_read_plain [where ?X0.0 = ?X0 and ?X1.0 = ?X1] entry]) simp_all
qed


section \<open>Retrieval and the final comparison\<close>

text \<open>What the flags of the two keys are: equal bits off the target, different bits at it.\<close>

definition flag_pair :: "u8 list \<Rightarrow> u8 list \<Rightarrow> nat \<Rightarrow> bool" where
  "flag_pair t0 t1 n \<longleftrightarrow> (\<forall>j<n. \<exists>q. t0 ! j = of_bool q \<and> t1 ! j = of_bool (q \<noteq> (j = 5)))"

lemma flag_pairE:
  assumes "flag_pair t0 t1 n" "j < n"
  obtains q where "t0 ! j = of_bool q" "t1 ! j = of_bool (q \<noteq> (j = 5))"
  using assms unfolding flag_pair_def by blast

lemma flag_pair_diff: "flag_pair t0 t1 n \<Longrightarrow> j < n \<Longrightarrow> t0 ! j \<noteq> t1 ! j \<longleftrightarrow> j = 5"
  by (erule (1) flag_pairE) auto

lemma select_sum:
  assumes "flag_pair t0 t1 n" "j < n"
  shows "fst (select_vectors t0 t1 n) ! j + snd (select_vectors t0 t1 n) ! j = of_bool (j = 5)"
proof -
  obtain q where "t0 ! j = of_bool q" "t1 ! j = of_bool (q \<noteq> (j = 5))" by (rule flag_pairE [OF assms])
  then show ?thesis using assms(2)
    by (cases q) (auto simp: select_vectors_def select_entry_def target_ind_def Let_def)
qed

lemma flag_report_target:
  assumes "flag_pair t0 t1 n" "5 < n" "\<And>j. j < n \<Longrightarrow> e0 ! j + e1 ! j = of_bool (j = 5)"
  shows "flag_report t0 t1 e0 e1 n = [(5, 1)]"
proof -
  have "filter (\<lambda>j. t0 ! j \<noteq> t1 ! j) [0..<n] = filter (\<lambda>j. j = 5) [0..<n]"
    by (rule filter_cong) (use flag_pair_diff [OF assms(1)] in auto)
  then show ?thesis using assms(3) [OF assms(2)] by (simp add: flag_report_def filter_upt_single [OF assms(2)])
qed

lemma flag_mask: "mm_set1_epi8 (- (of_bool q AND 1)) = (if q then - 1 else 0)"
proof -
  have "mm_set1_epi8 (- 1) = - 1" "mm_set1_epi8 0 = 0" by code_simp+
  then show ?thesis by simp
qed

lemma dot_flags_pair:
  assumes "flag_pair t0 t1 n" "5 < n"
  shows "dot_flags db t0 n offset XOR dot_flags db t1 n offset = db ! rot n offset 5"
proof -
  define step where "step t = (\<lambda>i accumulator. accumulator XOR (db ! rot n offset i AND mm_set1_epi8 (- (t ! i AND 1))))" for t
  have "fold (step t0) [0..<m] 0 XOR fold (step t1) [0..<m] 0 = (if 5 < m then db ! rot n offset 5 else 0)"
    if "m \<le> n" for m
    using that
  proof (induction m)
    case (Suc m)
    obtain q where "t0 ! m = of_bool q" "t1 ! m = of_bool (q \<noteq> (m = 5))"
      by (rule flag_pairE [OF assms(1), of m]) (use Suc.prems in auto)
    then have st: "step t0 m A = A XOR (if q then db ! rot n offset m else 0)"
      "step t1 m B = B XOR (if q \<noteq> (m = 5) then db ! rot n offset m else 0)" for A B
      by (simp_all only: step_def flag_mask) simp_all
    have swap: "a = b XOR c" if "a XOR b = c" for a b c :: m128
      unfolding that [symmetric] by (simp add: xor.commute [of a])
    have f: "fold (step t) [0..<Suc m] 0 = step t m (fold (step t) [0..<m] 0)" for t by simp
    have "fold (step t0) [0..<m] 0 = fold (step t1) [0..<m] 0 XOR (if 5 < m then db ! rot n offset 5 else 0)"
      using Suc by (intro swap) simp
    then show ?case
      unfolding f st by (cases "m = 5") (auto simp: ac_simps xor_simps split: if_splits)
  qed simp
  from this [of n] assms(2) show ?thesis by (simp add: dot_flags_def step_def Let_def)
qed

lemma compare_outputs_ok:
  assumes "\<And>j. j \<in> set js \<Longrightarrow> mm_cvtsi128_si64 (o0 ! j) = mm_cvtsi128_si64 (o1 ! j) \<Longrightarrow> t0 ! j = t1 ! j"
  shows "compare_outputs o0 o1 t0 t1 js = Inr (filter (\<lambda>j. mm_cvtsi128_si64 (o0 ! j) \<noteq> mm_cvtsi128_si64 (o1 ! j)) js)"
  using assms by (induction js) auto

lemma low_words_differ:
  assumes "leaf_xor (L128 a) (L128 b) = (if c then target_value else L128 0)"
  shows "mm_cvtsi128_si64 a \<noteq> mm_cvtsi128_si64 b \<longleftrightarrow> c"
proof -
  have "a XOR b = (if c then mm_set_epi64x 100 500 else 0)" using assms by (auto simp: target_value_def split: if_splits)
  then have "mm_cvtsi128_si64 (a XOR b) = (if c then 500 else 0)" by (simp add: mm_halves) (simp add: mm_cvtsi128_si64_def)
  moreover have "mm_cvtsi128_si64 (a XOR b) = mm_cvtsi128_si64 a XOR mm_cvtsi128_si64 b"
    by (simp add: mm_cvtsi128_si64_def unsigned_xor_eq)
  ultimately show ?thesis by (auto split: if_splits)
qed


section \<open>The whole program\<close>

lemma wide_m128: "wide T_m128" "nodes_per_leaf T_m128 = 1" "leaf_type target_value = T_m128"
  by (simp_all add: wide_def nodes_per_leaf_def is_packed_def ceil_div_def target_value_def)

lemma proto_keys_ok:
  assumes "534 < n"
  obtains k0 k1 where "proto_keys n roots = Inr (k0, k1)" "dk_nitems k0 = n" "dk_nitems k1 = n"
    "length (dk_cw k0) = ceillog2 n" "length (dk_cw k1) = ceillog2 n"
    "\<And>i. i < n \<Longrightarrow> leaf_xor (eval_leaf PRG T_m128 k0 i) (eval_leaf PRG T_m128 k1 i) = (if i = 5 then target_value else L128 0)"
    "\<And>i. i < n \<Longrightarrow> \<exists>q. snd (eval_nodes PRG T_m128 k0 i) = of_bool q \<and> snd (eval_nodes PRG T_m128 k1 i) = of_bool (q \<noteq> (i = 5))"
proof -
  have gen: "\<exists>k. proto_gen n t r = Inr k" if "t < n" for t r
    using aes_prg.gen_cb_correct [OF that wide_m128(1,3) that, of default_aes_key "fst r" "snd r"]
    unfolding proto_gen_def by blast
  have "target_ind < n" "534 < n" using assms by (simp_all add: target_ind_def)
  then have "proto_keys n roots = proto_gen n target_ind (roots 0)"
    using gen [of target_ind "roots 0"] gen [of target_ind "roots 1"] gen [of target_ind "roots 2"] gen [of 534 "roots 3"]
      gen [of 534 "roots 4"] gen [of 534 "roots 5"] gen [of 534 "roots 6"]
    by (auto simp: proto_keys_def)
  moreover have "target_ind < n" using assms by (simp add: target_ind_def)
  ultimately show thesis
    using that aes_prg.gen_cb_pair [OF _ wide_m128(1,3), of target_ind n default_aes_key "fst (roots 0)" "snd (roots 0)" thesis]
    by (simp add: proto_gen_def target_ind_def target_value_def)
qed

lemma eval_m128:
  assumes "dk_nitems key = n" "0 < n" "n \<le> length (fst mem)" "n \<le> length (snd mem)" "length (dk_cw key) = ceillog2 n"
  obtains out t where "evalinterval PRG T_m128 key 0 (n - 1) mem = Inr (out, t)" "length out = length (fst mem)"
    "length t = length (snd mem)" "\<And>x. x < n \<Longrightarrow> L128 (out ! x) = eval_leaf PRG T_m128 key x"
    "\<And>x. x < n \<Longrightarrow> t ! x = snd (eval_nodes PRG T_m128 key x)"
proof -
  obtain o1 t1 where mem: "mem = (o1, t1)" by (cases mem)
  obtain out t where e: "evalinterval PRG T_m128 key 0 (n - 1) (o1, t1) = Inr (out, t)" "length out = length o1"
    "length t = length t1" "\<And>x. x < n \<Longrightarrow> leaf_of_nodes T_m128 (take 1 (drop (x * 1) out)) x = eval_leaf PRG T_m128 key x"
    "\<And>x. x < n \<Longrightarrow> t ! x = snd (eval_nodes PRG T_m128 key x)"
    by (rule aes_prg.evalinterval_wide [OF wide_m128(1) assms(2,1) wide_m128(2) [symmetric], of o1 t1])
      (use assms in \<open>auto simp: mem\<close>)
  have "leaf_of_nodes T_m128 (take 1 (drop (x * 1) out)) x = L128 (out ! x)" if "x < n" for x
    using that assms(3) e(2) by (simp add: leaf_of_nodes_def is_packed_def mem)
  with that [of out t] e show thesis by (simp add: mem)
qed

lemma proto_main_correct:
  assumes log: "10 \<le> log_nitems" "log_nitems < 64" and n: "n = 2 ^ log_nitems"
    and mem: "length (fst (in_mem0 i)) = n" "length (snd (in_mem0 i)) = n" "length (fst (in_mem1 i)) = n" "length (snd (in_mem1 i)) = n"
  shows "\<exists>out. proto_main log_nitems i = Inr out \<and> out_flags out = [(5, 1)] \<and> out_dot out = 5
    \<and> out_assert1 out = out_assert2 out \<and> out_reconstruction out = [5] \<and> out_dot_new out = 5
    \<and> out_x out = proof_database n ! rot n (pir_offset i) 5 \<and> out_differ out = [5]"
proof -
  have "2 ^ 10 \<le> n" unfolding n using log(1) by (rule power_increasing) simp
  then have big: "534 < n" "0 < n" "5 < n" by simp_all
  obtain k0 k1 where k: "proto_keys n (in_roots i) = Inr (k0, k1)" "dk_nitems k0 = n" "dk_nitems k1 = n"
      "length (dk_cw k0) = ceillog2 n" "length (dk_cw k1) = ceillog2 n"
    and x: "\<And>j. j < n \<Longrightarrow> leaf_xor (eval_leaf PRG T_m128 k0 j) (eval_leaf PRG T_m128 k1 j) = (if j = 5 then target_value else L128 0)"
    and fl: "\<And>j. j < n \<Longrightarrow> \<exists>q. snd (eval_nodes PRG T_m128 k0 j) = of_bool q \<and> snd (eval_nodes PRG T_m128 k1 j) = of_bool (q \<noteq> (j = 5))"
    by (rule proto_keys_ok [OF big(1), of "in_roots i"]) blast
  obtain o0 t0 where e0: "evalinterval PRG T_m128 k0 0 (n - 1) (in_mem0 i) = Inr (o0, t0)" "length o0 = n" "length t0 = n"
    "\<And>x. x < n \<Longrightarrow> t0 ! x = snd (eval_nodes PRG T_m128 k0 x)"
    by (rule eval_m128 [OF k(2) big(2), of "in_mem0 i"]) (use mem k(4) in auto)
  obtain o1 t1 where e1: "evalinterval PRG T_m128 k1 0 (n - 1) (in_mem1 i) = Inr (o1, t1)" "length o1 = n" "length t1 = n"
    "\<And>x. x < n \<Longrightarrow> t1 ! x = snd (eval_nodes PRG T_m128 k1 x)"
    by (rule eval_m128 [OF k(3) big(2), of "in_mem1 i"]) (use mem k(5) in auto)
  obtain o0' t0' where f0: "evalinterval PRG T_m128 k0 0 (n - 1) (o0, t0) = Inr (o0', t0')"
    "\<And>x. x < n \<Longrightarrow> L128 (o0' ! x) = eval_leaf PRG T_m128 k0 x" "\<And>x. x < n \<Longrightarrow> t0' ! x = snd (eval_nodes PRG T_m128 k0 x)"
    by (rule eval_m128 [OF k(2) big(2), of "(o0, t0)"]) (use e0 k(4) in auto)
  obtain o1' t1' where f1: "evalinterval PRG T_m128 k1 0 (n - 1) (o1, t1) = Inr (o1', t1')"
    "\<And>x. x < n \<Longrightarrow> L128 (o1' ! x) = eval_leaf PRG T_m128 k1 x" "\<And>x. x < n \<Longrightarrow> t1' ! x = snd (eval_nodes PRG T_m128 k1 x)"
    by (rule eval_m128 [OF k(3) big(2), of "(o1, t1)"]) (use e1 k(5) in auto)
  have fp: "flag_pair t0 t1 n" "flag_pair t0' t1' n"
    using fl by (simp_all add: flag_pair_def e0(4) e1(4) f0(3) f1(3))
  define s0 s1 where "s0 = fst (select_vectors t0 t1 n)" and "s1 = snd (select_vectors t0 t1 n)"
  have sel: "select_vectors t0 t1 n = (s0, s1)" "\<And>j. j < n \<Longrightarrow> s0 ! j + s1 ! j = of_bool (j = 5)"
    using select_sum [OF fp(1)] by (simp_all add: s0_def s1_def)
  have lo: "mm_cvtsi128_si64 (o0' ! j) \<noteq> mm_cvtsi128_si64 (o1' ! j) \<longleftrightarrow> j = 5" if "j < n" for j
    by (rule low_words_differ) (use x [OF that] in \<open>simp only: f0(2) [OF that] f1(2) [OF that]\<close>)
  have "filter (\<lambda>j. mm_cvtsi128_si64 (o0' ! j) \<noteq> mm_cvtsi128_si64 (o1' ! j)) [0..<n] = filter (\<lambda>j. j = 5) [0..<n]"
    by (rule filter_cong) (use lo in auto)
  then have cmp: "compare_outputs o0' o1' t0' t1' [0..<n] = Inr [5]"
    using compare_outputs_ok [of "[0..<n]" o0' o1' t0' t1'] lo flag_pair_diff [OF fp(2)] filter_upt_single [OF big(3)]
    by auto
  show ?thesis
    using log(2) proto_read_correct [OF big(3) sel(2), of i] flag_report_target [OF fp(1) big(3) sel(2)]
      dot_flags_pair [OF fp(2) big(3), of "proof_database n" "pir_offset i"]
    by (simp add: proto_main_def n [symmetric] k(1) e0(1) [simplified] e1(1) [simplified] f0(1) [simplified] f1(1) [simplified]
        sel(1) cmp Let_def)
qed

lemma proto_main_small:
  assumes "2 ^ log_nitems \<le> (534 :: nat)"
  shows "proto_main log_nitems i = Inl (Runtime_error ''target point out of range'')"
proof -
  let ?n = "2 ^ log_nitems :: nat"
  have l: "log_nitems < 64"
  proof (rule ccontr)
    assume "\<not> log_nitems < 64"
    then have "(2 :: nat) ^ 64 \<le> ?n" by (intro power_increasing) simp_all
    with assms show False by simp
  qed
  have far: "proto_gen ?n 534 r = Inl (Runtime_error ''target point out of range'')" for r
    using assms by (simp add: proto_gen_def gen_cb_def)
  have near: "proto_gen ?n target_ind r = Inl (Runtime_error ''target point out of range'') \<or> (\<exists>k. proto_gen ?n target_ind r = Inr k)" for r
    using aes_prg.gen_cb_correct [of target_ind ?n T_m128 target_value target_ind default_aes_key "fst r" "snd r"] wide_m128
    by (cases "?n \<le> target_ind") (auto simp: proto_gen_def gen_cb_def)
  have "proto_keys ?n (in_roots i) = Inl (Runtime_error ''target point out of range'')"
    using near [of "in_roots i 0"] near [of "in_roots i 1"] near [of "in_roots i 2"] far by (auto simp: proto_keys_def)
  with l show ?thesis by (simp add: proto_main_def)
qed

end
