(* ===== verification/Preproc.thy ===== *)
theory Preproc
  imports DpfWide DpfIo
begin

text \<open>
  \<^verbatim>\<open>mpc/dpf/shares.h\<close> and \<^verbatim>\<open>mpc/dpf/preproc.cpp\<close>: additive sharing among any number of parties, and the program that
  generates a key pair for leaves of four blocks, stores the keys with shares of the target in files, reads them back,
  evaluates them over the whole domain, stores and reloads the outputs, and tests a shared value for zero bit by bit.
  A file system maps names to contents; values drawn from \<^verbatim>\<open>arc4random_buf\<close> and the contents of uninitialised variables
  are arguments. The exponent of the domain size is the argument of \<^verbatim>\<open>main\<close>, already parsed, and the numbers it prints are
  its result. A read of a file that has too few bytes leaves its variable uninitialised, which is \<open>Undefined\<close>.
\<close>

section \<open>The code: additive shares\<close>

datatype 'a Share = Share (sh_value: 'a)

definition share_plus :: "'a::len word Share \<Rightarrow> 'a word Share \<Rightarrow> 'a word Share" where
  "share_plus a b = Share (sh_value a + sh_value b)"

definition share_minus :: "'a::len word Share \<Rightarrow> 'a word Share \<Rightarrow> 'a word Share" where
  "share_minus a b = Share (sh_value a - sh_value b)"

definition share_plus_assign :: "'a::len word Share \<Rightarrow> 'a word Share \<Rightarrow> 'a word Share" where
  "share_plus_assign a b = Share (sh_value a + sh_value b)"

definition share_minus_assign :: "'a::len word Share \<Rightarrow> 'a word Share \<Rightarrow> 'a word Share" where
  "share_minus_assign a b = Share (sh_value a - sh_value b)"

text \<open>\<^verbatim>\<open>share\<close>; \<open>rnd i\<close> is the \<open>i\<close>-th value drawn.\<close>

definition share :: "(nat \<Rightarrow> 'a::len word) \<Rightarrow> 'a word \<Rightarrow> nat \<Rightarrow> 'a word Share list result" where
  "share rnd secret n =
     (if n < 2 then Inl (Assertion ''n >= 2'')
      else
        let (shares, sum) = fold (\<lambda>i (shares, sum). (shares @ [Share (rnd i)], sum + rnd i)) [0..<n - 1] ([], 0)
        in Inr (shares @ [Share (secret - sum)]))"

definition reconstruct :: "'a::len word Share list \<Rightarrow> 'a word" where
  "reconstruct shares = fold (\<lambda>s sum. sum + sh_value s) shares 0"


section \<open>The code: comparison of leaves\<close>

definition mm_cmpeq_epi8 :: "m128 \<Rightarrow> m128 \<Rightarrow> m128" where
  "mm_cmpeq_epi8 a b = of_bytes (map2 (\<lambda>x y. if x = y then 255 else 0) (to_bytes a) (to_bytes b))"

definition mm_movemask_epi8 :: "m128 \<Rightarrow> nat" where
  "mm_movemask_epi8 a = horner_sum of_bool 2 (map (\<lambda>x. bit x 7) (to_bytes a))"

definition m128i_equal :: "m128 \<Rightarrow> m128 \<Rightarrow> bool" where
  "m128i_equal a b = (mm_movemask_epi8 (mm_cmpeq_epi8 a b) = 65535)"

definition leaf4_equal :: "m128 list \<Rightarrow> m128 list \<Rightarrow> bool" where
  "leaf4_equal a b = list_all (\<lambda>i. m128i_equal (a ! i) (b ! i)) [0..<length a]"


section \<open>The code: files\<close>

type_synonym files = "string \<Rightarrow> byte list option"

definition read_raw :: "nat \<Rightarrow> (byte list \<Rightarrow> 'v) \<Rightarrow> byte list \<Rightarrow> ('v \<times> byte list) result" where
  "read_raw n dec s =
     (if length s < n then Inl (Undefined ''variable not initialised by a short read'') else Inr (dec (take n s), drop n s))"

definition open_in :: "string \<Rightarrow> string \<Rightarrow> files \<Rightarrow> byte list result" where
  "open_in msg filename fs = (case fs filename of None \<Rightarrow> Inl (Runtime_error msg) | Some s \<Rightarrow> Inr s)"

definition write_file :: "(string \<Rightarrow> bool) \<Rightarrow> string \<Rightarrow> string \<Rightarrow> byte list \<Rightarrow> files \<Rightarrow> files result" where
  "write_file can_write msg filename bytes fs =
     (if can_write filename then Inr (fs(filename \<mapsto> bytes)) else Inl (Runtime_error msg))"

definition key_file :: "(nat \<Rightarrow> byte) \<Rightarrow> AES_KEY dpf_key \<Rightarrow> u64 \<Rightarrow> byte list" where
  "key_file pad key share_val =
     (let cw_size = of_nat (length (dk_cw key)) :: u64
      in to_bytes (of_nat (dk_nitems key) :: u64) @ to_bytes (dk_root key) @ to_bytes cw_size
         @ vec_bytes (dk_cw key) @ vec_bytes (dk_finalizer key) @ aes_key_bytes pad (dk_prgkey key) @ to_bytes share_val)"

definition save_dpf_key :: "(nat \<Rightarrow> byte) \<Rightarrow> (string \<Rightarrow> bool) \<Rightarrow> AES_KEY dpf_key \<Rightarrow> u64 \<Rightarrow> string \<Rightarrow> files \<Rightarrow> files result" where
  "save_dpf_key pad can_write key share_val filename fs =
     write_file can_write ''Failed to open file for writing'' filename (key_file pad key share_val) fs"

definition load_dpf_key :: "leaf_ty \<Rightarrow> string \<Rightarrow> files \<Rightarrow> (AES_KEY dpf_key \<times> u64) result" where
  "load_dpf_key lt filename fs =
     res_bind (open_in ''Failed to open file for reading'' filename fs) (\<lambda>s.
     res_bind (read_raw 8 (of_bytes :: byte list \<Rightarrow> u64) s) (\<lambda>(nitems, s).
     res_bind (read_raw 16 of_bytes s) (\<lambda>(root, s).
     res_bind (read_raw 8 (of_bytes :: byte list \<Rightarrow> u64) s) (\<lambda>(cw_size, s).
     res_bind (read_raw (unat cw_size * 16) vec_of_bytes s) (\<lambda>(cw, s).
     res_bind (read_raw (nodes_per_leaf lt * 16) vec_of_bytes s) (\<lambda>(finalizer, s).
     res_bind (read_raw 192 aes_key_of_bytes s) (\<lambda>(prgkey, s).
     res_bind (read_raw 8 of_bytes s) (\<lambda>(share_val, s).
     Inr (\<lparr>dk_nitems = unat nitems, dk_root = root, dk_cw = cw, dk_finalizer = finalizer, dk_prgkey = prgkey\<rparr>, share_val)))))))))"

text \<open>Arrays of \<open>n\<close> leaves of \<open>npl\<close> blocks each.\<close>

definition save_array :: "(string \<Rightarrow> bool) \<Rightarrow> nat \<Rightarrow> string \<Rightarrow> m128 list \<Rightarrow> nat \<Rightarrow> files \<Rightarrow> files result" where
  "save_array can_write npl filename data n fs =
     write_file can_write (''Failed to open file for writing: '' @ filename) filename
       (to_bytes (of_nat n :: u64) @ vec_bytes (take (n * npl) data)) fs"

definition load_array :: "nat \<Rightarrow> string \<Rightarrow> files \<Rightarrow> (m128 list \<times> nat) result" where
  "load_array npl filename fs =
     res_bind (open_in (''Failed to open file for reading: '' @ filename) filename fs) (\<lambda>s.
     res_bind (read_raw 8 (of_bytes :: byte list \<Rightarrow> u64) s) (\<lambda>(n, s).
     res_bind (read_raw (unat n * (npl * 16)) vec_of_bytes s) (\<lambda>(data, s). Inr (data, unat n))))"


section \<open>The code: main\<close>

text \<open>The bitwise comparison of \<open>c\<close> with a mask that is given by xor shares.\<close>

definition eqz_bits :: "u64 \<Rightarrow> u64 \<Rightarrow> u64 \<Rightarrow> u64" where
  "eqz_bits c r0 r1 =
     fold (\<lambda>i eqz.
       let c_i = drop_bit i c AND 1; r0_i = drop_bit i r0 AND 1; r1_i = drop_bit i r1 AND 1;
           diff = c_i XOR (r0_i XOR r1_i)
       in eqz AND (1 - diff)) [0..<64] 1"

definition eqz_demo :: "u64 \<Rightarrow> u64 \<Rightarrow> u64 \<Rightarrow> u64 \<Rightarrow> u64 \<Rightarrow> u64" where
  "eqz_demo a0 a1 r r0 r0_ashare =
     (let r1 = r XOR r0; r1_ashare = r - r0_ashare; c = a0 + a1 + r0_ashare + r1_ashare
      in eqz_bits c r0 r1)"

definition leaf_at :: "m128 list \<Rightarrow> nat \<Rightarrow> m128 list" where
  "leaf_at out j = take 4 (drop (j * 4) out)"

definition inequalities :: "nat \<Rightarrow> m128 list \<Rightarrow> m128 list \<Rightarrow> nat list" where
  "inequalities n out0 out1 = filter (\<lambda>j. \<not> leaf4_equal (leaf_at out0 j) (leaf_at out1 j)) [0..<n]"

record preproc_input =
  pi_roots :: "m128 \<times> m128"
  pi_value :: "m128 list"
  pi_share :: "nat \<Rightarrow> u64"
  pi_mem0 :: bufs
  pi_mem1 :: bufs
  pi_pad :: "nat \<Rightarrow> byte"
  pi_r :: u64
  pi_r0 :: u64
  pi_r0_ashare :: u64

record preproc_output =
  po_rec :: u64
  po_share0 :: u64
  po_share1 :: u64
  po_recc :: u64
  po_keys :: "AES_KEY dpf_key \<times> AES_KEY dpf_key"
  po_loaded :: "AES_KEY dpf_key \<times> AES_KEY dpf_key"
  po_outputs :: "m128 list \<times> m128 list"
  po_loaded_outs :: "m128 list \<times> m128 list"
  po_unequal :: "nat list"
  po_unequal_loaded :: "nat list"
  po_eqz :: u64

definition preproc_main :: "(string \<Rightarrow> bool) \<Rightarrow> nat \<Rightarrow> preproc_input \<Rightarrow> files \<Rightarrow> preproc_output result" where
  "preproc_main can_write log_nitems i fs =
     (if 64 \<le> log_nitems then Inl (Undefined ''1ULL << log_nitems'')
      else
        let n = 2 ^ log_nitems; lt = T_arr 4; pad = pi_pad i
        in res_bind (gen_cb PRG lt default_aes_key n 555 (LArr (pi_value i)) (default_make_finalizer PRG lt)
                      (fst (pi_roots i)) (snd (pi_roots i))) (\<lambda>(dpfkey0, dpfkey1).
           res_bind (share (pi_share i) 555 2) (\<lambda>shares.
           res_bind (save_dpf_key pad can_write dpfkey0 (sh_value (shares ! 0)) ''dpfkey0.bin'' fs) (\<lambda>fs.
           res_bind (save_dpf_key pad can_write dpfkey1 (sh_value (shares ! 1)) ''dpfkey1.bin'' fs) (\<lambda>fs.
           res_bind (load_dpf_key lt ''dpfkey0.bin'' fs) (\<lambda>(loaded0, share0).
           res_bind (load_dpf_key lt ''dpfkey1.bin'' fs) (\<lambda>(loaded1, share1).
           res_bind (evalinterval PRG lt loaded0 0 (n - 1) (pi_mem0 i)) (\<lambda>(output0, _).
           res_bind (evalinterval PRG lt loaded1 0 (n - 1) (pi_mem1 i)) (\<lambda>(output1, _).
           res_bind (save_array can_write 4 ''output0.bin'' output0 n fs) (\<lambda>fs.
           res_bind (save_array can_write 4 ''output1.bin'' output1 n fs) (\<lambda>fs.
           res_bind (load_array 4 ''output0.bin'' fs) (\<lambda>(loaded_outs0, n).
           res_bind (load_array 4 ''output1.bin'' fs) (\<lambda>(loaded_outs1, n).
           Inr \<lparr>po_rec = reconstruct shares, po_share0 = share0, po_share1 = share1, po_recc = share0 + share1,
                po_keys = (dpfkey0, dpfkey1), po_loaded = (loaded0, loaded1), po_outputs = (output0, output1),
                po_loaded_outs = (loaded_outs0, loaded_outs1),
                po_unequal = inequalities n output0 output1,
                po_unequal_loaded = inequalities n loaded_outs0 loaded_outs1,
                po_eqz = eqz_demo 335530 (- 335530) (pi_r i) (pi_r0 i) (pi_r0_ashare i)\<rparr>)))))))))))))"


section \<open>Shares add up\<close>

lemma reconstruct_sum: "reconstruct shares = sum_list (map sh_value shares)"
proof -
  have "fold (\<lambda>s sum. sum + sh_value s) shares z = z + sum_list (map sh_value shares)" for z
    by (induction shares arbitrary: z) (simp_all add: add.assoc)
  then show ?thesis by (simp add: reconstruct_def)
qed

lemma share_Inr:
  assumes "2 \<le> n"
  shows "share rnd secret n = Inr (map (\<lambda>i. Share (rnd i)) [0..<n - 1] @ [Share (secret - (\<Sum>i<n - 1. rnd i))])"
proof -
  have "fold (\<lambda>i (shares, sum). (shares @ [Share (rnd i)], sum + rnd i)) [0..<m] ([], 0)
    = (map (\<lambda>i. Share (rnd i)) [0..<m], \<Sum>i<m. rnd i)" for m
    by (induction m) simp_all
  with assms show ?thesis by (simp add: share_def Let_def)
qed

lemma share_reconstruct:
  assumes "2 \<le> n"
  shows "\<exists>shares. share rnd secret n = Inr shares \<and> length shares = n \<and> reconstruct shares = secret"
proof -
  have "sum_list (map rnd [0..<m]) = (\<Sum>i<m. rnd i)" for m by (induction m) simp_all
  with assms show ?thesis by (simp add: share_Inr reconstruct_sum comp_def)
qed


section \<open>The zero test\<close>

lemma eqz_bits_eq: "eqz_bits c r0 r1 = of_bool (c = r0 XOR r1)"
proof -
  have bit1: "drop_bit i w AND 1 = of_bool (bit w i)" for i and w :: u64
    by (simp add: and_one_eq odd_iff_mod_2_eq_one [symmetric] bit_iff_odd_drop_bit mod_2_eq_odd)
  have "fold (\<lambda>i eqz. let c_i = drop_bit i c AND 1; r0_i = drop_bit i r0 AND 1; r1_i = drop_bit i r1 AND 1;
        diff = c_i XOR (r0_i XOR r1_i) in eqz AND (1 - diff)) [0..<m] (1 :: u64)
    = of_bool (\<forall>i<m. bit c i = bit (r0 XOR r1) i)" for m
  proof (induction m)
    case (Suc m)
    then show ?case
      by (simp add: bit1 bit_xor_iff less_Suc_eq Let_def)
  qed simp
  moreover have "(\<forall>i<64. bit c i = bit (r0 XOR r1) i) \<longleftrightarrow> c = r0 XOR r1"
    by (auto intro!: bit_word_eqI)
  ultimately show ?thesis by (simp add: eqz_bits_def)
qed

lemma eqz_demo_eq: "eqz_demo a0 a1 r r0 r0_ashare = of_bool (a0 + a1 = 0)"
proof -
  have "a0 + a1 + r0_ashare + (r - r0_ashare) = r \<longleftrightarrow> a0 + a1 = 0" by (simp add: algebra_simps)
  moreover have "r0 XOR (r XOR r0) = r" by (simp add: xor.commute [of r])
  ultimately show ?thesis by (simp add: eqz_demo_def Let_def eqz_bits_eq)
qed


section \<open>Leaves compare by their contents\<close>

lemma horner_all_set:
  "horner_sum of_bool 2 bs < (2 :: nat) ^ length bs \<and> (horner_sum of_bool 2 bs = (2 :: nat) ^ length bs - 1 \<longleftrightarrow> list_all id bs)"
proof (induction bs)
  case (Cons b bs)
  then have x: "horner_sum of_bool 2 bs < (2 :: nat) ^ length bs" by simp
  have "of_bool b + 2 * x < 2 * p \<and> (of_bool b + 2 * x = 2 * p - 1 \<longleftrightarrow> b \<and> x = p - 1)" if "x < p" for x p :: nat
    using that by (cases b) (simp; arith)+
  from this [OF x] Cons show ?case
    by (simp only: horner_sum_simps list.size power_Suc power_add list.pred_inject id_apply add_0_right add_Suc_right One_nat_def)
qed simp

lemma m128i_equal_iff: "m128i_equal a b \<longleftrightarrow> a = b"
proof -
  let ?bs = "map2 (\<lambda>x y. if x = y then 255 else 0 :: byte) (to_bytes a) (to_bytes b)"
  have "to_bytes (of_bytes ?bs :: m128) = ?bs" by (rule to_bytes_of_bytes) simp_all
  then have "map (\<lambda>x. bit x 7) (to_bytes (mm_cmpeq_epi8 a b)) = map2 (=) (to_bytes a) (to_bytes b)"
    by (simp add: mm_cmpeq_epi8_def list_eq_iff_nth_eq)
  then have "m128i_equal a b \<longleftrightarrow> list_all id (map2 (=) (to_bytes a) (to_bytes b))"
    using horner_all_set [of "map2 (=) (to_bytes a) (to_bytes b)"] by (simp add: m128i_equal_def mm_movemask_epi8_def)
  also have "\<dots> \<longleftrightarrow> to_bytes a = to_bytes b"
    by (auto simp: list_all_length list_eq_iff_nth_eq)
  finally show ?thesis by simp
qed

lemma leaf4_equal_iff: "length a = length b \<Longrightarrow> leaf4_equal a b \<longleftrightarrow> a = b"
  unfolding leaf4_equal_def m128i_equal_iff list_all_iff by (auto intro: nth_equalityI)


section \<open>What is saved is loaded\<close>

lemma read_raw_append: "length a = n \<Longrightarrow> read_raw n dec (a @ rest) = Inr (dec a, rest)"
  by (simp add: read_raw_def)

lemma vec_blocks [simp]: "vec_of_bytes (vec_bytes (bs :: m128 list)) = bs"
  by (rule vec_of_bytes_vec_bytes) simp

lemma load_key_file:
  assumes "key_wf aes_key_ok lt key" "fs f = Some (key_file pad key v)"
  shows "load_dpf_key lt f fs = Inr (key, v)"
proof -
  have n: "dk_nitems key < 2 ^ 64" "length (dk_cw key) < 2 ^ 64" "length (dk_finalizer key) = nodes_per_leaf lt"
    and k: "aes_key_ok (dk_prgkey key)" using assms(1) by (simp_all add: key_wf_def)
  show ?thesis
    using aes_key_roundtrip [OF k, of pad] n
    by (simp add: load_dpf_key_def open_in_def assms(2) key_file_def read_raw_append
        read_raw_append [where rest = "[]", simplified])
qed

lemma load_saved_array:
  assumes "fs f = Some (to_bytes (of_nat n :: u64) @ vec_bytes data)" "n < 2 ^ 64" "length data = npl * n"
  shows "load_array npl f fs = Inr (data, n)"
proof -
  have "length (vec_bytes data) = unat (of_nat n :: u64) * (npl * 16)" using assms(2,3) by simp
  with assms show ?thesis
    by (simp add: load_array_def open_in_def read_raw_append read_raw_append [where rest = "[]", simplified])
qed


text \<open>
  The interface of a file format: a value that was saved loads again, whatever is saved under other names afterwards.
\<close>

locale file_format =
  fixes save :: "(string \<Rightarrow> bool) \<Rightarrow> 'v \<Rightarrow> string \<Rightarrow> files \<Rightarrow> files result"
    and load :: "string \<Rightarrow> files \<Rightarrow> 'v result" and ok :: "'v \<Rightarrow> bool"
  assumes save_writable: "w f \<Longrightarrow> \<exists>fs'. save w v f fs = Inr fs'"
    and load_saved: "ok v \<Longrightarrow> save w v f fs = Inr fs' \<Longrightarrow> load f fs' = Inr v"
    and save_other: "save w v f fs = Inr fs' \<Longrightarrow> g \<noteq> f \<Longrightarrow> fs' g = fs g"
    and load_local: "fs f = fs' f \<Longrightarrow> load f fs = load f fs'"
begin

lemma save_two:
  assumes "ok v0" "ok v1" "w f0" "w f1" "f0 \<noteq> f1"
  obtains fs0 fs1 where "save w v0 f0 fs = Inr fs0" "save w v1 f1 fs0 = Inr fs1"
    "load f0 fs1 = Inr v0" "load f1 fs1 = Inr v1"
proof -
  obtain fs0 fs1 where s: "save w v0 f0 fs = Inr fs0" "save w v1 f1 fs0 = Inr fs1"
    using save_writable assms(3,4) by metis
  moreover have "load f0 fs1 = Inr v0"
    using load_saved [OF assms(1) s(1)] load_local [of fs1 f0 fs0] save_other [OF s(2) assms(5)] by simp
  ultimately show thesis using that load_saved [OF assms(2) s(2)] by blast
qed

end

lemma write_file_Inr [simp]:
  "write_file w msg f bytes fs = Inr fs' \<longleftrightarrow> w f \<and> fs' = fs(f \<mapsto> bytes)"
  by (auto simp: write_file_def)

lemma load_locals:
  assumes "fs f = fs' f"
  shows "load_dpf_key lt f fs = load_dpf_key lt f fs'" "load_array npl f fs = load_array npl f fs'"
  by (simp_all add: load_dpf_key_def load_array_def open_in_def assms)

interpretation key_files: file_format "\<lambda>w (key, v). save_dpf_key pad w key v" "load_dpf_key lt"
  "\<lambda>(key, v). key_wf aes_key_ok lt key" for pad lt
  by unfold_locales (auto simp: save_dpf_key_def load_key_file intro: load_locals)

interpretation array_files: file_format "\<lambda>w (data, n) f. save_array w npl f data n" "load_array npl"
  "\<lambda>(data, n). n < 2 ^ 64 \<and> length data = npl * n" for npl
  by unfold_locales (auto simp: save_array_def load_saved_array mult.commute intro: load_locals)


section \<open>The whole program\<close>

lemma wide_arr4: "wide (T_arr 4)" "nodes_per_leaf (T_arr 4) = 4"
  by (simp_all add: wide_def nodes_per_leaf_def is_packed_def ceil_div_def)

lemma dpf_depth_arr4: "dpf_depth (T_arr 4) n = ceillog2 n"
  by (rule wide_simps(5) [OF wide_arr4(1)])

lemma gen_cb_arr4:
  assumes "555 < n" "n < 2 ^ 64" "length v = 4"
  obtains k0 k1 where "gen_cb PRG (T_arr 4) default_aes_key n 555 (LArr v) (default_make_finalizer PRG (T_arr 4)) r0 r1 = Inr (k0, k1)"
    "key_wf aes_key_ok (T_arr 4) k0" "key_wf aes_key_ok (T_arr 4) k1" "dk_nitems k0 = n" "dk_nitems k1 = n"
    "length (dk_cw k0) = ceillog2 n" "length (dk_cw k1) = ceillog2 n"
    "\<And>i. i < n \<Longrightarrow> leaf_xor (eval_leaf PRG (T_arr 4) k0 i) (eval_leaf PRG (T_arr 4) k1 i) = LArr (if i = 555 then v else replicate 4 0)"
proof -
  have t: "leaf_type (LArr v) = T_arr 4" using assms(3) by simp
  obtain k0 k1 where g: "gen_cb PRG (T_arr 4) default_aes_key n 555 (LArr v) (default_make_finalizer PRG (T_arr 4)) r0 r1 = Inr (k0, k1)"
    "\<And>i. i < n \<Longrightarrow> leaf_xor (eval_leaf PRG (T_arr 4) k0 i) (eval_leaf PRG (T_arr 4) k1 i) = (if i = 555 then LArr v else set_zero (LArr v))"
    by (rule aes_prg.gen_cb_pair [OF assms(1) wide_arr4(1) t, of default_aes_key r0 r1]) blast
  note sh = aes_prg.gen_cb_shape [OF g(1) wide_arr4(1) t]
  have "ceillog2 n < 2 ^ 64" using assms ceillog2_le_iff [of n 64] by simp
  with sh assms(2) have "key_wf aes_key_ok (T_arr 4) k0" "key_wf aes_key_ok (T_arr 4) k1"
    by (auto simp: key_wf_def default_aes_key_def aes_key_ok_ctor)
  then show thesis
    using that g sh(1,2,5,6) assms(3) by (simp add: map_replicate_const)
qed

lemma leaf_of_eval:
  assumes "dk_nitems key = n" "0 < n" "4 * n \<le> length (fst mem)" "n \<le> length (snd mem)" "length (dk_cw key) = ceillog2 n"
  obtains out t where "evalinterval PRG (T_arr 4) key 0 (n - 1) mem = Inr (out, t)" "length out = length (fst mem)"
    "\<And>x. x < n \<Longrightarrow> LArr (leaf_at out x) = eval_leaf PRG (T_arr 4) key x"
proof -
  obtain o1 t1 where mem: "mem = (o1, t1)" by (cases mem)
  obtain out t where e: "evalinterval PRG (T_arr 4) key 0 (n - 1) (o1, t1) = Inr (out, t)" "length out = length o1"
    "\<And>x. x < n \<Longrightarrow> leaf_of_nodes (T_arr 4) (take 4 (drop (x * 4) out)) x = eval_leaf PRG (T_arr 4) key x"
    by (rule aes_prg.evalinterval_wide [OF wide_arr4(1) assms(2,1) wide_arr4(2) [symmetric], of o1 t1])
      (use assms in \<open>auto simp: mem\<close>)
  have "leaf_of_nodes (T_arr 4) bs x = LArr bs" for bs x by (simp add: leaf_of_nodes_def is_packed_def)
  with that [of out t] e show thesis by (simp add: mem leaf_at_def)
qed

lemma inequalities_eq:
  assumes "\<And>j. j < n \<Longrightarrow> leaf_xor (LArr (leaf_at o0 j)) (LArr (leaf_at o1 j)) = LArr (if j = 555 then v else replicate 4 0)"
    and "555 < n" "4 * n \<le> length o0" "4 * n \<le> length o1" "length v = 4"
  shows "inequalities n o0 o1 = (if v = replicate 4 0 then [] else [555])"
proof -
  have len: "length (leaf_at o0 j) = 4" "length (leaf_at o1 j) = 4" if "j < n" for j
    using that assms(3,4) by (simp_all add: leaf_at_def)
  have zero: "map2 (XOR) a b = replicate 4 0 \<longleftrightarrow> a = b" if "length a = 4" "length b = 4" for a b :: "m128 list"
    using that by (auto simp: list_eq_iff_nth_eq xor_eq_0_iff)
  have "leaf_at o0 j \<noteq> leaf_at o1 j \<longleftrightarrow> j = 555 \<and> v \<noteq> replicate 4 0" if "j < n" for j
    using assms(1) [OF that] zero [OF len [OF that]] by (auto split: if_splits)
  then have "inequalities n o0 o1 = filter (\<lambda>j. j = 555 \<and> v \<noteq> replicate 4 0) [0..<n]"
    unfolding inequalities_def by (intro filter_cong) (auto simp: leaf4_equal_iff len)
  moreover have "filter (\<lambda>j. j = 555) [0..<n] = [555]" using assms(2) by (induction n) (auto simp: less_Suc_eq)
  ultimately show ?thesis by simp
qed

lemma preproc_main_correct:
  assumes log: "10 \<le> log_nitems" "log_nitems < 64" and n: "n = 2 ^ log_nitems" and v: "length (pi_value i) = 4"
    and mem: "length (fst (pi_mem0 i)) = 4 * n" "length (snd (pi_mem0 i)) = n"
      "length (fst (pi_mem1 i)) = 4 * n" "length (snd (pi_mem1 i)) = n"
    and w: "can_write ''dpfkey0.bin''" "can_write ''dpfkey1.bin''" "can_write ''output0.bin''" "can_write ''output1.bin''"
  shows "\<exists>out. preproc_main can_write log_nitems i fs = Inr out \<and> po_rec out = 555 \<and> po_recc out = 555
    \<and> po_share0 out = pi_share i 0 \<and> po_share1 out = 555 - pi_share i 0
    \<and> po_loaded out = po_keys out \<and> po_loaded_outs out = po_outputs out
    \<and> gen_cb PRG (T_arr 4) default_aes_key n 555 (LArr (pi_value i)) (default_make_finalizer PRG (T_arr 4))
        (fst (pi_roots i)) (snd (pi_roots i)) = Inr (po_keys out)
    \<and> (\<forall>j<n. Inr (LArr (leaf_at (fst (po_outputs out)) j)) = eval PRG (T_arr 4) (fst (po_keys out)) j
        \<and> Inr (LArr (leaf_at (snd (po_outputs out)) j)) = eval PRG (T_arr 4) (snd (po_keys out)) j
        \<and> map2 (XOR) (leaf_at (fst (po_outputs out)) j) (leaf_at (snd (po_outputs out)) j) = (if j = 555 then pi_value i else replicate 4 0))
    \<and> po_unequal out = (if pi_value i = replicate 4 0 then [] else [555])
    \<and> po_unequal_loaded out = po_unequal out \<and> po_eqz out = 1"
proof -
  have "2 ^ 10 \<le> n" unfolding n using log(1) by (rule power_increasing) simp
  moreover have n64: "n < 2 ^ 64" unfolding n using log(2) by (rule power_strict_increasing) simp
  ultimately have big: "555 < n" "0 < n" by simp_all
  obtain k0 k1 where g: "gen_cb PRG (T_arr 4) default_aes_key n 555 (LArr (pi_value i)) (default_make_finalizer PRG (T_arr 4))
      (fst (pi_roots i)) (snd (pi_roots i)) = Inr (k0, k1)"
    and wf: "key_wf aes_key_ok (T_arr 4) k0" "key_wf aes_key_ok (T_arr 4) k1" and d: "dk_nitems k0 = n" "dk_nitems k1 = n"
    and cw: "length (dk_cw k0) = ceillog2 n" "length (dk_cw k1) = ceillog2 n"
    and x: "\<And>j. j < n \<Longrightarrow> leaf_xor (eval_leaf PRG (T_arr 4) k0 j) (eval_leaf PRG (T_arr 4) k1 j) = LArr (if j = 555 then pi_value i else replicate 4 0)"
    by (rule gen_cb_arr4 [OF big(1) n64 v, of "fst (pi_roots i)" "snd (pi_roots i)"]) blast
  obtain o0 t0 where e0: "evalinterval PRG (T_arr 4) k0 0 (n - 1) (pi_mem0 i) = Inr (o0, t0)" "length o0 = 4 * n"
    "\<And>x. x < n \<Longrightarrow> LArr (leaf_at o0 x) = eval_leaf PRG (T_arr 4) k0 x"
    by (rule leaf_of_eval [OF d(1) big(2), of "pi_mem0 i"]) (use mem cw in auto)
  obtain o1 t1 where e1: "evalinterval PRG (T_arr 4) k1 0 (n - 1) (pi_mem1 i) = Inr (o1, t1)" "length o1 = 4 * n"
    "\<And>x. x < n \<Longrightarrow> LArr (leaf_at o1 x) = eval_leaf PRG (T_arr 4) k1 x"
    by (rule leaf_of_eval [OF d(2) big(2), of "pi_mem1 i"]) (use mem cw in auto)
  obtain fs0 fs1 where k: "save_dpf_key (pi_pad i) can_write k0 (pi_share i 0) ''dpfkey0.bin'' fs = Inr fs0"
      "save_dpf_key (pi_pad i) can_write k1 (555 - pi_share i 0) ''dpfkey1.bin'' fs0 = Inr fs1"
      "load_dpf_key (T_arr 4) ''dpfkey0.bin'' fs1 = Inr (k0, pi_share i 0)"
      "load_dpf_key (T_arr 4) ''dpfkey1.bin'' fs1 = Inr (k1, 555 - pi_share i 0)"
    by (rule key_files.save_two [of "T_arr 4" "(k0, pi_share i 0)" "(k1, 555 - pi_share i 0)" can_write "''dpfkey0.bin''"
          "''dpfkey1.bin''" "pi_pad i" fs]) (use wf w in auto)
  obtain fs2 fs3 where a: "save_array can_write 4 ''output0.bin'' o0 n fs1 = Inr fs2"
      "save_array can_write 4 ''output1.bin'' o1 n fs2 = Inr fs3"
      "load_array 4 ''output0.bin'' fs3 = Inr (o0, n)" "load_array 4 ''output1.bin'' fs3 = Inr (o1, n)"
    by (rule array_files.save_two [of 4 "(o0, n)" "(o1, n)" can_write "''output0.bin''" "''output1.bin''" fs1])
      (use e0(2) e1(2) n64 w in auto)
  have "inequalities n o0 o1 = (if pi_value i = replicate 4 0 then [] else [555])"
    by (rule inequalities_eq) (use x e0(2) e1(2) big(1) v in \<open>simp_all only: e0(3) e1(3) order.refl\<close>)
  moreover have sh: "share (pi_share i) 555 2 = Inr [Share (pi_share i 0), Share (555 - pi_share i 0)]"
    by (simp add: share_Inr)
  moreover have "reconstruct [Share (pi_share i 0), Share (555 - pi_share i 0)] = 555" by (simp add: reconstruct_sum)
  moreover have "eqz_demo 335530 (- 335530) (pi_r i) (pi_r0 i) (pi_r0_ashare i) = 1" by (simp add: eqz_demo_eq)
  moreover have "Inr (LArr (leaf_at o0 j)) = eval PRG (T_arr 4) k0 j" "Inr (LArr (leaf_at o1 j)) = eval PRG (T_arr 4) k1 j"
      "map2 (XOR) (leaf_at o0 j) (leaf_at o1 j) = (if j = 555 then pi_value i else replicate 4 0)" if "j < n" for j
    using x [OF that] e0(3) [OF that, symmetric] e1(3) [OF that, symmetric] cw d by (simp_all add: eval_def dpf_depth_arr4)
  ultimately show ?thesis
    using log(2) e0(1) e1(1) by (simp add: preproc_main_def n [symmetric] g k a Let_def)
qed

end
