(* ===== verification/Legacy.thy ===== *)
theory Legacy
  imports MpcCorrect
begin

text \<open>
  \<^verbatim>\<open>mpc/shares_old.hpp\<close> and \<^verbatim>\<open>mpc/mpcops_old.hpp\<close>, the earlier versions of the shares and of the protocols. They have no
  preprocessing: the dealer always sends its material. Shares have the same fields as the current ones. The
  (de)serialization at the head of \<^verbatim>\<open>mpcops_old.hpp\<close> is for a key type whose correction words are pairs and is not modelled.
\<close>

section \<open>The code: shares\<close>

record old_ctx =
  oc_role :: role
  oc_self :: netpeer
  oc_peer0 :: "netpeer option"
  oc_peer1 :: "netpeer option"

definition old_xshare_xor :: "'a::len word xshare \<Rightarrow> 'a word xshare \<Rightarrow> 'a word xshare" where
  "old_xshare_xor a b = XShare (xs_val a XOR xs_val b) (xs_ctx a)"

definition old_xshare_xor_assign :: "'a::len word xshare \<Rightarrow> 'a word xshare \<Rightarrow> 'a word xshare" where
  "old_xshare_xor_assign a b = a\<lparr>xs_val := xs_val a XOR xs_val b\<rparr>"

text \<open>\<^verbatim>\<open>+\<close>, \<^verbatim>\<open>-\<close> and \<^verbatim>\<open>*\<close> build their result without a context.\<close>

definition old_xshare_plus :: "'a::len word xshare \<Rightarrow> 'a word xshare \<Rightarrow> 'a word xshare" where
  "old_xshare_plus a b = XShare (xs_val a XOR xs_val b) Null"

definition old_xshare_minus :: "'a::len word xshare \<Rightarrow> 'a word xshare \<Rightarrow> 'a word xshare" where
  "old_xshare_minus a b = XShare (xs_val a XOR xs_val b) Null"

definition old_xshare_times :: "'a::len word xshare \<Rightarrow> 'a word xshare \<Rightarrow> 'a word xshare" where
  "old_xshare_times a b = XShare (xs_val a AND xs_val b) Null"

definition old_ashare_plus :: "'a::len word ashare \<Rightarrow> 'a word ashare \<Rightarrow> 'a word ashare" where
  "old_ashare_plus a b = AShare (as_val a + as_val b) (as_ctx a)"

definition old_ashare_plus_assign :: "'a::len word ashare \<Rightarrow> 'a word ashare \<Rightarrow> 'a word ashare" where
  "old_ashare_plus_assign a b = a\<lparr>as_val := as_val a + as_val b\<rparr>"

definition old_xvec_xor :: "'a::len word xshare_vec \<Rightarrow> 'a word xshare_vec \<Rightarrow> 'a word xshare_vec result" where
  "old_xvec_xor a b =
     (if length (xv_vals a) \<noteq> length (xv_vals b)
      then Inl (Runtime_error ''XorShareVector: size mismatch in ^ operator'')
      else Inr \<lparr>xv_vals = map (\<lambda>i. xv_vals a ! i XOR xv_vals b ! i) [0..<length (xv_vals a)]\<rparr>)"

text \<open>\<^verbatim>\<open>share_secret\<close> masks the secret by xor and returns additive shares; \<open>r\<close> is the result of \<^verbatim>\<open>random_uint64\<close>.\<close>

definition old_share_secret :: "u64 \<Rightarrow> 'a::len word \<Rightarrow> 'a word ashare \<times> 'a word ashare" where
  "old_share_secret r secret = (let s0 = ucast r; s1 = s0 XOR secret in (AShare s0 Null, AShare s1 Null))"

definition old_reconstruct_remote_A :: "netpeer \<Rightarrow> 'a::len word ashare \<Rightarrow> 'a word coro" where
  "old_reconstruct_remote_A peer my_share =
     Await [send_val peer (as_val my_share)] (\<lambda>_.
     Await [recv_val TYPE('a word) peer] (\<lambda>r.
     let other_val = of_bytes (r ! 0) in Return (as_val my_share + other_val)))"

definition old_reconstruct_remote_X :: "netpeer \<Rightarrow> 'a::len word xshare \<Rightarrow> 'a word coro" where
  "old_reconstruct_remote_X peer my_share =
     Await [send_val peer (xs_val my_share)] (\<lambda>_.
     Await [recv_val TYPE('a word) peer] (\<lambda>r.
     let other_val = of_bytes (r ! 0) in Return (xs_val my_share XOR other_val)))"

definition old_reconstruct_remote_vector :: "netpeer \<Rightarrow> 'a::len word xshare_vec \<Rightarrow> 'a word list coro" where
  "old_reconstruct_remote_vector peer my_share =
     Await [send_vec peer (xv_vals my_share)] (\<lambda>_.
     Await [recv_vec TYPE('a word) peer] (\<lambda>r.
     let other_vals = vec_of_bytes (r ! 0) :: 'a word list
     in if length other_vals \<noteq> length (xv_vals my_share)
        then Throw (Runtime_error ''reconstruct_remote_vector: size mismatch'')
        else Return (map (\<lambda>i. xv_vals my_share ! i XOR other_vals ! i) [0..<length other_vals])))"


section \<open>The code: protocols\<close>

text \<open>\<^verbatim>\<open>co_await (p << v)\<close> and \<^verbatim>\<open>co_await (p >> v)\<close>.\<close>

definition send1 :: "netpeer \<Rightarrow> 'a::len word \<Rightarrow> 'v coro \<Rightarrow> 'v coro" where
  "send1 p v k = Await [send_val p v] (\<lambda>_. k)"

definition recv1 :: "netpeer \<Rightarrow> ('a::len word \<Rightarrow> 'v coro) \<Rightarrow> 'v coro" where
  "recv1 p k = Await [recv_val TYPE('a word) p] (\<lambda>r. k (of_bytes (r ! 0)))"

definition old_mul :: "u64 ashare \<Rightarrow> u64 ashare \<Rightarrow> role \<Rightarrow> netpeer \<Rightarrow> netpeer option \<Rightarrow> netpeer option \<Rightarrow> pstate
    \<Rightarrow> (u64 \<times> pstate) coro" where
  "old_mul x y role self peer_ptr second_peer st =
     (case role of
        P2 \<Rightarrow>
          (case (peer_ptr, second_peer) of
             (Some p0, Some p1) \<Rightarrow>
               let (X0, st) = arc4random_val st; (Y0, st) = arc4random_val st;
                   (X1, st) = arc4random_val st; (Y1, st) = arc4random_val st;
                   gamma0 = X0 * Y1 :: u64; gamma1 = X1 * Y0 :: u64
               in Await [send_val p0 X0, send_val p1 Y0, send_val p0 X1, send_val p1 Y1, send_val p0 gamma0, send_val p1 gamma1]
                    (\<lambda>_. Return (0, st))
           | _ \<Rightarrow> Return (0, st))
      | P0 \<Rightarrow>
          (case peer_ptr of
             None \<Rightarrow> Return (0, st)
           | Some peer \<Rightarrow>
               Await [recv_val TYPE(u64) self, recv_val TYPE(u64) self, recv_val TYPE(u64) self] (\<lambda>r.
               let X0 = of_bytes (r ! 0); Y0 = of_bytes (r ! 1); gamma0 = of_bytes (r ! 2); x0 = as_val x; y0 = as_val y
               in Await [send_val peer (x0 + X0), send_val peer (y0 + Y0)] (\<lambda>_.
                  Await [recv_val TYPE(u64) peer, recv_val TYPE(u64) peer] (\<lambda>r.
                  let X_tilde = of_bytes (r ! 0); Y_tilde = of_bytes (r ! 1)
                  in Return (x0 * (y0 + Y_tilde) - Y0 * X_tilde + gamma0, st)))))
      | P1 \<Rightarrow>
          (case peer_ptr of
             None \<Rightarrow> Return (0, st)
           | Some peer \<Rightarrow>
               Await [recv_val TYPE(u64) self, recv_val TYPE(u64) self, recv_val TYPE(u64) self] (\<lambda>r.
               let X1 = of_bytes (r ! 0); Y1 = of_bytes (r ! 1); gamma1 = of_bytes (r ! 2); x1 = as_val x; y1 = as_val y
               in Await [recv_val TYPE(u64) peer, recv_val TYPE(u64) peer] (\<lambda>r.
                  let X_tilde = of_bytes (r ! 0); Y_tilde = of_bytes (r ! 1)
                  in Await [send_val peer (x1 + X1), send_val peer (y1 + Y1)] (\<lambda>_.
                     Return (x1 * (y1 + Y_tilde) - Y1 * X_tilde + gamma1, st))))))"

definition old_and :: "'a::len word xshare \<Rightarrow> 'a word xshare \<Rightarrow> role \<Rightarrow> netpeer \<Rightarrow> netpeer option \<Rightarrow> netpeer option \<Rightarrow> pstate
    \<Rightarrow> ('a word \<times> pstate) coro" where
  "old_and x y role self peer_ptr second_peer st =
     (case role of
        P2 \<Rightarrow>
          (case (peer_ptr, second_peer) of
             (Some p0, Some p1) \<Rightarrow>
               let (X0, st) = arc4random_val st; (Y0, st) = arc4random_val st;
                   (X1, st) = arc4random_val st; (Y1, st) = arc4random_val st;
                   gamma0 = X0 AND Y1 :: 'a word; gamma1 = X1 AND Y0 :: 'a word
               in send1 p0 X0 (send1 p0 Y0 (send1 p0 gamma0 (send1 p1 X1 (send1 p1 Y1 (send1 p1 gamma1 (Return (0, st)))))))
           | _ \<Rightarrow> Return (0, st))
      | P0 \<Rightarrow>
          (case peer_ptr of
             None \<Rightarrow> Return (0, st)
           | Some peer \<Rightarrow>
               recv1 self (\<lambda>X0. recv1 self (\<lambda>Y0. recv1 self (\<lambda>gamma0.
               let x0 = xs_val x; y0 = xs_val y; a0 = x0 XOR X0; b0 = y0 XOR Y0
               in send1 peer a0 (send1 peer b0 (recv1 peer (\<lambda>a1. recv1 peer (\<lambda>b1.
                  Return ((x0 AND (y0 XOR b1)) XOR (Y0 AND a1) XOR gamma0, st)))))))))
      | P1 \<Rightarrow>
          (case peer_ptr of
             None \<Rightarrow> Return (0, st)
           | Some peer \<Rightarrow>
               recv1 self (\<lambda>X1. recv1 self (\<lambda>Y1. recv1 self (\<lambda>gamma1.
               let x1 = xs_val x; y1 = xs_val y
               in recv1 peer (\<lambda>a0. recv1 peer (\<lambda>b0.
                  let a1 = x1 XOR X1; b1 = y1 XOR Y1
                  in send1 peer a1 (send1 peer b1
                     (Return ((x1 AND (y1 XOR b0)) XOR (Y1 AND a0) XOR gamma1, st))))))))))"

text \<open>
  \<^verbatim>\<open>operator*\<close> also throws when the contexts of its operands are different objects; a party has one context here, so two
  operands that have one have the same.
\<close>

definition old_ashare_times :: "old_ctx \<Rightarrow> u64 ashare \<Rightarrow> u64 ashare \<Rightarrow> pstate \<Rightarrow> (u64 ashare \<times> pstate) coro" where
  "old_ashare_times ctx x y st =
     (if as_ctx x = Null \<or> as_ctx y = Null
      then Throw (Runtime_error ''AShare::operator* requires both operands to have MPCContext set'')
      else bind (old_mul x y (oc_role ctx) (oc_self ctx) (oc_peer0 ctx) (oc_peer1 ctx) st)
        (\<lambda>(result, st). Return (AShare result (as_ctx x), st)))"

text \<open>The loop of \<^verbatim>\<open>mpc_eqz\<close>; both computing parties call \<^verbatim>\<open>mpc_and\<close> in the role of P0.\<close>

fun old_eqz_loop :: "bool \<Rightarrow> netpeer \<Rightarrow> netpeer \<Rightarrow> u64 \<Rightarrow> u64 \<Rightarrow> nat list \<Rightarrow> u64 \<Rightarrow> pstate \<Rightarrow> (u64 \<times> pstate) coro" where
  "old_eqz_loop is_p0 self peer c_rec rXS [] eqz st = Return (eqz, st)"
| "old_eqz_loop is_p0 self peer c_rec rXS (i # is) eqz st =
     (let c_rec_i = drop_bit i c_rec AND 1; rXS_i = drop_bit i rXS AND 1;
          diff = (if is_p0 then c_rec_i XOR rXS_i else rXS_i);
          yy = XShare diff Null; xx = XShare eqz Null
      in bind (old_and xx yy P0 self (Some peer) None st) (\<lambda>(aaa, st).
         send1 peer (1 - diff) (recv1 peer (\<lambda>diff_recv.
         let diff_recv = diff_recv XOR (1 - diff)
         in old_eqz_loop is_p0 self peer c_rec rXS is (eqz AND (1 - diff_recv)) st))))"

definition old_eqz :: "u64 ashare \<Rightarrow> role \<Rightarrow> netpeer \<Rightarrow> netpeer option \<Rightarrow> netpeer option \<Rightarrow> pstate \<Rightarrow> (u64 \<times> pstate) coro" where
  "old_eqz x role self peer_ptr second_peer st =
     (if role = P2 then
        (case (peer_ptr, second_peer) of
           (Some p0, Some p1) \<Rightarrow>
             let (r, st) = arc4random_val st; (r0AS, st) = arc4random_val st; (r0XS, st) = arc4random_val st;
                 r1AS = r - r0AS; r1XS = r XOR r0XS :: u64;
                 yy = XShare (1 :: u64) Null; xx = XShare 1 Null
             in bind (old_and xx yy P2 p0 (Some p0) (Some p1) st) (\<lambda>(_, st).
                Await [send_val p0 r0AS, send_val p1 r1AS, send_val p0 r0XS, send_val p1 r1XS] (\<lambda>_. Return (0, st)))
         | _ \<Rightarrow> Return (0, st))
      else
        (case peer_ptr of
           None \<Rightarrow> Return (0, st)
         | Some peer \<Rightarrow>
             Await [recv_val TYPE(u64) self, recv_val TYPE(u64) self] (\<lambda>m.
             let rAS = of_bytes (m ! 0) :: u64; rXS = of_bytes (m ! 1) :: u64; c = as_val x + rAS
             in send1 peer c (recv1 peer (\<lambda>c_recv.
                let c_rec = c + c_recv
                in old_eqz_loop (role = P0) self peer c_rec rXS [0..<64] 1 st)))))"


section \<open>Products and conjunctions\<close>

lemmas old_simps = send1_def recv1_def msg_simps Let_def

lemma swap2_sequential:
  assumes [simp]: "length a1 = n" "length a2 = n" "length b1 = n" "length b2 = n"
  shows "reaches
     (three (Await [Send P1 [a1], Send P1 [a2]] (\<lambda>_. Await [Recv P1 (RRead n RDone), Recv P1 (RRead n RDone)] k0))
        (Await [Recv P0 (RRead n RDone), Recv P0 (RRead n RDone)] (\<lambda>r. Await [Send P0 [b1], Send P0 [b2]] (\<lambda>_. k1 r))) c) quiet
     (three (k0 [b1, b2]) (k1 [a1, a2]) c) quiet"
  by (rule reaches_threeI [where as = "[ASend P0 P1, ASend P0 P1, ARecv P1 P0, ARecv P1 P0, ASend P1 P0, ASend P1 P0, ARecv P0 P1, ARecv P0 P1]"])
    (simp add: exec_simps)

lemma old_mul_joint:
  "\<exists>z0 z1. joint (three (old_mul x0 y0 P0 (peer_at P0 P2) (Some (peer_at P1 P1)) None s0)
        (old_mul x1 y1 P1 (peer_at P1 P2) (Some (peer_at P0 P0)) None s1)
        (old_mul x2 y2 P2 (peer_at P0 P0) (Some (peer_at P0 P0)) (Some (peer_at P1 P1)) s2)) quiet
      (three (z0, s0) (z1, s1) (0, skip_rng 32 s2)) quiet
    \<and> z0 + z1 = (as_val x0 + as_val x1) * (as_val y0 + as_val y1)"
proof -
  define X0 Y0 X1 Y1 where "X0 = (rng_val s2 0 :: u64)" and "Y0 = (rng_val s2 8 :: u64)"
    and "X1 = (rng_val s2 16 :: u64)" and "Y1 = (rng_val s2 24 :: u64)"
  define a0 b0 a1 b1 where "a0 = as_val x0" and "b0 = as_val y0" and "a1 = as_val x1" and "b1 = as_val y1"
  have g: "X0 * Y1 + X1 * Y0 = X1 * Y0 + Y1 * X0" by (simp add: algebra_simps)
  have "joint (three (old_mul x0 y0 P0 (peer_at P0 P2) (Some (peer_at P1 P1)) None s0)
        (old_mul x1 y1 P1 (peer_at P1 P2) (Some (peer_at P0 P0)) None s1)
        (old_mul x2 y2 P2 (peer_at P0 P0) (Some (peer_at P0 P0)) (Some (peer_at P1 P1)) s2)) quiet
      (three (a0 * (b0 + (b1 + Y1)) - X1 * (a1 + Y0) + X0 * Y1, s0) (a1 * (b1 + (b0 + X1)) - Y1 * (a0 + X0) + X1 * Y0, s1)
        (0, skip_rng 32 s2)) quiet"
    unfolding old_mul_def role.case option.case prod.case arc4random_val_eq Let_def msg_simps np_sock_peer_at
    by (simp flip: X0_def Y0_def X1_def Y1_def a0_def b0_def a1_def b1_def)
      (rule reaches_joint [OF deal3_alternating], simp_all, rule reaches_joint [OF swap2_sequential],
       simp_all add: joint_three_return)
  with beaver_mul [OF g, of a0 b0 b1 a1] show ?thesis
    unfolding a0_def b0_def a1_def b1_def by blast
qed

lemma old_and_joint:
  fixes x0 :: "'a::len word xshare"
  assumes [simp]: "8 dvd LENGTH('a)"
  shows "\<exists>z0 z1. joint (three (old_and x0 y0 P0 (peer_at P0 P2) (Some (peer_at P1 P1)) None s0)
        (old_and x1 y1 P1 (peer_at P1 P2) (Some (peer_at P0 P0)) None s1)
        (old_and x2 y2 P2 (peer_at P0 P0) (Some (peer_at P0 P0)) (Some (peer_at P1 P1)) s2)) quiet
      (three (z0, s0) (z1, s1) (0, skip_rng (4 * (LENGTH('a) div 8)) s2)) quiet
    \<and> z0 XOR z1 = (xs_val x0 XOR xs_val x1) AND (xs_val y0 XOR xs_val y1)"
proof -
  let ?w = "LENGTH('a) div 8"
  define X0 Y0 X1 Y1 where "X0 = (rng_val s2 0 :: 'a word)" and "Y0 = (rng_val s2 ?w :: 'a word)"
    and "X1 = (rng_val s2 (?w + ?w) :: 'a word)" and "Y1 = (rng_val s2 (?w + (?w + ?w)) :: 'a word)"
  have w: "4 * ?w = ?w + (?w + (?w + ?w))" by simp
  define a0 b0 a1 b1 where "a0 = xs_val x0" and "b0 = xs_val y0" and "a1 = xs_val x1" and "b1 = xs_val y1"
  have "joint (three (old_and x0 y0 P0 (peer_at P0 P2) (Some (peer_at P1 P1)) None s0)
        (old_and x1 y1 P1 (peer_at P1 P2) (Some (peer_at P0 P0)) None s1)
        (old_and x2 y2 P2 (peer_at P0 P0) (Some (peer_at P0 P0)) (Some (peer_at P1 P1)) s2)) quiet
      (three ((a0 AND (b0 XOR (b1 XOR Y1))) XOR (Y0 AND (a1 XOR X1)) XOR (X0 AND Y1), s0)
        ((a1 AND (b1 XOR (b0 XOR Y0))) XOR (Y1 AND (a0 XOR X0)) XOR (X1 AND Y0), s1)
        (0, skip_rng (4 * ?w) s2)) quiet"
    unfolding w
    by (rule joint_threeI [where as = "deal_acts 3 @ [ASend P0 P1, ASend P0 P1, ARecv P1 P0, ARecv P1 P0, ASend P1 P0, ASend P1 P0, ARecv P0 P1, ARecv P0 P1]"])
      (simp add: old_and_def arc4random_val_eq exec_simps acts_simps old_simps
        flip: X0_def Y0_def X1_def Y1_def a0_def b0_def a1_def b1_def)
  with beaver_and [of a0 b0 b1 Y1 Y0 a1 X1 X0] show ?thesis
    unfolding a0_def b0_def a1_def b1_def by blast
qed


section \<open>The zero test blocks\<close>

text \<open>
  The dealer sends five words to each party, material for one conjunction first. Each party takes the first two for
  its mask, exchanges a word, runs one conjunction on the other three, and waits for the material of the second.
\<close>

definition dealt :: "byte list \<Rightarrow> byte list \<Rightarrow> net" where
  "dealt q0 q1 = three (three [] [] []) (three [] [] []) (three q0 q1 [])"

lemma dealt_empty: "dealt [] [] = quiet"
  by (simp add: dealt_def quiet_three)

lemma deal_five:
  assumes [simp]: "length a1 = n" "length a2 = n" "length b1 = n" "length b2 = n"
  shows "reaches
     (three (Await [Recv P2 (RRead n RDone), Recv P2 (RRead n RDone)] k0)
        (Await [Recv P2 (RRead n RDone), Recv P2 (RRead n RDone)] k1)
        (Await [Send P0 [a1]] (\<lambda>_. Await [Send P0 [a2]] (\<lambda>_. Await [Send P0 [a3]] (\<lambda>_.
         Await [Send P1 [b1]] (\<lambda>_. Await [Send P1 [b2]] (\<lambda>_. Await [Send P1 [b3]] (\<lambda>_.
         Await [Send P0 [a4], Send P1 [b4], Send P0 [a5], Send P1 [b5]] (\<lambda>_. Return v))))))))) quiet
     (three (k0 [a1, a2]) (k1 [b1, b2]) (Return v)) (dealt (a3 @ a4 @ a5) (b3 @ b4 @ b5))"
  by (rule reaches_threeI [where as = "replicate 3 (ASend P2 P0) @ replicate 3 (ASend P2 P1) @ replicate 2 (ASend P2 P0)
      @ replicate 2 (ASend P2 P1) @ replicate 2 (ARecv P0 P2) @ replicate 2 (ARecv P1 P2)"])
    (simp add: exec_simps acts_simps dealt_def)

lemma swap_sequential:
  assumes [simp]: "length a = n" "length b = n"
  shows "reaches
     (three (Await [Send P1 [a]] (\<lambda>_. Await [Recv P1 (RRead n RDone)] k0))
        (Await [Send P0 [b]] (\<lambda>_. Await [Recv P0 (RRead n RDone)] k1)) (Return v)) (dealt q0 q1)
     (three (k0 [b]) (k1 [a]) (Return v)) (dealt q0 q1)"
  by (rule reaches_threeI [where as = "swap_acts 1"]) (simp add: exec_simps acts_simps dealt_def)

lemma conjunction_as_P0:
  assumes [simp]: "length a1 = n" "length a2 = n" "length a3 = n" "length b1 = n" "length b2 = n" "length b3 = n"
    "\<And>u v w. length (p0 u v w) = n" "\<And>u v w. length (q0 u v w) = n" "\<And>u v w. length (p1 u v w) = n" "\<And>u v w. length (q1 u v w) = n"
  shows "reaches
     (three (Await [Recv P2 (RRead n RDone)] (\<lambda>u. Await [Recv P2 (RRead n RDone)] (\<lambda>v. Await [Recv P2 (RRead n RDone)] (\<lambda>w.
          Await [Send P1 [p0 u v w]] (\<lambda>_. Await [Send P1 [q0 u v w]] (\<lambda>_.
          Await [Recv P1 (RRead n RDone)] (\<lambda>r. Await [Recv P1 (RRead n RDone)] (k0 u v w r))))))))
       (Await [Recv P2 (RRead n RDone)] (\<lambda>u. Await [Recv P2 (RRead n RDone)] (\<lambda>v. Await [Recv P2 (RRead n RDone)] (\<lambda>w.
          Await [Send P0 [p1 u v w]] (\<lambda>_. Await [Send P0 [q1 u v w]] (\<lambda>_.
          Await [Recv P0 (RRead n RDone)] (\<lambda>r. Await [Recv P0 (RRead n RDone)] (k1 u v w r)))))))) (Return x))
     (dealt (a1 @ a2 @ a3) (b1 @ b2 @ b3))
     (three (k0 [a1] [a2] [a3] [p1 [b1] [b2] [b3]] [q1 [b1] [b2] [b3]])
       (k1 [b1] [b2] [b3] [p0 [a1] [a2] [a3]] [q0 [a1] [a2] [a3]]) (Return x)) (dealt [] [])"
  by (rule reaches_threeI [where as = "replicate 3 (ARecv P0 P2) @ replicate 3 (ARecv P1 P2) @ swap_acts 2"])
    (simp add: exec_simps acts_simps dealt_def)

text \<open>A thread that has nothing left to write and waits for bytes from one party only.\<close>

definition waits_for :: "role \<Rightarrow> 'a thread \<Rightarrow> bool" where
  "waits_for r th = (case th of
       Blocked oq iq _ _ \<Rightarrow> (\<forall>q. oq q = []) \<and> (\<forall>q. (iq q \<noteq> []) = (q = r)) \<and> (\<forall>(_, n, _) \<in> set (iq r). 0 < n)
     | _ \<Rightarrow> False)"

lemma role_all: "(\<forall>q. P q) \<longleftrightarrow> P P0 \<and> P P1 \<and> P P2"
  by (metis role.exhaust)

lemma blocked_on_dealer:
  assumes "0 < n"
  shows "fire a (three (settle (Await [Recv P2 (RRead n RDone)] k0)) (settle (Await [Recv P2 (RRead n RDone)] k1)) (Done v), quiet) = None"
    "waits_for P2 (settle (Await [Recv P2 (RRead n RDone)] k))"
proof -
  show "fire a (three (settle (Await [Recv P2 (RRead n RDone)] k0)) (settle (Await [Recv P2 (RRead n RDone)] k1)) (Done v), quiet) = None"
  proof (cases a)
    case (ASend p q)
    then show ?thesis using assms by (cases p; cases q) (simp_all add: exec_simps)
  next
    case (ARecv p q)
    then show ?thesis using assms by (cases p; cases q) (simp_all add: exec_simps)
  qed
  show "waits_for P2 (settle (Await [Recv P2 (RRead n RDone)] k))"
    using assms by (simp add: exec_simps waits_for_def role_all)
qed

lemma every_run_blocked:
  assumes "reaches c quiet (three (Await [Recv P2 (RRead n RDone)] k0) (Await [Recv P2 (RRead n RDone)] k1) (Return v)) quiet" "0 < n"
  shows "\<exists>th0 th1. every_run c quiet (three th0 th1 (Done v)) quiet \<and> waits_for P2 th0 \<and> waits_for P2 th1"
proof -
  let ?th = "\<lambda>k. settle (Await [Recv P2 (RRead n RDone)] k)"
  obtain as where "run_sched as (start c quiet) = Some (three (?th k0) (?th k1) (Done v), quiet)"
    using assms(1) unfolding reaches_def start_three by auto
  from every_run_terminalI [OF this blocked_on_dealer(1) [OF assms(2)]] blocked_on_dealer(2) [OF assms(2)]
  show ?thesis by blast
qed

lemma old_eqz_blocked:
  "\<exists>th0 th1. every_run (three (old_eqz x0 P0 (peer_at P0 P2) (Some (peer_at P1 P1)) None s0)
        (old_eqz x1 P1 (peer_at P1 P2) (Some (peer_at P0 P0)) None s1)
        (old_eqz x2 P2 (peer_at P0 P0) (Some (peer_at P0 P0)) (Some (peer_at P1 P1)) s2)) quiet
      (three th0 th1 (Done (0, skip_rng 56 s2))) quiet
    \<and> waits_for P2 th0 \<and> waits_for P2 th1"
proof -
  obtain rest :: "nat list" where upt: "[0..<64] = 0 # 1 # rest"
    using upt_conv_Cons [of 0 64] upt_conv_Cons [of 1 64] by simp
  show ?thesis
    unfolding old_eqz_def upt
    by (simp add: old_simps arc4random_val_eq old_and_def)
      (rule every_run_blocked, rule reaches_trans [OF deal_five], simp_all, rule reaches_trans [OF swap_sequential], simp_all,
       rule reaches_trans [OF conjunction_as_P0], simp_all, rule reaches_trans [OF swap_sequential], simp_all add: dealt_empty,
       rule reaches_refl, simp)
qed


section \<open>Shares of a secret that do not add up\<close>

lemma word_add_xor_and: "a + b = (a XOR b) + 2 * (a AND b)" for a b :: "'a::len word"
proof -
  have "a + b = (a OR b) + (a AND b)" using word_plus_and_or [of a b] by (simp only: add.commute)
  moreover have "a OR b = (a XOR b) OR (a AND b)" by (rule bit_word_eqI) (auto simp: bit_simps)
  moreover have "(a XOR b) OR (a AND b) = (a XOR b) + (a AND b)"
    by (rule disjunctive_add_eq_or [symmetric]) (rule bit_word_eqI, auto simp: bit_simps)
  ultimately show ?thesis by (simp add: algebra_simps)
qed

text \<open>Reconstruction by addition returns the secret plus twice the mask bits that the secret lacks.\<close>

lemma old_sharing_joint:
  assumes "8 dvd LENGTH('a::len)" "old_share_secret r secret = (sh0, sh1)"
  shows "let v = secret + 2 * (ucast r AND (NOT secret)) :: 'a word
    in joint (three (old_reconstruct_remote_A (peer_at P1 P1) sh0) (old_reconstruct_remote_A (peer_at P0 P0) sh1) (Return 0)) quiet
      (three v v 0) quiet"
proof -
  have s: "sh0 = AShare (ucast r) Null" "sh1 = AShare (ucast r XOR secret) Null"
    using assms(2) by (simp_all add: old_share_secret_def Let_def)
  have a: "ucast r AND (ucast r XOR secret) = (ucast r AND NOT secret :: 'a word)"
    by (rule bit_word_eqI) (auto simp: bit_simps)
  have "ucast r + (ucast r XOR secret) = secret + 2 * (ucast r AND NOT secret)"
    unfolding word_add_xor_and [of "ucast r"] a by simp
  then show ?thesis
    using exchange_A [OF assms(1), of sh0 sh1] assms(1)
    by (simp add: s old_reconstruct_remote_A_def reconstruct_remote_A_def Let_def)
qed

end
