(* ===== verification/OcAes.thy ===== *)
theory OcAes
  imports Aes
begin

text \<open>
  \<^verbatim>\<open>cryptoTools/Crypto/AES.h\<close> and \<^verbatim>\<open>AES.cpp\<close>, the block cipher under the random generator of the transfer library. The
  class template has three instances: the x86 instructions (\<open>NI\<close>), C++ on the bytes of the state (\<open>Portable\<close>) and the
  ARM instructions (\<open>ARM\<close>), which add the round key before the substitution and not after the column mix. A function
  of the class takes the instance as its first argument. The main lemmas show that the three instances compute the
  same function and that it is the one of \<^verbatim>\<open>mpc/aes.h\<close>, that batches, counter mode and the hash modes work block by
  block, and that decryption inverts encryption. Assertions on alignment and overlap of buffers are not modelled:
  inputs and outputs are values.
\<close>

section \<open>The code: blocks\<close>

text \<open>\<^verbatim>\<open>block::get<u32>\<close>, \<^verbatim>\<open>block::set<u32>\<close> and the operations on lanes.\<close>

definition get_u32 :: "m128 \<Rightarrow> nat \<Rightarrow> u32" where
  "get_u32 a i = of_bytes (take 4 (drop (4 * i) (to_bytes a)))"

definition set_u32 :: "m128 \<Rightarrow> nat \<Rightarrow> u32 \<Rightarrow> m128" where
  "set_u32 a i v = of_bytes (take (4 * i) (to_bytes a) @ to_bytes v @ drop (4 * i + 4) (to_bytes a))"

definition slli_si128 :: "nat \<Rightarrow> m128 \<Rightarrow> m128" where
  "slli_si128 imm8 a = push_bit (8 * imm8) a"

definition add_epi64 :: "m128 \<Rightarrow> m128 \<Rightarrow> m128" where
  "add_epi64 a b = mm_set_epi64x (mm_extract_epi64_1 a + mm_extract_epi64_1 b) (mm_cvtsi128_si64 a + mm_cvtsi128_si64 b)"

text \<open>\<^verbatim>\<open>toBlock(low)\<close> and \<^verbatim>\<open>block(low)\<close>.\<close>

definition toBlock :: "u64 \<Rightarrow> m128" where
  "toBlock low = mm_set_epi64x 0 low"


section \<open>The code: portable rounds\<close>

definition oc_sbox :: "byte list" where
  "oc_sbox = [
    0x63, 0x7c, 0x77, 0x7b, 0xf2, 0x6b, 0x6f, 0xc5, 0x30, 0x01, 0x67, 0x2b, 0xfe, 0xd7, 0xab, 0x76,
    0xca, 0x82, 0xc9, 0x7d, 0xfa, 0x59, 0x47, 0xf0, 0xad, 0xd4, 0xa2, 0xaf, 0x9c, 0xa4, 0x72, 0xc0,
    0xb7, 0xfd, 0x93, 0x26, 0x36, 0x3f, 0xf7, 0xcc, 0x34, 0xa5, 0xe5, 0xf1, 0x71, 0xd8, 0x31, 0x15,
    0x04, 0xc7, 0x23, 0xc3, 0x18, 0x96, 0x05, 0x9a, 0x07, 0x12, 0x80, 0xe2, 0xeb, 0x27, 0xb2, 0x75,
    0x09, 0x83, 0x2c, 0x1a, 0x1b, 0x6e, 0x5a, 0xa0, 0x52, 0x3b, 0xd6, 0xb3, 0x29, 0xe3, 0x2f, 0x84,
    0x53, 0xd1, 0x00, 0xed, 0x20, 0xfc, 0xb1, 0x5b, 0x6a, 0xcb, 0xbe, 0x39, 0x4a, 0x4c, 0x58, 0xcf,
    0xd0, 0xef, 0xaa, 0xfb, 0x43, 0x4d, 0x33, 0x85, 0x45, 0xf9, 0x02, 0x7f, 0x50, 0x3c, 0x9f, 0xa8,
    0x51, 0xa3, 0x40, 0x8f, 0x92, 0x9d, 0x38, 0xf5, 0xbc, 0xb6, 0xda, 0x21, 0x10, 0xff, 0xf3, 0xd2,
    0xcd, 0x0c, 0x13, 0xec, 0x5f, 0x97, 0x44, 0x17, 0xc4, 0xa7, 0x7e, 0x3d, 0x64, 0x5d, 0x19, 0x73,
    0x60, 0x81, 0x4f, 0xdc, 0x22, 0x2a, 0x90, 0x88, 0x46, 0xee, 0xb8, 0x14, 0xde, 0x5e, 0x0b, 0xdb,
    0xe0, 0x32, 0x3a, 0x0a, 0x49, 0x06, 0x24, 0x5c, 0xc2, 0xd3, 0xac, 0x62, 0x91, 0x95, 0xe4, 0x79,
    0xe7, 0xc8, 0x37, 0x6d, 0x8d, 0xd5, 0x4e, 0xa9, 0x6c, 0x56, 0xf4, 0xea, 0x65, 0x7a, 0xae, 0x08,
    0xba, 0x78, 0x25, 0x2e, 0x1c, 0xa6, 0xb4, 0xc6, 0xe8, 0xdd, 0x74, 0x1f, 0x4b, 0xbd, 0x8b, 0x8a,
    0x70, 0x3e, 0xb5, 0x66, 0x48, 0x03, 0xf6, 0x0e, 0x61, 0x35, 0x57, 0xb9, 0x86, 0xc1, 0x1d, 0x9e,
    0xe1, 0xf8, 0x98, 0x11, 0x69, 0xd9, 0x8e, 0x94, 0x9b, 0x1e, 0x87, 0xe9, 0xce, 0x55, 0x28, 0xdf,
    0x8c, 0xa1, 0x89, 0x0d, 0xbf, 0xe6, 0x42, 0x68, 0x41, 0x99, 0x2d, 0x0f, 0xb0, 0x54, 0xbb, 0x16]"

definition rsbox :: "byte list" where
  "rsbox = [
    0x52, 0x09, 0x6a, 0xd5, 0x30, 0x36, 0xa5, 0x38, 0xbf, 0x40, 0xa3, 0x9e, 0x81, 0xf3, 0xd7, 0xfb,
    0x7c, 0xe3, 0x39, 0x82, 0x9b, 0x2f, 0xff, 0x87, 0x34, 0x8e, 0x43, 0x44, 0xc4, 0xde, 0xe9, 0xcb,
    0x54, 0x7b, 0x94, 0x32, 0xa6, 0xc2, 0x23, 0x3d, 0xee, 0x4c, 0x95, 0x0b, 0x42, 0xfa, 0xc3, 0x4e,
    0x08, 0x2e, 0xa1, 0x66, 0x28, 0xd9, 0x24, 0xb2, 0x76, 0x5b, 0xa2, 0x49, 0x6d, 0x8b, 0xd1, 0x25,
    0x72, 0xf8, 0xf6, 0x64, 0x86, 0x68, 0x98, 0x16, 0xd4, 0xa4, 0x5c, 0xcc, 0x5d, 0x65, 0xb6, 0x92,
    0x6c, 0x70, 0x48, 0x50, 0xfd, 0xed, 0xb9, 0xda, 0x5e, 0x15, 0x46, 0x57, 0xa7, 0x8d, 0x9d, 0x84,
    0x90, 0xd8, 0xab, 0x00, 0x8c, 0xbc, 0xd3, 0x0a, 0xf7, 0xe4, 0x58, 0x05, 0xb8, 0xb3, 0x45, 0x06,
    0xd0, 0x2c, 0x1e, 0x8f, 0xca, 0x3f, 0x0f, 0x02, 0xc1, 0xaf, 0xbd, 0x03, 0x01, 0x13, 0x8a, 0x6b,
    0x3a, 0x91, 0x11, 0x41, 0x4f, 0x67, 0xdc, 0xea, 0x97, 0xf2, 0xcf, 0xce, 0xf0, 0xb4, 0xe6, 0x73,
    0x96, 0xac, 0x74, 0x22, 0xe7, 0xad, 0x35, 0x85, 0xe2, 0xf9, 0x37, 0xe8, 0x1c, 0x75, 0xdf, 0x6e,
    0x47, 0xf1, 0x1a, 0x71, 0x1d, 0x29, 0xc5, 0x89, 0x6f, 0xb7, 0x62, 0x0e, 0xaa, 0x18, 0xbe, 0x1b,
    0xfc, 0x56, 0x3e, 0x4b, 0xc6, 0xd2, 0x79, 0x20, 0x9a, 0xdb, 0xc0, 0xfe, 0x78, 0xcd, 0x5a, 0xf4,
    0x1f, 0xdd, 0xa8, 0x33, 0x88, 0x07, 0xc7, 0x31, 0xb1, 0x12, 0x10, 0x59, 0x27, 0x80, 0xec, 0x5f,
    0x60, 0x51, 0x7f, 0xa9, 0x19, 0xb5, 0x4a, 0x0d, 0x2d, 0xe5, 0x7a, 0x9f, 0x93, 0xc9, 0x9c, 0xef,
    0xa0, 0xe0, 0x3b, 0x4d, 0xae, 0x2a, 0xf5, 0xb0, 0xc8, 0xeb, 0xbb, 0x3c, 0x83, 0x53, 0x99, 0x61,
    0x17, 0x2b, 0x04, 0x7e, 0xba, 0x77, 0xd6, 0x26, 0xe1, 0x69, 0x14, 0x63, 0x55, 0x21, 0x0c, 0x7d]"

definition SubWord :: "u32 \<Rightarrow> u32" where
  "SubWord x = of_bytes (map (\<lambda>b. oc_sbox ! unat b) (to_bytes x))"

definition RotWord :: "u32 \<Rightarrow> u32" where
  "RotWord x = (let X = to_bytes x in of_bytes [X ! 1, X ! 2, X ! 3, X ! 0])"

text \<open>The state as a matrix: \<^verbatim>\<open>state[i][j]\<close> is byte \<open>j\<close> of column \<open>i\<close>.\<close>

definition unpackState :: "m128 \<Rightarrow> byte list list" where
  "unpackState state = chunks 4 4 (to_bytes state)"

definition packState :: "byte list list \<Rightarrow> m128" where
  "packState state = of_bytes (concat state)"

definition cell :: "byte list list \<Rightarrow> nat \<Rightarrow> nat \<Rightarrow> byte" where
  "cell state i j = state ! i ! j"

definition put_cell :: "nat \<Rightarrow> nat \<Rightarrow> byte \<Rightarrow> byte list list \<Rightarrow> byte list list" where
  "put_cell i j v state = state[i := (state ! i)[j := v]]"

definition SubBytes :: "m128 \<Rightarrow> m128" where
  "SubBytes state = fold (\<lambda>i state. set_u32 state i (SubWord (get_u32 state i))) [0, 1, 2, 3] state"

definition ShiftRows :: "m128 \<Rightarrow> m128" where
  "ShiftRows st =
     (let state = unpackState st;
          temp = cell state 0 1;
          state = put_cell 0 1 (cell state 1 1) state;
          state = put_cell 1 1 (cell state 2 1) state;
          state = put_cell 2 1 (cell state 3 1) state;
          state = put_cell 3 1 temp state;
          temp = cell state 0 2;
          state = put_cell 0 2 (cell state 2 2) state;
          state = put_cell 2 2 temp state;
          temp = cell state 1 2;
          state = put_cell 1 2 (cell state 3 2) state;
          state = put_cell 3 2 temp state;
          temp = cell state 0 3;
          state = put_cell 0 3 (cell state 3 3) state;
          state = put_cell 3 3 (cell state 2 3) state;
          state = put_cell 2 3 (cell state 1 3) state;
          state = put_cell 1 3 temp state
      in packState state)"

definition oc_xtime :: "byte \<Rightarrow> byte" where
  "oc_xtime x = push_bit 1 x XOR (drop_bit 7 x AND 1) * 0x1b"

definition Multiply :: "byte \<Rightarrow> byte \<Rightarrow> byte" where
  "Multiply x y =
     ((y AND 1) * x) XOR
     ((drop_bit 1 y AND 1) * oc_xtime x) XOR
     ((drop_bit 2 y AND 1) * oc_xtime (oc_xtime x)) XOR
     ((drop_bit 3 y AND 1) * oc_xtime (oc_xtime (oc_xtime x))) XOR
     ((drop_bit 4 y AND 1) * oc_xtime (oc_xtime (oc_xtime (oc_xtime x))))"

definition mix_column :: "nat \<Rightarrow> byte list list \<Rightarrow> byte list list" where
  "mix_column i state =
     (let t = cell state i 0;
          Tmp = cell state i 0 XOR cell state i 1 XOR cell state i 2 XOR cell state i 3;
          Tm = oc_xtime (cell state i 0 XOR cell state i 1);
          state = put_cell i 0 (cell state i 0 XOR (Tm XOR Tmp)) state;
          Tm = oc_xtime (cell state i 1 XOR cell state i 2);
          state = put_cell i 1 (cell state i 1 XOR (Tm XOR Tmp)) state;
          Tm = oc_xtime (cell state i 2 XOR cell state i 3);
          state = put_cell i 2 (cell state i 2 XOR (Tm XOR Tmp)) state;
          Tm = oc_xtime (cell state i 3 XOR t)
      in put_cell i 3 (cell state i 3 XOR (Tm XOR Tmp)) state)"

definition MixColumns :: "m128 \<Rightarrow> m128" where
  "MixColumns st = packState (fold mix_column [0, 1, 2, 3] (unpackState st))"

definition inv_mix_column :: "nat \<Rightarrow> byte list list \<Rightarrow> byte list list" where
  "inv_mix_column i state =
     (let a = cell state i 0; b = cell state i 1; c = cell state i 2; d = cell state i 3;
          state = put_cell i 0 (Multiply a 0x0e XOR Multiply b 0x0b XOR Multiply c 0x0d XOR Multiply d 0x09) state;
          state = put_cell i 1 (Multiply a 0x09 XOR Multiply b 0x0e XOR Multiply c 0x0b XOR Multiply d 0x0d) state;
          state = put_cell i 2 (Multiply a 0x0d XOR Multiply b 0x09 XOR Multiply c 0x0e XOR Multiply d 0x0b) state
      in put_cell i 3 (Multiply a 0x0b XOR Multiply b 0x0d XOR Multiply c 0x09 XOR Multiply d 0x0e) state)"

definition InvSubBytes :: "m128 \<Rightarrow> m128" where
  "InvSubBytes state = of_bytes (map (\<lambda>b. rsbox ! unat b) (to_bytes state))"

definition InvShiftRows :: "m128 \<Rightarrow> m128" where
  "InvShiftRows st =
     (let state = unpackState st;
          temp = cell state 3 1;
          state = put_cell 3 1 (cell state 2 1) state;
          state = put_cell 2 1 (cell state 1 1) state;
          state = put_cell 1 1 (cell state 0 1) state;
          state = put_cell 0 1 temp state;
          temp = cell state 0 2;
          state = put_cell 0 2 (cell state 2 2) state;
          state = put_cell 2 2 temp state;
          temp = cell state 1 2;
          state = put_cell 1 2 (cell state 3 2) state;
          state = put_cell 3 2 temp state;
          temp = cell state 0 3;
          state = put_cell 0 3 (cell state 1 3) state;
          state = put_cell 1 3 (cell state 2 3) state;
          state = put_cell 2 3 (cell state 3 3) state;
          state = put_cell 3 3 temp state
      in packState state)"


section \<open>The code: the cipher\<close>

datatype aes_type = NI | Portable | ARM

text \<open>The ARM instructions.\<close>

definition vaeseq_u8 :: "m128 \<Rightarrow> m128 \<Rightarrow> m128" where
  "vaeseq_u8 data key = of_bytes (map sub_byte (shift_rows (to_bytes (data XOR key))))"

definition vaesmcq_u8 :: "m128 \<Rightarrow> m128" where
  "vaesmcq_u8 data = of_bytes (mix_columns (to_bytes data))"

definition vaesdq_u8 :: "m128 \<Rightarrow> m128 \<Rightarrow> m128" where
  "vaesdq_u8 data key = of_bytes (map inv_sub_byte (inv_shift_rows (to_bytes (data XOR key))))"

definition vaesimcq_u8 :: "m128 \<Rightarrow> m128" where
  "vaesimcq_u8 data = of_bytes (inv_mix_columns (to_bytes data))"

definition InvMixColumns :: "aes_type \<Rightarrow> m128 \<Rightarrow> m128" where
  "InvMixColumns ty st =
     (case ty of
        Portable \<Rightarrow> packState (fold inv_mix_column [0, 1, 2, 3] (unpackState st))
      | NI \<Rightarrow> mm_aesimc st
      | ARM \<Rightarrow> vaesimcq_u8 st)"

definition keyRcon :: "aes_type \<Rightarrow> u32 \<Rightarrow> m128 \<Rightarrow> m128" where
  "keyRcon ty imm8 key =
     (case ty of
        NI \<Rightarrow> mm_aeskeygenassist key imm8
      | _ \<Rightarrow>
          let X3 = get_u32 key 3; X1 = get_u32 key 1;
              r = set_u32 0 0 (SubWord X1);
              r = set_u32 r 1 (RotWord (SubWord X1) XOR imm8);
              r = set_u32 r 2 (SubWord X3)
          in set_u32 r 3 (RotWord (SubWord X3) XOR imm8))"

definition keyGenHelper :: "aes_type \<Rightarrow> u32 \<Rightarrow> m128 \<Rightarrow> m128" where
  "keyGenHelper ty imm8 key =
     (let rcon = mm_shuffle_epi32 (keyRcon ty imm8 key) 0xFF;
          key = key XOR slli_si128 4 key;
          key = key XOR slli_si128 4 key;
          key = key XOR slli_si128 4 key
      in key XOR rcon)"

fun round_keys :: "aes_type \<Rightarrow> m128 \<Rightarrow> u32 list \<Rightarrow> m128 list" where
  "round_keys ty key [] = [key]"
| "round_keys ty key (c # cs) = key # round_keys ty (keyGenHelper ty c key) cs"

text \<open>\<^verbatim>\<open>AES<type>::setKey\<close>: the array \<^verbatim>\<open>mRoundKey\<close>.\<close>

definition setKey :: "aes_type \<Rightarrow> m128 \<Rightarrow> m128 list" where
  "setKey ty userKey = round_keys ty userKey [0x01, 0x02, 0x04, 0x08, 0x10, 0x20, 0x40, 0x80, 0x1B, 0x36]"

definition getKey :: "m128 list \<Rightarrow> m128" where
  "getKey mRoundKey = mRoundKey ! 0"

fun firstFn :: "aes_type \<Rightarrow> m128 \<Rightarrow> m128 \<Rightarrow> m128" where
  "firstFn Portable state roundKey = state XOR roundKey"
| "firstFn NI state roundKey = state XOR roundKey"
| "firstFn ARM state roundKey = vaesmcq_u8 (vaeseq_u8 state roundKey)"

fun roundFn :: "aes_type \<Rightarrow> m128 \<Rightarrow> m128 \<Rightarrow> m128" where
  "roundFn Portable state roundKey = MixColumns (ShiftRows (SubBytes state)) XOR roundKey"
| "roundFn NI state roundKey = mm_aesenc state roundKey"
| "roundFn ARM state roundKey = firstFn ARM state roundKey"

fun penultimateFn :: "aes_type \<Rightarrow> m128 \<Rightarrow> m128 \<Rightarrow> m128" where
  "penultimateFn Portable state roundKey = roundFn Portable state roundKey"
| "penultimateFn NI state roundKey = roundFn NI state roundKey"
| "penultimateFn ARM state roundKey = vaeseq_u8 state roundKey"

fun finalFn :: "aes_type \<Rightarrow> m128 \<Rightarrow> m128 \<Rightarrow> m128" where
  "finalFn Portable state roundKey = ShiftRows (SubBytes state) XOR roundKey"
| "finalFn NI state roundKey = mm_aesenclast state roundKey"
| "finalFn ARM state roundKey = state XOR roundKey"

definition roundEnc :: "aes_type \<Rightarrow> m128 \<Rightarrow> m128 \<Rightarrow> m128" where
  "roundEnc ty state roundKey = (if ty = ARM then roundFn ty state 0 XOR roundKey else roundFn ty state roundKey)"

text \<open>\<^verbatim>\<open>ecbEncBlocks<blocks>\<close> for up to 16 blocks: round by round over the whole buffer.\<close>

definition ecbEncFixed :: "aes_type \<Rightarrow> m128 list \<Rightarrow> m128 list \<Rightarrow> m128 list" where
  "ecbEncFixed ty mRoundKey plaintext =
     (let buffer = map (\<lambda>p. firstFn ty p (mRoundKey ! 0)) plaintext;
          buffer = fold (\<lambda>i. map (\<lambda>b. roundFn ty b (mRoundKey ! i))) [1..<9] buffer;
          buffer = map (\<lambda>b. penultimateFn ty b (mRoundKey ! 9)) buffer
      in map (\<lambda>b. finalFn ty b (mRoundKey ! 10)) buffer)"

definition ecbEncBlock :: "aes_type \<Rightarrow> m128 list \<Rightarrow> m128 \<Rightarrow> m128" where
  "ecbEncBlock ty mRoundKey plaintext = ecbEncFixed ty mRoundKey [plaintext] ! 0"

text \<open>
  The batch functions work in steps of eight blocks, \<^verbatim>\<open>for (; idx + step <= blockLength; idx += step)\<close>, and a \<^verbatim>\<open>switch\<close> on
  \<^verbatim>\<open>blockLength % step\<close> handles the rest; \<open>f\<close> is the function for a fixed number of blocks.
\<close>

function steps8 :: "('a list \<Rightarrow> 'b list) \<Rightarrow> 'a list \<Rightarrow> 'b list" where
  "steps8 f xs =
     (if 8 \<le> length xs then f (take 8 xs) @ steps8 f (drop 8 xs)
      else if xs = [] then [] else f xs)"
  by pat_completeness auto
termination by (relation "measure (\<lambda>(f, xs). length xs)") auto

declare steps8.simps [simp del]

definition ecbEncBlocks :: "aes_type \<Rightarrow> m128 list \<Rightarrow> m128 list \<Rightarrow> m128 list" where
  "ecbEncBlocks ty mRoundKey plaintext = steps8 (ecbEncFixed ty mRoundKey) plaintext"

definition ecbEncSpan :: "aes_type \<Rightarrow> m128 list \<Rightarrow> m128 list \<Rightarrow> nat \<Rightarrow> m128 list result" where
  "ecbEncSpan ty mRoundKey plaintext ciphertext_size =
     (if length plaintext \<noteq> ciphertext_size then Inl (Runtime_error ''RTE_LOC'')
      else Inr (ecbEncBlocks ty mRoundKey plaintext))"

text \<open>Counter mode: the indices \<open>0, \<dots>, blockLength - 1\<close> in steps of eight.\<close>

definition ecbEncCounterModeFrom :: "aes_type \<Rightarrow> m128 list \<Rightarrow> m128 \<Rightarrow> nat \<Rightarrow> m128 list" where
  "ecbEncCounterModeFrom ty mRoundKey baseIdx blockLength =
     steps8 (\<lambda>idxs. ecbEncFixed ty mRoundKey (map (\<lambda>i. add_epi64 baseIdx (toBlock (of_nat i))) idxs)) [0..<blockLength]"

definition ecbEncCounterMode :: "aes_type \<Rightarrow> m128 list \<Rightarrow> u64 \<Rightarrow> nat \<Rightarrow> m128 list" where
  "ecbEncCounterMode ty mRoundKey baseIdx blockLength = ecbEncCounterModeFrom ty mRoundKey (toBlock baseIdx) blockLength"

text \<open>The hash modes. A tweak function is called once per block and may change its state.\<close>

fun generateTweaks :: "nat \<Rightarrow> ('s \<Rightarrow> m128 \<times> 's) \<Rightarrow> 's \<Rightarrow> m128 list \<times> 's" where
  "generateTweaks 0 tweakFn st = ([], st)"
| "generateTweaks (Suc blocks) tweakFn st =
     (let (t, st) = tweakFn st; (ts, st) = generateTweaks blocks tweakFn st in (t # ts, st))"

definition TmmoHashFixed :: "aes_type \<Rightarrow> m128 list \<Rightarrow> ('s \<Rightarrow> m128 \<times> 's) \<Rightarrow> m128 list \<Rightarrow> 's \<Rightarrow> m128 list \<times> 's" where
  "TmmoHashFixed ty mRoundKey tweakFn plaintext st =
     (let pix = ecbEncFixed ty mRoundKey plaintext;
          (buff, st) = generateTweaks (length plaintext) tweakFn st;
          buff = map2 (XOR) pix buff;
          ciphertext = ecbEncFixed ty mRoundKey buff
      in (map2 (XOR) pix ciphertext, st))"

function TmmoHashBlocks :: "aes_type \<Rightarrow> m128 list \<Rightarrow> ('s \<Rightarrow> m128 \<times> 's) \<Rightarrow> m128 list \<Rightarrow> 's \<Rightarrow> m128 list \<times> 's" where
  "TmmoHashBlocks ty mRoundKey tweak plaintext st =
     (if 8 \<le> length plaintext then
        let (c, st) = TmmoHashFixed ty mRoundKey tweak (take 8 plaintext) st;
            (cs, st) = TmmoHashBlocks ty mRoundKey tweak (drop 8 plaintext) st
        in (c @ cs, st)
      else if plaintext = [] then ([], st) else TmmoHashFixed ty mRoundKey tweak plaintext st)"
  by pat_completeness auto
termination by (relation "measure (\<lambda>(ty, ks, tw, xs, st). length xs)") auto

declare TmmoHashBlocks.simps [simp del]

definition TmmoHashBlock :: "aes_type \<Rightarrow> m128 list \<Rightarrow> m128 \<Rightarrow> m128 \<Rightarrow> m128" where
  "TmmoHashBlock ty mRoundKey plaintext baseTweak =
     fst (TmmoHashFixed ty mRoundKey (\<lambda>st. (baseTweak, st)) [plaintext] ()) ! 0"

definition hashFixed :: "aes_type \<Rightarrow> m128 list \<Rightarrow> m128 list \<Rightarrow> m128 list" where
  "hashFixed ty mRoundKey plaintext = map2 (XOR) (ecbEncFixed ty mRoundKey plaintext) plaintext"

definition hashBlock :: "aes_type \<Rightarrow> m128 list \<Rightarrow> m128 \<Rightarrow> m128" where
  "hashBlock ty mRoundKey plaintext = hashFixed ty mRoundKey [plaintext] ! 0"

definition hashBlocks :: "aes_type \<Rightarrow> m128 list \<Rightarrow> m128 list \<Rightarrow> m128 list" where
  "hashBlocks ty mRoundKey plaintext = steps8 (hashFixed ty mRoundKey) plaintext"


section \<open>The code: decryption\<close>

definition decSetKey :: "aes_type \<Rightarrow> m128 \<Rightarrow> m128 list" where
  "decSetKey ty userKey =
     (let aes = setKey ty userKey
      in [aes ! 10] @ map (\<lambda>i. InvMixColumns ty (aes ! (10 - i))) [1..<10] @ [aes ! 0])"

fun decFirstFn :: "aes_type \<Rightarrow> m128 \<Rightarrow> m128 \<Rightarrow> m128" where
  "decFirstFn Portable state roundKey = state XOR roundKey"
| "decFirstFn NI state roundKey = state XOR roundKey"
| "decFirstFn ARM state roundKey = vaesdq_u8 state roundKey"

fun decRoundFn :: "aes_type \<Rightarrow> m128 \<Rightarrow> m128 \<Rightarrow> m128" where
  "decRoundFn Portable state roundKey = InvMixColumns Portable (InvSubBytes (InvShiftRows state)) XOR roundKey"
| "decRoundFn NI state roundKey = mm_aesdec state roundKey"
| "decRoundFn ARM state roundKey = vaesdq_u8 (vaesimcq_u8 state) roundKey"

fun decFinalFn :: "aes_type \<Rightarrow> m128 \<Rightarrow> m128 \<Rightarrow> m128" where
  "decFinalFn Portable state roundKey = InvSubBytes (InvShiftRows state) XOR roundKey"
| "decFinalFn NI state roundKey = mm_aesdeclast state roundKey"
| "decFinalFn ARM state roundKey = state XOR roundKey"

definition ecbDecBlock :: "aes_type \<Rightarrow> m128 list \<Rightarrow> m128 \<Rightarrow> m128" where
  "ecbDecBlock ty mRoundKey ciphertext =
     decFinalFn ty (fold (\<lambda>i s. decRoundFn ty s (mRoundKey ! i)) [1..<10] (decFirstFn ty ciphertext (mRoundKey ! 0))) (mRoundKey ! 10)"

definition mAesFixedKey :: "m128 list" where
  "mAesFixedKey = setKey NI (mm_set_epi64x 45345336 (- 103343430))"


section \<open>The instances agree\<close>

lemma oc_tables: "oc_sbox = sbox" "rsbox = inv_sbox"
  by (simp_all only: oc_sbox_def sbox_def rsbox_def inv_sbox_def)

lemma oc_xtime_eq [simp]: "oc_xtime x = xtime x"
  by (auto simp: oc_xtime_def xtime_def and_one_eq bit_iff_odd_drop_bit mod_2_eq_odd)

lemma get_u32_bytes: "to_bytes (get_u32 a i) = take 4 (drop (4 * i) (to_bytes a))" if "i < 4"
  using that by (simp add: get_u32_def to_bytes_of_bytes)

lemma set_u32_bytes:
  "i < 4 \<Longrightarrow> to_bytes (set_u32 a i v) = take (4 * i) (to_bytes a) @ to_bytes v @ drop (4 * i + 4) (to_bytes a)"
  by (simp add: set_u32_def)

lemma SubWord_bytes: "to_bytes (SubWord x) = map sub_byte (to_bytes x)"
  by (simp add: SubWord_def oc_tables sub_byte_def to_bytes_of_bytes comp_def)

lemma m128_bytes_cases:
  obtains a b c d e f g h i j k l m n p q where "to_bytes (x :: m128) = [a, b, c, d, e, f, g, h, i, j, k, l, m, n, p, q]"
  by (rule bytes16_cases [of "to_bytes x"]) auto

lemma m128_eqI: "to_bytes a = to_bytes b \<Longrightarrow> a = b" for a b :: m128
  using to_bytes_inject [where 'a = 128] by simp

lemma SubBytes_eq: "SubBytes st = of_bytes (map sub_byte (to_bytes st))"
proof (rule m128_eqI)
  obtain a b c d e f g h i j k l m n p q where s: "to_bytes st = [a, b, c, d, e, f, g, h, i, j, k, l, m, n, p, q]"
    by (rule m128_bytes_cases)
  show "to_bytes (SubBytes st) = to_bytes (of_bytes (map sub_byte (to_bytes st)) :: m128)"
    by (simp add: SubBytes_def set_u32_bytes get_u32_bytes SubWord_bytes s del: of_bytes.simps)
qed

lemmas cell_simps = unpackState_def packState_def cell_def put_cell_def numeral_2_eq_2 numeral_3_eq_3 numeral_eq_Suc Let_def

lemma ShiftRows_eq: "ShiftRows st = of_bytes (shift_rows (to_bytes st))"
proof -
  obtain a b c d e f g h i j k l m n p q where s: "to_bytes st = [a, b, c, d, e, f, g, h, i, j, k, l, m, n, p, q]"
    by (rule m128_bytes_cases)
  show ?thesis by (simp add: ShiftRows_def shift_rows_def s cell_simps)
qed

lemma InvShiftRows_eq: "InvShiftRows st = of_bytes (inv_shift_rows (to_bytes st))"
proof -
  obtain a b c d e f g h i j k l m n p q where s: "to_bytes st = [a, b, c, d, e, f, g, h, i, j, k, l, m, n, p, q]"
    by (rule m128_bytes_cases)
  show ?thesis by (simp add: InvShiftRows_def inv_shift_rows_def s cell_simps)
qed

lemma mix_column_at:
  assumes "i < length s" "s ! i = [a, b, c, d]"
  shows "mix_column i s = s[i := mix_columns [a, b, c, d]]"
  using assms by (simp add: mix_column_def cell_def put_cell_def Let_def numeral_2_eq_2 numeral_3_eq_3 xor_simps)

lemma Multiply_consts:
  "Multiply x 0x0e = gm14 x" "Multiply x 0x0b = gm11 x" "Multiply x 0x0d = gm13 x" "Multiply x 0x09 = gm9 x"
  by (simp_all add: Multiply_def gm9_def gm11_def gm13_def gm14_def xor_simps)

lemma inv_mix_column_at:
  assumes "i < length s" "s ! i = [a, b, c, d]"
  shows "inv_mix_column i s = s[i := inv_mix_columns [a, b, c, d]]"
  using assms
  by (simp add: inv_mix_column_def cell_def put_cell_def Let_def numeral_2_eq_2 numeral_3_eq_3 Multiply_consts)

lemma MixColumns_eq: "MixColumns st = mix_block st"
proof -
  obtain a b c d e f g h i j k l m n p q where s: "to_bytes st = [a, b, c, d, e, f, g, h, i, j, k, l, m, n, p, q]"
    by (rule m128_bytes_cases)
  show ?thesis
    by (simp add: MixColumns_def mix_block_def s unpackState_def packState_def numeral_eq_Suc mix_column_at del: of_bytes.simps)
qed

lemma InvMixColumns_eq [simp]: "InvMixColumns ty st = mm_aesimc st"
proof (cases ty)
  case Portable
  obtain a b c d e f g h i j k l m n p q where s: "to_bytes st = [a, b, c, d, e, f, g, h, i, j, k, l, m, n, p, q]"
    by (rule m128_bytes_cases)
  show ?thesis
    by (simp add: Portable InvMixColumns_def mm_aesimc_def s unpackState_def packState_def numeral_eq_Suc inv_mix_column_at
        del: of_bytes.simps)
qed (simp_all add: InvMixColumns_def vaesimcq_u8_def mm_aesimc_def)

lemma shift_sub_commute:
  "length s = 16 \<Longrightarrow> shift_rows (map f s) = map f (shift_rows s)"
  "length s = 16 \<Longrightarrow> inv_shift_rows (map f s) = map f (inv_shift_rows s)"
  by (simp_all add: shift_rows_def inv_shift_rows_def)

lemma sub_shift_eq: "ShiftRows (SubBytes st) = sr_block st" "InvSubBytes (InvShiftRows st) = inv_sr_block st"
  by (simp_all add: ShiftRows_eq SubBytes_eq InvSubBytes_def InvShiftRows_eq sr_block_def inv_sr_block_def shift_sub_commute
      oc_tables inv_sub_byte_def [abs_def])

text \<open>Every instance in terms of the blocks of \<open>Aes\<close>; \<open>ARM\<close> splits the rounds at another place.\<close>

lemma arm_eq:
  "vaeseq_u8 a k = sr_block (a XOR k)" "vaesmcq_u8 a = mix_block a"
  "vaesdq_u8 a k = inv_sr_block (a XOR k)" "vaesimcq_u8 a = mm_aesimc a"
  by (simp_all add: vaeseq_u8_def sr_block_def vaesmcq_u8_def mix_block_def vaesdq_u8_def inv_sr_block_def vaesimcq_u8_def
      mm_aesimc_def)

lemmas round_eqs = sub_shift_eq MixColumns_eq arm_eq aes_rounds

lemma lane32_bytes: "i < 4 \<Longrightarrow> to_bytes (lane32 a i) = take 4 (drop (4 * i) (to_bytes a))"
  by (rule nth_equalityI) (auto simp: to_bytes_def le_bytes_def lane32_def bit_simps algebra_simps intro!: bit_word_eqI)

lemma get_u32_lane: "i < 4 \<Longrightarrow> get_u32 a i = lane32 a i"
  by (simp add: get_u32_def lane32_bytes [symmetric])

lemma of_bytes_append: "(of_bytes (as @ bs) :: 'a::len word) = of_bytes as OR push_bit (8 * length as) (of_bytes bs)"
  by (induction as) (simp_all add: push_bit_or or.assoc add.commute)

lemma of_bytes_lane: "(of_bytes (to_bytes (x :: u32)) :: m128) = ucast x"
proof (rule bit_word_eqI)
  fix n assume "n < LENGTH(128)"
  show "bit (of_bytes (to_bytes x) :: m128) n = bit (ucast x :: m128) n"
  proof (cases "n < 32")
    case True
    then have "n div 8 < 4" by linarith
    with True show ?thesis by (simp add: bit_of_bytes to_bytes_def nth_le_bytes_bit bit_simps)
  next
    case False
    then show ?thesis by (auto simp: bit_of_bytes bit_simps dest: bit_imp_le_length)
  qed
qed

lemma mm_set_lanes_bytes: "to_bytes (mm_set_lanes l3 l2 l1 l0) = to_bytes l0 @ to_bytes l1 @ to_bytes l2 @ to_bytes l3"
proof -
  have "mm_set_lanes l3 l2 l1 l0 = of_bytes (to_bytes l0 @ to_bytes l1 @ to_bytes l2 @ to_bytes l3)"
    by (simp add: mm_set_lanes_def of_bytes_append of_bytes_lane push_bit_or or.assoc or.commute or.left_commute)
  then show ?thesis by simp
qed

lemma RotWord_eq: "RotWord x = word_rotr 8 x"
proof (rule bit_word_eqI)
  fix n assume "n < LENGTH(32)"
  then have n: "n < 32" by simp
  have k: "[X ! 1, X ! 2, X ! 3, X ! 0] ! k = X ! ((k + 1) mod 4)" if "k < 4" for k and X :: "byte list"
  proof -
    have "k = 0 \<or> k = 1 \<or> k = 2 \<or> k = 3" using that by linarith
    then show ?thesis by (elim disjE) (simp_all add: nth_Cons' Suc_1 del: One_nat_def)
  qed
  have "8 * ((n div 8 + 1) mod 4) + n mod 8 = (n + 8) mod 32"
    using mod_mult2_eq [of "n + 8" 8 4] div_add_self2 [of 8 n] by simp
  moreover have "n div 8 < Suc (Suc (Suc (Suc 0)))" using n by linarith
  ultimately show "bit (RotWord x) n = bit (word_rotr 8 x) n"
    using n k [of "n div 8" "le_bytes 4 x"]
    by (simp add: RotWord_def Let_def to_bytes_def bit_of_bytes nth_le_bytes_bit bit_word_rotr_iff del: of_bytes.simps One_nat_def)
qed

lemma keyRcon_eq: "keyRcon ty imm8 key = mm_aeskeygenassist key imm8"
proof -
  have sub: "SubWord x = sub_word x" for x
    by (simp add: sub_word_def SubWord_bytes [symmetric])
  have "to_bytes (set_u32 (set_u32 (set_u32 (set_u32 0 0 a) 1 b) 2 c) 3 d) = to_bytes (mm_set_lanes d c b a)" for a b c d
    by (simp add: set_u32_bytes mm_set_lanes_bytes)
  then have "set_u32 (set_u32 (set_u32 (set_u32 0 0 a) 1 b) 2 c) 3 d = mm_set_lanes d c b a" for a b c d
    by (rule m128_eqI)
  then show ?thesis
    by (cases ty) (simp_all add: keyRcon_def mm_aeskeygenassist_def get_u32_lane sub RotWord_eq Let_def)
qed

lemma lane32_simps:
  "lane32 (a XOR b) i = lane32 a i XOR lane32 b i"
  "lane32 (mm_set_lanes l3 l2 l1 l0) 0 = l0" "lane32 (mm_set_lanes l3 l2 l1 l0) 1 = l1"
  "lane32 (mm_set_lanes l3 l2 l1 l0) 2 = l2" "lane32 (mm_set_lanes l3 l2 l1 l0) 3 = l3"
  "lane32 (slli_si128 4 a) 0 = 0" "lane32 (slli_si128 4 a) 1 = lane32 a 0"
  "lane32 (slli_si128 4 a) 2 = lane32 a 1" "lane32 (slli_si128 4 a) 3 = lane32 a 2"
  by (rule bit_word_eqI, auto simp: lane32_def mm_set_lanes_def slli_si128_def bit_simps dest: bit_imp_le_length)+

lemma lane32_eqI:
  assumes "lane32 a 0 = lane32 b 0" "lane32 a 1 = lane32 b 1" "lane32 a 2 = lane32 b 2" "lane32 a 3 = lane32 b 3"
  shows "a = b"
proof (rule bit_word_eqI)
  fix n assume "n < LENGTH(128)"
  then have n: "n div 32 \<in> {0, 1, 2, 3}" by auto
  then have "lane32 a (n div 32) = lane32 b (n div 32)" using assms by (elim insertE emptyE) simp_all
  then have "bit (lane32 a (n div 32)) (n mod 32) = bit (lane32 b (n div 32)) (n mod 32)" by simp
  then show "bit a n = bit b n" by (simp add: lane32_def bit_simps)
qed

lemma expand_step:
  assumes "lane32 z 0 = 0" "EXPAND_ASSIST key z key 255 c = (key', z')"
  shows "key' = keyGenHelper ty c key" "lane32 z' 0 = 0"
proof -
  from assms show "lane32 z' 0 = 0"
    by (auto simp: EXPAND_ASSIST_def Let_def mm_shuffle_ps_def lane32_simps)
  from assms show "key' = keyGenHelper ty c key"
    by (auto simp: EXPAND_ASSIST_def keyGenHelper_def keyRcon_eq Let_def mm_shuffle_ps_def mm_shuffle_epi32_def
        lane32_simps xor_simps simp del: One_nat_def intro!: lane32_eqI)
qed

lemma round_keys_expand: "lane32 z 0 = 0 \<Longrightarrow> round_keys ty key cs = key # expand_keys key z cs"
proof (induction cs arbitrary: key z)
  case (Cons c cs)
  obtain key' z' where e: "EXPAND_ASSIST key z key 255 c = (key', z')" by fastforce
  from Cons.IH expand_step(1) [OF Cons.prems e, of ty] expand_step(2) [OF Cons.prems e] e show ?case by simp
qed simp

lemma setKey_eq: "setKey ty userKey = rd_key (aes_key userKey)"
  by (simp add: setKey_def aes_key_def aes_round_constants_def round_keys_expand [where z = 0] lane32_def del: round_keys.simps expand_keys.simps)


section \<open>Batches work block by block\<close>

text \<open>One block under a schedule, in terms of the rounds of \<open>Aes\<close>.\<close>

definition oc_block :: "m128 list \<Rightarrow> m128 \<Rightarrow> m128" where
  "oc_block ks b = sr_block (enc_state ks 9 b) XOR ks ! 10"

lemma arm_rounds:
  "fold (\<lambda>i b. roundFn ARM b (ks ! i)) [1..<Suc i] (firstFn ARM p (ks ! 0)) = mix_block (sr_block (enc_state ks i p))"
proof (induction i)
  case 0
  then show ?case by (simp add: round_eqs enc_state_def)
next
  case (Suc i)
  then show ?case by (simp add: round_eqs enc_state_Suc)
qed

lemma rounds_eq:
  assumes "ty \<noteq> ARM"
  shows "fold (\<lambda>i b. roundFn ty b (ks ! i)) [1..<Suc i] (firstFn ty p (ks ! 0)) = enc_state ks i p"
  using assms by (cases ty) (simp_all add: round_eqs enc_state_def)

lemma ecbEncFixed_eq: "ecbEncFixed ty ks ps = map (oc_block ks) ps"
proof -
  have nine: "enc_state ks 9 p = mix_block (sr_block (enc_state ks 8 p)) XOR ks ! 9" for p
    using enc_state_Suc [of ks 8 p] by (simp add: aes_rounds)
  have r: "[1..<9] = [1..<Suc 8]" by simp
  have one: "finalFn ty (penultimateFn ty (fold (\<lambda>i b. roundFn ty b (ks ! i)) [1..<9] (firstFn ty p (ks ! 0))) (ks ! 9)) (ks ! 10)
      = oc_block ks p" for p
  proof (cases "ty = ARM")
    case True
    then show ?thesis by (simp only: r arm_rounds) (simp add: round_eqs oc_block_def nine)
  next
    case False
    then have e: "fold (\<lambda>i b. roundFn ty b (ks ! i)) [1..<9] (firstFn ty p (ks ! 0)) = enc_state ks 8 p"
      unfolding r by (rule rounds_eq)
    from False show ?thesis unfolding e by (cases ty) (simp_all add: round_eqs oc_block_def nine)
  qed
  show ?thesis
    by (simp add: ecbEncFixed_def Let_def fold_map_blocks comp_def one [unfolded One_nat_def])
qed

lemma steps8_map: "(\<And>xs. f xs = map g xs) \<Longrightarrow> steps8 f xs = map g xs"
proof (induction f xs rule: steps8.induct)
  case (1 f xs)
  have "steps8 f (drop 8 xs) = map g (drop 8 xs)" if "8 \<le> length xs"
    by (rule "1.IH") (simp_all add: that "1.prems")
  then show ?case by (subst steps8.simps) (simp add: "1.prems" flip: map_append)
qed

lemma enc_simps:
  "ecbEncBlock ty ks p = oc_block ks p"
  "ecbEncBlocks ty ks ps = map (oc_block ks) ps"
  "hashFixed ty ks ps = map (\<lambda>p. oc_block ks p XOR p) ps"
  "hashBlock ty ks p = oc_block ks p XOR p"
  "hashBlocks ty ks ps = map (\<lambda>p. oc_block ks p XOR p) ps"
proof -
  show h: "hashFixed ty ks ps = map (\<lambda>p. oc_block ks p XOR p) ps" for ps
    by (rule nth_equalityI) (simp_all add: hashFixed_def ecbEncFixed_eq)
  show "hashBlocks ty ks ps = map (\<lambda>p. oc_block ks p XOR p) ps"
    by (simp add: hashBlocks_def steps8_map [where g = "\<lambda>p. oc_block ks p XOR p"] h)
  show "ecbEncBlocks ty ks ps = map (oc_block ks) ps"
    by (simp add: ecbEncBlocks_def steps8_map [where g = "oc_block ks"] ecbEncFixed_eq)
qed (simp_all add: ecbEncBlock_def ecbEncFixed_eq hashBlock_def hashFixed_def)

lemma AES_ecb_encrypt_blks_eq: "AES_ecb_encrypt_blks ps (aes_key k) = map (oc_block (setKey ty k)) ps"
proof -
  have r: "[1..<10] = [1..<Suc 9]" by simp
  have "rounds (aes_key k) = 10" by (simp add: aes_key_def)
  then show ?thesis
    by (simp only: AES_ecb_encrypt_blks_def Let_def fold_map_blocks setKey_eq r)
      (simp add: oc_block_def enc_state_def aes_rounds comp_def)
qed

lemma add_toBlock: "add_epi64 (toBlock a) (toBlock b) = toBlock (a + b)"
  by (simp add: add_epi64_def toBlock_def)

lemma ecbEncCounterModeFrom_eq:
  "ecbEncCounterModeFrom ty ks b n = map (\<lambda>i. oc_block ks (add_epi64 b (toBlock (of_nat i)))) [0..<n]"
  by (simp add: ecbEncCounterModeFrom_def ecbEncFixed_eq comp_def
      steps8_map [where g = "\<lambda>i. oc_block ks (add_epi64 b (toBlock (of_nat i)))"])

lemma ecbEncCounterMode_eq:
  "ecbEncCounterMode ty ks b n = map (\<lambda>i. oc_block ks (toBlock (b + of_nat i))) [0..<n]"
  by (simp add: ecbEncCounterMode_def ecbEncCounterModeFrom_eq add_toBlock)

lemma length_steps [simp]:
  "length (ecbEncBlocks ty ks ps) = length ps" "length (ecbEncCounterMode ty ks b n) = n"
  by (simp_all add: enc_simps ecbEncCounterMode_eq)

text \<open>The tweakable hash: \<open>\<pi>(\<pi>(x) \<oplus> t) \<oplus> \<pi>(x)\<close> per block, the tweaks drawn in order.\<close>

lemma generateTweaks_length: "length (fst (generateTweaks n f st)) = n"
  by (induction n arbitrary: st) (simp_all add: split_def Let_def)

lemma generateTweaks_add:
  "generateTweaks (m + n) f st
     = (fst (generateTweaks m f st) @ fst (generateTweaks n f (snd (generateTweaks m f st))),
        snd (generateTweaks n f (snd (generateTweaks m f st))))"
  by (induction m arbitrary: st) (simp_all add: split_def Let_def)

definition tmmo :: "m128 list \<Rightarrow> m128 \<Rightarrow> m128 \<Rightarrow> m128" where
  "tmmo ks p t = oc_block ks p XOR oc_block ks (oc_block ks p XOR t)"

lemma TmmoHashFixed_eq:
  "TmmoHashFixed ty ks f ps st
     = (map2 (tmmo ks) ps (fst (generateTweaks (length ps) f st)), snd (generateTweaks (length ps) f st))"
  by (auto simp: TmmoHashFixed_def Let_def ecbEncFixed_eq split_def tmmo_def generateTweaks_length intro!: nth_equalityI)

lemma TmmoHashBlocks_eq:
  "TmmoHashBlocks ty ks f ps st
     = (map2 (tmmo ks) ps (fst (generateTweaks (length ps) f st)), snd (generateTweaks (length ps) f st))"
proof (induction ty ks f ps st rule: TmmoHashBlocks.induct)
  case (1 ty ks f ps st)
  show ?case
  proof (cases "8 \<le> length ps")
    case True
    let ?t = "generateTweaks 8 f st"
    have len: "length ps = 8 + (length ps - 8)" using True by simp
    have z: "map2 (tmmo ks) ps (as @ bs) = map2 (tmmo ks) (take 8 ps) as @ map2 (tmmo ks) (drop 8 ps) bs" if "length as = 8" for as bs
    proof -
      have "zip (take 8 ps @ drop 8 ps) (as @ bs) = zip (take 8 ps) as @ zip (drop 8 ps) bs"
        using that True by (intro zip_append) simp
      then show ?thesis by simp
    qed
    have f: "TmmoHashFixed ty ks f (take 8 ps) st = (map2 (tmmo ks) (take 8 ps) (fst ?t), snd ?t)"
      using True by (simp add: TmmoHashFixed_eq)
    have "TmmoHashBlocks ty ks f (drop 8 ps) (snd ?t)
      = (map2 (tmmo ks) (drop 8 ps) (fst (generateTweaks (length ps - 8) f (snd ?t))), snd (generateTweaks (length ps - 8) f (snd ?t)))"
      using "1.IH" [OF True f [symmetric]] by simp
    moreover have "generateTweaks (length ps) f st = (fst ?t @ fst (generateTweaks (length ps - 8) f (snd ?t)),
        snd (generateTweaks (length ps - 8) f (snd ?t)))"
      using generateTweaks_add [of 8 "length ps - 8" f st] len by simp
    ultimately show ?thesis
      by (subst TmmoHashBlocks.simps) (simp add: True f z generateTweaks_length)
  next
    case False
    then show ?thesis by (subst TmmoHashBlocks.simps) (simp add: TmmoHashFixed_eq)
  qed
qed

lemma TmmoHashBlock_eq: "TmmoHashBlock ty ks p t = tmmo ks p t"
  by (simp add: TmmoHashBlock_def TmmoHashFixed_eq)


section \<open>Decryption\<close>

lemma decSetKey_nth:
  "decSetKey ty k ! 0 = setKey ty k ! 10" "decSetKey ty k ! 10 = setKey ty k ! 0"
  "\<And>i. 1 \<le> i \<Longrightarrow> i < 10 \<Longrightarrow> decSetKey ty k ! i = mm_aesimc (setKey ty k ! (10 - i))"
  by (auto simp: decSetKey_def Let_def nth_append nth_Cons')

text \<open>\<open>ARM\<close> again splits the rounds earlier: its state is the substituted state of the others.\<close>

lemma arm_dec_rounds:
  "fold (\<lambda>i s. decRoundFn ARM s (ks ! i)) [1..<Suc i] (decFirstFn ARM c (ks ! 0))
     = inv_sr_block (fold (\<lambda>i s. mm_aesdec s (ks ! i)) [1..<Suc i] (c XOR ks ! 0))"
  by (induction i) (simp_all add: round_eqs)

lemma ecbDecBlock_eq:
  "ecbDecBlock ty ks c = inv_sr_block (fold (\<lambda>i s. mm_aesdec s (ks ! i)) [1..<Suc 9] (c XOR ks ! 0)) XOR ks ! 10"
proof -
  have r: "[1..<10] = [1..<Suc 9]" by simp
  show ?thesis
  proof (cases ty)
    case ARM
    then show ?thesis unfolding ecbDecBlock_def r by (simp only: arm_dec_rounds decFinalFn.simps)
  qed (simp_all add: ecbDecBlock_def round_eqs)
qed

lemma ecbDec_ecbEnc: "ecbDecBlock ty (decSetKey ty k) (ecbEncBlock ty' (setKey ty' k) p) = p"
proof -
  let ?ks = "setKey ty k" and ?ds = "decSetKey ty k"
  have same: "setKey ty' k = ?ks" by (simp add: setKey_eq)
  have "fold (\<lambda>j b. mm_aesdec b (?ds ! j)) [1..<Suc 9] (sr_block (enc_state ?ks (10 - 1) p)) = sr_block (enc_state ?ks (10 - 1 - 9) p)"
    by (rule decrypt_loop [where n = 10]) (simp_all add: decSetKey_nth)
  then show ?thesis
    by (simp add: ecbDecBlock_eq enc_simps same oc_block_def decSetKey_nth enc_state_def del: upt_Suc)
qed

end
