(* ===== verification/Prng.thy ===== *)
theory Prng
  imports OcAes
begin

text \<open>
  \<^verbatim>\<open>cryptoTools/Crypto/PRNG.h\<close> and \<^verbatim>\<open>PRNG.cpp\<close>: the random generator of the transfer library. It keeps a buffer of
  counter-mode blocks and a position in it, serves reads from the buffer, writes long reads directly in batches of eight
  blocks, and refills the buffer when it is used up. The main lemma is that all of this is one byte stream: a keyed
  generator refines a position in the stream \<open>AES(0), AES(1), \<dots>\<close>, and every read returns the next bytes of it. The
  reading loop is \<open>partial_function (option)\<close>: \<open>None\<close> is a loop that does not return, and the lemmas show that it
  does. Positions inside the buffer are natural numbers, the block counter is a 64-bit word.
\<close>

section \<open>The code\<close>

record PRNG =
  mBuffer :: "m128 list"
  mAes :: "m128 list"
  mBytesIdx :: nat
  mBlockIdx :: u64
  mBufferByteCapacity :: nat

definition block_bytes :: "m128 list \<Rightarrow> byte list" where
  "block_bytes bs = concat (map to_bytes bs)"

definition not_keyed :: err where
  "not_keyed = Runtime_error ''PRNG has not been keyed''"

definition refillBuffer :: "PRNG \<Rightarrow> PRNG result" where
  "refillBuffer p =
     (if length (mBuffer p) = 0 then Inl not_keyed
      else Inr (p\<lparr>mBuffer := ecbEncCounterMode NI (mAes p) (mBlockIdx p) (length (mBuffer p)),
                 mBlockIdx := mBlockIdx p + of_nat (length (mBuffer p)), mBytesIdx := 0\<rparr>))"

text \<open>\<^verbatim>\<open>PRNG()\<close>: the members with initialisers; \<open>junk\<close> is the uninitialised key schedule.\<close>

definition PRNG_default :: "m128 list \<Rightarrow> PRNG" where
  "PRNG_default junk = \<lparr>mBuffer = [], mAes = junk, mBytesIdx = 0, mBlockIdx = 0, mBufferByteCapacity = 0\<rparr>"

text \<open>The content of the resized buffer is not initialised; \<^verbatim>\<open>refillBuffer\<close> overwrites all of it.\<close>

definition SetSeed :: "PRNG \<Rightarrow> m128 \<Rightarrow> nat \<Rightarrow> PRNG result" where
  "SetSeed p seed bufferSize =
     (let p = p\<lparr>mAes := setKey NI seed, mBlockIdx := 0\<rparr>;
          p = (if length (mBuffer p) = 0
               then p\<lparr>mBuffer := replicate bufferSize 0, mBufferByteCapacity := 16 * bufferSize\<rparr> else p)
      in refillBuffer p)"

definition PRNG_seeded :: "m128 \<Rightarrow> nat \<Rightarrow> PRNG result" where
  "PRNG_seeded seed bufferSize = SetSeed (PRNG_default []) seed bufferSize"

text \<open>Move: the new generator and what is left of the old one.\<close>

definition PRNG_move :: "PRNG \<Rightarrow> PRNG \<times> PRNG" where
  "PRNG_move s = (s, s\<lparr>mBuffer := [], mBytesIdx := 0, mBlockIdx := 0, mBufferByteCapacity := 0\<rparr>)"

definition getSeed :: "PRNG \<Rightarrow> m128 result" where
  "getSeed p = (if length (mBuffer p) \<noteq> 0 then Inr (mAes p ! 0) else Inl not_keyed)"

text \<open>The inner loop \<^verbatim>\<open>while (lengthu8 >= 8 * sizeof(block))\<close>: bytes written, state and remaining length.\<close>

function direct_blocks :: "PRNG \<Rightarrow> nat \<Rightarrow> byte list \<times> PRNG \<times> nat" where
  "direct_blocks p lengthu8 =
     (if 8 * 16 \<le> lengthu8 then
        let b = ecbEncCounterMode NI (mAes p) (mBlockIdx p) 8;
            (rest, q, l) = direct_blocks (p\<lparr>mBlockIdx := mBlockIdx p + 8\<rparr>) (lengthu8 - 8 * 16)
        in (block_bytes b @ rest, q, l)
      else ([], p, lengthu8))"
  by pat_completeness auto
termination by (relation "measure (\<lambda>(p, l). l)") auto

declare direct_blocks.simps [simp del]

partial_function (option) implGet :: "PRNG \<Rightarrow> nat \<Rightarrow> (byte list \<times> PRNG) result option" where
  "implGet p lengthu8 =
     (if lengthu8 = 0 then Some (Inr ([], p))
      else
        let step = min lengthu8 (mBufferByteCapacity p - mBytesIdx p);
            dest = take step (drop (mBytesIdx p) (block_bytes (mBuffer p)));
            lengthu8 = lengthu8 - step;
            p = p\<lparr>mBytesIdx := mBytesIdx p + step\<rparr>
        in if mBytesIdx p = mBufferByteCapacity p then
             let (dest', p, lengthu8) = direct_blocks p lengthu8
             in case refillBuffer p of
                  Inl e \<Rightarrow> Some (Inl e)
                | Inr p \<Rightarrow> Option.bind (implGet p lengthu8) (\<lambda>r. Some (res_bind r (\<lambda>(rest, p). Inr (dest @ dest' @ rest, p))))
           else Option.bind (implGet p lengthu8) (\<lambda>r. Some (res_bind r (\<lambda>(rest, p). Inr (dest @ rest, p)))))"

text \<open>\<^verbatim>\<open>get<T>(dest, length)\<close> and \<^verbatim>\<open>get<T>()\<close> for a type of \<open>sz\<close> bytes.\<close>

definition get_array :: "nat \<Rightarrow> PRNG \<Rightarrow> nat \<Rightarrow> (byte list \<times> PRNG) result option" where
  "get_array sz p len = implGet p (len * sz)"

definition get_one :: "nat \<Rightarrow> PRNG \<Rightarrow> (byte list \<times> PRNG) result option" where
  "get_one sz p =
     (if sz \<le> mBufferByteCapacity p - mBytesIdx p
      then Some (Inr (take sz (drop (mBytesIdx p) (block_bytes (mBuffer p))), p\<lparr>mBytesIdx := mBytesIdx p + sz\<rparr>))
      else get_array sz p 1)"

definition map_get :: "('a \<Rightarrow> 'b) \<Rightarrow> ('a \<times> PRNG) result option \<Rightarrow> ('b \<times> PRNG) result option" where
  "map_get f = map_option (map_sum id (map_prod f id))"

definition get_block :: "PRNG \<Rightarrow> (m128 \<times> PRNG) result option" where
  "get_block p = map_get of_bytes (get_one 16 p)"

definition get_u64 :: "PRNG \<Rightarrow> (u64 \<times> PRNG) result option" where
  "get_u64 p = map_get of_bytes (get_one 8 p)"

definition get_mod :: "PRNG \<Rightarrow> u64 \<Rightarrow> (u64 \<times> PRNG) result option" where
  "get_mod p modulus =
     (if modulus = 0 then Some (Inl (Undefined ''remainder by zero'')) else map_get (\<lambda>r. r mod modulus) (get_u64 p))"

definition get_bools :: "PRNG \<Rightarrow> nat \<Rightarrow> (bool list \<times> PRNG) result option" where
  "get_bools p len = map_get (map (\<lambda>b. b AND 1 \<noteq> 0)) (get_array 1 p len)"

definition get_bool :: "PRNG \<Rightarrow> (bool \<times> PRNG) result option" where
  "get_bool p = map_get (\<lambda>bs. bs ! 0 AND 1 \<noteq> 0) (get_array 1 p 1)"

definition getBit :: "PRNG \<Rightarrow> (u8 \<times> PRNG) result option" where
  "getBit p = map_get (\<lambda>b. if b then 1 else 0) (get_bool p)"

definition getBufferSpan :: "PRNG \<Rightarrow> nat \<Rightarrow> (byte list \<times> PRNG) result" where
  "getBufferSpan p maxSize =
     res_bind (if mBytesIdx p = mBufferByteCapacity p then refillBuffer p else Inr p) (\<lambda>p.
       let size = min maxSize (mBufferByteCapacity p - mBytesIdx p)
       in Inr (take size (drop (mBytesIdx p) (block_bytes (mBuffer p))), p\<lparr>mBytesIdx := mBytesIdx p + size\<rparr>))"

text \<open>\<^verbatim>\<open>fork\<close>: a generator seeded with the next block, with the default buffer of 256 blocks.\<close>

definition fork :: "PRNG \<Rightarrow> (PRNG \<times> PRNG) result option" where
  "fork p = map_option (\<lambda>r. res_bind r (\<lambda>(seed, p). res_bind (PRNG_seeded seed 256) (\<lambda>q. Inr (q, p)))) (get_block p)"


section \<open>A source of bytes\<close>

text \<open>
  What a client of a generator relies on: \<open>reads s str n\<close> says that the state \<open>s\<close> is at position \<open>n\<close> of the stream
  \<open>str\<close>; a read of any length returns the bytes at that position and moves on.
\<close>

definition segment :: "(nat \<Rightarrow> byte) \<Rightarrow> nat \<Rightarrow> nat \<Rightarrow> byte list" where
  "segment str n len = map str [n..<n + len]"

lemma segment_simps [simp]: "length (segment str n len) = len" "segment str n 0 = []"
  by (simp_all add: segment_def)

lemma segment_append: "segment str n a @ segment str (n + a) b = segment str n (a + b)"
proof -
  have "[n..<n + (a + b)] = [n..<n + a] @ [n + a..<n + a + b]"
    using upt_add_eq_append [of n "n + a" b] by (simp add: add.assoc)
  then show ?thesis by (simp add: segment_def)
qed

lemma segment_take_drop: "i + k \<le> len \<Longrightarrow> take k (drop i (segment str n len)) = segment str (n + i) k"
  by (simp add: segment_def take_map drop_map add.assoc)

fun reads_seq :: "('s \<Rightarrow> 'op \<Rightarrow> (byte list \<times> 's) result option) \<Rightarrow> 's \<Rightarrow> 'op list \<Rightarrow> (byte list list \<times> 's) result option" where
  "reads_seq get s [] = Some (Inr ([], s))"
| "reads_seq get s (c # cs) =
     Option.bind (get s c) (\<lambda>r. case r of Inl e \<Rightarrow> Some (Inl e)
       | Inr (b, s) \<Rightarrow> map_option (map_sum id (map_prod ((#) b) id)) (reads_seq get s cs))"

locale byte_source =
  fixes get :: "'s \<Rightarrow> 'op \<Rightarrow> (byte list \<times> 's) result option"
    and fits :: "'op \<Rightarrow> nat \<Rightarrow> bool"
    and reads :: "'s \<Rightarrow> (nat \<Rightarrow> byte) \<Rightarrow> nat \<Rightarrow> bool"
  assumes get_reads:
    "reads s str n \<Longrightarrow> \<exists>len s'. get s c = Some (Inr (segment str n len, s')) \<and> fits c len \<and> reads s' str (n + len)"
begin

text \<open>Any sequence of reads returns consecutive pieces of the stream.\<close>

lemma reads_seq_segments:
  assumes "reads s str n"
  shows "\<exists>bs s'. reads_seq get s cs = Some (Inr (bs, s')) \<and> reads s' str (n + length (concat bs))
    \<and> list_all2 (\<lambda>c b. fits c (length b)) cs bs \<and> concat bs = segment str n (length (concat bs))"
  using assms
proof (induction cs arbitrary: s n)
  case (Cons c cs)
  obtain len s1 where s1: "get s c = Some (Inr (segment str n len, s1))" "fits c len" "reads s1 str (n + len)"
    using get_reads [OF Cons.prems] by blast
  from Cons.IH [OF s1(3)] obtain bs s' where bs:
    "reads_seq get s1 cs = Some (Inr (bs, s'))" "reads s' str (n + len + length (concat bs))"
    "list_all2 (\<lambda>c b. fits c (length b)) cs bs" "concat bs = segment str (n + len) (length (concat bs))" by blast
  have "concat (segment str n len # bs) = segment str n (len + length (concat bs))"
    using bs(4) segment_append [of str n len "length (concat bs)"] by simp
  with s1 bs show ?case
    by (intro exI [of _ "segment str n len # bs"] exI [of _ s']) (simp add: add.assoc)
qed simp

end


section \<open>The generator is a byte source\<close>

definition aes_stream :: "m128 \<Rightarrow> nat \<Rightarrow> byte" where
  "aes_stream seed n = to_bytes (oc_block (setKey NI seed) (toBlock (of_nat (n div 16)))) ! (n mod 16)"

text \<open>Block \<open>m\<close> of the stream; the buffer holds the blocks before the counter.\<close>

definition prng_at :: "m128 \<Rightarrow> PRNG \<Rightarrow> nat \<Rightarrow> bool" where
  "prng_at seed p n \<longleftrightarrow>
     mAes p = setKey NI seed \<and> mBuffer p \<noteq> [] \<and> mBufferByteCapacity p = 16 * length (mBuffer p) \<and>
     mBytesIdx p \<le> mBufferByteCapacity p \<and>
     (\<exists>m. mBlockIdx p = of_nat (m + length (mBuffer p)) \<and> n = 16 * m + mBytesIdx p \<and>
       block_bytes (mBuffer p) = segment (aes_stream seed) (16 * m) (mBufferByteCapacity p))"

definition prng_reads :: "PRNG \<Rightarrow> (nat \<Rightarrow> byte) \<Rightarrow> nat \<Rightarrow> bool" where
  "prng_reads p str n \<longleftrightarrow> (\<exists>seed. str = aes_stream seed \<and> prng_at seed p n)"

lemma length_block_bytes [simp]: "length (block_bytes bs) = 16 * length bs"
  by (induction bs) (simp_all add: block_bytes_def)

lemma counter_block: "segment (aes_stream seed) (16 * m) 16 = to_bytes (oc_block (setKey NI seed) (toBlock (of_nat m)))"
  by (rule nth_equalityI) (simp_all add: segment_def aes_stream_def)

lemma counter_bytes:
  "block_bytes (ecbEncCounterMode NI (setKey NI seed) (of_nat m) k) = segment (aes_stream seed) (16 * m) (16 * k)"
proof (induction k)
  case (Suc k)
  have "block_bytes (ecbEncCounterMode NI (setKey NI seed) (of_nat m) (Suc k))
      = block_bytes (ecbEncCounterMode NI (setKey NI seed) (of_nat m) k) @ to_bytes (oc_block (setKey NI seed) (toBlock (of_nat (m + k))))"
    by (simp add: block_bytes_def ecbEncCounterMode_eq)
  also have "\<dots> = segment (aes_stream seed) (16 * m) (16 * k) @ segment (aes_stream seed) (16 * m + 16 * k) 16"
    using counter_block [of seed "m + k"] Suc by (simp add: algebra_simps)
  finally show ?case by (simp only: segment_append mult_Suc_right add.commute [of 16])
qed (simp add: block_bytes_def ecbEncCounterMode_eq)

text \<open>Refilling at the counter \<open>m\<close> moves the generator to byte \<open>16 * m\<close>.\<close>

lemma refillBuffer_at:
  assumes "mAes p = setKey NI seed" "mBuffer p \<noteq> []" "mBufferByteCapacity p = 16 * length (mBuffer p)" "mBlockIdx p = of_nat m"
  shows "\<exists>q. refillBuffer p = Inr q \<and> prng_at seed q (16 * m) \<and> mBytesIdx q = 0"
  using assms
  by (auto simp: refillBuffer_def prng_at_def counter_bytes intro!: exI [of _ m])
    (metis length_greater_0_conv length_steps(2))+

lemma SetSeed_at:
  assumes "mBuffer p = [] \<Longrightarrow> 0 < bufferSize" "mBufferByteCapacity p = 16 * length (mBuffer p)"
  shows "\<exists>q. SetSeed p seed bufferSize = Inr q \<and> prng_at seed q 0"
  using refillBuffer_at [of "(if length (mBuffer p) = 0
               then p\<lparr>mAes := setKey NI seed, mBlockIdx := 0, mBuffer := replicate bufferSize 0, mBufferByteCapacity := 16 * bufferSize\<rparr>
               else p\<lparr>mAes := setKey NI seed, mBlockIdx := 0\<rparr>)" seed 0] assms
  by (auto simp: SetSeed_def Let_def)

lemma direct_blocks_at:
  assumes "mAes p = setKey NI seed" "mBlockIdx p = of_nat m"
  shows "\<exists>k l'. direct_blocks p l = (segment (aes_stream seed) (16 * m) (128 * k), p\<lparr>mBlockIdx := of_nat (m + 8 * k)\<rparr>, l')
    \<and> l = 128 * k + l'"
  using assms
proof (induction p l arbitrary: m rule: direct_blocks.induct)
  case (1 p l)
  show ?case
  proof (cases "128 \<le> l")
    case True
    let ?p = "p\<lparr>mBlockIdx := mBlockIdx p + 8\<rparr>"
    have "8 * 16 \<le> l" using True by simp
    from "1.IH" [OF this refl, of "m + 8"] "1.prems" obtain k l' where
      d: "direct_blocks ?p (l - 128)
        = (segment (aes_stream seed) (16 * m + 128) (128 * k), ?p\<lparr>mBlockIdx := of_nat (m + 8 + 8 * k)\<rparr>, l')" "l - 128 = 128 * k + l'"
      by (auto simp: algebra_simps)
    have "segment (aes_stream seed) (16 * m) 128 @ segment (aes_stream seed) (16 * m + 128) (128 * k)
        = segment (aes_stream seed) (16 * m) (128 * Suc k)"
      by (simp only: segment_append mult_Suc_right)
    with d True "1.prems" counter_bytes [of seed m 8] show ?thesis
      by (subst direct_blocks.simps) (auto simp: algebra_simps intro!: exI [of _ "Suc k"])
  next
    case False
    with "1.prems" show ?thesis by (subst direct_blocks.simps) (auto intro!: exI [of _ 0])
  qed
qed

lemma prng_at_buffer:
  assumes "prng_at seed p n" "step \<le> mBufferByteCapacity p - mBytesIdx p"
  shows "take step (drop (mBytesIdx p) (block_bytes (mBuffer p))) = segment (aes_stream seed) n step"
    and "prng_at seed (p\<lparr>mBytesIdx := mBytesIdx p + step\<rparr>) (n + step)"
  using assms by (auto simp: prng_at_def segment_take_drop)

text \<open>When the buffer is used up, the direct batches and the refill continue at the same place.\<close>

lemma next_blocks_at:
  assumes "prng_at seed p n" "mBytesIdx p = mBufferByteCapacity p"
  obtains bs q l' q' where "direct_blocks p l = (bs, q, l')" "bs = segment (aes_stream seed) n (l - l')" "l' \<le> l"
    "refillBuffer q = Inr q'" "prng_at seed q' (n + (l - l'))" "mBytesIdx q' = 0"
proof -
  from assms obtain m0 where m0: "mBlockIdx p = of_nat (m0 + length (mBuffer p))" "n = 16 * m0 + 16 * length (mBuffer p)"
    unfolding prng_at_def by metis
  define m where "m = m0 + length (mBuffer p)"
  with m0 have m: "mBlockIdx p = of_nat m" "n = 16 * m" by (simp_all only: distrib_left)
  obtain k l' where d: "direct_blocks p l = (segment (aes_stream seed) n (128 * k), p\<lparr>mBlockIdx := of_nat (m + 8 * k)\<rparr>, l')"
    "l = 128 * k + l'"
    using direct_blocks_at [of p seed m l] m assms by (auto simp: prng_at_def)
  obtain q' where "refillBuffer (p\<lparr>mBlockIdx := of_nat (m + 8 * k)\<rparr>) = Inr q'" "prng_at seed q' (16 * (m + 8 * k))" "mBytesIdx q' = 0"
    using refillBuffer_at [of "p\<lparr>mBlockIdx := of_nat (m + 8 * k)\<rparr>" seed "m + 8 * k"] assms by (auto simp: prng_at_def)
  with d m show thesis by (intro that) (auto simp: algebra_simps)
qed

lemma implGet_step:
  assumes "l \<noteq> 0" "step = min l (mBufferByteCapacity p - mBytesIdx p)" "p1 = p\<lparr>mBytesIdx := mBytesIdx p + step\<rparr>"
    "dest = take step (drop (mBytesIdx p) (block_bytes (mBuffer p)))"
  shows "implGet p l = (if mBytesIdx p1 = mBufferByteCapacity p1 then
       case direct_blocks p1 (l - step) of (dest', p, l) \<Rightarrow> (case refillBuffer p of
           Inl e \<Rightarrow> Some (Inl e)
         | Inr p \<Rightarrow> Option.bind (implGet p l) (\<lambda>r. Some (res_bind r (\<lambda>(rest, p). Inr (dest @ dest' @ rest, p)))))
     else Option.bind (implGet p1 (l - step)) (\<lambda>r. Some (res_bind r (\<lambda>(rest, p). Inr (dest @ rest, p)))))"
  using assms by (subst implGet.simps) (simp only: Let_def if_False)

lemma implGet_at:
  "prng_at seed p n \<Longrightarrow> \<exists>q. implGet p l = Some (Inr (segment (aes_stream seed) n l, q)) \<and> prng_at seed q (n + l)"
proof (induction "2 * l + (if mBytesIdx p = mBufferByteCapacity p then 1 else 0 :: nat)" arbitrary: p n l rule: less_induct)
  case less
  define step where "step = min l (mBufferByteCapacity p - mBytesIdx p)"
  define p1 where "p1 = p\<lparr>mBytesIdx := mBytesIdx p + step\<rparr>"
  note unf = implGet_step [OF _ step_def p1_def refl]
  note b = prng_at_buffer [OF less.prems, of step]
  have le: "step \<le> l" "step \<le> mBufferByteCapacity p - mBytesIdx p" by (simp_all add: step_def)
  then have p1: "prng_at seed p1 (n + step)" using b(2) by (simp add: p1_def)
  show ?case
  proof (cases "l = 0")
    case True
    with less.prems show ?thesis by (subst implGet.simps) simp
  next
    case l: False
    show ?thesis
    proof (cases "mBytesIdx p1 = mBufferByteCapacity p1")
      case True
      obtain bs q l' q' where d: "direct_blocks p1 (l - step) = (bs, q, l')"
        "bs = segment (aes_stream seed) (n + step) (l - step - l')" "l' \<le> l - step"
        "refillBuffer q = Inr q'" "prng_at seed q' (n + step + (l - step - l'))" "mBytesIdx q' = 0"
        by (rule next_blocks_at [OF p1 True, where l = "l - step"])
      have "mBytesIdx q' \<noteq> mBufferByteCapacity q'" using d(5,6) by (auto simp: prng_at_def)
      moreover have "step = 0 \<Longrightarrow> mBytesIdx p = mBufferByteCapacity p" using True by (simp add: p1_def)
      ultimately have "2 * l' + (if mBytesIdx q' = mBufferByteCapacity q' then 1 else 0)
          < 2 * l + (if mBytesIdx p = mBufferByteCapacity p then 1 else 0)"
        using d(3) le by (cases "step = 0") auto
      from less.hyps [OF this d(5)] obtain r where
        r: "implGet q' l' = Some (Inr (segment (aes_stream seed) (n + step + (l - step - l')) l', r))"
        "prng_at seed r (n + step + (l - step - l') + l')" by blast
      have "segment (aes_stream seed) n step @ segment (aes_stream seed) (n + step) (l - step - l') @
          segment (aes_stream seed) (n + step + (l - step - l')) l' = segment (aes_stream seed) n l"
        using d(3) le by (simp only: segment_append) simp
      with l True b(1) d r le show ?thesis
        by (simp add: unf)
    next
      case False
      then have "step = l" using le less.prems by (auto simp: step_def p1_def min_def prng_at_def split: if_splits)
      with p1 l False b(1) le show ?thesis
        by (simp add: unf) (simp add: implGet.simps)
    qed
  qed
qed

text \<open>The calls that return bytes, and what each promises about their number.\<close>

datatype prng_op = Get nat nat | Get_one nat | Span nat

fun prng_call :: "PRNG \<Rightarrow> prng_op \<Rightarrow> (byte list \<times> PRNG) result option" where
  "prng_call p (Get sz len) = get_array sz p len"
| "prng_call p (Get_one sz) = get_one sz p"
| "prng_call p (Span maxSize) = Some (getBufferSpan p maxSize)"

fun op_fits :: "prng_op \<Rightarrow> nat \<Rightarrow> bool" where
  "op_fits (Get sz len) n = (n = len * sz)"
| "op_fits (Get_one sz) n = (n = sz)"
| "op_fits (Span maxSize) n = (n \<le> maxSize \<and> (0 < maxSize \<longrightarrow> 0 < n))"

lemma get_one_at:
  "prng_at seed p n \<Longrightarrow> \<exists>q. get_one sz p = Some (Inr (segment (aes_stream seed) n sz, q)) \<and> prng_at seed q (n + sz)"
  using prng_at_buffer [of seed p n sz] implGet_at [of seed p n sz]
  by (simp add: get_one_def get_array_def)

lemma getBufferSpan_at:
  assumes "prng_at seed p n"
  shows "\<exists>len q. getBufferSpan p maxSize = Inr (segment (aes_stream seed) n len, q) \<and> op_fits (Span maxSize) len
    \<and> prng_at seed q (n + len)"
proof -
  have "\<exists>q. (if mBytesIdx p = mBufferByteCapacity p then refillBuffer p else Inr p) = Inr q \<and> prng_at seed q n
      \<and> mBytesIdx q < mBufferByteCapacity q"
  proof (cases "mBytesIdx p = mBufferByteCapacity p")
    case True
    obtain q' where "refillBuffer p = Inr q'" "prng_at seed q' n" "mBytesIdx q' = 0"
      by (rule next_blocks_at [OF assms True, where l = 0]) (simp add: direct_blocks.simps [of _ 0])
    with True show ?thesis by (auto simp: prng_at_def)
  next
    case False
    with assms show ?thesis by (auto simp: prng_at_def)
  qed
  then obtain q where q: "(if mBytesIdx p = mBufferByteCapacity p then refillBuffer p else Inr p) = Inr q"
    "prng_at seed q n" "mBytesIdx q < mBufferByteCapacity q" by blast
  show ?thesis
    unfolding getBufferSpan_def q(1)
    using q(3) prng_at_buffer [OF q(2), of "min maxSize (mBufferByteCapacity q - mBytesIdx q)"]
    by (auto simp: Let_def)
qed

interpretation aes_source: byte_source prng_call op_fits prng_reads
proof
  fix s str n c
  assume "prng_reads s str n"
  then obtain seed where seed: "str = aes_stream seed" "prng_at seed s n" by (auto simp: prng_reads_def)
  note at = implGet_at [OF seed(2)] get_one_at [OF seed(2)] getBufferSpan_at [OF seed(2)]
  show "\<exists>len s'. prng_call s c = Some (Inr (segment str n len, s')) \<and> op_fits c len \<and> prng_reads s' str (n + len)"
  proof (cases c)
    case (Get sz len)
    then show ?thesis using at(1) [of "len * sz"] seed(1) by (auto simp: get_array_def prng_reads_def)
  next
    case (Get_one sz)
    then show ?thesis using at(2) [of sz] seed(1) by (auto simp: prng_reads_def)
  next
    case (Span m)
    then show ?thesis using at(3) [of m] seed(1) by (auto simp: prng_reads_def)
  qed
qed

text \<open>The reads of values.\<close>

lemma map_get_Some [simp]:
  "map_get f (Some (Inr (x, p))) = Some (Inr (f x, p))" "map_get f (Some (Inl e)) = Some (Inl e)"
  by (simp_all add: map_get_def)

lemma get_block_at:
  "prng_at seed p n \<Longrightarrow> \<exists>q. get_block p = Some (Inr (of_bytes (segment (aes_stream seed) n 16), q)) \<and> prng_at seed q (n + 16)"
  using get_one_at [of seed p n 16] by (auto simp: get_block_def)

lemma get_bools_at:
  "prng_at seed p n \<Longrightarrow> \<exists>q. get_bools p len = Some (Inr (map (\<lambda>i. odd (aes_stream seed i)) [n..<n + len], q)) \<and> prng_at seed q (n + len)"
  using implGet_at [of seed p n len]
  by (auto simp: get_bools_def get_array_def segment_def and_one_eq mod_2_eq_odd)

lemma SetSeed_fresh: "0 < bufferSize \<Longrightarrow> \<exists>p. PRNG_seeded seed bufferSize = Inr p \<and> prng_at seed p 0"
  unfolding PRNG_seeded_def by (rule SetSeed_at) (simp_all add: PRNG_default_def)

lemma fork_at:
  assumes "prng_at seed p n"
  shows "\<exists>q r. fork p = Some (Inr (q, r)) \<and> prng_at (of_bytes (segment (aes_stream seed) n 16)) q 0 \<and> prng_at seed r (n + 16)"
  using get_block_at [OF assms] SetSeed_fresh [of 256 "of_bytes (segment (aes_stream seed) n 16)"]
  by (auto simp: fork_def)

text \<open>A generator that was never seeded, or that was moved from.\<close>

definition unkeyed :: "PRNG \<Rightarrow> bool" where
  "unkeyed p \<longleftrightarrow> mBuffer p = [] \<and> mBytesIdx p = 0 \<and> mBufferByteCapacity p = 0"

lemma unkeyed_intros: "unkeyed (PRNG_default junk)" "unkeyed (snd (PRNG_move p))"
  by (simp_all add: unkeyed_def PRNG_default_def PRNG_move_def)

lemma direct_blocks_buffer: "mBuffer (fst (snd (direct_blocks p l))) = mBuffer p"
  by (induction p l rule: direct_blocks.induct) (subst direct_blocks.simps, simp add: split_def Let_def)

lemma unkeyed_errors:
  assumes "unkeyed p"
  shows "getSeed p = Inl not_keyed" "getBufferSpan p maxSize = Inl not_keyed"
    "0 < l \<Longrightarrow> implGet p l = Some (Inl not_keyed)"
proof -
  show "getSeed p = Inl not_keyed" "getBufferSpan p maxSize = Inl not_keyed"
    using assms by (simp_all add: getSeed_def getBufferSpan_def refillBuffer_def unkeyed_def)
  assume "0 < l"
  moreover have "refillBuffer (fst (snd (direct_blocks p l))) = Inl not_keyed"
    using assms by (simp add: refillBuffer_def direct_blocks_buffer unkeyed_def)
  ultimately show "implGet p l = Some (Inl not_keyed)"
    using assms implGet_step [of l 0 p p "[]"] by (simp add: unkeyed_def split_def)
qed

lemma SetSeed_unkeyed: "unkeyed p \<Longrightarrow> SetSeed p seed 0 = Inl not_keyed"
  by (simp add: SetSeed_def unkeyed_def refillBuffer_def Let_def)

end
