(* ===== verification/BitVec.thy ===== *)
theory BitVec
  imports Prng
begin

text \<open>
  \<^verbatim>\<open>cryptoTools/Common/BitVector.h\<close>, \<^verbatim>\<open>BitVector.cpp\<close> and \<^verbatim>\<open>BitIterator.h\<close>: a vector of packed bits, the type of the
  choices of an oblivious transfer. The storage is an array of 128-bit blocks that the code also reads and writes as
  bytes; the model keeps the bytes, and an operation on the block \<open>i\<close> is one on the bytes \<open>16 * i, \<dots>, 16 * i + 15\<close>.
  The abstraction is the list of bits, and the lemmas show which list every operation yields. Sizes are natural
  numbers; where a difference of sizes would wrap below zero in the code there is an error branch. Sums that wrap only for
  vectors of nearly \<open>2 ^ 64\<close> bits, as in \<^verbatim>\<open>divCeil\<close>, are exact here.
\<close>

section \<open>The code\<close>

subsection \<open>Bit references and iterators\<close>

definition BitReference_get :: "byte \<Rightarrow> nat \<Rightarrow> u8" where
  "BitReference_get mByte mShift = drop_bit mShift mByte AND 1"

definition BitReference_set :: "byte \<Rightarrow> nat \<Rightarrow> u8 \<Rightarrow> byte" where
  "BitReference_set mByte mShift n =
     (let b = (if n \<noteq> 0 then 1 else 0)
      in mByte XOR ((mByte XOR push_bit mShift (b AND 1)) AND push_bit mShift 1))"

definition BitReference_xor :: "byte \<Rightarrow> nat \<Rightarrow> bool \<Rightarrow> byte" where
  "BitReference_xor mByte mShift b = mByte XOR push_bit mShift ((if b then 1 else 0) AND 1)"

text \<open>An iterator: the position of its byte in the storage and its shift.\<close>

record BitIterator =
  it_byte :: nat
  it_shift :: nat

definition BitIterator_at :: "nat \<Rightarrow> nat \<Rightarrow> BitIterator" where
  "BitIterator_at byte shift = \<lparr>it_byte = byte + shift div 8, it_shift = shift mod 8\<rparr>"

definition it_inc :: "BitIterator \<Rightarrow> BitIterator" where
  "it_inc it = \<lparr>it_byte = it_byte it + (if it_shift it = 7 then 1 else 0), it_shift = (it_shift it + 1) mod 8\<rparr>"

definition it_dec :: "BitIterator \<Rightarrow> BitIterator" where
  "it_dec it = \<lparr>it_byte = it_byte it - (if it_shift it = 0 then 1 else 0), it_shift = (it_shift it + 7) mod 8\<rparr>"

definition it_plus :: "BitIterator \<Rightarrow> int \<Rightarrow> BitIterator result" where
  "it_plus it v = (if v \<ge> 0 then Inr (BitIterator_at (it_byte it) (it_shift it + nat v)) else Inl (Assertion ''v >= 0''))"

definition it_deref :: "byte list \<Rightarrow> BitIterator \<Rightarrow> u8" where
  "it_deref d it = BitReference_get (d ! it_byte it) (it_shift it)"

subsection \<open>The vector\<close>

record BitVector =
  bv_data :: "byte list"
  mNumBits :: nat
  mAllocBlocks :: nat

definition divCeil :: "nat \<Rightarrow> nat \<Rightarrow> nat" where
  "divCeil val d = (val + d - 1) div d"

definition sizeBytes :: "BitVector \<Rightarrow> nat" where
  "sizeBytes v = divCeil (mNumBits v) 8"

definition sizeBlocks :: "BitVector \<Rightarrow> nat" where
  "sizeBlocks v = divCeil (mNumBits v) (8 * 16)"

definition bv_capacity :: "BitVector \<Rightarrow> nat" where
  "bv_capacity v = mAllocBlocks v * 8 * 16"

definition blit :: "byte list \<Rightarrow> nat \<Rightarrow> byte list \<Rightarrow> byte list" where
  "blit d i bs = take i d @ bs @ drop (i + length bs) d"

definition BitVector_empty :: BitVector where
  "BitVector_empty = \<lparr>bv_data = [], mNumBits = 0, mAllocBlocks = 0\<rparr>"

definition bv_reset :: "BitVector \<Rightarrow> nat \<Rightarrow> BitVector" where
  "bv_reset v new_nbits =
     (let newSize = divCeil new_nbits (8 * 16);
          v = (if newSize > mAllocBlocks v then v\<lparr>bv_data := replicate (16 * newSize) 0, mAllocBlocks := newSize\<rparr>
               else v\<lparr>bv_data := blit (bv_data v) 0 (replicate (16 * newSize) 0)\<rparr>)
      in v\<lparr>mNumBits := new_nbits\<rparr>)"

definition bv_resize :: "BitVector \<Rightarrow> nat \<Rightarrow> BitVector" where
  "bv_resize v newSize =
     (let new_nblocks = divCeil newSize (8 * 16);
          v = (if mAllocBlocks v < new_nblocks
               then v\<lparr>mAllocBlocks := new_nblocks,
                      bv_data := blit (replicate (16 * new_nblocks) 0) 0 (take (16 * sizeBlocks v) (bv_data v))\<rparr>
               else v)
      in v\<lparr>mNumBits := newSize\<rparr>)"

text \<open>\<^verbatim>\<open>resize(newSize, val)\<close>; \<^verbatim>\<open>sizeBytes() - idx\<close> is unsigned and the fill runs over all memory when it wraps.\<close>

definition bv_resize_val :: "BitVector \<Rightarrow> nat \<Rightarrow> u8 \<Rightarrow> BitVector result" where
  "bv_resize_val v newSize val =
     (let val = (if val \<noteq> 0 then - 1 else 0);
          oldSize = mNumBits v;
          v = bv_resize v newSize;
          offset = oldSize mod 8;
          idx = oldSize div 8;
          (v, idx) = (if offset \<noteq> 0
             then (let mask = push_bit offset (- 1)
                   in (v\<lparr>bv_data := (bv_data v)[idx := (bv_data v ! idx AND NOT mask) OR (val AND mask)]\<rparr>, idx + 1))
             else (v, idx))
      in if sizeBytes v < idx then Inl (Undefined ''memset past the storage'')
         else Inr (v\<lparr>bv_data := blit (bv_data v) idx (replicate (sizeBytes v - idx) val)\<rparr>))"

definition bv_reserve :: "BitVector \<Rightarrow> nat \<Rightarrow> BitVector" where
  "bv_reserve v bits = (let curBits = mNumBits v; v = bv_resize v bits in v\<lparr>mNumBits := curBits\<rparr>)"

definition bv_get :: "BitVector \<Rightarrow> nat \<Rightarrow> u8 result" where
  "bv_get v idx =
     (if idx \<ge> mNumBits v then Inl (Runtime_error ''rt error at'')
      else Inr (BitReference_get (bv_data v ! (idx div 8)) (idx mod 8)))"

definition bv_set :: "BitVector \<Rightarrow> nat \<Rightarrow> u8 \<Rightarrow> BitVector result" where
  "bv_set v idx n =
     (if idx \<ge> mNumBits v then Inl (Runtime_error ''rt error at'')
      else Inr (v\<lparr>bv_data := (bv_data v)[idx div 8 := BitReference_set (bv_data v ! (idx div 8)) (idx mod 8) n]\<rparr>))"

text \<open>A loop that assigns the bits \<open>i, i + 1, \<dots>\<close> in turn.\<close>

fun put_all :: "('v \<Rightarrow> nat \<Rightarrow> u8 \<Rightarrow> 'v result) \<Rightarrow> 'v \<Rightarrow> nat \<Rightarrow> u8 list \<Rightarrow> 'v result" where
  "put_all put v i [] = Inr v"
| "put_all put v i (b # bs) = res_bind (put v i b) (\<lambda>v. put_all put v (i + 1) bs)"

definition bv_masks :: "u8 list" where
  "bv_masks = [1, 2, 4, 8, 16, 32, 64, 128]"

text \<open>\<^verbatim>\<open>append(dataIn, length, offset)\<close>, which reads \<open>length\<close> bits of \<^verbatim>\<open>dataIn\<close> from bit \<open>offset\<close> on.\<close>

definition bv_append :: "BitVector \<Rightarrow> byte list \<Rightarrow> nat \<Rightarrow> nat \<Rightarrow> BitVector result" where
  "bv_append v dataIn len offset =
     (let bitIdx = mNumBits v;
          destOffset = mNumBits v mod 8;
          destIdx = mNumBits v div 8;
          srcOffset = offset mod 8;
          srcIdx = offset div 8;
          byteLength = (len + 7) div 8;
          v = bv_resize v (mNumBits v + len)
      in if len > 0 \<and> 8 * length dataIn < offset + len then Inl (Undefined ''read past dataIn'')
         else if srcOffset \<noteq> 0 \<or> destOffset \<noteq> 0
         then put_all bv_set v bitIdx (map (\<lambda>i. dataIn ! ((offset + i) div 8) AND bv_masks ! ((offset + i) mod 8)) [0..<len])
         else Inr (v\<lparr>bv_data := blit (bv_data v) destIdx (take byteLength (drop srcIdx dataIn))\<rparr>))"

definition bv_append_vec :: "BitVector \<Rightarrow> BitVector \<Rightarrow> BitVector result" where
  "bv_append_vec v k = bv_append v (bv_data k) (mNumBits k) 0"

definition bv_append_part :: "BitVector \<Rightarrow> BitVector \<Rightarrow> nat \<Rightarrow> nat \<Rightarrow> BitVector result" where
  "bv_append_part v k len offset =
     (if mNumBits k < len + offset then Inl (Runtime_error ''length too long.'') else bv_append v (bv_data k) len offset)"

definition BitVector_of :: "byte list \<Rightarrow> nat \<Rightarrow> nat \<Rightarrow> BitVector result" where
  "BitVector_of data len offset = bv_append BitVector_empty data len offset"

definition bv_assign_block :: "BitVector \<Rightarrow> m128 \<Rightarrow> BitVector" where
  "bv_assign_block v b = (let v = bv_reset v 128 in v\<lparr>bv_data := blit (bv_data v) 0 (to_bytes b)\<rparr>)"

definition bv_assign :: "BitVector \<Rightarrow> BitVector \<Rightarrow> BitVector" where
  "bv_assign v K = (let v = bv_reset v (mNumBits K) in v\<lparr>bv_data := blit (bv_data v) 0 (take (16 * sizeBlocks v) (bv_data K))\<rparr>)"

definition bv_move :: "BitVector \<Rightarrow> BitVector \<times> BitVector" where
  "bv_move rref = (rref, \<lparr>bv_data = [], mNumBits = 0, mAllocBlocks = 0\<rparr>)"

definition bv_copy :: "BitVector \<Rightarrow> BitVector \<Rightarrow> nat \<Rightarrow> nat \<Rightarrow> BitVector result" where
  "bv_copy v src idx len = bv_append (bv_resize v 0) (bv_data src) len idx"

text \<open>\<^verbatim>\<open>subvec(begin, size)\<close>; \<open>None\<close> is the default size, \<^verbatim>\<open>mNumBits - begin\<close>, which wraps when \<open>begin\<close> is too large.\<close>

definition bv_subvec :: "BitVector \<Rightarrow> nat \<Rightarrow> nat option \<Rightarrow> BitVector result" where
  "bv_subvec v start len =
     (case len of
        None \<Rightarrow>
          if mNumBits v < start then Inl (Undefined ''size wraps around'')
          else bv_append BitVector_empty (drop (start div 8) (bv_data v)) (mNumBits v - start) (start mod 8)
      | Some len \<Rightarrow>
          if start + len > mNumBits v then Inl (Runtime_error ''rt error at'')
          else bv_append BitVector_empty (drop (start div 8) (bv_data v)) len (start mod 8))"

definition bv_not :: "BitVector \<Rightarrow> BitVector" where
  "bv_not v =
     (let ret = bv_assign BitVector_empty v
      in ret\<lparr>bv_data := blit (bv_data ret) 0 (map (\<lambda>b. NOT b) (take (16 * sizeBlocks v) (bv_data v)))\<rparr>)"

definition bv_op :: "(byte \<Rightarrow> byte \<Rightarrow> byte) \<Rightarrow> BitVector \<Rightarrow> BitVector \<Rightarrow> BitVector result" where
  "bv_op f v A =
     (if mNumBits v \<noteq> mNumBits A then Inl (Runtime_error ''rt error at'')
      else Inr (v\<lparr>bv_data := blit (bv_data v) 0 (map2 f (take (16 * sizeBlocks v) (bv_data v)) (take (16 * sizeBlocks v) (bv_data A)))\<rparr>))"

definition bv_and_eq :: "BitVector \<Rightarrow> BitVector \<Rightarrow> BitVector result" where "bv_and_eq = bv_op (AND)"
definition bv_or_eq :: "BitVector \<Rightarrow> BitVector \<Rightarrow> BitVector result" where "bv_or_eq = bv_op (OR)"
definition bv_xor_eq :: "BitVector \<Rightarrow> BitVector \<Rightarrow> BitVector result" where "bv_xor_eq = bv_op (XOR)"

definition bv_xor :: "BitVector \<Rightarrow> BitVector \<Rightarrow> BitVector result" where
  "bv_xor v B = bv_xor_eq (bv_assign BitVector_empty v) B"
definition bv_and :: "BitVector \<Rightarrow> BitVector \<Rightarrow> BitVector result" where
  "bv_and v B = bv_and_eq (bv_assign BitVector_empty v) B"
definition bv_or :: "BitVector \<Rightarrow> BitVector \<Rightarrow> BitVector result" where
  "bv_or v B = bv_or_eq (bv_assign BitVector_empty v) B"

text \<open>\<^verbatim>\<open>fromString\<close>: without \<^verbatim>\<open>NDEBUG\<close> a character other than 0 and 1 is an error.\<close>

definition bv_fromString :: "bool \<Rightarrow> BitVector \<Rightarrow> string \<Rightarrow> BitVector result" where
  "bv_fromString ndebug v data =
     (let v = bv_resize v (length data);
          digit = (\<lambda>c. of_nat (of_char c) - 48 :: u8)
      in put_all (\<lambda>v i b. if \<not> ndebug \<and> b > 1 then Inl (Runtime_error '''') else bv_set v i b) v 0 (map digit data))"

definition bv_equals :: "BitVector \<Rightarrow> BitVector \<Rightarrow> bool result" where
  "bv_equals v rhs =
     (if mNumBits v \<noteq> mNumBits rhs then Inr False
      else if sizeBytes v = 0 then Inl (Undefined ''lastByte wraps around'')
      else
        let lastByte = sizeBytes v - 1
        in if take lastByte (bv_data v) \<noteq> take lastByte (bv_data rhs) then Inr False
           else
             let rem = mNumBits v mod 8;
                 mask = (if rem \<noteq> 0 then drop_bit (8 - rem) (- 1) else - 1)
             in Inr (bv_data v ! lastByte AND mask = bv_data rhs ! lastByte AND mask))"

text \<open>The inner loop of \<^verbatim>\<open>hammingWeight\<close> clears the lowest one bit.\<close>

function count_ones :: "u8 \<Rightarrow> nat" where
  "count_ones b = (if b = 0 then 0 else 1 + count_ones (b AND (b - 1)))"
  by pat_completeness auto
termination
proof (relation "measure unat")
  fix b :: u8
  assume b: "b \<noteq> 0"
  then have "unat (b - 1) < unat b" by (simp add: unat_minus_one unat_gt_0)
  moreover have "unat (b AND (b - 1)) \<le> unat (b - 1)"
    by (metis word_and_le1 word_le_nat_alt)
  ultimately show "(b AND (b - 1), b) \<in> measure unat" by simp
qed simp

declare count_ones.simps [simp del]

definition bv_hammingWeight :: "BitVector \<Rightarrow> nat" where
  "bv_hammingWeight v =
     (let e = sizeBytes v - (if mNumBits v mod 8 \<noteq> 0 then 1 else 0)
      in sum_list (map (\<lambda>i. count_ones (bv_data v ! i)) [0..<e])
         + sum_list (map (\<lambda>i. unat (BitReference_get (bv_data v ! (i div 8)) (i mod 8))) [8 * e..<mNumBits v]))"

definition bv_parity :: "BitVector \<Rightarrow> nat" where
  "bv_parity v = bv_hammingWeight v mod 2"

definition bv_back :: "BitVector \<Rightarrow> u8 result" where
  "bv_back v = (if mNumBits v = 0 then Inl (Runtime_error ''rt error at'') else bv_get v (mNumBits v - 1))"

definition bv_pushBack :: "BitVector \<Rightarrow> u8 \<Rightarrow> BitVector result" where
  "bv_pushBack v b =
     (let v = (if mNumBits v = bv_capacity v then bv_reserve v (mNumBits v * 2) else v);
          v = bv_resize v (mNumBits v + 1)
      in bv_set v (mNumBits v - 1) b)"

definition bv_randomize :: "BitVector \<Rightarrow> PRNG \<Rightarrow> (BitVector \<times> PRNG) result option" where
  "bv_randomize v G = map_get (\<lambda>bs. v\<lparr>bv_data := blit (bv_data v) 0 bs\<rparr>) (get_array 16 G (sizeBlocks v))"

text \<open>
  \<^verbatim>\<open>nChoosek\<close>. The first loop runs \<open>i\<close> from \<open>k - 1\<close> down while \<^verbatim>\<open>i >= (k & ~3)\<close> on unsigned numbers; when that bound is
  0 it passes 0 and continues at \<open>2 ^ 64 - 1\<close>, where the access throws.
\<close>

definition ones_from :: "nat \<Rightarrow> nat" where
  "ones_from k = k - k mod 4"

fun set_down :: "BitVector \<Rightarrow> nat \<Rightarrow> nat \<Rightarrow> BitVector result" where
  "set_down v lo 0 = (if lo = 0 then Inl (Runtime_error ''rt error at'') else Inr v)"
| "set_down v lo (Suc i) = (if i < lo then Inr v else res_bind (bv_set v i 1) (\<lambda>v. set_down v lo i))"

fun reservoir :: "BitVector \<Rightarrow> nat \<Rightarrow> nat list \<Rightarrow> PRNG \<Rightarrow> (BitVector \<times> PRNG) result option" where
  "reservoir v k [] prng = Some (Inr (v, prng))"
| "reservoir v k (i # is) prng =
     Option.bind (get_u64 prng) (\<lambda>r. case r of Inl e \<Rightarrow> Some (Inl e) | Inr (x, prng) \<Rightarrow>
       let j = unat x mod i
       in if j < k then
            (case res_bind (bv_get v j) (\<lambda>b. res_bind (bv_set v j 0) (\<lambda>v. bv_set v i b)) of
               Inl e \<Rightarrow> Some (Inl e) | Inr v \<Rightarrow> reservoir v k is prng)
          else reservoir v k is prng)"

definition bv_nChoosek :: "BitVector \<Rightarrow> nat \<Rightarrow> nat \<Rightarrow> PRNG \<Rightarrow> (BitVector \<times> PRNG) result option" where
  "bv_nChoosek v n k prng =
     (let v = bv_reset v n
      in if length (bv_data v) < k div 8 then Some (Inl (Undefined ''memset past the storage''))
         else
           (case set_down (v\<lparr>bv_data := blit (bv_data v) 0 (replicate (k div 8) (- 1))\<rparr>) (ones_from k) k of
              Inl e \<Rightarrow> Some (Inl e) | Inr v \<Rightarrow> reservoir v k [k..<n] prng))"

text \<open>Printing.\<close>

definition bv_hex_digit :: "nat \<Rightarrow> char" where
  "bv_hex_digit d = ''0123456789abcdef'' ! d"

definition bv_hex :: "BitVector \<Rightarrow> string" where
  "bv_hex v = concat (map (\<lambda>b. [bv_hex_digit (unat b div 16), bv_hex_digit (unat b mod 16)]) (take (sizeBytes v) (bv_data v)))"

definition bv_print :: "BitVector \<Rightarrow> string" where
  "bv_print v = map (\<lambda>i. char_of (48 + unat (BitReference_get (bv_data v ! (i div 8)) (i mod 8)))) [0..<mNumBits v]"

definition bv_begin :: "BitVector \<Rightarrow> BitIterator" where
  "bv_begin v = BitIterator_at 0 0"

definition bv_end :: "BitVector \<Rightarrow> BitIterator" where
  "bv_end v = BitIterator_at (mNumBits v div 8) (mNumBits v mod 8)"


section \<open>The list of bits\<close>

definition data_bit :: "byte list \<Rightarrow> nat \<Rightarrow> bool" where
  "data_bit d i = bit (d ! (i div 8)) (i mod 8)"

definition data_bits :: "byte list \<Rightarrow> nat \<Rightarrow> nat \<Rightarrow> bool list" where
  "data_bits d off len = map (data_bit d) [off..<off + len]"

definition bv_bits :: "BitVector \<Rightarrow> bool list" where
  "bv_bits v = data_bits (bv_data v) 0 (mNumBits v)"

definition bv_ok :: "BitVector \<Rightarrow> bool" where
  "bv_ok v \<longleftrightarrow> length (bv_data v) = 16 * mAllocBlocks v \<and> mNumBits v \<le> 128 * mAllocBlocks v"

named_theorems bv_simps \<open>lengths and bits of a bit vector\<close>

lemma length_bits [simp]: "length (data_bits d off len) = len" "length (bv_bits v) = mNumBits v"
  by (simp_all add: data_bits_def bv_bits_def)

lemma nth_data_bits [simp]: "i < len \<Longrightarrow> data_bits d off len ! i = data_bit d (off + i)"
  by (simp add: data_bits_def)

lemma nth_bv_bits [simp]: "i < mNumBits v \<Longrightarrow> bv_bits v ! i = data_bit (bv_data v) i"
  by (simp add: bv_bits_def)

lemma length_blit [simp]: "i + length bs \<le> length d \<Longrightarrow> length (blit d i bs) = length d"
  by (simp add: blit_def)

lemma nth_blit:
  "i + length bs \<le> length d \<Longrightarrow> j < length d \<Longrightarrow> blit d i bs ! j = (if i \<le> j \<and> j < i + length bs then bs ! (j - i) else d ! j)"
  by (auto simp: blit_def nth_append)

lemma divCeil_bounds: "0 < d \<Longrightarrow> n \<le> d * divCeil n d" "0 < d \<Longrightarrow> divCeil n d \<le> m \<longleftrightarrow> n \<le> d * m"
proof -
  assume d: "0 < d"
  have "d * ((n + d - 1) div d) + (n + d - 1) mod d = n + d - 1" by simp
  moreover have "(n + d - 1) mod d \<le> d - 1" using d mod_less_divisor [of d "n + d - 1"] by linarith
  ultimately show le: "n \<le> d * divCeil n d" using d unfolding divCeil_def by linarith
  have "divCeil n d < Suc m \<longleftrightarrow> n + d - 1 < Suc m * d"
    using d by (simp add: divCeil_def div_less_iff_less_mult)
  then show "divCeil n d \<le> m \<longleftrightarrow> n \<le> d * m" using d by (simp add: less_Suc_eq_le mult.commute) arith
qed

lemma sizeBlocks_le: "bv_ok v \<Longrightarrow> sizeBlocks v \<le> mAllocBlocks v" "bv_ok v \<Longrightarrow> 16 * sizeBlocks v \<le> length (bv_data v)"
  using divCeil_bounds(2) [of 128 "mNumBits v" "mAllocBlocks v"] by (simp_all add: sizeBlocks_def bv_ok_def)

lemma sizeBlocks_ge: "mNumBits v \<le> 128 * sizeBlocks v"
  using divCeil_bounds(1) [of 128] by (simp add: sizeBlocks_def)

lemma bit_less_bytes: "i < 8 * n \<Longrightarrow> i div 8 < n" for i n :: nat
  by linarith

lemma data_bit_set:
  assumes "idx < 8 * length d" "j < 8 * length d"
  shows "data_bit (d[idx div 8 := BitReference_set (d ! (idx div 8)) (idx mod 8) n]) j = (if j = idx then n \<noteq> 0 else data_bit d j)"
proof -
  have set: "bit (BitReference_set b s n) t = (if t = s then n \<noteq> 0 else bit b t)" if "s < 8" "t < 8" for b :: byte and s t
    using that by (auto simp: BitReference_set_def Let_def bit_simps)
  have "j = idx \<longleftrightarrow> j div 8 = idx div 8 \<and> j mod 8 = idx mod 8" by (metis mult_div_mod_eq)
  with assms show ?thesis by (auto simp: data_bit_def nth_list_update set bit_less_bytes)
qed

lemma data_bit_get: "BitReference_get (d ! (i div 8)) (i mod 8) = (if data_bit d i then 1 else 0)"
  by (auto simp: BitReference_get_def data_bit_def and_one_eq bit_iff_odd_drop_bit mod_2_eq_odd)

lemma data_bit_blit:
  assumes "i + length bs \<le> length d" "j < 8 * length d"
  shows "data_bit (blit d i bs) j = (if 8 * i \<le> j \<and> j < 8 * (i + length bs) then data_bit bs (j - 8 * i) else data_bit d j)"
proof -
  have "8 * i \<le> j \<Longrightarrow> (j - 8 * i) div 8 = j div 8 - i \<and> (j - 8 * i) mod 8 = j mod 8"
    by (metis add.commute add_diff_cancel_left' div_mult_self2 le_add_diff_inverse mod_mult_self2 zero_neq_numeral)
  moreover have "i \<le> j div 8 \<longleftrightarrow> 8 * i \<le> j" "j div 8 < i + length bs \<longleftrightarrow> j < 8 * (i + length bs)"
    by (linarith, simp add: div_less_iff_less_mult mult.commute)
  ultimately show ?thesis
    using assms by (auto simp: data_bit_def nth_blit bit_less_bytes)
qed

lemma data_bit_take_drop: "j < 8 * n \<Longrightarrow> data_bit (take n d) j = data_bit d j" "n \<le> length d \<Longrightarrow> data_bit (drop n d) j = data_bit d (8 * n + j)"
  by (simp_all add: data_bit_def bit_less_bytes)

lemma data_bit_replicate [simp]:
  "j < 8 * n \<Longrightarrow> data_bit (replicate n 0) j = False" "j < 8 * n \<Longrightarrow> data_bit (replicate n (- 1)) j = True"
  by (simp_all add: data_bit_def bit_less_bytes)

lemma bv_bits_eqI:
  "length bs = mNumBits v \<Longrightarrow> (\<And>i. i < mNumBits v \<Longrightarrow> data_bit (bv_data v) i = bs ! i) \<Longrightarrow> bv_bits v = bs"
  by (rule nth_equalityI) simp_all



section \<open>Every operation on the list of bits\<close>

subsection \<open>Size\<close>

lemma BitVector_empty_ok [simp]: "bv_ok BitVector_empty" "bv_bits BitVector_empty = []" "mNumBits BitVector_empty = 0"
  by (simp_all add: bv_ok_def BitVector_empty_def bv_bits_def data_bits_def)

lemma bv_reset_ok: "bv_ok v \<Longrightarrow> bv_ok (bv_reset v n) \<and> bv_bits (bv_reset v n) = replicate n False"
proof -
  assume ok: "bv_ok v"
  let ?n = "divCeil n 128"
  have n: "n \<le> 128 * ?n" by (rule divCeil_bounds) simp
  show ?thesis
  proof (cases "?n > mAllocBlocks v")
    case True
    with n show ?thesis by (auto simp: bv_reset_def bv_ok_def Let_def intro!: bv_bits_eqI)
  next
    case False
    with ok have le: "16 * ?n \<le> length (bv_data v)" by (simp add: bv_ok_def)
    with False n ok show ?thesis
      by (auto simp: bv_reset_def bv_ok_def Let_def data_bit_blit intro!: bv_bits_eqI)
  qed
qed

text \<open>Resizing keeps the bits that both sizes have; the bits that are added are what the storage holds.\<close>

lemma bv_resize_ok:
  assumes ok: "bv_ok v"
  shows "bv_ok (bv_resize v n)" "mNumBits (bv_resize v n) = n"
    "i < mNumBits v \<Longrightarrow> data_bit (bv_data (bv_resize v n)) i = data_bit (bv_data v) i"
    "length (bv_data v) \<le> length (bv_data (bv_resize v n))"
proof -
  let ?n = "divCeil n 128"
  have n: "n \<le> 128 * ?n" by (rule divCeil_bounds) simp
  note sz = sizeBlocks_le [OF ok] sizeBlocks_ge [of v]
  show "mNumBits (bv_resize v n) = n" by (simp add: bv_resize_def Let_def)
  show "bv_ok (bv_resize v n)" "length (bv_data v) \<le> length (bv_data (bv_resize v n))"
    using ok n sz by (auto simp: bv_resize_def bv_ok_def Let_def min_def)
  show "data_bit (bv_data (bv_resize v n)) i = data_bit (bv_data v) i" if "i < mNumBits v"
    using ok n sz that by (auto simp: bv_resize_def Let_def bv_ok_def data_bit_blit min_def data_bit_take_drop)
qed

lemma bv_resize_bits: "bv_ok v \<Longrightarrow> n \<le> mNumBits v \<Longrightarrow> bv_bits (bv_resize v n) = take n (bv_bits v)"
  by (rule bv_bits_eqI) (simp_all add: bv_resize_ok min_def)

lemma bv_resize_grow: "bv_ok v \<Longrightarrow> mNumBits v \<le> n \<Longrightarrow> take (mNumBits v) (bv_bits (bv_resize v n)) = bv_bits v"
  by (rule nth_equalityI) (auto simp: bv_resize_ok)

lemma bv_reserve_ok:
  assumes "bv_ok v"
  shows "bv_ok (bv_reserve v n)" "bv_bits (bv_reserve v n) = bv_bits v" "mNumBits (bv_reserve v n) = mNumBits v"
proof -
  note r = bv_resize_ok [OF assms, where n = n]
  have len: "length (bv_data (bv_resize v n)) = 16 * mAllocBlocks (bv_resize v n)" using r(1) by (simp add: bv_ok_def)
  then have "16 * mAllocBlocks v \<le> 16 * mAllocBlocks (bv_resize v n)" using r(4) assms by (simp add: bv_ok_def)
  with len assms show "bv_ok (bv_reserve v n)" by (simp add: bv_reserve_def bv_ok_def)
  show "bv_bits (bv_reserve v n) = bv_bits v" by (rule bv_bits_eqI) (simp_all add: bv_reserve_def r(3))
  show "mNumBits (bv_reserve v n) = mNumBits v" by (simp add: bv_reserve_def Let_def)
qed

subsection \<open>Access\<close>

lemma bv_get_eq: "bv_get v i = (if i < mNumBits v then Inr (if bv_bits v ! i then 1 else 0) else Inl (Runtime_error ''rt error at''))"
  by (simp add: bv_get_def data_bit_get)

lemma bv_set_ok:
  assumes ok: "bv_ok v" and i: "i < mNumBits v"
  shows "\<exists>w. bv_set v i b = Inr w \<and> bv_ok w \<and> bv_bits w = (bv_bits v)[i := b \<noteq> 0] \<and> bv_data w = (bv_data v)[i div 8 := BitReference_set (bv_data v ! (i div 8)) (i mod 8) b]"
proof -
  have le: "mNumBits v \<le> 8 * length (bv_data v)" using ok by (simp add: bv_ok_def)
  with i ok show ?thesis
    by (auto simp: bv_set_def bv_ok_def nth_list_update data_bit_set intro!: bv_bits_eqI)
qed

text \<open>
  A vector that is written bit by bit: \<open>put\<close> replaces one bit of the list and fails outside of it. The loops that
  assign a range of bits are proved for every such vector.
\<close>

locale bit_array =
  fixes abs :: "'v \<Rightarrow> bool list" and ok :: "'v \<Rightarrow> bool" and put :: "'v \<Rightarrow> nat \<Rightarrow> u8 \<Rightarrow> 'v result"
  assumes put_ok: "ok v \<Longrightarrow> i < length (abs v) \<Longrightarrow> \<exists>w. put v i b = Inr w \<and> ok w \<and> abs w = (abs v)[i := b \<noteq> 0]"
    and put_err: "ok v \<Longrightarrow> length (abs v) \<le> i \<Longrightarrow> \<exists>e. put v i b = Inl e"
begin

lemma put_all_ok:
  assumes "ok v" "i + length bs \<le> length (abs v)"
  shows "\<exists>w. put_all put v i bs = Inr w \<and> ok w \<and> abs w = take i (abs v) @ map (\<lambda>b. b \<noteq> 0) bs @ drop (i + length bs) (abs v)"
  using assms
proof (induction bs arbitrary: v i)
  case (Cons b bs)
  then obtain w where w: "put v i b = Inr w" "ok w" "abs w = (abs v)[i := b \<noteq> 0]"
    using put_ok [of v i b] by auto
  obtain u where u: "put_all put w (i + 1) bs = Inr u" "ok u"
    "abs u = take (i + 1) (abs w) @ map (\<lambda>b. b \<noteq> 0) bs @ drop (i + 1 + length bs) (abs w)"
    using Cons.IH [of w "i + 1"] Cons.prems w by auto
  have "take (Suc i) ((abs v)[i := b \<noteq> 0]) = take i (abs v) @ [b \<noteq> 0]"
    using Cons.prems by (simp add: take_Suc_conv_app_nth)
  with w u show ?case by simp
qed simp

lemma put_all_err:
  assumes "ok v" "i \<le> length (abs v)" "length (abs v) < i + length bs"
  shows "\<exists>e. put_all put v i bs = Inl e"
  using assms
proof (induction bs arbitrary: v i)
  case (Cons b bs)
  show ?case
  proof (cases "i < length (abs v)")
    case True
    then obtain w where "put v i b = Inr w" "ok w" "abs w = (abs v)[i := b \<noteq> 0]"
      using put_ok [of v i b] Cons.prems by auto
    with Cons.IH [of w "i + 1"] Cons.prems True show ?thesis by auto
  next
    case False
    with put_err [of v i b] Cons.prems show ?thesis by auto
  qed
qed simp

end

interpretation bv: bit_array bv_bits bv_ok bv_set
  by unfold_locales (use bv_set_ok in \<open>auto simp: bv_set_def\<close>)


subsection \<open>Appending\<close>

lemma mask_bit: "x AND bv_masks ! k \<noteq> 0 \<longleftrightarrow> bit x k" if "k < 8" for x :: byte
proof -
  have "bv_masks ! k = 2 ^ k"
  proof -
    have "k \<in> {0, 1, 2, 3, 4, 5, 6, 7}" using that by auto
    then show ?thesis by (elim insertE emptyE) (simp_all add: bv_masks_def)
  qed
  then show ?thesis by (simp add: and_exp_eq_0_iff_not_bit)
qed

lemma bv_append_ok:
  assumes ok: "bv_ok v" and src: "len = 0 \<or> offset + len \<le> 8 * length d"
  shows "\<exists>w. bv_append v d len offset = Inr w \<and> bv_ok w \<and> bv_bits w = bv_bits v @ data_bits d offset len"
proof -
  let ?n = "mNumBits v" and ?r = "bv_resize v (mNumBits v + len)"
  note r = bv_resize_ok [OF ok, where n = "?n + len"]
  have in_src: "\<not> (len > 0 \<and> 8 * length d < offset + len)" using src by auto
  have keep: "take ?n (bv_bits ?r) = bv_bits v" by (rule bv_resize_grow) (simp_all add: ok)
  have rlen: "?n + len \<le> 8 * length (bv_data ?r)" using r(1,2) by (simp add: bv_ok_def)
  show ?thesis
  proof (cases "offset mod 8 \<noteq> 0 \<or> ?n mod 8 \<noteq> 0")
    case True
    let ?bs = "map (\<lambda>i. d ! ((offset + i) div 8) AND bv_masks ! ((offset + i) mod 8)) [0..<len]"
    have vals: "map (\<lambda>b. b \<noteq> 0) ?bs = data_bits d offset len"
      by (rule nth_equalityI) (simp_all add: mask_bit data_bit_def)
    obtain w where "put_all bv_set ?r ?n ?bs = Inr w" "bv_ok w"
      "bv_bits w = take ?n (bv_bits ?r) @ map (\<lambda>b. b \<noteq> 0) ?bs @ drop (?n + length ?bs) (bv_bits ?r)"
      using bv.put_all_ok [OF r(1), of ?n ?bs] r(2) by auto
    with True in_src keep vals r(2) show ?thesis by (auto simp: bv_append_def Let_def)
  next
    case False
    let ?bs = "take ((len + 7) div 8) (drop (offset div 8) d)"
    have al: "8 * (offset div 8) = offset" "8 * (?n div 8) = ?n" using False by auto
    have bs: "len > 0 \<Longrightarrow> length ?bs = (len + 7) div 8"
    proof -
      assume "len > 0"
      with src al(1) have "8 * (offset div 8) + len \<le> 8 * length d" by simp
      then show ?thesis by simp
    qed
    have n8: "?n div 8 + (len + 7) div 8 \<le> length (bv_data ?r)" using rlen al(2) by linarith
    then have fits: "?n div 8 + length ?bs \<le> length (bv_data ?r)" by (simp add: min_def)
    let ?w = "?r\<lparr>bv_data := blit (bv_data ?r) (?n div 8) ?bs\<rparr>"
    have "bv_bits ?w = bv_bits v @ data_bits d offset len"
    proof (rule bv_bits_eqI)
      fix i assume "i < mNumBits ?w"
      then have i: "i < ?n + len" using r(2) by simp
      show "data_bit (bv_data ?w) i = (bv_bits v @ data_bits d offset len) ! i"
      proof (cases "i < ?n")
        case True
        with fits rlen al(2) show ?thesis by (simp add: data_bit_blit r(3) nth_append)
      next
        case ge: False
        then have "len > 0" using i by simp
        have up: "i - ?n < 8 * ((len + 7) div 8)" using ge i by linarith
        moreover have "i < 8 * (?n div 8 + (len + 7) div 8)" using up ge unfolding distrib_left al(2) by linarith
        moreover have "offset div 8 \<le> length d" using src al(1) \<open>len > 0\<close> by linarith
        moreover have "i - ?n < len" "offset + (i - ?n) = offset + i - ?n" using ge i by linarith+
        ultimately show ?thesis
          using ge i fits rlen al bs [OF \<open>len > 0\<close>]
          by (simp add: data_bit_blit nth_append data_bit_take_drop)
      qed
    qed (simp add: r(2))
    moreover have "bv_ok ?w" using r(1) fits by (simp add: bv_ok_def)
    ultimately show ?thesis using False in_src by (simp add: bv_append_def Let_def)
  qed
qed

lemma bv_append_vec_ok:
  "bv_ok v \<Longrightarrow> bv_ok k \<Longrightarrow> \<exists>w. bv_append_vec v k = Inr w \<and> bv_ok w \<and> bv_bits w = bv_bits v @ bv_bits k"
  unfolding bv_append_vec_def bv_bits_def [of k] by (rule bv_append_ok) (auto simp: bv_ok_def)

lemma data_bits_segment: "off + len \<le> mNumBits k \<Longrightarrow> data_bits (bv_data k) off len = take len (drop off (bv_bits k))"
  by (rule nth_equalityI) simp_all

lemma bv_append_part_eq:
  assumes "bv_ok v" "bv_ok k"
  shows "if offset + len \<le> mNumBits k
    then \<exists>w. bv_append_part v k len offset = Inr w \<and> bv_ok w \<and> bv_bits w = bv_bits v @ take len (drop offset (bv_bits k))
    else bv_append_part v k len offset = Inl (Runtime_error ''length too long.'')"
proof (cases "offset + len \<le> mNumBits k")
  case True
  then have "offset + len \<le> 8 * length (bv_data k)" using assms(2) by (simp add: bv_ok_def)
  with True bv_append_ok [OF assms(1), of len offset "bv_data k"] show ?thesis
    by (simp add: bv_append_part_def data_bits_segment add.commute)
qed (simp add: bv_append_part_def add.commute)

lemma bv_subvec_eq:
  assumes ok: "bv_ok v" and le: "start + len \<le> mNumBits v"
  shows "\<exists>w. bv_subvec v start (Some len) = Inr w \<and> bv_ok w \<and> bv_bits w = take len (drop start (bv_bits v))"
proof -
  have cap: "mNumBits v \<le> 8 * length (bv_data v)" using ok by (simp add: bv_ok_def)
  let ?d = "drop (start div 8) (bv_data v)"
  have "start mod 8 + 8 * (start div 8) + len \<le> 8 * length (bv_data v)"
    using cap le by simp
  then have "len = 0 \<or> start mod 8 + len \<le> 8 * length ?d"
    unfolding length_drop diff_mult_distrib2 by linarith
  moreover have "start div 8 \<le> length (bv_data v)" using cap le by linarith
  then have "data_bits ?d (start mod 8) len = data_bits (bv_data v) start len"
    by (intro nth_equalityI) (simp_all add: data_bit_take_drop add.assoc [symmetric])
  ultimately show ?thesis
    using bv_append_ok [of BitVector_empty len "start mod 8" ?d] le
    by (simp add: bv_subvec_def data_bits_segment)
qed

lemma bv_subvec_default: "start \<le> mNumBits v \<Longrightarrow> bv_subvec v start None = bv_subvec v start (Some (mNumBits v - start))"
  by (simp add: bv_subvec_def)

lemma bv_copy_ok:
  assumes "bv_ok v" "bv_ok src" "idx + len \<le> mNumBits src"
  shows "\<exists>w. bv_copy v src idx len = Inr w \<and> bv_ok w \<and> bv_bits w = take len (drop idx (bv_bits src))"
proof -
  have "idx + len \<le> 8 * length (bv_data src)" using assms(2,3) by (simp add: bv_ok_def)
  with bv_append_ok [OF bv_resize_ok(1) [OF assms(1)], of len idx "bv_data src" 0] bv_resize_bits [OF assms(1), of 0] assms(3)
  show ?thesis by (simp add: bv_copy_def data_bits_segment)
qed

lemma bv_pushBack_ok:
  assumes "bv_ok v"
  shows "\<exists>w. bv_pushBack v b = Inr w \<and> bv_ok w \<and> bv_bits w = bv_bits v @ [b \<noteq> 0]"
proof -
  define v1 where "v1 = (if mNumBits v = bv_capacity v then bv_reserve v (mNumBits v * 2) else v)"
  then have v1: "bv_ok v1" "bv_bits v1 = bv_bits v" "mNumBits v1 = mNumBits v"
    using assms by (simp_all add: bv_reserve_ok)
  let ?r = "bv_resize v1 (mNumBits v1 + 1)"
  have r: "bv_ok ?r" "mNumBits ?r = Suc (mNumBits v1)" "take (mNumBits v1) (bv_bits ?r) = bv_bits v1"
    using bv_resize_ok [OF v1(1)] bv_resize_grow [OF v1(1), of "mNumBits v1 + 1"] by simp_all
  have "(bv_bits ?r)[mNumBits v1 := b \<noteq> 0] = bv_bits v1 @ [b \<noteq> 0]"
    using r by (metis length_bits(2) lessI list_update_id take_Suc_conv_app_nth take_all_iff take_update_cancel length_list_update nth_list_update_eq order_refl)
  with bv_set_ok [OF r(1), of "mNumBits v1" b] r(2) v1(2) show ?thesis
    by (auto simp: bv_pushBack_def v1_def [symmetric] Let_def)
qed


subsection \<open>Whole-vector operations\<close>

lemma bv_assign_ok:
  assumes "bv_ok v" "bv_ok K"
  shows "bv_ok (bv_assign v K)" "bv_bits (bv_assign v K) = bv_bits K" "mNumBits (bv_assign v K) = mNumBits K"
proof -
  let ?r = "bv_reset v (mNumBits K)"
  have r: "bv_ok ?r" "mNumBits ?r = mNumBits K" using bv_reset_ok [OF assms(1)] by (simp_all add: bv_reset_def Let_def)
  have b: "sizeBlocks ?r = sizeBlocks K" by (simp add: sizeBlocks_def r(2))
  have len: "length (take (16 * sizeBlocks ?r) (bv_data K)) = 16 * sizeBlocks ?r"
    using sizeBlocks_le [OF assms(2)] by (simp add: b)
  note fits = sizeBlocks_le(2) [OF r(1)]
  show "bv_ok (bv_assign v K)" using r(1) len fits by (simp add: bv_assign_def bv_ok_def Let_def)
  show "mNumBits (bv_assign v K) = mNumBits K" by (simp add: bv_assign_def Let_def r(2))
  then show "bv_bits (bv_assign v K) = bv_bits K"
    using len fits sizeBlocks_ge [of K]
    by (intro bv_bits_eqI) (simp_all add: bv_assign_def Let_def data_bit_blit data_bit_take_drop b)
qed

text \<open>A bitwise operation on the blocks in use.\<close>

lemma bv_map2_ok:
  assumes ok: "bv_ok v" "bv_ok A" and eq: "mNumBits v = mNumBits A"
    and f: "\<And>x y j. j < 8 \<Longrightarrow> bit (f x y) j = g (bit x j) (bit y j)"
  shows "\<exists>w. bv_op f v A = Inr w \<and> bv_ok w \<and> bv_bits w = map2 g (bv_bits v) (bv_bits A)"
proof -
  let ?k = "16 * sizeBlocks v"
  let ?bs = "map2 f (take ?k (bv_data v)) (take ?k (bv_data A))"
  have k: "?k \<le> length (bv_data v)" "?k \<le> length (bv_data A)" "mNumBits v \<le> 8 * ?k"
    using sizeBlocks_le [OF ok(1)] sizeBlocks_le [OF ok(2)] sizeBlocks_ge [of v] eq by (simp_all add: sizeBlocks_def)
  have bs: "length ?bs = ?k" using k by simp
  have "data_bit ?bs i = g (data_bit (bv_data v) i) (data_bit (bv_data A) i)" if "i < 8 * ?k" for i
    using that k bit_less_bytes [OF that] by (simp add: data_bit_def f)
  then have "bv_bits (v\<lparr>bv_data := blit (bv_data v) 0 ?bs\<rparr>) = map2 g (bv_bits v) (bv_bits A)"
    using k bs eq by (intro bv_bits_eqI) (simp_all add: data_bit_blit)
  moreover have "bv_ok (v\<lparr>bv_data := blit (bv_data v) 0 ?bs\<rparr>)"
    using ok(1) k(1) bs by (simp add: bv_ok_def)
  ultimately show ?thesis using eq by (simp add: bv_op_def)
qed

lemma bv_op_err: "mNumBits v \<noteq> mNumBits A \<Longrightarrow> bv_op f v A = Inl (Runtime_error ''rt error at'')"
  by (simp add: bv_op_def)

lemma bv_ops_ok:
  assumes "bv_ok v" "bv_ok A" "mNumBits v = mNumBits A"
  shows "\<exists>w. bv_and_eq v A = Inr w \<and> bv_ok w \<and> bv_bits w = map2 (\<and>) (bv_bits v) (bv_bits A)"
    "\<exists>w. bv_or_eq v A = Inr w \<and> bv_ok w \<and> bv_bits w = map2 (\<or>) (bv_bits v) (bv_bits A)"
    "\<exists>w. bv_xor_eq v A = Inr w \<and> bv_ok w \<and> bv_bits w = map2 (\<noteq>) (bv_bits v) (bv_bits A)"
  unfolding bv_and_eq_def bv_or_eq_def bv_xor_eq_def
  by (rule bv_map2_ok [OF assms], simp add: bit_simps)+

lemma bv_xor_ok:
  "bv_ok v \<Longrightarrow> bv_ok A \<Longrightarrow> mNumBits v = mNumBits A \<Longrightarrow> \<exists>w. bv_xor v A = Inr w \<and> bv_ok w \<and> bv_bits w = map2 (\<noteq>) (bv_bits v) (bv_bits A)"
  unfolding bv_xor_def using bv_ops_ok(3) [of "bv_assign BitVector_empty v" A] by (simp add: bv_assign_ok)

lemma bv_and_or_ok:
  assumes "bv_ok v" "bv_ok A" "mNumBits v = mNumBits A"
  shows "\<exists>w. bv_and v A = Inr w \<and> bv_ok w \<and> bv_bits w = map2 (\<and>) (bv_bits v) (bv_bits A)"
    "\<exists>w. bv_or v A = Inr w \<and> bv_ok w \<and> bv_bits w = map2 (\<or>) (bv_bits v) (bv_bits A)"
  unfolding bv_and_def bv_or_def
  using bv_ops_ok(1,2) [of "bv_assign BitVector_empty v" A] assms by (simp_all add: bv_assign_ok)

lemma bv_not_ok: "bv_ok v \<Longrightarrow> bv_ok (bv_not v) \<and> bv_bits (bv_not v) = map Not (bv_bits v)"
proof -
  assume ok: "bv_ok v"
  let ?r = "bv_assign BitVector_empty v" and ?k = "16 * sizeBlocks v"
  note r = bv_assign_ok [OF BitVector_empty_ok(1) ok]
  have b: "sizeBlocks ?r = sizeBlocks v" by (simp add: sizeBlocks_def r(3))
  have k: "?k \<le> length (bv_data v)" "?k \<le> length (bv_data ?r)" "mNumBits v \<le> 8 * ?k"
    using sizeBlocks_le(2) [OF ok] sizeBlocks_le(2) [OF r(1)] sizeBlocks_ge [of v] by (simp_all add: b)
  have "data_bit (map (\<lambda>b. NOT b) (take ?k (bv_data v))) i = (\<not> data_bit (bv_data v) i)" if "i < 8 * ?k" for i
    using that k(1) bit_less_bytes [OF that] by (simp add: data_bit_def bit_simps)
  with k r show ?thesis
    by (auto simp: bv_not_def Let_def bv_ok_def data_bit_blit intro!: bv_bits_eqI)
qed

lemma sizeBytes_facts:
  assumes "bv_ok v"
  shows "sizeBytes v \<le> length (bv_data v)" "mNumBits v \<le> 8 * sizeBytes v" "8 * sizeBytes v < mNumBits v + 8"
proof -
  show "sizeBytes v \<le> length (bv_data v)" "mNumBits v \<le> 8 * sizeBytes v"
    using assms divCeil_bounds(1) [of 8 "mNumBits v"] divCeil_bounds(2) [of 8 "mNumBits v" "length (bv_data v)"]
    by (simp_all add: sizeBytes_def bv_ok_def)
  show "8 * sizeBytes v < mNumBits v + 8" by (simp add: sizeBytes_def divCeil_def)
qed

text \<open>\<^verbatim>\<open>equals\<close> compares the bits of two vectors of the same size, unless they are empty.\<close>

lemma data_bits_split: "data_bits d 0 (a + b) = data_bits d 0 a @ data_bits d a b"
  using upt_add_eq_append [of 0 a b] by (simp add: data_bits_def)

lemma take_bytes_eq_iff:
  assumes "n \<le> length d" "n \<le> length e"
  shows "take n d = take n e \<longleftrightarrow> data_bits d 0 (8 * n) = data_bits e 0 (8 * n)"
proof
  assume "take n d = take n e"
  then show "data_bits d 0 (8 * n) = data_bits e 0 (8 * n)"
    by (intro nth_equalityI) (simp_all, metis data_bit_take_drop(1))
next
  assume eq: "data_bits d 0 (8 * n) = data_bits e 0 (8 * n)"
  have "d ! i = e ! i" if "i < n" for i
  proof (rule bit_word_eqI)
    fix j assume "j < LENGTH(8)"
    with that have "8 * i + j < 8 * n" and j: "j < 8" by auto
    then have "data_bit d (8 * i + j) = data_bit e (8 * i + j)"
      using arg_cong [OF eq, of "\<lambda>bs. bs ! (8 * i + j)"] by simp
    with j show "bit (d ! i) j = bit (e ! i) j" by (simp add: data_bit_def)
  qed
  with assms show "take n d = take n e" by (intro nth_equalityI) simp_all
qed

lemma byte_mask_eq_iff: "r \<le> 8 \<Longrightarrow> x AND mask r = y AND mask r \<longleftrightarrow> (\<forall>j < r. bit x j = bit y j)" for x y :: byte
  unfolding bit_eq_iff [of "x AND mask r"] by (auto simp: bit_and_iff bit_mask_iff) (metis less_le_trans)+

lemma bv_equals_ok:
  assumes ok: "bv_ok v" "bv_ok rhs" and pos: "0 < mNumBits v"
  shows "bv_equals v rhs = Inr (bv_bits v = bv_bits rhs)"
proof (cases "mNumBits v = mNumBits rhs")
  case True
  define n where "n = sizeBytes v - 1"
  note sz = sizeBytes_facts [OF ok(1)] and sz' = sizeBytes_facts [OF ok(2)]
  have n: "sizeBytes v = Suc n" "sizeBytes rhs = Suc n"
    using pos sz(2) True by (auto simp: n_def sizeBytes_def)
  define r where "r = mNumBits v - 8 * n"
  have r: "mNumBits v = 8 * n + r" "0 < r" "r \<le> 8" using sz n pos by (auto simp: r_def)
  have rem: "(if mNumBits v mod 8 \<noteq> 0 then drop_bit (8 - mNumBits v mod 8) (- 1) else - 1) = (mask r :: byte)"
    using r by (cases "r = 8") (auto simp: mask_eq_exp_minus_1)
  have last: "(\<forall>j < r. bit (bv_data v ! n) j = bit (bv_data rhs ! n) j) \<longleftrightarrow> data_bits (bv_data v) (8 * n) r = data_bits (bv_data rhs) (8 * n) r"
    using r(3) by (auto simp: list_eq_iff_nth_eq data_bit_def)
  have "bv_bits v = bv_bits rhs \<longleftrightarrow> take n (bv_data v) = take n (bv_data rhs) \<and>
      data_bits (bv_data v) (8 * n) r = data_bits (bv_data rhs) (8 * n) r"
    unfolding bv_bits_def True [symmetric] unfolding r(1) data_bits_split using n sz(1) sz'(1) by (simp add: take_bytes_eq_iff)
  with True n show ?thesis
    unfolding bv_equals_def Let_def rem by (simp add: byte_mask_eq_iff [OF r(3)] last)
next
  case False
  then have "bv_bits v \<noteq> bv_bits rhs" by (metis length_bits(2))
  with False show ?thesis by (simp add: bv_equals_def)
qed

lemma bv_equals_empty: "mNumBits v = 0 \<Longrightarrow> mNumBits rhs = 0 \<Longrightarrow> bv_equals v rhs = Inl (Undefined ''lastByte wraps around'')"
  by (simp add: bv_equals_def sizeBytes_def divCeil_def)

lemma bv_resize_val_ok:
  assumes ok: "bv_ok v" and grow: "mNumBits v \<le> n"
  shows "\<exists>w. bv_resize_val v n val = Inr w \<and> bv_ok w \<and> bv_bits w = bv_bits v @ replicate (n - mNumBits v) (val \<noteq> 0)"
proof -
  let ?m = "mNumBits v" and ?r = "bv_resize v n" and ?b = "if val \<noteq> 0 then - 1 else 0 :: byte"
  let ?q = "?m div 8" and ?mask = "push_bit (?m mod 8) (- 1) :: byte"
  note r = bv_resize_ok [OF ok, where n = n]
  note sz = sizeBytes_facts [OF r(1)]
  define d where "d = (if ?m mod 8 \<noteq> 0 then (bv_data ?r)[?q := (bv_data ?r ! ?q AND NOT ?mask) OR (?b AND ?mask)] else bv_data ?r)"
  define i where "i = (if ?m mod 8 \<noteq> 0 then ?q + 1 else ?q)"
  have ld: "length d = length (bv_data ?r)" by (simp add: d_def)
  have i: "i \<le> sizeBytes ?r" "8 * i < ?m + 8" "?m \<le> 8 * i"
  proof -
    obtain q t where q: "?q = q" "?m mod 8 = t" "?m = 8 * q + t" "t < 8"
      by (metis mod_less_divisor mult_div_mod_eq zero_less_numeral)
    have "8 * q + t \<le> 8 * sizeBytes ?r" using grow sz(2) r(2) q(3) by linarith
    then show "i \<le> sizeBytes ?r" "8 * i < ?m + 8" "?m \<le> 8 * i"
      unfolding i_def q(1,2) q(3) using q(4) by (auto split: if_splits)
  qed
  let ?bs = "replicate (sizeBytes ?r - i) ?b" and ?w = "?r\<lparr>bv_data := blit d i (replicate (sizeBytes ?r - i) ?b)\<rparr>"
  have fits: "i + length ?bs \<le> length d" using i(1) sz(1) ld by simp
  have dbit: "data_bit d j = (if ?m \<le> j then val \<noteq> 0 else data_bit (bv_data ?r) j)" if "j < 8 * i" "j < 8 * length d" for j
  proof (cases "j div 8 = ?q \<and> ?m mod 8 \<noteq> 0")
    case True
    moreover from True have "?m \<le> j \<longleftrightarrow> ?m mod 8 \<le> j mod 8" by (metis mult_div_mod_eq nat_add_left_cancel_le)
    ultimately show ?thesis using that by (auto simp: d_def data_bit_def bit_simps bit_less_bytes)
  next
    case False
    with that(1) have "j < ?m" by (auto simp: i_def split: if_splits)
    moreover from False have "d ! (j div 8) = bv_data ?r ! (j div 8)" by (auto simp: d_def)
    ultimately show ?thesis by (simp add: data_bit_def)
  qed
  have "bv_bits ?w = bv_bits v @ replicate (n - ?m) (val \<noteq> 0)"
  proof (rule bv_bits_eqI)
    fix j assume "j < mNumBits ?w"
    then have j: "j < n" "j < 8 * length d" "j < 8 * (i + length ?bs)"
      using r(2) sz ld i(1) by auto
    show "data_bit (bv_data ?w) j = (bv_bits v @ replicate (n - ?m) (val \<noteq> 0)) ! j"
    proof (cases "8 * i \<le> j")
      case True
      with j fits i(3) show ?thesis by (auto simp: data_bit_blit nth_append)
    next
      case False
      with j fits show ?thesis by (auto simp: data_bit_blit dbit nth_append r(3))
    qed
  qed (use grow r(2) in simp)
  moreover have "bv_ok ?w" using r(1) fits ld by (simp add: bv_ok_def)
  moreover have "bv_resize_val v n val = Inr ?w"
    using i(1) by (cases "?m mod 8 = 0") (simp_all add: bv_resize_val_def Let_def d_def i_def sizeBytes_def)
  ultimately show ?thesis by blast
qed


subsection \<open>Weight\<close>

definition weight :: "bool list \<Rightarrow> nat" where
  "weight bs = length (filter id bs)"

lemma weight_simps [simp]: "weight [] = 0" "weight (b # bs) = (if b then 1 else 0) + weight bs" "weight (as @ bs) = weight as + weight bs"
  by (simp_all add: weight_def)

lemma weight_card: "weight bs = card {i. i < length bs \<and> bs ! i}"
  by (simp add: weight_def length_filter_conv_card)

lemma weight_update: "i < length bs \<Longrightarrow> weight (bs[i := b]) + (if bs ! i then 1 else 0) = weight bs + (if b then 1 else 0)"
proof (induction bs arbitrary: i)
  case (Cons c bs)
  then show ?case by (cases i) auto
qed simp

text \<open>\<^verbatim>\<open>b & (b - 1)\<close> clears the lowest one bit.\<close>

lemma clear_lowest:
  fixes b :: u8
  assumes "b \<noteq> 0"
  obtains l where "bit b l" "b AND (b - 1) = unset_bit l b"
proof -
  define l where "l = (LEAST n. bit b n)"
  from assms obtain n where "bit b n" by (auto simp: bit_eq_iff)
  then have l: "bit b l" unfolding l_def by (rule LeastI)
  have low: "\<not> bit b j" if "j < l" for j using not_less_Least [of j "bit b"] that by (simp add: l_def)
  have l8: "l < 8" using l bit_imp_le_length [of b l] by simp
  let ?u = "unset_bit l b"
  have d1: "?u AND 2 ^ l = 0" and d2: "?u AND mask l = 0"
    using low by (auto simp: bit_eq_iff bit_simps)
  have "b = ?u OR 2 ^ l" by (rule bit_word_eqI) (auto simp: bit_simps l)
  then have "b - 1 = ?u + mask l"
    using disjunctive_add_eq_or [OF d1] by (simp add: mask_eq_exp_minus_1 algebra_simps)
  then have "b - 1 = ?u OR mask l" by (simp add: disjunctive_add_eq_or [OF d2])
  moreover have "b AND (?u OR mask l) = ?u" using low by (auto simp: bit_eq_iff bit_simps)
  ultimately have "b AND (b - 1) = ?u" by simp
  with l show thesis by (rule that)
qed

lemma count_ones_card: "count_ones b = card {j. bit b j}"
proof (induction b rule: count_ones.induct)
  case (1 b)
  show ?case
  proof (cases "b = 0")
    case True
    then show ?thesis by (simp add: count_ones.simps [of 0])
  next
    case False
    then obtain l where l: "bit b l" "b AND (b - 1) = unset_bit l b" by (rule clear_lowest)
    have "{j. bit (unset_bit l b) j} = {j. bit b j} - {l}" by (auto simp: bit_simps)
    moreover have "finite {j. bit b j}" by (rule finite_subset [of _ "{..<8}"]) (auto dest: bit_imp_le_length)
    moreover have "l \<in> {j. bit b j}" using l(1) by simp
    ultimately have "Suc (card {j. bit (unset_bit l b) j}) = card {j. bit b j}"
      using card_Suc_Diff1 [of "{j. bit b j}" l] by simp
    with 1 [OF False] l(2) False show ?thesis by (subst count_ones.simps) simp
  qed
qed

lemma weight_byte: "weight (data_bits d (8 * i) 8) = count_ones (d ! i)"
proof -
  have "{j. j < 8 \<and> bit (d ! i) j} = {j. bit (d ! i) j}"
    by (auto dest: bit_imp_le_length)
  moreover have "{j. j < 8 \<and> data_bits d (8 * i) 8 ! j} = {j. j < 8 \<and> bit (d ! i) j}"
    by (auto simp: data_bit_def)
  ultimately show ?thesis by (simp add: weight_card count_ones_card)
qed

lemma weight_bytes: "weight (data_bits d 0 (8 * e)) = sum_list (map (\<lambda>i. count_ones (d ! i)) [0..<e])"
proof (induction e)
  case (Suc e)
  have "data_bits d 0 (8 * Suc e) = data_bits d 0 (8 * e) @ data_bits d (8 * e) 8"
    using data_bits_split [of d "8 * e" 8] by (simp add: add.commute)
  with Suc show ?case by (simp add: weight_byte)
qed (simp add: data_bits_def)

lemma weight_tail: "weight (data_bits d off len) = sum_list (map (\<lambda>i. unat (BitReference_get (d ! (i div 8)) (i mod 8))) [off..<off + len])"
  by (induction len) (simp_all add: data_bits_def data_bit_get)

lemma bv_hammingWeight_eq: "bv_ok v \<Longrightarrow> bv_hammingWeight v = weight (bv_bits v)"
proof -
  assume ok: "bv_ok v"
  define e where "e = sizeBytes v - (if mNumBits v mod 8 \<noteq> 0 then 1 else 0)"
  have "8 * e \<le> mNumBits v"
  proof (cases "mNumBits v mod 8 = 0")
    case True
    then obtain q where "mNumBits v = 8 * q" by auto
    then show ?thesis by (simp add: e_def sizeBytes_def divCeil_def)
  next
    case False
    with sizeBytes_facts(3) [OF ok] show ?thesis by (simp add: e_def)
  qed
  then obtain r where r: "mNumBits v = 8 * e + r" using le_Suc_ex by blast
  have "bv_hammingWeight v = weight (data_bits (bv_data v) 0 (8 * e)) + weight (data_bits (bv_data v) (8 * e) r)"
    unfolding bv_hammingWeight_def Let_def e_def [symmetric] weight_bytes weight_tail [of _ "8 * e" r] r [symmetric] ..
  then show ?thesis by (simp add: bv_bits_def r data_bits_split)
qed

subsection \<open>Strings, iterators and random vectors\<close>

lemma bv_print_eq: "bv_print v = map (\<lambda>b. if b then CHR ''1'' else CHR ''0'') (bv_bits v)"
  by (rule nth_equalityI) (auto simp: bv_print_def data_bit_get char_of_def bit_0)

lemma bv_fromString_ok:
  assumes "bv_ok v" "ndebug \<or> set data \<subseteq> {CHR ''0'', CHR ''1''}"
  shows "\<exists>w. bv_fromString ndebug v data = Inr w \<and> bv_ok w \<and> bv_bits w = map (\<lambda>c. c \<noteq> CHR ''0'') data"
proof -
  let ?r = "bv_resize v (length data)" and ?dig = "\<lambda>c. of_nat (of_char c) - 48 :: u8"
  have put: "put_all (\<lambda>v i b. if \<not> ndebug \<and> b > 1 then Inl (Runtime_error '''') else bv_set v i b) u i (map ?dig cs)
      = put_all bv_set u i (map ?dig cs)" if "ndebug \<or> set cs \<subseteq> {CHR ''0'', CHR ''1''}" for u i cs
    using that
  proof (induction cs arbitrary: u i)
    case (Cons c cs)
    then have "\<not> (\<not> ndebug \<and> ?dig c > 1)" by auto
    moreover have "ndebug \<or> set cs \<subseteq> {CHR ''0'', CHR ''1''}" using Cons.prems by auto
    ultimately show ?case
      using Cons.IH by (cases "bv_set u i (?dig c)"; cases ndebug) simp_all
  qed simp
  have digit: "(of_nat (of_char c) :: u8) = 48 \<longleftrightarrow> c = CHR ''0''" for c
  proof -
    have c: "(of_char c :: nat) < 256" by (metis of_char_mod_256 mod_less_divisor zero_less_numeral)
    have "(of_nat (of_char c) :: u8) = 48 \<longleftrightarrow> unat (of_nat (of_char c) :: u8) = unat (48 :: u8)"
      unfolding word_unat_eq_iff [symmetric] ..
    also have "\<dots> \<longleftrightarrow> (of_char c :: nat) = of_char (CHR ''0'')" using c by (simp add: unat_of_nat)
    finally show ?thesis by (simp only: of_char_eq_iff simp_thms)
  qed
  note r = bv_resize_ok [OF assms(1), where n = "length data"]
  from bv.put_all_ok [OF r(1), of 0 "map ?dig data"] r(2) show ?thesis
    by (auto simp: bv_fromString_def Let_def put [OF assms(2)] digit comp_def)
qed

lemma iterator_pos: "(it_inc ^^ n) (BitIterator_at 0 i) = BitIterator_at 0 (i + n)"
proof (induction n)
  case (Suc n)
  have "it_inc (BitIterator_at 0 k) = BitIterator_at 0 (Suc k)" for k
    by (auto simp: it_inc_def BitIterator_at_def div_Suc mod_Suc)
  with Suc show ?case by simp
qed simp

lemma iterator_end: "bv_end v = (it_inc ^^ mNumBits v) (bv_begin v)"
  unfolding bv_begin_def iterator_pos by (simp add: bv_end_def BitIterator_at_def)

lemma iterator_dec: "it_shift it < 8 \<Longrightarrow> it_dec (it_inc it) = it"
  by (auto simp: it_dec_def it_inc_def)

lemma iterate_bits: "map (\<lambda>n. it_deref (bv_data v) ((it_inc ^^ n) (bv_begin v)) \<noteq> 0) [0..<mNumBits v] = bv_bits v"
  unfolding bv_begin_def iterator_pos by (rule nth_equalityI) (simp_all add: it_deref_def BitIterator_at_def data_bit_get)

lemma bv_randomize_ok:
  assumes "bv_ok v" "prng_at seed p n"
  shows "\<exists>w q. bv_randomize v p = Some (Inr (w, q)) \<and> bv_ok w \<and> prng_at seed q (n + 16 * sizeBlocks v)
    \<and> bv_bits w = map (\<lambda>i. bit (aes_stream seed (n + i div 8)) (i mod 8)) [0..<mNumBits v]"
proof -
  let ?k = "16 * sizeBlocks v" and ?bs = "segment (aes_stream seed) n (16 * sizeBlocks v)"
  obtain q where q: "implGet p ?k = Some (Inr (?bs, q))" "prng_at seed q (n + ?k)"
    using implGet_at [OF assms(2)] by blast
  have k: "?k \<le> length (bv_data v)" "mNumBits v \<le> 8 * ?k" using sizeBlocks_le(2) [OF assms(1)] sizeBlocks_ge [of v] by simp_all
  have "data_bit ?bs i = bit (aes_stream seed (n + i div 8)) (i mod 8)" if "i < 8 * ?k" for i
    using bit_less_bytes [OF that] by (simp add: data_bit_def segment_def)
  then have "bv_bits (v\<lparr>bv_data := blit (bv_data v) 0 ?bs\<rparr>) = map (\<lambda>i. bit (aes_stream seed (n + i div 8)) (i mod 8)) [0..<mNumBits v]"
    using k by (intro bv_bits_eqI) (simp_all add: data_bit_blit)
  moreover have "bv_ok (v\<lparr>bv_data := blit (bv_data v) 0 ?bs\<rparr>)" using assms(1) k(1) by (simp add: bv_ok_def)
  ultimately show ?thesis using q by (simp add: bv_randomize_def get_array_def mult.commute)
qed


subsection \<open>\<^verbatim>\<open>nChoosek\<close>\<close>

lemma set_down_ok:
  assumes "bv_ok v" "i \<le> mNumBits v" "0 < lo"
  shows "\<exists>w. set_down v lo i = Inr w \<and> bv_ok w \<and> mNumBits w = mNumBits v \<and>
    (\<forall>j < mNumBits v. bv_bits w ! j \<longleftrightarrow> bv_bits v ! j \<or> lo \<le> j \<and> j < i)"
  using assms
proof (induction i arbitrary: v)
  case (Suc i)
  show ?case
  proof (cases "i < lo")
    case False
    obtain w where w: "bv_set v i 1 = Inr w" "bv_ok w" "bv_bits w = (bv_bits v)[i := True]"
      using bv_set_ok [of v i 1] Suc.prems by auto
    have n: "mNumBits w = mNumBits v" using arg_cong [OF w(3), of length] by simp
    obtain u where u: "set_down w lo i = Inr u" "bv_ok u" "mNumBits u = mNumBits w"
      "\<forall>j < mNumBits w. bv_bits u ! j \<longleftrightarrow> bv_bits w ! j \<or> lo \<le> j \<and> j < i"
      using Suc.IH [of w] w(2) n Suc.prems by auto
    have "bv_bits u ! j \<longleftrightarrow> bv_bits v ! j \<or> lo \<le> j \<and> j < Suc i" if "j < mNumBits v" for j
      using u(4) n that w(3) False Suc.prems by (cases "j = i") (auto simp: nth_list_update)
    with u w(1) n False show ?thesis by auto
  qed (use Suc.prems in auto)
qed auto

lemma set_down_wraps:
  "bv_ok v \<Longrightarrow> i \<le> mNumBits v \<Longrightarrow> set_down v 0 i = Inl (Runtime_error ''rt error at'')"
proof (induction i arbitrary: v)
  case (Suc i)
  then obtain w where w: "bv_set v i 1 = Inr w" "bv_ok w" "bv_bits w = (bv_bits v)[i := True]"
    using bv_set_ok [of v i 1] by auto
  have "mNumBits w = mNumBits v" using arg_cong [OF w(3), of length] by simp
  with Suc w show ?case by simp
qed simp

lemma get_u64_at: "prng_at seed p n \<Longrightarrow> \<exists>x q. get_u64 p = Some (Inr (x, q)) \<and> prng_at seed q (n + 8)"
  using get_one_at [of seed p n 8] by (auto simp: get_u64_def)

text \<open>
  The sampling loop moves ones from below \<open>k\<close> to places at or above \<open>k\<close> that hold zero: the weight does not change,
  and a one at or above \<open>k\<close> stays.
\<close>

lemma reservoir_ok:
  assumes "bv_ok v" "mNumBits v = n" "k \<le> i" "0 < i" "i \<le> n" "prng_at seed p pos"
    "\<And>j. i \<le> j \<Longrightarrow> j < n \<Longrightarrow> \<not> bv_bits v ! j"
  shows "\<exists>w q pos'. reservoir v k [i..<n] p = Some (Inr (w, q)) \<and> bv_ok w \<and> mNumBits w = n \<and> prng_at seed q pos'
    \<and> weight (bv_bits w) = weight (bv_bits v) \<and> (\<forall>j. k \<le> j \<longrightarrow> j < i \<longrightarrow> bv_bits v ! j \<longrightarrow> bv_bits w ! j)
    \<and> (i = k \<longrightarrow> k < n \<longrightarrow> (\<forall>j < k. bv_bits v ! j) \<longrightarrow> bv_bits w ! k)"
  using assms
proof (induction "n - i" arbitrary: v i p pos)
  case 0
  then show ?case by auto
next
  case (Suc m)
  then have i: "i < n" and m: "m = n - Suc i" by auto
  obtain x q where x: "get_u64 p = Some (Inr (x, q))" "prng_at seed q (pos + 8)"
    using get_u64_at Suc.prems(6) by blast
  define j where "j = unat x mod i"
  have j: "j < i" using Suc.prems(4) by (simp add: j_def)
  define bs where "bs = (if j < k then (bv_bits v)[j := False, i := bv_bits v ! j] else bv_bits v)"
  have "\<exists>w. (if j < k then res_bind (bv_get v j) (\<lambda>b. res_bind (bv_set v j 0) (\<lambda>v. bv_set v i b)) else Inr v) = Inr w
      \<and> bv_ok w \<and> bv_bits w = bs"
  proof (cases "j < k")
    case True
    let ?b = "if bv_bits v ! j then 1 else 0 :: u8"
    obtain u where u: "bv_set v j 0 = Inr u" "bv_ok u" "bv_bits u = (bv_bits v)[j := False]"
      using bv_set_ok [of v j 0] Suc.prems i j by auto
    have nu: "mNumBits u = n" using arg_cong [OF u(3), of length] Suc.prems(2) by simp
    obtain w where "bv_set u i ?b = Inr w" "bv_ok w" "bv_bits w = (bv_bits u)[i := bv_bits v ! j]"
      using bv_set_ok [OF u(2), of i ?b] nu i by auto
    with True u i j Suc.prems(2) show ?thesis by (auto simp: bv_get_eq bs_def)
  qed (use Suc.prems in \<open>simp add: bs_def\<close>)
  then obtain w where w: "(if j < k then res_bind (bv_get v j) (\<lambda>b. res_bind (bv_set v j 0) (\<lambda>v. bv_set v i b)) else Inr v) = Inr w"
    "bv_ok w" "bv_bits w = bs" by blast
  have nw: "mNumBits w = n" using arg_cong [OF w(3), of length] Suc.prems(2) by (simp add: bs_def split: if_splits)
  have wt: "weight bs = weight (bv_bits v)"
  proof (cases "j < k")
    case True
    have "weight ((bv_bits v)[j := False, i := bv_bits v ! j]) = weight ((bv_bits v)[j := False]) + (if bv_bits v ! j then 1 else 0)"
      using weight_update [of i "(bv_bits v)[j := False]" "bv_bits v ! j"] i j Suc.prems(2,7) by auto
    with weight_update [of j "bv_bits v" False] i j Suc.prems(2) True show ?thesis by (simp add: bs_def)
  qed (simp add: bs_def)
  have fresh: "\<not> bv_bits w ! l" if "Suc i \<le> l" "l < n" for l
    using that Suc.prems(7) j by (simp add: w(3) bs_def)
  have keep: "bv_bits w ! l" if "k \<le> l" "l < i" "bv_bits v ! l" for l
    using that by (simp add: w(3) bs_def nth_list_update) 
  obtain w' q' pos' where w': "reservoir w k [Suc i..<n] q = Some (Inr (w', q'))" "bv_ok w'" "mNumBits w' = n"
    "prng_at seed q' pos'" "weight (bv_bits w') = weight (bv_bits w)"
    "\<forall>l. k \<le> l \<longrightarrow> l < Suc i \<longrightarrow> bv_bits w ! l \<longrightarrow> bv_bits w' ! l"
    using Suc.hyps(1) [OF m w(2) nw, of q "pos + 8"] Suc.prems(3) i x(2) fresh by auto
  have "reservoir v k [i..<n] p = reservoir w k [Suc i..<n] q"
    using x(1) w(1) i by (simp add: upt_conv_Cons [OF i] j_def [symmetric] split: if_splits)
  moreover have "bv_bits w ! i" if "i = k" "\<forall>j < k. bv_bits v ! j"
    using that i j Suc.prems(2) by (simp add: w(3) bs_def)
  ultimately show ?case using w' wt w(3) keep Suc.prems(3) by auto
qed

text \<open>The first step of the loop draws a position below \<open>k\<close> in every case, so a one moves to position \<open>k\<close>.\<close>

lemma nChoosek_start:
  assumes "bv_ok v" "k \<le> n" "4 \<le> k"
  shows "\<exists>w. bv_ok w \<and> mNumBits w = n \<and> (\<forall>j < n. bv_bits w ! j \<longleftrightarrow> j < 8 * (k div 8) \<or> ones_from k \<le> j \<and> j < k)
    \<and> (\<forall>p. bv_nChoosek v n k p = reservoir w k [k..<n] p)"
proof -
  let ?r = "bv_reset v n" and ?bs = "replicate (k div 8) (- 1) :: byte list"
  let ?m = "?r\<lparr>bv_data := blit (bv_data ?r) 0 ?bs\<rparr>"
  have r: "bv_ok ?r" "bv_bits ?r = replicate n False" using bv_reset_ok [OF assms(1)] by simp_all
  have nr: "mNumBits ?r = n" using arg_cong [OF r(2), of length] by simp
  have cap: "n \<le> 8 * length (bv_data ?r)" using r(1) nr by (simp add: bv_ok_def)
  have le: "k div 8 \<le> length (bv_data ?r)" using cap assms(2) by linarith
  have m: "bv_ok ?m" "mNumBits ?m = n" using r(1) nr le by (simp_all add: bv_ok_def)
  have zero: "\<not> data_bit (bv_data ?r) j" if "j < n" for j
    using arg_cong [OF r(2), of "\<lambda>bs. bs ! j"] that nr by simp
  have mb: "bv_bits ?m ! j \<longleftrightarrow> j < 8 * (k div 8)" if "j < n" for j
    using that m(2) cap le zero [OF that] by (auto simp: data_bit_blit nr)
  have "0 < ones_from k" using assms(3) mod_less_divisor [of 4 k] by (simp add: ones_from_def del: mod_less_divisor)
  from set_down_ok [OF m(1) _ this, of k] m(2) assms(2) obtain w where
    w: "set_down ?m (ones_from k) k = Inr w" "bv_ok w" "mNumBits w = n"
      "\<forall>j < n. bv_bits w ! j \<longleftrightarrow> bv_bits ?m ! j \<or> ones_from k \<le> j \<and> j < k" by auto
  have "bv_nChoosek v n k p = reservoir w k [k..<n] p" for p
    using w(1) le by (simp add: bv_nChoosek_def Let_def)
  with w mb show ?thesis by auto
qed

lemma bv_nChoosek_ok:
  assumes "bv_ok v" "k \<le> n" "4 \<le> k" "prng_at seed p pos"
  shows "\<exists>w q pos'. bv_nChoosek v n k p = Some (Inr (w, q)) \<and> bv_ok w \<and> mNumBits w = n \<and> prng_at seed q pos'
    \<and> weight (bv_bits w) = (if k mod 8 < 4 then k else k - 4) \<and> (k < n \<longrightarrow> k mod 8 < 4 \<longrightarrow> bv_bits w ! k)"
proof -
  from nChoosek_start [OF assms(1-3)] obtain u where u: "bv_ok u" "mNumBits u = n"
    "\<forall>j < n. bv_bits u ! j \<longleftrightarrow> j < 8 * (k div 8) \<or> ones_from k \<le> j \<and> j < k"
    "\<forall>p. bv_nChoosek v n k p = reservoir u k [k..<n] p" by blast
  obtain q t where k: "k = 8 * q + t" "t < 8" "k div 8 = q" "k mod 8 = t"
    by (metis mod_less_divisor mult_div_mod_eq zero_less_numeral)
  have "k mod 4 = (if t < 4 then t else t - 4)"
    using k(2) unfolding k(1) by presburger
  then have from_k: "ones_from k = (if t < 4 then 8 * q else 8 * q + 4)"
    using k(1,2) by (auto simp: ones_from_def)
  have "{j. j < n \<and> bv_bits u ! j} = (if t < 4 then {..<k} else {..<8 * q} \<union> {8 * q + 4..<k})"
    using u(3) assms(2) k(1,3) from_k by auto
  moreover have "card ({..<8 * q} \<union> {8 * q + 4..<k}) = 8 * q + (k - (8 * q + 4))"
    by (subst card_Un_disjoint) auto
  ultimately have wt: "weight (bv_bits u) = (if t < 4 then k else k - 4)"
    using u(2) k(1) by (simp add: weight_card)
  have full: "\<forall>j < k. bv_bits u ! j" if "t < 4" using u(3) assms(2) k(1,3) from_k that by auto
  have "\<not> bv_bits u ! j" if "k \<le> j" "j < n" for j using u(3) that k(1,3) by auto
  moreover have "0 < k" using assms(3) by simp
  ultimately obtain w r pos' where w: "reservoir u k [k..<n] p = Some (Inr (w, r))" "bv_ok w" "mNumBits w = n" "prng_at seed r pos'"
    "weight (bv_bits w) = weight (bv_bits u)" "k < n \<longrightarrow> (\<forall>j < k. bv_bits u ! j) \<longrightarrow> bv_bits w ! k"
    using reservoir_ok [OF u(1,2) order_refl _ assms(2,4)] by blast
  then show ?thesis
    using u(4) wt full by (intro exI [of _ w] exI [of _ r] exI [of _ pos']) (simp add: k(4))
qed

lemma bv_nChoosek_small:
  assumes "bv_ok v" "k \<le> n" "k < 4"
  shows "bv_nChoosek v n k p = Some (Inl (Runtime_error ''rt error at''))"
proof -
  let ?r = "bv_reset v n"
  have r: "bv_ok ?r" "bv_bits ?r = replicate n False" using bv_reset_ok [OF assms(1)] by simp_all
  have nr: "mNumBits ?r = n" using arg_cong [OF r(2), of length] by simp
  have m: "?r\<lparr>bv_data := blit (bv_data ?r) 0 []\<rparr> = ?r" by (simp add: blit_def)
  have z: "k div 8 = 0" "ones_from k = 0" using assms(3) by (simp_all add: ones_from_def)
  show ?thesis
    using set_down_wraps [OF r(1), of k] nr assms(2) by (simp add: bv_nChoosek_def Let_def z m)
qed

end
