(* ===== verification/SimplestOt.thy ===== *)
theory SimplestOt
  imports BitVec Coro OtManager
begin

text \<open>
  \<^verbatim>\<open>libOTe/Base/SimplestOT.cpp\<close> (with the point and scalar types of \<^verbatim>\<open>SodiumCurve\<close>), the random transfer that the
  transfer manager runs, and the tasks \<^verbatim>\<open>ot_send\<close> and \<^verbatim>\<open>ot_receive\<close> of \<^verbatim>\<open>ot_manager.hpp\<close> on top of it, all as
  coroutines. The functions of the sodium library and the Blake2 hash are a parameter; \<open>sodium_ok\<close> is what their
  documentation promises. A message is delivered to the read of its size. The main lemmas: sender and receiver end with
  pads and blocks that match the choices, and with the tasks on top the receiver ends with the chosen messages.
\<close>

section \<open>The code\<close>

text \<open>
  The functions of the library. A point and a scalar are 32 bytes; \<open>None\<close> is a negative return value, after which the
  result is not written. \<open>overread\<close> are the 32 bytes behind a scalar in memory and \<open>uninit\<close> is the content of an
  uninitialised point.
\<close>

record crypto_env =
  scalar_reduce :: "byte list \<Rightarrow> byte list"
  ristretto_base :: "byte list \<Rightarrow> byte list option"
  ristretto_mult :: "byte list \<Rightarrow> byte list \<Rightarrow> byte list option"
  ristretto_add :: "byte list \<Rightarrow> byte list \<Rightarrow> byte list option"
  ristretto_sub :: "byte list \<Rightarrow> byte list \<Rightarrow> byte list option"
  blake2 :: "nat \<Rightarrow> byte list \<Rightarrow> byte list"
  overread :: "byte list"
  uninit :: "byte list"

definition throwing :: "'a option \<Rightarrow> 'a result" where
  "throwing x = (case x of None \<Rightarrow> Inl (Runtime_error ''LOCATION'') | Some y \<Rightarrow> Inr y)"

definition mulGenerator :: "crypto_env \<Rightarrow> byte list \<Rightarrow> byte list result" where
  "mulGenerator E n = throwing (ristretto_base E n)"

definition Rist_mult :: "crypto_env \<Rightarrow> byte list \<Rightarrow> byte list \<Rightarrow> byte list result" where
  "Rist_mult E a b = throwing (ristretto_mult E a b)"

text \<open>Addition and subtraction do not look at the return value.\<close>

definition Rist_add :: "crypto_env \<Rightarrow> byte list \<Rightarrow> byte list \<Rightarrow> byte list" where
  "Rist_add E a b = (case ristretto_add E a b of None \<Rightarrow> uninit E | Some p \<Rightarrow> p)"

definition Rist_sub :: "crypto_env \<Rightarrow> byte list \<Rightarrow> byte list \<Rightarrow> byte list" where
  "Rist_sub E a b = (case ristretto_sub E a b of None \<Rightarrow> uninit E | Some p \<Rightarrow> p)"

text \<open>
  \<^verbatim>\<open>Scalar25519(prng, false)\<close> and \<^verbatim>\<open>Prime25519(prng)\<close>. The reduction takes 64 bytes and gets a pointer to 32.
\<close>

definition Scalar25519_mask :: "byte list \<Rightarrow> byte list" where
  "Scalar25519_mask d = d[31 := d ! 31 AND 0x7f]"

definition Prime25519_random :: "crypto_env \<Rightarrow> PRNG \<Rightarrow> (byte list \<times> PRNG) result option" where
  "Prime25519_random E prng = map_get (\<lambda>d. scalar_reduce E (Scalar25519_mask d @ overread E)) (get_array 1 prng 32)"

text \<open>The result of a read of the generator as a coroutine; a read that does not return has no result.\<close>

definition co_prng :: "'a result option \<Rightarrow> 'a coro" where
  "co_prng x = (case x of None \<Rightarrow> Throw (Undefined ''no result'') | Some r \<Rightarrow> lift_result r)"

text \<open>\<^verbatim>\<open>RandomOracle ro(sizeof(block))\<close> over a point, the index and, for uniform transfers, the seed.\<close>

definition ot_key :: "crypto_env \<Rightarrow> bool \<Rightarrow> byte list \<Rightarrow> byte list \<Rightarrow> nat \<Rightarrow> m128" where
  "ot_key E mUniformOTs seed B i =
     of_bytes (blake2 E 16 (B @ to_bytes (of_nat i :: u64) @ (if mUniformOTs then seed else [])))"

definition HashSize :: nat where "HashSize = 20"
definition Point_size :: nat where "Point_size = 32"

text \<open>The receiver's first loop: the scalars \<open>b\<close> and the buffer of points.\<close>

fun receive_points :: "crypto_env \<Rightarrow> BitVector \<Rightarrow> byte list \<Rightarrow> nat list \<Rightarrow> PRNG \<Rightarrow> ((byte list list \<times> byte list) \<times> PRNG) coro" where
  "receive_points E choices A [] prng = Return (([], []), prng)"
| "receive_points E choices A (i # is) prng =
     bind (co_prng (Prime25519_random E prng)) (\<lambda>(b, prng).
     bind (lift_result (mulGenerator E b)) (\<lambda>B0.
     let B1 = Rist_add E A B0 in
     bind (lift_result (bv_get choices i)) (\<lambda>c.
     bind (receive_points E choices A is prng) (\<lambda>((bs, buff), prng).
     Return ((b # bs, (if c \<noteq> 0 then B1 else B0) @ buff), prng)))))"

fun ot_receive_keys :: "crypto_env \<Rightarrow> bool \<Rightarrow> byte list \<Rightarrow> byte list \<Rightarrow> nat \<Rightarrow> byte list list \<Rightarrow> m128 list result" where
  "ot_receive_keys E unif seed A i [] = Inr []"
| "ot_receive_keys E unif seed A i (b # bs) =
     res_bind (Rist_mult E b A) (\<lambda>B0. res_bind (ot_receive_keys E unif seed A (i + 1) bs) (\<lambda>ms.
       Inr (ot_key E unif seed B0 i # ms)))"

definition SimplestOT_receive :: "crypto_env \<Rightarrow> bool \<Rightarrow> BitVector \<Rightarrow> nat \<Rightarrow> PRNG \<Rightarrow> role \<Rightarrow> (m128 list \<times> PRNG) coro" where
  "SimplestOT_receive E mUniformOTs choices n prng chl =
     Await [Recv chl (RRead (Point_size + (if mUniformOTs then HashSize else 0)) RDone)] (\<lambda>r.
     let buff = r ! 0;
         A = take Point_size buff;
         comm = take HashSize (drop Point_size buff)
     in bind (receive_points E choices A [0..<n] prng) (\<lambda>((bs, buff), prng).
     Await [Send chl [buff]] (\<lambda>_.
     bind (if mUniformOTs then
             Await [Recv chl (RRead 16 RDone)] (\<lambda>r.
               let seed = r ! 0; comm2 = blake2 E HashSize seed
               in if comm \<noteq> comm2 then Throw (Runtime_error ''bad decommitment'') else Return seed)
           else Return (to_bytes (0 :: m128))) (\<lambda>seed.
     bind (lift_result (ot_receive_keys E mUniformOTs seed A 0 bs)) (\<lambda>msg.
     Return (msg, prng))))))"

fun ot_send_keys :: "crypto_env \<Rightarrow> bool \<Rightarrow> byte list \<Rightarrow> byte list \<Rightarrow> byte list \<Rightarrow> byte list \<Rightarrow> nat list \<Rightarrow> ot_pair list result" where
  "ot_send_keys E unif seed a A buff [] = Inr []"
| "ot_send_keys E unif seed a A buff (i # is) =
     res_bind (Rist_mult E a (take Point_size (drop (Point_size * i) buff))) (\<lambda>B.
     let m0 = ot_key E unif seed B i;
         m1 = ot_key E unif seed (Rist_sub E B A) i
     in res_bind (ot_send_keys E unif seed a A buff is) (\<lambda>ms. Inr ((m0, m1) # ms)))"

definition SimplestOT_send :: "crypto_env \<Rightarrow> bool \<Rightarrow> nat \<Rightarrow> PRNG \<Rightarrow> role \<Rightarrow> (ot_pair list \<times> PRNG) coro" where
  "SimplestOT_send E mUniformOTs n prng chl =
     bind (co_prng (Prime25519_random E prng)) (\<lambda>(a, prng).
     bind (lift_result (mulGenerator E a)) (\<lambda>A.
     bind (if mUniformOTs then co_prng (get_block prng) else Return (0, prng)) (\<lambda>(seed, prng).
     let comm = (if mUniformOTs then blake2 E HashSize (to_bytes seed) else [])
     in Await [Send chl [A @ comm]] (\<lambda>_.
     Await [Recv chl (RRead (Point_size * n) RDone)] (\<lambda>r.
     let buff = r ! 0 in
     bind (if mUniformOTs then Await [Send chl [to_bytes seed]] (\<lambda>_. Return ()) else Return ()) (\<lambda>_.
     bind (lift_result (Rist_mult E a A)) (\<lambda>A.
     bind (lift_result (ot_send_keys E mUniformOTs (to_bytes seed) a A buff [0..<n])) (\<lambda>msg.
     Return (msg, prng)))))))))"

text \<open>The two tasks; the generators are seeded by \<^verbatim>\<open>sysRandomSeed()\<close>. The sender's random pads are overwritten.\<close>

fun draw_pads :: "nat \<Rightarrow> PRNG \<Rightarrow> (ot_pair list \<times> PRNG) coro" where
  "draw_pads 0 prng = Return ([], prng)"
| "draw_pads (Suc n) prng =
     bind (co_prng (get_block prng)) (\<lambda>(r0, prng). bind (co_prng (get_block prng)) (\<lambda>(r1, prng).
     bind (draw_pads n prng) (\<lambda>(pads, prng). Return ((r0, r1) # pads, prng))))"

definition ot_send_task :: "crypto_env \<Rightarrow> m128 \<Rightarrow> nat \<Rightarrow> ot_pair list \<Rightarrow> role \<Rightarrow> ot_pair list coro" where
  "ot_send_task E sysRandomSeed n msgs cp =
     (if length msgs \<noteq> n then Throw (Runtime_error ''ot_send: msgs.size() must equal n'')
      else if n = 0 then Return msgs
      else
        bind (lift_result (PRNG_seeded sysRandomSeed 256)) (\<lambda>prng.
        bind (draw_pads n prng) (\<lambda>(randomPads, prng).
        bind (SimplestOT_send E True (length randomPads) prng cp) (\<lambda>(randomPads, prng).
        Await [Recv cp (RRead ((n + 7) div 8) RDone)] (\<lambda>r.
        let masked = masked_pairs n msgs randomPads (r ! 0)
        in Await [Send cp [concat (map to_bytes masked)]] (\<lambda>_. Return msgs))))))"

definition ot_receive_task :: "crypto_env \<Rightarrow> m128 \<Rightarrow> nat \<Rightarrow> bool list \<Rightarrow> role \<Rightarrow> m128 list coro" where
  "ot_receive_task E sysRandomSeed n choices cp =
     (if length choices \<noteq> n then Throw (Runtime_error ''ot_receive: choices.size() must equal n'')
      else if n = 0 then Return []
      else
        bind (lift_result (PRNG_seeded sysRandomSeed 256)) (\<lambda>prng.
        bind (co_prng (bv_randomize (bv_reset BitVector_empty n) prng)) (\<lambda>(q, prng).
        bind (SimplestOT_receive E True q n prng cp) (\<lambda>(r_q, prng).
        Await [Send cp [eq_bytes n choices (bv_bits q)]] (\<lambda>_.
        Await [Recv cp (RRead (32 * n) RDone)] (\<lambda>r.
        let masked = map of_bytes (chunks 16 (2 * n) (r ! 0))
        in Return (unmask n choices masked r_q)))))))"


section \<open>What the library promises\<close>

text \<open>
  The group has prime order \<open>L\<close>; \<open>enc x\<close> is the encoding of \<open>x\<close> times the generator and \<open>sc\<close> the number a scalar
  encodes. Multiplications fail when the result is the neutral element.
\<close>

definition sodium_ok :: "crypto_env \<Rightarrow> nat \<Rightarrow> (nat \<Rightarrow> byte list) \<Rightarrow> (byte list \<Rightarrow> nat) \<Rightarrow> bool" where
  "sodium_ok E L enc sc \<longleftrightarrow>
     1 < L \<and> (\<forall>x y. L dvd x * y \<longrightarrow> L dvd x \<or> L dvd y) \<and>
     (\<forall>x. length (enc x) = Point_size) \<and>
     (\<forall>s. ristretto_base E s = (if sc s mod L = 0 then None else Some (enc (sc s mod L)))) \<and>
     (\<forall>s x. ristretto_mult E s (enc x) = (if sc s * x mod L = 0 then None else Some (enc (sc s * x mod L)))) \<and>
     (\<forall>x y. ristretto_add E (enc x) (enc y) = Some (enc ((x + y) mod L))) \<and>
     (\<forall>x y. y \<le> L \<longrightarrow> ristretto_sub E (enc x) (enc y) = Some (enc ((x + (L - y)) mod L))) \<and>
     (\<forall>n m. length (blake2 E n m) = n)"

text \<open>The scalar that a generator at position \<open>n\<close> of its stream draws next, as a number.\<close>

definition scalar_at :: "crypto_env \<Rightarrow> m128 \<Rightarrow> nat \<Rightarrow> byte list" where
  "scalar_at E seed n = scalar_reduce E (Scalar25519_mask (segment (aes_stream seed) n 32) @ overread E)"

lemma Prime25519_random_at:
  "prng_at seed p n \<Longrightarrow> \<exists>q. Prime25519_random E p = Some (Inr (scalar_at E seed n, q)) \<and> prng_at seed q (n + 32)"
  using implGet_at [of seed p n 32] by (auto simp: Prime25519_random_def scalar_at_def get_array_def)

lemma co_prng_simps [simp]: "co_prng (Some (Inr x)) = Return x" "co_prng (Some (Inl e)) = Throw e"
  by (simp_all add: co_prng_def)

lemma sodium_facts:
  assumes "sodium_ok E L enc sc"
  shows "1 < L" "sc s mod L \<noteq> 0 \<Longrightarrow> mulGenerator E s = Inr (enc (sc s mod L))"
    "sc s * x mod L \<noteq> 0 \<Longrightarrow> Rist_mult E s (enc x) = Inr (enc (sc s * x mod L))"
    "Rist_add E (enc x) (enc y) = enc ((x + y) mod L)"
    "y \<le> L \<Longrightarrow> Rist_sub E (enc x) (enc y) = enc ((x + (L - y)) mod L)"
    "length (enc x) = Point_size" "length (blake2 E n m) = n"
    "x mod L \<noteq> 0 \<Longrightarrow> y mod L \<noteq> 0 \<Longrightarrow> x * y mod L \<noteq> 0"
  using assms unfolding sodium_ok_def
  by (auto simp: mulGenerator_def Rist_mult_def Rist_add_def Rist_sub_def throwing_def mod_eq_0_iff_dvd)



section \<open>The transfer\<close>

text \<open>A message from party 0 to party 1 and one back, on empty connections.\<close>

lemma msg01:
  "length bs = n \<Longrightarrow> reaches (three (Await [Send P1 [bs]] k0) (Await [Recv P0 (RRead n RDone)] k1) c) quiet
     (three (k0 [[]]) (k1 [bs]) c) quiet"
  by (rule reaches_threeI [where as = "[ASend P0 P1, ARecv P1 P0]"]) (simp add: exec_simps)

lemma msg10:
  "length bs = n \<Longrightarrow> reaches (three (Await [Recv P1 (RRead n RDone)] k0) (Await [Send P0 [bs]] k1) c) quiet
     (three (k0 [bs]) (k1 [[]]) c) quiet"
  by (rule reaches_threeI [where as = "[ASend P1 P0, ARecv P0 P1]"]) (simp add: exec_simps)

lemma nth_chunks: "i < n \<Longrightarrow> chunks w n bs ! i = take w (drop (w * i) bs)"
proof (induction w n bs arbitrary: i rule: chunks.induct)
  case (2 w n bs)
  then show ?case by (cases i) (simp_all add: add.commute)
qed simp

lemma nth_concat_points:
  assumes "\<And>x. x \<in> set xs \<Longrightarrow> length (f x) = w" "i < length xs"
  shows "take w (drop (w * i) (concat (map f xs))) = f (xs ! i)"
  using chunks_concat [of xs f w "[]"] nth_chunks [OF assms(2), of w "concat (map f xs)"] assms by simp

definition ot_point :: "nat \<Rightarrow> nat \<Rightarrow> nat \<Rightarrow> bool \<Rightarrow> nat" where
  "ot_point L \<alpha> \<beta> c = (if c then (\<alpha> + \<beta>) mod L else \<beta>)"

lemma ot_point_simps: "ot_point L \<alpha> \<beta> True = (\<alpha> + \<beta>) mod L" "ot_point L \<alpha> \<beta> False = \<beta>"
  by (simp_all add: ot_point_def)

lemma receive_points_at:
  assumes ok: "sodium_ok E L enc sc" and "prng_at seed p pos"
    and "\<And>k. k < length js \<Longrightarrow> js ! k < mNumBits v"
    and "\<And>k. k < length js \<Longrightarrow> sc (scalar_at E seed (pos + 32 * k)) mod L \<noteq> 0"
  shows "\<exists>q. receive_points E v (enc \<alpha>) js p =
      Return ((map (\<lambda>k. scalar_at E seed (pos + 32 * k)) [0..<length js],
        concat (map (\<lambda>k. enc (ot_point L \<alpha> (sc (scalar_at E seed (pos + 32 * k)) mod L) (bv_bits v ! (js ! k)))) [0..<length js])), q)
    \<and> prng_at seed q (pos + 32 * length js)"
  using assms(2-)
proof (induction js arbitrary: p pos)
  case (Cons i js)
  obtain q where q: "Prime25519_random E p = Some (Inr (scalar_at E seed pos, q))" "prng_at seed q (pos + 32)"
    using Prime25519_random_at [OF Cons.prems(1)] by blast
  have i: "i < mNumBits v" "sc (scalar_at E seed pos) mod L \<noteq> 0" using Cons.prems(2,3) [of 0] by simp_all
  have tl: "js ! k < mNumBits v" "sc (scalar_at E seed (pos + 32 + 32 * k)) mod L \<noteq> 0" if "k < length js" for k
    using Cons.prems(2,3) [of "Suc k"] that by (simp_all add: algebra_simps)
  obtain r where r: "receive_points E v (enc \<alpha>) js q =
      Return ((map (\<lambda>k. scalar_at E seed (pos + 32 + 32 * k)) [0..<length js],
        concat (map (\<lambda>k. enc (ot_point L \<alpha> (sc (scalar_at E seed (pos + 32 + 32 * k)) mod L) (bv_bits v ! (js ! k)))) [0..<length js])), r)"
    "prng_at seed r (pos + 32 + 32 * length js)"
    using Cons.IH [OF q(2) tl] by blast
  have up: "[0..<length (i # js)] = 0 # map Suc [0..<length js]" by (simp add: upt_conv_Cons map_Suc_upt del: upt_Suc)
  from q(1) i r show ?case
    unfolding up by (simp add: sodium_facts [OF ok] bv_get_eq ot_point_simps comp_def add.assoc)
qed simp

lemma ot_receive_keys_at:
  assumes ok: "sodium_ok E L enc sc" and "\<And>b. b \<in> set bs \<Longrightarrow> sc b * \<alpha> mod L \<noteq> 0"
  shows "ot_receive_keys E unif seed (enc \<alpha>) i bs = Inr (map (\<lambda>k. ot_key E unif seed (enc (sc (bs ! k) * \<alpha> mod L)) (i + k)) [0..<length bs])"
  using assms(2)
proof (induction bs arbitrary: i)
  case (Cons b bs)
  have up: "[0..<length (b # bs)] = 0 # map Suc [0..<length bs]" by (simp add: upt_conv_Cons map_Suc_upt del: upt_Suc)
  from Cons show ?case unfolding up by (simp add: sodium_facts [OF ok] comp_def)
qed simp

lemma ot_send_keys_at:
  assumes ok: "sodium_ok E L enc sc"
    and "\<And>i. i \<in> set js \<Longrightarrow> take Point_size (drop (Point_size * i) buff) = enc (x i) \<and> sc a * x i mod L \<noteq> 0"
  shows "ot_send_keys E unif seed a A buff js = Inr (map (\<lambda>i. (ot_key E unif seed (enc (sc a * x i mod L)) i,
      ot_key E unif seed (Rist_sub E (enc (sc a * x i mod L)) A) i)) js)"
  using assms(2) by (induction js) (simp_all add: sodium_facts [OF ok] Let_def)

text \<open>The arithmetic of the transfer: for choice 1 the sender's second key js the receiver's.\<close>

lemma ot_arith:
  fixes L :: nat
  assumes "1 < L"
  shows "(a * ((a mod L + b mod L) mod L) mod L + (L - a * (a mod L) mod L)) mod L = b * (a mod L) mod L"
proof -
  define u t where "u = a * (a mod L) mod L" and "t = a * (a mod L) div L"
  have ut: "a * (a mod L) = L * t + u" and u: "u < L" using assms by (simp_all add: u_def t_def)
  have x: "a * ((a mod L + b mod L) mod L) mod L = (a * (a mod L) + a * (b mod L)) mod L"
    using mod_mult_right_eq [of a "a mod L + b mod L" L] by (simp only: distrib_left)
  have "(a * ((a mod L + b mod L) mod L) mod L + (L - u)) mod L = (a * (a mod L) + a * (b mod L) + (L - u)) mod L"
    unfolding x by (rule mod_add_left_eq)
  also have "a * (a mod L) + a * (b mod L) + (L - u) = a * (b mod L) + L * (t + 1)"
    using ut u by (simp add: algebra_simps)
  also have "\<dots> mod L = b * (a mod L) mod L" 
    by (metis mod_mult_self2 mod_mult_right_eq mult.commute)
  finally show ?thesis by (simp add: u_def)
qed

text \<open>
  The transfer of both parties, with party 0 as sender. The scalars that the generators draw are not zero in the group,
  nor is the sum of the sender's and the receiver's where the choice is 1.
\<close>

definition good_scalars :: "crypto_env \<Rightarrow> nat \<Rightarrow> (byte list \<Rightarrow> nat) \<Rightarrow> byte list \<Rightarrow> (nat \<Rightarrow> byte list) \<Rightarrow> bool list \<Rightarrow> bool" where
  "good_scalars E L sc a b cs \<longleftrightarrow> sc a mod L \<noteq> 0 \<and>
     (\<forall>i < length cs. sc (b i) mod L \<noteq> 0 \<and> (cs ! i \<longrightarrow> (sc a + sc (b i)) mod L \<noteq> 0))"

lemma SimplestOT_joint:
  assumes ok: "sodium_ok E L enc sc" and p0: "prng_at s0 p0 n0" and p1: "prng_at s1 p1 n1" and n: "mNumBits q = n"
    and good: "good_scalars E L sc (scalar_at E s0 n0) (\<lambda>i. scalar_at E s1 (n1 + 32 * i)) (bv_bits q)"
  obtains pads r_q q0 q1 where
    "joint (three (bind (SimplestOT_send E unif n p0 P1) (\<lambda>x. Return (Inl x))) (bind (SimplestOT_receive E unif q n p1 P0) (\<lambda>x. Return (Inr x)))
        (Return c)) quiet (three (Inl (pads, q0)) (Inr (r_q, q1)) c) quiet"
    "length pads = n" "length r_q = n" "\<And>i. i < n \<Longrightarrow> r_q ! i = sel (pads ! i) (bv_bits q ! i)"
proof -
  let ?a = "scalar_at E s0 n0" and ?b = "\<lambda>i. scalar_at E s1 (n1 + 32 * i)"
  define \<alpha> where "\<alpha> = sc ?a mod L"
  define x where "x i = ot_point L \<alpha> (sc (?b i) mod L) (bv_bits q ! i)" for i
  note so = sodium_facts [OF ok]
  have nz: "\<alpha> mod L \<noteq> 0" "\<alpha> \<noteq> 0" using good by (simp_all add: \<alpha>_def good_scalars_def)
  have bz: "sc (?b i) mod L \<noteq> 0" "x i mod L \<noteq> 0" if "i < n" for i
    using good that n so(1) by (auto simp: good_scalars_def x_def ot_point_def \<alpha>_def mod_simps)
  obtain r0 where a: "Prime25519_random E p0 = Some (Inr (?a, r0))" "prng_at s0 r0 (n0 + 32)"
    using Prime25519_random_at [OF p0] by blast
  obtain seed q0 where seed: "(if unif then co_prng (get_block r0) else Return (0, r0)) = Return (seed, q0)"
    using get_block_at [OF a(2)] by (cases unif) auto
  define buff where "buff = concat (map (\<lambda>i. enc (x i)) [0..<n])"
  obtain q1 where pts: "receive_points E q (enc \<alpha>) [0..<n] p1 = Return ((map ?b [0..<n], buff), q1)"
  proof -
    have "concat (map (\<lambda>k. enc (ot_point L \<alpha> (sc (?b k) mod L) (bv_bits q ! ([0..<n] ! k)))) [0..<n]) = buff"
      unfolding buff_def x_def by (intro arg_cong [where f = concat] map_cong) simp_all
    with receive_points_at [OF ok p1, of "[0..<n]" q \<alpha>] bz(1) n that show ?thesis by auto
  qed
  have lb: "length buff = Point_size * n"
    using length_concat_map_const [of "[0..<n]" "\<lambda>i. enc (x i)" Point_size] so(6) by (simp add: buff_def mult.commute)
  let ?sd = "to_bytes seed" and ?A = "enc (sc ?a * \<alpha> mod L)"
  define pads where "pads = map (\<lambda>i. (ot_key E unif ?sd (enc (sc ?a * x i mod L)) i, ot_key E unif ?sd (Rist_sub E (enc (sc ?a * x i mod L)) ?A) i)) [0..<n]"
  define r_q where "r_q = map (\<lambda>i. ot_key E unif ?sd (enc (sc (?b i) * \<alpha> mod L)) i) [0..<n]"
  have sk: "ot_send_keys E unif ?sd ?a ?A buff [0..<n] = Inr pads"
    unfolding pads_def
  proof (rule ot_send_keys_at [OF ok])
    fix i assume "i \<in> set [0..<n]"
    then have i: "i < n" by simp
    have "take Point_size (drop (Point_size * i) buff) = enc (x i)"
      using nth_concat_points [of "[0..<n]" "\<lambda>i. enc (x i)" Point_size i] i so(6) by (simp add: buff_def)
    moreover have "sc ?a * x i mod L \<noteq> 0" by (rule so(8)) (use nz bz(2) i in \<open>simp_all add: \<alpha>_def\<close>)
    ultimately show "take Point_size (drop (Point_size * i) buff) = enc (x i) \<and> sc ?a * x i mod L \<noteq> 0" ..
  qed
  have bm: "sc b * \<alpha> mod L \<noteq> 0" if "b \<in> set (map ?b [0..<n])" for b
    using that bz(1) by (intro so(8) nz(1)) auto
  have rk: "ot_receive_keys E unif ?sd (enc \<alpha>) 0 (map ?b [0..<n]) = Inr r_q"
  proof -
    have "ot_receive_keys E unif ?sd (enc \<alpha>) 0 (map ?b [0..<n])
        = Inr (map (\<lambda>k. ot_key E unif ?sd (enc (sc (map ?b [0..<n] ! k) * \<alpha> mod L)) (0 + k)) [0..<length (map ?b [0..<n])])"
      by (rule ot_receive_keys_at [OF ok]) (rule bm)
    then show ?thesis by (simp add: r_q_def cong: map_cong)
  qed
  have mg: "mulGenerator E ?a = Inr (enc \<alpha>)" unfolding \<alpha>_def by (rule so(2)) (use nz in \<open>simp add: \<alpha>_def\<close>)
  have ma: "Rist_mult E ?a (enc \<alpha>) = Inr ?A" by (rule so(3), rule so(8)) (use nz in \<open>simp_all add: \<alpha>_def\<close>)
  have eq: "r_q ! i = sel (pads ! i) (bv_bits q ! i)" if "i < n" for i
  proof (cases "bv_bits q ! i")
    case True
    have le: "sc ?a * \<alpha> mod L \<le> L" using so(1) by (simp add: less_imp_le)
    have "Rist_sub E (enc (sc ?a * x i mod L)) ?A = enc ((sc ?a * x i mod L + (L - sc ?a * \<alpha> mod L)) mod L)"
      by (rule so(5) [OF le])
    also have "(sc ?a * x i mod L + (L - sc ?a * \<alpha> mod L)) mod L = sc (?b i) * \<alpha> mod L"
      using ot_arith [OF so(1), of "sc ?a" "sc (?b i)"] True by (simp add: x_def ot_point_def \<alpha>_def)
    finally have "Rist_sub E (enc (sc ?a * x i mod L)) ?A = enc (sc (?b i) * \<alpha> mod L)" .
    with True that show ?thesis by (simp add: r_q_def pads_def sel_def)
  next
    case False
    have "sc ?a * (sc (?b i) mod L) mod L = sc (?b i) * \<alpha> mod L" by (simp add: \<alpha>_def mod_simps mult.commute)
    with False that show ?thesis by (simp add: r_q_def pads_def sel_def x_def ot_point_def)
  qed
  have "joint (three (bind (SimplestOT_send E unif n p0 P1) (\<lambda>x. Return (Inl x))) (bind (SimplestOT_receive E unif q n p1 P0) (\<lambda>x. Return (Inr x)))
        (Return c)) quiet (three (Inl (pads, q0)) (Inr (r_q, q1)) c) quiet"
  proof (cases unif)
    case True
    have len: "length (enc \<alpha> @ blake2 E HashSize ?sd) = Point_size + HashSize" "length ?sd = 16" by (simp_all add: so)
    have keys: "ot_send_keys E True ?sd ?a ?A buff [0..<n] = Inr pads" "ot_receive_keys E True ?sd (enc \<alpha>) 0 (map ?b [0..<n]) = Inr r_q"
      using sk rk True by simp_all
    show ?thesis
      using seed unfolding SimplestOT_send_def SimplestOT_receive_def
      by (simp add: True a(1) mg Let_def,
          intro reaches_joint [OF msg01 [OF len(1)]], simp add: so pts True,
          intro reaches_joint [OF msg10 [OF lb]], simp,
          intro reaches_joint [OF msg01 [OF len(2)]], simp add: so ma keys joint_three_return)
  next
    case False
    then have e: "q0 = r0" "seed = 0" using seed by simp_all
    then have keys: "ot_send_keys E False (to_bytes (0 :: m128)) ?a ?A buff [0..<n] = Inr pads"
      "ot_receive_keys E False (to_bytes (0 :: m128)) (enc \<alpha>) 0 (map ?b [0..<n]) = Inr r_q"
      using sk rk False by simp_all
    have len: "length (enc \<alpha>) = Point_size" by (simp add: so)
    show ?thesis
      unfolding e SimplestOT_send_def SimplestOT_receive_def
      by (simp add: False a(1) mg Let_def,
          intro reaches_joint [OF msg01 [OF len]], simp add: so pts False,
          intro reaches_joint [OF msg10 [OF lb]], simp add: so ma keys joint_three_return)
  qed
  then show thesis using eq by (intro that [of pads q0 r_q q1]) (simp_all add: pads_def r_q_def)
qed



section \<open>A sender that deviates\<close>

text \<open>Opening the commitment to another seed is detected, whatever the points are.\<close>

definition equivocating_sender :: "byte list \<Rightarrow> byte list \<Rightarrow> byte list \<Rightarrow> nat \<Rightarrow> 'a \<Rightarrow> 'a coro" where
  "equivocating_sender A comm seed' n x =
     Await [Send P1 [A @ comm]] (\<lambda>_. Await [Recv P1 (RRead (Point_size * n) RDone)] (\<lambda>_. Await [Send P1 [seed']] (\<lambda>_. Return x)))"

lemma receive_rejects:
  assumes ok: "sodium_ok E L enc sc" and p1: "prng_at s1 p1 n1" and n: "mNumBits q = n"
    and good: "\<And>i. i < n \<Longrightarrow> sc (scalar_at E s1 (n1 + 32 * i)) mod L \<noteq> 0"
    and len: "length comm = HashSize" "length seed' = 16" and bad: "blake2 E HashSize seed' \<noteq> comm"
  shows "every_run (three (equivocating_sender (enc \<alpha>) comm seed' n x) (bind (SimplestOT_receive E True q n p1 P0) (\<lambda>r. Return (f r))) (Return y)) quiet
    (three (Done x) (Failed (Runtime_error ''bad decommitment'')) (Done y)) quiet"
proof -
  note so = sodium_facts [OF ok]
  obtain bs buff q1 where pts: "receive_points E q (enc \<alpha>) [0..<n] p1 = Return ((bs, buff), q1)" "length buff = Point_size * n"
  proof -
    have "length (concat (map (\<lambda>k. enc (g k)) [0..<n])) = Point_size * n" for g :: "nat \<Rightarrow> nat"
      using length_concat_map_const [of "[0..<n]" "\<lambda>i. enc (g i)" Point_size] so(6) by (simp add: mult.commute)
    with receive_points_at [OF ok p1, of "[0..<n]" q \<alpha>] good n that show ?thesis by auto
  qed
  have l: "length (enc \<alpha> @ comm) = Point_size + HashSize" using len by (simp add: so)
  have "reaches (three (equivocating_sender (enc \<alpha>) comm seed' n x) (bind (SimplestOT_receive E True q n p1 P0) (\<lambda>r. Return (f r))) (Return y)) quiet
      (three (Return x) (Throw (Runtime_error ''bad decommitment'')) (Return y)) quiet"
    unfolding equivocating_sender_def SimplestOT_receive_def
    by (simp add: Let_def, rule reaches_trans [OF msg01 [OF l]], simp add: so len pts,
        rule reaches_trans [OF msg10 [OF pts(2)]], rule reaches_trans [OF msg01 [OF len(2)]],
        use bad in \<open>auto simp: reaches_def intro: exI [of _ "[]"]\<close>)
  from reaches_every_run [OF this] show ?thesis by (simp add: stopped_def)
qed

text \<open>
  A sender whose bytes are no point: addition fails, and its result is not looked at. For a choice of 1 the receiver
  sends uninitialised memory, for a choice of 0 a point, before any multiplication fails.
\<close>

lemma receive_points_invalid:
  assumes ok: "sodium_ok E L enc sc" and bad: "\<And>x. ristretto_add E A x = None" and "prng_at seed p pos"
    and "\<And>k. k < length js \<Longrightarrow> js ! k < mNumBits v"
    and "\<And>k. k < length js \<Longrightarrow> sc (scalar_at E seed (pos + 32 * k)) mod L \<noteq> 0"
  shows "\<exists>bs q. receive_points E v A js p = Return ((bs,
      concat (map (\<lambda>k. if bv_bits v ! (js ! k) then uninit E else enc (sc (scalar_at E seed (pos + 32 * k)) mod L)) [0..<length js])), q)"
  using assms(3-)
proof (induction js arbitrary: p pos)
  case (Cons j js)
  obtain q where q: "Prime25519_random E p = Some (Inr (scalar_at E seed pos, q))" "prng_at seed q (pos + 32)"
    using Prime25519_random_at [OF Cons.prems(1)] by blast
  have j: "j < mNumBits v" "sc (scalar_at E seed pos) mod L \<noteq> 0" using Cons.prems(2,3) [of 0] by simp_all
  have tl: "js ! k < mNumBits v" "sc (scalar_at E seed (pos + 32 + 32 * k)) mod L \<noteq> 0" if "k < length js" for k
    using Cons.prems(2,3) [of "Suc k"] that by (simp_all add: algebra_simps)
  define pts where "pts = (\<lambda>pos k. if bv_bits v ! (js ! k) then uninit E else enc (sc (scalar_at E seed (pos + 32 * k)) mod L))"
  obtain bs r where r: "receive_points E v A js q = Return ((bs, concat (map (pts (pos + 32)) [0..<length js])), r)"
    using Cons.IH [OF q(2) tl] by (auto simp: pts_def)
  have up: "[0..<length (j # js)] = 0 # map Suc [0..<length js]" by (simp add: upt_conv_Cons map_Suc_upt del: upt_Suc)
  have "(\<lambda>k. if bv_bits v ! ((j # js) ! Suc k) then uninit E else enc (sc (scalar_at E seed (pos + 32 * Suc k)) mod L)) = pts (pos + 32)"
    by (simp add: pts_def add.assoc cong: if_cong)
  with q(1) j r bad show ?case
    unfolding up by (auto simp: sodium_facts [OF ok] bv_get_eq comp_def Rist_add_def)
qed simp


section \<open>The tasks of the manager\<close>

lemma draw_pads_at:
  "prng_at seed p pos \<Longrightarrow> \<exists>pads q. draw_pads n p = Return (pads, q) \<and> length pads = n \<and> prng_at seed q (pos + 32 * n)"
proof (induction n arbitrary: p pos)
  case (Suc n)
  obtain r0 q0 where q0: "get_block p = Some (Inr (r0, q0))" "prng_at seed q0 (pos + 16)"
    using get_block_at [OF Suc.prems] by blast
  obtain r1 q1 where q1: "get_block q0 = Some (Inr (r1, q1))" "prng_at seed q1 (pos + 16 + 16)"
    using get_block_at [OF q0(2)] by blast
  obtain pads q where "draw_pads n q1 = Return (pads, q)" "length pads = n" "prng_at seed q (pos + 16 + 16 + 32 * n)"
    using Suc.IH [OF q1(2)] by blast
  with q0(1) q1(1) show ?case by (simp add: add.assoc)
qed simp

lemma length_eq_bytes: "length (eq_bytes n choices q) = (n + 7) div 8"
proof -
  have "length (fold (\<lambda>i eqb. let c = choices ! i; qb = q ! i; eq = (c = qb)
                  in if eq then eqb[i div 8 := eqb ! (i div 8) OR push_bit (i mod 8) 1] else eqb) xs eqb) = length eqb" for xs and eqb :: "byte list"
    by (induction xs arbitrary: eqb) (simp_all add: Let_def)
  then show ?thesis by (simp add: eq_bytes_def)
qed

lemma masked_bytes: "length msgs = n \<Longrightarrow> length (masked_pairs n msgs pads eqb) = 2 * n"
  unfolding masked_pairs_def Let_def by (simp add: length_concat_map_const [where w = 2])

text \<open>The random choices and the scalars of the two tasks, as functions of the seeds.\<close>

definition task_choices :: "m128 \<Rightarrow> nat \<Rightarrow> bool list" where
  "task_choices seed n = map (\<lambda>i. bit (aes_stream seed (i div 8)) (i mod 8)) [0..<n]"

definition task_scalars :: "crypto_env \<Rightarrow> nat \<Rightarrow> (byte list \<Rightarrow> nat) \<Rightarrow> m128 \<Rightarrow> m128 \<Rightarrow> nat \<Rightarrow> bool" where
  "task_scalars E L sc s0 s1 n \<longleftrightarrow>
     good_scalars E L sc (scalar_at E s0 (32 * n)) (\<lambda>i. scalar_at E s1 (16 * divCeil n 128 + 32 * i)) (task_choices s1 n)"

lemma joint_bind_wrap:
  fixes a :: "'x coro" and b :: "'y coro"
  assumes "joint (three (bind a (\<lambda>x. Return (Inl x))) (bind b (\<lambda>x. Return (Inr x))) (Return (Inl c))) N
      (three (Inl x) (Inr y) (Inl c)) N'"
    "joint (three (f x) (g y) d) N' w N''"
  shows "joint (three (bind a f) (bind b g) d) N w N''"
proof -
  have e: "bind a f = bind (bind a (\<lambda>x. Return (Inl x :: 'x + 'y))) (\<lambda>z. f (projl z))"
    "bind b g = bind (bind b (\<lambda>x. Return (Inr x :: 'x + 'y))) (\<lambda>z. g (projr z))"
    by (simp_all add: bind_bind)
  have "joint (three (bind (bind a (\<lambda>x. Return (Inl x :: 'x + 'y))) (\<lambda>z. f (projl z)))
      (bind (bind b (\<lambda>x. Return (Inr x :: 'x + 'y))) (\<lambda>z. g (projr z))) (bind (Return (Inl c :: 'x + 'y)) (\<lambda>_. d))) N w N''"
    by (rule joint_three_bind [OF assms(1)]) (simp add: assms(2))
  then show ?thesis unfolding e by (simp only: bind.simps)
qed

theorem ot_tasks_joint:
  assumes ok: "sodium_ok E L enc sc" and len: "length msgs = n" "length choices = n"
    and good: "task_scalars E L sc s0 s1 n"
  shows "joint (three (bind (ot_send_task E s0 n msgs P1) (\<lambda>x. Return (Inl x))) (bind (ot_receive_task E s1 n choices P0) (\<lambda>x. Return (Inr x)))
      (Return (Inl []))) quiet
    (three (Inl msgs) (Inr (map (\<lambda>i. sel (msgs ! i) (choices ! i)) [0..<n])) (Inl [])) quiet"
proof (cases "n = 0")
  case True
  with len show ?thesis by (simp add: ot_send_task_def ot_receive_task_def joint_three_return)
next
  case False
  obtain p0 where p0: "PRNG_seeded s0 256 = Inr p0" "prng_at s0 p0 0" using SetSeed_fresh [of 256 s0] by auto
  obtain p1 where p1: "PRNG_seeded s1 256 = Inr p1" "prng_at s1 p1 0" using SetSeed_fresh [of 256 s1] by auto
  obtain junk q0 where dp: "draw_pads n p0 = Return (junk, q0)" "length junk = n" "prng_at s0 q0 (32 * n)"
    using draw_pads_at [OF p0(2), where n = n] by auto
  let ?v = "bv_reset BitVector_empty n"
  have v: "bv_ok ?v" "mNumBits ?v = n"
    using bv_reset_ok [OF BitVector_empty_ok(1), of n] by (simp_all add: bv_reset_def Let_def)
  obtain q q1 where bq: "bv_randomize ?v p1 = Some (Inr (q, q1))" "prng_at s1 q1 (16 * divCeil n 128)" "bv_bits q = task_choices s1 n"
    using bv_randomize_ok [OF v(1) p1(2)] v(2) by (auto simp: sizeBlocks_def task_choices_def)
  have nq: "mNumBits q = n" using arg_cong [OF bq(3), of length] by (simp add: task_choices_def)
  have g: "good_scalars E L sc (scalar_at E s0 (32 * n)) (\<lambda>i. scalar_at E s1 (16 * divCeil n 128 + 32 * i)) (bv_bits q)"
    using good by (simp add: task_scalars_def bq(3))
  obtain pads r_q r0 r1 where ot:
    "joint (three (bind (SimplestOT_send E True n q0 P1) (\<lambda>x. Return (Inl x))) (bind (SimplestOT_receive E True q n q1 P0) (\<lambda>x. Return (Inr x)))
        (Return (Inl undefined))) quiet (three (Inl (pads, r0)) (Inr (r_q, r1)) (Inl undefined)) quiet"
    "length pads = n" "length r_q = n" "\<And>i. i < n \<Longrightarrow> r_q ! i = sel (pads ! i) (bv_bits q ! i)"
    using SimplestOT_joint [OF ok dp(3) bq(2) nq g, where unif = True and c = "Inl undefined"] by metis
  let ?eqb = "eq_bytes n choices (bv_bits q)" and ?masked = "masked_pairs n msgs pads (eq_bytes n choices (bv_bits q))"
  let ?out = "map (\<lambda>i. sel (msgs ! i) (choices ! i)) [0..<n]"
  have lm: "length (concat (map to_bytes ?masked)) = 32 * n"
    using length_concat_map_const [of ?masked to_bytes 16] masked_bytes [OF len(1)] by simp
  have dec: "map of_bytes (chunks 16 (2 * n) (concat (map to_bytes ?masked))) = ?masked"
    using chunks_concat [of ?masked to_bytes 16 "[]"] masked_bytes [OF len(1), of pads ?eqb] by (simp add: comp_def)
  have un: "unmask n choices ?masked r_q = ?out"
  proof -
    have "rot_correct (\<lambda>q'. (pads, map (\<lambda>i. sel (pads ! i) (q' ! i)) [0..<n])) n"
      using ot(2) by (simp add: rot_correct_def)
    moreover have "map (\<lambda>i. sel (pads ! i) (bv_bits q ! i)) [0..<n] = r_q"
      using ot(3,4) by (intro nth_equalityI) simp_all
    ultimately show ?thesis
      using ot_transfer_correct [OF len, of "bv_bits q" "\<lambda>q'. (pads, map (\<lambda>i. sel (pads ! i) (q' ! i)) [0..<n])"] nq False len
      by (simp add: ot_transfer_def ot_receive_request_def ot_send_def ot_receive_finish_def)
  qed
  have rest: "joint (three (Await [Recv P1 (RRead ((n + 7) div 8) RDone)] (\<lambda>r. let masked = masked_pairs n msgs pads (r ! 0)
          in Await [Send P1 [concat (map to_bytes masked)]] (\<lambda>_. Return (Inl msgs))))
        (Await [Send P0 [?eqb]] (\<lambda>_. Await [Recv P0 (RRead (32 * n) RDone)] (\<lambda>r.
          let masked = map of_bytes (chunks 16 (2 * n) (r ! 0)) in Return (Inr (unmask n choices masked r_q)))))
        (Return (Inl []))) quiet (three (Inl msgs) (Inr ?out) (Inl [])) quiet"
    by (intro reaches_joint [OF msg10 [OF length_eq_bytes]], simp add: Let_def,
        intro reaches_joint [OF msg01 [OF lm]], simp add: dec un joint_three_return)
  have "joint (three
      (bind (SimplestOT_send E True n q0 P1) (\<lambda>a. Await [Recv P1 (RRead ((n + 7) div 8) RDone)] (\<lambda>r.
        let masked = masked_pairs n msgs (fst a) (r ! 0) in Await [Send P1 [concat (map to_bytes masked)]] (\<lambda>_. Return (Inl msgs)))))
      (bind (SimplestOT_receive E True q n q1 P0) (\<lambda>a. Await [Send P0 [?eqb]] (\<lambda>_. Await [Recv P0 (RRead (32 * n) RDone)] (\<lambda>r.
        let masked = map of_bytes (chunks 16 (2 * n) (r ! 0)) in Return (Inr (unmask n choices masked (fst a)))))))
      (Return (Inl []))) quiet (three (Inl msgs) (Inr ?out) (Inl [])) quiet"
    by (rule joint_bind_wrap [OF ot(1)]) (simp only: fst_conv rest)
  then show ?thesis
    unfolding ot_send_task_def ot_receive_task_def
    using len False
    by (simp add: p0(1) p1(1) dp(1,2) bq(1) bind_bind split_def Let_def)
qed

end
