(* ===== verification/DpfMultiplier.thy ===== *)
theory DpfMultiplier
  imports BitVec Coro OtManager
begin

text \<open>
  \<^verbatim>\<open>libOTe/Dpf/DpfMult.h\<close>: the products of shared bits with shared blocks from which the distributed generation of DPF
  keys is made. Two random transfers per product, one in each direction, give a random triple; the parties open both
  factors under its masks. The main lemma: the two results are shares of the products. A message is delivered to the
  read of its size; \<open>uninit\<close> is the content of uninitialised memory.
\<close>

section \<open>The code\<close>

record DpfMult =
  mPartyIdx :: nat
  mTotalMults :: nat
  mChoiceBits :: BitVector
  mRecvOts :: "m128 list"
  mSendOts :: "ot_pair list"
  mOtIdx :: nat

definition hasBaseOts :: "DpfMult \<Rightarrow> bool" where
  "hasBaseOts d \<longleftrightarrow> mNumBits (mChoiceBits d) \<noteq> 0"

definition mult_init :: "nat \<Rightarrow> nat \<Rightarrow> DpfMult \<Rightarrow> DpfMult result" where
  "mult_init partyIdx n d =
     (if 1 < partyIdx then Inl (Runtime_error ''RTE_LOC'')
      else Inr (d\<lparr>mPartyIdx := partyIdx, mTotalMults := n, mOtIdx := 0, mSendOts := [], mRecvOts := [],
                  mChoiceBits := bv_resize (mChoiceBits d) 0\<rparr>))"

definition mult_setBaseOts :: "ot_pair list \<Rightarrow> m128 list \<Rightarrow> BitVector \<Rightarrow> DpfMult \<Rightarrow> DpfMult result" where
  "mult_setBaseOts baseSendOts recvBaseOts baseChoices d =
     (if length baseSendOts \<noteq> mTotalMults d \<or> length recvBaseOts \<noteq> mTotalMults d \<or> mNumBits baseChoices \<noteq> mTotalMults d
      then Inl (Runtime_error ''RTE_LOC'')
      else Inr (d\<lparr>mSendOts := baseSendOts, mRecvOts := recvBaseOts, mChoiceBits := bv_assign (mChoiceBits d) baseChoices, mOtIdx := 0\<rparr>))"

text \<open>\<^verbatim>\<open>block(-u64(b), -u64(b))\<close>.\<close>

definition bit_block :: "u8 \<Rightarrow> m128" where
  "bit_block b = mm_set_epi64x (- ucast b) (- ucast b)"

text \<open>\<^verbatim>\<open>while (phi.size() % 8) phi.pushBack(0)\<close>: at most seven rounds.\<close>

fun pad_to_byte :: "nat \<Rightarrow> BitVector \<Rightarrow> BitVector result" where
  "pad_to_byte 0 v = Inr v"
| "pad_to_byte (Suc fuel) v = (if mNumBits v mod 8 \<noteq> 0 then res_bind (bv_pushBack v 0) (pad_to_byte fuel) else Inr v)"

text \<open>What is done with the message \<open>buffer\<close> of the other party.\<close>

definition mult_finish :: "DpfMult \<Rightarrow> nat \<Rightarrow> m128 list \<Rightarrow> m128 list \<Rightarrow> m128 list \<Rightarrow> m128 list \<Rightarrow> BitVector \<Rightarrow> byte list \<Rightarrow> (m128 list \<times> DpfMult) coro" where
  "mult_finish d n A0 b1 C theta phi buffer =
     (let theta1 = map of_bytes (chunks 16 n buffer)
      in bind (lift_result (BitVector_of (drop (16 * n) buffer) (mNumBits phi) 0)) (\<lambda>phi1.
         bind (lift_result (bv_xor_eq phi phi1)) (\<lambda>phi.
         bind (lift_result (res_map (bv_get phi) [0..<n])) (\<lambda>ps.
         let xy = map (\<lambda>j. let Phi = bit_block (ps ! j); th = theta ! j XOR theta1 ! j
                           in C ! j XOR (th AND A0 ! j) XOR (Phi AND b1 ! j)
                              XOR (if mPartyIdx d \<noteq> 0 then th AND Phi else 0)) [0..<n]
         in Return (xy, d\<lparr>mOtIdx := mOtIdx d + n\<rparr>)))))"

text \<open>
  \<open>xy_size\<close> is the size of the span for the result, which may be the storage of \<open>y\<close>: \<open>y\<close> is not read after \<open>theta\<close>.
\<close>

definition multiply :: "(nat \<Rightarrow> byte) \<Rightarrow> role \<Rightarrow> BitVector \<Rightarrow> m128 list \<Rightarrow> nat \<Rightarrow> DpfMult \<Rightarrow> (m128 list \<times> DpfMult) coro" where
  "multiply uninit peer x y xy_size d =
     (let n = mNumBits x in
      if n \<noteq> length y \<or> n \<noteq> xy_size then Throw (Runtime_error ''RTE_LOC'')
      else if mTotalMults d < n + mOtIdx d then Throw (Runtime_error ''RTE_LOC'')
      else if \<not> hasBaseOts d then Throw (Runtime_error ''RTE_LOC'')
      else if length (mRecvOts d) < n + mOtIdx d \<or> length (mSendOts d) < n + mOtIdx d then Throw (Undefined ''index out of range'')
      else
        bind (lift_result (bv_append_part BitVector_empty (mChoiceBits d) n (mOtIdx d))) (\<lambda>a0.
        bind (lift_result (res_map (bv_get a0) [0..<n])) (\<lambda>as.
        let A0 = map bit_block as;
            b1 = map (\<lambda>j. let s = mSendOts d ! (mOtIdx d + j) in fst s XOR snd s) [0..<n];
            C = map (\<lambda>j. mRecvOts d ! (mOtIdx d + j) XOR fst (mSendOts d ! (mOtIdx d + j)) XOR (b1 ! j AND A0 ! j)) [0..<n];
            theta = map (\<lambda>j. y ! j XOR b1 ! j) [0..<n]
        in bind (lift_result (bv_xor x a0)) (\<lambda>phi.
           bind (lift_result (pad_to_byte 7 phi)) (\<lambda>phi.
           let bufSize = 16 * (n + sizeBlocks phi);
               buffer = map uninit [0..<bufSize];
               buffer = blit buffer 0 (concat (map to_bytes theta));
               buffer = blit buffer (16 * n) (take (sizeBytes phi) (bv_data phi))
           in Await [Send peer [buffer]] (\<lambda>_.
              Await [Recv peer (RRead bufSize RDone)] (\<lambda>r.
              mult_finish d n A0 b1 C theta phi (r ! 0))))))))"

section \<open>Correctness\<close>

text \<open>Each party sends a message and reads one of the same size.\<close>

lemma exchange01:
  "length b0 = n \<Longrightarrow> length b1 = n \<Longrightarrow>
     reaches (three (Await [Send P1 [b0]] (\<lambda>_. Await [Recv P1 (RRead n RDone)] k0)) (Await [Send P0 [b1]] (\<lambda>_. Await [Recv P0 (RRead n RDone)] k1)) c) quiet
       (three (k0 [b1]) (k1 [b0]) c) quiet"
  by (rule reaches_threeI [where as = "[ASend P0 P1, ASend P1 P0, ARecv P1 P0, ARecv P0 P1]"]) (simp add: exec_simps)

lemma bit_block_simps [simp]: "bit_block 0 = 0" "bit_block 1 = - 1"
  by (auto simp: bit_block_def mm_set_epi64x_def bit_simps intro!: bit_word_eqI)

text \<open>The number of bits after padding.\<close>

fun pad_size :: "nat \<Rightarrow> nat \<Rightarrow> nat" where
  "pad_size 0 m = m"
| "pad_size (Suc fuel) m = (if m mod 8 \<noteq> 0 then pad_size fuel (Suc m) else m)"

lemma pad_size_ge: "m \<le> pad_size fuel m"
proof (induction fuel arbitrary: m)
  case (Suc fuel)
  from Suc.IH [of "Suc m"] show ?case by simp
qed simp

lemma pad_to_byte_ok:
  "bv_ok v \<Longrightarrow> \<exists>w. pad_to_byte fuel v = Inr w \<and> bv_ok w \<and> mNumBits w = pad_size fuel (mNumBits v) \<and> take (mNumBits v) (bv_bits w) = bv_bits v"
proof (induction fuel arbitrary: v)
  case (Suc fuel)
  show ?case
  proof (cases "mNumBits v mod 8 = 0")
    case False
    obtain w where w: "bv_pushBack v 0 = Inr w" "bv_ok w" "bv_bits w = bv_bits v @ [False]"
      using bv_pushBack_ok [OF Suc.prems, of 0] by auto
    have n: "mNumBits w = Suc (mNumBits v)" using arg_cong [OF w(3), of length] by simp
    from Suc.IH [OF w(2)] obtain u where u: "pad_to_byte fuel w = Inr u" "bv_ok u" "mNumBits u = pad_size fuel (mNumBits w)"
      "take (mNumBits w) (bv_bits u) = bv_bits w" by blast
    have "take (mNumBits v) (bv_bits u) = take (mNumBits v) (take (mNumBits w) (bv_bits u))" by (simp add: n min_def)
    also have "\<dots> = bv_bits v" using w(3) by (simp add: u(4))
    finally show ?thesis using w u n False by simp
  qed (use Suc.prems in simp)
qed simp

text \<open>A multiplier with its transfers in place; the bit and the block of the random triple at position \<open>j\<close>.\<close>

definition mult_ready :: "nat \<Rightarrow> nat \<Rightarrow> DpfMult \<Rightarrow> bool" where
  "mult_ready p n d \<longleftrightarrow> mPartyIdx d = p \<and> bv_ok (mChoiceBits d) \<and> mNumBits (mChoiceBits d) = mTotalMults d
     \<and> length (mRecvOts d) = mTotalMults d \<and> length (mSendOts d) = mTotalMults d \<and> mOtIdx d + n \<le> mTotalMults d \<and> 0 < mTotalMults d"

definition triple_bit :: "DpfMult \<Rightarrow> nat \<Rightarrow> bool" where
  "triple_bit d j = bv_bits (mChoiceBits d) ! (mOtIdx d + j)"

definition triple_block :: "DpfMult \<Rightarrow> nat \<Rightarrow> m128" where
  "triple_block d j = fst (mSendOts d ! (mOtIdx d + j)) XOR snd (mSendOts d ! (mOtIdx d + j))"

definition triple_prod :: "DpfMult \<Rightarrow> nat \<Rightarrow> m128" where
  "triple_prod d j = mRecvOts d ! (mOtIdx d + j) XOR fst (mSendOts d ! (mOtIdx d + j)) XOR (if triple_bit d j then triple_block d j else 0)"

text \<open>What a message says, and the result from both messages.\<close>

definition msg_theta :: "byte list \<Rightarrow> nat \<Rightarrow> m128" where
  "msg_theta buf j = of_bytes (take 16 (drop (16 * j) buf))"

definition msg_phi :: "nat \<Rightarrow> byte list \<Rightarrow> nat \<Rightarrow> bool" where
  "msg_phi n buf j = data_bit (drop (16 * n) buf) j"

definition product_at :: "DpfMult \<Rightarrow> nat \<Rightarrow> m128 \<Rightarrow> bool \<Rightarrow> m128" where
  "product_at d j th ph = triple_prod d j XOR (if triple_bit d j then th else 0) XOR (if ph then triple_block d j else 0)
     XOR (if mPartyIdx d \<noteq> 0 \<and> ph then th else 0)"

definition msg_size :: "nat \<Rightarrow> nat" where
  "msg_size n = 16 * (n + divCeil (pad_size 7 n) 128)"

lemma nth_chunks_msg: "j < n \<Longrightarrow> chunks 16 n buf ! j = take 16 (drop (16 * j) buf)"
proof (induction n arbitrary: buf j)
  case (Suc n)
  then show ?case by (cases j) (simp_all add: add.commute)
qed simp

lemma multiply_party:
  assumes d: "mult_ready p n d" and x: "bv_ok x" "mNumBits x = n" and y: "length y = n"
  obtains buf k where "multiply uninit peer x y n d = Await [Send peer [buf]] (\<lambda>_. Await [Recv peer (RRead (msg_size n) RDone)] k)"
    "length buf = msg_size n" "\<And>j. j < n \<Longrightarrow> msg_theta buf j = y ! j XOR triple_block d j" "\<And>j. j < n \<Longrightarrow> msg_phi n buf j = (bv_bits x ! j \<noteq> triple_bit d j)"
    "\<And>buf'. length buf' = msg_size n \<Longrightarrow> k [buf'] = Return (map (\<lambda>j. product_at d j (msg_theta buf j XOR msg_theta buf' j)
        (msg_phi n buf j \<noteq> msg_phi n buf' j)) [0..<n], d\<lparr>mOtIdx := mOtIdx d + n\<rparr>)"
proof -
  obtain a0 where a0: "bv_append_part BitVector_empty (mChoiceBits d) n (mOtIdx d) = Inr a0" "bv_ok a0"
    "bv_bits a0 = take n (drop (mOtIdx d) (bv_bits (mChoiceBits d)))"
    using bv_append_part_eq [of BitVector_empty "mChoiceBits d" "mOtIdx d" n] d by (auto simp: mult_ready_def split: if_splits)
  have na: "mNumBits a0 = n" using arg_cong [OF a0(3), of length] d by (auto simp: mult_ready_def min_def split: if_splits)
  have ab: "bv_bits a0 ! j = triple_bit d j" if "j < n" for j using that a0(3) d by (simp add: triple_bit_def mult_ready_def)
  have "res_map (bv_get a0) [0..<n] = Inr (map (\<lambda>j. if triple_bit d j then 1 else 0) [0..<n])"
    using ab na by (intro res_map_Inr) (auto simp: bv_get_eq simp del: nth_bv_bits)
  note as = this
  obtain ph0 where ph0: "bv_xor x a0 = Inr ph0" "bv_ok ph0" "bv_bits ph0 = map2 (\<noteq>) (bv_bits x) (bv_bits a0)"
    using bv_xor_ok [of x a0] x a0(2) na by auto
  have n0: "mNumBits ph0 = n" using arg_cong [OF ph0(3), of length] x(2) na by simp
  obtain ph where ph: "pad_to_byte 7 ph0 = Inr ph" "bv_ok ph" "mNumBits ph = pad_size 7 n" "take n (bv_bits ph) = bv_bits ph0"
    using pad_to_byte_ok [OF ph0(2), of 7] n0 by auto
  define theta where "theta = map (\<lambda>j. y ! j XOR triple_block d j) [0..<n]"
  define A0 where "A0 = map bit_block (map (\<lambda>j. if triple_bit d j then 1 else 0) [0..<n])"
  define b1 where "b1 = map (triple_block d) [0..<n]"
  define C where "C = map (triple_prod d) [0..<n]"
  define junk where "junk = map uninit [0..<msg_size n]"
  define buf where "buf = concat (map to_bytes theta) @ take (sizeBytes ph) (bv_data ph) @ drop (16 * n + sizeBytes ph) junk"
  have sz: "16 * (n + sizeBlocks ph) = msg_size n" by (simp add: msg_size_def sizeBlocks_def ph(3))
  have pre: "hasBaseOts d" using d by (simp add: mult_ready_def hasBaseOts_def)
  have AB: "A0 ! j = (if triple_bit d j then - 1 else 0)" "b1 ! j = triple_block d j" "C ! j = triple_prod d j" "theta ! j = y ! j XOR triple_block d j" if "j < n" for j
    using that by (simp_all add: A0_def b1_def C_def theta_def)
  have lt: "length (concat (map to_bytes theta)) = 16 * n"
    using length_concat_map_const [of theta to_bytes 16] by (simp add: theta_def)
  have lb: "length (take (sizeBytes ph) (bv_data ph)) = sizeBytes ph" "sizeBytes ph \<le> 16 * sizeBlocks ph" "mNumBits ph \<le> 8 * sizeBytes ph"
    using sizeBytes_facts [OF ph(2)] divCeil_bounds(2) [of 8 "mNumBits ph" "16 * sizeBlocks ph"] sizeBlocks_ge [of ph]
    by (simp_all add: sizeBytes_def)
  have blits: "blit (blit junk 0 (concat (map to_bytes theta))) (16 * n) (take (sizeBytes ph) (bv_data ph)) = buf"
    using lt lb sz by (simp add: blit_def buf_def add.commute)
  have buf: "length buf = msg_size n" using lt lb sz by (simp add: buf_def junk_def)
  have th: "msg_theta buf j = theta ! j" if "j < n" for j
  proof -
    have "take 16 (drop (16 * j) (concat (map to_bytes theta))) = to_bytes (theta ! j)"
      using nth_chunks_msg [of j n "concat (map to_bytes theta)"] chunks_concat [of theta to_bytes 16 "[]"] that by (simp add: theta_def)
    moreover have "take 16 (drop (16 * j) buf) = take 16 (drop (16 * j) (concat (map to_bytes theta)))"
      using lt that by (simp add: buf_def)
    ultimately show ?thesis by (simp add: msg_theta_def)
  qed
  have phb: "data_bit (drop (16 * n) buf) j = data_bit (bv_data ph) j" if "j < mNumBits ph" for j
  proof -
    have "drop (16 * n) buf = take (sizeBytes ph) (bv_data ph) @ drop (16 * n + sizeBytes ph) junk" using lt by (simp add: buf_def)
    moreover have "j div 8 < sizeBytes ph" using that lb(3) by linarith
    ultimately show ?thesis using lb(1) by (simp add: data_bit_def nth_append)
  qed
  have start: "multiply uninit peer x y n d = Await [Send peer [buf]] (\<lambda>_. Await [Recv peer (RRead (msg_size n) RDone)] (\<lambda>r. mult_finish d n A0 b1 C theta ph (r ! 0)))"
  proof -
    have C: "map (\<lambda>j. mRecvOts d ! (mOtIdx d + j) XOR fst (mSendOts d ! (mOtIdx d + j)) XOR (b1 ! j AND A0 ! j)) [0..<n] = C"
      unfolding C_def by (rule map_cong) (use AB in \<open>auto simp: triple_prod_def\<close>)
    have t: "map (\<lambda>j. y ! j XOR b1 ! j) [0..<n] = theta" unfolding theta_def by (rule map_cong) (use AB in auto)
    have b: "map (\<lambda>j. let s = mSendOts d ! (mOtIdx d + j) in fst s XOR snd s) [0..<n] = b1" by (simp add: b1_def triple_block_def Let_def)
    have "\<not> mTotalMults d < n + mOtIdx d" "\<not> length (mRecvOts d) < n + mOtIdx d" "\<not> length (mSendOts d) < n + mOtIdx d"
      using d by (simp_all add: mult_ready_def)
    then show ?thesis
      unfolding multiply_def x(2) Let_def
      by (simp only: y pre a0(1) as ph0(1) ph(1) lift_result_simps bind.simps A0_def [symmetric] b [unfolded Let_def] C t sz blits junk_def [symmetric]
          not_True_eq_False not_False_eq_True if_False simp_thms)
  qed
  show thesis
  proof (rule that [OF start buf])
    show "msg_theta buf j = y ! j XOR triple_block d j" if "j < n" for j using th AB that by simp
    have n_le: "n \<le> mNumBits ph" using pad_size_ge [of n 7] ph(3) by simp
    show ph_bit: "msg_phi n buf j = (bv_bits x ! j \<noteq> triple_bit d j)" if "j < n" for j
    proof -
      have "msg_phi n buf j = bv_bits ph0 ! j" using phb [of j] that n_le n0 arg_cong [OF ph(4), of "\<lambda>l. l ! j"] by (simp add: msg_phi_def)
      also have "\<dots> = (bv_bits x ! j \<noteq> bv_bits a0 ! j)" unfolding ph0(3) using that x(2) na by (intro map2_nth) simp_all
      finally show ?thesis using ab that by simp
    qed
    fix buf' :: "byte list" assume buf': "length buf' = msg_size n"
    show "mult_finish d n A0 b1 C theta ph ([buf'] ! 0) = Return (map (\<lambda>j. product_at d j (msg_theta buf j XOR msg_theta buf' j)
        (msg_phi n buf j \<noteq> msg_phi n buf' j)) [0..<n], d\<lparr>mOtIdx := mOtIdx d + n\<rparr>)"
    proof -
      have "mNumBits ph \<le> 8 * length (drop (16 * n) buf')" using buf' sz lb by simp
      then obtain p1 where p1: "BitVector_of (drop (16 * n) buf') (mNumBits ph) 0 = Inr p1" "bv_ok p1"
        "bv_bits p1 = data_bits (drop (16 * n) buf') 0 (mNumBits ph)"
        using bv_append_ok [of BitVector_empty "mNumBits ph" 0 "drop (16 * n) buf'"] by (auto simp: BitVector_of_def)
      have np: "mNumBits p1 = mNumBits ph" using arg_cong [OF p1(3), of length] by simp
      obtain p2 where p2: "bv_xor_eq ph p1 = Inr p2" "bv_ok p2" "bv_bits p2 = map2 (\<noteq>) (bv_bits ph) (bv_bits p1)"
        using bv_ops_ok(3) [OF ph(2) p1(2)] np by auto
      have n2: "mNumBits p2 = mNumBits ph" using arg_cong [OF p2(3), of length] np by simp
      have b2: "bv_bits p2 ! j = (msg_phi n buf j \<noteq> msg_phi n buf' j)" if "j < n" for j
      proof -
        have "bv_bits p2 ! j = (bv_bits ph ! j \<noteq> bv_bits p1 ! j)" unfolding p2(3) using that n_le np by (intro map2_nth) simp_all
        then show ?thesis using phb [of j] that n_le p1(3) by (simp add: msg_phi_def)
      qed
      have "res_map (bv_get p2) [0..<n] = Inr (map (\<lambda>j. if msg_phi n buf j \<noteq> msg_phi n buf' j then 1 else 0) [0..<n])"
        using b2 n_le n2 by (intro res_map_Inr) (auto simp: bv_get_eq simp del: nth_bv_bits)
      then show ?thesis
        using p1(1) p2(1) AB th nth_chunks_msg [of _ n buf']
        by (auto simp: mult_finish_def Let_def product_at_def msg_theta_def ac_simps)
    qed
  qed
qed

text \<open>The transfers of two multipliers match; then the results are shares of the products.\<close>

definition ots_match :: "DpfMult \<Rightarrow> DpfMult \<Rightarrow> bool" where
  "ots_match d0 d1 \<longleftrightarrow> mTotalMults d0 = mTotalMults d1 \<and> mOtIdx d0 = mOtIdx d1
     \<and> (\<forall>i<mTotalMults d0. mRecvOts d0 ! i = sel (mSendOts d1 ! i) (bv_bits (mChoiceBits d0) ! i)
          \<and> mRecvOts d1 ! i = sel (mSendOts d0 ! i) (bv_bits (mChoiceBits d1) ! i))"

lemma triple_ok:
  assumes "ots_match d0 d1" "mOtIdx d0 + j < mTotalMults d0"
  shows "triple_prod d0 j XOR triple_prod d1 j = (if triple_bit d0 j \<noteq> triple_bit d1 j then triple_block d0 j XOR triple_block d1 j else 0)"
proof -
  have "mRecvOts d0 ! (mOtIdx d0 + j) = sel (mSendOts d1 ! (mOtIdx d0 + j)) (triple_bit d0 j)"
    "mRecvOts d1 ! (mOtIdx d0 + j) = sel (mSendOts d0 ! (mOtIdx d0 + j)) (triple_bit d1 j)" "mOtIdx d1 = mOtIdx d0"
    using assms by (auto simp: ots_match_def triple_bit_def)
  then show ?thesis
    by (cases "triple_bit d0 j"; cases "triple_bit d1 j"; simp add: triple_prod_def triple_block_def sel_def xor_simps)
qed

lemma product_shares:
  assumes "ots_match d0 d1" "mOtIdx d0 + j < mTotalMults d0" "mPartyIdx d0 = 0" "mPartyIdx d1 = 1"
    and "th = y0 XOR triple_block d0 j XOR (y1 XOR triple_block d1 j)" "ph \<longleftrightarrow> (x0 \<noteq> triple_bit d0 j) \<noteq> (x1 \<noteq> triple_bit d1 j)"
  shows "product_at d0 j th ph XOR product_at d1 j th ph = (if x0 \<noteq> x1 then y0 XOR y1 else 0)"
proof -
  have "product_at d0 j th ph XOR product_at d1 j th ph
      = (triple_prod d0 j XOR triple_prod d1 j) XOR (if triple_bit d0 j \<noteq> triple_bit d1 j then th else 0)
        XOR (if ph then triple_block d0 j XOR triple_block d1 j XOR th else 0)"
    using assms(3,4) by (cases "triple_bit d0 j"; cases "triple_bit d1 j"; cases ph; simp add: product_at_def xor_simps)
  then show ?thesis
    unfolding triple_ok [OF assms(1,2)] assms(5,6)
    by (cases "triple_bit d0 j"; cases "triple_bit d1 j"; cases x0; cases x1; simp add: xor_simps)
qed

lemma multiply_joint:
  assumes d: "mult_ready 0 n d0" "mult_ready 1 n d1" "ots_match d0 d1"
    and x: "bv_ok x0" "mNumBits x0 = n" "bv_ok x1" "mNumBits x1 = n" and y: "length y0 = n" "length y1 = n"
  obtains xy0 xy1 where "length xy0 = n" "length xy1 = n"
    "\<And>j. j < n \<Longrightarrow> xy0 ! j XOR xy1 ! j = (if bv_bits x0 ! j \<noteq> bv_bits x1 ! j then y0 ! j XOR y1 ! j else 0)"
    "joint (three (multiply u0 P1 x0 y0 n d0) (multiply u1 P0 x1 y1 n d1) (Return c)) quiet
       (three (xy0, d0\<lparr>mOtIdx := mOtIdx d0 + n\<rparr>) (xy1, d1\<lparr>mOtIdx := mOtIdx d1 + n\<rparr>) c) quiet"
proof -
  obtain m0 k0 where m0: "multiply u0 P1 x0 y0 n d0 = Await [Send P1 [m0]] (\<lambda>_. Await [Recv P1 (RRead (msg_size n) RDone)] k0)"
    "length m0 = msg_size n" "\<And>j. j < n \<Longrightarrow> msg_theta m0 j = y0 ! j XOR triple_block d0 j" "\<And>j. j < n \<Longrightarrow> msg_phi n m0 j = (bv_bits x0 ! j \<noteq> triple_bit d0 j)"
    "\<And>buf'. length buf' = msg_size n \<Longrightarrow> k0 [buf'] = Return (map (\<lambda>j. product_at d0 j (msg_theta m0 j XOR msg_theta buf' j)
        (msg_phi n m0 j \<noteq> msg_phi n buf' j)) [0..<n], d0\<lparr>mOtIdx := mOtIdx d0 + n\<rparr>)"
    using multiply_party [OF d(1) x(1,2) y(1), of u0 P1] by blast
  obtain m1 k1 where m1: "multiply u1 P0 x1 y1 n d1 = Await [Send P0 [m1]] (\<lambda>_. Await [Recv P0 (RRead (msg_size n) RDone)] k1)"
    "length m1 = msg_size n" "\<And>j. j < n \<Longrightarrow> msg_theta m1 j = y1 ! j XOR triple_block d1 j" "\<And>j. j < n \<Longrightarrow> msg_phi n m1 j = (bv_bits x1 ! j \<noteq> triple_bit d1 j)"
    "\<And>buf'. length buf' = msg_size n \<Longrightarrow> k1 [buf'] = Return (map (\<lambda>j. product_at d1 j (msg_theta m1 j XOR msg_theta buf' j)
        (msg_phi n m1 j \<noteq> msg_phi n buf' j)) [0..<n], d1\<lparr>mOtIdx := mOtIdx d1 + n\<rparr>)"
    using multiply_party [OF d(2) x(3,4) y(2), of u1 P0] by blast
  let ?th = "\<lambda>j. msg_theta m0 j XOR msg_theta m1 j" and ?ph = "\<lambda>j. msg_phi n m0 j \<noteq> msg_phi n m1 j"
  have k0: "k0 [m1] = Return (map (\<lambda>j. product_at d0 j (?th j) (?ph j)) [0..<n], d0\<lparr>mOtIdx := mOtIdx d0 + n\<rparr>)" by (rule m0(5) [OF m1(2)])
  have k1: "k1 [m0] = Return (map (\<lambda>j. product_at d1 j (?th j) (?ph j)) [0..<n], d1\<lparr>mOtIdx := mOtIdx d1 + n\<rparr>)"
    using m1(5) [OF m0(2)] by (simp add: xor.commute eq_commute [of "msg_phi n m1 _"])
  show thesis
  proof (rule that)
    fix j assume j: "j < n"
    have "product_at d0 j (?th j) (?ph j) XOR product_at d1 j (?th j) (?ph j) = (if bv_bits x0 ! j \<noteq> bv_bits x1 ! j then y0 ! j XOR y1 ! j else 0)"
      by (rule product_shares [OF d(3)]) (use d j m0(3,4) m1(3,4) in \<open>auto simp: mult_ready_def xor.assoc\<close>)
    with j show "map (\<lambda>j. product_at d0 j (?th j) (?ph j)) [0..<n] ! j XOR map (\<lambda>j. product_at d1 j (?th j) (?ph j)) [0..<n] ! j
        = (if bv_bits x0 ! j \<noteq> bv_bits x1 ! j then y0 ! j XOR y1 ! j else 0)" by simp
  next
    have "reaches (three (multiply u0 P1 x0 y0 n d0) (multiply u1 P0 x1 y1 n d1) (Return c)) quiet (three (k0 [m1]) (k1 [m0]) (Return c)) quiet"
      unfolding m0(1) m1(1) by (rule exchange01) (simp_all add: m0(2) m1(2))
    then show "joint (three (multiply u0 P1 x0 y0 n d0) (multiply u1 P0 x1 y1 n d1) (Return c)) quiet
       (three (map (\<lambda>j. product_at d0 j (?th j) (?ph j)) [0..<n], d0\<lparr>mOtIdx := mOtIdx d0 + n\<rparr>)
          (map (\<lambda>j. product_at d1 j (?th j) (?ph j)) [0..<n], d1\<lparr>mOtIdx := mOtIdx d1 + n\<rparr>) c) quiet"
      unfolding k0 k1 by (rule reaches_joint) (rule joint_three_return)
  qed simp_all
qed

end
