(* ===== verification/DistDpf.thy ===== *)
theory DistDpf
  imports DpfMultiplier SimplestOt
begin

text \<open>
  \<^verbatim>\<open>libOTe/Dpf/RegularDpf.h\<close>: distributed point functions with many trees at once. Keys are generated by a dealer
  (\<^verbatim>\<open>keyGen\<close>), or by the two parties together from shares of the points and the values (the member \<^verbatim>\<open>keyGen\<close>), and
  expanded to the full domain with a key or interactively; one function, \<^verbatim>\<open>implExpand\<close>, does all but the first. The
  three buffers of seeds and tags are functions from a row and a column. Uninitialised memory is an argument: \<open>junk\<close> for the
  three buffers and, at \<open>3\<close>, for the vector of leaf corrections, \<open>heap\<close> for the message of a product at every level.
\<close>

section \<open>The code: blocks and bits\<close>

definition sub_epi64 :: "m128 \<Rightarrow> m128 \<Rightarrow> m128" where
  "sub_epi64 a b = mm_set_epi64x (mm_extract_epi64_1 a - mm_extract_epi64_1 b) (mm_cvtsi128_si64 a - mm_cvtsi128_si64 b)"

definition unpacklo_epi64 :: "m128 \<Rightarrow> m128 \<Rightarrow> m128" where
  "unpacklo_epi64 a b = mm_set_epi64x (mm_cvtsi128_si64 b) (mm_cvtsi128_si64 a)"

definition allSame_u8 :: "u8 \<Rightarrow> m128" where
  "allSame_u8 v = of_bytes (replicate 16 v)"

definition lsb :: "m128 \<Rightarrow> u8" where
  "lsb b = to_bytes b ! 0 AND 1"

definition tagBit :: "m128 \<Rightarrow> m128" where
  "tagBit b = (let bit = b AND mm_set_epi64x 0 1; mask = sub_epi64 (mm_set_epi64x 0 0) bit in unpacklo_epi64 mask mask)"

text \<open>\<^verbatim>\<open>*BitIterator(&b) = v\<close> and \<^verbatim>\<open>*BitIterator(&point, i)\<close>.\<close>

definition put_bit0 :: "m128 \<Rightarrow> u8 \<Rightarrow> m128" where
  "put_bit0 b v = of_bytes ((to_bytes b)[0 := BitReference_set (to_bytes b ! 0) 0 v])"

definition point_bit :: "u64 \<Rightarrow> nat \<Rightarrow> u8" where
  "point_bit p i = it_deref (to_bytes p) (BitIterator_at 0 i)"

definition roundUpTo :: "nat \<Rightarrow> nat \<Rightarrow> nat" where
  "roundUpTo val step = divCeil val step * step"

section \<open>The code: keys\<close>

text \<open>
  The matrices as lists of their rows, one row per level. A matrix that is resized keeps its elements in their order,
  with zeroes behind them; this is \<^verbatim>\<open>Matrix::resize\<close> for a matrix that was never shrunk to no elements.
\<close>

fun reshape :: "'b list list \<Rightarrow> 'a list \<Rightarrow> 'a list list" where
  "reshape [] xs = []"
| "reshape (r # m) xs = take (length r) xs # reshape m (drop (length r) xs)"

definition matrix_resize :: "nat \<Rightarrow> nat \<Rightarrow> 'a::zero list list \<Rightarrow> 'a list list" where
  "matrix_resize rows cols m =
     reshape (replicate rows (replicate cols ())) (take (rows * cols) (concat m @ replicate (rows * cols) 0))"

record RegularDpfKey =
  mSeed :: m128
  mCorrectionWords :: "m128 list list"
  mCorrectionBits :: "u8 list list"
  mLeafVals :: "m128 list"

definition key_resize :: "nat \<Rightarrow> nat \<Rightarrow> bool \<Rightarrow> RegularDpfKey \<Rightarrow> RegularDpfKey result" where
  "key_resize domain numTrees programLeafVal k =
     (let depth = log2ceil domain in
      if depth = 0 then Inl (Runtime_error ''RTE_LOC'')
      else Inr (k\<lparr>mCorrectionWords := matrix_resize depth numTrees (mCorrectionWords k),
                  mCorrectionBits := matrix_resize depth numTrees (mCorrectionBits k),
                  mLeafVals := (if programLeafVal then take numTrees (mLeafVals k) @ replicate (numTrees - length (mLeafVals k)) 0 else mLeafVals k)\<rparr>))"

definition key_equals :: "RegularDpfKey \<Rightarrow> RegularDpfKey \<Rightarrow> bool" where
  "key_equals k o' \<longleftrightarrow> mSeed k = mSeed o' \<and> mCorrectionWords k = mCorrectionWords o' \<and> mCorrectionBits k = mCorrectionBits o' \<and> mLeafVals k = mLeafVals o'"

definition key_sizeBytes :: "RegularDpfKey \<Rightarrow> nat" where
  "key_sizeBytes k = 16 * (1 + length (concat (mCorrectionWords k)) + length (mLeafVals k)) + length (concat (mCorrectionBits k))"

definition copyBytesMin :: "byte list \<Rightarrow> byte list \<Rightarrow> byte list" where
  "copyBytesMin d s = blit d 0 (take (min (length s) (length d)) s)"

definition copyBytes :: "byte list \<Rightarrow> byte list \<Rightarrow> byte list result" where
  "copyBytes d s = (if length d \<noteq> length s then Inl (Runtime_error ''RTE_LOC'') else Inr s)"

text \<open>\<open>dest.subspan(off)\<close> as the destination of a copy.\<close>

definition copy_into :: "byte list \<Rightarrow> nat \<Rightarrow> byte list \<Rightarrow> byte list" where
  "copy_into dest off src = take off dest @ copyBytesMin (drop off dest) src"

definition key_toBytes :: "RegularDpfKey \<Rightarrow> byte list \<Rightarrow> byte list result" where
  "key_toBytes k dest =
     (if length dest \<noteq> key_sizeBytes k then Inl (Runtime_error ''RTE_LOC'')
      else let dest = copy_into dest 0 (to_bytes (mSeed k));
               off = 16;
               dest = copy_into dest off (concat (map to_bytes (concat (mCorrectionWords k))));
               off = off + length (concat (mCorrectionWords k)) * 16;
               dest = copy_into dest off (concat (mCorrectionBits k));
               off = off + length (concat (mCorrectionBits k))
           in res_bind (copyBytes (drop off dest) (concat (map to_bytes (mLeafVals k)))) (\<lambda>leaf. Inr (take off dest @ leaf)))"

definition blocks_of :: "byte list \<Rightarrow> m128 list" where
  "blocks_of bs = map of_bytes (chunks 16 (length bs div 16) bs)"

definition key_fromBytes :: "RegularDpfKey \<Rightarrow> byte list \<Rightarrow> RegularDpfKey result" where
  "key_fromBytes k src =
     (if length src \<noteq> key_sizeBytes k then Inl (Runtime_error ''RTE_LOC'')
      else let seed = of_bytes (copyBytesMin (to_bytes (mSeed k)) src);
               src = drop 16 src;
               words = copyBytesMin (concat (map to_bytes (concat (mCorrectionWords k)))) src;
               src = drop (length (concat (mCorrectionWords k)) * 16) src;
               bits = copyBytesMin (concat (mCorrectionBits k)) src;
               src = drop (length (concat (mCorrectionBits k))) src
           in res_bind (copyBytes (concat (map to_bytes (mLeafVals k))) src) (\<lambda>leaf.
              Inr \<lparr>mSeed = seed, mCorrectionWords = reshape (mCorrectionWords k) (blocks_of words),
                   mCorrectionBits = reshape (mCorrectionBits k) bits, mLeafVals = blocks_of leaf\<rparr>))"

section \<open>The code: the protocol\<close>

record RegularDpf =
  dpfPartyIdx :: nat
  mDomain :: nat
  mDepth :: nat
  mNumPoints :: nat
  mMultiplier :: DpfMult

definition RegularDpf_new :: RegularDpf where
  "RegularDpf_new = \<lparr>dpfPartyIdx = 0, mDomain = 0, mDepth = 0, mNumPoints = 0,
     mMultiplier = \<lparr>mPartyIdx = 0, mTotalMults = 0, mChoiceBits = BitVector_empty, mRecvOts = [], mSendOts = [], mOtIdx = 0\<rparr>\<rparr>"

definition dpf_init :: "nat \<Rightarrow> nat \<Rightarrow> nat \<Rightarrow> RegularDpf \<Rightarrow> RegularDpf result" where
  "dpf_init partyIdx domain numPoints d =
     (if 1 < partyIdx then Inl (Runtime_error ''RTE_LOC'')
      else if domain < 2 then Inl (Runtime_error ''RTE_LOC'')
      else if numPoints = 0 then Inl (Runtime_error ''RTE_LOC'')
      else let depth = log2ceil domain
           in res_bind (mult_init partyIdx (numPoints * depth) (mMultiplier d)) (\<lambda>m.
              Inr (d\<lparr>mDepth := depth, dpfPartyIdx := partyIdx, mDomain := domain, mNumPoints := numPoints, mMultiplier := m\<rparr>)))"

definition baseOtCount :: "RegularDpf \<Rightarrow> nat" where
  "baseOtCount d = mTotalMults (mMultiplier d)"

definition dpf_setBaseOts :: "ot_pair list \<Rightarrow> m128 list \<Rightarrow> BitVector \<Rightarrow> RegularDpf \<Rightarrow> RegularDpf result" where
  "dpf_setBaseOts send recv choices d =
     res_bind (mult_setBaseOts send recv choices (mMultiplier d)) (\<lambda>m. Inr (d\<lparr>mMultiplier := m\<rparr>))"

text \<open>
  The state of the loop over the levels: the buffers \<open>s\<close> (buffer, row, column), \<open>z\<close> and \<open>sigma\<close> of the left and the
  right child, and the rows of the output key.
\<close>

record expand_state =
  st_s :: "nat \<Rightarrow> nat \<Rightarrow> nat \<Rightarrow> m128"
  st_z :: "nat \<Rightarrow> nat \<Rightarrow> m128"
  st_sigma :: "nat \<Rightarrow> nat \<Rightarrow> m128"
  st_words :: "m128 list list"
  st_bits :: "u8 list list"
  st_dpf :: RegularDpf

text \<open>The allocated rows of the three buffers.\<close>

definition s_rows :: "RegularDpf \<Rightarrow> nat \<Rightarrow> nat" where
  "s_rows d b =
     (let pow2 = 2 ^ log2ceil (mDomain d) in
      if b = (mDepth d + 1) mod 3 then pow2 div 4 else if b = (mDepth d + 2) mod 3 then pow2 div 2 else pow2)"

text \<open>
  The order in which a row of parents is worked on: columns in batches of eight, in each batch the left and then the
  right child, then the columns left over. A batch of eight encryptions is eight encryptions.
\<close>

definition lane_order :: "nat \<Rightarrow> (nat \<times> nat) list" where
  "lane_order n =
     (let n8 = n div 8 * 8 in
      concat (map (\<lambda>b. concat (map (\<lambda>j. map (\<lambda>q. (j, 8 * b + q)) [0..<8]) [0, 1])) [0..<n8 div 8])
      @ concat (map (\<lambda>k. [(0, k), (1, k)]) [n8..<n]))"

definition visits :: "nat \<Rightarrow> nat \<Rightarrow> (nat \<times> nat \<times> nat) list" where
  "visits rows n = concat (map (\<lambda>L. map (\<lambda>(j, k). (L, j, k)) (lane_order n)) [0..<(rows + 1) div 2])"

definition grandchild :: "m128 \<Rightarrow> nat \<Rightarrow> m128" where
  "grandchild seed j =
     (let temp = ecbEncBlock NI mAesFixedKey seed in if j = 0 then roundEnc NI temp seed else add_epi64 temp seed)"

definition expand_node :: "(nat \<Rightarrow> nat \<Rightarrow> m128) \<Rightarrow> (nat \<Rightarrow> nat \<Rightarrow> m128) \<Rightarrow> nat \<times> nat \<times> nat
    \<Rightarrow> (nat \<Rightarrow> nat \<Rightarrow> m128) \<times> (nat \<Rightarrow> nat \<Rightarrow> m128) \<times> (nat \<Rightarrow> nat \<Rightarrow> m128) \<Rightarrow> (nat \<Rightarrow> nat \<Rightarrow> m128) \<times> (nat \<Rightarrow> nat \<Rightarrow> m128) \<times> (nat \<Rightarrow> nat \<Rightarrow> m128)" where
  "expand_node tp sigma = (\<lambda>(L, j, k) (sc, sg, z).
     (let cur = sc (2 * L + j) k XOR (tp L k AND sigma j k);
          child0 = grandchild cur 0;
          child1 = grandchild cur 1;
          sg = sg(4 * L + 2 * j := (sg (4 * L + 2 * j))(k := child0));
          sg = sg(4 * L + 2 * j + 1 := (sg (4 * L + 2 * j + 1))(k := child1));
          z = z(0 := (z 0)(k := z 0 k XOR child0), 1 := (z 1)(k := z 1 k XOR child1));
          sc = sc(2 * L + j := (sc (2 * L + j))(k := tagBit cur))
      in (sc, sg, z)))"

definition expand_level :: "nat \<Rightarrow> expand_state \<Rightarrow> expand_state result" where
  "expand_level iter st =
     (let d = st_dpf st; p = (iter - 1) mod 3; c = iter mod 3; g = (iter + 1) mod 3; rows = 2 ^ iter in
      if iter = mDepth d then Inr st
      else if s_rows d p < rows div 2 \<or> s_rows d c < rows \<or> s_rows d g < 2 * rows then Inl (Undefined ''row out of range'')
      else
        let (sc, sg, z) = fold (expand_node (st_s st p) (st_sigma st)) (visits rows (mNumPoints d)) (st_s st c, st_s st g, \<lambda>_ _. 0)
        in Inr (st\<lparr>st_s := (st_s st)(c := sc, g := sg), st_z := z\<rparr>))"

text \<open>The corrections of a level, from a key or by the protocol.\<close>

definition key_row :: "RegularDpfKey \<Rightarrow> nat \<Rightarrow> nat \<Rightarrow> (m128 list \<times> u8 list) result" where
  "key_row k iter n =
     (if length (mCorrectionWords k) < iter \<or> length (mCorrectionBits k) < iter \<or> length (mCorrectionWords k ! (iter - 1)) < n
         \<or> length (mCorrectionBits k ! (iter - 1)) < n then Inl (Undefined ''index out of range'')
      else Inr (mCorrectionWords k ! (iter - 1), mCorrectionBits k ! (iter - 1)))"

definition sigma_of :: "m128 list \<Rightarrow> u8 list \<Rightarrow> nat \<Rightarrow> nat \<Rightarrow> m128" where
  "sigma_of cw cb j k = (if j = 0 then cw ! k else put_bit0 (cw ! k) (cb ! k))"

text \<open>\<^verbatim>\<open>*iter++ = bits[k]\<close> for an iterator that starts at the byte \<open>at\<close>.\<close>

definition write_bits :: "nat \<Rightarrow> u8 list \<Rightarrow> byte list \<Rightarrow> byte list" where
  "write_bits at bits buf =
     fold (\<lambda>k buf. let it = (it_inc ^^ k) (BitIterator_at at 0)
                   in buf[it_byte it := BitReference_set (buf ! it_byte it) (it_shift it) (bits ! k)]) [0..<length bits] buf"

definition correction :: "(nat \<Rightarrow> byte) \<Rightarrow> role \<Rightarrow> u64 list \<Rightarrow> nat \<Rightarrow> (nat \<Rightarrow> nat \<Rightarrow> m128) \<Rightarrow> RegularDpf \<Rightarrow> ((m128 list \<times> u8 list) \<times> RegularDpf) coro" where
  "correction heap peer points iter z d =
     (let n = mNumPoints d;
          party = of_nat (dpfPartyIdx d);
          alphaj = (\<lambda>k. point_bit (points ! k) (mDepth d - iter));
          diff = map (\<lambda>k. put_bit0 (z 0 k XOR z 1 k) 0) [0..<n]
      in bind (lift_result (put_all bv_set (bv_reset BitVector_empty n) 0 (map (\<lambda>k. alphaj k XOR party) [0..<n]))) (\<lambda>negAlphaj.
         bind (multiply heap peer negAlphaj diff n (mMultiplier d)) (\<lambda>(diff, m).
         let sigmaMult = map (\<lambda>k. diff ! k XOR z 0 k XOR mm_set_epi64x 0 (ucast (party XOR alphaj k))) [0..<n];
             bufBytes = 16 * (n + divCeil n 128);
             buff = write_bits (16 * n) (map (\<lambda>k. lsb (z 1 k) XOR alphaj k) [0..<n])
                      (concat (map to_bytes sigmaMult) @ replicate (16 * divCeil n 128) 0)
         in Await [Send peer [buff]] (\<lambda>_.
            Await [Recv peer (RRead bufBytes RDone)] (\<lambda>r.
            let buff = r ! 0;
                sigma1Bit = (\<lambda>k. it_deref buff ((it_inc ^^ k) (BitIterator_at (16 * n) 0)) XOR lsb (z 1 k) XOR alphaj k)
            in Return ((map (\<lambda>k. of_bytes (take 16 (drop (16 * k) buff)) XOR sigmaMult ! k) [0..<n], map sigma1Bit [0..<n]), d\<lparr>mMultiplier := m\<rparr>))))))"


text \<open>The start: the two seeds below every root are drawn, the tag of the root is the party. The levels follow.\<close>

definition expand_start :: "(nat \<Rightarrow> nat \<Rightarrow> nat \<Rightarrow> m128) \<Rightarrow> ot_pair list \<Rightarrow> RegularDpf \<Rightarrow> expand_state result" where
  "expand_start junk roots d =
     (let sc0 = (\<lambda>k. fst (roots ! k));
          sc1 = (\<lambda>k. snd (roots ! k));
          tag = (\<lambda>k. allSame_u8 (- of_nat (dpfPartyIdx d)))
      in if s_rows d 1 < 2 \<or> s_rows d 0 < 1 then Inl (Undefined ''row out of range'')
         else Inr \<lparr>st_s = junk(1 := (junk 1)(0 := sc0, 1 := sc1), 0 := (junk 0)(0 := tag)), st_z = (\<lambda>j. if j = 0 then sc0 else sc1),
                   st_sigma = (\<lambda>_ _. 0), st_words = [], st_bits = [], st_dpf = d\<rparr>)"

fun expand_levels :: "(nat \<Rightarrow> nat \<Rightarrow> byte) \<Rightarrow> role \<Rightarrow> u64 list \<Rightarrow> RegularDpfKey option \<Rightarrow> nat list \<Rightarrow> expand_state \<Rightarrow> expand_state coro" where
  "expand_levels heap peer points inputKey [] st = Return st"
| "expand_levels heap peer points inputKey (iter # iters) st =
     bind (case inputKey of
             Some k \<Rightarrow> bind (lift_result (key_row k iter (mNumPoints (st_dpf st)))) (\<lambda>row. Return (row, st_dpf st))
           | None \<Rightarrow> correction (heap iter) peer points iter (st_z st) (st_dpf st)) (\<lambda>((cw, cb), d).
     bind (lift_result (expand_level iter (st\<lparr>st_sigma := sigma_of cw cb, st_words := st_words st @ [cw], st_bits := st_bits st @ [cb],
                                              st_dpf := d\<rparr>)))
       (expand_levels heap peer points inputKey iters))"

definition leaf_node :: "(nat \<Rightarrow> nat \<Rightarrow> m128) \<Rightarrow> (nat \<Rightarrow> nat \<Rightarrow> m128) \<Rightarrow> nat \<times> nat \<times> nat
    \<Rightarrow> (nat \<Rightarrow> nat \<Rightarrow> m128) \<times> (nat \<Rightarrow> nat \<Rightarrow> m128) \<times> (nat \<Rightarrow> m128) \<Rightarrow> (nat \<Rightarrow> nat \<Rightarrow> m128) \<times> (nat \<Rightarrow> nat \<Rightarrow> m128) \<times> (nat \<Rightarrow> m128)" where
  "leaf_node tp sigma = (\<lambda>(L, j, k) (sc, tc, diff).
     (let temp = sc (2 * L + j) k XOR (tp L k AND sigma j k);
          rr = roundEnc NI temp temp;
          tc = tc(2 * L + j := (tc (2 * L + j))(k := tagBit temp));
          sc = sc(2 * L + j := (sc (2 * L + j))(k := rr))
      in (sc, tc, diff(k := diff k XOR rr))))"

definition leaf_level :: "expand_state \<Rightarrow> ((nat \<Rightarrow> nat \<Rightarrow> m128) \<times> (nat \<Rightarrow> nat \<Rightarrow> m128) \<times> (nat \<Rightarrow> m128)) result" where
  "leaf_level st =
     (let d = st_dpf st; rows = roundUpTo (mDomain d) 2; p = (mDepth d - 1) mod 3; c = mDepth d mod 3 in
      if s_rows d p < rows div 2 \<or> s_rows d c < rows then Inl (Undefined ''row out of range'')
      else Inr (fold (leaf_node (st_s st p) (st_sigma st)) (visits rows (mNumPoints d)) (st_s st c, \<lambda>_ _. 0, \<lambda>_. 0)))"

text \<open>The calls of \<^verbatim>\<open>output(treeIdx, leafIdx, value, tag)\<close>, in their order.\<close>

definition leaf_events :: "RegularDpf \<Rightarrow> (nat \<Rightarrow> nat \<Rightarrow> m128) \<Rightarrow> (nat \<Rightarrow> nat \<Rightarrow> m128) \<Rightarrow> (nat \<times> nat \<times> m128 \<times> m128) list" where
  "leaf_events d value tag =
     concat (map (\<lambda>i. map (\<lambda>k. (k, i, value i k, tag i k)) [0..<mNumPoints d]) [0..<mDomain d])"

text \<open>The corrections of the leaves: copied from the key into uninitialised memory, or opened by the parties.\<close>

definition leaf_gamma :: "(nat \<Rightarrow> m128) \<Rightarrow> role \<Rightarrow> m128 list \<Rightarrow> RegularDpfKey option \<Rightarrow> nat \<Rightarrow> (nat \<Rightarrow> m128) \<Rightarrow> m128 list coro" where
  "leaf_gamma junk peer values inputKey n diff =
     (case inputKey of
        Some k \<Rightarrow> if n < length (mLeafVals k) then Throw (Undefined ''copy past the end'')
                   else Return (mLeafVals k @ map junk [length (mLeafVals k)..<n])
      | None \<Rightarrow>
          let diff = map (\<lambda>k. diff k XOR values ! k) [0..<n]
          in Await [Send peer [concat (map to_bytes diff)]] (\<lambda>_.
             Await [Recv peer (RRead (16 * n) RDone)] (\<lambda>r.
             Return (map (\<lambda>k. of_bytes (take 16 (drop (16 * k) (r ! 0))) XOR diff ! k) [0..<n]))))"

text \<open>
  \<open>outputKey\<close> is the content of the key before the call. The result: the calls of \<open>output\<close>, the key and the object.
\<close>

definition implExpand :: "(nat \<Rightarrow> nat \<Rightarrow> byte) \<Rightarrow> (nat \<Rightarrow> nat \<Rightarrow> nat \<Rightarrow> m128) \<Rightarrow> role \<Rightarrow> u64 list \<Rightarrow> m128 list \<Rightarrow> m128 \<Rightarrow> RegularDpfKey option \<Rightarrow> RegularDpfKey option
    \<Rightarrow> RegularDpf \<Rightarrow> ((nat \<times> nat \<times> m128 \<times> m128) list \<times> RegularDpfKey option \<times> RegularDpf) coro" where
  "implExpand heap junk peer points values seed inputKey outputKey d =
     (let n = mNumPoints d in
      if (case inputKey of None \<Rightarrow> length points \<noteq> n \<or> values \<noteq> [] \<and> length values \<noteq> n | Some _ \<Rightarrow> outputKey \<noteq> None)
      then Throw (Runtime_error ''RTE_LOC'')
      else
        bind (lift_result (case outputKey of None \<Rightarrow> Inr None | Some k \<Rightarrow> map_sum id Some (key_resize (mDomain d) n False k))) (\<lambda>outputKey.
        let seed = (case inputKey of None \<Rightarrow> seed | Some k \<Rightarrow> mSeed k) in
        bind (lift_result (PRNG_seeded seed 256)) (\<lambda>basePeng.
        bind (draw_pads n basePeng) (\<lambda>(roots, _).
        bind (lift_result (expand_start junk roots d)) (\<lambda>st.
        bind (expand_levels heap peer points inputKey [1..<Suc (mDepth d)] st) (\<lambda>st.
        let outputKey = map_option (\<lambda>k. k\<lparr>mSeed := seed, mCorrectionWords := st_words st, mCorrectionBits := st_bits st\<rparr>) outputKey in
        if values = [] \<and> outputKey \<noteq> None then Return ([], outputKey, st_dpf st)
        else
          bind (lift_result (leaf_level st)) (\<lambda>(sd, td, diff).
          if values \<noteq> [] \<or> (case inputKey of None \<Rightarrow> False | Some k \<Rightarrow> mLeafVals k \<noteq> []) then
            bind (leaf_gamma (junk 3 0) peer values inputKey n diff) (\<lambda>gamma.
            case outputKey of
              Some k \<Rightarrow> Return ([], Some (k\<lparr>mLeafVals := mLeafVals k @ gamma\<rparr>), st_dpf st)
            | None \<Rightarrow> Return (leaf_events d (\<lambda>i k. sd i k XOR (td i k AND gamma ! k)) td, None, st_dpf st))
          else Return (leaf_events d sd td, None, st_dpf st))))))))"

definition dpf_expand :: "(nat \<Rightarrow> nat \<Rightarrow> byte) \<Rightarrow> (nat \<Rightarrow> nat \<Rightarrow> nat \<Rightarrow> m128) \<Rightarrow> role \<Rightarrow> u64 list \<Rightarrow> m128 list \<Rightarrow> m128 \<Rightarrow> RegularDpf
    \<Rightarrow> ((nat \<times> nat \<times> m128 \<times> m128) list \<times> RegularDpfKey option \<times> RegularDpf) coro" where
  "dpf_expand heap junk peer points values seed d = implExpand heap junk peer points values seed None None d"

definition dpf_keyGen :: "(nat \<Rightarrow> nat \<Rightarrow> byte) \<Rightarrow> (nat \<Rightarrow> nat \<Rightarrow> nat \<Rightarrow> m128) \<Rightarrow> role \<Rightarrow> u64 list \<Rightarrow> m128 list \<Rightarrow> m128 \<Rightarrow> RegularDpfKey \<Rightarrow> RegularDpf
    \<Rightarrow> ((nat \<times> nat \<times> m128 \<times> m128) list \<times> RegularDpfKey option \<times> RegularDpf) coro" where
  "dpf_keyGen heap junk peer points values seed outputKey d = implExpand heap junk peer points values seed None (Some outputKey) d"

text \<open>The static functions. \<open>peer\<close> is the end of a socket that is not connected.\<close>

definition matrix_cols :: "'a list list \<Rightarrow> nat" where
  "matrix_cols m = (case m of [] \<Rightarrow> 0 | row # _ \<Rightarrow> length row)"

definition static_expand :: "(nat \<Rightarrow> nat \<Rightarrow> byte) \<Rightarrow> (nat \<Rightarrow> nat \<Rightarrow> nat \<Rightarrow> m128) \<Rightarrow> role \<Rightarrow> nat \<Rightarrow> nat \<Rightarrow> RegularDpfKey
    \<Rightarrow> ((nat \<times> nat \<times> m128 \<times> m128) list \<times> RegularDpfKey option \<times> RegularDpf) coro" where
  "static_expand heap junk peer partyIdx domain key =
     bind (lift_result (dpf_init partyIdx domain (matrix_cols (mCorrectionBits key)) RegularDpf_new)) (\<lambda>d.
     implExpand heap junk peer [] [] 0 (Some key) None d)"

text \<open>\<^verbatim>\<open>keyGen\<close> of a dealer: per tree the two parties' seeds along the path to the point.\<close>

type_synonym path_state = "(nat \<Rightarrow> nat \<Rightarrow> m128) \<times> (nat \<Rightarrow> m128)"

definition gen_level :: "nat \<Rightarrow> u64 \<Rightarrow> nat \<Rightarrow> path_state \<Rightarrow> ((m128 \<times> u8) \<times> path_state) result" where
  "gen_level depth point iter = (\<lambda>(seeds, parentTags).
     (let a = point_bit point (depth - iter);
          na = a XOR 1;
          diff = seeds 0 (unat na) XOR seeds 1 (unat na);
          tau0 = lsb (seeds 0 0 XOR seeds 1 0) XOR na;
          tau1 = lsb (seeds 0 1 XOR seeds 1 1) XOR a;
          diff = put_bit0 diff tau0;
          sigma = (\<lambda>j. if j = 0 then diff else put_bit0 diff tau1);
          seeds = (\<lambda>p j. seeds p j XOR (sigma j AND parentTags p));
          parentTags = (\<lambda>p. tagBit (seeds p (unat a)))
      in if seeds 0 (unat na) \<noteq> seeds 1 (unat na) then Inl (Runtime_error ''RTE_LOC'')
         else if lsb (seeds 0 (unat a) XOR seeds 1 (unat a)) \<noteq> 1 then Inl (Runtime_error ''RTE_LOC'')
         else if parentTags 0 XOR parentTags 1 \<noteq> allSame_u8 (- 1) then Inl (Runtime_error ''RTE_LOC'')
         else Inr ((diff, tau1), (if iter \<noteq> depth then (\<lambda>p. grandchild (seeds p (unat a))) else seeds, parentTags))))"

fun gen_levels :: "nat \<Rightarrow> u64 \<Rightarrow> nat list \<Rightarrow> path_state \<Rightarrow> ((m128 \<times> u8) list \<times> path_state) result" where
  "gen_levels depth point [] st = Inr ([], st)"
| "gen_levels depth point (iter # iters) st =
     res_bind (gen_level depth point iter st) (\<lambda>(c, st).
     res_bind (gen_levels depth point iters st) (\<lambda>(cs, st). Inr (c # cs, st)))"

definition gen_leaf :: "u64 \<Rightarrow> m128 \<Rightarrow> (nat \<Rightarrow> nat \<Rightarrow> m128) \<Rightarrow> m128 result" where
  "gen_leaf point value seeds =
     (let a = point_bit point 0; na = a XOR 1 in
      if seeds 0 (unat na) \<noteq> seeds 1 (unat na) then Inl (Runtime_error ''RTE_LOC'')
      else let diff = roundEnc NI (seeds 0 (unat a)) (seeds 0 (unat a)) XOR roundEnc NI (seeds 1 (unat a)) (seeds 1 (unat a))
           in Inr (diff XOR value))"

definition prng_result :: "'a result option \<Rightarrow> 'a result" where
  "prng_result x = (case x of None \<Rightarrow> Inl (Undefined ''no result'') | Some r \<Rightarrow> r)"

fun gen_trees :: "nat \<Rightarrow> (u64 \<times> m128) list \<Rightarrow> PRNG \<Rightarrow> PRNG \<Rightarrow> ((m128 \<times> u8) list \<times> m128) list result" where
  "gen_trees depth [] g0 g1 = Inr []"
| "gen_trees depth ((point, value) # trees) g0 g1 =
     res_bind (prng_result (get_array 16 g0 2)) (\<lambda>(b0, g0).
     res_bind (prng_result (get_array 16 g1 2)) (\<lambda>(b1, g1).
     let seeds = (\<lambda>p j. blocks_of (if p = 0 then b0 else b1) ! j);
         parentTags = (\<lambda>p. allSame_u8 (- of_nat p))
     in res_bind (gen_levels depth point [1..<Suc depth] (seeds, parentTags)) (\<lambda>(cs, seeds, _).
        res_bind (gen_leaf point value seeds) (\<lambda>gamma.
        res_bind (gen_trees depth trees g0 g1) (\<lambda>rest. Inr ((cs, gamma) # rest))))))"

definition static_keyGen :: "nat \<Rightarrow> u64 list \<Rightarrow> m128 list \<Rightarrow> PRNG \<Rightarrow> RegularDpfKey list \<Rightarrow> (RegularDpfKey list \<times> PRNG) result" where
  "static_keyGen domain points values prng keys =
     (if length keys \<noteq> 2 then Inl (Runtime_error ''RTE_LOC'')
      else if length values \<noteq> length points \<and> length values \<noteq> 0 then Inl (Runtime_error ''RTE_LOC'')
      else
        let depth = log2ceil domain in
        res_bind (res_map (key_resize domain (length values) False) keys) (\<lambda>keys.
        res_bind (prng_result (get_block prng)) (\<lambda>(seed0, prng).
        res_bind (prng_result (get_block prng)) (\<lambda>(seed1, prng).
        res_bind (PRNG_seeded seed0 256) (\<lambda>g0.
        res_bind (PRNG_seeded seed1 256) (\<lambda>g1.
        res_bind (res_map getSeed [g0, g1]) (\<lambda>seeds.
        res_bind (gen_trees depth (zip points values) g0 g1) (\<lambda>trees.
        Inr (map (\<lambda>(k, s). k\<lparr>mSeed := s,
               mCorrectionWords := map (\<lambda>l. map (\<lambda>(cs, _). fst (cs ! l)) trees) [0..<depth],
               mCorrectionBits := map (\<lambda>l. map (\<lambda>(cs, _). snd (cs ! l)) trees) [0..<depth],
               mLeafVals := mLeafVals k @ map snd trees\<rparr>) (zip keys seeds), prng)))))))))"

end
