(* ===== verification/DistDpfTree.thy ===== *)
theory DistDpfTree
  imports DistDpf
begin

text \<open>
  The trees of the two parties, level by level. \<open>gen_level\<close> follows one path; the lemmas relate it to the full levels of
  \<open>implExpand\<close>: off the path to the point both parties hold the same seeds and tags, on it their tags are complementary.
\<close>

section \<open>Bits and blocks\<close>

lemma data_bit_to_bytes: "i < LENGTH('a) \<Longrightarrow> 8 dvd LENGTH('a) \<Longrightarrow> data_bit (to_bytes (w :: 'a::len word)) i = bit w i"
  using bit_of_bytes [of "to_bytes w" i, where 'a = 'a] by (auto simp: data_bit_def elim!: dvdE)

lemma bit_put_bit0 [simp]: "bit (put_bit0 b v) i \<longleftrightarrow> (if i = 0 then v \<noteq> 0 else bit b i)"
proof -
  have "bit (put_bit0 b v) i \<longleftrightarrow> i < 128 \<and> data_bit ((to_bytes b)[0 div 8 := BitReference_set (to_bytes b ! (0 div 8)) (0 mod 8) v]) i"
  proof (cases "i < 128")
    case True
    then have "i div 8 < 16" by presburger
    with True show ?thesis by (simp add: put_bit0_def bit_of_bytes data_bit_def)
  qed (simp add: put_bit0_def bit_of_bytes)
  also have "\<dots> \<longleftrightarrow> i < 128 \<and> (if i = 0 then v \<noteq> 0 else data_bit (to_bytes b) i)" by (rule conj_cong [OF refl], subst data_bit_set) simp_all
  also have "data_bit (to_bytes b) i \<longleftrightarrow> bit b i" if "i < 128" for i
    using that by (simp add: data_bit_to_bytes)
  then have "i < 128 \<and> (if i = 0 then v \<noteq> 0 else data_bit (to_bytes b) i) \<longleftrightarrow> (if i = 0 then v \<noteq> 0 else bit b i)"
    using bit_imp_le_length [of b i] by auto
  finally show ?thesis .
qed

lemma lsb_eq: "lsb b = (if bit b 0 then 1 else 0)"
  using data_bit_get [of "to_bytes b" 0] data_bit_to_bytes [of 0 b] by (simp add: lsb_def BitReference_get_def)

lemma lsb_xor: "lsb (a XOR b) = lsb a XOR lsb b"
  by (simp add: lsb_eq bit_simps)

lemma point_bit_eq: "i < 64 \<Longrightarrow> point_bit p i = (if bit p i then 1 else 0)"
  using data_bit_get [of "to_bytes p" i] data_bit_to_bytes [of i p] by (simp add: point_bit_def it_deref_def BitIterator_at_def)

lemma tagBit_eq: "tagBit b = (if bit b 0 then - 1 else 0)"
proof -
  have "b AND mm_set_epi64x 0 1 = (if bit b 0 then 1 else 0)"
    by (rule bit_word_eqI) (auto simp: mm_set_epi64x_def bit_simps intro!: gr0I)
  then show ?thesis
    by (auto simp: tagBit_def Let_def sub_epi64_def unpacklo_epi64_def mm_set_epi64x_def mm_extract_epi64_1_def mm_cvtsi128_si64_def
        bit_simps intro!: bit_word_eqI)
qed

lemma allSame_u8_simps [simp]: "allSame_u8 0 = 0" "allSame_u8 (- 1) = - 1"
  by (auto simp: allSame_u8_def bit_of_bytes intro!: bit_word_eqI)

text \<open>The value of the corrections: the child off the path becomes a share of zero, the tag bits become complementary.\<close>

definition correct_word :: "bool \<Rightarrow> (nat \<Rightarrow> m128) \<Rightarrow> m128" where
  "correct_word a D = put_bit0 (D (if a then 0 else 1)) (lsb (D 0) XOR (if a then 0 else 1))"

definition correct_bit :: "bool \<Rightarrow> (nat \<Rightarrow> m128) \<Rightarrow> u8" where
  "correct_bit a D = lsb (D 1) XOR (if a then 1 else 0)"

definition correct :: "bool \<Rightarrow> (nat \<Rightarrow> m128) \<Rightarrow> nat \<Rightarrow> m128" where
  "correct a D j = (if j = 0 then correct_word a D else put_bit0 (correct_word a D) (correct_bit a D))"

lemma correct_off: "j < 2 \<Longrightarrow> j \<noteq> (if a then 1 else 0) \<Longrightarrow> correct a D j = D j"
  by (rule bit_word_eqI) (auto simp: correct_def correct_word_def correct_bit_def lsb_eq less_2_cases_iff)

lemma correct_on: "bit (correct a D (if a then 1 else 0)) 0 \<longleftrightarrow> \<not> bit (D (if a then 1 else 0)) 0"
  by (auto simp: correct_def correct_word_def correct_bit_def lsb_eq)


section \<open>A level as a function\<close>

text \<open>The order of the visits does not matter: every node is visited once and writes its own cells.\<close>

lemma set_lane_order: "set (lane_order n) = {0, 1} \<times> {..<n}"
proof -
  let ?m = "n div 8 * 8"
  have "(j, k) \<in> set (lane_order n) \<longleftrightarrow> j \<in> {0, 1} \<and> ((\<exists>b\<in>{0..<n div 8}. \<exists>q\<in>{0..<8}. k = 8 * b + q) \<or> ?m \<le> k \<and> k < n)" for j k
    by (auto simp: lane_order_def)
  moreover have "(\<exists>b\<in>{0..<n div 8}. \<exists>q\<in>{0..<8}. k = 8 * b + q) \<longleftrightarrow> k < ?m" for k
  proof
    assume "k < ?m"
    then show "\<exists>b\<in>{0..<n div 8}. \<exists>q\<in>{0..<8}. k = 8 * b + q"
      by (intro bexI [of _ "k div 8"] bexI [of _ "k mod 8"]) (simp_all add: less_mult_imp_div_less)
  qed auto
  moreover have "?m \<le> n" by simp
  ultimately have "(j, k) \<in> set (lane_order n) \<longleftrightarrow> (j, k) \<in> {0, 1} \<times> {..<n}" for j k
    by (auto simp: not_less)
  then show ?thesis by (intro set_eqI) auto
qed

lemma distinct_concat_map:
  "distinct xs \<Longrightarrow> (\<And>x. x \<in> set xs \<Longrightarrow> distinct (f x)) \<Longrightarrow> (\<And>x y. x \<in> set xs \<Longrightarrow> y \<in> set xs \<Longrightarrow> x \<noteq> y \<Longrightarrow> set (f x) \<inter> set (f y) = {})
     \<Longrightarrow> distinct (concat (map f xs))"
proof (induction xs)
  case (Cons a xs)
  then show ?case by (auto; fastforce)
qed simp

lemma distinct_lane_order: "distinct (lane_order n)"
proof -
  let ?batch = "\<lambda>b. concat (map (\<lambda>j. map (\<lambda>q. (j, 8 * b + q)) [0..<8]) [0, 1 :: nat])"
  have "distinct (?batch b)" for b
    by (auto simp: distinct_map inj_on_def)
  moreover have "set (?batch b) \<inter> set (?batch c) = {}" if "b \<noteq> c" for b c
    using that by (auto; presburger)
  ultimately have "distinct (concat (map ?batch [0..<n div 8 * 8 div 8]))"
    by (rule distinct_concat_map [OF distinct_upt]) blast+
  moreover have "distinct (concat (map (\<lambda>k. [(0, k), (1 :: nat, k)]) [n div 8 * 8..<n]))"
    by (rule distinct_concat_map) auto
  moreover have "k < n div 8 * 8" if "(j, k) \<in> set (concat (map ?batch [0..<n div 8 * 8 div 8]))" for j k
    using that by (auto; presburger)
  ultimately show ?thesis
    unfolding lane_order_def Let_def by (subst distinct_append) (auto simp: not_less [symmetric] simp del: list.map(2))
qed

lemma set_visits: "set (visits rows n) = {(L, j, k). L < (rows + 1) div 2 \<and> j < 2 \<and> k < n}"
  by (auto simp: visits_def set_lane_order image_iff less_2_cases_iff)

lemma distinct_visits: "distinct (visits rows n)"
  unfolding visits_def
  by (rule distinct_concat_map) (auto simp: distinct_map inj_on_def distinct_lane_order)

text \<open>The corrected seed of a cell.\<close>

definition seed_at :: "(nat \<Rightarrow> nat \<Rightarrow> m128) \<Rightarrow> (nat \<Rightarrow> nat \<Rightarrow> m128) \<Rightarrow> (nat \<Rightarrow> nat \<Rightarrow> m128) \<Rightarrow> nat \<Rightarrow> nat \<Rightarrow> m128" where
  "seed_at tp sigma sc r k = sc r k XOR (tp (r div 2) k AND sigma (r mod 2) k)"

text \<open>One visit in terms of the row of its cell.\<close>

definition visited :: "(nat \<times> nat \<times> nat) list \<Rightarrow> nat \<Rightarrow> nat \<Rightarrow> bool" where
  "visited vs r k \<longleftrightarrow> (r div 2, r mod 2, k) \<in> set vs"

lemma row_of: "j < 2 \<Longrightarrow> (2 * L + j) div 2 = (L :: nat)" "j < 2 \<Longrightarrow> (2 * L + j) mod 2 = j"
  by simp_all

lemma expand_node_eq:
  assumes "j < 2" "expand_node tp sigma (L, j, k') (sc, sg, z) = (sc1, sg1, z1)"
  shows "sc1 r k = (if r = 2 * L + j \<and> k = k' then tagBit (seed_at tp sigma sc r k) else sc r k)"
    "sg1 r k = (if r div 2 = 2 * L + j \<and> k = k' then grandchild (seed_at tp sigma sc (r div 2) k) (r mod 2) else sg r k)"
    "i < 2 \<Longrightarrow> z1 i k = z i k XOR (if k = k' then grandchild (seed_at tp sigma sc (2 * L + j) k) i else 0)"
proof -
  have odd: "Suc (4 * L) mod 2 = Suc 0" by presburger
  have r: "r div 2 = 2 * L + j \<longleftrightarrow> r = 4 * L + 2 * j \<or> r = 4 * L + 2 * j + 1" by presburger
  show "sc1 r k = (if r = 2 * L + j \<and> k = k' then tagBit (seed_at tp sigma sc r k) else sc r k)"
    "i < 2 \<Longrightarrow> z1 i k = z i k XOR (if k = k' then grandchild (seed_at tp sigma sc (2 * L + j) k) i else 0)"
    using assms by (auto simp: expand_node_def Let_def seed_at_def less_2_cases_iff)
  show "sg1 r k = (if r div 2 = 2 * L + j \<and> k = k' then grandchild (seed_at tp sigma sc (r div 2) k) (r mod 2) else sg r k)"
    using assms unfolding r by (auto simp: expand_node_def Let_def seed_at_def odd)
qed

lemma visited_Cons: "j < 2 \<Longrightarrow> visited ((L, j, k') # vs) r k \<longleftrightarrow> r = 2 * L + j \<and> k = k' \<or> visited vs r k"
  by (auto simp: visited_def)

text \<open>A list of visits without repetition, with the children numbered 0 and 1.\<close>

definition plan :: "(nat \<times> nat \<times> nat) list \<Rightarrow> bool" where
  "plan vs \<longleftrightarrow> distinct vs \<and> (\<forall>(L, j, k) \<in> set vs. j < 2)"

lemma plan_Cons: "plan ((L, j, k) # vs) \<longleftrightarrow> j < 2 \<and> \<not> visited vs (2 * L + j) k \<and> plan vs"
  by (auto simp: plan_def visited_def)

lemma fold_expand_node:
  assumes "plan vs" "fold (expand_node tp sigma) vs (sc, sg, z) = (sc', sg', z')"
  shows "sc' r k = (if visited vs r k then tagBit (seed_at tp sigma sc r k) else sc r k) \<and>
    sg' r k = (if visited vs (r div 2) k then grandchild (seed_at tp sigma sc (r div 2) k) (r mod 2) else sg r k)"
  using assms
proof (induction vs arbitrary: sc sg z)
  case (Cons v vs)
  obtain L j k' where v: "v = (L, j, k')" by (cases v)
  obtain sc1 sg1 z1 where st: "expand_node tp sigma v (sc, sg, z) = (sc1, sg1, z1)" by (cases "expand_node tp sigma v (sc, sg, z)")
  have p: "j < 2" "\<not> visited vs (2 * L + j) k'" "plan vs" using Cons.prems(1) by (auto simp: v plan_Cons)
  note eq = expand_node_eq [OF p(1) st [unfolded v]]
  have rest: "fold (expand_node tp sigma) vs (sc1, sg1, z1) = (sc', sg', z')" using Cons.prems(2) st by simp
  have keep: "seed_at tp sigma sc1 r k = seed_at tp sigma sc r k" if "visited vs r k" for r k
    using that p(2) eq(1) by (auto simp: seed_at_def)
  note IH = Cons.IH [OF p(3) rest]
  have "sc' r k = (if visited (v # vs) r k then tagBit (seed_at tp sigma sc r k) else sc r k)"
    using IH keep [of r k] eq(1) [of r k] by (cases "visited vs r k") (simp_all add: v visited_Cons [OF p(1)])
  moreover have "sg' r k = (if visited (v # vs) (r div 2) k then grandchild (seed_at tp sigma sc (r div 2) k) (r mod 2) else sg r k)"
    using IH keep [of "r div 2" k] eq(2) [of r k] by (cases "visited vs (r div 2) k") (simp_all add: v visited_Cons [OF p(1)])
  ultimately show ?case ..
qed (simp add: visited_def)

text \<open>If the cells of two parties agree in a column but for one row, the sums differ by the children of that row.\<close>

lemma fold_expand_sums:
  assumes "plan vs" "fold (expand_node tp0 sigma0) vs (sc0, sg0, z0) = (sc0', sg0', z0')" "fold (expand_node tp1 sigma1) vs (sc1, sg1, z1) = (sc1', sg1', z1')"
    and "\<And>r. visited vs r k \<Longrightarrow> r \<noteq> R \<Longrightarrow> seed_at tp0 sigma0 sc0 r k = seed_at tp1 sigma1 sc1 r k" "i < 2"
  shows "z0' i k XOR z1' i k = z0 i k XOR z1 i k XOR
    (if visited vs R k then grandchild (seed_at tp0 sigma0 sc0 R k) i XOR grandchild (seed_at tp1 sigma1 sc1 R k) i else 0)"
  using assms
proof (induction vs arbitrary: sc0 sg0 z0 sc1 sg1 z1)
  case (Cons v vs)
  obtain L j k' where v: "v = (L, j, k')" by (cases v)
  obtain u0 g0 y0 where st0: "expand_node tp0 sigma0 v (sc0, sg0, z0) = (u0, g0, y0)" by (cases "expand_node tp0 sigma0 v (sc0, sg0, z0)")
  obtain u1 g1 y1 where st1: "expand_node tp1 sigma1 v (sc1, sg1, z1) = (u1, g1, y1)" by (cases "expand_node tp1 sigma1 v (sc1, sg1, z1)")
  have p: "j < 2" "\<not> visited vs (2 * L + j) k'" "plan vs" using Cons.prems(1) by (auto simp: v plan_Cons)
  note eq0 = expand_node_eq [OF p(1) st0 [unfolded v]] and eq1 = expand_node_eq [OF p(1) st1 [unfolded v]]
  have keep: "seed_at tp0 sigma0 u0 r k = seed_at tp0 sigma0 sc0 r k \<and> seed_at tp1 sigma1 u1 r k = seed_at tp1 sigma1 sc1 r k"
    if "visited vs r k" for r
    using that p(2) eq0(1) eq1(1) by (auto simp: seed_at_def)
  have agree: "seed_at tp0 sigma0 u0 r k = seed_at tp1 sigma1 u1 r k" if "visited vs r k" "r \<noteq> R" for r
    using Cons.prems(4) [of r] that keep [of r] by (simp add: v visited_Cons [OF p(1)])
  have "z0' i k XOR z1' i k = y0 i k XOR y1 i k XOR
    (if visited vs R k then grandchild (seed_at tp0 sigma0 u0 R k) i XOR grandchild (seed_at tp1 sigma1 u1 R k) i else 0)"
    by (rule Cons.IH [OF p(3)]) (use Cons.prems(2,3) st0 st1 agree assms(5) in auto)
  moreover have "k = k' \<Longrightarrow> 2 * L + j \<noteq> R \<Longrightarrow> seed_at tp0 sigma0 sc0 (2 * L + j) k = seed_at tp1 sigma1 sc1 (2 * L + j) k"
    using Cons.prems(4) [of "2 * L + j"] by (simp add: v visited_Cons [OF p(1)])
  ultimately show ?case
    using p(2) keep [of R] assms(5)
    by (cases "visited vs R k"; cases "k = k'"; cases "2 * L + j = R") (simp_all add: v visited_Cons [OF p(1)] eq0(3) eq1(3) xor_simps)
qed (simp add: visited_def)

lemma plan_visits: "plan (visits rows n)"
  by (auto simp: plan_def distinct_visits set_visits)

lemma visited_visits: "even rows \<Longrightarrow> visited (visits rows n) r k \<longleftrightarrow> r < rows \<and> k < n"
  by (auto simp: visited_def set_visits elim!: evenE)


section \<open>The two parties\<close>

text \<open>
  Column \<open>k\<close> of the two parties before the correction of a level with \<open>rows\<close> rows: only the two children of the parent
  in row \<open>q\<close> may differ, its tags are complementary, and the sums differ by these children.
\<close>

definition level_rel :: "nat \<Rightarrow> nat \<Rightarrow> nat \<Rightarrow> (nat \<Rightarrow> nat \<Rightarrow> m128) \<Rightarrow> (nat \<Rightarrow> nat \<Rightarrow> m128) \<Rightarrow> (nat \<Rightarrow> nat \<Rightarrow> m128)
    \<Rightarrow> (nat \<Rightarrow> nat \<Rightarrow> m128) \<Rightarrow> (nat \<Rightarrow> nat \<Rightarrow> m128) \<Rightarrow> (nat \<Rightarrow> nat \<Rightarrow> m128) \<Rightarrow> bool" where
  "level_rel rows q k tp0 sc0 z0 tp1 sc1 z1 \<longleftrightarrow> even rows \<and> q < rows div 2 \<and> (\<forall>r<rows. r div 2 \<noteq> q \<longrightarrow> sc0 r k = sc1 r k)
     \<and> (\<forall>L<rows div 2. tp0 L k XOR tp1 L k = (if L = q then - 1 else 0))
     \<and> (\<forall>j<2. z0 j k XOR z1 j k = sc0 (2 * q + j) k XOR sc1 (2 * q + j) k)"

text \<open>The words added to the children below a tag are the corrections of the sums, for the path to side \<open>a\<close>.\<close>

definition corrects :: "bool \<Rightarrow> nat \<Rightarrow> (nat \<Rightarrow> nat \<Rightarrow> m128) \<Rightarrow> (nat \<Rightarrow> nat \<Rightarrow> m128) \<Rightarrow> (nat \<Rightarrow> nat \<Rightarrow> m128) \<Rightarrow> bool" where
  "corrects a k z0 z1 sigma \<longleftrightarrow> (\<forall>j<2. sigma j k = correct a (\<lambda>j. z0 j k XOR z1 j k) j)"

definition side :: "bool \<Rightarrow> nat" where
  "side a = (if a then 1 else 0)"

lemma side_simps [simp]: "side a < 2" "(2 * q + side a) div 2 = q" "(2 * q + side a) mod 2 = side a"
  by (simp_all add: side_def)

lemma seeds_agree:
  assumes "level_rel rows q k tp0 sc0 z0 tp1 sc1 z1" "corrects a k z0 z1 sigma0" "corrects a k z0 z1 sigma1" "r < rows"
  shows "r \<noteq> 2 * q + side a \<Longrightarrow> seed_at tp0 sigma0 sc0 r k = seed_at tp1 sigma1 sc1 r k"
    "r = 2 * q + side a \<Longrightarrow> bit (seed_at tp0 sigma0 sc0 r k) 0 \<noteq> bit (seed_at tp1 sigma1 sc1 r k) 0"
proof -
  let ?D = "\<lambda>j. z0 j k XOR z1 j k"
  have L: "r div 2 < rows div 2" using assms(1,4) by (auto simp: level_rel_def)
  have sg: "sigma0 (r mod 2) k = correct a ?D (r mod 2)" "sigma1 (r mod 2) k = correct a ?D (r mod 2)" using assms(2,3) by (simp_all add: corrects_def)
  have tag: "tp0 (r div 2) k XOR tp1 (r div 2) k = (if r div 2 = q then - 1 else 0)" using assms(1) L by (simp add: level_rel_def)
  have both: "seed_at tp0 sigma0 sc0 r k XOR seed_at tp1 sigma1 sc1 r k
      = (sc0 r k XOR sc1 r k) XOR ((tp0 (r div 2) k XOR tp1 (r div 2) k) AND correct a ?D (r mod 2))"
    unfolding seed_at_def sg by (rule bit_word_eqI) (auto simp: bit_simps)
  have q: "r = 2 * q + r mod 2" if "r div 2 = q" using that by (metis mult_div_mod_eq)
  have D: "sc0 r k XOR sc1 r k = ?D (r mod 2)" if "r div 2 = q"
    using assms(1) q [OF that] by (simp add: level_rel_def)
  have out: "sc0 r k = sc1 r k" if "r div 2 \<noteq> q" using assms(1,4) that by (simp add: level_rel_def)
  show "seed_at tp0 sigma0 sc0 r k = seed_at tp1 sigma1 sc1 r k" if ne: "r \<noteq> 2 * q + side a"
  proof (cases "r div 2 = q")
    case True
    then have "r mod 2 \<noteq> side a" using q ne by auto
    then have c: "correct a ?D (r mod 2) = ?D (r mod 2)" by (intro correct_off) (auto simp: side_def)
    have "seed_at tp0 sigma0 sc0 r k XOR seed_at tp1 sigma1 sc1 r k = 0" unfolding both D [OF True] tag if_P [OF True] c by simp
    then show ?thesis by simp
  next
    case False
    then have "seed_at tp0 sigma0 sc0 r k XOR seed_at tp1 sigma1 sc1 r k = 0" using both tag out by simp
    then show ?thesis by simp
  qed
  assume r: "r = 2 * q + side a"
  then have "seed_at tp0 sigma0 sc0 r k XOR seed_at tp1 sigma1 sc1 r k = ?D (side a) XOR correct a ?D (side a)"
    using both tag D by simp
  then have "bit (seed_at tp0 sigma0 sc0 r k XOR seed_at tp1 sigma1 sc1 r k) 0 \<longleftrightarrow> True"
    using correct_on [of a ?D] by (simp add: bit_simps side_def split: if_splits)
  then show "bit (seed_at tp0 sigma0 sc0 r k) 0 \<noteq> bit (seed_at tp1 sigma1 sc1 r k) 0" by (simp add: bit_simps)
qed

lemma level_step:
  assumes rel: "level_rel rows q k tp0 sc0 z0 tp1 sc1 z1" and k: "k < n"
    and sg: "corrects a k z0 z1 sigma0" "corrects a k z0 z1 sigma1"
    and f0: "fold (expand_node tp0 sigma0) (visits rows n) (sc0, sg0, \<lambda>_ _. 0) = (sc0', sg0', z0')"
    and f1: "fold (expand_node tp1 sigma1) (visits rows n) (sc1, sg1, \<lambda>_ _. 0) = (sc1', sg1', z1')"
  shows "level_rel (2 * rows) (2 * q + side a) k sc0' sg0' z0' sc1' sg1' z1'"
proof -
  let ?R = "2 * q + side a"
  note agree = seeds_agree [OF rel sg]
  have ev: "even rows" and q: "?R < rows" using rel by (auto simp: level_rel_def side_def elim!: evenE)
  note c0 = fold_expand_node [OF plan_visits f0] and c1 = fold_expand_node [OF plan_visits f1]
  have vis: "visited (visits rows n) r k \<longleftrightarrow> r < rows" for r using visited_visits [OF ev] k by simp
  have "sc0' r k XOR sc1' r k = (if r = ?R then - 1 else 0)" if "r < rows" for r
    using c0 c1 vis that agree [of r] by (auto simp: tagBit_eq)
  moreover have "sg0' r k = sg1' r k" if "r < 2 * rows" "r div 2 \<noteq> ?R" for r
    using c0 c1 vis that agree(1) [of "r div 2"] by auto
  moreover have child: "sg0' (2 * R + j) k = grandchild (seed_at tp0 sigma0 sc0 R k) j"
      "sg1' (2 * R + j) k = grandchild (seed_at tp1 sigma1 sc1 R k) j" if "R < rows" "j < 2" for R j
    using c0 [of "2 * R + j" k] c1 [of "2 * R + j" k] vis that by (simp_all add: row_of)
  moreover have "z0' j k XOR z1' j k = sg0' (2 * ?R + j) k XOR sg1' (2 * ?R + j) k" if "j < 2" for j
  proof -
    have "z0' j k XOR z1' j k = 0 XOR 0 XOR (if visited (visits rows n) ?R k
        then grandchild (seed_at tp0 sigma0 sc0 ?R k) j XOR grandchild (seed_at tp1 sigma1 sc1 ?R k) j else 0)"
      by (rule fold_expand_sums [OF plan_visits f0 f1]) (use agree vis that in auto)
    then show ?thesis using child [OF q that] vis q by simp
  qed
  ultimately show ?thesis using ev q by (simp add: level_rel_def)
qed

text \<open>The leaves.\<close>

lemma leaf_node_eq:
  assumes "j < 2" "leaf_node tp sigma (L, j, k') (sc, tc, diff) = (sc1, tc1, diff1)"
  shows "sc1 r k = (if r = 2 * L + j \<and> k = k' then roundEnc NI (seed_at tp sigma sc r k) (seed_at tp sigma sc r k) else sc r k)"
    "tc1 r k = (if r = 2 * L + j \<and> k = k' then tagBit (seed_at tp sigma sc r k) else tc r k)"
    "diff1 k = diff k XOR (if k = k' then roundEnc NI (seed_at tp sigma sc (2 * L + j) k) (seed_at tp sigma sc (2 * L + j) k) else 0)"
  using assms by (auto simp: leaf_node_def Let_def seed_at_def)

lemma fold_leaf_node:
  assumes "plan vs" "fold (leaf_node tp sigma) vs (sc, tc, diff) = (sc', tc', diff')"
  shows "sc' r k = (if visited vs r k then roundEnc NI (seed_at tp sigma sc r k) (seed_at tp sigma sc r k) else sc r k) \<and>
    tc' r k = (if visited vs r k then tagBit (seed_at tp sigma sc r k) else tc r k)"
  using assms
proof (induction vs arbitrary: sc tc diff)
  case (Cons v vs)
  obtain L j k' where v: "v = (L, j, k')" by (cases v)
  obtain sc1 tc1 diff1 where st: "leaf_node tp sigma v (sc, tc, diff) = (sc1, tc1, diff1)" by (cases "leaf_node tp sigma v (sc, tc, diff)")
  have p: "j < 2" "\<not> visited vs (2 * L + j) k'" "plan vs" using Cons.prems(1) by (auto simp: v plan_Cons)
  note eq = leaf_node_eq [OF p(1) st [unfolded v]]
  have "fold (leaf_node tp sigma) vs (sc1, tc1, diff1) = (sc', tc', diff')" using Cons.prems(2) st by simp
  note IH = Cons.IH [OF p(3) this]
  have "seed_at tp sigma sc1 r k = seed_at tp sigma sc r k" if "visited vs r k" using that p(2) eq(1) by (auto simp: seed_at_def)
  then show ?case
    using IH eq(1,2) [of r k] by (cases "visited vs r k") (simp_all add: v visited_Cons [OF p(1)])
qed (simp add: visited_def)

lemma fold_leaf_sums:
  assumes "plan vs" "fold (leaf_node tp0 sigma0) vs (sc0, tc0, d0) = (sc0', tc0', d0')" "fold (leaf_node tp1 sigma1) vs (sc1, tc1, d1) = (sc1', tc1', d1')"
    and "\<And>r. visited vs r k \<Longrightarrow> r \<noteq> R \<Longrightarrow> seed_at tp0 sigma0 sc0 r k = seed_at tp1 sigma1 sc1 r k"
  shows "d0' k XOR d1' k = d0 k XOR d1 k XOR (if visited vs R k then sc0' R k XOR sc1' R k else 0)"
  using assms
proof (induction vs arbitrary: sc0 tc0 d0 sc1 tc1 d1)
  case (Cons v vs)
  obtain L j k' where v: "v = (L, j, k')" by (cases v)
  obtain u0 t0 y0 where st0: "leaf_node tp0 sigma0 v (sc0, tc0, d0) = (u0, t0, y0)" by (cases "leaf_node tp0 sigma0 v (sc0, tc0, d0)")
  obtain u1 t1 y1 where st1: "leaf_node tp1 sigma1 v (sc1, tc1, d1) = (u1, t1, y1)" by (cases "leaf_node tp1 sigma1 v (sc1, tc1, d1)")
  have p: "j < 2" "\<not> visited vs (2 * L + j) k'" "plan vs" using Cons.prems(1) by (auto simp: v plan_Cons)
  note eq0 = leaf_node_eq [OF p(1) st0 [unfolded v]] and eq1 = leaf_node_eq [OF p(1) st1 [unfolded v]]
  have keep: "seed_at tp0 sigma0 u0 r k = seed_at tp0 sigma0 sc0 r k \<and> seed_at tp1 sigma1 u1 r k = seed_at tp1 sigma1 sc1 r k"
    if "visited vs r k" for r
    using that p(2) eq0(1) eq1(1) by (auto simp: seed_at_def)
  have agree: "seed_at tp0 sigma0 u0 r k = seed_at tp1 sigma1 u1 r k" if "visited vs r k" "r \<noteq> R" for r
    using Cons.prems(4) [of r] that keep [of r] by (simp add: v visited_Cons [OF p(1)])
  have rest0: "fold (leaf_node tp0 sigma0) vs (u0, t0, y0) = (sc0', tc0', d0')" using Cons.prems(2) st0 by simp
  have rest1: "fold (leaf_node tp1 sigma1) vs (u1, t1, y1) = (sc1', tc1', d1')" using Cons.prems(3) st1 by simp
  have IH: "d0' k XOR d1' k = y0 k XOR y1 k XOR (if visited vs R k then sc0' R k XOR sc1' R k else 0)"
    by (rule Cons.IH [OF p(3) rest0 rest1 agree])
  have here: "\<not> visited vs R k \<Longrightarrow> sc0' R k = u0 R k \<and> sc1' R k = u1 R k"
    using fold_leaf_node [OF p(3) rest0, of R k] fold_leaf_node [OF p(3) rest1, of R k] by simp
  have "k = k' \<Longrightarrow> 2 * L + j \<noteq> R \<Longrightarrow> seed_at tp0 sigma0 sc0 (2 * L + j) k = seed_at tp1 sigma1 sc1 (2 * L + j) k"
    using Cons.prems(4) [of "2 * L + j"] by (simp add: v visited_Cons [OF p(1)])
  with IH here show ?case
    using p(2) by (cases "visited vs R k"; cases "k = k'"; cases "2 * L + j = R") (simp_all add: v visited_Cons [OF p(1)] eq0(1,3) eq1(1,3) xor_simps)
qed (simp add: visited_def)

lemma leaf_step:
  assumes rel: "level_rel rows q k tp0 sc0 z0 tp1 sc1 z1" and k: "k < n" and le: "leaves \<le> rows" "even leaves"
    and sg: "corrects a k z0 z1 sigma0" "corrects a k z0 z1 sigma1"
    and f0: "fold (leaf_node tp0 sigma0) (visits leaves n) (sc0, \<lambda>_ _. 0, \<lambda>_. 0) = (sd0, td0, d0)"
    and f1: "fold (leaf_node tp1 sigma1) (visits leaves n) (sc1, \<lambda>_ _. 0, \<lambda>_. 0) = (sd1, td1, d1)"
  shows "r < leaves \<Longrightarrow> r \<noteq> 2 * q + side a \<Longrightarrow> sd0 r k = sd1 r k"
    "r < leaves \<Longrightarrow> td0 r k XOR td1 r k = (if r = 2 * q + side a then - 1 else 0)"
    "d0 k XOR d1 k = (if 2 * q + side a < leaves then sd0 (2 * q + side a) k XOR sd1 (2 * q + side a) k else 0)"
    "r < leaves \<Longrightarrow> sd0 r k = roundEnc NI (seed_at tp0 sigma0 sc0 r k) (seed_at tp0 sigma0 sc0 r k)
       \<and> sd1 r k = roundEnc NI (seed_at tp1 sigma1 sc1 r k) (seed_at tp1 sigma1 sc1 r k)"
proof -
  let ?R = "2 * q + side a"
  note agree = seeds_agree [OF rel sg]
  note c0 = fold_leaf_node [OF plan_visits f0] and c1 = fold_leaf_node [OF plan_visits f1]
  have vis: "visited (visits leaves n) r k \<longleftrightarrow> r < leaves" for r using visited_visits [OF le(2)] k by simp
  show "r < leaves \<Longrightarrow> r \<noteq> ?R \<Longrightarrow> sd0 r k = sd1 r k" using c0 c1 vis agree(1) [of r] le(1) by simp
  show "r < leaves \<Longrightarrow> td0 r k XOR td1 r k = (if r = ?R then - 1 else 0)"
    using c0 c1 vis agree [of r] le(1) by (auto simp: tagBit_eq)
  show "r < leaves \<Longrightarrow> sd0 r k = roundEnc NI (seed_at tp0 sigma0 sc0 r k) (seed_at tp0 sigma0 sc0 r k)
       \<and> sd1 r k = roundEnc NI (seed_at tp1 sigma1 sc1 r k) (seed_at tp1 sigma1 sc1 r k)"
    using c0 c1 vis by simp
  have "d0 k XOR d1 k = 0 XOR 0 XOR (if visited (visits leaves n) ?R k then sd0 ?R k XOR sd1 ?R k else 0)"
    by (rule fold_leaf_sums [OF plan_visits f0 f1]) (use agree(1) vis le(1) in auto)
  then show "d0 k XOR d1 k = (if ?R < leaves then sd0 ?R k XOR sd1 ?R k else 0)" using vis by simp
qed

end
