(* ===== verification/DistDpfKeys.thy ===== *)
theory DistDpfKeys
  imports DistDpfTree
begin

text \<open>
  The path that \<open>gen_level\<close> follows and the trees of the two parties, from the roots to the leaves. A dealer's keys and
  keys made by the protocol have the same corrections, and both open to the point function.
\<close>

section \<open>The dealer's path\<close>

text \<open>The row of the path's node on level \<open>m\<close>.\<close>

definition prefix :: "nat \<Rightarrow> u64 \<Rightarrow> nat \<Rightarrow> nat" where
  "prefix depth \<alpha> m = unat \<alpha> div 2 ^ (depth - m) mod 2 ^ m"

lemma prefix_0 [simp]: "prefix depth \<alpha> 0 = 0"
  by (simp add: prefix_def)

lemma prefix_less: "prefix depth \<alpha> m < 2 ^ m"
  by (simp add: prefix_def)

lemma prefix_Suc: "m < depth \<Longrightarrow> prefix depth \<alpha> (Suc m) = 2 * prefix depth \<alpha> m + side (bit \<alpha> (depth - Suc m))"
proof -
  assume "m < depth"
  then have e: "depth - m = Suc (depth - Suc m)" by simp
  let ?x = "unat \<alpha> div 2 ^ (depth - Suc m)"
  have "?x div 2 = unat \<alpha> div 2 ^ (depth - m)" unfolding e by (simp add: div_mult2_eq [symmetric] mult.commute)
  moreover have "bit \<alpha> (depth - Suc m) \<longleftrightarrow> odd ?x"
    using bit_unsigned_iff [of \<alpha> "depth - Suc m", where 'a = nat] bit_imp_le_length [of \<alpha> "depth - Suc m"] by (auto simp: bit_iff_odd [of "unat \<alpha>"])
  then have "?x mod 2 = side (bit \<alpha> (depth - Suc m))" by (simp add: side_def odd_iff_mod_2_eq_one)
  moreover have "?x mod (2 * 2 ^ m) = ?x mod 2 + 2 * (?x div 2 mod 2 ^ m)" by (simp add: mod_mult2_eq)
  ultimately show ?thesis by (simp add: prefix_def)
qed

text \<open>One level of the path in closed form; the checks of the code succeed.\<close>

definition corrected :: "bool \<Rightarrow> path_state \<Rightarrow> nat \<Rightarrow> nat \<Rightarrow> m128" where
  "corrected a = (\<lambda>(seeds, tags) p j. seeds p j XOR (correct a (\<lambda>j. seeds 0 j XOR seeds 1 j) j AND tags p))"

definition complementary :: "path_state \<Rightarrow> bool" where
  "complementary path \<longleftrightarrow> snd path 0 XOR snd path 1 = - 1"

lemma corrected_both:
  "complementary path \<Longrightarrow> corrected a path 0 j XOR corrected a path 1 j = (fst path 0 j XOR fst path 1 j) XOR correct a (\<lambda>j. fst path 0 j XOR fst path 1 j) j"
proof -
  assume c: "complementary path"
  let ?c = "correct a (\<lambda>j. fst path 0 j XOR fst path 1 j) j"
  have "corrected a path 0 j XOR corrected a path 1 j = (fst path 0 j XOR fst path 1 j) XOR ((snd path 0 XOR snd path 1) AND ?c)"
    by (rule bit_word_eqI) (auto simp: corrected_def split_def bit_simps)
  with c show ?thesis by (simp add: complementary_def)
qed

lemma corrected_off: "complementary path \<Longrightarrow> corrected a path 0 (side (\<not> a)) = corrected a path 1 (side (\<not> a))"
  using corrected_both [of path a "side (\<not> a)"] correct_off [of "side (\<not> a)" a "\<lambda>j. fst path 0 j XOR fst path 1 j"]
  by (auto simp: side_def)

lemma corrected_on: "complementary path \<Longrightarrow> bit (corrected a path 0 (side a)) 0 \<noteq> bit (corrected a path 1 (side a)) 0"
  using corrected_both [of path a "side a"] correct_on [of a "\<lambda>j. fst path 0 j XOR fst path 1 j"]
  by (auto simp: side_def bit_eq_iff bit_simps)

definition next_path :: "bool \<Rightarrow> bool \<Rightarrow> path_state \<Rightarrow> path_state" where
  "next_path deeper a path = ((if deeper then (\<lambda>p. grandchild (corrected a path p (side a))) else corrected a path),
     \<lambda>p. tagBit (corrected a path p (side a)))"

lemma complementary_next: "complementary path \<Longrightarrow> complementary (next_path deeper a path)"
  using corrected_on [of path a] by (auto simp: complementary_def next_path_def tagBit_eq)

lemma gen_level_eq:
  assumes c: "complementary path" and i: "depth - iter < 64" and a: "a = bit \<alpha> (depth - iter)"
  shows "gen_level depth \<alpha> iter path = Inr ((correct_word a (\<lambda>j. fst path 0 j XOR fst path 1 j), correct_bit a (\<lambda>j. fst path 0 j XOR fst path 1 j)),
     next_path (iter \<noteq> depth) a path)"
proof -
  obtain seeds tags where p: "path = (seeds, tags)" by (cases path)
  let ?D = "\<lambda>j. seeds 0 j XOR seeds 1 j"
  have pb: "point_bit \<alpha> (depth - iter) = (if a then 1 else 0)" using point_bit_eq [OF i] a by simp
  have un: "unat (point_bit \<alpha> (depth - iter)) = side a" "unat (point_bit \<alpha> (depth - iter) XOR 1) = side (\<not> a)"
    unfolding pb by (simp_all add: side_def)
  have w: "put_bit0 (seeds 0 (side (\<not> a)) XOR seeds 1 (side (\<not> a))) (lsb (?D 0) XOR (point_bit \<alpha> (depth - iter) XOR 1)) = correct_word a ?D"
    unfolding pb by (simp add: correct_word_def side_def)
  have b: "lsb (?D 1) XOR point_bit \<alpha> (depth - iter) = correct_bit a ?D" unfolding pb by (simp add: correct_bit_def)
  have s: "seeds p j XOR ((if j = 0 then correct_word a ?D else put_bit0 (correct_word a ?D) (correct_bit a ?D)) AND tags p) = corrected a (seeds, tags) p j" for p j
    by (simp add: corrected_def correct_def)
  have "lsb (corrected a path 0 (side a) XOR corrected a path 1 (side a)) = 1" using corrected_on [OF c, of a] by (simp add: lsb_eq bit_simps)
  moreover have "tagBit (corrected a path 0 (side a)) XOR tagBit (corrected a path 1 (side a)) = allSame_u8 (- 1)"
    using corrected_on [OF c, of a] by (auto simp: tagBit_eq)
  ultimately show ?thesis
    using corrected_off [OF c, of a]
    unfolding p gen_level_def prod.case Let_def un w b s
    by (simp add: next_path_def p)
qed

lemma gen_levels_ok:
  assumes "complementary path" "\<And>i. i \<in> set iters \<Longrightarrow> depth - i < 64"
  shows "\<exists>cs fin. gen_levels depth \<alpha> iters path = Inr (cs, fin) \<and> length cs = length iters \<and> complementary fin"
  using assms
proof (induction iters arbitrary: path)
  case (Cons i iters)
  let ?a = "bit \<alpha> (depth - i)"
  have g: "gen_level depth \<alpha> i path = Inr ((correct_word ?a (\<lambda>j. fst path 0 j XOR fst path 1 j), correct_bit ?a (\<lambda>j. fst path 0 j XOR fst path 1 j)),
     next_path (i \<noteq> depth) ?a path)" by (rule gen_level_eq) (use Cons.prems in auto)
  show ?case using Cons.IH [OF complementary_next [OF Cons.prems(1)], of "i \<noteq> depth" ?a] Cons.prems(2) g by auto
qed simp


section \<open>The trees of both parties\<close>

definition sized :: "nat \<Rightarrow> nat \<Rightarrow> RegularDpf \<Rightarrow> bool" where
  "sized domain n d \<longleftrightarrow> mDomain d = domain \<and> mDepth d = log2ceil domain \<and> mNumPoints d = n"

text \<open>The path through column \<open>k\<close>.\<close>

definition on_path :: "nat \<Rightarrow> nat \<Rightarrow> (nat \<Rightarrow> nat \<Rightarrow> m128) \<Rightarrow> (nat \<Rightarrow> nat \<Rightarrow> m128) \<Rightarrow> (nat \<Rightarrow> nat \<Rightarrow> m128) \<Rightarrow> (nat \<Rightarrow> nat \<Rightarrow> m128) \<Rightarrow> path_state \<Rightarrow> bool" where
  "on_path q k tp0 sc0 tp1 sc1 path \<longleftrightarrow> (\<forall>j<2. fst path 0 j = sc0 (2 * q + j) k \<and> fst path 1 j = sc1 (2 * q + j) k)
     \<and> snd path 0 = tp0 q k \<and> snd path 1 = tp1 q k"

text \<open>Both parties before the correction of level \<open>iter\<close>; the same with the correction in place.\<close>

definition trees :: "nat \<Rightarrow> nat \<Rightarrow> nat \<Rightarrow> (nat \<Rightarrow> u64) \<Rightarrow> expand_state \<Rightarrow> expand_state \<Rightarrow> (nat \<Rightarrow> path_state) \<Rightarrow> bool" where
  "trees domain n iter \<alpha> st0 st1 path \<longleftrightarrow> sized domain n (st_dpf st0) \<and> sized domain n (st_dpf st1) \<and> st_words st0 = st_words st1 \<and> st_bits st0 = st_bits st1
     \<and> (\<forall>k<n. let q = prefix (log2ceil domain) (\<alpha> k) (iter - 1); p = (iter - 1) mod 3; c = iter mod 3 in
          level_rel (2 ^ iter) q k (st_s st0 p) (st_s st0 c) (st_z st0) (st_s st1 p) (st_s st1 c) (st_z st1)
          \<and> on_path q k (st_s st0 p) (st_s st0 c) (st_s st1 p) (st_s st1 c) (path k))"

lemma on_path_sums:
  assumes "level_rel rows q k tp0 sc0 z0 tp1 sc1 z1" "on_path q k tp0 sc0 tp1 sc1 path"
  shows "complementary path" "j < 2 \<Longrightarrow> fst path 0 j XOR fst path 1 j = z0 j k XOR z1 j k"
  using assms by (auto simp: level_rel_def on_path_def complementary_def)

lemma correct_cong: "D 0 = D' 0 \<Longrightarrow> D 1 = D' 1 \<Longrightarrow> correct_word a D = correct_word a D' \<and> correct_bit a D = correct_bit a D'"
  by (simp add: correct_word_def correct_bit_def)

lemma on_path_seed_at:
  assumes "level_rel rows q k tp0 sc0 z0 tp1 sc1 z1" "on_path q k tp0 sc0 tp1 sc1 path" "corrects a k z0 z1 sigma" "j < 2"
  shows "seed_at tp0 sigma sc0 (2 * q + j) k = corrected a path 0 j" "seed_at tp1 sigma sc1 (2 * q + j) k = corrected a path 1 j"
proof -
  have "correct a (\<lambda>j. fst path 0 j XOR fst path 1 j) j = sigma j k"
    using on_path_sums(2) [OF assms(1,2)] assms(3,4) correct_cong [of "\<lambda>j. fst path 0 j XOR fst path 1 j" "\<lambda>j. z0 j k XOR z1 j k"]
    by (simp add: corrects_def correct_def)
  then show "seed_at tp0 sigma sc0 (2 * q + j) k = corrected a path 0 j" "seed_at tp1 sigma sc1 (2 * q + j) k = corrected a path 1 j"
    using assms(2,4) by (simp_all add: seed_at_def row_of corrected_def split_def on_path_def and.commute)
qed

text \<open>The buffers are large enough: buffer \<open>m mod 3\<close> holds the \<open>2 ^ m\<close> rows of level \<open>m\<close>.\<close>

lemma level_fits:
  assumes d: "sized domain n d" and m: "m \<le> log2ceil domain"
  shows "2 ^ m \<le> s_rows d (m mod 3)"
proof -
  let ?D = "log2ceil domain"
  have r: "s_rows d (m mod 3) = (if m mod 3 = (?D + 1) mod 3 then 2 ^ ?D div 4 else if m mod 3 = (?D + 2) mod 3 then 2 ^ ?D div 2 else 2 ^ ?D)"
    using d by (simp add: s_rows_def sized_def Let_def)
  consider "m = ?D" | "m + 1 = ?D" | "m + 2 \<le> ?D" using m by linarith
  then show ?thesis
  proof cases
    case 1
    have "?D mod 3 \<noteq> (?D + 1) mod 3" "?D mod 3 \<noteq> (?D + 2) mod 3" by presburger+
    with 1 r show ?thesis by simp
  next
    case 2
    have "m mod 3 \<noteq> (m + 2) mod 3" by presburger
    moreover have "(2 :: nat) ^ ?D = 2 * 2 ^ m" using 2 [symmetric] by simp
    ultimately show ?thesis using r 2 [symmetric] by simp
  next
    case 3
    have "(2 :: nat) ^ (m + 2) \<le> 2 ^ ?D" using 3 by (rule power_increasing) simp
    then have "4 * (2 :: nat) ^ m \<le> 2 ^ ?D" by simp
    then show ?thesis unfolding r using m by auto
  qed
qed

lemma half_power: "0 < m \<Longrightarrow> (2 :: nat) ^ m div 2 = 2 ^ (m - 1)"
  by (cases m) simp_all

lemma rows_fit:
  assumes "sized domain n d" "iter < log2ceil domain" "0 < iter"
  shows "2 ^ iter div 2 \<le> s_rows d ((iter - 1) mod 3)" "2 ^ iter \<le> s_rows d (iter mod 3)" "2 * 2 ^ iter \<le> s_rows d ((iter + 1) mod 3)"
  using level_fits [OF assms(1), of "iter - 1"] level_fits [OF assms(1), of iter] level_fits [OF assms(1), of "Suc iter"] assms(2,3)
  by (simp_all add: half_power)

text \<open>A row of corrections, as the path of every column gives them.\<close>

definition path_row :: "nat \<Rightarrow> nat \<Rightarrow> (nat \<Rightarrow> u64) \<Rightarrow> nat \<Rightarrow> (nat \<Rightarrow> path_state) \<Rightarrow> m128 list \<times> u8 list \<Rightarrow> (nat \<Rightarrow> path_state) \<Rightarrow> bool" where
  "path_row depth n \<alpha> iter path row path' \<longleftrightarrow>
     (\<forall>k<n. gen_level depth (\<alpha> k) iter (path k) = Inr ((fst row ! k, snd row ! k), path' k))"

lemma path_row_corrects:
  assumes rel: "level_rel rows q k tp0 sc0 z0 tp1 sc1 z1" "on_path q k tp0 sc0 tp1 sc1 (path k)"
    and row: "path_row depth n \<alpha> iter path (cw, cb) path'" "k < n" "depth - iter < 64"
  shows "corrects (bit (\<alpha> k) (depth - iter)) k z0 z1 (sigma_of cw cb)" "path' k = next_path (iter \<noteq> depth) (bit (\<alpha> k) (depth - iter)) (path k)"
proof -
  let ?a = "bit (\<alpha> k) (depth - iter)" and ?D = "\<lambda>j. fst (path k) 0 j XOR fst (path k) 1 j"
  have g: "cw ! k = correct_word ?a ?D" "cb ! k = correct_bit ?a ?D" "path' k = next_path (iter \<noteq> depth) ?a (path k)"
    using gen_level_eq [OF on_path_sums(1) [OF rel] row(3) refl] row(1,2) by (auto simp: path_row_def)
  show "path' k = next_path (iter \<noteq> depth) ?a (path k)" by (rule g(3))
  have "correct_word ?a ?D = correct_word ?a (\<lambda>j. z0 j k XOR z1 j k)" "correct_bit ?a ?D = correct_bit ?a (\<lambda>j. z0 j k XOR z1 j k)"
    using correct_cong [of ?D "\<lambda>j. z0 j k XOR z1 j k" ?a] on_path_sums(2) [OF rel] by auto
  with g show "corrects ?a k z0 z1 (sigma_of cw cb)" by (simp add: corrects_def correct_def sigma_of_def)
qed

definition with_row :: "m128 list \<times> u8 list \<Rightarrow> RegularDpf \<Rightarrow> expand_state \<Rightarrow> expand_state" where
  "with_row row d st = st\<lparr>st_sigma := sigma_of (fst row) (snd row), st_words := st_words st @ [fst row], st_bits := st_bits st @ [snd row], st_dpf := d\<rparr>"

lemma level_both:
  assumes t: "trees domain n iter \<alpha> st0 st1 path" and i: "0 < iter" "iter < log2ceil domain" "log2ceil domain \<le> 64"
    and row: "path_row (log2ceil domain) n \<alpha> iter path row path'" and d: "sized domain n d0" "sized domain n d1"
  obtains u0 u1 where "expand_level iter (with_row row d0 st0) = Inr u0" "expand_level iter (with_row row d1 st1) = Inr u1"
    "trees domain n (Suc iter) \<alpha> u0 u1 path'" "st_dpf u0 = d0" "st_dpf u1 = d1"
    "st_words u0 = st_words st0 @ [fst row]" "st_bits u0 = st_bits st0 @ [snd row]"
proof -
  let ?D = "log2ceil domain" and ?p = "(iter - 1) mod 3" and ?c = "iter mod 3" and ?g = "(iter + 1) mod 3" and ?sg = "sigma_of (fst row) (snd row)"
  obtain sc0 sg0 z0 where f0: "fold (expand_node (st_s st0 ?p) ?sg) (visits (2 ^ iter) n) (st_s st0 ?c, st_s st0 ?g, \<lambda>_ _. 0) = (sc0, sg0, z0)"
    by (metis prod_cases3)
  obtain sc1 sg1 z1 where f1: "fold (expand_node (st_s st1 ?p) ?sg) (visits (2 ^ iter) n) (st_s st1 ?c, st_s st1 ?g, \<lambda>_ _. 0) = (sc1, sg1, z1)"
    by (metis prod_cases3)
  define u0 where "u0 = (with_row row d0 st0)\<lparr>st_s := (st_s st0)(?c := sc0, ?g := sg0), st_z := z0\<rparr>"
  define u1 where "u1 = (with_row row d1 st1)\<lparr>st_s := (st_s st1)(?c := sc1, ?g := sg1), st_z := z1\<rparr>"
  have e0: "expand_level iter (with_row row d0 st0) = Inr u0"
    using rows_fit [OF d(1) i(2,1)] d(1) i(2) f0 by (simp add: expand_level_def with_row_def u0_def Let_def sized_def)
  have e1: "expand_level iter (with_row row d1 st1) = Inr u1"
    using rows_fit [OF d(2) i(2,1)] d(2) i(2) f1 by (simp add: expand_level_def with_row_def u1_def Let_def sized_def)
  have ne: "?c \<noteq> ?g" by presburger
  have s: "st_s u0 ?c = sc0" "st_s u0 ?g = sg0" "st_z u0 = z0" "st_s u1 ?c = sc1" "st_s u1 ?g = sg1" "st_z u1 = z1"
    using ne by (simp_all add: u0_def u1_def)
  have col: "level_rel (2 ^ Suc iter) (prefix ?D (\<alpha> k) iter) k sc0 sg0 z0 sc1 sg1 z1 \<and> on_path (prefix ?D (\<alpha> k) iter) k sc0 sg0 sc1 sg1 (path' k)" if k: "k < n" for k
  proof -
    let ?q = "prefix ?D (\<alpha> k) (iter - 1)" and ?a = "bit (\<alpha> k) (?D - iter)"
    have rel: "level_rel (2 ^ iter) ?q k (st_s st0 ?p) (st_s st0 ?c) (st_z st0) (st_s st1 ?p) (st_s st1 ?c) (st_z st1)"
      and on: "on_path ?q k (st_s st0 ?p) (st_s st0 ?c) (st_s st1 ?p) (st_s st1 ?c) (path k)"
      using t k by (simp_all add: trees_def Let_def)
    have i64: "?D - iter < 64" using i by linarith
    note pr = path_row_corrects [of _ _ _ _ _ _ _ _ _ path, OF rel on _ k i64, of \<alpha> "fst row" "snd row" path']
    have co: "corrects ?a k (st_z st0) (st_z st1) ?sg" and p': "path' k = next_path (iter \<noteq> ?D) ?a (path k)" using pr row by auto
    have q: "prefix ?D (\<alpha> k) iter = 2 * ?q + side ?a" using prefix_Suc [of "iter - 1" ?D "\<alpha> k"] i by simp
    have R: "2 * ?q + side ?a < 2 ^ iter" using q prefix_less [of ?D "\<alpha> k" iter] by simp
    have vis: "visited (visits (2 ^ iter) n) (2 * ?q + side ?a) k" using visited_visits [of "2 ^ iter" n] R k i(1) by simp
    note c0 = fold_expand_node [OF plan_visits f0] and c1 = fold_expand_node [OF plan_visits f1]
    note at = on_path_seed_at [OF rel on co side_simps(1) [of ?a]]
    have child: "sg0 (2 * (2 * ?q + side ?a) + j) k = grandchild (corrected ?a (path k) 0 (side ?a)) j"
      "sg1 (2 * (2 * ?q + side ?a) + j) k = grandchild (corrected ?a (path k) 1 (side ?a)) j" if "j < 2" for j
      using c0 [of "2 * (2 * ?q + side ?a) + j" k] c1 [of "2 * (2 * ?q + side ?a) + j" k] vis at
      unfolding row_of [OF that] by simp_all
    have "on_path (2 * ?q + side ?a) k sc0 sg0 sc1 sg1 (path' k)"
      using child c0 [of "2 * ?q + side ?a" k] c1 [of "2 * ?q + side ?a" k] vis at i(2) unfolding on_path_def p' next_path_def by simp
    moreover have "level_rel (2 * 2 ^ iter) (2 * ?q + side ?a) k sc0 sg0 z0 sc1 sg1 z1" by (rule level_step [OF rel k co co f0 f1])
    ultimately show ?thesis unfolding q by simp
  qed
  show thesis
  proof (rule that [OF e0 e1])
    show "trees domain n (Suc iter) \<alpha> u0 u1 path'"
      using col s t d by (simp add: trees_def u0_def u1_def with_row_def Let_def)
  qed (simp_all add: u0_def u1_def with_row_def)
qed


text \<open>The leaves: \<open>leaf_gap\<close> is what the dealer adds to the value.\<close>

definition leaf_gap :: "bool \<Rightarrow> (nat \<Rightarrow> nat \<Rightarrow> m128) \<Rightarrow> m128" where
  "leaf_gap a seeds = roundEnc NI (seeds 0 (side a)) (seeds 0 (side a)) XOR roundEnc NI (seeds 1 (side a)) (seeds 1 (side a))"

lemma gen_leaf_eq:
  assumes "complementary path"
  shows "gen_leaf \<alpha> v (corrected (bit \<alpha> 0) path) = Inr (leaf_gap (bit \<alpha> 0) (corrected (bit \<alpha> 0) path) XOR v)"
proof -
  have pb: "point_bit \<alpha> 0 = (if bit \<alpha> 0 then 1 else 0)" by (rule point_bit_eq) simp
  have un: "unat (point_bit \<alpha> 0) = side (bit \<alpha> 0)" "unat (point_bit \<alpha> 0 XOR 1) = side (\<not> bit \<alpha> 0)"
    unfolding pb by (simp_all add: side_def)
  show ?thesis using corrected_off [OF assms, of "bit \<alpha> 0"] unfolding gen_leaf_def Let_def un by (simp add: leaf_gap_def)
qed

lemma depth_facts:
  assumes "2 \<le> domain"
  shows "0 < log2ceil domain" "domain \<le> roundUpTo domain 2" "even (roundUpTo domain 2)" "roundUpTo domain 2 \<le> 2 ^ log2ceil domain"
proof -
  show pos: "0 < log2ceil domain" using assms bit_width.simps [of "domain - 1"] by (simp add: log2ceil_def)
  have e: "roundUpTo domain 2 = (domain + 1) div 2 * 2" by (simp add: roundUpTo_def divCeil_def)
  show "domain \<le> roundUpTo domain 2" unfolding e by presburger
  show "even (roundUpTo domain 2)" unfolding e by simp
  have "domain \<le> 2 ^ log2ceil domain" using assms by (intro log2ceil_bound) simp
  moreover obtain x :: nat where "2 ^ log2ceil domain = 2 * x" using pos by (cases "log2ceil domain") auto
  ultimately show "roundUpTo domain 2 \<le> 2 ^ log2ceil domain" by (simp add: e)
qed

text \<open>What the two parties' leaves have to do with each other.\<close>

definition leaves_rel :: "nat \<Rightarrow> nat \<Rightarrow> (nat \<Rightarrow> u64) \<Rightarrow> (nat \<Rightarrow> path_state) \<Rightarrow> (nat \<Rightarrow> nat \<Rightarrow> m128) \<Rightarrow> (nat \<Rightarrow> nat \<Rightarrow> m128) \<Rightarrow> (nat \<Rightarrow> m128)
    \<Rightarrow> (nat \<Rightarrow> nat \<Rightarrow> m128) \<Rightarrow> (nat \<Rightarrow> nat \<Rightarrow> m128) \<Rightarrow> (nat \<Rightarrow> m128) \<Rightarrow> bool" where
  "leaves_rel domain n \<alpha> fin sd0 td0 f0 sd1 td1 f1 \<longleftrightarrow>
     (\<forall>k<n. let A = prefix (log2ceil domain) (\<alpha> k) (log2ceil domain); G = leaf_gap (bit (\<alpha> k) 0) (fst (fin k)) in
        (\<forall>r<domain. sd0 r k XOR sd1 r k = (if r = A then G else 0) \<and> td0 r k XOR td1 r k = (if r = A then - 1 else 0))
        \<and> (A < domain \<longrightarrow> f0 k XOR f1 k = G))"

lemma leaf_both:
  assumes t: "trees domain n (log2ceil domain) \<alpha> st0 st1 path" and dm: "2 \<le> domain" "log2ceil domain \<le> 64"
    and row: "path_row (log2ceil domain) n \<alpha> (log2ceil domain) path row fin" and d: "sized domain n d0" "sized domain n d1"
  obtains sd0 td0 f0 sd1 td1 f1 where "leaf_level (with_row row d0 st0) = Inr (sd0, td0, f0)" "leaf_level (with_row row d1 st1) = Inr (sd1, td1, f1)"
    "leaves_rel domain n \<alpha> fin sd0 td0 f0 sd1 td1 f1"
proof -
  let ?D = "log2ceil domain" and ?p = "(log2ceil domain - 1) mod 3" and ?c = "log2ceil domain mod 3" and ?sg = "sigma_of (fst row) (snd row)"
    and ?leaves = "roundUpTo domain 2"
  note D = depth_facts [OF dm(1)]
  obtain sd0 td0 f0 where f0: "fold (leaf_node (st_s st0 ?p) ?sg) (visits ?leaves n) (st_s st0 ?c, \<lambda>_ _. 0, \<lambda>_. 0) = (sd0, td0, f0)"
    by (metis prod_cases3)
  obtain sd1 td1 f1 where f1: "fold (leaf_node (st_s st1 ?p) ?sg) (visits ?leaves n) (st_s st1 ?c, \<lambda>_ _. 0, \<lambda>_. 0) = (sd1, td1, f1)"
    by (metis prod_cases3)
  have fit: "?leaves div 2 \<le> s_rows d ?p \<and> ?leaves \<le> s_rows d ?c" if "sized domain n d" for d
  proof -
    have "?leaves div 2 \<le> 2 ^ ?D div 2" using D(4) by (rule div_le_mono)
    then show ?thesis
      using level_fits [OF that, of "?D - 1"] level_fits [OF that, of ?D] D by (simp add: half_power)
  qed
  show thesis
  proof (rule that)
    show "leaf_level (with_row row d0 st0) = Inr (sd0, td0, f0)"
      using fit [OF d(1)] d(1) f0 by (simp add: leaf_level_def with_row_def Let_def sized_def not_less)
    show "leaf_level (with_row row d1 st1) = Inr (sd1, td1, f1)"
      using fit [OF d(2)] d(2) f1 by (simp add: leaf_level_def with_row_def Let_def sized_def not_less)
    show "leaves_rel domain n \<alpha> fin sd0 td0 f0 sd1 td1 f1"
      unfolding leaves_rel_def Let_def
    proof (intro allI impI)
      fix k assume k: "k < n"
      let ?q = "prefix ?D (\<alpha> k) (?D - 1)" and ?a = "bit (\<alpha> k) 0"
      have rel: "level_rel (2 ^ ?D) ?q k (st_s st0 ?p) (st_s st0 ?c) (st_z st0) (st_s st1 ?p) (st_s st1 ?c) (st_z st1)"
        and on: "on_path ?q k (st_s st0 ?p) (st_s st0 ?c) (st_s st1 ?p) (st_s st1 ?c) (path k)"
        using t k by (simp_all add: trees_def Let_def)
      note pr = path_row_corrects [of _ _ _ _ _ _ _ _ _ path, OF rel on _ k, of ?D \<alpha> ?D "fst row" "snd row" fin]
      have co: "corrects ?a k (st_z st0) (st_z st1) ?sg" and p': "fst (fin k) = corrected ?a (path k)" using pr row by (auto simp: next_path_def)
      have A: "prefix ?D (\<alpha> k) ?D = 2 * ?q + side ?a" using prefix_Suc [of "?D - 1" ?D "\<alpha> k"] D(1) by simp
      note leaf = leaf_step [OF rel k D(4,3) co co f0 f1]
      have G: "sd0 (2 * ?q + side ?a) k XOR sd1 (2 * ?q + side ?a) k = leaf_gap ?a (fst (fin k))" if "2 * ?q + side ?a < ?leaves"
        using leaf(4) [OF that] on_path_seed_at [OF rel on co side_simps(1) [of ?a]] by (simp add: p' leaf_gap_def)
      show "(\<forall>r<domain. sd0 r k XOR sd1 r k = (if r = prefix ?D (\<alpha> k) ?D then leaf_gap ?a (fst (fin k)) else 0)
          \<and> td0 r k XOR td1 r k = (if r = prefix ?D (\<alpha> k) ?D then - 1 else 0))
          \<and> (prefix ?D (\<alpha> k) ?D < domain \<longrightarrow> f0 k XOR f1 k = leaf_gap ?a (fst (fin k)))"
        unfolding A using leaf(1-3) G D(2) by auto
    qed
  qed
qed

end
