(* ===== verification/DistDpfRun.thy ===== *)
theory DistDpfRun
  imports DistDpfKeys
begin

text \<open>
  One level between the two parties: the messages, and the corrections that both parties open, which are the ones that the
  path to the shared point needs.
\<close>

section \<open>Messages\<close>

lemma iterator_from: "(it_inc ^^ n) (BitIterator_at b i) = BitIterator_at b (i + n)"
proof (induction n arbitrary: i)
  case (Suc n)
  have "it_inc (BitIterator_at b k) = BitIterator_at b (Suc k)" for k
    by (auto simp: it_inc_def BitIterator_at_def div_Suc mod_Suc)
  with Suc show ?case by simp
qed simp

lemma msg_block:
  assumes "k < length xs"
  shows "take 16 (drop (16 * k) (concat (map to_bytes (xs :: m128 list)) @ rest)) = to_bytes (xs ! k)"
  using nth_chunks_msg [OF assms, of "concat (map to_bytes xs) @ rest"] chunks_concat [of xs to_bytes 16 rest] assms by simp

lemma write_bits_ok:
  assumes "8 * b + length bits \<le> 8 * length buf"
  shows "length (write_bits b bits buf) = length buf \<and> take b (write_bits b bits buf) = take b buf
    \<and> (\<forall>k<length bits. it_deref (write_bits b bits buf) (BitIterator_at b k) = (if bits ! k \<noteq> 0 then 1 else 0))"
proof -
  let ?step = "\<lambda>k buf. buf[(8 * b + k) div 8 := BitReference_set (buf ! ((8 * b + k) div 8)) ((8 * b + k) mod 8) (bits ! k)]"
  have w: "write_bits b bits buf = fold ?step [0..<length bits] buf"
    unfolding write_bits_def Let_def iterator_from by (simp add: BitIterator_at_def)
  have "length (fold ?step [0..<m] buf) = length buf \<and> take b (fold ?step [0..<m] buf) = take b buf
    \<and> (\<forall>k<m. data_bit (fold ?step [0..<m] buf) (8 * b + k) = (bits ! k \<noteq> 0))" if "m \<le> length bits" for m
    using that
  proof (induction m)
    case (Suc m)
    let ?d = "fold ?step [0..<m] buf" and ?i = "8 * b + m"
    have i: "?i < 8 * length ?d" using Suc assms by simp
    have "fold ?step [0..<Suc m] buf = ?d[?i div 8 := BitReference_set (?d ! (?i div 8)) (?i mod 8) (bits ! m)]"
      by simp
    moreover have "take b (?d[?i div 8 := x]) = take b ?d" for x by (rule take_update_cancel) simp
    moreover have "data_bit (?d[?i div 8 := BitReference_set (?d ! (?i div 8)) (?i mod 8) (bits ! m)]) (8 * b + k)
        = (if k = m then bits ! m \<noteq> 0 else data_bit ?d (8 * b + k))" if "k \<le> m" for k
      by (subst data_bit_set [OF i]) (use i that in auto)
    ultimately show ?case using Suc by (auto simp: less_Suc_eq)
  qed simp
  from this [of "length bits"] have ok: "length (write_bits b bits buf) = length buf \<and> take b (write_bits b bits buf) = take b buf
    \<and> (\<forall>k<length bits. data_bit (write_bits b bits buf) (8 * b + k) = (bits ! k \<noteq> 0))" by (simp add: w)
  moreover have "it_deref d (BitIterator_at b k) = (if data_bit d (8 * b + k) then 1 else 0)" for d k
    using data_bit_get [of d "8 * b + k"] by (simp add: it_deref_def BitIterator_at_def)
  ultimately show ?thesis by simp
qed


text \<open>Sequential composition with a third party that has nothing to do.\<close>

lemma joint_then:
  assumes "joint (three a b (Return c)) N (three v0 v1 c) N'" "joint (three (f0 v0) (f1 v1) (Return c')) N' w N''"
  shows "joint (three (bind a f0) (bind b f1) (Return c')) N w N''"
  using joint_three_bind [OF assms(1), of f0 f1 "\<lambda>_. Return c'"] assms(2) by simp

section \<open>The corrections of a level\<close>

text \<open>The bit of the shared point, and the value that the parties open.\<close>

lemma shared_word:
  assumes "a \<longleftrightarrow> bit p0 i \<noteq> bit p1 i" "i < 64"
    "x0 XOR x1 = (if a then 0 else put_bit0 (z00 XOR z01) 0 XOR put_bit0 (z10 XOR z11) 0)"
  shows "(x0 XOR z00 XOR mm_set_epi64x 0 (ucast ((0 :: u8) XOR point_bit p0 i))) XOR (x1 XOR z10 XOR mm_set_epi64x 0 (ucast ((1 :: u8) XOR point_bit p1 i)))
    = correct_word a (\<lambda>j. if j = 0 then z00 XOR z10 else z01 XOR z11)" (is "?l = _")
proof -
  let ?t = "mm_set_epi64x 0 (ucast ((0 :: u8) XOR point_bit p0 i)) XOR mm_set_epi64x 0 (ucast ((1 :: u8) XOR point_bit p1 i))"
  have t: "?t = (if a then 0 else 1)"
    using assms(1) by (cases "bit p0 i"; cases "bit p1 i") (simp_all add: point_bit_eq [OF assms(2)] mm_set_epi64x_def)
  have "?l = (x0 XOR x1) XOR (z00 XOR z10) XOR ?t" by (simp only: xor_simps)
  also have "\<dots> = correct_word a (\<lambda>j. if j = 0 then z00 XOR z10 else z01 XOR z11)"
    unfolding assms(3) t by (rule bit_word_eqI) (auto simp: correct_word_def lsb_eq bit_simps)
  finally show ?thesis .
qed

lemma opened_message:
  assumes "length sm = n" "length taus = n"
  defines "B \<equiv> write_bits (16 * n) taus (concat (map to_bytes (sm :: m128 list)) @ replicate (16 * divCeil n 128) 0)"
  shows "length B = 16 * (n + divCeil n 128)" "\<And>k. k < n \<Longrightarrow> of_bytes (take 16 (drop (16 * k) B)) = sm ! k"
    "\<And>k. k < n \<Longrightarrow> it_deref B ((it_inc ^^ k) (BitIterator_at (16 * n) 0)) = (if taus ! k \<noteq> 0 then 1 else 0)"
proof -
  let ?c = "concat (map to_bytes sm)" and ?z = "replicate (16 * divCeil n 128) (0 :: byte)"
  have c: "length ?c = 16 * n" using length_concat_map_const [of sm to_bytes 16] assms(1) by simp
  have "n \<le> 128 * divCeil n 128" by (rule divCeil_bounds) simp
  then have "8 * (16 * n) + length taus \<le> 8 * length (?c @ ?z)" using c assms(2) by simp
  note w = write_bits_ok [OF this, folded B_def]
  show "length B = 16 * (n + divCeil n 128)" using w c by simp
  show "of_bytes (take 16 (drop (16 * k) B)) = sm ! k" if "k < n" for k
  proof -
    have "take 16 (drop (16 * k) (take (16 * n) B)) = take 16 (drop (16 * k) B)" using that by (simp add: take_drop)
    moreover have "take (16 * n) B = ?c @ []" using w c by simp
    ultimately have "take 16 (drop (16 * k) B) = to_bytes (sm ! k)" using msg_block [of k sm "[]"] that assms(1) by simp
    then show ?thesis by simp
  qed
  show "it_deref B ((it_inc ^^ k) (BitIterator_at (16 * n) 0)) = (if taus ! k \<noteq> 0 then 1 else 0)" if "k < n" for k
    using w that assms(2) by (simp add: iterator_from)
qed


text \<open>One party of the opening, after the product.\<close>

definition own_word :: "nat \<Rightarrow> u64 list \<Rightarrow> nat \<Rightarrow> (nat \<Rightarrow> nat \<Rightarrow> m128) \<Rightarrow> m128 list \<Rightarrow> nat \<Rightarrow> m128" where
  "own_word party points i z xy k = xy ! k XOR z 0 k XOR mm_set_epi64x 0 (ucast ((of_nat party :: u8) XOR point_bit (points ! k) i))"

definition own_bit :: "u64 list \<Rightarrow> nat \<Rightarrow> (nat \<Rightarrow> nat \<Rightarrow> m128) \<Rightarrow> nat \<Rightarrow> u8" where
  "own_bit points i z k = lsb (z 1 k) XOR point_bit (points ! k) i"

definition own_message :: "nat \<Rightarrow> nat \<Rightarrow> u64 list \<Rightarrow> nat \<Rightarrow> (nat \<Rightarrow> nat \<Rightarrow> m128) \<Rightarrow> m128 list \<Rightarrow> byte list" where
  "own_message n party points i z xy = write_bits (16 * n) (map (own_bit points i z) [0..<n])
     (concat (map to_bytes (map (own_word party points i z xy) [0..<n])) @ replicate (16 * divCeil n 128) 0)"

lemma own_message_facts:
  "length (own_message n party points i z xy) = 16 * (n + divCeil n 128)"
  "k < n \<Longrightarrow> of_bytes (take 16 (drop (16 * k) (own_message n party points i z xy))) = own_word party points i z xy k"
  "k < n \<Longrightarrow> it_deref (own_message n party points i z xy) ((it_inc ^^ k) (BitIterator_at (16 * n) 0)) = (if own_bit points i z k \<noteq> 0 then 1 else 0)"
  using opened_message [of "map (own_word party points i z xy) [0..<n]" n "map (own_bit points i z) [0..<n]"]
  by (simp_all add: own_message_def)

lemma own_bit_01: "i < 64 \<Longrightarrow> (if own_bit points i z k \<noteq> 0 then 1 else 0) = own_bit points i z k"
  by (simp add: own_bit_def lsb_eq point_bit_eq)

definition open_row :: "nat \<Rightarrow> nat \<Rightarrow> u64 list \<Rightarrow> nat \<Rightarrow> (nat \<Rightarrow> nat \<Rightarrow> m128) \<Rightarrow> m128 list \<Rightarrow> byte list \<Rightarrow> m128 list \<times> u8 list" where
  "open_row n party points i z xy buff =
     (map (\<lambda>k. of_bytes (take 16 (drop (16 * k) buff)) XOR own_word party points i z xy k) [0..<n],
      map (\<lambda>k. it_deref buff ((it_inc ^^ k) (BitIterator_at (16 * n) 0)) XOR lsb (z 1 k) XOR point_bit (points ! k) i) [0..<n])"

lemma map_xor_upt: "map (\<lambda>k. (g k :: m128) XOR map f [0..<n] ! k) [0..<n] = map (\<lambda>k. g k XOR f k) [0..<n]"
  by simp

lemma correction_party:
  assumes n: "mNumPoints d = n" and i: "mDepth d - iter < 64" and p: "dpfPartyIdx d < 2"
  obtains x where "bv_ok x" "mNumBits x = n" "\<And>k. k < n \<Longrightarrow> bv_bits x ! k \<longleftrightarrow> bit (points ! k) (mDepth d - iter) \<noteq> (dpfPartyIdx d = 1)"
    "correction heap peer points iter z d =
       bind (multiply heap peer x (map (\<lambda>k. put_bit0 (z 0 k XOR z 1 k) 0) [0..<n]) n (mMultiplier d)) (\<lambda>(xy, m).
       Await [Send peer [own_message n (dpfPartyIdx d) points (mDepth d - iter) z xy]] (\<lambda>_.
       Await [Recv peer (RRead (16 * (n + divCeil n 128)) RDone)] (\<lambda>r.
       Return (open_row n (dpfPartyIdx d) points (mDepth d - iter) z xy (r ! 0), d\<lparr>mMultiplier := m\<rparr>))))"
proof -
  let ?i = "mDepth d - iter" and ?party = "of_nat (dpfPartyIdx d) :: u8"
  let ?bs = "map (\<lambda>k. point_bit (points ! k) ?i XOR ?party) [0..<n]"
  have v: "bv_ok (bv_reset BitVector_empty n)" "bv_bits (bv_reset BitVector_empty n) = replicate n False"
    using bv_reset_ok [of BitVector_empty n] by simp_all
  obtain x where x: "put_all bv_set (bv_reset BitVector_empty n) 0 ?bs = Inr x" "bv_ok x" "bv_bits x = map (\<lambda>b. b \<noteq> 0) ?bs"
    using bv.put_all_ok [OF v(1), of 0 ?bs] v(2) by auto
  have nx: "mNumBits x = n" using arg_cong [OF x(3), of length] by simp
  have p01: "dpfPartyIdx d = 0 \<or> dpfPartyIdx d = 1" using p by auto
  show thesis
  proof (rule that [OF x(2) nx])
    show "bv_bits x ! k \<longleftrightarrow> bit (points ! k) ?i \<noteq> (dpfPartyIdx d = 1)" if "k < n" for k
      using p01 that x(3) nx by (auto simp: point_bit_eq [OF i] simp del: nth_bv_bits)
    show "correction heap peer points iter z d =
       bind (multiply heap peer x (map (\<lambda>k. put_bit0 (z 0 k XOR z 1 k) 0) [0..<n]) n (mMultiplier d)) (\<lambda>(xy, m).
       Await [Send peer [own_message n (dpfPartyIdx d) points ?i z xy]] (\<lambda>_.
       Await [Recv peer (RRead (16 * (n + divCeil n 128)) RDone)] (\<lambda>r.
       Return (open_row n (dpfPartyIdx d) points ?i z xy (r ! 0), d\<lparr>mMultiplier := m\<rparr>))))"
      unfolding correction_def n Let_def x(1)
      by (simp add: map_xor_upt own_message_def own_word_def [abs_def] own_bit_def [abs_def] open_row_def cong: map_cong)
  qed
qed


definition advanced :: "nat \<Rightarrow> RegularDpf \<Rightarrow> RegularDpf" where
  "advanced n d = d\<lparr>mMultiplier := (mMultiplier d)\<lparr>mOtIdx := mOtIdx (mMultiplier d) + n\<rparr>\<rparr>"

lemma sized_advanced [simp]: "sized domain n (advanced m d) = sized domain n d" "dpfPartyIdx (advanced m d) = dpfPartyIdx d"
  by (simp_all add: advanced_def sized_def)

text \<open>Both parties of the protocol: their sizes, their roles and the transfers for \<open>r\<close> products.\<close>

definition partners :: "nat \<Rightarrow> nat \<Rightarrow> nat \<Rightarrow> RegularDpf \<Rightarrow> RegularDpf \<Rightarrow> bool" where
  "partners domain n r d0 d1 \<longleftrightarrow> sized domain n d0 \<and> sized domain n d1 \<and> dpfPartyIdx d0 = 0 \<and> dpfPartyIdx d1 = 1
     \<and> mult_ready 0 r (mMultiplier d0) \<and> mult_ready 1 r (mMultiplier d1) \<and> ots_match (mMultiplier d0) (mMultiplier d1)"

lemma partners_advanced: "partners domain n (n + r) d0 d1 \<Longrightarrow> partners domain n r (advanced n d0) (advanced n d1)"
  by (auto simp: partners_def advanced_def sized_def mult_ready_def ots_match_def)

lemma partners_le: "partners domain n r d0 d1 \<Longrightarrow> r' \<le> r \<Longrightarrow> partners domain n r' d0 d1"
  by (auto simp: partners_def mult_ready_def)

lemma correction_joint:
  assumes P: "partners domain n n d0 d1" and i: "log2ceil domain - iter < 64" and \<alpha>: "\<And>k. k < n \<Longrightarrow> \<alpha> k = p0 ! k XOR p1 ! k"
  obtains row where "length (fst row) = n" "length (snd row) = n"
    "\<And>k. k < n \<Longrightarrow> fst row ! k = correct_word (bit (\<alpha> k) (log2ceil domain - iter)) (\<lambda>j. z0 j k XOR z1 j k)
       \<and> snd row ! k = correct_bit (bit (\<alpha> k) (log2ceil domain - iter)) (\<lambda>j. z0 j k XOR z1 j k)"
    "joint (three (correction h0 P1 p0 iter z0 d0) (correction h1 P0 p1 iter z1 d1) (Return c)) quiet
       (three (row, advanced n d0) (row, advanced n d1) c) quiet"
proof -
  let ?i = "log2ceil domain - iter" and ?diff = "\<lambda>z. map (\<lambda>k. put_bit0 (z 0 k XOR z 1 k) 0) [0..<n]"
  have d0: "mNumPoints d0 = n" "mDepth d0 = log2ceil domain" "dpfPartyIdx d0 = 0" and d1: "mNumPoints d1 = n" "mDepth d1 = log2ceil domain" "dpfPartyIdx d1 = 1"
    using P by (simp_all add: partners_def sized_def)
  obtain x0 where x0: "bv_ok x0" "mNumBits x0 = n" "\<And>k. k < n \<Longrightarrow> bv_bits x0 ! k \<longleftrightarrow> bit (p0 ! k) ?i"
    "correction h0 P1 p0 iter z0 d0 = bind (multiply h0 P1 x0 (?diff z0) n (mMultiplier d0)) (\<lambda>(xy, m).
       Await [Send P1 [own_message n 0 p0 ?i z0 xy]] (\<lambda>_. Await [Recv P1 (RRead (16 * (n + divCeil n 128)) RDone)] (\<lambda>r.
       Return (open_row n 0 p0 ?i z0 xy (r ! 0), d0\<lparr>mMultiplier := m\<rparr>))))"
    using correction_party [OF d0(1), where iter = iter and heap = h0 and peer = P1 and points = p0 and z = z0] i d0 by auto
  obtain x1 where x1: "bv_ok x1" "mNumBits x1 = n" "\<And>k. k < n \<Longrightarrow> bv_bits x1 ! k \<longleftrightarrow> \<not> bit (p1 ! k) ?i"
    "correction h1 P0 p1 iter z1 d1 = bind (multiply h1 P0 x1 (?diff z1) n (mMultiplier d1)) (\<lambda>(xy, m).
       Await [Send P0 [own_message n 1 p1 ?i z1 xy]] (\<lambda>_. Await [Recv P0 (RRead (16 * (n + divCeil n 128)) RDone)] (\<lambda>r.
       Return (open_row n 1 p1 ?i z1 xy (r ! 0), d1\<lparr>mMultiplier := m\<rparr>))))"
    using correction_party [OF d1(1), where iter = iter and heap = h1 and peer = P0 and points = p1 and z = z1] i d1 by auto
  obtain xy0 xy1 where xy: "\<And>k. k < n \<Longrightarrow> xy0 ! k XOR xy1 ! k = (if bv_bits x0 ! k \<noteq> bv_bits x1 ! k then ?diff z0 ! k XOR ?diff z1 ! k else 0)"
    "joint (three (multiply h0 P1 x0 (?diff z0) n (mMultiplier d0)) (multiply h1 P0 x1 (?diff z1) n (mMultiplier d1)) (Return undefined)) quiet
       (three (xy0, (mMultiplier d0)\<lparr>mOtIdx := mOtIdx (mMultiplier d0) + n\<rparr>) (xy1, (mMultiplier d1)\<lparr>mOtIdx := mOtIdx (mMultiplier d1) + n\<rparr>) undefined) quiet"
    by (rule multiply_joint [of n "mMultiplier d0" "mMultiplier d1" x0 x1 "?diff z0" "?diff z1" h0 h1 undefined])
      (use P x0 x1 in \<open>auto simp: partners_def\<close>)
  let ?m0 = "own_message n 0 p0 ?i z0 xy0" and ?m1 = "own_message n 1 p1 ?i z1 xy1"
  let ?w0 = "own_word 0 p0 ?i z0 xy0" and ?w1 = "own_word 1 p1 ?i z1 xy1" and ?b0 = "own_bit p0 ?i z0" and ?b1 = "own_bit p1 ?i z1"
  define row where "row = (map (\<lambda>k. ?w0 k XOR ?w1 k) [0..<n], map (\<lambda>k. ?b0 k XOR ?b1 k) [0..<n])"
  have row0: "open_row n 0 p0 ?i z0 xy0 ?m1 = row" and row1: "open_row n 1 p1 ?i z1 xy1 ?m0 = row"
    using own_bit_01 [OF i] own_message_facts(2,3) [of _ n 1 p1 ?i z1 xy1] own_message_facts(2,3) [of _ n 0 p0 ?i z0 xy0]
    by (auto simp: open_row_def row_def own_bit_def xor_simps)
  show thesis
  proof (rule that)
    fix k assume k: "k < n"
    let ?a = "bit (\<alpha> k) ?i" and ?D = "\<lambda>j. z0 j k XOR z1 j k"
    have a: "?a \<longleftrightarrow> bit (p0 ! k) ?i \<noteq> bit (p1 ! k) ?i" using \<alpha> [OF k] by (simp add: bit_simps)
    have "xy0 ! k XOR xy1 ! k = (if ?a then 0 else put_bit0 (z0 0 k XOR z0 1 k) 0 XOR put_bit0 (z1 0 k XOR z1 1 k) 0)"
      using xy(1) [OF k] x0(3) [OF k] x1(3) [OF k] a k by auto
    from shared_word [OF a i this] have "?w0 k XOR ?w1 k = correct_word ?a (\<lambda>j. if j = 0 then z0 0 k XOR z1 0 k else z0 1 k XOR z1 1 k)"
      by (simp add: own_word_def)
    also have "\<dots> = correct_word ?a ?D" using correct_cong [of "\<lambda>j. if j = 0 then z0 0 k XOR z1 0 k else z0 1 k XOR z1 1 k" ?D ?a] by simp
    moreover have "?b0 k XOR ?b1 k = correct_bit ?a ?D"
      using a by (simp add: own_bit_def correct_bit_def lsb_xor point_bit_eq [OF i] xor_simps)
    ultimately show "fst row ! k = correct_word ?a ?D \<and> snd row ! k = correct_bit ?a ?D" using k by (simp add: row_def)
  next
    have "reaches (three
        (Await [Send P1 [?m0]] (\<lambda>_. Await [Recv P1 (RRead (16 * (n + divCeil n 128)) RDone)] (\<lambda>r. Return (open_row n 0 p0 ?i z0 xy0 (r ! 0), advanced n d0))))
        (Await [Send P0 [?m1]] (\<lambda>_. Await [Recv P0 (RRead (16 * (n + divCeil n 128)) RDone)] (\<lambda>r. Return (open_row n 1 p1 ?i z1 xy1 (r ! 0), advanced n d1))))
        (Return c)) quiet
      (three (Return (open_row n 0 p0 ?i z0 xy0 ([?m1] ! 0), advanced n d0)) (Return (open_row n 1 p1 ?i z1 xy1 ([?m0] ! 0), advanced n d1)) (Return c)) quiet"
      by (rule exchange01) (simp_all add: own_message_facts(1))
    then have r: "reaches (three
        (Await [Send P1 [?m0]] (\<lambda>_. Await [Recv P1 (RRead (16 * (n + divCeil n 128)) RDone)] (\<lambda>r. Return (open_row n 0 p0 ?i z0 xy0 (r ! 0), advanced n d0))))
        (Await [Send P0 [?m1]] (\<lambda>_. Await [Recv P0 (RRead (16 * (n + divCeil n 128)) RDone)] (\<lambda>r. Return (open_row n 1 p1 ?i z1 xy1 (r ! 0), advanced n d1))))
        (Return c)) quiet (three (Return (row, advanced n d0)) (Return (row, advanced n d1)) (Return c)) quiet"
      by (simp only: nth_Cons_0 row0 row1)
    have "joint (three
        (Await [Send P1 [?m0]] (\<lambda>_. Await [Recv P1 (RRead (16 * (n + divCeil n 128)) RDone)] (\<lambda>r. Return (open_row n 0 p0 ?i z0 xy0 (r ! 0), advanced n d0))))
        (Await [Send P0 [?m1]] (\<lambda>_. Await [Recv P0 (RRead (16 * (n + divCeil n 128)) RDone)] (\<lambda>r. Return (open_row n 1 p1 ?i z1 xy1 (r ! 0), advanced n d1))))
        (Return c)) quiet (three (row, advanced n d0) (row, advanced n d1) c) quiet"
      by (rule reaches_joint [OF r joint_three_return])
    then show "joint (three (correction h0 P1 p0 iter z0 d0) (correction h1 P0 p1 iter z1 d1) (Return c)) quiet
       (three (row, advanced n d0) (row, advanced n d1) c) quiet"
      unfolding x0(4) x1(4) by (intro joint_then [OF xy(2)]) (simp add: advanced_def)
  qed (simp_all add: row_def)
qed

end
