(* ===== verification/DistDpfOpen.thy ===== *)
theory DistDpfOpen
  imports DistDpfRun
begin

text \<open>
  All levels, with keys and between the two parties, and what the three ways to obtain leaves have in common: the two
  parties' leaves xor to the point function.
\<close>

section \<open>All levels\<close>

text \<open>The start: below a root there are two rows, and the tags are the parties.\<close>

definition root_path :: "ot_pair \<Rightarrow> ot_pair \<Rightarrow> path_state \<Rightarrow> bool" where
  "root_path r0 r1 path \<longleftrightarrow> fst path 0 0 = fst r0 \<and> fst path 0 1 = snd r0 \<and> fst path 1 0 = fst r1 \<and> fst path 1 1 = snd r1
     \<and> snd path 0 = 0 \<and> snd path 1 = - 1"

lemma root_path_exists: obtains path where "\<And>k. root_path (roots0 ! k) (roots1 ! k) (path k)"
proof
  show "root_path (roots0 ! k) (roots1 ! k)
     (\<lambda>p j. let r = (if p = 0 then roots0 else roots1) ! k in if j = 0 then fst r else snd r, \<lambda>p. if p = 0 then 0 else - 1)" for k
    by (simp add: root_path_def)
qed

lemma start_both:
  assumes d: "sized domain n d0" "sized domain n d1" "dpfPartyIdx d0 = 0" "dpfPartyIdx d1 = 1" and dm: "2 \<le> domain"
    and root: "\<And>k. k < n \<Longrightarrow> root_path (roots0 ! k) (roots1 ! k) (path k)"
  obtains st0 st1 where "expand_start junk0 roots0 d0 = Inr st0" "expand_start junk1 roots1 d1 = Inr st1"
    "trees domain n 1 \<alpha> st0 st1 path" "st_dpf st0 = d0" "st_dpf st1 = d1" "st_words st0 = []" "st_bits st0 = []"
proof -
  have fit: "\<not> (s_rows d 1 < 2 \<or> s_rows d 0 < 1)" if "sized domain n d" for d
    using level_fits [OF that, of 0] level_fits [OF that, of 1] depth_facts(1) [OF dm] by simp
  obtain st0 where st0: "expand_start junk0 roots0 d0 = Inr st0" using fit [OF d(1)] by (simp add: expand_start_def Let_def)
  obtain st1 where st1: "expand_start junk1 roots1 d1 = Inr st1" using fit [OF d(2)] by (simp add: expand_start_def Let_def)
  show thesis
    by (rule that [OF st0 st1])
      (use st0 st1 d root in \<open>auto simp: expand_start_def trees_def level_rel_def on_path_def root_path_def Let_def less_2_cases_iff split: if_splits\<close>)
qed

text \<open>The rows of corrections along a list of levels, and the state of every path behind them.\<close>

fun path_rows :: "nat \<Rightarrow> nat \<Rightarrow> (nat \<Rightarrow> u64) \<Rightarrow> nat list \<Rightarrow> (nat \<Rightarrow> path_state) \<Rightarrow> (m128 list \<times> u8 list) list \<Rightarrow> (nat \<Rightarrow> path_state) \<Rightarrow> bool" where
  "path_rows depth n \<alpha> [] path rows fin \<longleftrightarrow> rows = [] \<and> fin = path"
| "path_rows depth n \<alpha> (i # iters) path rows fin \<longleftrightarrow>
     (\<exists>row rs path'. rows = row # rs \<and> path_row depth n \<alpha> i path row path' \<and> path_rows depth n \<alpha> iters path' rs fin)"

text \<open>Both parties after the loop: the last row is in place, the leaves are still to be computed.\<close>

definition all_levels :: "nat \<Rightarrow> nat \<Rightarrow> (nat \<Rightarrow> u64) \<Rightarrow> (nat \<Rightarrow> path_state) \<Rightarrow> expand_state \<Rightarrow> expand_state \<Rightarrow> bool" where
  "all_levels domain n \<alpha> fin st0 st1 \<longleftrightarrow> (\<exists>u0 u1 path row. trees domain n (log2ceil domain) \<alpha> u0 u1 path
     \<and> path_row (log2ceil domain) n \<alpha> (log2ceil domain) path row fin \<and> st0 = with_row row (st_dpf st0) u0 \<and> st1 = with_row row (st_dpf st1) u1
     \<and> sized domain n (st_dpf st0) \<and> sized domain n (st_dpf st1))"

lemma all_levels_leaves:
  assumes "all_levels domain n \<alpha> fin st0 st1" "2 \<le> domain" "log2ceil domain \<le> 64"
  obtains sd0 td0 f0 sd1 td1 f1 where "leaf_level st0 = Inr (sd0, td0, f0)" "leaf_level st1 = Inr (sd1, td1, f1)"
    "leaves_rel domain n \<alpha> fin sd0 td0 f0 sd1 td1 f1"
  using assms unfolding all_levels_def by (metis leaf_both)

lemma last_row_level: "sized domain n d \<Longrightarrow> expand_level (log2ceil domain) (with_row row d st) = Inr (with_row row d st)"
  by (simp add: expand_level_def with_row_def sized_def)

lemma levels_split: "i \<le> D \<Longrightarrow> [i..<Suc D] = i # [Suc i..<Suc D]"
  by (simp add: upt_rec)

text \<open>With a key each party runs alone.\<close>

lemma keyed_step:
  "key_row k iter (mNumPoints (st_dpf st)) = Inr row \<Longrightarrow> expand_level iter (with_row row (st_dpf st) st) = Inr u
    \<Longrightarrow> expand_levels heap peer points (Some k) (iter # iters) st = expand_levels heap peer points (Some k) iters u"
  by (cases row) (simp add: with_row_def)

lemma keyed_levels:
  assumes "path_rows (log2ceil domain) n \<alpha> [iter..<Suc (log2ceil domain)] path rows fin" "trees domain n iter \<alpha> st0 st1 path"
    and "0 < iter" "iter \<le> log2ceil domain" "log2ceil domain \<le> 64"
    and "\<And>j. j < length rows \<Longrightarrow> key_row k0 (iter + j) n = Inr (rows ! j) \<and> key_row k1 (iter + j) n = Inr (rows ! j)"
  shows "\<exists>u0 u1. expand_levels h0 q0 p0 (Some k0) [iter..<Suc (log2ceil domain)] st0 = Return u0
    \<and> expand_levels h1 q1 p1 (Some k1) [iter..<Suc (log2ceil domain)] st1 = Return u1
    \<and> all_levels domain n \<alpha> fin u0 u1 \<and> st_dpf u0 = st_dpf st0 \<and> st_dpf u1 = st_dpf st1"
  using assms
proof (induction "log2ceil domain - iter" arbitrary: iter path rows st0 st1)
  case 0
  then have i: "iter = log2ceil domain" by simp
  with 0 obtain row where row: "rows = [row]" "path_row (log2ceil domain) n \<alpha> (log2ceil domain) path row fin" by auto
  have s: "sized domain n (st_dpf st0)" "sized domain n (st_dpf st1)" using 0 by (simp_all add: trees_def)
  then have N: "mNumPoints (st_dpf st0) = n" "mNumPoints (st_dpf st1) = n" by (simp_all add: sized_def)
  let ?u = "\<lambda>st. with_row row (st_dpf st) st"
  have "all_levels domain n \<alpha> fin (?u st0) (?u st1)"
    unfolding all_levels_def using 0(3) row(2) s i by (intro exI conjI) (auto simp: with_row_def)
  moreover have kr: "key_row k0 iter n = Inr row \<and> key_row k1 iter n = Inr row" using 0(7) [of 0] row(1) by simp
  ultimately show ?case
    using keyed_step [of k0 iter st0 row, OF _ last_row_level [OF s(1), folded i]] keyed_step [of k1 iter st1 row, OF _ last_row_level [OF s(2), folded i]] N
    by (simp add: i) (auto simp: with_row_def)
next
  case (Suc m)
  then have i: "iter < log2ceil domain" by simp
  let ?D = "log2ceil domain"
  have up: "[iter..<Suc ?D] = iter # [Suc iter..<Suc ?D]" by (rule levels_split) (use i in simp)
  obtain row rs path' where row: "rows = row # rs" "path_row ?D n \<alpha> iter path row path'" "path_rows ?D n \<alpha> [Suc iter..<Suc ?D] path' rs fin"
    using Suc.prems(1) unfolding up by auto
  have s: "sized domain n (st_dpf st0)" "sized domain n (st_dpf st1)" using Suc.prems(2) by (simp_all add: trees_def)
  then have N: "mNumPoints (st_dpf st0) = n" "mNumPoints (st_dpf st1) = n" by (simp_all add: sized_def)
  obtain v0 v1 where v: "expand_level iter (with_row row (st_dpf st0) st0) = Inr v0" "expand_level iter (with_row row (st_dpf st1) st1) = Inr v1"
    "trees domain n (Suc iter) \<alpha> v0 v1 path'" "st_dpf v0 = st_dpf st0" "st_dpf v1 = st_dpf st1"
    by (rule level_both [OF Suc.prems(2,3) i Suc.prems(5) row(2) s]) blast
  have kr: "key_row k0 iter n = Inr row" "key_row k1 iter n = Inr row" using Suc.prems(6) [of 0] row(1) by simp_all
  have "\<exists>u0 u1. expand_levels h0 q0 p0 (Some k0) [Suc iter..<Suc ?D] v0 = Return u0
    \<and> expand_levels h1 q1 p1 (Some k1) [Suc iter..<Suc ?D] v1 = Return u1
    \<and> all_levels domain n \<alpha> fin u0 u1 \<and> st_dpf u0 = st_dpf v0 \<and> st_dpf u1 = st_dpf v1"
    by (rule Suc.hyps(1) [OF _ row(3) v(3)]) (use Suc.hyps(2) Suc.prems(5) Suc.prems(6) [of "Suc _"] row(1) i in auto)
  then show ?case
    unfolding up keyed_step [of k0 iter st0 row, unfolded N, OF kr(1) v(1)] keyed_step [of k1 iter st1 row, unfolded N, OF kr(2) v(2)] v(4,5) .
qed

text \<open>Without a key the parties open the corrections of every level; the opened row is the one of the paths.\<close>

lemma opened_row:
  assumes t: "trees domain n iter \<alpha> st0 st1 path" and i: "log2ceil domain - iter < 64"
    and row: "\<And>k. k < n \<Longrightarrow> fst row ! k = correct_word (bit (\<alpha> k) (log2ceil domain - iter)) (\<lambda>j. st_z st0 j k XOR st_z st1 j k)
       \<and> snd row ! k = correct_bit (bit (\<alpha> k) (log2ceil domain - iter)) (\<lambda>j. st_z st0 j k XOR st_z st1 j k)"
  shows "path_row (log2ceil domain) n \<alpha> iter path row (\<lambda>k. next_path (iter \<noteq> log2ceil domain) (bit (\<alpha> k) (log2ceil domain - iter)) (path k))"
  unfolding path_row_def
proof (intro allI impI)
  fix k assume k: "k < n"
  let ?a = "bit (\<alpha> k) (log2ceil domain - iter)" and ?D = "\<lambda>j. fst (path k) 0 j XOR fst (path k) 1 j" and ?Z = "\<lambda>j. st_z st0 j k XOR st_z st1 j k"
  have rel: "level_rel (2 ^ iter) (prefix (log2ceil domain) (\<alpha> k) (iter - 1)) k (st_s st0 ((iter - 1) mod 3)) (st_s st0 (iter mod 3)) (st_z st0)
      (st_s st1 ((iter - 1) mod 3)) (st_s st1 (iter mod 3)) (st_z st1)"
    and on: "on_path (prefix (log2ceil domain) (\<alpha> k) (iter - 1)) k (st_s st0 ((iter - 1) mod 3)) (st_s st0 (iter mod 3))
      (st_s st1 ((iter - 1) mod 3)) (st_s st1 (iter mod 3)) (path k)"
    using t k by (simp_all add: trees_def Let_def)
  have "?D 0 = ?Z 0" "?D 1 = ?Z 1" using on_path_sums(2) [OF rel on, of 0] on_path_sums(2) [OF rel on, of 1] by simp_all
  then have "correct_word ?a ?D = correct_word ?a ?Z \<and> correct_bit ?a ?D = correct_bit ?a ?Z" by (rule correct_cong)
  with gen_level_eq [OF on_path_sums(1) [OF rel on] i refl] row [OF k]
  show "gen_level (log2ceil domain) (\<alpha> k) iter (path k) = Inr ((fst row ! k, snd row ! k), next_path (iter \<noteq> log2ceil domain) ?a (path k))" by simp
qed

lemma joint_level:
  assumes "joint (three (correction (h0 iter) P1 p0 iter (st_z st0) (st_dpf st0)) (correction (h1 iter) P0 p1 iter (st_z st1) (st_dpf st1)) (Return x)) quiet
       (three (row, d0) (row, d1) x) quiet"
    and "expand_level iter (with_row row d0 st0) = Inr v0" "expand_level iter (with_row row d1 st1) = Inr v1"
    and "joint (three (expand_levels h0 P1 p0 None iters v0) (expand_levels h1 P0 p1 None iters v1) (Return c)) quiet w quiet"
  shows "joint (three (expand_levels h0 P1 p0 None (iter # iters) st0) (expand_levels h1 P0 p1 None (iter # iters) st1) (Return c)) quiet w quiet"
proof -
  have e: "expand_levels h q p None (iter # iters) st = bind (correction (h iter) q p iter (st_z st) (st_dpf st)) (\<lambda>(row, d).
      bind (lift_result (expand_level iter (with_row row d st))) (expand_levels h q p None iters))" for h q p st
    by (simp add: with_row_def split_def)
  show ?thesis unfolding e by (rule joint_then [OF assms(1)]) (simp add: assms(2-4))
qed

lemma protocol_levels:
  assumes "trees domain n iter \<alpha> st0 st1 path" "partners domain n ((Suc (log2ceil domain) - iter) * n) (st_dpf st0) (st_dpf st1)"
    and "0 < iter" "iter \<le> log2ceil domain" "log2ceil domain \<le> 64" "\<And>k. k < n \<Longrightarrow> \<alpha> k = p0 ! k XOR p1 ! k"
  shows "\<exists>rows fin u0 u1. path_rows (log2ceil domain) n \<alpha> [iter..<Suc (log2ceil domain)] path rows fin
    \<and> (\<forall>row\<in>set rows. length (fst row) = n \<and> length (snd row) = n)
    \<and> joint (three (expand_levels h0 P1 p0 None [iter..<Suc (log2ceil domain)] st0) (expand_levels h1 P0 p1 None [iter..<Suc (log2ceil domain)] st1) (Return c)) quiet
        (three u0 u1 c) quiet
    \<and> all_levels domain n \<alpha> fin u0 u1 \<and> st_words u0 = st_words st0 @ map fst rows \<and> st_bits u0 = st_bits st0 @ map snd rows
    \<and> st_words u1 = st_words u0 \<and> st_bits u1 = st_bits u0"
  using assms
proof (induction "log2ceil domain - iter" arbitrary: iter path st0 st1)
  case 0
  let ?D = "log2ceil domain"
  have i: "iter = ?D" using 0 by simp
  have P: "partners domain n n (st_dpf st0) (st_dpf st1)" using 0(3) by (simp add: i)
  have i64: "?D - iter < 64" using i by simp
  obtain row where row: "length (fst row) = n" "length (snd row) = n"
    "\<And>k. k < n \<Longrightarrow> fst row ! k = correct_word (bit (\<alpha> k) (?D - iter)) (\<lambda>j. st_z st0 j k XOR st_z st1 j k)
       \<and> snd row ! k = correct_bit (bit (\<alpha> k) (?D - iter)) (\<lambda>j. st_z st0 j k XOR st_z st1 j k)"
    "joint (three (correction (h0 iter) P1 p0 iter (st_z st0) (st_dpf st0)) (correction (h1 iter) P0 p1 iter (st_z st1) (st_dpf st1)) (Return undefined)) quiet
       (three (row, advanced n (st_dpf st0)) (row, advanced n (st_dpf st1)) undefined) quiet"
    by (rule correction_joint [where ?z0.0 = "st_z st0" and ?z1.0 = "st_z st1" and ?h0.0 = "h0 iter" and ?h1.0 = "h1 iter" and c = undefined, OF P i64 0(7)]) blast+
  obtain fin where fin: "path_row ?D n \<alpha> ?D path row fin" using opened_row [OF 0(2) i64 row(3)] i by blast
  have s: "sized domain n (advanced n (st_dpf st0))" "sized domain n (advanced n (st_dpf st1))" using P by (simp_all add: partners_def)
  let ?u0 = "with_row row (advanced n (st_dpf st0)) st0" and ?u1 = "with_row row (advanced n (st_dpf st1)) st1"
  have "joint (three (expand_levels h0 P1 p0 None [iter..<Suc ?D] st0) (expand_levels h1 P0 p1 None [iter..<Suc ?D] st1) (Return c)) quiet
        (three ?u0 ?u1 c) quiet"
    using joint_level [where ?h0.0 = h0 and ?h1.0 = h1, OF row(4) last_row_level [OF s(1), folded i] last_row_level [OF s(2), folded i], of "[]"]
    by (simp add: i joint_three_return)
  moreover have "all_levels domain n \<alpha> fin ?u0 ?u1"
    unfolding all_levels_def using 0(2) fin s i by (intro exI conjI) (auto simp: with_row_def)
  moreover have "path_rows ?D n \<alpha> [iter..<Suc ?D] path [row] fin" using fin by (simp add: i)
  ultimately show ?case using row(1,2) 0(2)
    by (intro exI [of _ "[row]"] exI [of _ fin] exI [of _ ?u0] exI [of _ ?u1]) (simp add: with_row_def trees_def)
next
  case (Suc m)
  let ?D = "log2ceil domain"
  have i: "iter < ?D" using Suc.hyps(2) by simp
  have up: "[iter..<Suc ?D] = iter # [Suc iter..<Suc ?D]" by (rule levels_split) (use i in simp)
  have "(Suc ?D - iter) * n = n + (Suc ?D - Suc iter) * n" using i by (simp add: Suc_diff_le)
  then have P: "partners domain n (n + (Suc ?D - Suc iter) * n) (st_dpf st0) (st_dpf st1)" using Suc.prems(2) by simp
  have i64: "?D - iter < 64" using Suc.prems(3,5) i by linarith
  obtain row where row: "length (fst row) = n" "length (snd row) = n"
    "\<And>k. k < n \<Longrightarrow> fst row ! k = correct_word (bit (\<alpha> k) (?D - iter)) (\<lambda>j. st_z st0 j k XOR st_z st1 j k)
       \<and> snd row ! k = correct_bit (bit (\<alpha> k) (?D - iter)) (\<lambda>j. st_z st0 j k XOR st_z st1 j k)"
    "joint (three (correction (h0 iter) P1 p0 iter (st_z st0) (st_dpf st0)) (correction (h1 iter) P0 p1 iter (st_z st1) (st_dpf st1)) (Return undefined)) quiet
       (three (row, advanced n (st_dpf st0)) (row, advanced n (st_dpf st1)) undefined) quiet"
    by (rule correction_joint [where ?z0.0 = "st_z st0" and ?z1.0 = "st_z st1" and ?h0.0 = "h0 iter" and ?h1.0 = "h1 iter" and c = undefined, OF partners_le [OF P] i64 Suc.prems(6)]) (simp, blast+)
  obtain path' where path': "path_row ?D n \<alpha> iter path row path'" using opened_row [OF Suc.prems(1) i64 row(3)] by blast
  have s: "sized domain n (advanced n (st_dpf st0))" "sized domain n (advanced n (st_dpf st1))" using P by (simp_all add: partners_def)
  obtain v0 v1 where v: "expand_level iter (with_row row (advanced n (st_dpf st0)) st0) = Inr v0" "expand_level iter (with_row row (advanced n (st_dpf st1)) st1) = Inr v1"
    "trees domain n (Suc iter) \<alpha> v0 v1 path'" "st_dpf v0 = advanced n (st_dpf st0)" "st_dpf v1 = advanced n (st_dpf st1)"
    "st_words v0 = st_words st0 @ [fst row]" "st_bits v0 = st_bits st0 @ [snd row]"
    by (rule level_both [OF Suc.prems(1,3) i Suc.prems(5) path' s]) blast
  have "\<exists>rows fin u0 u1. path_rows ?D n \<alpha> [Suc iter..<Suc ?D] path' rows fin
    \<and> (\<forall>row\<in>set rows. length (fst row) = n \<and> length (snd row) = n)
    \<and> joint (three (expand_levels h0 P1 p0 None [Suc iter..<Suc ?D] v0) (expand_levels h1 P0 p1 None [Suc iter..<Suc ?D] v1) (Return c)) quiet
        (three u0 u1 c) quiet
    \<and> all_levels domain n \<alpha> fin u0 u1 \<and> st_words u0 = st_words v0 @ map fst rows \<and> st_bits u0 = st_bits v0 @ map snd rows
    \<and> st_words u1 = st_words u0 \<and> st_bits u1 = st_bits u0"
    by (rule Suc.hyps(1) [OF _ v(3)]) (use Suc.hyps(2) Suc.prems(5,6) i v(4,5) partners_advanced [OF P] in auto)
  then obtain rows fin u0 u1 where R: "path_rows ?D n \<alpha> [Suc iter..<Suc ?D] path' rows fin" "\<forall>row\<in>set rows. length (fst row) = n \<and> length (snd row) = n"
    "joint (three (expand_levels h0 P1 p0 None [Suc iter..<Suc ?D] v0) (expand_levels h1 P0 p1 None [Suc iter..<Suc ?D] v1) (Return c)) quiet (three u0 u1 c) quiet"
    "all_levels domain n \<alpha> fin u0 u1" "st_words u0 = st_words v0 @ map fst rows" "st_bits u0 = st_bits v0 @ map snd rows"
    "st_words u1 = st_words u0" "st_bits u1 = st_bits u0" by blast
  have "path_rows ?D n \<alpha> [iter..<Suc ?D] path (row # rows) fin" unfolding up using path' R(1) by auto
  moreover have "joint (three (expand_levels h0 P1 p0 None [iter..<Suc ?D] st0) (expand_levels h1 P0 p1 None [iter..<Suc ?D] st1) (Return c)) quiet (three u0 u1 c) quiet"
    unfolding up by (rule joint_level [where ?h0.0 = h0 and ?h1.0 = h1, OF row(4) v(1,2) R(3)])
  ultimately show ?case using R row(1,2) v(6,7)
    by (intro exI [of _ "row # rows"] exI [of _ fin] exI [of _ u0] exI [of _ u1]) simp
qed

section \<open>Leaves that open to the point function\<close>

text \<open>The calls of \<open>output\<close> of the two parties: values that xor to the point function, tags that differ at the point.\<close>

definition opens_points :: "nat \<Rightarrow> nat \<Rightarrow> (nat \<Rightarrow> u64) \<Rightarrow> (nat \<Rightarrow> m128) \<Rightarrow> (nat \<times> nat \<times> m128 \<times> m128) list \<Rightarrow> (nat \<times> nat \<times> m128 \<times> m128) list \<Rightarrow> bool" where
  "opens_points domain n \<alpha> v e0 e1 \<longleftrightarrow> (\<exists>y0 t0 y1 t1.
     e0 = concat (map (\<lambda>i. map (\<lambda>k. (k, i, y0 i k, t0 i k)) [0..<n]) [0..<domain]) \<and>
     e1 = concat (map (\<lambda>i. map (\<lambda>k. (k, i, y1 i k, t1 i k)) [0..<n]) [0..<domain]) \<and>
     (\<forall>k<n. \<forall>i<domain. y0 i k XOR y1 i k = (if i = unat (\<alpha> k) then v k else 0) \<and> t0 i k XOR t1 i k = (if i = unat (\<alpha> k) then - 1 else 0)))"

lemma prefix_all: "unat \<alpha> < domain \<Longrightarrow> 2 \<le> domain \<Longrightarrow> prefix (log2ceil domain) \<alpha> (log2ceil domain) = unat \<alpha>"
  using log2ceil_bound [of domain] by (simp add: prefix_def)

lemma leaves_open:
  assumes "leaves_rel domain n \<alpha> fin sd0 td0 f0 sd1 td1 f1" "2 \<le> domain" "\<And>k. k < n \<Longrightarrow> unat (\<alpha> k) < domain"
    and "\<And>k. k < n \<Longrightarrow> gam ! k = leaf_gap (bit (\<alpha> k) 0) (fst (fin k)) XOR v k" "mDomain d0 = domain" "mNumPoints d0 = n" "mDomain d1 = domain" "mNumPoints d1 = n"
  shows "opens_points domain n \<alpha> v (leaf_events d0 (\<lambda>i k. sd0 i k XOR (td0 i k AND gam ! k)) td0) (leaf_events d1 (\<lambda>i k. sd1 i k XOR (td1 i k AND gam ! k)) td1)"
proof -
  let ?y0 = "\<lambda>i k. sd0 i k XOR (td0 i k AND gam ! k)" and ?y1 = "\<lambda>i k. sd1 i k XOR (td1 i k AND gam ! k)"
  have *: "?y0 i k XOR ?y1 i k = (if i = unat (\<alpha> k) then v k else 0) \<and> td0 i k XOR td1 i k = (if i = unat (\<alpha> k) then - 1 else 0)"
    if "k < n" "i < domain" for k i
  proof -
    have y: "?y0 i k XOR ?y1 i k = (sd0 i k XOR sd1 i k) XOR ((td0 i k XOR td1 i k) AND gam ! k)"
      by (rule bit_word_eqI) (auto simp: bit_simps)
    have "sd0 i k XOR sd1 i k = (if i = unat (\<alpha> k) then leaf_gap (bit (\<alpha> k) 0) (fst (fin k)) else 0)
        \<and> td0 i k XOR td1 i k = (if i = unat (\<alpha> k) then - 1 else 0)"
      using assms(1) that prefix_all [OF assms(3) [OF that(1)] assms(2)] by (simp add: leaves_rel_def Let_def)
    then show ?thesis unfolding y using assms(4) [OF that(1)] by (simp add: xor.assoc [symmetric])
  qed
  show ?thesis unfolding opens_points_def leaf_events_def assms(5-8)
    by (intro exI conjI allI impI, rule refl, rule refl) (use * in blast)+
qed

text \<open>The seeds of the roots are a function of the seed of the key.\<close>

definition roots_of :: "m128 \<Rightarrow> nat \<Rightarrow> ot_pair list \<Rightarrow> bool" where
  "roots_of seed n roots \<longleftrightarrow> (\<exists>g q. PRNG_seeded seed 256 = Inr g \<and> draw_pads n g = Return (roots, q))"

lemma roots_exist: obtains roots where "roots_of seed n roots"
proof -
  obtain g where g: "PRNG_seeded seed 256 = Inr g" "prng_at seed g 0" using SetSeed_fresh [of 256 seed] by auto
  with draw_pads_at [OF g(2), of n] that show thesis by (auto simp: roots_of_def)
qed

text \<open>Expansion with the two keys of a list of rows.\<close>

definition key_of_rows :: "m128 \<Rightarrow> (m128 list \<times> u8 list) list \<Rightarrow> m128 list \<Rightarrow> RegularDpfKey" where
  "key_of_rows seed rows gam = \<lparr>mSeed = seed, mCorrectionWords = map fst rows, mCorrectionBits = map snd rows, mLeafVals = gam\<rparr>"

lemma static_expand_eq:
  assumes "dpf_init p domain n RegularDpf_new = Inr d" "roots_of seed n roots" "expand_start junk roots d = Inr st"
    and "rows \<noteq> []" "length (snd (hd rows)) = n" "0 < n" "length gam = n" "sized domain n d"
    and "expand_levels heap peer [] (Some (key_of_rows seed rows gam)) [1..<Suc (log2ceil domain)] st = Return u" "leaf_level u = Inr (sd, td, f)"
  shows "static_expand heap junk peer p domain (key_of_rows seed rows gam) = Return (leaf_events d (\<lambda>i k. sd i k XOR (td i k AND gam ! k)) td, None, st_dpf u)"
proof -
  let ?k = "key_of_rows seed rows gam"
  have c: "matrix_cols (mCorrectionBits ?k) = n" using assms(4,5) by (cases rows) (simp_all add: key_of_rows_def matrix_cols_def)
  obtain g q where g: "PRNG_seeded seed 256 = Inr g" "draw_pads n g = Return (roots, q)" using assms(2) by (auto simp: roots_of_def)
  have k: "mSeed ?k = seed" "mLeafVals ?k = gam" "gam \<noteq> []" using assms(6,7) by (auto simp: key_of_rows_def)
  have N: "mNumPoints d = n" "mDepth d = log2ceil domain" using assms(8) by (simp_all add: sized_def)
  show ?thesis
    unfolding static_expand_def c assms(1) implExpand_def Let_def
    by (simp add: N k g assms(3,7,9,10) leaf_gamma_def del: expand_levels.simps upt_Suc One_nat_def)
qed

lemma dpf_init_sized:
  assumes "p < 2" "2 \<le> domain" "0 < n"
  obtains d where "dpf_init p domain n d' = Inr d" "sized domain n d" "dpfPartyIdx d = p"
proof -
  obtain m where "mult_init p (n * log2ceil domain) (mMultiplier d') = Inr m" using assms(1) by (simp add: mult_init_def)
  then show thesis using that assms by (simp add: dpf_init_def Let_def sized_def)
qed

lemma path_rows_length: "path_rows depth n \<alpha> iters path rows fin \<Longrightarrow> length rows = length iters"
  by (induction iters arbitrary: path rows) auto

lemma keys_open:
  assumes rows: "path_rows (log2ceil domain) n \<alpha> [1..<Suc (log2ceil domain)] path rows fin"
    "\<And>k. k < n \<Longrightarrow> root_path (roots0 ! k) (roots1 ! k) (path k)" "\<And>row. row \<in> set rows \<Longrightarrow> length (fst row) = n \<and> length (snd row) = n"
    and dm: "2 \<le> domain" "log2ceil domain \<le> 64" "0 < n" and pts: "\<And>k. k < n \<Longrightarrow> unat (\<alpha> k) < domain"
    and roots: "roots_of seed0 n roots0" "roots_of seed1 n roots1"
    and gam: "length gam = n" "\<And>k. k < n \<Longrightarrow> gam ! k = leaf_gap (bit (\<alpha> k) 0) (fst (fin k)) XOR v k"
  obtains e0 dd0 e1 dd1 where
    "static_expand heap0 junk0 peer0 0 domain (key_of_rows seed0 rows gam) = Return (e0, None, dd0)"
    "static_expand heap1 junk1 peer1 1 domain (key_of_rows seed1 rows gam) = Return (e1, None, dd1)"
    "opens_points domain n \<alpha> v e0 e1"
proof -
  let ?D = "log2ceil domain"
  obtain d0 where d0: "dpf_init 0 domain n RegularDpf_new = Inr d0" "sized domain n d0" "dpfPartyIdx d0 = 0"
    by (rule dpf_init_sized [of 0 domain n RegularDpf_new]) (use dm in auto)
  obtain d1 where d1: "dpf_init 1 domain n RegularDpf_new = Inr d1" "sized domain n d1" "dpfPartyIdx d1 = 1"
    by (rule dpf_init_sized [of 1 domain n RegularDpf_new]) (use dm in auto)
  obtain st0 st1 where st: "expand_start junk0 roots0 d0 = Inr st0" "expand_start junk1 roots1 d1 = Inr st1"
    "trees domain n 1 \<alpha> st0 st1 path" "st_dpf st0 = d0" "st_dpf st1 = d1"
    by (rule start_both [OF d0(2) d1(2) d0(3) d1(3) dm(1) rows(2)]) blast+
  have len: "length rows = ?D" using path_rows_length [OF rows(1)] by simp
  have row: "key_row (key_of_rows s rows gam) (1 + j) n = Inr (rows ! j)" if "j < length rows" for s j
    using rows(3) [OF nth_mem [OF that]] that by (simp add: key_row_def key_of_rows_def)
  have "\<exists>u0 u1. expand_levels heap0 peer0 [] (Some (key_of_rows seed0 rows gam)) [1..<Suc ?D] st0 = Return u0
    \<and> expand_levels heap1 peer1 [] (Some (key_of_rows seed1 rows gam)) [1..<Suc ?D] st1 = Return u1
    \<and> all_levels domain n \<alpha> fin u0 u1 \<and> st_dpf u0 = st_dpf st0 \<and> st_dpf u1 = st_dpf st1"
    by (rule keyed_levels [OF rows(1) st(3)]) (use depth_facts(1) [OF dm(1)] dm(2) row in auto)
  then obtain u0 u1 where u: "expand_levels heap0 peer0 [] (Some (key_of_rows seed0 rows gam)) [1..<Suc ?D] st0 = Return u0"
    "expand_levels heap1 peer1 [] (Some (key_of_rows seed1 rows gam)) [1..<Suc ?D] st1 = Return u1" "all_levels domain n \<alpha> fin u0 u1"
    by blast
  obtain sd0 td0 f0 sd1 td1 f1 where l: "leaf_level u0 = Inr (sd0, td0, f0)" "leaf_level u1 = Inr (sd1, td1, f1)"
    "leaves_rel domain n \<alpha> fin sd0 td0 f0 sd1 td1 f1"
    by (rule all_levels_leaves [OF u(3) dm(1,2)])
  have ne: "rows \<noteq> []" using len depth_facts(1) [OF dm(1)] by auto
  then have hd: "length (snd (hd rows)) = n" using rows(3) [of "hd rows"] by simp
  show thesis
    by (rule that [OF static_expand_eq [OF d0(1) roots(1) st(1) ne hd dm(3) gam(1) d0(2) u(1) l(1)]
          static_expand_eq [OF d1(1) roots(2) st(2) ne hd dm(3) gam(1) d1(2) u(2) l(2)]
          leaves_open [OF l(3) dm(1) pts gam(2)]])
      (use d0(2) d1(2) in \<open>auto simp: sized_def\<close>)
qed

section \<open>Keys and leaves made by the two parties\<close>

lemma leaf_gamma_joint:
  "joint (three (leaf_gamma junk0 P1 v0 None n f0) (leaf_gamma junk1 P0 v1 None n f1) (Return c)) quiet
     (three (map (\<lambda>k. (f0 k XOR f1 k) XOR (v0 ! k XOR v1 ! k)) [0..<n]) (map (\<lambda>k. (f0 k XOR f1 k) XOR (v0 ! k XOR v1 ! k)) [0..<n]) c) quiet"
proof -
  let ?d0 = "map (\<lambda>k. f0 k XOR v0 ! k) [0..<n]" and ?d1 = "map (\<lambda>k. f1 k XOR v1 ! k) [0..<n]"
  let ?m0 = "concat (map to_bytes ?d0)" and ?m1 = "concat (map to_bytes ?d1)"
  have m: "length ?m0 = 16 * n" "length ?m1 = 16 * n" using length_concat_map_const [of ?d0 to_bytes 16] length_concat_map_const [of ?d1 to_bytes 16] by simp_all
  have r: "of_bytes (take 16 (drop (16 * k) ?m0)) = ?d0 ! k" "of_bytes (take 16 (drop (16 * k) ?m1)) = ?d1 ! k" if "k < n" for k
    using msg_block [of k ?d0 "[]"] msg_block [of k ?d1 "[]"] that by simp_all
  have "reaches (three (leaf_gamma junk0 P1 v0 None n f0) (leaf_gamma junk1 P0 v1 None n f1) (Return c)) quiet
    (three (Return (map (\<lambda>k. of_bytes (take 16 (drop (16 * k) ([?m1] ! 0))) XOR ?d0 ! k) [0..<n]))
       (Return (map (\<lambda>k. of_bytes (take 16 (drop (16 * k) ([?m0] ! 0))) XOR ?d1 ! k) [0..<n])) (Return c)) quiet"
    unfolding leaf_gamma_def option.case Let_def by (rule exchange01) (rule m)+
  moreover have "map (\<lambda>k. of_bytes (take 16 (drop (16 * k) ([?m1] ! 0))) XOR ?d0 ! k) [0..<n] = map (\<lambda>k. (f0 k XOR f1 k) XOR (v0 ! k XOR v1 ! k)) [0..<n]"
    "map (\<lambda>k. of_bytes (take 16 (drop (16 * k) ([?m0] ! 0))) XOR ?d1 ! k) [0..<n] = map (\<lambda>k. (f0 k XOR f1 k) XOR (v0 ! k XOR v1 ! k)) [0..<n]"
    unfolding nth_Cons_0 by (rule map_cong, rule refl, simp only: r set_upt atLeastLessThan_iff, simp add: xor_simps)+
  ultimately have "reaches (three (leaf_gamma junk0 P1 v0 None n f0) (leaf_gamma junk1 P0 v1 None n f1) (Return c)) quiet
    (three (Return (map (\<lambda>k. (f0 k XOR f1 k) XOR (v0 ! k XOR v1 ! k)) [0..<n])) (Return (map (\<lambda>k. (f0 k XOR f1 k) XOR (v0 ! k XOR v1 ! k)) [0..<n])) (Return c)) quiet"
    by (simp only:)
  then show ?thesis by (rule reaches_joint) (rule joint_three_return)
qed

text \<open>What the two interactive functions have in common: the opened rows and the leaves with their corrections.\<close>

definition run_leaves :: "(nat \<Rightarrow> nat \<Rightarrow> byte) \<Rightarrow> (nat \<Rightarrow> m128) \<Rightarrow> role \<Rightarrow> u64 list \<Rightarrow> m128 list \<Rightarrow> nat \<Rightarrow> nat \<Rightarrow> expand_state
    \<Rightarrow> (expand_state \<times> (nat \<Rightarrow> nat \<Rightarrow> m128) \<times> (nat \<Rightarrow> nat \<Rightarrow> m128) \<times> m128 list) coro" where
  "run_leaves heap junk peer points values depth n st =
     bind (expand_levels heap peer points None [1..<Suc depth] st) (\<lambda>u. bind (lift_result (leaf_level u)) (\<lambda>(sd, td, f).
     bind (leaf_gamma junk peer values None n f) (\<lambda>gam. Return (u, sd, td, gam))))"

lemma run_leaves_joint:
  assumes t: "trees domain n 1 \<alpha> st0 st1 path" "partners domain n (log2ceil domain * n) (st_dpf st0) (st_dpf st1)" "st_words st0 = []" "st_bits st0 = []"
    and dm: "2 \<le> domain" "log2ceil domain \<le> 64" and \<alpha>: "\<And>k. k < n \<Longrightarrow> \<alpha> k = p0 ! k XOR p1 ! k" "\<And>k. k < n \<Longrightarrow> unat (\<alpha> k) < domain"
  obtains rows fin u0 u1 sd0 td0 f0 sd1 td1 f1 gam where "path_rows (log2ceil domain) n \<alpha> [1..<Suc (log2ceil domain)] path rows fin"
    "\<And>row. row \<in> set rows \<Longrightarrow> length (fst row) = n \<and> length (snd row) = n" "leaves_rel domain n \<alpha> fin sd0 td0 f0 sd1 td1 f1"
    "length gam = n" "\<And>k. k < n \<Longrightarrow> gam ! k = leaf_gap (bit (\<alpha> k) 0) (fst (fin k)) XOR (v0 ! k XOR v1 ! k)"
    "st_words u0 = map fst rows" "st_bits u0 = map snd rows" "st_words u1 = map fst rows" "st_bits u1 = map snd rows"
    "joint (three (run_leaves h0 junk0 P1 p0 v0 (log2ceil domain) n st0) (run_leaves h1 junk1 P0 p1 v1 (log2ceil domain) n st1) (Return c)) quiet
       (three (u0, sd0, td0, gam) (u1, sd1, td1, gam) c) quiet"
proof -
  let ?D = "log2ceil domain"
  have "\<exists>rows fin u0 u1. path_rows ?D n \<alpha> [1..<Suc ?D] path rows fin
    \<and> (\<forall>row\<in>set rows. length (fst row) = n \<and> length (snd row) = n)
    \<and> joint (three (expand_levels h0 P1 p0 None [1..<Suc ?D] st0) (expand_levels h1 P0 p1 None [1..<Suc ?D] st1) (Return undefined)) quiet
        (three u0 u1 undefined) quiet
    \<and> all_levels domain n \<alpha> fin u0 u1 \<and> st_words u0 = st_words st0 @ map fst rows \<and> st_bits u0 = st_bits st0 @ map snd rows
    \<and> st_words u1 = st_words u0 \<and> st_bits u1 = st_bits u0"
    by (rule protocol_levels [OF t(1)]) (use t(2) dm depth_facts(1) [OF dm(1)] \<alpha>(1) in auto)
  then obtain rows fin u0 u1 where R: "path_rows ?D n \<alpha> [1..<Suc ?D] path rows fin" "\<forall>row\<in>set rows. length (fst row) = n \<and> length (snd row) = n"
    "joint (three (expand_levels h0 P1 p0 None [1..<Suc ?D] st0) (expand_levels h1 P0 p1 None [1..<Suc ?D] st1) (Return undefined)) quiet (three u0 u1 undefined) quiet"
    "all_levels domain n \<alpha> fin u0 u1" "st_words u0 = map fst rows" "st_bits u0 = map snd rows" "st_words u1 = map fst rows" "st_bits u1 = map snd rows"
    using t(3,4) by auto
  obtain sd0 td0 f0 sd1 td1 f1 where l: "leaf_level u0 = Inr (sd0, td0, f0)" "leaf_level u1 = Inr (sd1, td1, f1)" "leaves_rel domain n \<alpha> fin sd0 td0 f0 sd1 td1 f1"
    by (rule all_levels_leaves [OF R(4) dm])
  define gam where "gam = map (\<lambda>k. (f0 k XOR f1 k) XOR (v0 ! k XOR v1 ! k)) [0..<n]"
  show thesis
  proof (rule that [OF R(1) _ l(3) _ _ R(5-8)])
    show "gam ! k = leaf_gap (bit (\<alpha> k) 0) (fst (fin k)) XOR (v0 ! k XOR v1 ! k)" if "k < n" for k
      using l(3) that \<alpha>(2) [OF that] prefix_all [OF \<alpha>(2) [OF that] dm(1)] by (simp add: gam_def leaves_rel_def Let_def)
    show "joint (three (run_leaves h0 junk0 P1 p0 v0 ?D n st0) (run_leaves h1 junk1 P0 p1 v1 ?D n st1) (Return c)) quiet
       (three (u0, sd0, td0, gam) (u1, sd1, td1, gam) c) quiet"
      unfolding run_leaves_def
      by (rule joint_then [OF R(3)], simp add: l(1,2), rule joint_then [OF leaf_gamma_joint [of _ _ n _ _ _ _ undefined]])
        (simp add: gam_def joint_three_return)
  qed (use R(2) in \<open>auto simp: gam_def\<close>)
qed

lemma dpf_keyGen_eq:
  assumes "sized domain n d" "2 \<le> domain" "0 < n" "length points = n" "length values = n" "roots_of seed n roots" "expand_start junk roots d = Inr st" "mLeafVals key = []"
  shows "dpf_keyGen heap junk peer points values seed key d = bind (run_leaves heap (junk 3 0) peer points values (log2ceil domain) n st) (\<lambda>(u, sd, td, gam).
     Return ([], Some \<lparr>mSeed = seed, mCorrectionWords = st_words u, mCorrectionBits = st_bits u, mLeafVals = gam\<rparr>, st_dpf u))"
proof -
  obtain g q where g: "PRNG_seeded seed 256 = Inr g" "draw_pads n g = Return (roots, q)" using assms(6) by (auto simp: roots_of_def)
  have N: "mNumPoints d = n" "mDepth d = log2ceil domain" "mDomain d = domain" using assms(1) by (simp_all add: sized_def)
  have v: "values \<noteq> []" using assms(3,5) by auto
  obtain key' where key': "key_resize domain n False key = Inr key'" "mLeafVals key' = []"
    using depth_facts(1) [OF assms(2)] assms(8) by (simp add: key_resize_def Let_def)
  have upd: "key'\<lparr>mSeed := a, mCorrectionWords := b, mCorrectionBits := c, mLeafVals := gam\<rparr>
    = \<lparr>mSeed = a, mCorrectionWords = b, mCorrectionBits = c, mLeafVals = gam\<rparr>" for a b c gam by simp
  show ?thesis
    unfolding dpf_keyGen_def implExpand_def Let_def run_leaves_def N
    by (simp add: assms(4,5,7) v key' g upd bind_bind split_def del: expand_levels.simps upt_Suc One_nat_def)
qed

lemma dpf_expand_eq:
  assumes "sized domain n d" "0 < n" "length points = n" "length values = n" "roots_of seed n roots" "expand_start junk roots d = Inr st"
  shows "dpf_expand heap junk peer points values seed d = bind (run_leaves heap (junk 3 0) peer points values (log2ceil domain) n st) (\<lambda>(u, sd, td, gam).
     Return (leaf_events d (\<lambda>i k. sd i k XOR (td i k AND gam ! k)) td, None, st_dpf u))"
proof -
  obtain g q where g: "PRNG_seeded seed 256 = Inr g" "draw_pads n g = Return (roots, q)" using assms(5) by (auto simp: roots_of_def)
  have N: "mNumPoints d = n" "mDepth d = log2ceil domain" "mDomain d = domain" using assms(1) by (simp_all add: sized_def)
  have v: "values \<noteq> []" using assms(2,4) by auto
  show ?thesis
    unfolding dpf_expand_def implExpand_def Let_def run_leaves_def N
    by (simp add: assms(3,4,6) v g bind_bind split_def del: expand_levels.simps upt_Suc One_nat_def)
qed

text \<open>Objects that are set up with the transfers of both directions are partners.\<close>

lemma set_up_partners:
  assumes d0: "dpf_init 0 domain n RegularDpf_new = Inr e0" "dpf_setBaseOts send0 recv0 c0 e0 = Inr d0"
    and d1: "dpf_init 1 domain n RegularDpf_new = Inr e1" "dpf_setBaseOts send1 recv1 c1 e1 = Inr d1"
    and ok: "bv_ok c0" "bv_ok c1"
    and ots: "\<And>i. i < length send0 \<Longrightarrow> recv0 ! i = sel (send1 ! i) (bv_bits c0 ! i) \<and> recv1 ! i = sel (send0 ! i) (bv_bits c1 ! i)"
  shows "partners domain n (log2ceil domain * n) d0 d1"
proof -
  let ?v = "bv_resize BitVector_empty 0"
  have b: "bv_ok (bv_assign ?v c) \<and> bv_bits (bv_assign ?v c) = bv_bits c \<and> mNumBits (bv_assign ?v c) = mNumBits c" if "bv_ok c" for c
    using bv_assign_ok [OF _ that, of ?v] bv_resize_ok by auto
  have pos: "0 < log2ceil domain" if "2 \<le> domain" by (rule depth_facts(1) [OF that])
  show ?thesis
    using d0 d1 ots ok pos
    by (auto simp: dpf_init_def RegularDpf_new_def dpf_setBaseOts_def mult_init_def mult_setBaseOts_def Let_def partners_def sized_def mult_ready_def ots_match_def
        res_bind_Inr_iff b mult.commute split: if_splits)
qed

text \<open>The keys that the two parties make open to the shared point and value.\<close>

lemma protocol_keys_open:
  assumes P: "partners domain n (log2ceil domain * n) d0 d1" and dm: "2 \<le> domain" "log2ceil domain \<le> 64" "0 < n"
    and len: "length p0 = n" "length p1 = n" "length v0 = n" "length v1 = n" and pts: "\<And>k. k < n \<Longrightarrow> unat (p0 ! k XOR p1 ! k) < domain"
    and key: "mLeafVals key0 = []" "mLeafVals key1 = []"
  obtains k0 k1 d0' d1' e0 dd0 e1 dd1 where
    "joint (three (dpf_keyGen h0 j0 P1 p0 v0 seed0 key0 d0) (dpf_keyGen h1 j1 P0 p1 v1 seed1 key1 d1) (Return c)) quiet
       (three ([], Some k0, d0') ([], Some k1, d1') c) quiet"
    "static_expand heap0 junk0 peer0 0 domain k0 = Return (e0, None, dd0)" "static_expand heap1 junk1 peer1 1 domain k1 = Return (e1, None, dd1)"
    "opens_points domain n (\<lambda>k. p0 ! k XOR p1 ! k) (\<lambda>k. v0 ! k XOR v1 ! k) e0 e1"
proof -
  let ?\<alpha> = "\<lambda>k. p0 ! k XOR p1 ! k" and ?v = "\<lambda>k. v0 ! k XOR v1 ! k" and ?D = "log2ceil domain"
  have s: "sized domain n d0" "sized domain n d1" "dpfPartyIdx d0 = 0" "dpfPartyIdx d1 = 1" using P by (simp_all add: partners_def)
  obtain roots0 where r0: "roots_of seed0 n roots0" by (rule roots_exist)
  obtain roots1 where r1: "roots_of seed1 n roots1" by (rule roots_exist)
  obtain path where root: "\<And>k. root_path (roots0 ! k) (roots1 ! k) (path k)" using root_path_exists [of roots0 roots1] by blast
  obtain st0 st1 where st: "expand_start j0 roots0 d0 = Inr st0" "expand_start j1 roots1 d1 = Inr st1"
    "trees domain n 1 ?\<alpha> st0 st1 path" "st_dpf st0 = d0" "st_dpf st1 = d1" "st_words st0 = []" "st_bits st0 = []"
    by (rule start_both [OF s dm(1) root]) blast
  obtain rows fin u0 u1 sd0 td0 f0 sd1 td1 f1 gam where R: "path_rows ?D n ?\<alpha> [1..<Suc ?D] path rows fin"
    "\<And>row. row \<in> set rows \<Longrightarrow> length (fst row) = n \<and> length (snd row) = n"
    "length gam = n" "\<And>k. k < n \<Longrightarrow> gam ! k = leaf_gap (bit (?\<alpha> k) 0) (fst (fin k)) XOR ?v k"
    "st_words u0 = map fst rows" "st_bits u0 = map snd rows" "st_words u1 = map fst rows" "st_bits u1 = map snd rows"
    "joint (three (run_leaves h0 (j0 3 0) P1 p0 v0 ?D n st0) (run_leaves h1 (j1 3 0) P0 p1 v1 ?D n st1) (Return undefined)) quiet
       (three (u0, sd0, td0, gam) (u1, sd1, td1, gam) undefined) quiet"
    by (rule run_leaves_joint [OF st(3) _ st(6,7) dm(1,2) refl pts, where ?v0.0 = v0 and ?v1.0 = v1 and ?h0.0 = h0 and ?h1.0 = h1
        and ?junk0.0 = "j0 3 0" and ?junk1.0 = "j1 3 0" and c = undefined]) (use P st(4,5) in auto)
  have j: "joint (three (dpf_keyGen h0 j0 P1 p0 v0 seed0 key0 d0) (dpf_keyGen h1 j1 P0 p1 v1 seed1 key1 d1) (Return c)) quiet
       (three ([], Some (key_of_rows seed0 rows gam), st_dpf u0) ([], Some (key_of_rows seed1 rows gam), st_dpf u1) c) quiet"
    unfolding dpf_keyGen_eq [OF s(1) dm(1,3) len(1,3) r0 st(1) key(1)] dpf_keyGen_eq [OF s(2) dm(1,3) len(2,4) r1 st(2) key(2)]
    by (rule joint_then [OF R(9)]) (simp add: R(5-8) key_of_rows_def joint_three_return)
  show thesis
    by (rule keys_open [OF R(1) root R(2) dm pts r0 r1 R(3,4)]) (auto intro: that [OF j])
qed

text \<open>The leaves of the interactive expansion, without keys.\<close>

lemma protocol_leaves_open:
  assumes P: "partners domain n (log2ceil domain * n) d0 d1" and dm: "2 \<le> domain" "log2ceil domain \<le> 64" "0 < n"
    and len: "length p0 = n" "length p1 = n" "length v0 = n" "length v1 = n" and pts: "\<And>k. k < n \<Longrightarrow> unat (p0 ! k XOR p1 ! k) < domain"
  obtains d0' d1' e0 e1 where
    "joint (three (dpf_expand h0 j0 P1 p0 v0 seed0 d0) (dpf_expand h1 j1 P0 p1 v1 seed1 d1) (Return c)) quiet (three (e0, None, d0') (e1, None, d1') c) quiet"
    "opens_points domain n (\<lambda>k. p0 ! k XOR p1 ! k) (\<lambda>k. v0 ! k XOR v1 ! k) e0 e1"
proof -
  let ?\<alpha> = "\<lambda>k. p0 ! k XOR p1 ! k" and ?v = "\<lambda>k. v0 ! k XOR v1 ! k" and ?D = "log2ceil domain"
  have s: "sized domain n d0" "sized domain n d1" "dpfPartyIdx d0 = 0" "dpfPartyIdx d1 = 1" using P by (simp_all add: partners_def)
  obtain roots0 where r0: "roots_of seed0 n roots0" by (rule roots_exist)
  obtain roots1 where r1: "roots_of seed1 n roots1" by (rule roots_exist)
  obtain path where root: "\<And>k. root_path (roots0 ! k) (roots1 ! k) (path k)" using root_path_exists [of roots0 roots1] by blast
  obtain st0 st1 where st: "expand_start j0 roots0 d0 = Inr st0" "expand_start j1 roots1 d1 = Inr st1"
    "trees domain n 1 ?\<alpha> st0 st1 path" "st_dpf st0 = d0" "st_dpf st1 = d1" "st_words st0 = []" "st_bits st0 = []"
    by (rule start_both [OF s dm(1) root]) blast
  obtain fin u0 u1 sd0 td0 f0 sd1 td1 f1 gam where R: "leaves_rel domain n ?\<alpha> fin sd0 td0 f0 sd1 td1 f1"
    "length gam = n" "\<And>k. k < n \<Longrightarrow> gam ! k = leaf_gap (bit (?\<alpha> k) 0) (fst (fin k)) XOR ?v k"
    "joint (three (run_leaves h0 (j0 3 0) P1 p0 v0 ?D n st0) (run_leaves h1 (j1 3 0) P0 p1 v1 ?D n st1) (Return undefined)) quiet
       (three (u0, sd0, td0, gam) (u1, sd1, td1, gam) undefined) quiet"
    by (rule run_leaves_joint [OF st(3) _ st(6,7) dm(1,2) refl pts, where ?v0.0 = v0 and ?v1.0 = v1 and ?h0.0 = h0 and ?h1.0 = h1
        and ?junk0.0 = "j0 3 0" and ?junk1.0 = "j1 3 0" and c = undefined]) (use P st(4,5) in auto)
  have "joint (three (dpf_expand h0 j0 P1 p0 v0 seed0 d0) (dpf_expand h1 j1 P0 p1 v1 seed1 d1) (Return c)) quiet
       (three (leaf_events d0 (\<lambda>i k. sd0 i k XOR (td0 i k AND gam ! k)) td0, None, st_dpf u0)
         (leaf_events d1 (\<lambda>i k. sd1 i k XOR (td1 i k AND gam ! k)) td1, None, st_dpf u1) c) quiet"
    unfolding dpf_expand_eq [OF s(1) dm(3) len(1,3) r0 st(1)] dpf_expand_eq [OF s(2) dm(3) len(2,4) r1 st(2)]
    by (rule joint_then [OF R(4)]) (simp add: joint_three_return)
  then show thesis
    by (rule that) (rule leaves_open [OF R(1) dm(1) pts R(3)], use s in \<open>auto simp: sized_def\<close>)
qed

section \<open>Keys made by a dealer\<close>

lemma draw_pads_stream:
  "prng_at seed p pos \<Longrightarrow> \<exists>pads q. draw_pads n p = Return (pads, q) \<and> length pads = n
     \<and> (\<forall>k<n. pads ! k = (of_bytes (segment (aes_stream seed) (pos + 32 * k) 16), of_bytes (segment (aes_stream seed) (pos + 32 * k + 16) 16)))"
proof (induction n arbitrary: p pos)
  case (Suc n)
  obtain q0 where q0: "get_block p = Some (Inr (of_bytes (segment (aes_stream seed) pos 16), q0))" "prng_at seed q0 (pos + 16)"
    using get_block_at [OF Suc.prems] by blast
  obtain q1 where q1: "get_block q0 = Some (Inr (of_bytes (segment (aes_stream seed) (pos + 16) 16), q1))" "prng_at seed q1 (pos + 16 + 16)"
    using get_block_at [OF q0(2)] by blast
  obtain pads q where IH: "draw_pads n q1 = Return (pads, q)" "length pads = n"
    "\<forall>k<n. pads ! k = (of_bytes (segment (aes_stream seed) (pos + 16 + 16 + 32 * k) 16), of_bytes (segment (aes_stream seed) (pos + 16 + 16 + 32 * k + 16) 16))"
    using Suc.IH [OF q1(2)] by blast
  let ?b = "\<lambda>o'. of_bytes (segment (aes_stream seed) o' 16) :: m128"
  have "((?b pos, ?b (pos + 16)) # pads) ! k = (?b (pos + 32 * k), ?b (pos + 32 * k + 16))" if "k < Suc n" for k
  proof (cases k)
    case (Suc j)
    moreover have "pos + 16 + 16 + 32 * j = pos + 32 * Suc j" by simp
    ultimately show ?thesis using IH(3) that by (simp only: nth_Cons_Suc Suc_less_eq)
  qed simp
  then show ?case using q0(1) q1(1) IH(1,2) by simp
qed simp

lemma two_blocks: "blocks_of (segment str pos 32) ! 0 = of_bytes (segment str pos 16)" "blocks_of (segment str pos 32) ! 1 = of_bytes (segment str (pos + 16) 16)"
proof -
  have "segment str pos 32 = segment str pos 16 @ segment str (pos + 16) 16"
    using upt_add_eq_append [of pos "pos + 16" 16] unfolding segment_def map_append [symmetric] by (simp add: add.commute)
  then have "chunks 16 2 (segment str pos 32) = [segment str pos 16, segment str (pos + 16) 16]"
    by (simp add: numeral_2_eq_2)
  then show "blocks_of (segment str pos 32) ! 0 = of_bytes (segment str pos 16)" "blocks_of (segment str pos 32) ! 1 = of_bytes (segment str (pos + 16) 16)"
    by (simp_all add: blocks_of_def)
qed

text \<open>The seeds of the tree \<open>k\<close>, and what is generated for it.\<close>

definition dealer_root :: "m128 \<Rightarrow> m128 \<Rightarrow> nat \<Rightarrow> path_state" where
  "dealer_root s0 s1 pos = (\<lambda>p j. blocks_of (segment (aes_stream (if p = 0 then s0 else s1)) pos 32) ! j, \<lambda>p. allSame_u8 (- of_nat p))"

lemma dealer_complementary: "complementary (dealer_root s0 s1 pos)"
  by (simp add: complementary_def dealer_root_def)

lemma gen_levels_leaf:
  "complementary path \<Longrightarrow> \<forall>i\<in>set iters. depth - i < 64 \<Longrightarrow> gen_levels depth \<alpha> (iters @ [depth]) path = Inr (cs, fin)
     \<Longrightarrow> gen_leaf \<alpha> v (fst fin) = Inr (leaf_gap (bit \<alpha> 0) (fst fin) XOR v)"
proof (induction iters arbitrary: path cs)
  case Nil
  then have "fst fin = corrected (bit \<alpha> 0) path"
    using gen_level_eq [OF Nil.prems(1), of depth depth "bit \<alpha> 0" \<alpha>] by (auto simp: next_path_def)
  with gen_leaf_eq [OF Nil.prems(1)] show ?case by simp
next
  case (Cons i iters)
  from Cons.prems(3) gen_level_eq [OF Cons.prems(1), of depth i "bit \<alpha> (depth - i)" \<alpha>] Cons.prems(2)
  obtain cs' where "gen_levels depth \<alpha> (iters @ [depth]) (next_path (i \<noteq> depth) (bit \<alpha> (depth - i)) path) = Inr (cs', fin)"
    by (auto simp: res_bind_Inr_iff)
  then show ?case using Cons.IH [OF complementary_next [OF Cons.prems(1)]] Cons.prems(2) by simp
qed

lemma gen_trees_ok:
  assumes "prng_at s0 g0 pos" "prng_at s1 g1 pos" "0 < depth" "depth \<le> 64"
  shows "\<exists>trees. gen_trees depth tvs g0 g1 = Inr trees \<and> length trees = length tvs
    \<and> (\<forall>k<length tvs. \<exists>fin. gen_levels depth (fst (tvs ! k)) [1..<Suc depth] (dealer_root s0 s1 (pos + 32 * k)) = Inr (fst (trees ! k), fin)
         \<and> length (fst (trees ! k)) = depth \<and> snd (trees ! k) = leaf_gap (bit (fst (tvs ! k)) 0) (fst fin) XOR snd (tvs ! k))"
  using assms(1,2)
proof (induction tvs arbitrary: g0 g1 pos)
  case (Cons tv tvs)
  obtain q0 where q0: "get_array 16 g0 2 = Some (Inr (segment (aes_stream s0) pos 32, q0))" "prng_at s0 q0 (pos + 32)"
    using implGet_at [OF Cons.prems(1), of 32] by (auto simp: get_array_def)
  obtain q1 where q1: "get_array 16 g1 2 = Some (Inr (segment (aes_stream s1) pos 32, q1))" "prng_at s1 q1 (pos + 32)"
    using implGet_at [OF Cons.prems(2), of 32] by (auto simp: get_array_def)
  let ?root = "dealer_root s0 s1 pos"
  have root: "(\<lambda>p j. blocks_of (if p = 0 then segment (aes_stream s0) pos 32 else segment (aes_stream s1) pos 32) ! j, \<lambda>p. allSame_u8 (- of_nat p)) = ?root"
    by (auto simp: dealer_root_def)
  obtain a v where tv: "tv = (a, v)" by (cases tv)
  have up: "[1..<Suc depth] = [1..<depth] @ [depth]" using assms(3) by (simp add: upt_Suc)
  have lt: "depth - i < 64" if "i \<in> set [1..<Suc depth]" for i using that assms(3,4) by auto
  have "\<exists>cs fin. gen_levels depth a [1..<Suc depth] ?root = Inr (cs, fin) \<and> length cs = length [1..<Suc depth] \<and> complementary fin"
    by (rule gen_levels_ok [OF dealer_complementary lt])
  then obtain cs fin where g: "gen_levels depth a [1..<Suc depth] ?root = Inr (cs, fin)" "length cs = depth" by (auto simp del: upt_Suc One_nat_def)
  define gam where "gam = leaf_gap (bit a 0) (fst fin) XOR v"
  have gam: "gen_leaf a v (fst fin) = Inr gam" unfolding gam_def
    by (rule gen_levels_leaf [OF dealer_complementary [of s0 s1 pos] _ g(1) [unfolded up]]) (use assms(4) in auto)
  obtain trees where IH: "gen_trees depth tvs q0 q1 = Inr trees" "length trees = length tvs"
    "\<forall>k<length tvs. \<exists>fin. gen_levels depth (fst (tvs ! k)) [1..<Suc depth] (dealer_root s0 s1 (pos + 32 + 32 * k)) = Inr (fst (trees ! k), fin)
         \<and> length (fst (trees ! k)) = depth \<and> snd (trees ! k) = leaf_gap (bit (fst (tvs ! k)) 0) (fst fin) XOR snd (tvs ! k)"
    using Cons.IH [OF q0(2) q1(2)] by blast
  have "gen_trees depth (tv # tvs) g0 g1 = Inr ((cs, gam) # trees)"
    by (cases fin) (use gam in \<open>simp add: tv q0(1) q1(1) prng_result_def root g(1) IH(1) del: upt_Suc One_nat_def\<close>)
  moreover have "\<forall>k<length (tv # tvs). \<exists>fin. gen_levels depth (fst ((tv # tvs) ! k)) [1..<Suc depth] (dealer_root s0 s1 (pos + 32 * k)) = Inr (fst (((cs, gam) # trees) ! k), fin)
         \<and> length (fst (((cs, gam) # trees) ! k)) = depth \<and> snd (((cs, gam) # trees) ! k) = leaf_gap (bit (fst ((tv # tvs) ! k)) 0) (fst fin) XOR snd ((tv # tvs) ! k)"
    by (cases fin) (use g gam_def IH(3) tv in \<open>auto simp: nth_Cons add.assoc split: nat.split simp del: upt_Suc One_nat_def\<close>)
  ultimately show ?case using IH(2) by auto
qed simp

text \<open>The columns that are generated tree by tree are the rows of the keys.\<close>

lemma columns_rows:
  assumes "\<And>k. k < n \<Longrightarrow> gen_levels depth (\<alpha> k) iters (path k) = Inr (cs k, fin k)"
  shows "\<exists>fin'. path_rows depth n \<alpha> iters path
      (map (\<lambda>l. (map (\<lambda>k. fst (cs k ! l)) [0..<n], map (\<lambda>k. snd (cs k ! l)) [0..<n])) [0..<length iters]) fin' \<and> (\<forall>k<n. fin' k = fin k)"
  using assms
proof (induction iters arbitrary: path cs)
  case Nil
  then show ?case by auto
next
  case (Cons i iters)
  have ex: "\<exists>c path' ds. gen_level depth (\<alpha> k) i (path k) = Inr (c, path') \<and> cs k = c # ds \<and> gen_levels depth (\<alpha> k) iters path' = Inr (ds, fin k)" if "k < n" for k
    using Cons.prems [OF that] by (auto simp: res_bind_Inr_iff)
  then obtain c path' ds where f: "\<And>k. k < n \<Longrightarrow> gen_level depth (\<alpha> k) i (path k) = Inr (c k, path' k) \<and> cs k = c k # ds k
      \<and> gen_levels depth (\<alpha> k) iters (path' k) = Inr (ds k, fin k)" by metis
  from f have f': "\<And>k. k < n \<Longrightarrow> gen_levels depth (\<alpha> k) iters (path' k) = Inr (ds k, fin k)" by blast
  from Cons.IH [OF f'] obtain fin' where IH: "path_rows depth n \<alpha> iters path'
      (map (\<lambda>l. (map (\<lambda>k. fst (ds k ! l)) [0..<n], map (\<lambda>k. snd (ds k ! l)) [0..<n])) [0..<length iters]) fin'" "\<forall>k<n. fin' k = fin k" by blast
  let ?row = "(map (\<lambda>k. fst (c k)) [0..<n], map (\<lambda>k. snd (c k)) [0..<n])"
  have "path_row depth n \<alpha> i path ?row path'" using f by (simp add: path_row_def)
  moreover have "map (\<lambda>l. (map (\<lambda>k. fst (cs k ! l)) [0..<n], map (\<lambda>k. snd (cs k ! l)) [0..<n])) [0..<length (i # iters)]
     = ?row # map (\<lambda>l. (map (\<lambda>k. fst (ds k ! l)) [0..<n], map (\<lambda>k. snd (ds k ! l)) [0..<n])) [0..<length iters]"
    using f by (simp add: upt_conv_Cons map_Suc_upt [symmetric] comp_def del: upt_Suc)
  ultimately show ?case using IH by auto
qed

lemma getSeed_seeded: "prng_at seed p n \<Longrightarrow> getSeed p = Inr seed"
  by (auto simp: prng_at_def getSeed_def setKey_eq aes_key_def)

lemma dealer_keys_open:
  assumes dm: "2 \<le> domain" "log2ceil domain \<le> 64" and n: "length points = n" "length values = n" "0 < n"
    and pts: "\<And>k. k < n \<Longrightarrow> unat (points ! k) < domain" and g: "prng_at seed prng pos" and key: "mLeafVals key0 = []" "mLeafVals key1 = []"
  obtains k0 k1 prng' e0 dd0 e1 dd1 where "static_keyGen domain points values prng [key0, key1] = Inr ([k0, k1], prng')"
    "static_expand heap0 junk0 peer0 0 domain k0 = Return (e0, None, dd0)" "static_expand heap1 junk1 peer1 1 domain k1 = Return (e1, None, dd1)"
    "opens_points domain n (\<lambda>k. points ! k) (\<lambda>k. values ! k) e0 e1"
proof -
  let ?D = "log2ceil domain" and ?tvs = "zip points values"
  obtain s0 q where s0: "get_block prng = Some (Inr (s0, q))" "prng_at seed q (pos + 16)" using get_block_at [OF g] by blast
  obtain s1 prng' where s1: "get_block q = Some (Inr (s1, prng'))" using get_block_at [OF s0(2)] by blast
  obtain g0 where g0: "PRNG_seeded s0 256 = Inr g0" "prng_at s0 g0 0" using SetSeed_fresh [of 256 s0] by auto
  obtain g1 where g1: "PRNG_seeded s1 256 = Inr g1" "prng_at s1 g1 0" using SetSeed_fresh [of 256 s1] by auto
  have D: "0 < ?D" by (rule depth_facts(1) [OF dm(1)])
  obtain trees where T: "gen_trees ?D ?tvs g0 g1 = Inr trees" "length trees = n"
    "\<And>k. k < n \<Longrightarrow> \<exists>fin. gen_levels ?D (points ! k) [1..<Suc ?D] (dealer_root s0 s1 (32 * k)) = Inr (fst (trees ! k), fin)
         \<and> length (fst (trees ! k)) = ?D \<and> snd (trees ! k) = leaf_gap (bit (points ! k) 0) (fst fin) XOR values ! k"
    using gen_trees_ok [OF g0(2) g1(2) D dm(2), of ?tvs] n by auto
  then obtain fin where fin: "\<And>k. k < n \<Longrightarrow> gen_levels ?D (points ! k) [1..<Suc ?D] (dealer_root s0 s1 (32 * k)) = Inr (fst (trees ! k), fin k)
         \<and> snd (trees ! k) = leaf_gap (bit (points ! k) 0) (fst (fin k)) XOR values ! k" by metis
  define rows where "rows = map (\<lambda>l. (map (\<lambda>k. fst (fst (trees ! k) ! l)) [0..<n], map (\<lambda>k. snd (fst (trees ! k) ! l)) [0..<n])) [0..<?D]"
  define gam where "gam = map snd trees"
  have cols: "\<And>k. k < n \<Longrightarrow> gen_levels ?D (points ! k) [1..<Suc ?D] (dealer_root s0 s1 (32 * k)) = Inr (fst (trees ! k), fin k)" using fin by blast
  have lenD: "length [1..<Suc ?D] = ?D" by simp
  have "\<exists>fin'. path_rows ?D n (\<lambda>k. points ! k) [1..<Suc ?D] (\<lambda>k. dealer_root s0 s1 (32 * k))
      (map (\<lambda>l. (map (\<lambda>k. fst (fst (trees ! k) ! l)) [0..<n], map (\<lambda>k. snd (fst (trees ! k) ! l)) [0..<n])) [0..<length [1..<Suc ?D]]) fin'
      \<and> (\<forall>k<n. fin' k = fin k)"
    by (rule columns_rows) (rule cols)
  then obtain fin' where R: "path_rows ?D n (\<lambda>k. points ! k) [1..<Suc ?D] (\<lambda>k. dealer_root s0 s1 (32 * k)) rows fin'" "\<forall>k<n. fin' k = fin k"
    unfolding lenD rows_def [symmetric] by blast
  obtain roots0 qq where r0: "draw_pads n g0 = Return (roots0, qq)" "\<forall>k<n. roots0 ! k = (of_bytes (segment (aes_stream s0) (32 * k) 16), of_bytes (segment (aes_stream s0) (32 * k + 16) 16))"
    using draw_pads_stream [OF g0(2), of n] by auto
  obtain roots1 qq' where r1: "draw_pads n g1 = Return (roots1, qq')" "\<forall>k<n. roots1 ! k = (of_bytes (segment (aes_stream s1) (32 * k) 16), of_bytes (segment (aes_stream s1) (32 * k + 16) 16))"
    using draw_pads_stream [OF g1(2), of n] by auto
  have root: "root_path (roots0 ! k) (roots1 ! k) (dealer_root s0 s1 (32 * k))" if "k < n" for k
    using r0(2) r1(2) that by (simp add: root_path_def dealer_root_def two_blocks two_blocks(2) [unfolded One_nat_def])
  have ro: "roots_of s0 n roots0" "roots_of s1 n roots1" using g0(1) g1(1) r0(1) r1(1) by (auto simp: roots_of_def)
  have key': "key_resize domain n False k = Inr (k\<lparr>mCorrectionWords := matrix_resize ?D n (mCorrectionWords k), mCorrectionBits := matrix_resize ?D n (mCorrectionBits k)\<rparr>)" for k
    using D by (simp add: key_resize_def Let_def)
  have rw: "map fst rows = map (\<lambda>l. map (\<lambda>(cs, _). fst (cs ! l)) trees) [0..<?D]" "map snd rows = map (\<lambda>l. map (\<lambda>(cs, _). snd (cs ! l)) trees) [0..<?D]"
    using T(2) by (auto simp: rows_def split_def intro!: nth_equalityI)
  have upd: "k\<lparr>mCorrectionWords := a, mCorrectionBits := b, mSeed := c, mCorrectionWords := d, mCorrectionBits := e, mLeafVals := gam\<rparr>
      = \<lparr>mSeed = c, mCorrectionWords = d, mCorrectionBits = e, mLeafVals = gam\<rparr>" for k :: RegularDpfKey and a b c d e by simp
  have kg: "static_keyGen domain points values prng [key0, key1] = Inr ([key_of_rows s0 rows gam, key_of_rows s1 rows gam], prng')"
    by (simp add: static_keyGen_def n Let_def key' s0(1) s1 prng_result_def g0(1) g1(1) getSeed_seeded [OF g0(2)] getSeed_seeded [OF g1(2)] T(1) key
        key_of_rows_def rw gam_def)
  show thesis
    by (rule keys_open [OF R(1) root _ dm n(3) pts ro, of gam "\<lambda>k. values ! k"])
      (use R(2) fin T(2) in \<open>auto simp: rows_def gam_def intro: that [OF kg]\<close>)
qed

section \<open>Keys as bytes\<close>

lemma log2ceil_le:
  assumes "0 < x" "x \<le> 2 ^ m"
  shows "log2ceil x \<le> m"
proof -
  have "bit_width y \<le> m" if "y < 2 ^ m" for y m
    using that
  proof (induction y arbitrary: m rule: bit_width.induct)
    case (1 y)
    show ?case
    proof (cases m)
      case 0
      with 1 show ?thesis by (simp add: bit_width.simps)
    next
      case (Suc j)
      with 1 have "y \<noteq> 0 \<Longrightarrow> bit_width (y div 2) \<le> j" by simp
      with Suc show ?thesis by (subst bit_width.simps) simp
    qed
  qed
  with assms show ?thesis by (simp add: log2ceil_def)
qed

lemma reshape_concat: "map length m' = map length m \<Longrightarrow> reshape m' (concat m) = m"
proof (induction m arbitrary: m')
  case (Cons r m)
  then show ?case by (cases m') auto
qed simp

lemma copyBytesMin_prefix: "length d \<le> length s \<Longrightarrow> copyBytesMin d s = take (length d) s"
  by (simp add: copyBytesMin_def blit_def)

lemma copy_into_prefix: "length src \<le> length dest - off \<Longrightarrow> copy_into dest off src = take off dest @ src @ drop (off + length src) dest"
  by (simp add: copy_into_def copyBytesMin_def blit_def min_def add.commute)

lemma blocks_of_bytes: "blocks_of (concat (map to_bytes xs)) = xs"
proof -
  have "length (concat (map to_bytes xs)) = 16 * length xs" using length_concat_map_const [of xs to_bytes 16] by simp
  then show ?thesis using chunks_concat [of xs to_bytes 16 "[]"] by (simp add: blocks_of_def comp_def)
qed

text \<open>Two keys with matrices and leaves of the same sizes.\<close>

definition same_shape :: "RegularDpfKey \<Rightarrow> RegularDpfKey \<Rightarrow> bool" where
  "same_shape k l \<longleftrightarrow> map length (mCorrectionWords k) = map length (mCorrectionWords l)
     \<and> map length (mCorrectionBits k) = map length (mCorrectionBits l) \<and> length (mLeafVals k) = length (mLeafVals l)"

lemma key_bytes:
  assumes "length dest = key_sizeBytes k"
  shows "key_toBytes k dest = Inr (to_bytes (mSeed k) @ concat (map to_bytes (concat (mCorrectionWords k))) @ concat (mCorrectionBits k) @ concat (map to_bytes (mLeafVals k)))"
proof -
  let ?w = "concat (map to_bytes (concat (mCorrectionWords k)))" and ?l = "concat (map to_bytes (mLeafVals k))"
  have len: "length ?w = 16 * length (concat (mCorrectionWords k))" "length ?l = 16 * length (mLeafVals k)"
    using length_concat_map_const [of "concat (mCorrectionWords k)" to_bytes 16] length_concat_map_const [of "mLeafVals k" to_bytes 16] by simp_all
  show ?thesis
    using assms len by (simp add: key_toBytes_def key_sizeBytes_def Let_def copy_into_prefix copyBytes_def)
qed

lemma length_key_bytes:
  "length (to_bytes (mSeed k) @ concat (map to_bytes (concat (mCorrectionWords k))) @ concat (mCorrectionBits k) @ concat (map to_bytes (mLeafVals k))) = key_sizeBytes k"
  using length_concat_map_const [of "concat (mCorrectionWords k)" to_bytes 16] length_concat_map_const [of "mLeafVals k" to_bytes 16]
  by (simp add: key_sizeBytes_def)

lemma key_bytes_roundtrip:
  assumes "same_shape l k"
  shows "key_fromBytes l (to_bytes (mSeed k) @ concat (map to_bytes (concat (mCorrectionWords k))) @ concat (mCorrectionBits k) @ concat (map to_bytes (mLeafVals k))) = Inr k"
proof -
  have c: "length (concat (mCorrectionWords l)) = length (concat (mCorrectionWords k))" "length (concat (mCorrectionBits l)) = length (concat (mCorrectionBits k))"
    "length (mLeafVals l) = length (mLeafVals k)"
    using assms by (simp_all add: same_shape_def length_concat)
  have w: "length (concat (map to_bytes xs)) = 16 * length xs" for xs :: "m128 list" using length_concat_map_const [of xs to_bytes 16] by simp
  show ?thesis
    using assms by (simp add: key_fromBytes_def key_sizeBytes_def Let_def copyBytesMin_prefix copyBytes_def w c same_shape_def blocks_of_bytes reshape_concat)
qed

end
