(* ===== verification/Circuit.thy ===== *)
theory Circuit
  imports Prelude
begin

text \<open>
  \<^verbatim>\<open>cryptoTools/Circuit/Gate.h\<close>, \<^verbatim>\<open>BetaCircuit.h\<close>, \<^verbatim>\<open>BetaCircuit.cpp\<close>: boolean circuits as lists of gates over wires, with flags
  that fold constants and inversions into the gates while the circuit is built, and their evaluation. A bundle that the
  code fills by reference is returned. The counter of wires is a natural number (the code has 32 bits). The semantics
  \<open>cval\<close> gives the value of every wire of a circuit under construction; every construction step assigns one wire.
\<close>

section \<open>Code: gates\<close>

datatype GateType =
    G_Zero | G_Nor | G_nb_And | G_nb | G_na_And | G_na | G_Xor | G_Nand
  | G_And | G_Nxor | G_a | G_nb_Or | G_b | G_na_Or | G_Or | G_One

definition gate_types :: "GateType list" where
  "gate_types = [G_Zero, G_Nor, G_nb_And, G_nb, G_na_And, G_na, G_Xor, G_Nand,
     G_And, G_Nxor, G_a, G_nb_Or, G_b, G_na_Or, G_Or, G_One]"

text \<open>The conversions \<^verbatim>\<open>(u8)type\<close> and \<^verbatim>\<open>GateType(s)\<close>.\<close>

fun gate_u8 :: "GateType \<Rightarrow> u8" where
  "gate_u8 G_Zero = 0" | "gate_u8 G_Nor = 1" | "gate_u8 G_nb_And = 2" | "gate_u8 G_nb = 3"
| "gate_u8 G_na_And = 4" | "gate_u8 G_na = 5" | "gate_u8 G_Xor = 6" | "gate_u8 G_Nand = 7"
| "gate_u8 G_And = 8" | "gate_u8 G_Nxor = 9" | "gate_u8 G_a = 10" | "gate_u8 G_nb_Or = 11"
| "gate_u8 G_b = 12" | "gate_u8 G_na_Or = 13" | "gate_u8 G_Or = 14" | "gate_u8 G_One = 15"

definition GateType_of :: "u8 \<Rightarrow> GateType" where
  "GateType_of s = gate_types ! unat s"

definition isLinear :: "GateType \<Rightarrow> bool" where
  "isLinear type \<longleftrightarrow> type = G_Xor \<or> type = G_Nxor \<or> type = G_a \<or> type = G_Zero \<or> type = G_nb \<or> type = G_na \<or> type = G_b \<or> type = G_One"

definition GateEval :: "GateType \<Rightarrow> bool \<Rightarrow> bool \<Rightarrow> bool" where
  "GateEval type a b = (let v = (if a then 1 else 0) OR push_bit 1 (if b then 1 else 0 :: nat) in gate_u8 type AND push_bit v 1 \<noteq> 0)"

definition gateToString :: "GateType \<Rightarrow> string" where
  "gateToString type = [''Zero  '', ''Nor'' @ [CHR 0x09] @ ''  '', ''nb_And'', ''nb '' @ [CHR 0x09] @ ''  '', ''na_And'',
     ''na '' @ [CHR 0x09] @ ''  '', ''Xor   '', ''Nand  '', ''And   '', ''Nxor  '', ''a '' @ [CHR 0x09] @ ''  '', ''nb_Or '',
     ''b '' @ [CHR 0x09] @ ''  '', ''na_Or '', ''Or'' @ [CHR 0x09] @ ''  '', ''One'' @ [CHR 0x09] @ ''  ''] ! unat (gate_u8 type)"

section \<open>Code: circuits\<close>

type_synonym wire = nat
type_synonym wires = "wire list"

text \<open>\<^verbatim>\<open>(BetaWire)-1\<close>, which a bundle holds before its wires are assigned.\<close>

definition no_wire :: wire where "no_wire = 2 ^ 32 - 1"

definition BetaBundle :: "nat \<Rightarrow> wires" where "BetaBundle s = replicate s no_wire"

datatype BetaWireFlag = F_Zero | F_One | F_Wire | F_InvWire | F_Uninitialized

record BetaGate =
  mInput0 :: wire
  mInput1 :: wire
  mOutput :: wire
  mType :: GateType

record Print =
  mGateIdx :: nat
  mWire :: wire
  mMsg :: string
  mInvert :: bool
  mWires :: "wire list"
  mInvs :: "bool list"
  mFn :: "(bool list \<Rightarrow> string) option"

record BetaCircuit =
  mName :: string
  mNonlinearGateCount :: nat
  mWireCount :: nat
  mGates :: "BetaGate list"
  mPrints :: "Print list"
  mWireFlags :: "BetaWireFlag list"
  mInputs :: "wires list"
  mOutputs :: "wires list"
  mLevelCounts :: "nat list"
  mLevelAndCounts :: "nat list"

definition BetaCircuit_new :: BetaCircuit where
  "BetaCircuit_new = \<lparr>mName = [], mNonlinearGateCount = 0, mWireCount = 0, mGates = [], mPrints = [], mWireFlags = [],
     mInputs = [], mOutputs = [], mLevelCounts = [], mLevelAndCounts = []\<rparr>"

text \<open>\<^verbatim>\<open>std::vector::resize(n, x)\<close>.\<close>

definition resize_list :: "nat \<Rightarrow> 'a \<Rightarrow> 'a list \<Rightarrow> 'a list" where
  "resize_list n x xs = take n xs @ replicate (n - length xs) x"

text \<open>New wires for a bundle, then the flags are resized with the given value.\<close>

definition new_wires :: "BetaWireFlag \<Rightarrow> nat \<Rightarrow> BetaCircuit \<Rightarrow> wires \<times> BetaCircuit" where
  "new_wires flag n cd =
     ([mWireCount cd..<mWireCount cd + n],
      cd\<lparr>mWireCount := mWireCount cd + n, mWireFlags := resize_list (mWireCount cd + n) flag (mWireFlags cd)\<rparr>)"

definition addTempWire :: "BetaCircuit \<Rightarrow> wire \<times> BetaCircuit" where
  "addTempWire cd = (mWireCount cd,
     cd\<lparr>mWireCount := mWireCount cd + 1, mWireFlags := resize_list (mWireCount cd + 1) F_Uninitialized (mWireFlags cd)\<rparr>)"

definition addTempWireBundle :: "wires \<Rightarrow> BetaCircuit \<Rightarrow> wires \<times> BetaCircuit" where
  "addTempWireBundle b cd = new_wires F_Uninitialized (length b) cd"

definition addInputBundle :: "wires \<Rightarrow> BetaCircuit \<Rightarrow> (wires \<times> BetaCircuit) result" where
  "addInputBundle b cd =
     (let (b, cd) = new_wires F_Wire (length b) cd;
          cd = cd\<lparr>mInputs := mInputs cd @ [b]\<rparr>
      in if mGates cd \<noteq> [] then Inl (Runtime_error ''inputs must be defined before gates are added. '')
         else if mOutputs cd \<noteq> [] then Inl (Runtime_error ''inputs must be defined before outputs are added. '')
         else Inr (b, cd))"

definition addOutputBundle :: "wires \<Rightarrow> BetaCircuit \<Rightarrow> (wires \<times> BetaCircuit) result" where
  "addOutputBundle b cd =
     (let (b, cd) = new_wires F_Uninitialized (length b) cd;
          cd = cd\<lparr>mOutputs := mOutputs cd @ [b]\<rparr>
      in if mGates cd \<noteq> [] then Inl (Runtime_error ''outputs must be defined before gates are added. '')
         else Inr (b, cd))"

definition addConstBundle :: "wires \<Rightarrow> bool list \<Rightarrow> BetaCircuit \<Rightarrow> (wires \<times> BetaCircuit) result" where
  "addConstBundle b val cd =
     (if length val < length b then Inl (Runtime_error ''rt error at'')
      else let (b, cd) = new_wires F_Wire (length b) cd
           in Inr (b, fold (\<lambda>i cd. cd\<lparr>mWireFlags := (mWireFlags cd)[b ! i := if val ! i then F_One else F_Zero]\<rparr>) [0..<length b] cd))"

definition flag :: "BetaCircuit \<Rightarrow> wire \<Rightarrow> BetaWireFlag" where
  "flag cd w = (if w < length (mWireFlags cd) then mWireFlags cd ! w else F_Uninitialized)"

definition isConst :: "BetaCircuit \<Rightarrow> wire \<Rightarrow> bool" where
  "isConst cd w \<longleftrightarrow> flag cd w = F_One \<or> flag cd w = F_Zero"

definition isInvert :: "BetaCircuit \<Rightarrow> wire \<Rightarrow> bool" where
  "isInvert cd w \<longleftrightarrow> flag cd w = F_InvWire"

definition constVal :: "BetaCircuit \<Rightarrow> wire \<Rightarrow> bool result" where
  "constVal cd w = (if flag cd w = F_Wire then Inl (Runtime_error ''LOCATION'') else Inr (flag cd w = F_One))"

definition out_of_range :: err where "out_of_range = Undefined ''vector index out of range''"

definition set_flag :: "wire \<Rightarrow> BetaWireFlag \<Rightarrow> BetaCircuit \<Rightarrow> BetaCircuit result" where
  "set_flag w f cd = (if w < length (mWireFlags cd) then Inr (cd\<lparr>mWireFlags := (mWireFlags cd)[w := f]\<rparr>) else Inl out_of_range)"

definition addConst :: "wire \<Rightarrow> bool \<Rightarrow> BetaCircuit \<Rightarrow> BetaCircuit result" where
  "addConst w val cd = set_flag w (if val then F_One else F_Zero) cd"

definition addInvert :: "wire \<Rightarrow> BetaCircuit \<Rightarrow> BetaCircuit result" where
  "addInvert w cd =
     (if length (mWireFlags cd) \<le> w then Inl out_of_range
      else case flag cd w of
          F_Zero \<Rightarrow> set_flag w F_One cd
        | F_One \<Rightarrow> set_flag w F_Zero cd
        | F_Wire \<Rightarrow> set_flag w F_InvWire cd
        | F_InvWire \<Rightarrow> set_flag w F_Wire cd
        | F_Uninitialized \<Rightarrow> Inl (Runtime_error ''LOCATION''))"

definition addCopy :: "wire \<Rightarrow> wire \<Rightarrow> BetaCircuit \<Rightarrow> BetaCircuit result" where
  "addCopy src dest cd =
     (let cd = cd\<lparr>mGates := mGates cd @ [\<lparr>mInput0 = src, mInput1 = 1, mOutput = dest, mType = G_a\<rparr>]\<rparr>
      in if length (mWireFlags cd) \<le> src then Inl out_of_range else set_flag dest (flag cd src) cd)"

definition addInvertCopy :: "wire \<Rightarrow> wire \<Rightarrow> BetaCircuit \<Rightarrow> BetaCircuit result" where
  "addInvertCopy src dest cd = res_bind (addCopy src dest cd) (addInvert dest)"

text \<open>Copying bundles: the flag first, then the gate, for every wire of the destination.\<close>

fun addCopyBundle :: "wires \<Rightarrow> wires \<Rightarrow> BetaCircuit \<Rightarrow> BetaCircuit result" where
  "addCopyBundle s [] cd = Inr cd"
| "addCopyBundle [] (d # ds) cd = Inl out_of_range"
| "addCopyBundle (s # ss) (d # ds) cd =
     (if length (mWireFlags cd) \<le> s then Inl out_of_range
      else res_bind (set_flag d (flag cd s) cd) (\<lambda>cd.
        addCopyBundle ss ds (cd\<lparr>mGates := mGates cd @ [\<lparr>mInput0 = s, mInput1 = 1, mOutput = d, mType = G_a\<rparr>]\<rparr>)))"

definition invertInputWire :: "nat \<Rightarrow> GateType \<Rightarrow> GateType result" where
  "invertInputWire wirePosition oldGateType =
     (let s = gate_u8 oldGateType in
      if wirePosition = 0
      then Inr (GateType_of (push_bit 1 (s AND 1) OR drop_bit 1 (s AND 2) OR push_bit 1 (s AND 4) OR drop_bit 1 (s AND 8)))
      else if wirePosition = 1 then Inr (GateType_of (push_bit 2 (s AND 3) OR drop_bit 2 (s AND 12)))
      else Inl (Runtime_error []))"

text \<open>The gate left over when one input of \<open>gt\<close> is the constant.\<close>

definition subgate_b :: "GateType \<Rightarrow> bool \<Rightarrow> u8" where
  "subgate_b gt val = drop_bit (2 * (if val then 1 else 0)) (gate_u8 gt) AND 3"

definition subgate_a :: "GateType \<Rightarrow> bool \<Rightarrow> u8" where
  "subgate_a gt val =
     (let g = gate_u8 gt in
      if val then drop_bit 1 (g AND 2) OR drop_bit 2 (g AND 8) else (g AND 1) OR drop_bit 1 (g AND 4))"

definition unary_gates :: "GateType list" where
  "unary_gates = [G_a, G_b, G_na, G_nb, G_One, G_Zero]"

definition addGate :: "wire \<Rightarrow> wire \<Rightarrow> GateType \<Rightarrow> wire \<Rightarrow> BetaCircuit \<Rightarrow> BetaCircuit result" where
  "addGate aIdx bIdx gt out cd =
     (if gt \<in> set unary_gates then Inl (Runtime_error [])
      else if mWireCount cd \<le> aIdx \<or> flag cd aIdx = F_Uninitialized then Inl (Runtime_error ''LOCATION'')
      else if mWireCount cd \<le> bIdx \<or> flag cd bIdx = F_Uninitialized then Inl (Runtime_error ''LOCATION'')
      else if mWireCount cd \<le> out then Inl (Runtime_error ''LOCATION'')
      else let constA = isConst cd aIdx; constB = isConst cd bIdx
      in if constA \<and> constB
         then res_bind (constVal cd aIdx) (\<lambda>va. res_bind (constVal cd bIdx) (\<lambda>vb. addConst out (GateEval gt va vb) cd))
         else if constA \<or> constB
         then res_bind (if constB then constVal cd bIdx else constVal cd aIdx) (\<lambda>val.
           let wireIdx = (if constB then aIdx else bIdx);
               subgate = (if constB then subgate_b gt val else subgate_a gt val)
           in if subgate = 0 then addConst out False cd
              else if subgate = 1 then res_bind (addCopy wireIdx out cd) (addInvert out)
              else if subgate = 2 then addCopy wireIdx out cd
              else if subgate = 3 then addConst out True cd
              else Inl (Runtime_error ''LOCATION''))
         else
           res_bind (if isInvert cd aIdx then invertInputWire 0 gt else Inr gt) (\<lambda>gt.
           res_bind (if isInvert cd bIdx then invertInputWire 1 gt else Inr gt) (\<lambda>gt.
           let cd = (if gt \<noteq> G_Xor \<and> gt \<noteq> G_Nxor then cd\<lparr>mNonlinearGateCount := mNonlinearGateCount cd + 1\<rparr> else cd);
               cd = cd\<lparr>mGates := mGates cd @ [\<lparr>mInput0 = aIdx, mInput1 = bIdx, mOutput = out, mType = gt\<rparr>]\<rparr>
           in set_flag out F_Wire cd)))"

text \<open>Messages: \<open>junk\<close> is a record with the members that the default constructor leaves uninitialised.\<close>

definition addPrintString :: "string \<Rightarrow> BetaCircuit \<Rightarrow> BetaCircuit" where
  "addPrintString str cd =
     cd\<lparr>mPrints := mPrints cd @ [\<lparr>mGateIdx = length (mGates cd), mWire = no_wire, mMsg = str, mInvert = False,
        mWires = [], mInvs = [], mFn = None\<rparr>]\<rparr>"

definition addPrintWire :: "wire \<Rightarrow> BetaCircuit \<Rightarrow> BetaCircuit result" where
  "addPrintWire w cd =
     (if length (mWireFlags cd) \<le> w then Inl out_of_range
      else if isConst cd w then res_bind (constVal cd w) (\<lambda>v. Inr (addPrintString (if v then ''1'' else ''0'') cd))
      else Inr (cd\<lparr>mPrints := mPrints cd @ [\<lparr>mGateIdx = length (mGates cd), mWire = w, mMsg = [], mInvert = isInvert cd w,
        mWires = [], mInvs = [], mFn = None\<rparr>]\<rparr>))"

fun addPrintWires :: "wire list \<Rightarrow> BetaCircuit \<Rightarrow> BetaCircuit result" where
  "addPrintWires [] cd = Inr cd"
| "addPrintWires (w # ws) cd = res_bind (addPrintWire w cd) (addPrintWires ws)"

text \<open>The most significant wire first.\<close>

definition addPrintBundle :: "wires \<Rightarrow> BetaCircuit \<Rightarrow> BetaCircuit result" where
  "addPrintBundle b cd = addPrintWires (rev b) cd"

fun merge_consts :: "bool option list \<Rightarrow> bool list \<Rightarrow> bool list" where
  "merge_consts [] bs = []"
| "merge_consts (Some c # cs) bs = c # merge_consts cs bs"
| "merge_consts (None # cs) bs = hd bs # merge_consts cs (tl bs)"

definition addPrintFormat :: "Print \<Rightarrow> wires \<Rightarrow> (bool list \<Rightarrow> string) \<Rightarrow> BetaCircuit \<Rightarrow> BetaCircuit result" where
  "addPrintFormat junk b formatter cd =
     (if \<exists>w\<in>set b. length (mWireFlags cd) \<le> w then Inl out_of_range
      else let ws = filter (\<lambda>w. \<not> isConst cd w) b;
               consts = map (\<lambda>w. if isConst cd w then Some (flag cd w = F_One) else None) b
           in Inr (cd\<lparr>mPrints := mPrints cd @ [junk\<lparr>mMsg := [], mWires := ws, mInvs := map (isInvert cd) ws,
                mFn := Some (\<lambda>bs. formatter (merge_consts consts bs))\<rparr>]\<rparr>))"

section \<open>Code: evaluation\<close>

text \<open>The bytes of \<^verbatim>\<open>mem\<close> and \<^verbatim>\<open>outOfDate\<close> only hold 0 and 1.\<close>

record eval_state =
  mem :: "bool list"
  outOfDate :: "bool list"
  prints_left :: "Print list"
  levels_left :: "nat list"
  curLevelRem :: "nat option"
  printed :: string

definition print_text :: "bool list \<Rightarrow> Print \<Rightarrow> string result" where
  "print_text m p =
     (case mFn p of
        Some f \<Rightarrow> if \<exists>w\<in>set (mWires p). length m \<le> w then Inl out_of_range
                  else Inr (f (map2 (\<lambda>w inv. (m ! w) \<noteq> inv) (mWires p) (mInvs p)))
      | None \<Rightarrow> if mWire p = no_wire then Inr (mMsg p)
                else if length m \<le> mWire p then Inl out_of_range
                else Inr ((if (m ! mWire p) \<noteq> mInvert p then ''1'' else ''0'') @ mMsg p))"

fun print_while :: "(Print \<Rightarrow> bool) \<Rightarrow> bool list \<Rightarrow> Print list \<Rightarrow> (string \<times> Print list) result" where
  "print_while b m [] = Inr ([], [])"
| "print_while b m (p # ps) =
     (if b p then res_bind (print_text m p) (\<lambda>t. res_bind (print_while b m ps) (\<lambda>(ts, ps). Inr (t @ ts, ps))) else Inr ([], p # ps))"

definition do_prints :: "(Print \<Rightarrow> bool) \<Rightarrow> eval_state \<Rightarrow> eval_state result" where
  "do_prints b st = res_bind (print_while b (mem st) (prints_left st)) (\<lambda>(t, ps). Inr (st\<lparr>prints_left := ps, printed := printed st @ t\<rparr>))"

text \<open>One gate; \<open>levelled\<close> tells whether \<^verbatim>\<open>mLevelCounts\<close> is not empty. Copying a wire to itself leaves it as it is.\<close>

definition eval_gate :: "bool \<Rightarrow> BetaGate \<Rightarrow> eval_state \<Rightarrow> eval_state result" where
  "eval_gate levelled gate st =
     (let m = mem st; old = outOfDate st; i0 = mInput0 gate; i1 = mInput1 gate; i2 = mOutput gate in
      if mType gate \<noteq> G_a then
        if mType gate \<in> set unary_gates then Inl (Runtime_error ''LOCATION'')
        else if length old \<le> i0 \<or> \<not> old ! i0 \<and> length old \<le> i1 then Inl out_of_range
        else if old ! i0 \<or> old ! i1 then Inl (Runtime_error ''LOCATION'')
        else if length m \<le> i2 then Inl out_of_range
        else Inr (st\<lparr>mem := m[i2 := GateEval (mType gate) (m ! i0) (m ! i1)],
                     outOfDate := (if levelled \<and> \<not> isLinear (mType gate) then old[i2 := True] else old)\<rparr>)
      else if length m < i0 + i1 \<or> length m < i2 + i1 then Inl out_of_range
      else if i0 \<noteq> i2 \<and> i0 < i2 + i1 \<and> i2 < i0 + i1 then Inl (Undefined ''overlapping memcpy'')
      else Inr (st\<lparr>mem := take i2 m @ take i1 (drop i0 m) @ drop (i2 + i1) m\<rparr>))"

text \<open>
  \<^verbatim>\<open>--curLevelRem == 0 && i != mGates.size() - 1\<close>. Without levels the counter starts at \<open>2 ^ 64 - 1\<close>, more gates than a vector
  can hold; that is \<open>None\<close>. A level of 0 gates wraps, so it is not left either.
\<close>

definition next_level :: "bool \<Rightarrow> eval_state \<Rightarrow> eval_state result" where
  "next_level is_last st =
     (case curLevelRem st of
        None \<Rightarrow> Inr st
      | Some r \<Rightarrow>
          if r = 1 \<and> \<not> is_last then
            case levels_left st of
              [] \<Rightarrow> Inl out_of_range
            | l # ls \<Rightarrow> Inr (st\<lparr>outOfDate := replicate (length (outOfDate st)) False, curLevelRem := Some l, levels_left := ls\<rparr>)
          else Inr (st\<lparr>curLevelRem := (if r = 0 then None else Some (r - 1))\<rparr>))"

fun run_gates :: "bool \<Rightarrow> bool \<Rightarrow> nat \<Rightarrow> BetaGate list \<Rightarrow> eval_state \<Rightarrow> eval_state result" where
  "run_gates levelled print i [] st = Inr st"
| "run_gates levelled print i (gate # gs) st =
     res_bind (do_prints (\<lambda>p. print \<and> mGateIdx p = i) st) (\<lambda>st.
     res_bind (eval_gate levelled gate st) (\<lambda>st.
     res_bind (next_level (gs = []) st) (run_gates levelled print (i + 1) gs)))"

definition read_output :: "BetaCircuit \<Rightarrow> bool list \<Rightarrow> wire \<Rightarrow> bool result" where
  "read_output cd m w =
     (if length (mWireFlags cd) \<le> w then Inl out_of_range
      else if isConst cd w then constVal cd w
      else if length m \<le> w then Inl out_of_range
      else Inr ((m ! w) \<noteq> isInvert cd w))"

text \<open>\<^verbatim>\<open>evaluate(input, output, print)\<close> for output vectors of the given sizes: the text that is printed and the outputs.\<close>

definition evaluate :: "BetaCircuit \<Rightarrow> bool list list \<Rightarrow> nat list \<Rightarrow> bool \<Rightarrow> (string \<times> bool list list) result" where
  "evaluate cd input osizes print =
     (if length input \<noteq> length (mInputs cd) then Inl (Runtime_error ''LOCATION'')
      else if map length input \<noteq> map length (mInputs cd) then Inl (Runtime_error ''LOCATION'')
      else if \<exists>w\<in>set (concat (mInputs cd)). mWireCount cd \<le> w then Inl out_of_range
      else
        let m = fold (\<lambda>(w, v) m. m[w := v]) (zip (concat (mInputs cd)) (concat input)) (replicate (mWireCount cd) False);
            st = \<lparr>mem = m, outOfDate = replicate (mWireCount cd) False, prints_left = mPrints cd,
                  levels_left = tl (mLevelCounts cd),
                  curLevelRem = (if mLevelCounts cd = [] then None else Some (hd (mLevelCounts cd))), printed = []\<rparr>
        in res_bind (run_gates (mLevelCounts cd \<noteq> []) print 0 (mGates cd) st) (\<lambda>st.
           res_bind (do_prints (\<lambda>_. print) st) (\<lambda>st.
           if osizes \<noteq> map length (mOutputs cd) then Inl (Runtime_error ''LOCATION'')
           else res_bind (res_map (res_map (read_output cd (mem st))) (mOutputs cd)) (\<lambda>outs. Inr (printed st, outs)))))"

section \<open>Code: levels and comparison\<close>

datatype LevelizeType = Reorder | NoReorder | SingleNoReorder

text \<open>\<^verbatim>\<open>levelByAndDepth(type)\<close> for the two types that keep the order: counts are appended to \<^verbatim>\<open>mLevelCounts\<close>, \<^verbatim>\<open>mLevelAndCounts\<close>.\<close>

fun level_loop :: "bool \<Rightarrow> nat \<Rightarrow> GateType list \<Rightarrow> nat list \<times> nat list \<Rightarrow> nat list \<times> nat list" where
  "level_loop single curCount [] (cs, ands) = (if curCount \<noteq> 0 then (cs @ [curCount], ands @ [0]) else (cs, ands))"
| "level_loop single curCount (t # ts) (cs, ands) =
     (let curCount = curCount + 1 in
      if \<not> isLinear t then level_loop single 0 ts (cs @ [curCount], ands @ [1])
      else if single then level_loop single 0 ts (cs @ [curCount], ands @ [0])
      else level_loop single curCount ts (cs, ands))"

definition levelNoReorder :: "bool \<Rightarrow> BetaCircuit \<Rightarrow> BetaCircuit" where
  "levelNoReorder single cd =
     (let (cs, ands) = level_loop single 0 (map mType (mGates cd)) (mLevelCounts cd, mLevelAndCounts cd)
      in cd\<lparr>mLevelCounts := cs, mLevelAndCounts := ands\<rparr>)"

text \<open>The first branch of \<^verbatim>\<open>levelByAndDepth()\<close>, for circuits that count no nonlinear gate.\<close>

definition levelLinear :: "BetaCircuit \<Rightarrow> BetaCircuit" where
  "levelLinear cd = cd\<lparr>mLevelAndCounts := resize_list 1 0 (mLevelAndCounts cd), mLevelCounts := [length (mGates cd)]\<rparr>"

definition print_differs :: "Print \<Rightarrow> Print \<Rightarrow> bool" where
  "print_differs p q \<longleftrightarrow> \<not> (mGateIdx p = mGateIdx q \<and> mWire p = mWire q \<and> mMsg p = mMsg q \<and> mInvert p = mInvert q)"

fun wires_differ :: "wires \<Rightarrow> wires \<Rightarrow> bool result" where
  "wires_differ [] ys = Inr False"
| "wires_differ (x # xs) [] = Inl out_of_range"
| "wires_differ (x # xs) (y # ys) = (if x \<noteq> y then Inr True else wires_differ xs ys)"

fun bundles_differ :: "wires list \<Rightarrow> wires list \<Rightarrow> bool result" where
  "bundles_differ (a # as) (b # bs) = res_bind (wires_differ a b) (\<lambda>d. if d then Inr True else bundles_differ as bs)"
| "bundles_differ _ _ = Inr False"

definition circuit_differs :: "BetaCircuit \<Rightarrow> BetaCircuit \<Rightarrow> bool result" where
  "circuit_differs l r =
     (if mWireCount l \<noteq> mWireCount r \<or> mGates l \<noteq> mGates r \<or> length (mPrints l) \<noteq> length (mPrints r)
         \<or> (\<exists>(p, q)\<in>set (zip (mPrints l) (mPrints r)). print_differs p q) \<or> mWireFlags l \<noteq> mWireFlags r
         \<or> mLevelCounts l \<noteq> mLevelCounts r \<or> mLevelAndCounts l \<noteq> mLevelAndCounts r
         \<or> length (mInputs l) \<noteq> length (mInputs r) then Inr True
      else res_bind (bundles_differ (mInputs l) (mInputs r)) (\<lambda>d.
        if d \<or> length (mOutputs l) \<noteq> length (mOutputs r) then Inr True else bundles_differ (mOutputs l) (mOutputs r)))"

text \<open>\<^verbatim>\<open>operator==\<close>, which returns \<^verbatim>\<open>*this != rhs\<close>.\<close>

definition circuit_eq :: "BetaCircuit \<Rightarrow> BetaCircuit \<Rightarrow> bool result" where
  "circuit_eq l r = circuit_differs l r"

end
