(* ===== verification/CircuitSem.thy ===== *)
theory CircuitSem
  imports Circuit
begin

text \<open>
  The semantics of circuits under construction: \<open>cval\<close> is the value of a wire for given inputs, flags included. Every
  construction step assigns one wire (\<open>assigns\<close>) and keeps the circuit well formed, and \<^verbatim>\<open>evaluate\<close> computes \<open>cval\<close>.
\<close>

section \<open>Gates\<close>

lemma GateEval_simps [simp]:
  "GateEval G_Zero a b = False" "GateEval G_Nor a b = (\<not> (a \<or> b))" "GateEval G_nb_And a b = (a \<and> \<not> b)" "GateEval G_nb a b = (\<not> b)"
  "GateEval G_na_And a b = (\<not> a \<and> b)" "GateEval G_na a b = (\<not> a)" "GateEval G_Xor a b = (a \<noteq> b)" "GateEval G_Nand a b = (\<not> (a \<and> b))"
  "GateEval G_And a b = (a \<and> b)" "GateEval G_Nxor a b = (a = b)" "GateEval G_a a b = a" "GateEval G_nb_Or a b = (a \<or> \<not> b)"
  "GateEval G_b a b = b" "GateEval G_na_Or a b = (\<not> a \<or> b)" "GateEval G_Or a b = (a \<or> b)" "GateEval G_One a b = True"
  by (cases a; cases b; simp add: GateEval_def)+

lemma invertInputWire_ok:
  "\<exists>gt'. invertInputWire 0 gt = Inr gt' \<and> (\<forall>a b. GateEval gt' a b = GateEval gt (\<not> a) b) \<and> (gt' \<in> set unary_gates \<longleftrightarrow> gt \<in> set unary_gates)"
  "\<exists>gt'. invertInputWire 1 gt = Inr gt' \<and> (\<forall>a b. GateEval gt' a b = GateEval gt a (\<not> b)) \<and> (gt' \<in> set unary_gates \<longleftrightarrow> gt \<in> set unary_gates)"
  by (cases gt; auto simp: invertInputWire_def GateType_of_def gate_types_def unary_gates_def)+

lemma subgate_a_ok:
  "subgate_a gt v \<in> {0, 1, 2, 3}"
  "subgate_a gt v = 0 \<Longrightarrow> GateEval gt v x = False" "subgate_a gt v = 1 \<Longrightarrow> GateEval gt v x = (\<not> x)"
  "subgate_a gt v = 2 \<Longrightarrow> GateEval gt v x = x" "subgate_a gt v = 3 \<Longrightarrow> GateEval gt v x = True"
  by (cases gt; cases v; simp add: subgate_a_def)+

lemma subgate_b_ok:
  "subgate_b gt v \<in> {0, 1, 2, 3}"
  "subgate_b gt v = 0 \<Longrightarrow> GateEval gt x v = False" "subgate_b gt v = 1 \<Longrightarrow> GateEval gt x v = (\<not> x)"
  "subgate_b gt v = 2 \<Longrightarrow> GateEval gt x v = x" "subgate_b gt v = 3 \<Longrightarrow> GateEval gt x v = True"
  by (cases gt; cases v; simp add: subgate_b_def)+

section \<open>The value of a wire\<close>

fun flag_val :: "BetaWireFlag \<Rightarrow> bool \<Rightarrow> bool" where
  "flag_val F_Zero b = False" | "flag_val F_One b = True" | "flag_val F_InvWire b = (\<not> b)"
| "flag_val F_Wire b = b" | "flag_val F_Uninitialized b = b"

definition gate_fun :: "BetaGate \<Rightarrow> (wire \<Rightarrow> bool) \<Rightarrow> wire \<Rightarrow> bool" where
  "gate_fun g v = v(mOutput g := (if mType g = G_a then v (mInput0 g) else GateEval (mType g) (v (mInput0 g)) (v (mInput1 g))))"

definition cval :: "BetaCircuit \<Rightarrow> (wire \<Rightarrow> bool) \<Rightarrow> wire \<Rightarrow> bool" where
  "cval cd m w = flag_val (flag cd w) (fold gate_fun (mGates cd) m w)"

definition gate_ok :: "nat \<Rightarrow> BetaGate \<Rightarrow> bool" where
  "gate_ok n g \<longleftrightarrow> mInput0 g < n \<and> mOutput g < n
     \<and> (if mType g = G_a then mInput1 g = 1 else mType g \<notin> set unary_gates \<and> mInput1 g < n)"

definition circuit_ok :: "BetaCircuit \<Rightarrow> bool" where
  "circuit_ok cd \<longleftrightarrow> length (mWireFlags cd) = mWireCount cd \<and> (\<forall>g\<in>set (mGates cd). gate_ok (mWireCount cd) g)"

definition assigned :: "BetaCircuit \<Rightarrow> wire \<Rightarrow> bool" where
  "assigned cd w \<longleftrightarrow> flag cd w \<noteq> F_Uninitialized"

definition same_frame :: "BetaCircuit \<Rightarrow> BetaCircuit \<Rightarrow> bool" where
  "same_frame cd cd' \<longleftrightarrow> mWireCount cd' = mWireCount cd \<and> mInputs cd' = mInputs cd \<and> mOutputs cd' = mOutputs cd
     \<and> mLevelCounts cd' = mLevelCounts cd \<and> mPrints cd' = mPrints cd"

definition assigns :: "BetaCircuit \<Rightarrow> BetaCircuit \<Rightarrow> wire \<Rightarrow> ((wire \<Rightarrow> bool) \<Rightarrow> bool) \<Rightarrow> bool" where
  "assigns cd cd' w e \<longleftrightarrow> circuit_ok cd' \<and> same_frame cd cd' \<and> (\<forall>m. cval cd' m = (cval cd m)(w := e (cval cd m)))
     \<and> (\<forall>x. assigned cd' x \<longleftrightarrow> assigned cd x \<or> x = w)"

lemma assigned_lt: "circuit_ok cd \<Longrightarrow> assigned cd w \<Longrightarrow> w < mWireCount cd"
  by (auto simp: assigned_def flag_def circuit_ok_def split: if_splits)

lemma assigns_trans:
  assumes "assigns cd cd' w e" "assigns cd' cd'' w e'"
  shows "assigns cd cd'' w (\<lambda>v. e' (v(w := e v)))"
  using assms by (auto simp: assigns_def same_frame_def)

lemma flag_update:
  "w < length (mWireFlags cd) \<Longrightarrow> flag (cd\<lparr>mWireFlags := (mWireFlags cd)[w := f]\<rparr>) x = (if x = w then f else flag cd x)"
  by (simp add: flag_def nth_list_update)

lemma flag_frame [simp]:
  "flag (cd\<lparr>mGates := gs\<rparr>) x = flag cd x" "flag (cd\<lparr>mNonlinearGateCount := n\<rparr>) x = flag cd x"
  by (simp_all add: flag_def)

lemma addConst_ok:
  assumes "circuit_ok cd" "w < mWireCount cd"
  shows "\<exists>cd'. addConst w val cd = Inr cd' \<and> assigns cd cd' w (\<lambda>_. val)"
  using assms by (auto simp: addConst_def set_flag_def assigns_def same_frame_def circuit_ok_def flag_update cval_def assigned_def fun_eq_iff)

lemma addInvert_ok:
  assumes "circuit_ok cd" "assigned cd w"
  shows "\<exists>cd'. addInvert w cd = Inr cd' \<and> assigns cd cd' w (\<lambda>v. \<not> v w)"
proof -
  have w: "w < length (mWireFlags cd)" using assigned_lt [OF assms] assms(1) by (simp add: circuit_ok_def)
  show ?thesis using assms w
    by (cases "flag cd w")
      (auto simp: addInvert_def set_flag_def assigns_def same_frame_def circuit_ok_def flag_update cval_def assigned_def fun_eq_iff)
qed

lemma addCopy_ok:
  assumes "circuit_ok cd" "assigned cd src" "dest < mWireCount cd"
  shows "\<exists>cd'. addCopy src dest cd = Inr cd' \<and> assigns cd cd' dest (\<lambda>v. v src)"
proof -
  have w: "src < length (mWireFlags cd)" using assigned_lt [OF assms(1,2)] assms(1) by (simp add: circuit_ok_def)
  let ?cd = "cd\<lparr>mGates := mGates cd @ [\<lparr>mInput0 = src, mInput1 = 1, mOutput = dest, mType = G_a\<rparr>],
    mWireFlags := (mWireFlags cd)[dest := flag cd src]\<rparr>"
  have "flag ?cd x = (if x = dest then flag cd src else flag cd x)" for x
    using assms by (simp add: flag_def nth_list_update circuit_ok_def)
  then have "assigns cd ?cd dest (\<lambda>v. v src)" using assms w
    by (auto simp: assigns_def same_frame_def circuit_ok_def cval_def assigned_def gate_fun_def fun_eq_iff gate_ok_def)
  with assms w show ?thesis by (simp add: addCopy_def set_flag_def circuit_ok_def)
qed

lemma emplace_ok:
  assumes "circuit_ok cd" "assigned cd a" "assigned cd b" "out < mWireCount cd" "gt \<notin> set unary_gates"
    and "\<forall>x y. GateEval gt x y = GateEval gt0 (x \<noteq> isInvert cd a) (y \<noteq> isInvert cd b)" "\<not> isConst cd a" "\<not> isConst cd b"
  shows "assigns cd (cd\<lparr>mNonlinearGateCount := k, mGates := mGates cd @ [\<lparr>mInput0 = a, mInput1 = b, mOutput = out, mType = gt\<rparr>],
      mWireFlags := (mWireFlags cd)[out := F_Wire]\<rparr>) out (\<lambda>v. GateEval gt0 (v a) (v b))" (is "assigns cd ?cd _ _")
proof -
  have f: "flag ?cd x = (if x = out then F_Wire else flag cd x)" for x
    using assms by (simp add: flag_def nth_list_update circuit_ok_def)
  have v: "cval cd m x = (fold gate_fun (mGates cd) m x \<noteq> isInvert cd x)" if "assigned cd x" "\<not> isConst cd x" for m x
    using that by (cases "flag cd x") (simp_all add: cval_def isInvert_def isConst_def assigned_def)
  have ga: "gt \<noteq> G_a" using assms(5) by (auto simp: unary_gates_def)
  have "cval ?cd m = (cval cd m)(out := GateEval gt0 (cval cd m a) (cval cd m b))" for m
    using assms v [OF assms(2,7)] v [OF assms(3,8)] ga by (auto simp: cval_def f gate_fun_def fun_eq_iff)
  then show ?thesis using assms f ga assigned_lt [OF assms(1,2)] assigned_lt [OF assms(1,3)]
    by (auto simp: assigns_def same_frame_def circuit_ok_def gate_ok_def assigned_def)
qed

lemma addGate_ok:
  assumes "circuit_ok cd" "assigned cd a" "assigned cd b" "out < mWireCount cd" "gt \<notin> set unary_gates"
  shows "\<exists>cd'. addGate a b gt out cd = Inr cd' \<and> assigns cd cd' out (\<lambda>v. GateEval gt (v a) (v b))"
proof -
  have cv: "constVal cd x = Inr (flag cd x = F_One)" "cval cd m x = (flag cd x = F_One)" if "isConst cd x" for x m
    using that by (cases "flag cd x"; simp add: constVal_def isConst_def cval_def)+
  have lt: "a < mWireCount cd" "b < mWireCount cd" using assigned_lt assms by auto
  have unary: "\<exists>cd'. (if s = 0 then addConst out False cd
              else if s = 1 then res_bind (addCopy w out cd) (addInvert out)
              else if s = 2 then addCopy w out cd
              else if s = 3 then addConst out True cd
              else Inl (Runtime_error ''LOCATION'')) = Inr cd' \<and> assigns cd cd' out (\<lambda>v. GateEval gt (v a) (v b))"
    if s: "s \<in> {0, 1, 2, 3 :: u8}" and w: "assigned cd w"
      and g: "\<And>v. s = 0 \<Longrightarrow> P v \<Longrightarrow> GateEval gt (v a) (v b) = False" "\<And>v. s = 1 \<Longrightarrow> P v \<Longrightarrow> GateEval gt (v a) (v b) = (\<not> v w)"
        "\<And>v. s = 2 \<Longrightarrow> P v \<Longrightarrow> GateEval gt (v a) (v b) = v w" "\<And>v. s = 3 \<Longrightarrow> P v \<Longrightarrow> GateEval gt (v a) (v b) = True"
      and P: "\<And>m. P (cval cd m)" for s w P
  proof -
    obtain c1 where c1: "addCopy w out cd = Inr c1" "assigns cd c1 out (\<lambda>v. v w)" using addCopy_ok [OF assms(1) w assms(4)] by auto
    from c1(2) have "circuit_ok c1" "assigned c1 out" by (auto simp: assigns_def)
    from addInvert_ok [OF this] obtain c2 where c2: "addInvert out c1 = Inr c2" "assigns c1 c2 out (\<lambda>v. \<not> v out)" by auto
    have c3: "assigns cd c2 out (\<lambda>v. \<not> v w)" using assigns_trans [OF c1(2) c2(2)] by simp
    have cong: "assigns cd c out e \<Longrightarrow> (\<And>v. P v \<Longrightarrow> e v = GateEval gt (v a) (v b)) \<Longrightarrow> assigns cd c out (\<lambda>v. GateEval gt (v a) (v b))" for c e
      using P by (simp add: assigns_def)
    from addConst_ok [OF assms(1,4), of False] addConst_ok [OF assms(1,4), of True] obtain d e where
      d: "addConst out False cd = Inr d" "assigns cd d out (\<lambda>_. False)" and e: "addConst out True cd = Inr e" "assigns cd e out (\<lambda>_. True)" by auto
    from s consider "s = 0" | "s = 1" | "s = 2" | "s = 3" by auto
    then show ?thesis
    proof cases
      case 1 with d cong [OF d(2)] g show ?thesis by simp
    next
      case 2 with c1 c2 cong [OF c3] g show ?thesis by simp
    next
      case 3 with c1 cong [OF c1(2)] g show ?thesis by simp
    next
      case 4 with e cong [OF e(2)] g show ?thesis by simp
    qed
  qed
  have pre: "\<not> (mWireCount cd \<le> a \<or> flag cd a = F_Uninitialized)" "\<not> (mWireCount cd \<le> b \<or> flag cd b = F_Uninitialized)"
    "\<not> mWireCount cd \<le> out" using lt assms by (auto simp: assigned_def)
  consider "isConst cd a" "isConst cd b" | "\<not> isConst cd a" "isConst cd b" | "isConst cd a" "\<not> isConst cd b"
    | "\<not> isConst cd a" "\<not> isConst cd b" by blast
  then show ?thesis
  proof cases
    case 1
    from addConst_ok [OF assms(1,4)] obtain d where d: "addConst out (GateEval gt (flag cd a = F_One) (flag cd b = F_One)) cd = Inr d"
      "assigns cd d out (\<lambda>_. GateEval gt (flag cd a = F_One) (flag cd b = F_One))" by blast
    with 1 pre assms(5) show ?thesis by (simp add: addGate_def cv assigns_def)
  next
    case 2
    let ?v = "flag cd b = F_One"
    have "\<exists>cd'. (if subgate_b gt ?v = 0 then addConst out False cd
              else if subgate_b gt ?v = 1 then res_bind (addCopy a out cd) (addInvert out)
              else if subgate_b gt ?v = 2 then addCopy a out cd
              else if subgate_b gt ?v = 3 then addConst out True cd
              else Inl (Runtime_error ''LOCATION'')) = Inr cd' \<and> assigns cd cd' out (\<lambda>v. GateEval gt (v a) (v b))"
      by (rule unary [where P = "\<lambda>v. v b = ?v"]) (use subgate_b_ok [of gt ?v] assms(2) cv(2) [OF 2(2)] in auto)
    with 2 pre assms(5) cv(1) [OF 2(2)] show ?thesis
      by (simp add: addGate_def Let_def del: ex_simps split del: if_split)
  next
    case 3
    let ?v = "flag cd a = F_One"
    have "\<exists>cd'. (if subgate_a gt ?v = 0 then addConst out False cd
              else if subgate_a gt ?v = 1 then res_bind (addCopy b out cd) (addInvert out)
              else if subgate_a gt ?v = 2 then addCopy b out cd
              else if subgate_a gt ?v = 3 then addConst out True cd
              else Inl (Runtime_error ''LOCATION'')) = Inr cd' \<and> assigns cd cd' out (\<lambda>v. GateEval gt (v a) (v b))"
      by (rule unary [where P = "\<lambda>v. v a = ?v"]) (use subgate_a_ok [of gt ?v] assms(3) cv(2) [OF 3(1)] in auto)
    with 3 pre assms(5) cv(1) [OF 3(1)] show ?thesis
      by (simp add: addGate_def Let_def del: ex_simps split del: if_split)
  next
    case 4
    obtain g1 where g1: "(if isInvert cd a then invertInputWire 0 gt else Inr gt) = Inr g1"
      "\<forall>x y. GateEval g1 x y = GateEval gt (x \<noteq> isInvert cd a) y" "g1 \<notin> set unary_gates"
      using invertInputWire_ok(1) [of gt] assms(5) by (cases "isInvert cd a") auto
    obtain g2 where g2: "(if isInvert cd b then invertInputWire 1 g1 else Inr g1) = Inr g2"
      "\<forall>x y. GateEval g2 x y = GateEval g1 x (y \<noteq> isInvert cd b)" "g2 \<notin> set unary_gates"
      using invertInputWire_ok(2) [of g1] g1(3) by (cases "isInvert cd b") auto
    have "\<forall>x y. GateEval g2 x y = GateEval gt (x \<noteq> isInvert cd a) (y \<noteq> isInvert cd b)" using g1 g2 by simp
    note em = emplace_ok [OF assms(1-4) g2(3) this 4]
    have len: "out < length (mWireFlags cd)" using assms by (simp add: circuit_ok_def)
    show ?thesis
      using 4 pre assms(5) g1(1) g2(1) len em [of "mNonlinearGateCount cd + 1"] em [of "mNonlinearGateCount cd"]
      unfolding addGate_def by (simp add: Let_def set_flag_def)
  qed
qed

section \<open>New wires\<close>

text \<open>A circuit whose construction went on, with the same interface.\<close>

definition extends :: "BetaCircuit \<Rightarrow> BetaCircuit \<Rightarrow> bool" where
  "extends cd cd' \<longleftrightarrow> circuit_ok cd' \<and> mWireCount cd \<le> mWireCount cd' \<and> mInputs cd' = mInputs cd \<and> mOutputs cd' = mOutputs cd
     \<and> mLevelCounts cd' = mLevelCounts cd \<and> mPrints cd' = mPrints cd"

lemma extends_refl [simp]: "circuit_ok cd \<Longrightarrow> extends cd cd"
  by (simp add: extends_def)

lemma extends_trans [trans]: "extends a b \<Longrightarrow> extends b c \<Longrightarrow> extends a c"
  by (auto simp: extends_def)

lemma extends_ok [dest]: "extends a b \<Longrightarrow> circuit_ok b"
  by (simp add: extends_def)

lemma assigns_extends: "assigns cd cd' w e \<Longrightarrow> extends cd cd'"
  by (simp add: extends_def assigns_def same_frame_def)

lemma assigns_count: "assigns cd cd' w e \<Longrightarrow> mWireCount cd' = mWireCount cd"
  by (simp add: assigns_def same_frame_def)

lemma assigns_val: "assigns cd cd' w e \<Longrightarrow> cval cd' m = (cval cd m)(w := e (cval cd m))"
  by (simp add: assigns_def)

lemma assigns_assigned: "assigns cd cd' w e \<Longrightarrow> assigned cd' x \<longleftrightarrow> assigned cd x \<or> x = w"
  by (simp add: assigns_def)

lemma gate_ok_mono: "gate_ok n g \<Longrightarrow> n \<le> k \<Longrightarrow> gate_ok k g"
  by (auto simp: gate_ok_def split: if_splits)

lemma new_wires_ok:
  assumes "circuit_ok cd" "new_wires fl n cd = (b, cd')" "fl = F_Wire \<or> fl = F_Uninitialized"
  shows "extends cd cd'" "mWireCount cd' = mWireCount cd + n" "b = [mWireCount cd..<mWireCount cd + n]" "cval cd' m = cval cd m"
    "assigned cd' w \<longleftrightarrow> assigned cd w \<or> fl = F_Wire \<and> w \<in> set b"
proof -
  have c: "cd' = cd\<lparr>mWireCount := mWireCount cd + n, mWireFlags := mWireFlags cd @ replicate n fl\<rparr>"
    "b = [mWireCount cd..<mWireCount cd + n]"
    using assms by (auto simp: new_wires_def resize_list_def circuit_ok_def)
  have l: "length (mWireFlags cd) = mWireCount cd" using assms(1) by (simp add: circuit_ok_def)
  have f: "flag cd' w = (if w < mWireCount cd then flag cd w else if w < mWireCount cd + n then fl else F_Uninitialized)" for w
    using l by (simp add: c(1) flag_def nth_append)
  have gs: "mGates cd' = mGates cd" and b: "b = [mWireCount cd..<mWireCount cd + n]" by (simp_all add: c)
  have "flag cd w = F_Uninitialized" if "\<not> w < mWireCount cd" for w using that l by (simp add: flag_def)
  then show "cval cd' m = cval cd m" "assigned cd' w \<longleftrightarrow> assigned cd w \<or> fl = F_Wire \<and> w \<in> set b"
    using assms(3) gs f [of w] f by (auto simp: cval_def fun_eq_iff b assigned_def)
  show "extends cd cd'" using assms(1) by (auto simp: c(1) extends_def circuit_ok_def intro: gate_ok_mono)
  show "mWireCount cd' = mWireCount cd + n" "b = [mWireCount cd..<mWireCount cd + n]" by (simp_all add: c)
qed

lemma addTempWireBundle_ok:
  assumes "circuit_ok cd" "addTempWireBundle b0 cd = (b, cd')"
  shows "extends cd cd'" "mWireCount cd' = mWireCount cd + length b0" "b = [mWireCount cd..<mWireCount cd + length b0]"
    "cval cd' m = cval cd m" "assigned cd' w \<longleftrightarrow> assigned cd w"
  using new_wires_ok [OF assms(1), of F_Uninitialized "length b0" b cd'] assms(2) by (simp_all add: addTempWireBundle_def)

lemma addTempWire_eq: "addTempWire cd = map_prod hd id (new_wires F_Uninitialized 1 cd)"
  by (simp add: addTempWire_def new_wires_def)

lemma addTempWire_ok:
  assumes "circuit_ok cd" "addTempWire cd = (w, cd')"
  shows "extends cd cd'" "mWireCount cd' = mWireCount cd + 1" "w = mWireCount cd" "cval cd' m = cval cd m" "assigned cd' x \<longleftrightarrow> assigned cd x"
proof -
  obtain b where b: "new_wires F_Uninitialized 1 cd = (b, cd')" using assms(2) by (cases "new_wires F_Uninitialized 1 cd") (auto simp: addTempWire_eq)
  note n = new_wires_ok [OF assms(1) b]
  show "extends cd cd'" "mWireCount cd' = mWireCount cd + 1" "w = mWireCount cd" "cval cd' m = cval cd m" "assigned cd' x \<longleftrightarrow> assigned cd x"
    using n assms(2) by (simp_all add: addTempWire_def)
qed

lemma addConstBundle_ok:
  assumes "circuit_ok cd" "length b0 \<le> length val"
  shows "\<exists>b cd'. addConstBundle b0 val cd = Inr (b, cd') \<and> extends cd cd' \<and> b = [mWireCount cd..<mWireCount cd + length b0]
    \<and> mWireCount cd' = mWireCount cd + length b0
    \<and> (\<forall>m w. cval cd' m w = (if mWireCount cd \<le> w \<and> w < mWireCount cd + length b0 then val ! (w - mWireCount cd) else cval cd m w))
    \<and> (\<forall>w. assigned cd' w \<longleftrightarrow> assigned cd w \<or> w \<in> set b)"
proof -
  let ?n = "length b0" let ?k = "mWireCount cd"
  obtain b c0 where nw: "new_wires F_Wire ?n cd = (b, c0)" by fastforce
  note n = new_wires_ok [OF assms(1) nw]
  let ?f = "\<lambda>i c. c\<lparr>mWireFlags := (mWireFlags c)[b ! i := if val ! i then F_One else F_Zero]\<rparr>"
  have b: "b = [?k..<?k + ?n]" using n by simp
  have flags: "mWireFlags (fold ?f [0..<j] c0) = map (\<lambda>w. if ?k \<le> w \<and> w < ?k + j then (if val ! (w - ?k) then F_One else F_Zero) else mWireFlags c0 ! w) [0..<?k + ?n]
      \<and> mGates (fold ?f [0..<j] c0) = mGates c0 \<and> mWireCount (fold ?f [0..<j] c0) = mWireCount c0 \<and> mInputs (fold ?f [0..<j] c0) = mInputs c0
      \<and> mOutputs (fold ?f [0..<j] c0) = mOutputs c0 \<and> mLevelCounts (fold ?f [0..<j] c0) = mLevelCounts c0 \<and> mPrints (fold ?f [0..<j] c0) = mPrints c0"
    if "j \<le> ?n" for j
    using that
  proof (induction j)
    case 0
    have "length (mWireFlags c0) = ?k + ?n" using n by (auto simp: extends_def circuit_ok_def)
    then show ?case by (auto intro!: nth_equalityI)
  next
    case (Suc j)
    then show ?case by (auto simp: b nth_list_update intro!: nth_equalityI)
  qed
  define C where "C = fold ?f [0..<?n] c0"
  note fl = flags [OF order_refl, folded C_def]
  have f: "flag C w = (if ?k \<le> w \<and> w < ?k + ?n then (if val ! (w - ?k) then F_One else F_Zero) else flag c0 w)" for w
    using n by (auto simp: flag_def fl extends_def circuit_ok_def)
  have v: "cval C m w = (if ?k \<le> w \<and> w < ?k + ?n then val ! (w - ?k) else cval cd m w)" for m w
    using n(4) [of m] f by (auto simp: cval_def fl fun_eq_iff)
  have e: "extends cd C" using n(1) fl by (auto simp: extends_def circuit_ok_def n(2))
  have a: "assigned C w \<longleftrightarrow> assigned cd w \<or> w \<in> set b" for w using n(5) [of w] f [of w] by (auto simp: assigned_def b)
  show ?thesis
    using nw assms(2) v e a n(2) fl b by (auto simp: addConstBundle_def C_def)
qed

section \<open>Loops\<close>

fun res_fold :: "('a \<Rightarrow> 's \<Rightarrow> 's result) \<Rightarrow> 'a list \<Rightarrow> 's \<Rightarrow> 's result" where
  "res_fold f [] s = Inr s"
| "res_fold f (x # xs) s = res_bind (f x s) (res_fold f xs)"

lemma res_fold_append: "res_fold f (xs @ ys) s = res_bind (res_fold f xs s) (res_fold f ys)"
  by (induction xs arbitrary: s) (auto simp: res_bind_def split: sum.splits)

text \<open>The rule for counted loops.\<close>

lemma res_fold_upt:
  assumes "I 0 s" "\<And>i s. i < n \<Longrightarrow> I i s \<Longrightarrow> \<exists>s'. f i s = Inr s' \<and> I (Suc i) s'"
  shows "\<exists>s'. res_fold f [0..<n] s = Inr s' \<and> I n s'"
proof -
  have "\<exists>s'. res_fold f [0..<k] s = Inr s' \<and> I k s'" if "k \<le> n" for k
    using that
  proof (induction k)
    case (Suc k)
    then show ?case using assms(2) [of k] by (fastforce simp: res_fold_append)
  qed (simp add: assms(1))
  then show ?thesis by simp
qed

section \<open>Evaluation\<close>

definition mem_fn :: "bool list \<Rightarrow> wire \<Rightarrow> bool" where
  "mem_fn m w \<longleftrightarrow> w < length m \<and> m ! w"

lemma mem_fn_nth: "w < length m \<Longrightarrow> m ! w = mem_fn m w"
  by (simp add: mem_fn_def)

lemma mem_fn_update: "w < length m \<Longrightarrow> mem_fn (m[w := v]) = (mem_fn m)(w := v)"
  by (auto simp: mem_fn_def fun_eq_iff nth_list_update)

text \<open>Between two gates without levels.\<close>

definition at_gate :: "nat \<Rightarrow> (wire \<Rightarrow> bool) \<Rightarrow> eval_state \<Rightarrow> bool" where
  "at_gate n v st \<longleftrightarrow> length (mem st) = n \<and> mem_fn (mem st) = v \<and> outOfDate st = replicate n False \<and> curLevelRem st = None
     \<and> printed st = []"

lemma eval_gate_ok:
  assumes "gate_ok n g" "length (mem st) = n" "outOfDate st = replicate n False"
  shows "\<exists>st'. eval_gate levelled g st = Inr st' \<and> length (mem st') = n \<and> mem_fn (mem st') = gate_fun g (mem_fn (mem st))
    \<and> outOfDate st' = (if levelled \<and> \<not> isLinear (mType g) then (replicate n False)[mOutput g := True] else replicate n False)
    \<and> curLevelRem st' = curLevelRem st \<and> levels_left st' = levels_left st \<and> printed st' = printed st \<and> prints_left st' = prints_left st"
proof (cases "mType g = G_a")
  case True
  have m: "take i2 m @ take 1 (drop i0 m) @ drop (i2 + 1) m = m[i2 := m ! i0]" if "i0 < length m" "i2 < length m" for i0 i2 and m :: "bool list"
    using that by (simp add: upd_conv_take_nth_drop take_Suc_conv_app_nth [of 0] hd_drop_conv_nth take_Suc)
  show ?thesis using assms True
    by (auto simp: eval_gate_def gate_ok_def Let_def m mem_fn_update gate_fun_def mem_fn_nth isLinear_def simp flip: One_nat_def)
next
  case False
  with assms have "mem st ! mInput0 g = mem_fn (mem st) (mInput0 g)" "mem st ! mInput1 g = mem_fn (mem st) (mInput1 g)"
    by (simp_all add: mem_fn_nth gate_ok_def)
  with assms False show ?thesis
    by (auto simp: eval_gate_def gate_ok_def Let_def mem_fn_update gate_fun_def)
qed

lemma do_prints_off [simp]: "do_prints (\<lambda>_. False) st = Inr st"
  by (cases "prints_left st") (simp_all add: do_prints_def)

lemma run_gates_ok:
  assumes "\<forall>g\<in>set gs. gate_ok n g" "at_gate n v st"
  shows "\<exists>st'. run_gates False False i gs st = Inr st' \<and> at_gate n (fold gate_fun gs v) st'"
  using assms
proof (induction gs arbitrary: i st v)
  case (Cons g gs)
  from Cons.prems eval_gate_ok [of n g st False] obtain s1 where
    s1: "eval_gate False g st = Inr s1" "at_gate n (gate_fun g v) s1" by (auto simp: at_gate_def)
  with Cons.IH [of "gate_fun g v" s1 "i + 1"] Cons.prems(1) show ?case
    by (simp add: next_level_def at_gate_def)
qed simp

definition load_inputs :: "BetaCircuit \<Rightarrow> bool list list \<Rightarrow> wire \<Rightarrow> bool" where
  "load_inputs cd input = fold (\<lambda>(w, v) m. m(w := v)) (zip (concat (mInputs cd)) (concat input)) (\<lambda>_. False)"

lemma load_inputs_mem:
  assumes "\<forall>(w, v)\<in>set ps. w < length m"
  shows "mem_fn (fold (\<lambda>(w, v) m. m[w := v]) ps m) = fold (\<lambda>(w, v) m. m(w := v)) ps (mem_fn m) \<and> length (fold (\<lambda>(w, v) m. m[w := v]) ps m) = length m"
  using assms by (induction ps arbitrary: m) (auto simp: mem_fn_update)

lemma evaluate_run:
  assumes ok: "circuit_ok cd" and input: "map length input = map length (mInputs cd)"
    and wires: "\<forall>w\<in>set (concat (mInputs cd)). w < mWireCount cd" "\<forall>w\<in>set (concat (mOutputs cd)). w < mWireCount cd"
    and run: "\<And>st. at_gate (mWireCount cd) (load_inputs cd input) (st\<lparr>curLevelRem := None\<rparr>) \<Longrightarrow> levels_left st = tl (mLevelCounts cd)
      \<Longrightarrow> curLevelRem st = (if mLevelCounts cd = [] then None else Some (hd (mLevelCounts cd)))
      \<Longrightarrow> \<exists>st'. run_gates (mLevelCounts cd \<noteq> []) False 0 (mGates cd) st = Inr st' \<and> length (mem st') = mWireCount cd
        \<and> mem_fn (mem st') = fold gate_fun (mGates cd) (load_inputs cd input) \<and> printed st' = []"
  shows "evaluate cd input (map length (mOutputs cd)) False = Inr ([], map (map (cval cd (load_inputs cd input))) (mOutputs cd))"
proof -
  let ?ps = "zip (concat (mInputs cd)) (concat input)"
  let ?m = "fold (\<lambda>(w, v) m. m[w := v]) ?ps (replicate (mWireCount cd) False)"
  let ?st = "\<lparr>mem = ?m, outOfDate = replicate (mWireCount cd) False, prints_left = mPrints cd, levels_left = tl (mLevelCounts cd),
    curLevelRem = (if mLevelCounts cd = [] then None else Some (hd (mLevelCounts cd))), printed = []\<rparr>"
  have "\<forall>(w, v)\<in>set ?ps. w < mWireCount cd" using wires(1) by (fastforce dest!: set_zip_leftD)
  with load_inputs_mem [of ?ps "replicate (mWireCount cd) False"]
  have m: "mem_fn ?m = load_inputs cd input" "length ?m = mWireCount cd"
    by (auto simp: load_inputs_def mem_fn_def [abs_def] cong: conj_cong)
  then have "at_gate (mWireCount cd) (load_inputs cd input) (?st\<lparr>curLevelRem := None\<rparr>)" by (simp add: at_gate_def)
  from run [OF this] obtain st' where st': "run_gates (mLevelCounts cd \<noteq> []) False 0 (mGates cd) ?st = Inr st'"
    "length (mem st') = mWireCount cd" "mem_fn (mem st') = fold gate_fun (mGates cd) (load_inputs cd input)" "printed st' = []" by auto
  have out: "read_output cd (mem st') w = Inr (cval cd (load_inputs cd input) w)" if "w < mWireCount cd" for w
    using st'(2,3) that ok
    by (cases "flag cd w") (auto simp: read_output_def circuit_ok_def cval_def isConst_def isInvert_def constVal_def mem_fn_nth)
  have "res_map (res_map (read_output cd (mem st'))) (mOutputs cd) = Inr (map (map (cval cd (load_inputs cd input))) (mOutputs cd))"
    by (intro res_map_Inr ballI res_map_Inr) (use out wires(2) in auto)
  moreover have "length input = length (mInputs cd)" using arg_cong [OF input, of length] by simp
  ultimately show ?thesis using input wires st' by (auto simp: evaluate_def Let_def not_le)
qed

lemma evaluate_ok:
  assumes "circuit_ok cd" "mLevelCounts cd = []" "map length input = map length (mInputs cd)"
    and "\<forall>w\<in>set (concat (mInputs cd)). w < mWireCount cd" "\<forall>w\<in>set (concat (mOutputs cd)). w < mWireCount cd"
  shows "evaluate cd input (map length (mOutputs cd)) False = Inr ([], map (map (cval cd (load_inputs cd input))) (mOutputs cd))"
proof (rule evaluate_run [OF assms(1,3,4,5)])
  fix st :: eval_state
  assume a: "at_gate (mWireCount cd) (load_inputs cd input) (st\<lparr>curLevelRem := None\<rparr>)"
    "curLevelRem st = (if mLevelCounts cd = [] then None else Some (hd (mLevelCounts cd)))"
  have "at_gate (mWireCount cd) (load_inputs cd input) st" using a assms(2) by (simp add: at_gate_def)
  from run_gates_ok [OF _ this, of "mGates cd" 0] assms(1,2)
  show "\<exists>st'. run_gates (mLevelCounts cd \<noteq> []) False 0 (mGates cd) st = Inr st' \<and> length (mem st') = mWireCount cd
      \<and> mem_fn (mem st') = fold gate_fun (mGates cd) (load_inputs cd input) \<and> printed st' = []"
    by (auto simp: circuit_ok_def at_gate_def)
qed

end
