(* ===== verification/CircuitLib.thy ===== *)
theory CircuitLib
  imports CircuitSem
begin

text \<open>
  \<^verbatim>\<open>cryptoTools/Circuit/BetaLibrary.cpp\<close>: circuits for arithmetic, comparison and selection on bundles of wires. Bundles are
  passed with their wires; wires that a builder adds are taken from the counter. A vector access outside its range is
  \<open>out_of_range\<close>.
\<close>

section \<open>Code: adders\<close>

datatype IntType = TwosComplement | Unsigned
datatype AdderType = Addition | Subtraction
datatype Optimized = Opt_Size | Opt_Depth

definition vec_at :: "'a list \<Rightarrow> nat \<Rightarrow> 'a result" where
  "vec_at xs i = (if i < length xs then Inr (xs ! i) else Inl out_of_range)"

definition areDistint :: "BetaCircuit \<Rightarrow> wires \<Rightarrow> wires \<Rightarrow> bool" where
  "areDistint cd a1 a2 \<longleftrightarrow> (\<forall>w\<in>set a1. isConst cd w \<or> w \<notin> set a2)"

text \<open>The lambda \<^verbatim>\<open>getBit\<close> of the ripple adder; an index into an empty two's complement bundle wraps.\<close>

definition operandBit :: "IntType \<Rightarrow> wire \<Rightarrow> wires \<Rightarrow> nat \<Rightarrow> wire result" where
  "operandBit it zero b i =
     (if it = TwosComplement then vec_at b (if b = [] then i else min i (length b - 1))
      else if i < length b then Inr (b ! i) else Inr zero)"

definition ripple_step :: "(nat \<Rightarrow> wire result) \<Rightarrow> (nat \<Rightarrow> wire result) \<Rightarrow> (nat \<Rightarrow> wire result) \<Rightarrow> wires
    \<Rightarrow> wire \<Rightarrow> wire \<Rightarrow> wire \<Rightarrow> wire \<Rightarrow> GateType \<Rightarrow> nat \<Rightarrow> BetaCircuit \<Rightarrow> BetaCircuit result" where
  "ripple_step x y z out c t0 t1 zero G i cd =
     res_bind (x i) (\<lambda>xi. res_bind (y i) (\<lambda>yi. res_bind (z i) (\<lambda>zi.
     res_bind (if xi = zero \<and> yi = zero then addConst t0 False cd else addGate xi yi G_Xor t0 cd) (\<lambda>cd.
     res_bind (if out ! i \<noteq> no_wire then addGate t0 zi G_Xor (out ! i) cd else Inr cd) (\<lambda>cd.
     if i \<noteq> length out - 1 then
       res_bind (addGate xi zi G_Xor t1 cd) (\<lambda>cd.
       res_bind (addGate t0 t1 G t0 cd) (\<lambda>cd.
       addGate t0 xi G_Xor c cd))
     else Inr cd)))))"

definition rippleAdder_build :: "wires \<Rightarrow> wires \<Rightarrow> wires \<Rightarrow> wires \<Rightarrow> IntType \<Rightarrow> AdderType \<Rightarrow> BetaCircuit \<Rightarrow> BetaCircuit result" where
  "rippleAdder_build a1 a2 out temps it at cd =
     (if \<not> areDistint cd a2 out \<or> \<not> areDistint cd a1 out then Inl (Runtime_error ''must be distinct '')
      else case temps of
        c # t0 # t1 # zero # _ \<Rightarrow>
          res_bind (addConst c False cd) (\<lambda>cd. res_bind (addConst zero False cd) (\<lambda>cd.
          let x = (if at = Addition then replicate (length out) c else a1);
              y = a2;
              z = (if at = Addition then a1 else replicate (length out) c);
              G = (if at = Addition then G_And else G_Or)
          in res_fold (ripple_step (operandBit it zero x) (operandBit it zero y) (operandBit it zero z) out c t0 t1 zero G) [0..<length out] cd))
      | _ \<Rightarrow> Inl out_of_range)"

text \<open>The bundles of the prefix adder, extended to the size of the sum.\<close>

definition signExtendResize :: "wires \<Rightarrow> nat \<Rightarrow> wire \<Rightarrow> IntType \<Rightarrow> wires result" where
  "signExtendResize b n zero it =
     (if it = TwosComplement then
        if b = [] \<and> 0 < n then Inl (Undefined ''back of an empty vector'') else Inr (take n (b @ replicate (n - length b) (last b)))
      else Inr (take n (b @ replicate (n - length b) zero)))"

text \<open>
  The nodes of the prefix graph at a level and a position; \<open>None\<close> is the level \<^verbatim>\<open>-1\<close>. \<open>sk_level\<close> adds the nodes of one
  level of the Sklansky network, \<open>lvls\<close> are the latest levels of the positions.
\<close>

record prefix_node =
  nd_first :: bool
  nd_used :: bool
  nd_enqued :: bool
  nd_cur :: "nat option \<times> nat"
  nd_low :: "nat option \<times> nat"

type_synonym prefix_graph = "nat \<times> nat \<Rightarrow> prefix_node"

definition empty_node :: prefix_node where
  "empty_node = \<lparr>nd_first = False, nd_used = False, nd_enqued = False, nd_cur = (None, 0), nd_low = (None, 0)\<rparr>"

definition sk_level :: "nat \<Rightarrow> nat \<Rightarrow> prefix_graph \<times> (nat \<Rightarrow> nat option) \<Rightarrow> prefix_graph \<times> (nat \<Rightarrow> nat option)" where
  "sk_level sSize level gl =
     (let startPos = 2 ^ level; step = 2 ^ (level + 1) in
      fold (\<lambda>i. fold (\<lambda>curWire (graph, lvls).
          (graph((level, curWire) := (graph (level, curWire))\<lparr>nd_cur := (lvls curWire, curWire), nd_low := (lvls (i - 1), i - 1), nd_first := (i = startPos)\<rparr>),
           lvls(curWire := Some level))) [i..<min (i + startPos) sSize])
        (filter (\<lambda>i. (i - startPos) mod step = 0) [startPos..<sSize]) gl)"

text \<open>The lambda \<^verbatim>\<open>add\<close>: a node is pushed once.\<close>

definition sk_add :: "nat option \<times> nat \<Rightarrow> prefix_graph \<times> (nat \<times> nat) list \<Rightarrow> prefix_graph \<times> (nat \<times> nat) list" where
  "sk_add idx = (\<lambda>(graph, stack).
     case fst idx of
       None \<Rightarrow> (graph, stack)
     | Some lvl \<Rightarrow>
         if nd_enqued (graph (lvl, snd idx)) then (graph, stack)
         else (graph((lvl, snd idx) := (graph (lvl, snd idx))\<lparr>nd_enqued := True\<rparr>), stack @ [(lvl, snd idx)]))"

text \<open>The loop over the growing vector; every node is pushed once, so as many rounds as there are nodes are enough.\<close>

fun sk_mark :: "nat \<Rightarrow> nat \<Rightarrow> prefix_graph \<times> (nat \<times> nat) list \<Rightarrow> prefix_graph" where
  "sk_mark 0 i (graph, stack) = graph"
| "sk_mark (Suc fuel) i (graph, stack) =
     (if i < length stack then
        let (lvl, pos) = stack ! i;
            graph = graph((lvl, pos) := (graph (lvl, pos))\<lparr>nd_used := True\<rparr>);
            g = graph (lvl, pos)
        in sk_mark fuel (i + 1) (if lvl \<noteq> 0 then sk_add (nd_low g) (sk_add (nd_cur g) (graph, stack)) else (graph, stack))
      else graph)"

definition sk_graph :: "nat \<Rightarrow> nat \<Rightarrow> (nat \<Rightarrow> bool) \<Rightarrow> prefix_graph" where
  "sk_graph d sSize wanted =
     (let (graph, lvls) = fold (sk_level sSize) [0..<d] (\<lambda>_. empty_node, \<lambda>_. None);
          gs = fold (\<lambda>i gs. if wanted i then sk_add (lvls (i - 1), i - 1) gs else gs) [1..<sSize] (graph, [])
      in sk_mark (d * sSize) 0 gs)"

definition sk_combine :: "prefix_graph \<Rightarrow> nat \<Rightarrow> wires \<Rightarrow> wires \<Rightarrow> wire \<Rightarrow> nat \<Rightarrow> nat \<Rightarrow> BetaCircuit \<Rightarrow> BetaCircuit result" where
  "sk_combine graph sSize P G tempWire level i cd =
     (let g = graph (level, i); P0 = P ! snd (nd_low g); G0 = G ! snd (nd_low g); P1 = P ! snd (nd_cur g) in
      if nd_used g then
        res_bind (if snd (nd_cur g) < sSize - 1 then
            let G1 = G ! snd (nd_cur g) in
            res_bind (addGate P1 G0 G_And tempWire cd) (addGate tempWire G1 G_Xor G1)
          else Inr cd) (\<lambda>cd.
        if \<not> nd_first g then addGate P0 P1 G_And P1 cd else Inr cd)
      else Inr cd)"

definition prefix_leaf :: "wires \<Rightarrow> wires \<Rightarrow> wire \<Rightarrow> AdderType \<Rightarrow> nat \<Rightarrow> wires \<Rightarrow> wires \<Rightarrow> nat \<Rightarrow> BetaCircuit \<Rightarrow> BetaCircuit result" where
  "prefix_leaf a1 a2 zero at sSize P G i cd =
     res_bind (if a1 ! i = zero \<and> a2 ! i = zero then addConst (P ! i) False cd
               else addGate (a1 ! i) (a2 ! i) (if at = Addition then G_Xor else G_Nxor) (P ! i) cd) (\<lambda>cd.
     if i < sSize - 1 then addGate (a1 ! i) (a2 ! i) (if at = Addition then G_And else G_na_And) (G ! i) cd else Inr cd)"

definition prefix_sum :: "wires \<Rightarrow> wires \<Rightarrow> wire \<Rightarrow> wires \<Rightarrow> wires \<Rightarrow> wires \<Rightarrow> nat \<Rightarrow> BetaCircuit \<Rightarrow> BetaCircuit result" where
  "prefix_sum a1 a2 zero sums P G i cd =
     (if sums ! i \<noteq> no_wire then
        res_bind (if a1 ! i = zero \<and> a2 ! i = zero then addConst (P ! i) False cd else addGate (a1 ! i) (a2 ! i) G_Xor (P ! i) cd) (\<lambda>cd.
        addGate (P ! i) (G ! (i - 1)) G_Xor (sums ! i) cd)
      else Inr cd)"

definition parallelPrefix_build :: "wires \<Rightarrow> wires \<Rightarrow> wires \<Rightarrow> IntType \<Rightarrow> AdderType \<Rightarrow> BetaCircuit \<Rightarrow> BetaCircuit result" where
  "parallelPrefix_build a1 a2 sums it at cd =
     (let sSize = length sums in
      if \<not> areDistint cd a2 sums \<or> \<not> areDistint cd a1 sums then Inl (Runtime_error ''must be distinct'')
      else
        let (P, cd) = addTempWireBundle (BetaBundle sSize) cd;
            (G, cd) = addTempWireBundle (BetaBundle sSize) cd;
            (zero, cd) = addTempWire cd;
            (tempWire, cd) = addTempWire cd
        in res_bind (addConst zero False cd) (\<lambda>cd.
           res_bind (signExtendResize a1 sSize zero it) (\<lambda>a1.
           res_bind (signExtendResize a2 sSize zero it) (\<lambda>a2.
           if sSize = 0 then Inl out_of_range
           else
             let P = (if sums ! 0 \<noteq> no_wire then P[0 := sums ! 0] else P);
                 d = log2ceil sSize;
                 graph = sk_graph d sSize (\<lambda>i. sums ! i \<noteq> no_wire)
             in res_bind (res_fold (prefix_leaf a1 a2 zero at sSize P G) [0..<sSize] cd) (\<lambda>cd.
                res_bind (res_fold (\<lambda>level. res_fold (sk_combine graph sSize P G tempWire level) [0..<sSize]) [0..<d] cd) (\<lambda>cd.
                res_bind (addGate (a1 ! 0) (a2 ! 0) G_Xor (P ! 0) cd) (\<lambda>cd.
                res_fold (prefix_sum a1 a2 zero sums P G) [1..<sSize] cd)))))))"

text \<open>\<^verbatim>\<open>add_build\<close> and \<^verbatim>\<open>subtract_build\<close>, and both of them by the type of the operation.\<close>

definition add_build :: "Optimized \<Rightarrow> IntType \<Rightarrow> wires \<Rightarrow> wires \<Rightarrow> wires \<Rightarrow> wires \<Rightarrow> BetaCircuit \<Rightarrow> BetaCircuit result" where
  "add_build op it a1 a2 sums temps cd =
     (if op = Opt_Size then rippleAdder_build a1 a2 sums temps it Addition cd else parallelPrefix_build a1 a2 sums it Addition cd)"

definition subtract_build :: "Optimized \<Rightarrow> IntType \<Rightarrow> wires \<Rightarrow> wires \<Rightarrow> wires \<Rightarrow> wires \<Rightarrow> BetaCircuit \<Rightarrow> BetaCircuit result" where
  "subtract_build op it a1 a2 diff temps cd =
     (if op = Opt_Size then rippleAdder_build a1 a2 diff temps it Subtraction cd else parallelPrefix_build a1 a2 diff it Subtraction cd)"

definition extractBit_build :: "Optimized \<Rightarrow> IntType \<Rightarrow> AdderType \<Rightarrow> nat \<Rightarrow> wires \<Rightarrow> wires \<Rightarrow> wires \<Rightarrow> wires \<Rightarrow> BetaCircuit \<Rightarrow> BetaCircuit result" where
  "extractBit_build op it at bitIdx a1 a2 msb temps cd =
     (if length msb \<noteq> 1 then Inl (Runtime_error ''msb must be one bit'')
      else let sums = BetaBundle bitIdx @ [last msb]
           in if at = Addition then add_build op it a1 a2 sums temps cd else subtract_build op it a1 a2 sums temps cd)"

section \<open>Code: bitwise operations and selection\<close>

definition bitwise_build :: "GateType \<Rightarrow> wires \<Rightarrow> wires \<Rightarrow> wires \<Rightarrow> BetaCircuit \<Rightarrow> BetaCircuit result" where
  "bitwise_build gt a1 a2 out cd =
     (if length a1 \<noteq> length a2 then Inl (Runtime_error ''LOCATION'')
      else if length a1 < length out then Inl (Runtime_error ''LOCATION'')
      else res_fold (\<lambda>j. addGate (a1 ! j) (a2 ! j) gt (out ! j)) [0..<length out] cd)"

definition bitwiseAnd_build :: "wires \<Rightarrow> wires \<Rightarrow> wires \<Rightarrow> BetaCircuit \<Rightarrow> BetaCircuit result" where
  "bitwiseAnd_build = bitwise_build G_And"
definition bitwiseOr_build :: "wires \<Rightarrow> wires \<Rightarrow> wires \<Rightarrow> BetaCircuit \<Rightarrow> BetaCircuit result" where
  "bitwiseOr_build = bitwise_build G_Or"
definition bitwiseXor_build :: "wires \<Rightarrow> wires \<Rightarrow> wires \<Rightarrow> BetaCircuit \<Rightarrow> BetaCircuit result" where
  "bitwiseXor_build = bitwise_build G_Xor"

definition bitwiseInvert_build :: "wires \<Rightarrow> wires \<Rightarrow> BetaCircuit \<Rightarrow> BetaCircuit result" where
  "bitwiseInvert_build a1 out cd =
     res_bind (addCopyBundle a1 out cd) (res_fold (\<lambda>i. addInvert (out ! i)) [0..<length out])"

definition multiplex_step :: "wires \<Rightarrow> wires \<Rightarrow> wires \<Rightarrow> wires \<Rightarrow> wires \<Rightarrow> nat \<Rightarrow> BetaCircuit \<Rightarrow> BetaCircuit result" where
  "multiplex_step ifTrue ifFalse choice out temp i cd =
     res_bind (vec_at ifFalse i) (\<lambda>f. res_bind (vec_at ifTrue i) (\<lambda>t. res_bind (vec_at temp 0) (\<lambda>t0. res_bind (vec_at choice 0) (\<lambda>s.
     res_bind (addGate f t G_Xor t0 cd) (\<lambda>cd.
     res_bind (addGate t0 s G_And t0 cd) (\<lambda>cd.
     addGate f t0 G_Xor (out ! i) cd))))))"

definition multiplex_build :: "wires \<Rightarrow> wires \<Rightarrow> wires \<Rightarrow> wires \<Rightarrow> wires \<Rightarrow> BetaCircuit \<Rightarrow> BetaCircuit result" where
  "multiplex_build ifTrue ifFalse choice out temp cd = res_fold (multiplex_step ifTrue ifFalse choice out temp) [0..<length out] cd"

section \<open>Code: signs\<close>

definition int_negate_build :: "Optimized \<Rightarrow> wires \<Rightarrow> wires \<Rightarrow> wires \<Rightarrow> BetaCircuit \<Rightarrow> BetaCircuit result" where
  "int_negate_build op a1 out temp cd =
     (let (invert, cd) = addTempWireBundle (BetaBundle (length a1)) cd
      in res_bind (bitwiseInvert_build a1 invert cd) (\<lambda>cd.
         res_bind (addConstBundle (BetaBundle 2) [True, False] cd) (\<lambda>(one, cd).
         add_build op TwosComplement invert one out temp cd)))"

definition removeSign_build :: "Optimized \<Rightarrow> wires \<Rightarrow> wires \<Rightarrow> wires \<Rightarrow> BetaCircuit \<Rightarrow> BetaCircuit result" where
  "removeSign_build op a1 ret temp cd =
     (if a1 = [] then Inl (Undefined ''back of an empty vector'')
      else res_bind (int_negate_build op a1 ret temp cd) (multiplex_build ret a1 [last a1] ret temp))"

definition int_addSign_build :: "Optimized \<Rightarrow> wires \<Rightarrow> wires \<Rightarrow> wires \<Rightarrow> wires \<Rightarrow> BetaCircuit \<Rightarrow> BetaCircuit result" where
  "int_addSign_build op a1 sign ret temp cd =
     (let (neg, cd) = addTempWireBundle (BetaBundle (length a1)) cd
      in res_bind (int_negate_build op a1 neg temp cd) (multiplex_build neg a1 sign ret temp))"

section \<open>Code: comparison\<close>

definition isZero_build :: "wires \<Rightarrow> wires \<Rightarrow> BetaCircuit \<Rightarrow> BetaCircuit result" where
  "isZero_build a1 out cd =
     (if length a1 = 1 then res_bind (addCopyBundle a1 out cd) (addInvert (a1 ! 0))
      else res_bind (vec_at a1 0) (\<lambda>w0. res_bind (vec_at a1 1) (\<lambda>w1. res_bind (vec_at out 0) (\<lambda>r.
        res_bind (addGate w0 w1 G_Nor r cd) (res_fold (\<lambda>i. addGate r (a1 ! i) G_nb_And r) [2..<length a1])))))"

definition eq_level :: "nat \<Rightarrow> wire \<Rightarrow> nat \<Rightarrow> wires \<times> BetaCircuit \<Rightarrow> (wires \<times> BetaCircuit) result" where
  "eq_level bits r i = (\<lambda>(temp, cd).
     (let sz = bits div 2 div 2 ^ i;
          (temp2, cd) = (if sz = 1 then ([r], cd) else addTempWireBundle (BetaBundle sz) cd)
      in res_bind (res_fold (\<lambda>j. addGate (temp ! (2 * j)) (temp ! (2 * j + 1)) G_And (temp2 ! j)) [0..<sz] cd) (\<lambda>cd. Inr (temp2, cd))))"

definition eq_build :: "wires \<Rightarrow> wires \<Rightarrow> wires \<Rightarrow> BetaCircuit \<Rightarrow> BetaCircuit result" where
  "eq_build a1 a2 out cd =
     (let bits = length a1 in
      res_bind (vec_at out 0) (\<lambda>r.
      if length a2 < bits then Inl out_of_range
      else
        let (temp, cd) = (if bits = 1 then ([r], cd) else addTempWireBundle (BetaBundle bits) cd)
        in res_bind (res_fold (\<lambda>i. addGate (a1 ! i) (a2 ! i) G_Nxor (temp ! i)) [0..<bits] cd) (\<lambda>cd.
           res_bind (res_fold (eq_level bits r) [0..<log2ceil bits] (temp, cd)) (\<lambda>(_, cd). Inr cd))))"

definition lessThan_build :: "Optimized \<Rightarrow> IntType \<Rightarrow> wires \<Rightarrow> wires \<Rightarrow> wires \<Rightarrow> BetaCircuit \<Rightarrow> BetaCircuit result" where
  "lessThan_build op it a1 a2 out cd =
     (if length out \<noteq> 1 then Inl (Runtime_error ''RTE_LOC'')
      else let s = max (length a1) (length a2);
               (temp, cd) = addTempWireBundle (BetaBundle (s * 3 + 4)) cd
           in subtract_build op it a1 a2 (BetaBundle s @ [out ! 0]) temp cd)"

definition greaterThanEq_build :: "Optimized \<Rightarrow> IntType \<Rightarrow> wires \<Rightarrow> wires \<Rightarrow> wires \<Rightarrow> BetaCircuit \<Rightarrow> BetaCircuit result" where
  "greaterThanEq_build op it a1 a2 out cd = res_bind (lessThan_build op it a1 a2 out cd) (addInvert (out ! 0))"

section \<open>Code: multiplication and division\<close>

text \<open>The conjunctions of one row; \<open>rows\<close> is the vector of rows.\<close>

definition mult_row :: "nat \<Rightarrow> wires \<Rightarrow> wires \<Rightarrow> wires \<Rightarrow> nat \<Rightarrow> wires list \<times> BetaCircuit \<Rightarrow> (wires list \<times> BetaCircuit) result" where
  "mult_row numRows a b c i = (\<lambda>(rows, cd).
     (let (row, cd) = addTempWireBundle (BetaBundle (min (length c - i) (length a))) cd in
      if row = [] then Inl out_of_range
      else
        let row = (if i = 0 then row[0 := c ! 0] else row);
            row = (if numRows = 1 then row ! 0 # take (length row - 1) (drop 1 c) else row);
            row = (if length a = 1 then row[0 := c ! i] else row)
        in res_bind (vec_at b (if b = [] then i else min i (length b - 1))) (\<lambda>bi.
           res_bind (res_fold (\<lambda>j. addGate bi (a ! j) G_And (row ! j)) [0..<length row] cd) (\<lambda>cd. Inr (rows @ [row], cd)))))"

definition mult_sum :: "Optimized \<Rightarrow> IntType \<Rightarrow> wires \<Rightarrow> wires \<Rightarrow> nat \<Rightarrow> wires list \<times> BetaCircuit \<Rightarrow> (wires list \<times> BetaCircuit) result" where
  "mult_sum op it c additonTemp i = (\<lambda>(rows, cd).
     (let (sums, cd) = addTempWireBundle (BetaBundle (min (length (rows ! i) + 1) (length c - i))) cd;
          sums = sums[0 := c ! i];
          sums = (if i = length rows - 1 then sums ! 0 # take (length sums - 1) (drop (i + 1) c) else sums)
      in res_bind (add_build op it (rows ! (i - 1)) (rows ! i) sums additonTemp cd) (\<lambda>cd. Inr (rows[i := tl sums], cd))))"

definition mult_build_ge :: "Optimized \<Rightarrow> IntType \<Rightarrow> wires \<Rightarrow> wires \<Rightarrow> wires \<Rightarrow> BetaCircuit \<Rightarrow> BetaCircuit result" where
  "mult_build_ge op it a b c cd =
     (let numRows = (if it = TwosComplement then length c else min (length b) (length c)) in
      res_bind (res_fold (mult_row numRows a b c) [0..<numRows] ([], cd)) (\<lambda>(rows, cd).
      if 1 < numRows then
        let (additonTemp, cd) = addTempWireBundle (BetaBundle (if op = Opt_Size then 4 else length a * 2)) cd;
            (_, cd) = addTempWireBundle (BetaBundle (length (rows ! 1))) cd
        in res_bind (res_fold (mult_sum op it c additonTemp) [1..<numRows] (rows[0 := tl (rows ! 0)], cd)) (\<lambda>(_, cd). Inr cd)
      else Inr cd))"

definition mult_build :: "Optimized \<Rightarrow> IntType \<Rightarrow> wires \<Rightarrow> wires \<Rightarrow> wires \<Rightarrow> BetaCircuit \<Rightarrow> BetaCircuit result" where
  "mult_build op it a b c cd =
     (if length a + length b < length c then Inl (Runtime_error ''LOCATION'')
      else if length b \<le> length a then mult_build_ge op it a b c cd else mult_build_ge op it b a c cd)"

definition div_step :: "Optimized \<Rightarrow> wires \<Rightarrow> wires \<Rightarrow> wires \<Rightarrow> wires \<Rightarrow> wires \<Rightarrow> nat
    \<Rightarrow> wires \<times> wires \<times> wires \<times> BetaCircuit \<Rightarrow> (wires \<times> wires \<times> wires \<times> BetaCircuit) result" where
  "div_step op dividend divider quot ssub temp i = (\<lambda>(remainder, remTemp, xtra, cd).
     (let remainder = dividend ! i # remainder;
          remTemp = remTemp @ [last xtra];
          xtra = butlast xtra;
          doSubtract = quot ! i
      in res_bind (greaterThanEq_build op Unsigned remainder divider [doSubtract] cd) (\<lambda>cd.
         let sub = take (min (length divider) (length remainder)) ssub
         in res_bind (res_fold (\<lambda>j. addGate (divider ! j) doSubtract G_And (sub ! j)) [0..<length sub] cd) (\<lambda>cd.
            res_bind (subtract_build op Unsigned remainder sub remTemp temp cd) (\<lambda>cd. Inr (remTemp, remainder, xtra, cd))))))"

definition div_rem_unsigned :: "Optimized \<Rightarrow> wires \<Rightarrow> wires \<Rightarrow> wires \<Rightarrow> wires \<Rightarrow> BetaCircuit \<Rightarrow> BetaCircuit result" where
  "div_rem_unsigned op dividend divider quot rem cd =
     (let (ssub, cd) = addTempWireBundle (BetaBundle (length dividend)) cd;
          (temp, cd) = addTempWireBundle (BetaBundle (4 + 2 * length rem)) cd;
          (xtra, cd) = addTempWireBundle (BetaBundle (length quot)) cd
      in res_bind (res_fold (div_step op dividend divider quot ssub temp) (rev [0..<length quot]) ([], [], xtra, cd))
           (\<lambda>(_, _, _, cd). Inr cd))"

definition div_rem_build :: "Optimized \<Rightarrow> IntType \<Rightarrow> wires \<Rightarrow> wires \<Rightarrow> wires \<Rightarrow> wires \<Rightarrow> BetaCircuit \<Rightarrow> BetaCircuit result" where
  "div_rem_build op it dividend divider quot rem cd =
     (if length quot \<noteq> length dividend then Inl (Runtime_error ''LOCATION'')
      else if it = Unsigned then div_rem_unsigned op dividend divider quot rem cd
      else if dividend = [] \<or> divider = [] then Inl (Undefined ''back of an empty vector'')
      else
        let (sign, cd) = addTempWireBundle (BetaBundle 1) cd;
            (temp, cd) = addTempWireBundle (BetaBundle (4 + 2 * max (length dividend) (length divider))) cd;
            (unsigneddividend, cd) = addTempWireBundle (BetaBundle (length dividend)) cd;
            (unsigneddivider, cd) = addTempWireBundle (BetaBundle (length divider)) cd
        in res_bind (addGate (last dividend) (last divider) G_Xor (sign ! 0) cd) (\<lambda>cd.
           res_bind (removeSign_build op dividend unsigneddividend temp cd) (\<lambda>cd.
           res_bind (removeSign_build op divider unsigneddivider temp cd) (\<lambda>cd.
           let (remainder, cd) = addTempWireBundle (BetaBundle (length rem)) cd
           in res_bind (div_rem_unsigned op unsigneddividend unsigneddivider quot remainder cd) (\<lambda>cd.
              res_bind (int_addSign_build op quot sign quot temp cd) (\<lambda>cd.
              if rem \<noteq> [] then int_addSign_build op remainder [last dividend] rem temp cd else Inr cd))))))"

section \<open>Code: the library's circuits\<close>

text \<open>The common part of the constructors: a new circuit with its input bundles, its output bundle and a bundle of temporary wires.\<close>

fun add_inputs :: "nat list \<Rightarrow> BetaCircuit \<Rightarrow> (wires list \<times> BetaCircuit) result" where
  "add_inputs [] cd = Inr ([], cd)"
| "add_inputs (n # ns) cd = res_bind (addInputBundle (BetaBundle n) cd) (\<lambda>(b, cd). res_bind (add_inputs ns cd) (\<lambda>(bs, cd). Inr (b # bs, cd)))"

definition new_circuit :: "nat list \<Rightarrow> nat \<Rightarrow> nat \<Rightarrow> (wires list \<Rightarrow> wires \<Rightarrow> wires \<Rightarrow> BetaCircuit \<Rightarrow> BetaCircuit result) \<Rightarrow> BetaCircuit result" where
  "new_circuit ins cSize tSize build =
     res_bind (add_inputs ins BetaCircuit_new) (\<lambda>(bs, cd).
     res_bind (addOutputBundle (BetaBundle cSize) cd) (\<lambda>(c, cd).
     let (t, cd) = addTempWireBundle (BetaBundle tSize) cd in build bs c t cd))"

definition int_int_add :: "nat \<Rightarrow> nat \<Rightarrow> nat \<Rightarrow> Optimized \<Rightarrow> BetaCircuit result" where
  "int_int_add aSize bSize cSize op = new_circuit [aSize, bSize] cSize (if op = Opt_Size then 4 else aSize * 2)
     (\<lambda>ins c t. add_build op TwosComplement (ins ! 0) (ins ! 1) c t)"

definition int_int_add_msb :: "nat \<Rightarrow> Optimized \<Rightarrow> BetaCircuit result" where
  "int_int_add_msb aSize op =
     new_circuit [aSize, aSize] 1 (aSize * 2) (\<lambda>ins c t. extractBit_build op TwosComplement Addition (aSize - 1) (ins ! 0) (ins ! 1) c t)"

definition uint_uint_add :: "nat \<Rightarrow> nat \<Rightarrow> nat \<Rightarrow> Optimized \<Rightarrow> BetaCircuit result" where
  "uint_uint_add aSize bSize cSize op = new_circuit [aSize, bSize] cSize (if op = Opt_Size then 4 else cSize * 2)
     (\<lambda>ins c t. add_build op Unsigned (ins ! 0) (ins ! 1) c t)"

definition int_int_subtract :: "nat \<Rightarrow> nat \<Rightarrow> nat \<Rightarrow> Optimized \<Rightarrow> BetaCircuit result" where
  "int_int_subtract aSize bSize cSize op = new_circuit [aSize, bSize] cSize (if op = Opt_Depth then 2 * cSize else 4)
     (\<lambda>ins c t. subtract_build op TwosComplement (ins ! 0) (ins ! 1) c t)"

definition int_int_sub_msb :: "nat \<Rightarrow> nat \<Rightarrow> Optimized \<Rightarrow> BetaCircuit result" where
  "int_int_sub_msb aSize bSize op = new_circuit [aSize, bSize] 1 (3 * aSize + 3)
     (\<lambda>ins c t. extractBit_build op TwosComplement Subtraction (max aSize bSize - 1) (ins ! 0) (ins ! 1) c t)"

definition uint_uint_subtract :: "nat \<Rightarrow> nat \<Rightarrow> nat \<Rightarrow> Optimized \<Rightarrow> BetaCircuit result" where
  "uint_uint_subtract aSize bSize cSize op = new_circuit [aSize, bSize] cSize (if op = Opt_Size then 4 else cSize * 2)
     (\<lambda>ins c t. subtract_build op Unsigned (ins ! 0) (ins ! 1) c t)"

definition uint_uint_sub_msb :: "nat \<Rightarrow> nat \<Rightarrow> Optimized \<Rightarrow> BetaCircuit result" where
  "uint_uint_sub_msb aSize bSize op = new_circuit [aSize, bSize] 1 (3 * aSize + 4)
     (\<lambda>ins c t. extractBit_build op Unsigned Subtraction (max aSize bSize - 1) (ins ! 0) (ins ! 1) c t)"

text \<open>Constants are read from the bytes of a 64-bit value; \<open>b\<close> lies between input and output.\<close>

definition const_circuit :: "nat \<Rightarrow> nat \<Rightarrow> u64 \<Rightarrow> nat \<Rightarrow> nat \<Rightarrow> (wires \<Rightarrow> wires \<Rightarrow> wires \<Rightarrow> wires \<Rightarrow> BetaCircuit \<Rightarrow> BetaCircuit result)
    \<Rightarrow> BetaCircuit result" where
  "const_circuit aSize bSize bVal cSize tSize build =
     res_bind (addInputBundle (BetaBundle aSize) BetaCircuit_new) (\<lambda>(a, cd).
     if 64 < bSize then Inl (Undefined ''read past bVal'')
     else res_bind (addConstBundle (BetaBundle bSize) (map (bit bVal) [0..<bSize]) cd) (\<lambda>(b, cd).
       res_bind (addOutputBundle (BetaBundle cSize) cd) (\<lambda>(c, cd).
       let (t, cd) = addTempWireBundle (BetaBundle tSize) cd in build a b c t cd)))"

definition int_intConst_add :: "nat \<Rightarrow> nat \<Rightarrow> u64 \<Rightarrow> nat \<Rightarrow> Optimized \<Rightarrow> BetaCircuit result" where
  "int_intConst_add aSize bSize bVal cSize op = const_circuit aSize bSize bVal cSize (3 + 2 * cSize) (add_build op TwosComplement)"

definition int_intConst_subtract :: "nat \<Rightarrow> nat \<Rightarrow> u64 \<Rightarrow> nat \<Rightarrow> Optimized \<Rightarrow> BetaCircuit result" where
  "int_intConst_subtract aSize bSize bVal cSize op =
     const_circuit aSize bSize bVal cSize (if op = Opt_Depth then 3 * cSize else 4) (subtract_build op TwosComplement)"

definition int_int_mult :: "nat \<Rightarrow> nat \<Rightarrow> nat \<Rightarrow> Optimized \<Rightarrow> BetaCircuit result" where
  "int_int_mult aSize bSize cSize op = new_circuit [aSize, bSize] cSize 0 (\<lambda>ins c t. mult_build op TwosComplement (ins ! 0) (ins ! 1) c)"

definition uint_uint_mult :: "nat \<Rightarrow> nat \<Rightarrow> nat \<Rightarrow> Optimized \<Rightarrow> BetaCircuit result" where
  "uint_uint_mult aSize bSize cSize op = new_circuit [aSize, bSize] cSize 0 (\<lambda>ins c t. mult_build op Unsigned (ins ! 0) (ins ! 1) c)"

definition int_int_div :: "nat \<Rightarrow> nat \<Rightarrow> nat \<Rightarrow> BetaCircuit result" where
  "int_int_div aSize bSize cSize =
     new_circuit [aSize, bSize] cSize 0 (\<lambda>ins c t. div_rem_build Opt_Size TwosComplement (ins ! 0) (ins ! 1) c [])"

definition int_bitInvert :: "nat \<Rightarrow> BetaCircuit result" where
  "int_bitInvert aSize = new_circuit [aSize] aSize 0 (\<lambda>ins c t. bitwiseInvert_build (ins ! 0) c)"

definition int_int_bitwiseAnd :: "nat \<Rightarrow> nat \<Rightarrow> nat \<Rightarrow> BetaCircuit result" where
  "int_int_bitwiseAnd aSize bSize cSize = new_circuit [aSize, bSize] cSize 0 (\<lambda>ins c t. bitwiseAnd_build (ins ! 0) (ins ! 1) c)"

definition int_int_bitwiseOr :: "nat \<Rightarrow> nat \<Rightarrow> nat \<Rightarrow> BetaCircuit result" where
  "int_int_bitwiseOr aSize bSize cSize = new_circuit [aSize, bSize] cSize 0 (\<lambda>ins c t. bitwiseOr_build (ins ! 0) (ins ! 1) c)"

definition int_int_bitwiseXor :: "nat \<Rightarrow> nat \<Rightarrow> nat \<Rightarrow> BetaCircuit result" where
  "int_int_bitwiseXor aSize bSize cSize = new_circuit [aSize, bSize] cSize 0 (\<lambda>ins c t. bitwiseXor_build (ins ! 0) (ins ! 1) c)"

definition int_int_lt :: "nat \<Rightarrow> nat \<Rightarrow> Optimized \<Rightarrow> BetaCircuit result" where
  "int_int_lt aSize bSize op = new_circuit [aSize, bSize] 1 0 (\<lambda>ins c t. lessThan_build op TwosComplement (ins ! 0) (ins ! 1) c)"

definition int_int_gteq :: "nat \<Rightarrow> nat \<Rightarrow> Optimized \<Rightarrow> BetaCircuit result" where
  "int_int_gteq aSize bSize op = new_circuit [aSize, bSize] 1 0 (\<lambda>ins c t. greaterThanEq_build op TwosComplement (ins ! 0) (ins ! 1) c)"

definition uint_uint_lt :: "nat \<Rightarrow> nat \<Rightarrow> Optimized \<Rightarrow> BetaCircuit result" where
  "uint_uint_lt aSize bSize op = new_circuit [aSize, bSize] 1 0 (\<lambda>ins c t. lessThan_build op Unsigned (ins ! 0) (ins ! 1) c)"

definition uint_uint_gteq :: "nat \<Rightarrow> nat \<Rightarrow> Optimized \<Rightarrow> BetaCircuit result" where
  "uint_uint_gteq aSize bSize op = new_circuit [aSize, bSize] 1 0 (\<lambda>ins c t. greaterThanEq_build op Unsigned (ins ! 0) (ins ! 1) c)"

definition int_eq :: "nat \<Rightarrow> BetaCircuit result" where
  "int_eq aSize = new_circuit [aSize, aSize] 1 0 (\<lambda>ins c t. eq_build (ins ! 0) (ins ! 1) c)"

definition int_neq :: "nat \<Rightarrow> BetaCircuit result" where
  "int_neq aSize = new_circuit [aSize, aSize] 1 0 (\<lambda>ins c t cd. res_bind (eq_build (ins ! 0) (ins ! 1) c cd) (addInvert (c ! 0)))"

definition int_isZero :: "nat \<Rightarrow> BetaCircuit result" where
  "int_isZero aSize = new_circuit [aSize] aSize 0 (\<lambda>ins c t. isZero_build (ins ! 0) c)"

definition int_int_multiplex :: "nat \<Rightarrow> BetaCircuit result" where
  "int_int_multiplex aSize =
     new_circuit [aSize, aSize, 1] aSize 3 (\<lambda>ins d t. multiplex_build (ins ! 0) (ins ! 1) (ins ! 2) d t)"

definition int_removeSign :: "nat \<Rightarrow> Optimized \<Rightarrow> BetaCircuit result" where
  "int_removeSign aSize op = new_circuit [aSize] aSize (4 + 2 * aSize) (\<lambda>ins c t. removeSign_build op (ins ! 0) c t)"

definition int_addSign :: "nat \<Rightarrow> Optimized \<Rightarrow> BetaCircuit result" where
  "int_addSign aSize op = new_circuit [aSize, 1] aSize (4 + 2 * aSize) (\<lambda>ins c t. int_addSign_build op (ins ! 0) (ins ! 1) c t)"

definition int_negate :: "nat \<Rightarrow> Optimized \<Rightarrow> BetaCircuit result" where
  "int_negate aSize op = new_circuit [aSize] aSize (4 + 2 * aSize) (\<lambda>ins c t. int_negate_build op (ins ! 0) c t)"

text \<open>
  The library keeps its circuits in \<^verbatim>\<open>mCirMap\<close> under a hash of the function's name and its arguments; the keys are taken to
  be different for different calls.
\<close>

definition cached :: "'k \<Rightarrow> BetaCircuit result \<Rightarrow> ('k \<rightharpoonup> BetaCircuit) \<Rightarrow> (BetaCircuit \<times> ('k \<rightharpoonup> BetaCircuit)) result" where
  "cached key built mCirMap =
     (case mCirMap key of
        Some cd \<Rightarrow> Inr (cd, mCirMap)
      | None \<Rightarrow> res_bind built (\<lambda>cd. Inr (cd, mCirMap(key \<mapsto> cd))))"

end
