(* ===== verification/CircuitAdd.thy ===== *)
theory CircuitAdd
  imports CircuitLib
begin

text \<open>
  The adders of the circuit library compute sums and differences of integers. \<open>ival\<close> is the integer that a bundle stands
  for, \<open>chain\<close> the chain of carries or borrows. The contract of an adder is the locale \<open>adder\<close>; it is interpreted for the
  ripple adder and for the parallel prefix adder.
\<close>

section \<open>Integers and carries\<close>

definition ival :: "IntType \<Rightarrow> bool list \<Rightarrow> int" where
  "ival it bs = (if it = Unsigned then horner_sum of_bool 2 bs else signed_take_bit (length bs - 1) (horner_sum of_bool 2 bs))"

lemma bit_ival:
  "it = Unsigned \<or> bs \<noteq> [] \<Longrightarrow>
    bit (ival it bs) i \<longleftrightarrow> (if it = Unsigned then i < length bs \<and> bs ! i else bs ! min i (length bs - 1))"
  by (cases it) (auto simp: ival_def bit_horner_sum_bit_iff bit_signed_take_bit_iff min_def)

fun chain :: "AdderType \<Rightarrow> int \<Rightarrow> int \<Rightarrow> nat \<Rightarrow> bool" where
  "chain at a b 0 = False"
| "chain at a b (Suc i) =
     (if at = Addition then bit a i \<and> bit b i \<or> chain at a b i \<and> bit a i \<noteq> bit b i
      else \<not> bit a i \<and> bit b i \<or> chain at a b i \<and> bit a i = bit b i)"

definition arith :: "AdderType \<Rightarrow> int \<Rightarrow> int \<Rightarrow> int" where
  "arith at a b = (if at = Addition then a + b else a - b)"

lemma div_pow_Suc: "(x :: int) div 2 ^ Suc i = x div 2 ^ i div 2"
  by (simp add: power_Suc2 zdiv_zmult2_eq del: power_Suc)

lemma half_add: "((x :: int) + y + of_bool c) div 2 = x div 2 + y div 2 + of_bool (odd x \<and> odd y \<or> c \<and> odd x \<noteq> odd y)"
  by (cases c; cases "odd x"; cases "odd y"; simp; presburger)

lemma half_sub: "((x :: int) - y - of_bool c) div 2 = x div 2 - y div 2 - of_bool (\<not> odd x \<and> odd y \<or> c \<and> odd x = odd y)"
  by (cases c; cases "odd x"; cases "odd y"; simp; presburger)

lemma arith_div:
  "arith at a b div 2 ^ i = (if at = Addition then a div 2 ^ i + b div 2 ^ i + of_bool (chain at a b i)
     else a div 2 ^ i - b div 2 ^ i - of_bool (chain at a b i))"
proof (induction i)
  case (Suc i)
  note h = half_add [of "a div 2 ^ i" "b div 2 ^ i" "chain at a b i"] half_sub [of "a div 2 ^ i" "b div 2 ^ i" "chain at a b i"]
  show ?case
  proof (cases "at = Addition")
    case True
    with Suc h(1) show ?thesis by (simp add: div_pow_Suc bit_iff_odd del: power_Suc)
  next
    case False
    with Suc h(2) show ?thesis by (simp add: div_pow_Suc bit_iff_odd del: power_Suc)
  qed
qed (simp add: arith_def)

lemma bit_arith: "bit (arith at a b) i \<longleftrightarrow> (bit a i \<noteq> bit b i) \<noteq> chain at a b i"
  by (cases at; cases "chain at a b i"; simp add: bit_iff_odd arith_div; blast)

section \<open>The ripple adder\<close>

text \<open>
  What a builder leaves behind: the wires of \<open>out\<close> that exist have the values \<open>f\<close> gives them, only they and the wires in \<open>T\<close> changed,
  and at most \<open>k\<close> wires are new.
\<close>

definition computes :: "BetaCircuit \<Rightarrow> BetaCircuit \<Rightarrow> wires \<Rightarrow> ((wire \<Rightarrow> bool) \<Rightarrow> nat \<Rightarrow> bool) \<Rightarrow> wire set \<Rightarrow> nat \<Rightarrow> bool" where
  "computes cd cd' out f T k \<longleftrightarrow> extends cd cd' \<and> mWireCount cd' \<le> mWireCount cd + k
     \<and> (\<forall>i<length out. out ! i \<noteq> no_wire \<longrightarrow> assigned cd' (out ! i) \<and> (\<forall>m. cval cd' m (out ! i) = f (cval cd m) i))
     \<and> (\<forall>w. assigned cd w \<longrightarrow> assigned cd' w)
     \<and> (\<forall>w m. w \<notin> T \<longrightarrow> w \<notin> set out \<longrightarrow> w < mWireCount cd \<longrightarrow> cval cd' m w = cval cd m w)"

text \<open>Bundles that an adder accepts.\<close>

definition operand :: "BetaCircuit \<Rightarrow> IntType \<Rightarrow> wires \<Rightarrow> bool" where
  "operand cd it a \<longleftrightarrow> (it = Unsigned \<or> a \<noteq> []) \<and> (\<forall>w\<in>set a. assigned cd w)"

definition writable :: "BetaCircuit \<Rightarrow> wires \<Rightarrow> bool" where
  "writable cd out \<longleftrightarrow> distinct (filter (\<lambda>w. w \<noteq> no_wire) out) \<and> (\<forall>w\<in>set out. w \<noteq> no_wire \<longrightarrow> w < mWireCount cd)"

lemma writable_nth:
  assumes "writable cd out" "i < length out" "j < length out" "out ! i \<noteq> no_wire" "out ! i = out ! j"
  shows "i = j"
proof (rule ccontr)
  assume "i \<noteq> j"
  then obtain p q where pq: "p < q" "q < length out" "out ! p = out ! q" "out ! p \<noteq> no_wire"
    using assms by (metis nat_neq_iff)
  have "out = take q out @ out ! q # drop (Suc q) out" by (rule id_take_nth_drop [OF pq(2)])
  then have "filter (\<lambda>w. w \<noteq> no_wire) out = filter (\<lambda>w. w \<noteq> no_wire) (take q out) @ out ! q # filter (\<lambda>w. w \<noteq> no_wire) (drop (Suc q) out)"
    by (rule arg_cong [where f = "filter (\<lambda>w. w \<noteq> no_wire)", THEN trans]) (use pq in simp)
  moreover have "out ! p \<in> set (take q out)" using nth_mem [of p "take q out"] pq by simp
  ultimately show False using assms(1) pq by (auto simp: writable_def)
qed

lemma operandBit_ok:
  assumes "it = Unsigned \<or> b \<noteq> []"
  shows "\<exists>w. operandBit it zero b i = Inr w \<and> (w \<in> set b \<or> w = zero) \<and> (\<forall>v. \<not> v zero \<longrightarrow> v w = bit (ival it (map v b)) i)"
proof (cases "it = Unsigned")
  case True
  then show ?thesis by (auto simp: operandBit_def bit_ival)
next
  case False
  then have it: "it = TwosComplement" by (cases it) simp_all
  with assms have m: "b \<noteq> []" "min i (length b - 1) < length b" by (cases b; simp)+
  then have "operandBit it zero b i = Inr (b ! min i (length b - 1))" by (simp add: operandBit_def it vec_at_def)
  with m it show ?thesis by (simp add: bit_ival)
qed

lemma operandBit_replicate: "i < n \<Longrightarrow> operandBit it zero (replicate n c) i = Inr c"
  by (cases it) (auto simp: operandBit_def vec_at_def)

lemma areDistint_disjoint: "set a \<inter> set b = {} \<Longrightarrow> areDistint cd a b"
  by (auto simp: areDistint_def)

text \<open>
  One round of the ripple adder. \<open>P\<close> collects the wires that hold the operands; \<open>y i\<close> and \<open>z i\<close> are chosen so that both
  kinds of operation have the same shape.
\<close>

lemma ripple_step_ok:
  assumes ok: "circuit_ok cd" and as: "assigned cd xi" "assigned cd yi" "assigned cd zi"
    and lt: "t0 < mWireCount cd" "t1 < mWireCount cd" "c < mWireCount cd" "out ! i \<noteq> no_wire \<longrightarrow> out ! i < mWireCount cd"
    and ds: "t0 \<noteq> t1" "t0 \<notin> {xi, yi, zi, out ! i}" "t1 \<notin> {xi, zi, out ! i}" "out ! i \<notin> {xi, yi, zi}"
    and get: "x i = Inr xi" "y i = Inr yi" "z i = Inr zi" and zero: "\<forall>m. \<not> cval cd m zero" and G: "G \<notin> set unary_gates"
  shows "\<exists>cd'. ripple_step x y z out c t0 t1 zero G i cd = Inr cd' \<and> circuit_ok cd' \<and> same_frame cd cd'
    \<and> (\<forall>w. assigned cd' w \<longleftrightarrow> assigned cd w \<or> w = t0 \<or> w = out ! i \<and> w \<noteq> no_wire \<or> i \<noteq> length out - 1 \<and> (w = t1 \<or> w = c))
    \<and> (\<forall>m w. w \<noteq> t0 \<longrightarrow> w \<noteq> t1 \<longrightarrow> cval cd' m w =
        (if w = c \<and> i \<noteq> length out - 1 then GateEval G (cval cd m xi \<noteq> cval cd m yi) (cval cd m xi \<noteq> cval cd m zi) \<noteq> cval cd m xi
         else if w = out ! i \<and> w \<noteq> no_wire then (cval cd m xi \<noteq> cval cd m yi) \<noteq> cval cd m zi else cval cd m w))"
proof -
  obtain c1 where c1: "(if xi = zero \<and> yi = zero then addConst t0 False cd else addGate xi yi G_Xor t0 cd) = Inr c1"
    "assigns cd c1 t0 (\<lambda>v. v xi \<noteq> v yi)"
  proof (cases "xi = zero \<and> yi = zero")
    case True
    from addConst_ok [OF ok lt(1), of False] obtain d where "addConst t0 False cd = Inr d" "assigns cd d t0 (\<lambda>_. False)" by auto
    with True that show ?thesis by (simp add: assigns_def)
  next
    case False
    with addGate_ok [OF ok as(1,2) lt(1), of G_Xor] that show ?thesis by (auto simp: unary_gates_def)
  qed
  have k1: "circuit_ok c1" "mWireCount c1 = mWireCount cd" "\<And>w. assigned c1 w \<longleftrightarrow> assigned cd w \<or> w = t0"
    using c1(2) by (auto simp: assigns_def same_frame_def)
  obtain c2 where c2: "(if out ! i \<noteq> no_wire then addGate t0 zi G_Xor (out ! i) c1 else Inr c1) = Inr c2"
    "circuit_ok c2" "same_frame cd c2" "\<And>w. assigned c2 w \<longleftrightarrow> assigned c1 w \<or> w = out ! i \<and> w \<noteq> no_wire"
    "\<And>m. cval c2 m = (if out ! i \<noteq> no_wire then (cval c1 m)(out ! i := cval c1 m t0 \<noteq> cval c1 m zi) else cval c1 m)"
  proof (cases "out ! i = no_wire")
    case True
    with that [of c1] k1(1) c1(2) show ?thesis by (simp add: assigns_def)
  next
    case False
    with addGate_ok [OF k1(1), of t0 zi "out ! i" G_Xor] k1 as lt obtain d where
      d: "addGate t0 zi G_Xor (out ! i) c1 = Inr d" "assigns c1 d (out ! i) (\<lambda>v. v t0 \<noteq> v zi)" by (auto simp: unary_gates_def)
    show ?thesis by (rule that [of d]) (use False d c1(2) in \<open>auto simp: assigns_def same_frame_def\<close>)
  qed
  have v2: "cval c2 m w = (if w = out ! i \<and> w \<noteq> no_wire then (cval cd m xi \<noteq> cval cd m yi) \<noteq> cval cd m zi
      else if w = t0 then cval cd m xi \<noteq> cval cd m yi else cval cd m w)" for m w
    using ds by (auto simp: c2(5) assigns_val [OF c1(2)])
  show ?thesis
  proof (cases "i = length out - 1")
    case True
    then show ?thesis using c1(1) c2(1-4) v2 k1 get by (auto simp: ripple_step_def)
  next
    case False
    have ct: "mWireCount c2 = mWireCount cd" using c2(3) by (simp add: same_frame_def)
    obtain c3 where c3: "addGate xi zi G_Xor t1 c2 = Inr c3" "assigns c2 c3 t1 (\<lambda>v. v xi \<noteq> v zi)"
      using addGate_ok [OF c2(2), of xi zi t1 G_Xor] as k1 lt c2(4) ct by (auto simp: unary_gates_def)
    have k3: "circuit_ok c3" "mWireCount c3 = mWireCount cd" "\<And>w. assigned c3 w \<longleftrightarrow> assigned c2 w \<or> w = t1"
      using c3(2) ct by (auto simp: assigns_def same_frame_def)
    obtain c4 where c4: "addGate t0 t1 G t0 c3 = Inr c4" "assigns c3 c4 t0 (\<lambda>v. GateEval G (v t0) (v t1))"
      using addGate_ok [OF k3(1), of t0 t1 t0 G] k1 k3 c2(4) lt G by auto
    have k4: "circuit_ok c4" "mWireCount c4 = mWireCount cd" "\<And>w. assigned c4 w \<longleftrightarrow> assigned c3 w \<or> w = t0"
      using c4(2) k3 by (auto simp: assigns_def same_frame_def)
    obtain c5 where c5: "addGate t0 xi G_Xor c c4 = Inr c5" "assigns c4 c5 c (\<lambda>v. v t0 \<noteq> v xi)"
      using addGate_ok [OF k4(1), of t0 xi c G_Xor] k1 k3 k4 c2(4) lt as by (auto simp: unary_gates_def)
    have "cval c5 m w = (if w = c then GateEval G (cval cd m xi \<noteq> cval cd m yi) (cval cd m xi \<noteq> cval cd m zi) \<noteq> cval cd m xi else cval c2 m w)"
      if "w \<noteq> t0" "w \<noteq> t1" for m w
      using that ds by (auto simp: assigns_val [OF c5(2)] assigns_val [OF c4(2)] assigns_val [OF c3(2)] v2)
    moreover have "same_frame cd c5" using c2(3) c3(2) c4(2) c5(2) by (auto simp: assigns_def same_frame_def)
    moreover have "assigned c5 w \<longleftrightarrow> assigned c2 w \<or> w = t0 \<or> w = t1 \<or> w = c" for w
      using k3 k4 assigns_assigned [OF c5(2)] by auto
    moreover have "ripple_step x y z out c t0 t1 zero G i cd = Inr c5" using False c1(1) c2(1) c3(1) c4(1) c5(1) get by (simp add: ripple_step_def)
    moreover have "circuit_ok c5" using c5(2) by (simp add: assigns_def)
    ultimately show ?thesis using False c2(4) k1(3) v2 by auto
  qed
qed

lemma map_cval_cong: "\<forall>w\<in>set a. cval cd' m w = cval cd m w \<Longrightarrow> map (cval cd' m) a = map (cval cd m) a"
  by simp

definition temps_ok :: "BetaCircuit \<Rightarrow> wires \<Rightarrow> wires \<Rightarrow> bool" where
  "temps_ok cd temps used \<longleftrightarrow> 4 \<le> length temps \<and> distinct (take 4 temps) \<and> set (take 4 temps) \<inter> set used = {}
     \<and> (\<forall>w\<in>set (take 4 temps). w < mWireCount cd)"

lemma rippleAdder_ok:
  assumes ok: "circuit_ok cd" "mWireCount cd \<le> no_wire" and ops: "operand cd it a1" "operand cd it a2"
    and out: "writable cd out" "set out \<inter> (set a1 \<union> set a2) = {}" and temps: "temps_ok cd temps (a1 @ a2 @ out)"
  shows "\<exists>cd'. rippleAdder_build a1 a2 out temps it at cd = Inr cd'
    \<and> computes cd cd' out (\<lambda>v. bit (arith at (ival it (map v a1)) (ival it (map v a2)))) (set (take 4 temps)) 0"
proof -
  obtain c t0 t1 zero rest where t: "temps = c # t0 # t1 # zero # rest"
    using temps by (auto simp: temps_ok_def numeral_eq_Suc Suc_le_length_iff)
  have T: "take 4 temps = [c, t0, t1, zero]" by (simp add: t)
  have tlt: "c < mWireCount cd" "t0 < mWireCount cd" "t1 < mWireCount cd" "zero < mWireCount cd"
    and tds: "distinct [c, t0, t1, zero]" and tdj: "{c, t0, t1, zero} \<inter> (set a1 \<union> set a2 \<union> set out) = {}"
    using temps unfolding temps_ok_def T by auto
  define A where "A m = ival it (map (cval cd m) a1)" for m
  define B where "B m = ival it (map (cval cd m) a2)" for m
  define I where "I i cd' \<longleftrightarrow> circuit_ok cd' \<and> same_frame cd cd' \<and> (\<forall>w. assigned cd w \<longrightarrow> assigned cd' w) \<and> assigned cd' c \<and> assigned cd' zero
    \<and> (\<forall>m. \<not> cval cd' m zero \<and> (i < length out \<longrightarrow> cval cd' m c = chain at (A m) (B m) i)
        \<and> (\<forall>w. w \<notin> {c, t0, t1, zero} \<longrightarrow> w \<notin> set out \<longrightarrow> cval cd' m w = cval cd m w))
    \<and> (\<forall>j<i. out ! j \<noteq> no_wire \<longrightarrow> assigned cd' (out ! j) \<and> (\<forall>m. cval cd' m (out ! j) = bit (arith at (A m) (B m)) j))" for i cd'
  obtain c1 where c1: "addConst c False cd = Inr c1" "assigns cd c1 c (\<lambda>_. False)" using addConst_ok [OF ok(1) tlt(1)] by auto
  have k1: "circuit_ok c1" "mWireCount c1 = mWireCount cd" using c1(2) by (auto simp: assigns_def same_frame_def)
  obtain c2 where c2: "addConst zero False c1 = Inr c2" "assigns c1 c2 zero (\<lambda>_. False)"
    using addConst_ok [OF k1(1), of zero False] tlt k1 by auto
  have I0: "I 0 c2" using c1(2) c2(2) tds by (auto simp: I_def assigns_def same_frame_def)
  let ?x = "operandBit it zero (if at = Addition then replicate (length out) c else a1)" and ?y = "operandBit it zero a2"
  let ?z = "operandBit it zero (if at = Addition then a1 else replicate (length out) c)"
  let ?G = "if at = Addition then G_And else G_Or"
  have "\<exists>cd'. res_fold (ripple_step ?x ?y ?z out c t0 t1 zero ?G) [0..<length out] c2 = Inr cd' \<and> I (length out) cd'"
  proof (rule res_fold_upt [where I = I, OF I0])
    fix i cd1 assume i: "i < length out" and I: "I i cd1"
    have wc: "mWireCount cd1 = mWireCount cd" and ok1: "circuit_ok cd1" using I by (auto simp: I_def same_frame_def)
    have get: "\<exists>w. operandBit it zero a i = Inr w \<and> assigned cd1 w \<and> (w \<in> set a \<or> w = zero) \<and> (\<forall>m. cval cd1 m w = bit (ival it (map (cval cd m) a)) i)"
      if a: "operand cd it a" "set a \<subseteq> set a1 \<union> set a2" for a
    proof -
      from a operandBit_ok [of it a zero i] obtain w where w: "operandBit it zero a i = Inr w" "w \<in> set a \<or> w = zero"
        "\<forall>v. \<not> v zero \<longrightarrow> v w = bit (ival it (map v a)) i" by (auto simp: operand_def)
      have "map (cval cd1 m) a = map (cval cd m) a" for m
      proof (intro map_cval_cong ballI)
        fix w assume "w \<in> set a"
        then have "w \<notin> {c, t0, t1, zero}" "w \<notin> set out" using a(2) tdj out(2) by auto
        with I show "cval cd1 m w = cval cd m w" by (simp add: I_def)
      qed
      moreover have "assigned cd1 w" using w(2) I a(1) by (auto simp: I_def operand_def)
      moreover have "\<not> cval cd1 m zero" for m using I by (simp add: I_def)
      ultimately show ?thesis using w by metis
    qed
    obtain p where p: "operandBit it zero a1 i = Inr p" "assigned cd1 p" "p \<in> set a1 \<or> p = zero" "\<And>m. cval cd1 m p = bit (A m) i"
      using get [OF ops(1)] by (auto simp: A_def)
    obtain q where q: "operandBit it zero a2 i = Inr q" "assigned cd1 q" "q \<in> set a2 \<or> q = zero" "\<And>m. cval cd1 m q = bit (B m) i"
      using get [OF ops(2)] by (auto simp: B_def)
    let ?xi = "if at = Addition then c else p" and ?zi = "if at = Addition then p else c"
    have rep: "operandBit it zero (replicate (length out) c) i = Inr c" using i by (rule operandBit_replicate)
    have g: "?x i = Inr ?xi" "?y i = Inr q" "?z i = Inr ?zi" using p(1) q(1) rep by auto
    have o: "out ! i \<in> set out" using i by simp
    have olt: "out ! i \<noteq> no_wire \<longrightarrow> out ! i < mWireCount cd1" using out(1) o wc by (auto simp: writable_def)
    have nz: "\<forall>m. \<not> cval cd1 m zero" using I by (simp add: I_def)
    have as: "assigned cd1 ?xi" "assigned cd1 q" "assigned cd1 ?zi" using p q I by (auto simp: I_def)
    have ds: "t0 \<noteq> t1" "t0 \<notin> {?xi, q, ?zi, out ! i}" "t1 \<notin> {?xi, ?zi, out ! i}" "out ! i \<notin> {?xi, q, ?zi}"
      using tds tdj p(3) q(3) o out(2) by auto
    have G: "?G \<notin> set unary_gates" by (simp add: unary_gates_def)
    have ts: "t0 < mWireCount cd1" "t1 < mWireCount cd1" "c < mWireCount cd1" using tlt wc by auto
    from ripple_step_ok [where x = ?x and y = ?y and z = ?z and out = out and i = i, OF ok1 as ts olt ds g nz G]
    obtain cd2 where st: "ripple_step ?x ?y ?z out c t0 t1 zero ?G i cd1 = Inr cd2" "circuit_ok cd2" "same_frame cd1 cd2"
      "\<And>w. assigned cd2 w \<longleftrightarrow> assigned cd1 w \<or> w = t0 \<or> w = out ! i \<and> w \<noteq> no_wire \<or> i \<noteq> length out - 1 \<and> (w = t1 \<or> w = c)"
      "\<And>m w. w \<noteq> t0 \<Longrightarrow> w \<noteq> t1 \<Longrightarrow> cval cd2 m w =
        (if w = c \<and> i \<noteq> length out - 1 then GateEval ?G (cval cd1 m ?xi \<noteq> cval cd1 m q) (cval cd1 m ?xi \<noteq> cval cd1 m ?zi) \<noteq> cval cd1 m ?xi
         else if w = out ! i \<and> w \<noteq> no_wire then (cval cd1 m ?xi \<noteq> cval cd1 m q) \<noteq> cval cd1 m ?zi else cval cd1 m w)" by blast
    have ch: "cval cd1 m c = chain at (A m) (B m) i" for m using I i by (simp add: I_def)
    have bit: "((cval cd1 m ?xi \<noteq> cval cd1 m q) \<noteq> cval cd1 m ?zi) = bit (arith at (A m) (B m)) i" for m
      by (auto simp: bit_arith p(4) q(4) ch)
    have nxt: "(GateEval ?G (cval cd1 m ?xi \<noteq> cval cd1 m q) (cval cd1 m ?xi \<noteq> cval cd1 m ?zi) \<noteq> cval cd1 m ?xi) = chain at (A m) (B m) (Suc i)" for m
      by (auto simp: p(4) q(4) ch)
    have v: "cval cd2 m w = (if w = c \<and> i \<noteq> length out - 1 then chain at (A m) (B m) (Suc i)
       else if w = out ! i \<and> w \<noteq> no_wire then bit (arith at (A m) (B m)) i else cval cd1 m w)" if "w \<noteq> t0" "w \<noteq> t1" for m w
      unfolding st(5) [OF that] bit nxt ..
    have outs: "out ! j \<noteq> t0 \<and> out ! j \<noteq> t1 \<and> out ! j \<noteq> c" if "j < Suc i" for j
      using tdj nth_mem [of j out] that i by auto
    have "I (Suc i) cd2"
      unfolding I_def
    proof (intro conjI allI impI)
      fix j assume j: "j < Suc i" "out ! j \<noteq> no_wire"
      have eq: "out ! j = out ! i \<longleftrightarrow> j = i" using writable_nth [OF out(1), of j i] j i by auto
      show "assigned cd2 (out ! j)" using I j eq st(4) by (cases "j = i") (auto simp: I_def)
      show "cval cd2 m (out ! j) = bit (arith at (A m) (B m)) j" for m
        using I j eq outs [OF j(1)] v [of "out ! j" m] by (cases "j = i") (auto simp: I_def)
    next
      fix m
      have ne: "zero \<noteq> t0" "zero \<noteq> t1" "c \<noteq> t0" "c \<noteq> t1" "zero \<noteq> c" "zero \<noteq> out ! i" using tds tdj o by auto
      show "\<not> cval cd2 m zero" using v [OF ne(1,2), of m] ne(5,6) nz by simp
      show "cval cd2 m c = chain at (A m) (B m) (Suc i)" if "Suc i < length out" using v [OF ne(3,4), of m] that by auto
      fix w assume w: "w \<notin> {c, t0, t1, zero}" "w \<notin> set out"
      then have "w \<noteq> t0" "w \<noteq> t1" "w \<noteq> c" "w \<noteq> out ! i" using o by auto
      moreover have "cval cd1 m w = cval cd m w" using I w by (simp add: I_def)
      ultimately show "cval cd2 m w = cval cd m w" using v [of w m] by simp
    next
      show "same_frame cd cd2" using I st(3) by (auto simp: I_def same_frame_def)
      show "assigned cd w \<Longrightarrow> assigned cd2 w" for w using I st(4) by (simp add: I_def)
      show "assigned cd2 c" "assigned cd2 zero" using I st(4) by (simp_all add: I_def)
    qed (rule st(2))
    with st(1) show "\<exists>cd'. ripple_step ?x ?y ?z out c t0 t1 zero ?G i cd1 = Inr cd' \<and> I (Suc i) cd'" by blast
  qed
  then obtain cd' where cd': "res_fold (ripple_step ?x ?y ?z out c t0 t1 zero ?G) [0..<length out] c2 = Inr cd'" "I (length out) cd'" by blast
  have "set a2 \<inter> set out = {}" "set a1 \<inter> set out = {}" using out(2) by auto
  then have "rippleAdder_build a1 a2 out temps it at cd = Inr cd'"
    using c1(1) c2(1) cd'(1) by (simp add: rippleAdder_build_def areDistint_disjoint t Let_def)
  moreover have "computes cd cd' out (\<lambda>v. bit (arith at (ival it (map v a1)) (ival it (map v a2)))) (set (take 4 temps)) 0"
    using cd'(2) unfolding T by (auto simp: computes_def I_def extends_def same_frame_def A_def B_def)
  ultimately show ?thesis by blast
qed

end
