(* ===== verification/CircuitArith.thy ===== *)
theory CircuitArith
  imports CircuitAdd
begin

text \<open>
  Correctness of the builders. A straight line of gates computes \<open>sl\<close>. The contract of an adder is the locale \<open>adder\<close>; in it,
  comparison, negation, absolute value, signs and multiplication are proved once for every adder that meets it.
\<close>

section \<open>Straight-line code\<close>

type_synonym gate_line = "(wire \<times> wire \<times> GateType \<times> wire) list"

fun add_gates :: "gate_line \<Rightarrow> BetaCircuit \<Rightarrow> BetaCircuit result" where
  "add_gates [] cd = Inr cd"
| "add_gates ((a, b, gt, out) # gs) cd = res_bind (addGate a b gt out cd) (add_gates gs)"

fun sl :: "gate_line \<Rightarrow> (wire \<Rightarrow> bool) \<Rightarrow> wire \<Rightarrow> bool" where
  "sl [] v = v"
| "sl ((a, b, gt, out) # gs) v = sl gs (v(out := GateEval gt (v a) (v b)))"

definition outs :: "gate_line \<Rightarrow> wires" where
  "outs gs = map (\<lambda>(a, b, gt, out). out) gs"

fun ready_line :: "wire set \<Rightarrow> gate_line \<Rightarrow> bool" where
  "ready_line S [] = True"
| "ready_line S ((a, b, gt, out) # gs) \<longleftrightarrow> a \<in> S \<and> b \<in> S \<and> gt \<notin> set unary_gates \<and> ready_line (insert out S) gs"

lemma ready_line_mono: "ready_line S gs \<Longrightarrow> S \<subseteq> T \<Longrightarrow> ready_line T gs"
proof (induction gs arbitrary: S T)
  case (Cons g gs)
  obtain a b gt out where g: "g = (a, b, gt, out)" by (cases g)
  have "insert out S \<subseteq> insert out T" using Cons.prems(2) by auto
  with Cons.IH [of "insert out S" "insert out T"] Cons.prems show ?case by (auto simp: g)
qed simp

lemma add_gates_ok:
  assumes "circuit_ok cd" "ready_line {w. assigned cd w} gs" "\<forall>w\<in>set (outs gs). w < mWireCount cd"
  shows "\<exists>cd'. add_gates gs cd = Inr cd' \<and> circuit_ok cd' \<and> same_frame cd cd' \<and> (\<forall>m. cval cd' m = sl gs (cval cd m))
    \<and> (\<forall>w. assigned cd' w \<longleftrightarrow> assigned cd w \<or> w \<in> set (outs gs))"
  using assms
proof (induction gs arbitrary: cd)
  case Nil
  then show ?case by (simp add: same_frame_def outs_def)
next
  case (Cons g gs)
  obtain a b gt out where g: "g = (a, b, gt, out)" by (cases g)
  from Cons.prems addGate_ok [of cd a b out gt] obtain c1 where
    c1: "addGate a b gt out cd = Inr c1" "assigns cd c1 out (\<lambda>v. GateEval gt (v a) (v b))" by (auto simp: g outs_def)
  have "{w. assigned c1 w} = insert out {w. assigned cd w}" using c1(2) by (auto simp: assigns_def)
  with Cons.IH [of c1] Cons.prems c1(2) obtain c2 where
    "add_gates gs c1 = Inr c2" "circuit_ok c2" "same_frame c1 c2" "\<forall>m. cval c2 m = sl gs (cval c1 m)"
    "\<forall>w. assigned c2 w \<longleftrightarrow> assigned c1 w \<or> w \<in> set (outs gs)"
    by (auto simp: g outs_def assigns_def same_frame_def)
  with c1 show ?case by (auto simp: g outs_def assigns_def same_frame_def)
qed

lemma add_gates_append: "add_gates (xs @ ys) cd = res_bind (add_gates xs cd) (add_gates ys)"
  by (induction xs arbitrary: cd) (auto simp: res_bind_def split: sum.splits)

lemma sl_append: "sl (xs @ ys) v = sl ys (sl xs v)"
  by (induction xs arbitrary: v) auto

lemma sl_other: "w \<notin> set (outs gs) \<Longrightarrow> sl gs v w = v w"
  by (induction gs arbitrary: v) (auto simp: outs_def)

lemma res_fold_gates: "res_fold (\<lambda>j. addGate (f j) (g j) gt (h j)) js = add_gates (map (\<lambda>j. (f j, g j, gt, h j)) js)"
  by (induction js) (auto intro!: ext)

text \<open>A gate whose inputs no earlier gate and whose output no later gate overwrites.\<close>

lemma sl_at:
  assumes "gs = xs @ (a, b, gt, out) # ys" "a \<notin> set (outs xs)" "b \<notin> set (outs xs)" "out \<notin> set (outs ys)"
  shows "sl gs v out = GateEval gt (v a) (v b)"
  using assms by (simp add: sl_append sl_other)

lemma sl_map_nth:
  assumes "i < n" "\<And>j. j < i \<Longrightarrow> h j \<noteq> f i \<and> h j \<noteq> g i" "\<And>j. i < j \<Longrightarrow> j < n \<Longrightarrow> h j \<noteq> h i"
  shows "sl (map (\<lambda>j. (f j, g j, gt, h j)) [0..<n]) v (h i) = GateEval gt (v (f i)) (v (g i))"
proof (rule sl_at)
  have "[0..<n] = [0..<i] @ i # [Suc i..<n]" using assms(1)
    by (metis le_add_diff_inverse less_imp_le_nat upt_add_eq_append upt_conv_Cons zero_le)
  then show "map (\<lambda>j. (f j, g j, gt, h j)) [0..<n] = map (\<lambda>j. (f j, g j, gt, h j)) [0..<i] @ (f i, g i, gt, h i) # map (\<lambda>j. (f j, g j, gt, h j)) [Suc i..<n]"
    by simp
  have o: "set (outs (map (\<lambda>j. (f j, g j, gt, h j)) js)) = h ` set js" for js by (auto simp: outs_def)
  show "f i \<notin> set (outs (map (\<lambda>j. (f j, g j, gt, h j)) [0..<i]))" "g i \<notin> set (outs (map (\<lambda>j. (f j, g j, gt, h j)) [0..<i]))"
    unfolding o using assms(2) by (metis atLeastLessThan_iff imageE set_upt)+
  show "h i \<notin> set (outs (map (\<lambda>j. (f j, g j, gt, h j)) [Suc i..<n]))"
    unfolding o using assms(3) by (metis Suc_le_lessD atLeastLessThan_iff imageE set_upt)
qed

section \<open>Bitwise operations, copies, selection\<close>

lemma bitwise_build_ok:
  assumes "circuit_ok cd" "length a1 = length a2" "length out \<le> length a1" "\<forall>w\<in>set a1 \<union> set a2. assigned cd w"
    "\<forall>w\<in>set out. w < mWireCount cd" "distinct out" "gt \<notin> set unary_gates"
    and dep: "\<And>i j. i < j \<Longrightarrow> j < length out \<Longrightarrow> out ! i \<noteq> a1 ! j \<and> out ! i \<noteq> a2 ! j"
  shows "\<exists>cd'. bitwise_build gt a1 a2 out cd = Inr cd' \<and> circuit_ok cd' \<and> same_frame cd cd'
    \<and> (\<forall>m i. i < length out \<longrightarrow> cval cd' m (out ! i) = GateEval gt (cval cd m (a1 ! i)) (cval cd m (a2 ! i)))
    \<and> (\<forall>m w. w \<notin> set out \<longrightarrow> cval cd' m w = cval cd m w) \<and> (\<forall>w. assigned cd' w \<longleftrightarrow> assigned cd w \<or> w \<in> set out)"
proof -
  let ?gs = "map (\<lambda>j. (a1 ! j, a2 ! j, gt, out ! j)) [0..<length out]"
  have o: "outs ?gs = out" by (auto simp: outs_def comp_def map_nth intro: nth_equalityI)
  have r: "ready_line {w. assigned cd w} (map (\<lambda>j. (a1 ! j, a2 ! j, gt, out ! j)) js)" if "\<forall>j\<in>set js. j < length out" for js
  proof -
    have "ready_line S (map (\<lambda>j. (a1 ! j, a2 ! j, gt, out ! j)) js)" if "{w. assigned cd w} \<subseteq> S" for S
      using \<open>\<forall>j\<in>set js. j < length out\<close> that
    proof (induction js arbitrary: S)
      case (Cons j js)
      have "a1 ! j \<in> S" "a2 ! j \<in> S" using Cons.prems assms(2-4) by auto
      moreover have "{w. assigned cd w} \<subseteq> insert (out ! j) S" using Cons.prems(2) by auto
      ultimately show ?case using Cons.IH Cons.prems(1) assms(7) by simp
    qed simp
    then show ?thesis by simp
  qed
  from add_gates_ok [OF assms(1) r, of "[0..<length out]"] assms(5) o obtain cd' where
    cd': "add_gates ?gs cd = Inr cd'" "circuit_ok cd'" "same_frame cd cd'" "\<forall>m. cval cd' m = sl ?gs (cval cd m)"
    "\<forall>w. assigned cd' w \<longleftrightarrow> assigned cd w \<or> w \<in> set out" by auto
  have "sl ?gs v (out ! i) = GateEval gt (v (a1 ! i)) (v (a2 ! i))" if "i < length out" for v i
    using that dep assms(6) by (intro sl_map_nth) (auto simp: nth_eq_iff_index_eq)
  moreover have "sl ?gs v w = v w" if "w \<notin> set out" for v w using that o sl_other by auto
  ultimately show ?thesis using cd' assms(2,3) by (simp add: bitwise_build_def res_fold_gates)
qed

lemma addCopyBundle_ok:
  assumes "circuit_ok cd" "length out \<le> length a" "\<forall>w\<in>set a. assigned cd w" "\<forall>w\<in>set out. w < mWireCount cd" "distinct out" "set out \<inter> set a = {}"
  shows "\<exists>cd'. addCopyBundle a out cd = Inr cd' \<and> circuit_ok cd' \<and> same_frame cd cd'
    \<and> (\<forall>m i. i < length out \<longrightarrow> cval cd' m (out ! i) = cval cd m (a ! i))
    \<and> (\<forall>m w. w \<notin> set out \<longrightarrow> cval cd' m w = cval cd m w) \<and> (\<forall>w. assigned cd' w \<longleftrightarrow> assigned cd w \<or> w \<in> set out)"
  using assms
proof (induction out arbitrary: a cd)
  case Nil
  then show ?case by (simp add: same_frame_def)
next
  case (Cons d ds)
  obtain s ss where a: "a = s # ss" using Cons.prems(2) by (cases a) simp_all
  have len: "s < length (mWireFlags cd)" "d < length (mWireFlags cd)" using Cons.prems assigned_lt [of cd s] by (auto simp: a circuit_ok_def)
  obtain c1 where c1: "addCopy s d cd = Inr c1" "assigns cd c1 d (\<lambda>v. v s)" using addCopy_ok [of cd s d] Cons.prems by (auto simp: a)
  let ?g = "\<lparr>mInput0 = s, mInput1 = 1, mOutput = d, mType = G_a\<rparr>"
  have e: "addCopyBundle (s # ss) (d # ds) cd = addCopyBundle ss ds c1"
    "set_flag d (flag cd s) cd = Inr (cd\<lparr>mWireFlags := (mWireFlags cd)[d := flag cd s]\<rparr>)"
    "c1 = cd\<lparr>mWireFlags := (mWireFlags cd)[d := flag cd s], mGates := mGates cd @ [?g]\<rparr>"
  proof -
    have sw: "cd\<lparr>mGates := gs, mWireFlags := f\<rparr> = cd\<lparr>mWireFlags := f, mGates := gs\<rparr>" for gs f by simp
    show "c1 = cd\<lparr>mWireFlags := (mWireFlags cd)[d := flag cd s], mGates := mGates cd @ [?g]\<rparr>"
      using c1(1) len by (simp add: addCopy_def set_flag_def Let_def sw)
    then show "addCopyBundle (s # ss) (d # ds) cd = addCopyBundle ss ds c1" using len by (simp add: set_flag_def)
  qed (use len in \<open>simp add: set_flag_def\<close>)
  have "\<exists>cd'. addCopyBundle ss ds c1 = Inr cd' \<and> circuit_ok cd' \<and> same_frame c1 cd'
    \<and> (\<forall>m i. i < length ds \<longrightarrow> cval cd' m (ds ! i) = cval c1 m (ss ! i))
    \<and> (\<forall>m w. w \<notin> set ds \<longrightarrow> cval cd' m w = cval c1 m w) \<and> (\<forall>w. assigned cd' w \<longleftrightarrow> assigned c1 w \<or> w \<in> set ds)"
    using Cons.prems c1(2) by (intro Cons.IH) (auto simp: a assigns_def same_frame_def)
  then obtain c2 where c2: "addCopyBundle ss ds c1 = Inr c2" "circuit_ok c2" "same_frame c1 c2"
    "\<And>m i. i < length ds \<Longrightarrow> cval c2 m (ds ! i) = cval c1 m (ss ! i)"
    "\<And>m w. w \<notin> set ds \<Longrightarrow> cval c2 m w = cval c1 m w" "\<And>w. assigned c2 w \<longleftrightarrow> assigned c1 w \<or> w \<in> set ds" by blast
  have "cval c2 m ((d # ds) ! i) = cval cd m ((s # ss) ! i)" if "i < length (d # ds)" for m i
  proof (cases i)
    case 0
    then show ?thesis using c2(5) [of d m] Cons.prems(5) assigns_val [OF c1(2)] by simp
  next
    case (Suc k)
    then have "d \<noteq> ss ! k" using that Cons.prems(2,6) unfolding a by (metis IntI Suc_less_eq empty_iff length_Cons less_le_trans list.set_intros nth_mem)
    with Suc that c2(4) [of k m] assigns_val [OF c1(2)] show ?thesis by simp
  qed
  moreover have "cval c2 m w = cval cd m w" if "w \<notin> set (d # ds)" for m w
    using that c2(5) [of w m] assigns_val [OF c1(2)] by simp
  moreover have "same_frame cd c2" using c2(3) c1(2) by (auto simp: same_frame_def assigns_def)
  moreover have "assigned c2 w \<longleftrightarrow> assigned cd w \<or> w \<in> set (d # ds)" for w using c2(6) assigns_assigned [OF c1(2)] by auto
  ultimately show ?case unfolding a using c2(1,2) e(1) by (intro exI [of _ c2]) simp
qed

lemma addInverts_ok:
  assumes "circuit_ok cd" "\<forall>w\<in>set out. assigned cd w" "distinct out"
  shows "\<exists>cd'. res_fold (\<lambda>i. addInvert (out ! i)) [0..<length out] cd = Inr cd' \<and> circuit_ok cd' \<and> same_frame cd cd'
    \<and> (\<forall>m w. cval cd' m w = (cval cd m w \<noteq> (w \<in> set out))) \<and> (\<forall>w. assigned cd' w \<longleftrightarrow> assigned cd w)"
proof -
  define I where "I i cd' \<longleftrightarrow> circuit_ok cd' \<and> same_frame cd cd' \<and> (\<forall>m w. cval cd' m w = (cval cd m w \<noteq> (w \<in> set (take i out))))
    \<and> (\<forall>w. assigned cd' w \<longleftrightarrow> assigned cd w)" for i cd'
  have "\<exists>cd'. res_fold (\<lambda>i. addInvert (out ! i)) [0..<length out] cd = Inr cd' \<and> I (length out) cd'"
  proof (rule res_fold_upt)
    show "I 0 cd" using assms by (simp add: I_def same_frame_def)
    fix i c assume i: "i < length out" and I: "I i c"
    have "circuit_ok c" "assigned c (out ! i)" using I i assms(2) by (auto simp: I_def)
    from addInvert_ok [OF this] obtain c' where c': "addInvert (out ! i) c = Inr c'" "assigns c c' (out ! i) (\<lambda>v. \<not> v (out ! i))" by auto
    have "out ! i \<notin> set (take i out)" using assms(3) i by (auto simp: in_set_conv_nth nth_eq_iff_index_eq)
    moreover have "assigned cd (out ! i)" using i assms(2) by simp
    ultimately show "\<exists>c'. addInvert (out ! i) c = Inr c' \<and> I (Suc i) c'" using I c' i
      by (auto simp: I_def assigns_def same_frame_def take_Suc_conv_app_nth)
  qed
  then show ?thesis by (simp add: I_def)
qed

lemma bitwiseInvert_ok:
  assumes "circuit_ok cd" "length out \<le> length a" "\<forall>w\<in>set a. assigned cd w" "\<forall>w\<in>set out. w < mWireCount cd" "distinct out" "set out \<inter> set a = {}"
  shows "\<exists>cd'. bitwiseInvert_build a out cd = Inr cd' \<and> circuit_ok cd' \<and> same_frame cd cd'
    \<and> (\<forall>m i. i < length out \<longrightarrow> cval cd' m (out ! i) = (\<not> cval cd m (a ! i)))
    \<and> (\<forall>m w. w \<notin> set out \<longrightarrow> cval cd' m w = cval cd m w) \<and> (\<forall>w. assigned cd' w \<longleftrightarrow> assigned cd w \<or> w \<in> set out)"
proof -
  from addCopyBundle_ok [OF assms] obtain c1 where c1: "addCopyBundle a out cd = Inr c1" "circuit_ok c1" "same_frame cd c1"
    "\<forall>m i. i < length out \<longrightarrow> cval c1 m (out ! i) = cval cd m (a ! i)" "\<forall>m w. w \<notin> set out \<longrightarrow> cval c1 m w = cval cd m w"
    "\<forall>w. assigned c1 w \<longleftrightarrow> assigned cd w \<or> w \<in> set out" by auto
  from addInverts_ok [OF c1(2) _ assms(5)] c1(6) obtain c2 where
    "res_fold (\<lambda>i. addInvert (out ! i)) [0..<length out] c1 = Inr c2" "circuit_ok c2" "same_frame c1 c2"
    "\<forall>m w. cval c2 m w = (cval c1 m w \<noteq> (w \<in> set out))" "\<forall>w. assigned c2 w \<longleftrightarrow> assigned c1 w" by auto
  with c1 show ?thesis by (auto simp: bitwiseInvert_build_def same_frame_def)
qed

definition mux_gates :: "wires \<Rightarrow> wires \<Rightarrow> wire \<Rightarrow> wires \<Rightarrow> wire \<Rightarrow> nat \<Rightarrow> gate_line" where
  "mux_gates T F s out t0 i = [(F ! i, T ! i, G_Xor, t0), (t0, s, G_And, t0), (F ! i, t0, G_Xor, out ! i)]"

lemma multiplex_ok:
  assumes "circuit_ok cd" "length out \<le> length T" "length out \<le> length F" "temp \<noteq> []" "\<forall>w\<in>set T \<union> set F \<union> {s}. assigned cd w"
    "\<forall>w\<in>set out. w < mWireCount cd" "hd temp < mWireCount cd" "distinct out" "hd temp \<notin> set T \<union> set F \<union> set out \<union> {s}" "s \<notin> set out"
    and dep: "\<And>i j. i < j \<Longrightarrow> j < length out \<Longrightarrow> out ! i \<noteq> T ! j \<and> out ! i \<noteq> F ! j"
  shows "\<exists>cd'. multiplex_build T F [s] out temp cd = Inr cd' \<and> circuit_ok cd' \<and> same_frame cd cd'
    \<and> (\<forall>m i. i < length out \<longrightarrow> cval cd' m (out ! i) = (if cval cd m s then cval cd m (T ! i) else cval cd m (F ! i)))
    \<and> (\<forall>m w. w \<notin> set out \<longrightarrow> w \<noteq> hd temp \<longrightarrow> cval cd' m w = cval cd m w)
    \<and> (\<forall>w. assigned cd w \<or> w \<in> set out \<longrightarrow> assigned cd' w)"
proof -
  let ?t = "hd temp"
  have t: "temp ! 0 = ?t" using assms(4) by (simp add: hd_conv_nth)
  define I where "I i cd' \<longleftrightarrow> circuit_ok cd' \<and> same_frame cd cd' \<and> (\<forall>w. assigned cd w \<or> w \<in> set (take i out) \<longrightarrow> assigned cd' w)
    \<and> (\<forall>m w. w \<notin> set (take i out) \<longrightarrow> w \<noteq> ?t \<longrightarrow> cval cd' m w = cval cd m w)
    \<and> (\<forall>m j. j < i \<longrightarrow> cval cd' m (out ! j) = (if cval cd m s then cval cd m (T ! j) else cval cd m (F ! j)))" for i cd'
  have "\<exists>cd'. res_fold (multiplex_step T F [s] out temp) [0..<length out] cd = Inr cd' \<and> I (length out) cd'"
  proof (rule res_fold_upt)
    show "I 0 cd" using assms(1) by (simp add: I_def same_frame_def)
    fix i c assume i: "i < length out" and I: "I i c"
    have m: "F ! i \<in> set F" "T ! i \<in> set T" "out ! i \<in> set out" using i assms(2,3) by auto
    have "ready_line {w. assigned c w} (mux_gates T F s out ?t i)" "\<forall>w\<in>set (outs (mux_gates T F s out ?t i)). w < mWireCount c"
      using I m assms(5-7) by (auto simp: I_def mux_gates_def unary_gates_def outs_def same_frame_def)
    from add_gates_ok [OF _ this] I obtain c' where
      c': "add_gates (mux_gates T F s out ?t i) c = Inr c'" "circuit_ok c'" "same_frame c c'"
      "\<forall>m. cval c' m = sl (mux_gates T F s out ?t i) (cval c m)" "\<forall>w. assigned c' w \<longleftrightarrow> assigned c w \<or> w \<in> {?t, out ! i}"
      by (auto simp: I_def mux_gates_def outs_def)
    have "multiplex_step T F [s] out temp i c = Inr c'"
      using c'(1) i assms(2-4) t by (auto simp: multiplex_step_def vec_at_def mux_gates_def res_bind_def split: sum.splits)
    moreover have "I (Suc i) c'"
    proof -
      have sl: "sl (mux_gates T F s out ?t i) v w = (if w = out ! i then if v s then v (T ! i) else v (F ! i) else v w)" if "w \<noteq> ?t" for v w
        using that m assms(9) by (auto simp: mux_gates_def)
      have nin: "F ! i \<notin> set (take i out)" "T ! i \<notin> set (take i out)" "s \<notin> set (take i out)" "?t \<notin> set out"
        using dep i assms(9,10) by (auto simp: in_set_conv_nth) 
      have ne: "F ! i \<noteq> ?t" "T ! i \<noteq> ?t" "s \<noteq> ?t" using m assms(9) by auto
      have v: "cval c m (F ! i) = cval cd m (F ! i)" "cval c m (T ! i) = cval cd m (T ! i)" "cval c m s = cval cd m s" for m
        using I nin ne by (auto simp: I_def)
      have o: "out ! j \<noteq> out ! i" "out ! j \<noteq> ?t" if "j < i" for j 
        proof -
          have "out ! j \<in> set out" using that i by simp
          with nin(4) show "out ! j \<noteq> ?t" by metis
          from that i assms(8) show "out ! j \<noteq> out ! i" by (simp add: nth_eq_iff_index_eq)
        qed
      show ?thesis
        unfolding I_def
      proof (intro conjI allI impI)
        fix m j assume "j < Suc i"
        show "cval c' m (out ! j) = (if cval cd m s then cval cd m (T ! j) else cval cd m (F ! j))"
        proof (cases "j = i")
          case True
          have "out ! i \<noteq> ?t" using m(3) nin(4) by metis
          with True show ?thesis using c'(4) sl [of "out ! i" "cval c m"] v by simp
        next
          case False
          with \<open>j < Suc i\<close> have "j < i" by simp
          with c'(4) sl [of "out ! j" "cval c m"] o I show ?thesis by (auto simp: I_def)
        qed
      next
        fix m w assume "w \<notin> set (take (Suc i) out)" "w \<noteq> ?t"
        then show "cval c' m w = cval cd m w" using c'(4) sl [of w "cval c m"] I i by (auto simp: I_def take_Suc_conv_app_nth)
      next
        show "same_frame cd c'" using I c'(3) by (auto simp: I_def same_frame_def)
        fix w assume "assigned cd w \<or> w \<in> set (take (Suc i) out)"
        then show "assigned c' w" using I c'(5) i by (auto simp: I_def take_Suc_conv_app_nth)
      qed (rule c'(2))
    qed
    ultimately show "\<exists>c'. multiplex_step T F [s] out temp i c = Inr c' \<and> I (Suc i) c'" by blast
  qed
  then show ?thesis by (auto simp: I_def multiplex_build_def)
qed

section \<open>Facts on the integers of bundles\<close>

lemma horner_bounds: "0 \<le> (horner_sum of_bool 2 bs :: int)" "(horner_sum of_bool 2 bs :: int) < 2 ^ length bs"
  by (induction bs) auto

lemma ival_bounds: "- (2 ^ length bs) \<le> ival it bs" "ival it bs < 2 ^ length bs" "it = Unsigned \<Longrightarrow> 0 \<le> ival it bs"
  "it = TwosComplement \<Longrightarrow> bs \<noteq> [] \<Longrightarrow> - (2 ^ (length bs - 1)) \<le> ival it bs \<and> ival it bs < 2 ^ (length bs - 1)"
proof -
  have m: "(2 :: int) ^ (length bs - 1) \<le> 2 ^ length bs" by (rule power_increasing) simp_all
  note h = horner_bounds [of bs]
    signed_take_bit_int_less_exp [of "length bs - 1" "horner_sum of_bool 2 bs"]
    signed_take_bit_int_greater_eq_minus_exp [of "length bs - 1" "horner_sum of_bool 2 bs"]
  show "it = Unsigned \<Longrightarrow> 0 \<le> ival it bs" using h by (simp add: ival_def)
  show "it = TwosComplement \<Longrightarrow> bs \<noteq> [] \<Longrightarrow> - (2 ^ (length bs - 1)) \<le> ival it bs \<and> ival it bs < 2 ^ (length bs - 1)"
    using h by (simp add: ival_def)
  have "- (2 ^ length bs) \<le> ival it bs \<and> ival it bs < 2 ^ length bs"
  proof (cases it)
    case Unsigned
    then have "ival it bs = horner_sum of_bool 2 bs" by (simp add: ival_def)
    with h m show ?thesis by linarith
  next
    case TwosComplement
    then have "ival it bs = signed_take_bit (length bs - 1) (horner_sum of_bool 2 bs)" by (simp add: ival_def)
    with h m show ?thesis by linarith
  qed
  then show "- (2 ^ length bs) \<le> ival it bs" "ival it bs < 2 ^ length bs" by simp_all
qed

lemma bit_sign: "- (2 ^ s) \<le> k \<Longrightarrow> k < 2 ^ s \<Longrightarrow> bit (k :: int) s \<longleftrightarrow> k < 0"
proof (cases "k < 0")
  case True
  assume "- (2 ^ s) \<le> k"
  with True have "(k + 2 ^ s) div 2 ^ s = 0" by (intro div_pos_pos_trivial) simp_all
  moreover have "(k + 2 ^ s) div 2 ^ s = k div 2 ^ s + 1" by (rule div_add_self2) simp
  ultimately have "k div 2 ^ s = - 1" by linarith
  with True show ?thesis by (simp add: bit_iff_odd)
next
  case False
  assume "k < 2 ^ s"
  with False show ?thesis by (simp add: bit_iff_odd div_pos_pos_trivial)
qed

lemma ival_less_iff:
  assumes "s = max (length as) (length bs)" "it = Unsigned \<or> as \<noteq> [] \<and> bs \<noteq> []"
  shows "bit (ival it as - ival it bs) s \<longleftrightarrow> ival it as < ival it bs"
proof -
  have "- (2 ^ s) \<le> ival it as - ival it bs \<and> ival it as - ival it bs < 2 ^ s"
  proof (cases "it = Unsigned")
    case True
    have "(2 :: int) ^ length as \<le> 2 ^ s" "(2 :: int) ^ length bs \<le> 2 ^ s" using assms(1) by (simp_all add: power_increasing)
    with ival_bounds(2,3) [where it = it and bs = as] ival_bounds(2,3) [where it = it and bs = bs] True show ?thesis by linarith
  next
    case False
    then have it: "it = TwosComplement" by (cases it) simp_all
    have "(2 :: int) ^ (length as - 1) \<le> 2 ^ (s - 1)" "(2 :: int) ^ (length bs - 1) \<le> 2 ^ (s - 1)"
      using assms(1) by (simp_all add: power_increasing diff_le_mono)
    moreover have "(2 :: int) ^ s = 2 * 2 ^ (s - 1)" using assms False by (cases as) (auto simp: power_eq_if)
    ultimately show ?thesis using ival_bounds(4) [OF it, of as] ival_bounds(4) [OF it, of bs] assms(2) False by linarith
  qed
  then show ?thesis using bit_sign [of s "ival it as - ival it bs"] by auto
qed

lemma ival_Not: "bs \<noteq> [] \<Longrightarrow> ival TwosComplement (map Not bs) = NOT (ival TwosComplement bs)"
proof (rule bit_eqI)
  fix n assume "bs \<noteq> []"
  then have "min n (length bs - 1) < length bs" by (cases bs) (simp_all add: min_def)
  with \<open>bs \<noteq> []\<close> show "bit (ival TwosComplement (map Not bs)) n = bit (NOT (ival TwosComplement bs)) n"
    by (simp add: bit_ival bit_not_iff)
qed

lemma ival_one: "ival TwosComplement [True, False] = 1"
  by (simp add: ival_def signed_take_bit_Suc)

lemma ival_neg_iff: "bs \<noteq> [] \<Longrightarrow> ival TwosComplement bs < 0 \<longleftrightarrow> last bs"
  by (simp add: ival_def signed_take_bit_negative_iff bit_horner_sum_bit_iff last_conv_nth)

lemma bit_ival_lt: "i < length bs \<Longrightarrow> bit (ival it bs) i = bs ! i"
  by (cases "it = Unsigned"; cases "bs = []") (auto simp: bit_ival min_def)

section \<open>The contract of an adder\<close>

definition adder_build :: "Optimized \<Rightarrow> AdderType \<Rightarrow> IntType \<Rightarrow> wires \<Rightarrow> wires \<Rightarrow> wires \<Rightarrow> wires \<Rightarrow> BetaCircuit \<Rightarrow> BetaCircuit result" where
  "adder_build op at it a1 a2 out temps = (if at = Addition then add_build op it a1 a2 out temps else subtract_build op it a1 a2 out temps)"

lemma adder_build_simps [simp]:
  "adder_build op Addition it a1 a2 = add_build op it a1 a2" "adder_build op Subtraction it a1 a2 = subtract_build op it a1 a2"
  by (simp_all add: adder_build_def fun_eq_iff)

lemma computes_after_temps:
  assumes "circuit_ok cd" "addTempWireBundle b cd = (t, c1)" "computes c1 c2 out f T k" "T \<subseteq> set t"
    and "\<And>m. f (cval c1 m) = g (cval cd m)"
  shows "computes cd c2 out g {} (length b + k)"
proof -
  note t = addTempWireBundle_ok [OF assms(1,2)]
  from t(1) assms(3) have "extends cd c2" by (auto simp: computes_def intro: extends_trans)
  moreover have "w \<notin> T" if "w < mWireCount cd" for w using that assms(4) t(3) by auto
  ultimately show ?thesis using assms(3,5) t by (auto simp: computes_def)
qed

lemma computes_mono: "computes cd cd' out f T k \<Longrightarrow> T \<subseteq> T' \<Longrightarrow> k \<le> k' \<Longrightarrow> computes cd cd' out f T' k'"
  by (auto simp: computes_def)

lemma computes_ok: "computes cd cd' out f T k \<Longrightarrow> circuit_ok cd'"
  by (auto simp: computes_def)

locale adder =
  fixes op :: Optimized
  assumes adder_ok: "circuit_ok cd \<Longrightarrow> mWireCount cd + 2 * length out + 2 \<le> no_wire \<Longrightarrow> operand cd it a1 \<Longrightarrow> operand cd it a2
    \<Longrightarrow> writable cd out \<Longrightarrow> out \<noteq> [] \<Longrightarrow> set out \<inter> (set a1 \<union> set a2) = {}
    \<Longrightarrow> (op = Opt_Size \<Longrightarrow> temps_ok cd temps (a1 @ a2 @ out))
    \<Longrightarrow> (op = Opt_Depth \<Longrightarrow> at = Subtraction \<Longrightarrow> it = Unsigned \<Longrightarrow> length out \<le> max (length a1) (length a2) + 1)
    \<Longrightarrow> \<exists>cd'. adder_build op at it a1 a2 out temps cd = Inr cd'
      \<and> computes cd cd' out (\<lambda>v. bit (arith at (ival it (map v a1)) (ival it (map v a2)))) (set (take 4 temps)) (2 * length out + 2)"
begin

lemma extractBit_ok:
  assumes "circuit_ok cd" "mWireCount cd + 2 * bitIdx + 4 \<le> no_wire" "operand cd it a1" "operand cd it a2" "r < mWireCount cd"
    "r \<notin> set a1 \<union> set a2" "op = Opt_Size \<Longrightarrow> temps_ok cd temps (a1 @ a2 @ BetaBundle bitIdx @ [r])"
    "op = Opt_Depth \<Longrightarrow> at = Subtraction \<Longrightarrow> it = Unsigned \<Longrightarrow> bitIdx \<le> max (length a1) (length a2)"
  shows "\<exists>cd'. extractBit_build op it at bitIdx a1 a2 [r] temps cd = Inr cd'
    \<and> computes cd cd' [r] (\<lambda>v _. bit (arith at (ival it (map v a1)) (ival it (map v a2))) bitIdx) (set (take 4 temps)) (2 * bitIdx + 4)"
proof -
  let ?out = "BetaBundle bitIdx @ [r]"
  have nw: "r \<noteq> no_wire" using assms(2,5) by simp
  have "w < mWireCount cd" if "w \<in> set a1 \<union> set a2" for w using that assms(1,3,4) by (auto simp: operand_def dest: assigned_lt)
  from this [of no_wire] have "no_wire \<notin> set a1 \<union> set a2" using assms(2) by linarith
  then have dj: "set ?out \<inter> (set a1 \<union> set a2) = {}" using assms(6) by (auto simp: BetaBundle_def)
  have tg: "writable cd ?out" using nw assms(5) by (auto simp: writable_def BetaBundle_def)
  have len: "length ?out = bitIdx + 1" by (simp add: BetaBundle_def)
  have len2: "2 * length ?out + 2 = 2 * bitIdx + 4" "?out \<noteq> []" using len by auto
  have "\<exists>cd'. adder_build op at it a1 a2 ?out temps cd = Inr cd'
      \<and> computes cd cd' ?out (\<lambda>v. bit (arith at (ival it (map v a1)) (ival it (map v a2)))) (set (take 4 temps)) (2 * length ?out + 2)"
    by (rule adder_ok [OF assms(1) _ assms(3,4) tg len2(2) dj]) (use assms(2,7,8) len in auto)
  then obtain cd' where cd': "adder_build op at it a1 a2 ?out temps cd = Inr cd'"
      "computes cd cd' ?out (\<lambda>v. bit (arith at (ival it (map v a1)) (ival it (map v a2)))) (set (take 4 temps)) (2 * bitIdx + 4)"
    unfolding len2(1) by blast
  have n: "?out ! bitIdx = r" by (simp add: BetaBundle_def nth_append)
  have "computes cd cd' [r] (\<lambda>v _. bit (arith at (ival it (map v a1)) (ival it (map v a2))) bitIdx) (set (take 4 temps)) (2 * bitIdx + 4)"
    using cd'(2) n len assms(2) unfolding computes_def
    by (auto simp: BetaBundle_def dest: spec [of _ bitIdx] split: if_splits)
  with cd'(1) show ?thesis by (cases "at = Addition") (auto simp: extractBit_build_def adder_build_def Let_def)
qed

lemma lessThan_ok:
  assumes "circuit_ok cd" "s = max (length a1) (length a2)" "mWireCount cd + 5 * s + 8 \<le> no_wire" "operand cd it a1" "operand cd it a2"
    "r < mWireCount cd" "r \<notin> set a1 \<union> set a2"
  shows "\<exists>cd'. lessThan_build op it a1 a2 [r] cd = Inr cd'
    \<and> computes cd cd' [r] (\<lambda>v _. ival it (map v a1) < ival it (map v a2)) {} (5 * s + 8)"
proof -
  obtain t c1 where t: "addTempWireBundle (BetaBundle (s * 3 + 4)) cd = (t, c1)" by fastforce
  note tk = addTempWireBundle_ok [OF assms(1) t, simplified BetaBundle_def length_replicate]
  have lt: "w < mWireCount cd" if "w \<in> set a1 \<union> set a2" for w using that assms(1,4,5) by (auto simp: operand_def dest: assigned_lt)
  have four: "take 4 t = [mWireCount cd..<mWireCount cd + 4]" unfolding tk(3) by (simp add: take_upt)
  have temps: "temps_ok c1 t (a1 @ a2 @ BetaBundle s @ [r])"
  proof -
    have "w < mWireCount cd \<or> w = no_wire" if "w \<in> set (a1 @ a2 @ BetaBundle s @ [r])" for w
      using that lt [of w] assms(6) by (auto simp: BetaBundle_def)
    then have "w \<notin> set (a1 @ a2 @ BetaBundle s @ [r])" if "w \<in> set (take 4 t)" for w
      using that assms(3) unfolding four by fastforce
    then show ?thesis using tk(2,3) by (auto simp: temps_ok_def four)
  qed
  have ops: "operand c1 it a1" "operand c1 it a2" using assms(4,5) tk(5) by (auto simp: operand_def)
  from extractBit_ok [of c1 s it a1 a2 r t Subtraction] tk(1,2) assms ops temps obtain c2 where
    c2: "extractBit_build op it Subtraction s a1 a2 [r] t c1 = Inr c2"
      "computes c1 c2 [r] (\<lambda>v _. bit (arith Subtraction (ival it (map v a1)) (ival it (map v a2))) s) (set (take 4 t)) (2 * s + 4)"
    by auto
  have "bit (arith Subtraction (ival it (map v a1)) (ival it (map v a2))) s \<longleftrightarrow> ival it (map v a1) < ival it (map v a2)" for v
    using ival_less_iff [of s "map v a1" "map v a2" it] assms(2,4,5) by (auto simp: arith_def operand_def)
  with c2(2) computes_after_temps [OF assms(1) t c2(2) set_take_subset, of "\<lambda>v _. ival it (map v a1) < ival it (map v a2)"] tk(4)
  have "computes cd c2 [r] (\<lambda>v _. ival it (map v a1) < ival it (map v a2)) {} (5 * s + 8)"
    by (auto simp: BetaBundle_def elim: computes_mono)
  moreover have "lessThan_build op it a1 a2 [r] cd = Inr c2"
    using c2(1) t assms(2) by (simp add: lessThan_build_def extractBit_build_def BetaBundle_def)
  ultimately show ?thesis by blast
qed

lemma greaterThanEq_ok:
  assumes "circuit_ok cd" "s = max (length a1) (length a2)" "mWireCount cd + 5 * s + 8 \<le> no_wire" "operand cd it a1" "operand cd it a2"
    "r < mWireCount cd" "r \<notin> set a1 \<union> set a2"
  shows "\<exists>cd'. greaterThanEq_build op it a1 a2 [r] cd = Inr cd'
    \<and> computes cd cd' [r] (\<lambda>v _. ival it (map v a2) \<le> ival it (map v a1)) {} (5 * s + 8)"
proof -
  from lessThan_ok [OF assms] obtain c1 where c1: "lessThan_build op it a1 a2 [r] cd = Inr c1"
    "computes cd c1 [r] (\<lambda>v _. ival it (map v a1) < ival it (map v a2)) {} (5 * s + 8)" by blast
  have "circuit_ok c1" "assigned c1 r" using c1(2) assms(3,6) by (auto simp: computes_def)
  from addInvert_ok [OF this] obtain c2 where c2: "addInvert r c1 = Inr c2" "assigns c1 c2 r (\<lambda>v. \<not> v r)" by blast
  have "computes cd c2 [r] (\<lambda>v _. ival it (map v a2) \<le> ival it (map v a1)) {} (5 * s + 8)"
    using c1(2) c2(2) assms(3,6) by (auto simp: computes_def assigns_def same_frame_def extends_def)
  with c1(1) c2(1) show ?thesis by (simp add: greaterThanEq_build_def)
qed

lemma int_negate_ok:
  assumes "circuit_ok cd" "mWireCount cd + length a1 + 2 * length out + 4 \<le> no_wire" "a1 \<noteq> []" "\<forall>w\<in>set a1. assigned cd w"
    "writable cd out" "out \<noteq> []" "op = Opt_Size \<Longrightarrow> temps_ok cd temps out"
  shows "\<exists>cd'. int_negate_build op a1 out temps cd = Inr cd'
    \<and> computes cd cd' out (\<lambda>v. bit (- ival TwosComplement (map v a1))) (set (take 4 temps)) (length a1 + 2 * length out + 4)"
proof -
  let ?n = "mWireCount cd" and ?k = "length a1"
  obtain inv c1 where t: "addTempWireBundle (BetaBundle ?k) cd = (inv, c1)" by fastforce
  note tk = addTempWireBundle_ok [OF assms(1) t, simplified BetaBundle_def length_replicate]
  have lt: "w < ?n" if "w \<in> set a1" for w using that assms(1,4) by (auto dest: assigned_lt)
  have ok1: "circuit_ok c1" using tk(1) by auto
  have "\<exists>cd'. bitwiseInvert_build a1 inv c1 = Inr cd' \<and> circuit_ok cd' \<and> same_frame c1 cd'
    \<and> (\<forall>m i. i < length inv \<longrightarrow> cval cd' m (inv ! i) = (\<not> cval c1 m (a1 ! i)))
    \<and> (\<forall>m w. w \<notin> set inv \<longrightarrow> cval cd' m w = cval c1 m w) \<and> (\<forall>w. assigned cd' w \<longleftrightarrow> assigned c1 w \<or> w \<in> set inv)"
  proof (rule bitwiseInvert_ok [OF ok1])
    show "set inv \<inter> set a1 = {}" using lt tk(3) by fastforce
  qed (use tk assms(4) in auto)
  then obtain c2 where c2: "bitwiseInvert_build a1 inv c1 = Inr c2" "circuit_ok c2" "same_frame c1 c2"
    "\<And>m i. i < ?k \<Longrightarrow> cval c2 m (inv ! i) = (\<not> cval c1 m (a1 ! i))"
    "\<And>m w. w \<notin> set inv \<Longrightarrow> cval c2 m w = cval c1 m w" "\<And>w. assigned c2 w \<longleftrightarrow> assigned c1 w \<or> w \<in> set inv"
    using tk(3) by auto
  have n2: "mWireCount c2 = ?n + ?k" using c2(3) tk(2) by (simp add: same_frame_def)
  from addConstBundle_ok [OF c2(2), of "BetaBundle 2" "[True, False]"] obtain one c3 where
    c3: "addConstBundle (BetaBundle 2) [True, False] c2 = Inr (one, c3)" "extends c2 c3" "one = [?n + ?k, ?n + ?k + 1]"
      "mWireCount c3 = ?n + ?k + 2"
      "\<And>m w. cval c3 m w = (if ?n + ?k \<le> w \<and> w < ?n + ?k + 2 then [True, False] ! (w - (?n + ?k)) else cval c2 m w)"
      "\<And>w. assigned c3 w \<longleftrightarrow> assigned c2 w \<or> w \<in> set one"
    by (auto simp: BetaBundle_def n2 upt_conv_Cons)
  have inv3: "map (cval c3 m) inv = map Not (map (cval cd m) a1)" for m
    using tk(3,4) c2(4) c3(5) by (intro nth_equalityI) auto
  have one3: "map (cval c3 m) one = [True, False]" for m using c3(3,5) by simp
  have old: "cval c3 m w = cval cd m w" if "w < ?n" for m w using that c3(5) c2(5) tk(3,4) by auto
  have o: "w < ?n \<or> w = no_wire" if "w \<in> set out" for w using that assms(5) by (auto simp: writable_def)
  have "\<exists>cd'. adder_build op Addition TwosComplement inv one out temps c3 = Inr cd'
    \<and> computes c3 cd' out (\<lambda>v. bit (arith Addition (ival TwosComplement (map v inv)) (ival TwosComplement (map v one)))) (set (take 4 temps)) (2 * length out + 2)"
  proof (rule adder_ok)
    show "circuit_ok c3" using c3(2) by auto
    show "mWireCount c3 + 2 * length out + 2 \<le> no_wire" using c3(4) assms(2) by simp
    show "operand c3 TwosComplement inv" using tk(3) assms(3) c2(6) c3(6) by (auto simp: operand_def)
    show "operand c3 TwosComplement one" using c3(3,6) by (auto simp: operand_def)
    show "writable c3 out" using assms(5) c3(4) by (auto simp: writable_def)
    have new: "?n \<le> w \<and> w \<noteq> no_wire" if "w \<in> set inv \<union> set one" for w
      using that tk(3) c3(3) assms(2,6) by auto
    then show "set out \<inter> (set inv \<union> set one) = {}" using o by fastforce
    show "temps_ok c3 temps (inv @ one @ out)" if "op = Opt_Size"
      using assms(7) [OF that] new c3(4) unfolding temps_ok_def by fastforce
  qed (use assms(6) in auto)
  then obtain c4 where c4: "add_build op TwosComplement inv one out temps c3 = Inr c4"
    "computes c3 c4 out (\<lambda>v. bit (arith Addition (ival TwosComplement (map v inv)) (ival TwosComplement (map v one)))) (set (take 4 temps)) (2 * length out + 2)"
    by (auto simp: adder_build_def)
  have neg: "arith Addition (ival TwosComplement (map (cval c3 m) inv)) (ival TwosComplement (map (cval c3 m) one)) = - ival TwosComplement (map (cval cd m) a1)" for m
    unfolding inv3 one3 using assms(3) by (subst ival_Not) (simp_all add: ival_one arith_def not_int_def)
  have "extends cd c3" using tk(1) c2(2,3) c3(2) by (auto simp: extends_def same_frame_def)
  then have "computes cd c4 out (\<lambda>v. bit (- ival TwosComplement (map v a1))) (set (take 4 temps)) (length a1 + 2 * length out + 4)"
    using c4(2) old c3(4,6) c2(6) tk(5) neg by (auto simp: computes_def intro: extends_trans)
  with t c2(1) c3(1) c4(1) show ?thesis by (auto simp: int_negate_build_def)
qed

text \<open>The absolute value and the sign: a selection between the negation and the number.\<close>

lemma removeSign_ok:
  assumes "circuit_ok cd" "mWireCount cd + length a1 + 2 * length out + 4 \<le> no_wire" "a1 \<noteq> []" "\<forall>w\<in>set a1. assigned cd w"
    "distinct out" "\<forall>w\<in>set out. w < mWireCount cd" "out \<noteq> []" "length out \<le> length a1" "set out \<inter> set a1 = {}" "temps_ok cd temps (a1 @ out)"
  shows "\<exists>cd'. removeSign_build op a1 out temps cd = Inr cd'
    \<and> computes cd cd' out (\<lambda>v. bit \<bar>ival TwosComplement (map v a1)\<bar>) (set (take 4 temps)) (length a1 + 2 * length out + 4)"
proof -
  have nw: "w \<noteq> no_wire" if "w \<in> set out" for w using that assms(2,6) by auto
  have tg: "writable cd out" using assms(5,6) nw by (auto simp: writable_def intro: distinct_filter)
  have tm: "temps_ok cd temps out" using assms(10) by (auto simp: temps_ok_def)
  from int_negate_ok [OF assms(1-4) tg assms(7) tm] obtain c1 where
    c1: "int_negate_build op a1 out temps cd = Inr c1"
      "computes cd c1 out (\<lambda>v. bit (- ival TwosComplement (map v a1))) (set (take 4 temps)) (length a1 + 2 * length out + 4)" by blast
  have h: "temps \<noteq> []" "hd temps \<in> set (take 4 temps)" using assms(10) by (cases temps; auto simp: temps_ok_def)+
  have hl: "hd temps < mWireCount cd" "hd temps \<notin> set a1 \<union> set out" using h(2) assms(10) by (auto simp: temps_ok_def)
  have lt: "w < mWireCount cd" if "w \<in> set a1" for w using that assms(1,4) by (auto dest: assigned_lt)
  have la: "last a1 \<in> set a1" using assms(3) by simp
  have wc: "mWireCount cd \<le> mWireCount c1" using c1(2) by (auto simp: computes_def extends_def)
  have as1: "\<forall>w\<in>set out \<union> set a1 \<union> {last a1}. assigned c1 w"
  proof -
    have "assigned c1 w" if "w \<in> set out" for w
    proof -
      obtain i where "i < length out" "w = out ! i" using \<open>w \<in> set out\<close> by (auto simp: in_set_conv_nth)
      with nw [OF that] c1(2) show ?thesis by (auto simp: computes_def)
    qed
    moreover have "assigned c1 w" if "w \<in> set a1" for w using that c1(2) assms(4) by (auto simp: computes_def)
    ultimately show ?thesis using la by blast
  qed
  have "\<exists>cd'. multiplex_build out a1 [last a1] out temps c1 = Inr cd' \<and> circuit_ok cd' \<and> same_frame c1 cd'
    \<and> (\<forall>m i. i < length out \<longrightarrow> cval cd' m (out ! i) = (if cval c1 m (last a1) then cval c1 m (out ! i) else cval c1 m (a1 ! i)))
    \<and> (\<forall>m w. w \<notin> set out \<longrightarrow> w \<noteq> hd temps \<longrightarrow> cval cd' m w = cval c1 m w)
    \<and> (\<forall>w. assigned c1 w \<or> w \<in> set out \<longrightarrow> assigned cd' w)"
  proof (rule multiplex_ok)
    show "hd temps \<notin> set out \<union> set a1 \<union> set out \<union> {last a1}" using hl(2) la by auto
    show "last a1 \<notin> set out" using la assms(9) by auto
    show "out ! i \<noteq> out ! j \<and> out ! i \<noteq> a1 ! j" if "i < j" "j < length out" for i j
    proof -
      have "out ! i \<in> set out" "a1 ! j \<in> set a1" using that assms(8) by simp_all
      with assms(9) have "out ! i \<noteq> a1 ! j" by auto
      with that assms(5) show ?thesis by (simp add: nth_eq_iff_index_eq)
    qed
    show "\<forall>w\<in>set out. w < mWireCount c1" using assms(6) wc by (auto intro: less_le_trans)
  qed (use c1(2) as1 h(1) hl wc assms in \<open>auto simp: computes_def\<close>)
  then obtain c2 where c2: "multiplex_build out a1 [last a1] out temps c1 = Inr c2" "circuit_ok c2" "same_frame c1 c2"
    "\<And>m i. i < length out \<Longrightarrow> cval c2 m (out ! i) = (if cval c1 m (last a1) then cval c1 m (out ! i) else cval c1 m (a1 ! i))"
    "\<And>m w. w \<notin> set out \<Longrightarrow> w \<noteq> hd temps \<Longrightarrow> cval c2 m w = cval c1 m w" "\<And>w. assigned c1 w \<or> w \<in> set out \<Longrightarrow> assigned c2 w" by blast
  have a1c: "cval c1 m w = cval cd m w" if "w \<in> set a1" for m w
    using that c1(2) lt assms(9,10) by (auto simp: computes_def temps_ok_def)
  have val: "cval c2 m (out ! i) = bit \<bar>ival TwosComplement (map (cval cd m) a1)\<bar> i" if i: "i < length out" for m i
  proof -
    have ia: "a1 ! i \<in> set a1" "out ! i \<noteq> no_wire" using i assms(8) nw by auto
    have "cval c1 m (out ! i) = bit (- ival TwosComplement (map (cval cd m) a1)) i" using c1(2) i ia(2) by (auto simp: computes_def)
    moreover have "cval cd m (last a1) = (ival TwosComplement (map (cval cd m) a1) < 0)" using assms(3) by (simp add: ival_neg_iff last_map)
    moreover have "cval cd m (a1 ! i) = bit (ival TwosComplement (map (cval cd m) a1)) i" using i assms(8) by (simp add: bit_ival_lt)
    ultimately show ?thesis using c2(4) [OF i] a1c ia(1) la by auto
  qed
  have other: "cval c2 m w = cval cd m w" if "w \<notin> set (take 4 temps)" "w \<notin> set out" "w < mWireCount cd" for w m
  proof -
    have "w \<noteq> hd temps" using that(1) h(2) by metis
    with c2(5) [OF that(2), of m] c1(2) that show ?thesis by (simp add: computes_def)
  qed
  have "computes cd c2 out (\<lambda>v. bit \<bar>ival TwosComplement (map v a1)\<bar>) (set (take 4 temps)) (length a1 + 2 * length out + 4)"
    using c1(2) c2(2,3,6) val other by (auto simp: computes_def extends_def same_frame_def)
  with c1(1) c2(1) assms(3) show ?thesis by (simp add: removeSign_build_def)
qed

lemma int_addSign_ok:
  assumes "circuit_ok cd" "mWireCount cd + 4 * length a1 + 4 \<le> no_wire" "a1 \<noteq> []" "\<forall>w\<in>set a1 \<union> {s}. assigned cd w"
    "distinct out" "\<forall>w\<in>set out. w < mWireCount cd" "length out \<le> length a1" "set out \<inter> (set a1 \<union> {s}) = {}"
    "temps_ok cd temps (a1 @ s # out)"
  shows "\<exists>cd'. int_addSign_build op a1 [s] out temps cd = Inr cd'
    \<and> computes cd cd' out (\<lambda>v. bit (if v s then - ival TwosComplement (map v a1) else ival TwosComplement (map v a1))) (set (take 4 temps)) (4 * length a1 + 4)"
proof -
  let ?n = "mWireCount cd" and ?k = "length a1"
  obtain neg c1 where t: "addTempWireBundle (BetaBundle ?k) cd = (neg, c1)" by fastforce
  note tk = addTempWireBundle_ok [OF assms(1) t, simplified BetaBundle_def length_replicate]
  have lt: "w < ?n" if "w \<in> set a1 \<union> {s}" for w using that assms(1,4) by (auto dest: assigned_lt)
  have h: "temps \<noteq> []" "hd temps \<in> set (take 4 temps)" using assms(9) by (cases temps; auto simp: temps_ok_def)+
  have hl: "hd temps < ?n" "hd temps \<notin> set a1 \<union> set out \<union> {s}" using h(2) assms(9) by (auto simp: temps_ok_def)
  have dis: "hd temps \<notin> set neg" "s \<notin> set neg" "set a1 \<inter> set neg = {}" "set out \<inter> set neg = {}"
    using hl(1) lt assms(6) tk(3) by (force dest: lt [simplified])+
  have nn: "neg \<noteq> []" "length neg = ?k" using assms(3) tk(3) by auto
  have ops: "\<forall>w\<in>set a1. assigned c1 w" using assms(4) tk(5) by auto
  have wc1: "mWireCount c1 + ?k + 2 * length neg + 4 \<le> no_wire" using assms(2) tk(2) nn by simp
  have tg: "writable c1 neg" using tk(2,3) by (simp add: writable_def)
  have tm: "temps_ok c1 temps neg" using assms(9) tk(2,3) by (auto simp: temps_ok_def)
  from tk(1) have ok1: "circuit_ok c1" by auto
  from int_negate_ok [OF ok1 wc1 assms(3) ops tg nn(1) tm] obtain c2 where
    c2: "int_negate_build op a1 neg temps c1 = Inr c2"
      "computes c1 c2 neg (\<lambda>v. bit (- ival TwosComplement (map v a1))) (set (take 4 temps)) (?k + 2 * length neg + 4)" by blast
  have wc: "?n \<le> mWireCount c2" using c2(2) tk(2) by (auto simp: computes_def extends_def)
  have nw: "neg ! i \<noteq> no_wire" if "i < ?k" for i using that tk(3) assms(2) by simp
  have as2: "assigned c2 w" if "w \<in> set neg \<union> set a1 \<union> {s}" for w
  proof (cases "w \<in> set neg")
    case True
    then obtain i where "i < ?k" "w = neg ! i" using nn(2) by (auto simp: in_set_conv_nth)
    with nw [of i] c2(2) nn(2) show ?thesis by (auto simp: computes_def)
  next
    case False
    with that c2(2) tk(5) assms(4) show ?thesis by (auto simp: computes_def)
  qed
  have "\<exists>cd'. multiplex_build neg a1 [s] out temps c2 = Inr cd' \<and> circuit_ok cd' \<and> same_frame c2 cd'
    \<and> (\<forall>m i. i < length out \<longrightarrow> cval cd' m (out ! i) = (if cval c2 m s then cval c2 m (neg ! i) else cval c2 m (a1 ! i)))
    \<and> (\<forall>m w. w \<notin> set out \<longrightarrow> w \<noteq> hd temps \<longrightarrow> cval cd' m w = cval c2 m w)
    \<and> (\<forall>w. assigned c2 w \<or> w \<in> set out \<longrightarrow> assigned cd' w)"
  proof (rule multiplex_ok)
    show "hd temps \<notin> set neg \<union> set a1 \<union> set out \<union> {s}" using hl(2) dis by auto
    show "out ! i \<noteq> neg ! j \<and> out ! i \<noteq> a1 ! j" if "i < j" "j < length out" for i j
    proof -
      have "out ! i \<in> set out" "a1 ! j \<in> set a1" "neg ! j \<in> set neg" using that assms(7) nn(2) by simp_all
      with assms(8) dis show ?thesis by auto
    qed
    show "\<forall>w\<in>set out. w < mWireCount c2" using assms(6) wc by (auto intro: less_le_trans)
  qed (use c2(2) as2 h(1) hl wc assms nn(2) in \<open>auto simp: computes_def\<close>)
  then obtain c3 where c3: "multiplex_build neg a1 [s] out temps c2 = Inr c3" "circuit_ok c3" "same_frame c2 c3"
    "\<And>m i. i < length out \<Longrightarrow> cval c3 m (out ! i) = (if cval c2 m s then cval c2 m (neg ! i) else cval c2 m (a1 ! i))"
    "\<And>m w. w \<notin> set out \<Longrightarrow> w \<noteq> hd temps \<Longrightarrow> cval c3 m w = cval c2 m w" "\<And>w. assigned c2 w \<or> w \<in> set out \<Longrightarrow> assigned c3 w" by blast
  have keep: "cval c2 m w = cval cd m w" if "w < ?n" "w \<notin> set (take 4 temps)" for m w
    using that c2(2) tk(2-4) by (auto simp: computes_def)
  have ac: "cval c2 m w = cval cd m w" if "w \<in> set a1 \<union> {s}" for m w
    using keep [OF lt [OF that]] that assms(9) by (auto simp: temps_ok_def)
  have a1c: "map (cval c1 m) a1 = map (cval cd m) a1" for m using lt tk(3,4) by auto
  have val: "cval c3 m (out ! i) = bit (if cval cd m s then - ival TwosComplement (map (cval cd m) a1) else ival TwosComplement (map (cval cd m) a1)) i"
    if i: "i < length out" for m i
  proof -
    have ia: "a1 ! i \<in> set a1" "neg ! i \<noteq> no_wire" "i < length neg" using i assms(7) nw [of i] nn(2) by auto
    have "cval c2 m (neg ! i) = bit (- ival TwosComplement (map (cval cd m) a1)) i" using c2(2) ia a1c by (auto simp: computes_def)
    moreover have "cval cd m (a1 ! i) = bit (ival TwosComplement (map (cval cd m) a1)) i" using i assms(7) by (simp add: bit_ival_lt)
    ultimately show ?thesis using c3(4) [OF i] ac ia(1) by auto
  qed
  have other: "cval c3 m w = cval cd m w" if "w \<notin> set (take 4 temps)" "w \<notin> set out" "w < ?n" for m w
    using that h(2) c3(5) [of w m] keep [of w m] by metis
  have "computes cd c3 out (\<lambda>v. bit (if v s then - ival TwosComplement (map v a1) else ival TwosComplement (map v a1))) (set (take 4 temps)) (4 * ?k + 4)"
    using c2(2) c3(2,3,6) val other tk(1,2,5) nn(2) by (auto simp: computes_def extends_def same_frame_def)
  with t c2(1) c3(1) show ?thesis by (simp add: int_addSign_build_def)
qed

end

text \<open>The ripple adder meets the contract.\<close>

interpretation ripple: adder Opt_Size
proof (unfold_locales, goal_cases)
  case (1 cd out it a1 a2 temps at)
  from rippleAdder_ok [OF 1(1) _ 1(3-5,7) 1(8) [OF refl]] 1(2) obtain cd' where
    "rippleAdder_build a1 a2 out temps it at cd = Inr cd'"
    "computes cd cd' out (\<lambda>v. bit (arith at (ival it (map v a1)) (ival it (map v a2)))) (set (take 4 temps)) 0" by fastforce
  then show ?case by (cases at) (auto simp: adder_build_def add_build_def subtract_build_def elim: computes_mono [OF _ subset_refl])
qed

end
