(* ===== verification/CircuitTop.thy ===== *)
theory CircuitTop
  imports CircuitArith
begin

text \<open>
  From builders to the circuits of the library: what the constructors of \<^verbatim>\<open>BetaLibrary\<close> return computes, when it is evaluated,
  the function of its input bundles that its builder computes; levels that keep the order of the gates do not change that.
\<close>

section \<open>The interface of a new circuit\<close>

fun bundles :: "nat \<Rightarrow> nat list \<Rightarrow> wires list" where
  "bundles k [] = []"
| "bundles k (n # ns) = [k..<k + n] # bundles (k + n) ns"

lemma concat_bundles: "concat (bundles k ns) = [k..<k + sum_list ns]"
proof (induction ns arbitrary: k)
  case (Cons n ns)
  have "[k..<k + (n + sum_list ns)] = [k..<k + n] @ [k + n..<k + n + sum_list ns]"
    using upt_add_eq_append [of k "k + n" "sum_list ns"] by (simp add: add.assoc)
  with Cons.IH [of "k + n"] show ?case by (simp add: add.assoc)
qed simp

lemma length_bundles [simp]: "map length (bundles k ns) = ns" "length (bundles k ns) = length ns"
  by (induction ns arbitrary: k) simp_all

lemma bundles_nth_sub: "b \<in> set (bundles k ns) \<Longrightarrow> w \<in> set b \<Longrightarrow> k \<le> w \<and> w < k + sum_list ns"
  using concat_bundles [of k ns] by (metis atLeastLessThan_iff in_set_conv_nth nth_mem set_concat set_upt UN_I)

text \<open>A circuit that has inputs only.\<close>

definition begun :: "wires list \<Rightarrow> BetaCircuit" where
  "begun bs = BetaCircuit_new\<lparr>mWireCount := length (concat bs), mWireFlags := replicate (length (concat bs)) F_Wire, mInputs := bs\<rparr>"

lemma addInputBundle_begun:
  "addInputBundle (BetaBundle n) (begun bs) =
     Inr ([length (concat bs)..<length (concat bs) + n], begun (bs @ [[length (concat bs)..<length (concat bs) + n]]))"
  by (simp add: addInputBundle_def BetaBundle_def new_wires_def resize_list_def begun_def BetaCircuit_new_def replicate_add [symmetric])

lemma add_inputs_begun: "add_inputs ns (begun bs) = Inr (bundles (length (concat bs)) ns, begun (bs @ bundles (length (concat bs)) ns))"
  by (induction ns arbitrary: bs) (simp_all add: addInputBundle_begun)

definition started :: "nat list \<Rightarrow> nat \<Rightarrow> nat \<Rightarrow> wires \<Rightarrow> wires \<Rightarrow> BetaCircuit \<Rightarrow> bool" where
  "started ins cSize tSize c t cd \<longleftrightarrow> circuit_ok cd \<and> mWireCount cd = sum_list ins + cSize + tSize
     \<and> c = [sum_list ins..<sum_list ins + cSize] \<and> t = [sum_list ins + cSize..<sum_list ins + cSize + tSize]
     \<and> (\<forall>w. assigned cd w \<longleftrightarrow> w < sum_list ins) \<and> (\<forall>m. cval cd m = m)
     \<and> mInputs cd = bundles 0 ins \<and> mOutputs cd = [c] \<and> mLevelCounts cd = []"

lemma new_circuit_started:
  "\<exists>c t cd. started ins cSize tSize c t cd \<and> new_circuit ins cSize tSize build = build (bundles 0 ins) c t cd"
proof -
  let ?n = "sum_list ins"
  let ?c0 = "begun (bundles 0 ins)"
  have n: "length (concat (bundles 0 ins)) = ?n" by (simp add: concat_bundles)
  have ok0: "circuit_ok ?c0" by (simp add: circuit_ok_def begun_def BetaCircuit_new_def)
  have as0: "assigned ?c0 w \<longleftrightarrow> w < ?n" and v0: "cval ?c0 m = m" for w m
    by (auto simp: assigned_def flag_def begun_def n BetaCircuit_new_def cval_def fun_eq_iff)
  have b0: "add_inputs ins BetaCircuit_new = Inr (bundles 0 ins, ?c0)"
    using add_inputs_begun [of ins "[]"] by (simp add: begun_def BetaCircuit_new_def)
  obtain c c1 where nw: "new_wires F_Uninitialized cSize ?c0 = (c, c1)" by fastforce
  note k1 = new_wires_ok [OF ok0 nw, simplified]
  let ?c2 = "c1\<lparr>mOutputs := [c]\<rparr>"
  have o: "mOutputs c1 = []" "mGates c1 = []" "mLevelCounts c1 = []" "mInputs c1 = bundles 0 ins" "mWireCount c1 = ?n + cSize"
    using nw by (auto simp: new_wires_def begun_def BetaCircuit_new_def concat_bundles)
  have c2: "addOutputBundle (BetaBundle cSize) ?c0 = Inr (c, ?c2)" using nw o by (simp add: addOutputBundle_def BetaBundle_def)
  have upd: "circuit_ok ?c2" "assigned ?c2 w \<longleftrightarrow> assigned c1 w" "cval ?c2 m = cval c1 m" for w m
    using k1(1) by (auto simp: extends_def circuit_ok_def assigned_def flag_def cval_def fun_eq_iff)
  obtain t c3 where t: "addTempWireBundle (BetaBundle tSize) ?c2 = (t, c3)" by fastforce
  note k3 = addTempWireBundle_ok [OF upd(1) t, simplified BetaBundle_def length_replicate]
  have "c = [?n..<?n + cSize]" using nw by (auto simp: new_wires_def begun_def concat_bundles)
  with k1 k3 upd o as0 v0 n have "started ins cSize tSize c t c3" by (auto simp: started_def extends_def)
  moreover have "new_circuit ins cSize tSize build = build (bundles 0 ins) c t c3" using b0 c2 t by (simp add: new_circuit_def)
  ultimately show ?thesis by blast
qed

lemma fold_load: "fold (\<lambda>(w, v) m. m(w := v)) (zip [k..<k + length vs] vs) m w = (if k \<le> w \<and> w < k + length vs then vs ! (w - k) else m w)"
proof (induction vs arbitrary: k m)
  case (Cons v vs)
  have "[k..<k + length (v # vs)] = k # [Suc k..<Suc k + length vs]" by (simp add: upt_conv_Cons del: upt_Suc)
  with Cons.IH [of "Suc k"] show ?case by (auto simp: nth_Cons' Suc_le_eq)
qed auto


lemma map_bundles: "map length input = ns \<Longrightarrow> map (map (\<lambda>w. concat input ! (w - k))) (bundles k ns) = input"
proof (induction input arbitrary: ns k)
  case (Cons x xs)
  then obtain ns' where ns: "ns = length x # ns'" "map length xs = ns'" by auto
  have "map (\<lambda>w. concat (x # xs) ! (w - k)) [k..<k + length x] = x"
    by (rule nth_equalityI) (simp_all add: nth_append)
  moreover have "map (map (\<lambda>w. concat (x # xs) ! (w - k))) (bundles (k + length x) ns') = map (map (\<lambda>w. concat xs ! (w - (k + length x)))) (bundles (k + length x) ns')"
    by (intro map_cong refl) (auto dest: bundles_nth_sub simp: nth_append diff_diff_left)
  ultimately show ?case using Cons.IH [OF ns(2), of "k + length x"] ns(1) by simp
qed simp

lemma load_bundles:
  assumes "mInputs cd = bundles 0 ins" "map length input = ins"
  shows "map (map (load_inputs cd input)) (bundles 0 ins) = input"
proof -
  have n: "length (concat input) = sum_list ins" using assms(2) by (simp add: length_concat)
  have "load_inputs cd input w = concat input ! w" if "w < sum_list ins" for w
    using that fold_load [of 0 "concat input" "\<lambda>_. False" w] assms(1) n by (simp add: load_inputs_def concat_bundles)
  then have "map (map (load_inputs cd input)) (bundles 0 ins) = map (map (\<lambda>w. concat input ! (w - 0))) (bundles 0 ins)"
    by (intro map_cong refl) (auto dest: bundles_nth_sub)
  with map_bundles [OF assms(2), of 0] show ?thesis by simp
qed

text \<open>What a builder computes is what the circuit evaluates to.\<close>

definition runs :: "BetaCircuit result \<Rightarrow> nat list \<Rightarrow> nat \<Rightarrow> (bool list list \<Rightarrow> nat \<Rightarrow> bool) \<Rightarrow> bool" where
  "runs built ins cSize f \<longleftrightarrow> (\<exists>cd. built = Inr cd \<and> circuit_ok cd \<and> mLevelCounts cd = [] \<and> map length (mInputs cd) = ins
     \<and> map length (mOutputs cd) = [cSize] \<and> (\<forall>w\<in>set (concat (mInputs cd)) \<union> set (concat (mOutputs cd)). w < mWireCount cd)
     \<and> (\<forall>input. map length input = ins \<longrightarrow> evaluate cd input [cSize] False = Inr ([], [map (f input) [0..<cSize]])))"

lemma new_circuit_ok:
  assumes "\<And>c t cd. started ins cSize tSize c t cd \<Longrightarrow>
      \<exists>cd' T k. build (bundles 0 ins) c t cd = Inr cd' \<and> computes cd cd' c (\<lambda>v. f (map (map v) (bundles 0 ins))) T k"
    and "sum_list ins + cSize \<le> no_wire"
  shows "runs (new_circuit ins cSize tSize build) ins cSize f"
proof -
  obtain c t cd where st: "started ins cSize tSize c t cd" "new_circuit ins cSize tSize build = build (bundles 0 ins) c t cd"
    using new_circuit_started by blast
  from assms(1) [OF st(1)] obtain cd' T k where
    cd': "build (bundles 0 ins) c t cd = Inr cd'" "computes cd cd' c (\<lambda>v. f (map (map v) (bundles 0 ins))) T k" by blast
  have e: "circuit_ok cd'" "mLevelCounts cd' = []" "mInputs cd' = bundles 0 ins" "mOutputs cd' = [c]" "sum_list ins + cSize \<le> mWireCount cd'"
    using cd'(2) st(1) by (auto simp: computes_def extends_def started_def)
  have c: "c = [sum_list ins..<sum_list ins + cSize]" using st(1) by (simp add: started_def)
  have ev: "evaluate cd' input [cSize] False = Inr ([], [map (f input) [0..<cSize]])" if "map length input = ins" for input
  proof -
    have "evaluate cd' input (map length (mOutputs cd')) False = Inr ([], map (map (cval cd' (load_inputs cd' input))) (mOutputs cd'))"
      by (rule evaluate_ok) (use e that c in \<open>auto simp: concat_bundles\<close>)
    moreover have "map (cval cd' (load_inputs cd' input)) c = map (f input) [0..<cSize]"
    proof (rule nth_equalityI)
      fix i assume "i < length (map (cval cd' (load_inputs cd' input)) c)"
      then have i: "i < cSize" "c ! i \<noteq> no_wire" using c assms(2) by auto
      have "cval cd' (load_inputs cd' input) (c ! i) = f (map (map (cval cd (load_inputs cd' input))) (bundles 0 ins)) i"
        using cd'(2) i c by (simp add: computes_def)
      moreover have "cval cd m = m" for m using st(1) by (simp add: started_def)
      ultimately show "map (cval cd' (load_inputs cd' input)) c ! i = map (f input) [0..<cSize] ! i"
        using load_bundles [OF e(3) that] i c by simp
    qed (simp add: c)
    ultimately show ?thesis by (simp add: e(4) c)
  qed
  have "\<forall>w\<in>set (concat (mInputs cd')) \<union> set (concat (mOutputs cd')). w < mWireCount cd'"
    unfolding e(3,4) concat_bundles using e(5) c by auto
  with st(2) cd'(1) e(1-4) ev c show ?thesis by (simp add: runs_def)
qed

section \<open>Levels that keep the order\<close>

lemma level_loop_acc: "level_loop single k ts (cs, as) = map_prod (append cs) (append as) (level_loop single k ts ([], []))"
proof (induction ts arbitrary: k cs as)
  case (Cons t ts)
  show ?case
    using Cons.IH [of 0 "cs @ [k + 1]" "as @ [1]"] Cons.IH [of 0 "[k + 1]" "[1]"] Cons.IH [of 0 "cs @ [k + 1]" "as @ [0]"]
      Cons.IH [of 0 "[k + 1]" "[0]"] Cons.IH [of "k + 1" cs as]
    by (cases "level_loop single 0 ts ([], [])"; cases single) (simp_all add: Let_def)
qed simp

definition levels_of :: "bool \<Rightarrow> nat \<Rightarrow> GateType list \<Rightarrow> nat list" where
  "levels_of single k ts = fst (level_loop single k ts ([], []))"

lemma levels_of_simps:
  "levels_of single k [] = (if k \<noteq> 0 then [k] else [])"
  "levels_of single k (t # ts) = (if \<not> isLinear t \<or> single then (k + 1) # levels_of single 0 ts else levels_of single (k + 1) ts)"
  using level_loop_acc [of single 0 ts "[k + 1]" "[1]"] level_loop_acc [of single 0 ts "[k + 1]" "[0]"]
  by (cases single; simp add: levels_of_def Let_def)+

lemma levels_of_ne: "k \<noteq> 0 \<or> ts \<noteq> [] \<Longrightarrow> \<exists>c cs. levels_of single k ts = c # cs \<and> k + of_bool (ts \<noteq> []) \<le> c"
proof (induction ts arbitrary: k)
  case (Cons t ts)
  show ?case using Cons.IH [of "k + 1"] by (fastforce simp: levels_of_simps)
qed (simp add: levels_of_simps)

text \<open>Before a gate of a circuit with levels: the rest of the level is the rest of what the loop counted.\<close>

definition at_level :: "bool \<Rightarrow> nat \<Rightarrow> nat \<Rightarrow> BetaGate list \<Rightarrow> (wire \<Rightarrow> bool) \<Rightarrow> eval_state \<Rightarrow> bool" where
  "at_level single k n gs v st \<longleftrightarrow> length (mem st) = n \<and> mem_fn (mem st) = v \<and> printed st = [] \<and> (gs \<noteq> [] \<longrightarrow> outOfDate st = replicate n False
     \<and> (\<exists>c. levels_of single k (map mType gs) = c # levels_left st \<and> curLevelRem st = Some (c - k)))"

lemma run_levels_ok:
  assumes "\<forall>g\<in>set gs. gate_ok n g" "at_level single k n gs v st"
  shows "\<exists>st'. run_gates True False i gs st = Inr st' \<and> at_level single k n [] (fold gate_fun gs v) st'"
  using assms
proof (induction gs arbitrary: i k st v)
  case (Cons g gs)
  obtain c where c: "levels_of single k (map mType (g # gs)) = c # levels_left st" "curLevelRem st = Some (c - k)"
    using Cons.prems(2) by (auto simp: at_level_def)
  from Cons.prems eval_gate_ok [of n g st True] obtain s1 where
    s1: "eval_gate True g st = Inr s1" "length (mem s1) = n" "mem_fn (mem s1) = gate_fun g v" "printed s1 = []"
      "outOfDate s1 = (if \<not> isLinear (mType g) then (replicate n False)[mOutput g := True] else replicate n False)"
      "curLevelRem s1 = Some (c - k)" "levels_left s1 = levels_left st"
    using c by (auto simp: at_level_def)
  define ends where "ends \<longleftrightarrow> \<not> isLinear (mType g) \<or> single"
  define k' where "k' = (if ends then 0 else k + 1)"
  have "\<exists>s2. next_level (gs = []) s1 = Inr s2 \<and> at_level single k' n gs (gate_fun g v) s2"
  proof (cases "gs = []")
    case True
    with s1 c show ?thesis by (auto simp: next_level_def at_level_def)
  next
    case False
    then obtain d ds where d: "levels_of single k' (map mType gs) = d # ds" "k' + 1 \<le> d"
      using levels_of_ne [of k' "map mType gs" single] by auto
    show ?thesis
    proof (cases ends)
      case True
      then have "c = k + 1" "levels_left st = d # ds" using c(1) d by (auto simp: levels_of_simps ends_def k'_def)
      with s1 False d True show ?thesis by (auto simp: next_level_def at_level_def k'_def)
    next
      case ne: False
      then have "c = d" "levels_left st = ds" using c(1) d by (auto simp: levels_of_simps ends_def k'_def)
      with s1 False d ne show ?thesis by (auto simp: next_level_def at_level_def k'_def ends_def)
    qed
  qed
  then obtain s2 where s2: "next_level (gs = []) s1 = Inr s2" "at_level single k' n gs (gate_fun g v) s2" by blast
  with Cons.IH [OF _ s2(2), of "i + 1"] Cons.prems(1) s1(1) show ?case
    by (simp add: at_level_def)
qed (simp add: at_level_def)

lemma levelNoReorder_fields:
  "mGates (levelNoReorder single cd) = mGates cd" "mInputs (levelNoReorder single cd) = mInputs cd" "mOutputs (levelNoReorder single cd) = mOutputs cd"
  "mWireCount (levelNoReorder single cd) = mWireCount cd" "mWireFlags (levelNoReorder single cd) = mWireFlags cd" "mPrints (levelNoReorder single cd) = mPrints cd"
  "mLevelCounts cd = [] \<Longrightarrow> mLevelCounts (levelNoReorder single cd) = levels_of single 0 (map mType (mGates cd))"
  using level_loop_acc [of single 0 "map mType (mGates cd)" "[]" "mLevelAndCounts cd"]
  by (cases "level_loop single 0 (map mType (mGates cd)) ([], [])"; auto simp: levelNoReorder_def levels_of_def split: prod.splits)+

lemma evaluate_levelled:
  assumes "circuit_ok cd" "mLevelCounts cd = []" "map length input = map length (mInputs cd)"
    and "\<forall>w\<in>set (concat (mInputs cd)). w < mWireCount cd" "\<forall>w\<in>set (concat (mOutputs cd)). w < mWireCount cd"
  shows "evaluate (levelNoReorder single cd) input (map length (mOutputs cd)) False = evaluate cd input (map length (mOutputs cd)) False"
proof -
  let ?l = "levelNoReorder single cd"
  note f = levelNoReorder_fields [where single = single and cd = cd]
  have lv: "load_inputs ?l = load_inputs cd" and cv: "cval ?l = cval cd" by (auto simp: load_inputs_def cval_def flag_def f fun_eq_iff)
  have "evaluate ?l input (map length (mOutputs ?l)) False = Inr ([], map (map (cval ?l (load_inputs ?l input))) (mOutputs ?l))"
  proof (rule evaluate_run)
    fix st :: eval_state
    assume a: "at_gate (mWireCount ?l) (load_inputs ?l input) (st\<lparr>curLevelRem := None\<rparr>)" "levels_left st = tl (mLevelCounts ?l)"
      "curLevelRem st = (if mLevelCounts ?l = [] then None else Some (hd (mLevelCounts ?l)))"
    show "\<exists>st'. run_gates (mLevelCounts ?l \<noteq> []) False 0 (mGates ?l) st = Inr st' \<and> length (mem st') = mWireCount ?l
      \<and> mem_fn (mem st') = fold gate_fun (mGates ?l) (load_inputs ?l input) \<and> printed st' = []"
    proof (cases "mGates cd = []")
      case True
      with a(1) show ?thesis by (simp add: f at_gate_def)
    next
      case False
      then obtain c cs where c: "mLevelCounts ?l = c # cs"
        using f(7) [OF assms(2)] levels_of_ne [of 0 "map mType (mGates cd)" single] by auto
      then have "at_level single 0 (mWireCount cd) (mGates cd) (load_inputs cd input) st"
        using a f(7) [OF assms(2)] by (auto simp: at_level_def at_gate_def f(4) lv)
      from run_levels_ok [OF _ this, of 0] assms(1) c show ?thesis by (auto simp: f lv circuit_ok_def at_level_def)
    qed
  qed (use assms in \<open>simp_all add: f circuit_ok_def\<close>)
  then show ?thesis using evaluate_ok [OF assms] by (simp add: f lv cv)
qed

section \<open>The circuits of the library\<close>

lemma started_operand:
  assumes "started ins cSize tSize c t cd" "i < length ins" "it = Unsigned \<or> 0 < ins ! i"
  shows "operand cd it (bundles 0 ins ! i)" "set (bundles 0 ins ! i) \<subseteq> {..<sum_list ins}" "length (bundles 0 ins ! i) = ins ! i"
proof -
  have b: "bundles 0 ins ! i \<in> set (bundles 0 ins)" using assms(2) by simp
  then show s: "set (bundles 0 ins ! i) \<subseteq> {..<sum_list ins}" by (auto dest: bundles_nth_sub)
  show l: "length (bundles 0 ins ! i) = ins ! i"
    using nth_map [of i "bundles 0 ins" length] assms(2) by simp
  have "bundles 0 ins ! i \<noteq> []" if "it \<noteq> Unsigned" using l assms(3) that by auto
  then show "operand cd it (bundles 0 ins ! i)" using s assms(1) by (auto simp: operand_def started_def)
qed

lemma started_writable: "started ins cSize tSize c t cd \<Longrightarrow> writable cd c \<and> length c = cSize \<and> set c = {sum_list ins..<sum_list ins + cSize}"
  by (auto simp: started_def writable_def)

lemma started_temps:
  assumes "started ins cSize tSize c t cd" "4 \<le> tSize" "\<forall>w\<in>set used. w < sum_list ins + cSize"
  shows "temps_ok cd t used"
proof -
  have t: "take 4 t = [sum_list ins + cSize..<sum_list ins + cSize + 4]" using assms(1,2) by (auto simp: started_def take_upt)
  have "length t = tSize" using assms(1) by (simp add: started_def)
  with assms t show ?thesis unfolding temps_ok_def t by (fastforce simp: started_def)
qed

context adder
begin

lemma adder_runs:
  assumes "it = Unsigned \<or> 0 < aSize \<and> 0 < bSize" "0 < cSize" "aSize + bSize + 3 * cSize + tSize + 2 \<le> no_wire" "op = Opt_Size \<Longrightarrow> 4 \<le> tSize"
    "op = Opt_Depth \<Longrightarrow> at = Subtraction \<Longrightarrow> it = Unsigned \<Longrightarrow> cSize \<le> max aSize bSize + 1"
  shows "runs (new_circuit [aSize, bSize] cSize tSize (\<lambda>ins. adder_build op at it (ins ! 0) (ins ! 1))) [aSize, bSize] cSize
    (\<lambda>ins. bit (arith at (ival it (ins ! 0)) (ival it (ins ! 1))))"
proof (rule new_circuit_ok)
  fix c t cd assume st: "started [aSize, bSize] cSize tSize c t cd"
  let ?b = "bundles 0 [aSize, bSize]"
  note o = started_operand [OF st, of 0 it] started_operand [OF st, of 1 it] and tg = started_writable [OF st]
  have "\<exists>cd'. adder_build op at it (?b ! 0) (?b ! 1) c t cd = Inr cd'
    \<and> computes cd cd' c (\<lambda>v. bit (arith at (ival it (map v (?b ! 0))) (ival it (map v (?b ! 1))))) (set (take 4 t)) (2 * length c + 2)"
  proof (rule adder_ok)
    show "circuit_ok cd" using st by (simp add: started_def)
    show "mWireCount cd + 2 * length c + 2 \<le> no_wire" using st tg assms(3) by (simp add: started_def)
    show "c \<noteq> []" using tg assms(2) by auto
    show "set c \<inter> (set (?b ! 0) \<union> set (?b ! 1)) = {}" using o(2,5) tg by fastforce
    show "temps_ok cd t (?b ! 0 @ ?b ! 1 @ c)" if "op = Opt_Size"
      using assms(4) [OF that] o(2,5) tg by (intro started_temps [OF st]) auto
  qed (use o assms(1,5) tg in auto)
  then show "\<exists>cd' T k. adder_build op at it (?b ! 0) (?b ! 1) c t cd = Inr cd'
    \<and> computes cd cd' c (\<lambda>v. bit (arith at (ival it (map (map v) ?b ! 0)) (ival it (map (map v) ?b ! 1)))) T k"
    by auto
qed (use assms(3) in simp)

lemma lessThan_runs:
  assumes "it = Unsigned \<or> 0 < aSize \<and> 0 < bSize" "aSize + bSize + 5 * max aSize bSize + 9 \<le> no_wire"
  shows "runs (new_circuit [aSize, bSize] 1 0 (\<lambda>ins c t. lessThan_build op it (ins ! 0) (ins ! 1) c)) [aSize, bSize] 1
      (\<lambda>ins _. ival it (ins ! 0) < ival it (ins ! 1))" (is ?lt)
    and "runs (new_circuit [aSize, bSize] 1 0 (\<lambda>ins c t. greaterThanEq_build op it (ins ! 0) (ins ! 1) c)) [aSize, bSize] 1
      (\<lambda>ins _. ival it (ins ! 1) \<le> ival it (ins ! 0))" (is ?ge)
proof -
  let ?b = "bundles 0 [aSize, bSize]" and ?s = "max aSize bSize"
  have pre: "circuit_ok cd \<and> ?s = max (length (?b ! 0)) (length (?b ! 1)) \<and> mWireCount cd + 5 * ?s + 8 \<le> no_wire
      \<and> operand cd it (?b ! 0) \<and> operand cd it (?b ! 1) \<and> aSize + bSize < mWireCount cd \<and> aSize + bSize \<notin> set (?b ! 0) \<union> set (?b ! 1) \<and> c = [aSize + bSize]"
    if st: "started [aSize, bSize] 1 0 c t cd" for c t cd
    using started_operand [OF st, of 0 it] started_operand [OF st, of 1 it] assms st by (auto simp: started_def)
  show ?lt
  proof (rule new_circuit_ok)
    fix c t cd assume "started [aSize, bSize] 1 0 c t cd"
    note p = pre [OF this]
    from p lessThan_ok [of cd ?s "?b ! 0" "?b ! 1" it "aSize + bSize"]
    show "\<exists>cd' T k. lessThan_build op it (?b ! 0) (?b ! 1) c cd = Inr cd'
      \<and> computes cd cd' c (\<lambda>v _. ival it (map (map v) ?b ! 0) < ival it (map (map v) ?b ! 1)) T k"
      by auto
  qed (use assms(2) in simp)
  show ?ge
  proof (rule new_circuit_ok)
    fix c t cd assume "started [aSize, bSize] 1 0 c t cd"
    note p = pre [OF this]
    from p greaterThanEq_ok [of cd ?s "?b ! 0" "?b ! 1" it "aSize + bSize"]
    show "\<exists>cd' T k. greaterThanEq_build op it (?b ! 0) (?b ! 1) c cd = Inr cd'
      \<and> computes cd cd' c (\<lambda>v _. ival it (map (map v) ?b ! 1) \<le> ival it (map (map v) ?b ! 0)) T k"
      by auto
  qed (use assms(2) in simp)
qed

lemma int_negate_runs:
  assumes "0 < aSize" "7 * aSize + 8 \<le> no_wire"
  shows "runs (int_negate aSize op) [aSize] aSize (\<lambda>ins. bit (- ival TwosComplement (ins ! 0)))"
  unfolding int_negate_def
proof (rule new_circuit_ok)
  fix c t cd assume st: "started [aSize] aSize (4 + 2 * aSize) c t cd"
  let ?b = "bundles 0 [aSize]"
  note o = started_operand [OF st, of 0 TwosComplement] and tg = started_writable [OF st]
  have n: "length (?b ! 0) = aSize" "mWireCount cd = 4 + 4 * aSize" "circuit_ok cd" using o st by (simp_all add: started_def)
  have tm: "temps_ok cd t c" using tg by (intro started_temps [OF st]) auto
  have ne: "?b ! 0 \<noteq> []" "c \<noteq> []" using n(1) tg assms(1) by auto
  have "\<exists>cd'. int_negate_build op (?b ! 0) c t cd = Inr cd'
    \<and> computes cd cd' c (\<lambda>v. bit (- ival TwosComplement (map v (?b ! 0)))) (set (take 4 t)) (length (?b ! 0) + 2 * length c + 4)"
    by (rule int_negate_ok) (use n tg o assms tm ne in \<open>auto simp: operand_def\<close>)
  then show "\<exists>cd' T k. int_negate_build op (?b ! 0) c t cd = Inr cd' \<and> computes cd cd' c (\<lambda>v. bit (- ival TwosComplement (map (map v) ?b ! 0))) T k"
    by auto
qed (use assms(2) in simp)

lemma int_removeSign_runs:
  assumes "0 < aSize" "7 * aSize + 8 \<le> no_wire"
  shows "runs (int_removeSign aSize op) [aSize] aSize (\<lambda>ins. bit \<bar>ival TwosComplement (ins ! 0)\<bar>)"
  unfolding int_removeSign_def
proof (rule new_circuit_ok)
  fix c t cd assume st: "started [aSize] aSize (4 + 2 * aSize) c t cd"
  let ?b = "bundles 0 [aSize]"
  note o = started_operand [OF st, of 0 TwosComplement] and tg = started_writable [OF st]
  have n: "length (?b ! 0) = aSize" "mWireCount cd = 4 + 4 * aSize" "circuit_ok cd" "distinct c" using o st by (simp_all add: started_def)
  have tm: "temps_ok cd t (?b ! 0 @ c)" using tg o by (intro started_temps [OF st]) auto
  have ne: "?b ! 0 \<noteq> []" "c \<noteq> []" "set c \<inter> set (?b ! 0) = {}" using n(1) tg assms(1) o(2) by fastforce+
  have "\<exists>cd'. removeSign_build op (?b ! 0) c t cd = Inr cd'
    \<and> computes cd cd' c (\<lambda>v. bit \<bar>ival TwosComplement (map v (?b ! 0))\<bar>) (set (take 4 t)) (length (?b ! 0) + 2 * length c + 4)"
    by (rule removeSign_ok) (use n tg o assms tm ne in \<open>auto simp: operand_def\<close>)
  then show "\<exists>cd' T k. removeSign_build op (?b ! 0) c t cd = Inr cd' \<and> computes cd cd' c (\<lambda>v. bit \<bar>ival TwosComplement (map (map v) ?b ! 0)\<bar>) T k"
    by auto
qed (use assms(2) in simp)

lemma int_addSign_runs:
  assumes "0 < aSize" "8 * aSize + 9 \<le> no_wire"
  shows "runs (int_addSign aSize op) [aSize, 1] aSize
    (\<lambda>ins. bit (if ins ! 1 ! 0 then - ival TwosComplement (ins ! 0) else ival TwosComplement (ins ! 0)))"
  unfolding int_addSign_def
proof (rule new_circuit_ok)
  fix c t cd assume st: "started [aSize, 1] aSize (4 + 2 * aSize) c t cd"
  let ?b = "bundles 0 [aSize, 1]"
  note o = started_operand [OF st, of 0 TwosComplement] and tg = started_writable [OF st]
  have s: "?b ! 1 = [aSize]" by simp
  have e: "map (map v) ?b ! 0 = map v (?b ! 0)" "map (map v) ?b ! 1 ! 0 = v aSize" for v :: "wire \<Rightarrow> bool" by simp_all
  have n: "length (?b ! 0) = aSize" "mWireCount cd = 5 + 4 * aSize" "circuit_ok cd" "distinct c" "assigned cd aSize" using o st by (simp_all add: started_def)
  have tm: "temps_ok cd t (?b ! 0 @ aSize # c)" using tg o by (intro started_temps [OF st]) auto
  have ne: "?b ! 0 \<noteq> []" "c \<noteq> []" "set c \<inter> (set (?b ! 0) \<union> {aSize}) = {}" using n(1) tg assms(1) o(2) by fastforce+
  have "\<exists>cd'. int_addSign_build op (?b ! 0) [aSize] c t cd = Inr cd'
    \<and> computes cd cd' c (\<lambda>v. bit (if v aSize then - ival TwosComplement (map v (?b ! 0)) else ival TwosComplement (map v (?b ! 0)))) (set (take 4 t)) (4 * length (?b ! 0) + 4)"
    by (rule int_addSign_ok) (use n tg o assms tm ne in \<open>auto simp: operand_def\<close>)
  then show "\<exists>cd' T k. int_addSign_build op (?b ! 0) (?b ! 1) c t cd = Inr cd'
    \<and> computes cd cd' c (\<lambda>v. bit (if map (map v) ?b ! 1 ! 0 then - ival TwosComplement (map (map v) ?b ! 0) else ival TwosComplement (map (map v) ?b ! 0))) T k"
    unfolding e s by blast
qed (use assms(2) in simp)

end

text \<open>The bitwise operations, inversion and selection, which need no adder.\<close>

lemma computes_frame:
  assumes "circuit_ok cd'" "same_frame cd cd'" "\<And>m i. i < length out \<Longrightarrow> cval cd' m (out ! i) = f (cval cd m) i"
    and "\<And>m w. w \<notin> set out \<Longrightarrow> w \<notin> T \<Longrightarrow> cval cd' m w = cval cd m w" "\<And>w. assigned cd w \<or> w \<in> set out \<Longrightarrow> assigned cd' w"
  shows "computes cd cd' out f T 0"
  using assms by (auto simp: computes_def extends_def same_frame_def)

lemma started_distinct: "started ins cSize tSize c t cd \<Longrightarrow> distinct c \<and> circuit_ok cd \<and> (\<forall>w\<in>set c. w < mWireCount cd)"
  by (auto simp: started_def)

lemma bitwise_runs:
  assumes "gt \<notin> set unary_gates" "cSize \<le> aSize" "2 * aSize + cSize \<le> no_wire"
  shows "runs (new_circuit [aSize, aSize] cSize 0 (\<lambda>ins c t. bitwise_build gt (ins ! 0) (ins ! 1) c)) [aSize, aSize] cSize
    (\<lambda>ins i. GateEval gt (ins ! 0 ! i) (ins ! 1 ! i))"
proof (rule new_circuit_ok)
  fix c t cd assume st: "started [aSize, aSize] cSize 0 c t cd"
  let ?b = "bundles 0 [aSize, aSize]"
  note o = started_operand [OF st, of 0 Unsigned, simplified] started_operand [OF st, of 1 Unsigned, simplified]
    and tg = started_writable [OF st] and ds = started_distinct [OF st]
  have "\<exists>cd'. bitwise_build gt (?b ! 0) (?b ! 1) c cd = Inr cd' \<and> circuit_ok cd' \<and> same_frame cd cd'
    \<and> (\<forall>m i. i < length c \<longrightarrow> cval cd' m (c ! i) = GateEval gt (cval cd m (?b ! 0 ! i)) (cval cd m (?b ! 1 ! i)))
    \<and> (\<forall>m w. w \<notin> set c \<longrightarrow> cval cd' m w = cval cd m w) \<and> (\<forall>w. assigned cd' w \<longleftrightarrow> assigned cd w \<or> w \<in> set c)"
  proof (rule bitwise_build_ok)
    show "\<forall>w\<in>set (?b ! 0) \<union> set (?b ! 1). assigned cd w" using o by (auto simp: operand_def)
    show "c ! i \<noteq> ?b ! 0 ! j \<and> c ! i \<noteq> ?b ! 1 ! j" if "i < j" "j < length c" for i j
    proof -
      have "c ! i \<in> set c" "j < aSize" using that tg assms(2) by auto
      with tg show ?thesis by auto
    qed
  qed (use o tg ds assms in auto)
  then obtain cd' where c': "bitwise_build gt (?b ! 0) (?b ! 1) c cd = Inr cd'" "circuit_ok cd'" "same_frame cd cd'"
    "\<And>m i. i < length c \<Longrightarrow> cval cd' m (c ! i) = GateEval gt (cval cd m (?b ! 0 ! i)) (cval cd m (?b ! 1 ! i))"
    "\<And>m w. w \<notin> set c \<Longrightarrow> cval cd' m w = cval cd m w" "\<And>w. assigned cd w \<or> w \<in> set c \<Longrightarrow> assigned cd' w" by blast
  have "computes cd cd' c (\<lambda>v i. GateEval gt (v (?b ! 0 ! i)) (v (?b ! 1 ! i))) {} 0"
    by (rule computes_frame [OF c'(2,3)]) (use c' in auto)
  moreover note c'(1)
  moreover have "computes cd cd' c (\<lambda>v i. GateEval gt (v (?b ! 0 ! i)) (v (?b ! 1 ! i))) {} 0
    \<Longrightarrow> computes cd cd' c (\<lambda>v i. GateEval gt (map (map v) ?b ! 0 ! i) (map (map v) ?b ! 1 ! i)) {} 0" for cd'
    using tg assms(2) by (auto simp: computes_def)
  ultimately show "\<exists>cd' T k. bitwise_build gt (?b ! 0) (?b ! 1) c cd = Inr cd'
    \<and> computes cd cd' c (\<lambda>v i. GateEval gt (map (map v) ?b ! 0 ! i) (map (map v) ?b ! 1 ! i)) T k" by blast
qed (use assms(3) in simp)

lemma bitInvert_runs:
  assumes "2 * aSize \<le> no_wire"
  shows "runs (int_bitInvert aSize) [aSize] aSize (\<lambda>ins i. \<not> ins ! 0 ! i)"
  unfolding int_bitInvert_def
proof (rule new_circuit_ok)
  fix c t cd assume st: "started [aSize] aSize 0 c t cd"
  let ?b = "bundles 0 [aSize]"
  note o = started_operand [OF st, of 0 Unsigned, simplified] and tg = started_writable [OF st] and ds = started_distinct [OF st]
  have "\<exists>cd'. bitwiseInvert_build (?b ! 0) c cd = Inr cd' \<and> circuit_ok cd' \<and> same_frame cd cd'
    \<and> (\<forall>m i. i < length c \<longrightarrow> cval cd' m (c ! i) = (\<not> cval cd m (?b ! 0 ! i)))
    \<and> (\<forall>m w. w \<notin> set c \<longrightarrow> cval cd' m w = cval cd m w) \<and> (\<forall>w. assigned cd' w \<longleftrightarrow> assigned cd w \<or> w \<in> set c)"
    by (rule bitwiseInvert_ok) (use o tg ds in \<open>auto simp: operand_def\<close>)
  then obtain cd' where c': "bitwiseInvert_build (?b ! 0) c cd = Inr cd'" "circuit_ok cd'" "same_frame cd cd'"
    "\<And>m i. i < length c \<Longrightarrow> cval cd' m (c ! i) = (\<not> cval cd m (?b ! 0 ! i))"
    "\<And>m w. w \<notin> set c \<Longrightarrow> cval cd' m w = cval cd m w" "\<And>w. assigned cd w \<or> w \<in> set c \<Longrightarrow> assigned cd' w" by blast
  have "computes cd cd' c (\<lambda>v i. \<not> v (?b ! 0 ! i)) {} 0"
    by (rule computes_frame [OF c'(2,3)]) (use c' in auto)
  moreover note c'(1)
  moreover have "computes cd cd' c (\<lambda>v i. \<not> v (?b ! 0 ! i)) {} 0 \<Longrightarrow> computes cd cd' c (\<lambda>v i. \<not> map (map v) ?b ! 0 ! i) {} 0" for cd'
    using tg by (auto simp: computes_def)
  ultimately show "\<exists>cd' T k. bitwiseInvert_build (?b ! 0) c cd = Inr cd' \<and> computes cd cd' c (\<lambda>v i. \<not> map (map v) ?b ! 0 ! i) T k" by blast
qed (use assms in simp)

lemma multiplex_runs:
  assumes "3 * aSize + 4 \<le> no_wire"
  shows "runs (int_int_multiplex aSize) [aSize, aSize, 1] aSize (\<lambda>ins i. if ins ! 2 ! 0 then ins ! 0 ! i else ins ! 1 ! i)"
  unfolding int_int_multiplex_def
proof (rule new_circuit_ok)
  fix c t cd assume st: "started [aSize, aSize, 1] aSize 3 c t cd"
  let ?b = "bundles 0 [aSize, aSize, 1]" and ?s = "2 * aSize"
  note o = started_operand [OF st, of 0 Unsigned, simplified] started_operand [OF st, of 1 Unsigned, simplified]
    and tg = started_writable [OF st] and ds = started_distinct [OF st]
  have s: "?b ! 2 = [?s]" by simp
  have h: "t \<noteq> []" "hd t = 3 * aSize + 1" "hd t < mWireCount cd" using st by (auto simp: started_def hd_upt)
  have as: "\<forall>w\<in>set (?b ! 0) \<union> set (?b ! 1) \<union> {?s}. assigned cd w" using o st by (auto simp: operand_def started_def)
  have "\<exists>cd'. multiplex_build (?b ! 0) (?b ! 1) [?s] c t cd = Inr cd' \<and> circuit_ok cd' \<and> same_frame cd cd'
    \<and> (\<forall>m i. i < length c \<longrightarrow> cval cd' m (c ! i) = (if cval cd m ?s then cval cd m (?b ! 0 ! i) else cval cd m (?b ! 1 ! i)))
    \<and> (\<forall>m w. w \<notin> set c \<longrightarrow> w \<noteq> hd t \<longrightarrow> cval cd' m w = cval cd m w) \<and> (\<forall>w. assigned cd w \<or> w \<in> set c \<longrightarrow> assigned cd' w)"
  proof (rule multiplex_ok [OF _ _ _ h(1) as _ h(3)])
    show "hd t \<notin> set (?b ! 0) \<union> set (?b ! 1) \<union> set c \<union> {?s}" using o tg h(2) by auto
    show "c ! i \<noteq> ?b ! 0 ! j \<and> c ! i \<noteq> ?b ! 1 ! j" if "i < j" "j < length c" for i j
    proof -
      have "c ! i \<in> set c" "j < aSize" using that tg by auto
      with tg show ?thesis by auto
    qed
  qed (use o tg ds in auto)
  then obtain cd' where c': "multiplex_build (?b ! 0) (?b ! 1) [?s] c t cd = Inr cd'" "circuit_ok cd'" "same_frame cd cd'"
    "\<And>m i. i < length c \<Longrightarrow> cval cd' m (c ! i) = (if cval cd m ?s then cval cd m (?b ! 0 ! i) else cval cd m (?b ! 1 ! i))"
    "\<And>m w. w \<notin> set c \<Longrightarrow> w \<noteq> hd t \<Longrightarrow> cval cd' m w = cval cd m w" "\<And>w. assigned cd w \<or> w \<in> set c \<Longrightarrow> assigned cd' w" by blast
  have e: "map (map v) ?b ! 2 ! 0 = v ?s" for v :: "wire \<Rightarrow> bool" by (simp add: mult_2)
  have f: "map (map v) ?b ! 0 ! i = v (?b ! 0 ! i)" "map (map v) ?b ! 1 ! i = v (?b ! 1 ! i)" if "i < aSize" for v :: "wire \<Rightarrow> bool" and i
    using that by simp_all
  have "computes cd cd' c (\<lambda>v i. if map (map v) ?b ! 2 ! 0 then map (map v) ?b ! 0 ! i else map (map v) ?b ! 1 ! i) {hd t} 0"
  proof (rule computes_frame [OF c'(2,3)])
    fix m i assume i: "i < length c"
    then have "i < aSize" using tg by simp
    with c'(4) [OF i, of m] show "cval cd' m (c ! i) = (if map (map (cval cd m)) ?b ! 2 ! 0 then map (map (cval cd m)) ?b ! 0 ! i else map (map (cval cd m)) ?b ! 1 ! i)"
      by (simp only: e f)
  qed (use c'(5,6) in auto)
  with c'(1) show "\<exists>cd' T k. multiplex_build (?b ! 0) (?b ! 1) (?b ! 2) c t cd = Inr cd'
    \<and> computes cd cd' c (\<lambda>v i. if map (map v) ?b ! 2 ! 0 then map (map v) ?b ! 0 ! i else map (map v) ?b ! 1 ! i) T k" unfolding s by blast
qed (use assms in simp)

end
