(* ===== verification/CircuitEq.thy ===== *)
theory CircuitEq
  imports CircuitTop
begin

text \<open>
  The equality circuit. Every level conjoins neighbours and leaves out the last of an odd number of wires, so what the
  circuit compares are the lowest \<open>2 ^ L\<close> bits, \<open>2 ^ L\<close> being the largest power of two that the size reaches.
\<close>

section \<open>Equality\<close>

lemma res_fold_cong: "\<forall>x\<in>set xs. f x = g x \<Longrightarrow> res_fold f xs s = res_fold g xs s"
  by (induction xs arbitrary: s) (auto simp: res_bind_def split: sum.splits)

definition same_bits :: "BetaCircuit \<Rightarrow> (wire \<Rightarrow> bool) \<Rightarrow> wires \<Rightarrow> wires \<Rightarrow> nat \<Rightarrow> nat \<Rightarrow> bool" where
  "same_bits cd m a1 a2 i k \<longleftrightarrow> (\<forall>x. i \<le> x \<and> x < k \<longrightarrow> cval cd m (a1 ! x) = cval cd m (a2 ! x))"

lemma same_bits_join: "i \<le> j \<Longrightarrow> j \<le> k \<Longrightarrow> same_bits cd m a1 a2 i j \<and> same_bits cd m a1 a2 j k \<longleftrightarrow> same_bits cd m a1 a2 i k"
  by (auto simp: same_bits_def) (metis le_trans less_le_trans not_less)+

definition eq_vals :: "wires \<Rightarrow> wires \<Rightarrow> BetaCircuit \<Rightarrow> nat \<Rightarrow> wires \<Rightarrow> BetaCircuit \<Rightarrow> bool" where
  "eq_vals a1 a2 c0 i temp cd \<longleftrightarrow> (\<forall>m j. j < length temp \<longrightarrow> cval cd m (temp ! j) = same_bits c0 m a1 a2 (j * 2 ^ i) ((j + 1) * 2 ^ i))"

definition at_eq_level :: "nat \<Rightarrow> nat \<Rightarrow> wire \<Rightarrow> wires \<Rightarrow> wires \<Rightarrow> BetaCircuit \<Rightarrow> nat \<Rightarrow> wires \<times> BetaCircuit \<Rightarrow> bool" where
  "at_eq_level bits L r a1 a2 c0 i = (\<lambda>(temp, cd). extends c0 cd \<and> (\<forall>w. assigned c0 w \<longrightarrow> assigned cd w)
     \<and> (\<forall>m w. w \<noteq> r \<longrightarrow> w < mWireCount c0 \<longrightarrow> cval cd m w = cval c0 m w)
     \<and> (if i \<le> L then length temp = bits div 2 ^ i \<and> (if i = L then temp = [r] else \<forall>w\<in>set temp. mWireCount c0 \<le> w)
          \<and> (\<forall>w\<in>set temp. assigned cd w)
          \<and> eq_vals a1 a2 c0 i temp cd
        else assigned cd r \<and> (\<forall>m. cval cd m r = same_bits c0 m a1 a2 0 (2 ^ L))))"

lemma at_eq_last:
  assumes I: "at_eq_level bits L r a1 a2 c0 i (temp, cd)" and L: "L \<le> i"
  shows "assigned cd r \<and> (\<forall>m. cval cd m r = same_bits c0 m a1 a2 0 (2 ^ L))"
proof (cases "i = L")
  case True
  with I have "temp = [r]" "\<forall>w\<in>set temp. assigned cd w" "eq_vals a1 a2 c0 L temp cd" by (auto simp: at_eq_level_def)
  then show ?thesis by (auto simp: eq_vals_def)
qed (use I L in \<open>simp add: at_eq_level_def\<close>)

lemma eq_level_ok:
  assumes I: "at_eq_level bits L r a1 a2 c0 i (temp, cd)" and L: "2 ^ L \<le> bits" "bits < 2 ^ Suc L" and r: "r < mWireCount c0"
  shows "\<exists>s. eq_level bits r i (temp, cd) = Inr s \<and> at_eq_level bits L r a1 a2 c0 (Suc i) s"
proof (cases "i < L")
  case False
  then have "(2 :: nat) ^ Suc L \<le> 2 * 2 ^ i" by (simp add: power_increasing)
  with L(2) have "bits < 2 * 2 ^ i" by linarith
  then have sz: "bits div 2 div 2 ^ i = 0" by (simp add: div_mult2_eq [symmetric])
  obtain t c1 where t: "addTempWireBundle (BetaBundle 0) cd = (t, c1)" by fastforce
  have "circuit_ok cd" using I by (auto simp: at_eq_level_def)
  note tk = addTempWireBundle_ok [OF this t]
  have "assigned cd r \<and> (\<forall>m. cval cd m r = same_bits c0 m a1 a2 0 (2 ^ L))"
    by (rule at_eq_last [OF I]) (use False in simp)
  with I tk False have "at_eq_level bits L r a1 a2 c0 (Suc i) (t, c1)" by (auto simp: at_eq_level_def intro: extends_trans)
  moreover have "eq_level bits r i (temp, cd) = Inr (t, c1)" using t by (simp add: eq_level_def sz)
  ultimately show ?thesis by blast
next
  case True
  let ?sz = "bits div 2 div 2 ^ i"
  have sz: "?sz = bits div 2 ^ Suc i" by (simp add: div_mult2_eq)
  have one: "?sz = 1 \<longleftrightarrow> Suc i = L"
  proof
    assume "Suc i = L"
    then show "?sz = 1" using L unfolding sz by (simp add: div_nat_eqI)
  next
    assume s: "?sz = 1"
    show "Suc i = L"
    proof (rule ccontr)
      assume "Suc i \<noteq> L"
      with True have "(2 :: nat) ^ (i + 2) \<le> 2 ^ L" by (simp add: power_increasing del: power_Suc power.simps)
      with L(1) have "2 * 2 ^ Suc i \<le> bits" by simp
      then have "2 \<le> bits div 2 ^ Suc i" by (simp add: less_eq_div_iff_mult_less_eq)
      with s sz show False by simp
    qed
  qed
  have le: "2 * ?sz \<le> length temp" using I True by (simp add: at_eq_level_def div_mult2_eq [symmetric] mult.commute [of 2] times_div_less_eq_dividend) 
    (metis div_mult2_eq div_times_less_eq_dividend mult.commute)
  have ok: "circuit_ok cd" using I by (auto simp: at_eq_level_def)
  have tw: "\<forall>w\<in>set temp. mWireCount c0 \<le> w \<and> assigned cd w \<and> w < mWireCount cd" using I True ok by (auto simp: at_eq_level_def intro: assigned_lt)
  obtain t2 c1 where t2: "(if ?sz = 1 then ([r], cd) else addTempWireBundle (BetaBundle ?sz) cd) = (t2, c1)" by fastforce
  have k: "extends cd c1" "length t2 = ?sz" "distinct t2" "\<And>m. cval c1 m = cval cd m" "\<And>w. assigned c1 w = assigned cd w"
    "set t2 \<inter> set temp = {}" "\<forall>w\<in>set t2. w < mWireCount c1" "if Suc i = L then t2 = [r] else \<forall>w\<in>set t2. mWireCount c0 \<le> w"
  proof (goal_cases)
    have "mWireCount c0 \<le> mWireCount cd" using I by (auto simp: at_eq_level_def extends_def)
    with r have rl: "r < mWireCount cd" "r \<notin> set temp" using tw by auto
    note tk = addTempWireBundle_ok [OF ok, of "BetaBundle ?sz" t2 c1, simplified BetaBundle_def length_replicate]
    have n: "?sz \<noteq> 1 \<Longrightarrow> addTempWireBundle (replicate ?sz no_wire) cd = (t2, c1)" using t2 by (simp add: BetaBundle_def)
    have o: "?sz = 1 \<Longrightarrow> t2 = [r] \<and> c1 = cd" using t2 by simp
    { case 1 show ?case using ok tk(1) [OF n] o by (cases "?sz = 1") auto }
    { case 2 show ?case using tk(3) [OF n] o by (cases "?sz = 1") auto }
    { case 3 show ?case using tk(3) [OF n] o by (cases "?sz = 1") auto }
    { case 4 show ?case using tk(4) [OF n] o by (cases "?sz = 1") auto }
    { case 5 show ?case using tk(5) [OF n] o by (cases "?sz = 1") auto }
    { case 6 show ?case using tk(3) [OF n] o rl tw by (cases "?sz = 1") fastforce+ }
    { case 7 show ?case using tk(2,3) [OF n] o rl by (cases "?sz = 1") auto }
    { case 8 show ?case using tk(3) [OF n] o \<open>mWireCount c0 \<le> mWireCount cd\<close> unfolding one [symmetric] by (cases "?sz = 1") auto }
  qed
  let ?x = "map (\<lambda>j. temp ! (2 * j)) [0..<?sz]" and ?y = "map (\<lambda>j. temp ! (2 * j + 1)) [0..<?sz]"
  have tm: "temp ! (2 * j) \<in> set temp" "temp ! (2 * j + 1) \<in> set temp" if "j < ?sz" for j using that le by auto
  have "\<exists>c2. bitwise_build G_And ?x ?y t2 c1 = Inr c2 \<and> circuit_ok c2 \<and> same_frame c1 c2
    \<and> (\<forall>m j. j < length t2 \<longrightarrow> cval c2 m (t2 ! j) = GateEval G_And (cval c1 m (?x ! j)) (cval c1 m (?y ! j)))
    \<and> (\<forall>m w. w \<notin> set t2 \<longrightarrow> cval c2 m w = cval c1 m w) \<and> (\<forall>w. assigned c2 w \<longleftrightarrow> assigned c1 w \<or> w \<in> set t2)"
  proof (rule bitwise_build_ok)
    show "\<forall>w\<in>set ?x \<union> set ?y. assigned c1 w" using tm tw k(5) by fastforce
    show "t2 ! p \<noteq> ?x ! q \<and> t2 ! p \<noteq> ?y ! q" if "p < q" "q < length t2" for p q
    proof -
      have "t2 ! p \<in> set t2" "q < ?sz" using that k(2) by auto
      with tm [of q] k(6) show ?thesis by auto
    qed
  qed (use k in \<open>auto simp: unary_gates_def\<close>)
  then obtain c2 where c2: "bitwise_build G_And ?x ?y t2 c1 = Inr c2" "circuit_ok c2" "same_frame c1 c2"
    "\<And>m j. j < ?sz \<Longrightarrow> cval c2 m (t2 ! j) \<longleftrightarrow> cval cd m (temp ! (2 * j)) \<and> cval cd m (temp ! (2 * j + 1))"
    "\<And>m w. w \<notin> set t2 \<Longrightarrow> cval c2 m w = cval cd m w" "\<And>w. assigned c2 w \<longleftrightarrow> assigned cd w \<or> w \<in> set t2"
    using k(2,4,5) by auto
  have "res_fold (\<lambda>j. addGate (temp ! (2 * j)) (temp ! (2 * j + 1)) G_And (t2 ! j)) [0..<?sz] c1 = Inr c2"
  proof -
    have "res_fold (\<lambda>j. addGate (temp ! (2 * j)) (temp ! (2 * j + 1)) G_And (t2 ! j)) [0..<?sz] c1
      = res_fold (\<lambda>j. addGate (?x ! j) (?y ! j) G_And (t2 ! j)) [0..<?sz] c1" by (rule res_fold_cong) simp
    also have "\<dots> = Inr c2" using c2(1) k(2) by (simp add: bitwise_build_def)
    finally show ?thesis .
  qed
  then have "eq_level bits r i (temp, cd) = Inr (t2, c2)" using t2 by (simp add: eq_level_def Let_def)
  moreover have "at_eq_level bits L r a1 a2 c0 (Suc i) (t2, c2)"
  proof -
    have val: "cval c2 m (t2 ! j) = same_bits c0 m a1 a2 (j * 2 ^ Suc i) ((j + 1) * 2 ^ Suc i)" if j: "j < ?sz" for m j
    proof -
      have "cval cd m (temp ! q) = same_bits c0 m a1 a2 (q * 2 ^ i) ((q + 1) * 2 ^ i)" if "q < length temp" for q
        using I True that by (simp add: at_eq_level_def eq_vals_def)
      from this [of "2 * j"] this [of "2 * j + 1"] c2(4) [OF j, of m] j le
      have "cval c2 m (t2 ! j) \<longleftrightarrow> same_bits c0 m a1 a2 (2 * j * 2 ^ i) ((2 * j + 1) * 2 ^ i) \<and> same_bits c0 m a1 a2 ((2 * j + 1) * 2 ^ i) ((2 * j + 1 + 1) * 2 ^ i)"
        by simp
      also have "\<dots> \<longleftrightarrow> same_bits c0 m a1 a2 (2 * j * 2 ^ i) ((2 * j + 1 + 1) * 2 ^ i)" by (rule same_bits_join) simp_all
      also have "2 * j * 2 ^ i = j * 2 ^ Suc i" by simp
      also have "(2 * j + 1 + 1) * 2 ^ i = (j + 1) * 2 ^ Suc i" by simp
      finally show ?thesis .
    qed
    have ex: "extends c0 c2" using I k(1) c2(2,3) by (auto simp: at_eq_level_def extends_def same_frame_def)
    have other: "cval c2 m w = cval c0 m w" if "w \<noteq> r" "w < mWireCount c0" for m w
    proof -
      have "w \<notin> set t2" using that k(8) by (auto split: if_splits)
      with c2(5) that I show ?thesis by (simp add: at_eq_level_def)
    qed
    have "Suc i \<le> L" using True by simp
    with ex other val I c2(6) k(2,8) sz show ?thesis by (auto simp: at_eq_level_def eq_vals_def)
  qed
  ultimately show ?thesis by blast
qed

lemma eq_levels_ok:
  assumes "at_eq_level bits L r a1 a2 c0 0 s" "2 ^ L \<le> bits" "bits < 2 ^ Suc L" "r < mWireCount c0"
  shows "\<exists>s'. res_fold (eq_level bits r) [0..<N] s = Inr s' \<and> at_eq_level bits L r a1 a2 c0 N s'"
proof (rule res_fold_upt [where I = "at_eq_level bits L r a1 a2 c0", OF assms(1)])
  fix i t assume "i < N" "at_eq_level bits L r a1 a2 c0 i t"
  then show "\<exists>s'. eq_level bits r i t = Inr s' \<and> at_eq_level bits L r a1 a2 c0 (Suc i) s'"
    using eq_level_ok [OF _ assms(2-4)] by (cases t) simp
qed

lemma eq_build_ok:
  assumes ok: "circuit_ok cd" and a: "length a2 = length a1" "\<forall>w\<in>set a1 \<union> set a2. assigned cd w" and r: "r < mWireCount cd" "r \<notin> set a1 \<union> set a2"
    and L: "2 ^ L \<le> length a1" "length a1 < 2 ^ Suc L"
  shows "\<exists>cd' k. eq_build a1 a2 [r] cd = Inr cd' \<and> computes cd cd' [r] (\<lambda>v _. \<forall>i<2 ^ L. v (a1 ! i) = v (a2 ! i)) {} k"
proof -
  let ?n = "length a1"
  have npos: "0 < ?n" using L(1) by (metis gr0I not_numeral_le_zero not_one_le_zero one_le_numeral one_le_power order_trans)
  obtain t c1 where t: "(if ?n = 1 then ([r], cd) else addTempWireBundle (BetaBundle ?n) cd) = (t, c1)" by fastforce
  have k: "extends cd c1 \<and> length t = ?n \<and> distinct t \<and> (\<forall>m. cval c1 m = cval cd m) \<and> (\<forall>w. assigned c1 w = assigned cd w)
    \<and> (\<forall>w\<in>set t. w < mWireCount c1 \<and> (w = r \<or> mWireCount cd \<le> w)) \<and> (if ?n = 1 then t = [r] else \<forall>w\<in>set t. mWireCount cd \<le> w)"
    using addTempWireBundle_ok [OF ok, of "BetaBundle ?n" t c1] t ok r by (cases "?n = 1") (auto simp: BetaBundle_def)
  have lt: "w < mWireCount cd \<and> w \<noteq> r" if "w \<in> set a1 \<union> set a2" for w using that a(2) r(2) ok by (auto dest: assigned_lt)
  have dj: "t ! p \<noteq> a1 ! q \<and> t ! p \<noteq> a2 ! q" if "p < q" "q < length t" for p q
  proof -
    have "t ! p \<in> set t" "a1 ! q \<in> set a1 \<union> set a2" "a2 ! q \<in> set a1 \<union> set a2" using that k a(1) by auto
    with k lt show ?thesis by fastforce
  qed
  have "\<exists>c2. bitwise_build G_Nxor a1 a2 t c1 = Inr c2 \<and> circuit_ok c2 \<and> same_frame c1 c2
    \<and> (\<forall>m i. i < length t \<longrightarrow> cval c2 m (t ! i) = GateEval G_Nxor (cval c1 m (a1 ! i)) (cval c1 m (a2 ! i)))
    \<and> (\<forall>m w. w \<notin> set t \<longrightarrow> cval c2 m w = cval c1 m w) \<and> (\<forall>w. assigned c2 w \<longleftrightarrow> assigned c1 w \<or> w \<in> set t)"
    by (rule bitwise_build_ok) (use k a dj in \<open>auto simp: unary_gates_def\<close>)
  then obtain c2 where c2: "bitwise_build G_Nxor a1 a2 t c1 = Inr c2" "circuit_ok c2" "same_frame c1 c2"
    "\<And>m i. i < ?n \<Longrightarrow> cval c2 m (t ! i) \<longleftrightarrow> cval cd m (a1 ! i) = cval cd m (a2 ! i)"
    "\<And>m w. w \<notin> set t \<Longrightarrow> cval c2 m w = cval cd m w" "\<And>w. assigned c2 w \<longleftrightarrow> assigned cd w \<or> w \<in> set t"
    using k by auto
  have L0: "L = 0 \<longleftrightarrow> ?n = 1"
  proof
    assume "?n = 1"
    with L(1) have "(2 :: nat) ^ L \<le> 2 ^ 0" by simp
    then show "L = 0" by (simp only: power_increasing_iff)
  next
    assume "L = 0"
    with L show "?n = 1" by simp
  qed
  have "at_eq_level ?n L r a1 a2 cd 0 (t, c2)"
  proof -
    have ex: "extends cd c2" using k c2(2,3) by (auto simp: extends_def same_frame_def)
    have other: "cval c2 m w = cval cd m w" if "w \<noteq> r" "w < mWireCount cd" for m w
    proof -
      have "w \<notin> set t" using that k by fastforce
      with c2(5) show ?thesis by simp
    qed
    have "0 = L \<longrightarrow> t = [r]" "0 \<noteq> L \<longrightarrow> (\<forall>w\<in>set t. mWireCount cd \<le> w)" using k L0 by auto
    moreover have "same_bits cd m a1 a2 i (Suc i) \<longleftrightarrow> cval cd m (a1 ! i) = cval cd m (a2 ! i)" for m i
      using less_Suc_eq_le by (auto simp: same_bits_def dest: le_antisym)
    ultimately show ?thesis using ex other c2(4,6) k by (auto simp: at_eq_level_def eq_vals_def)
  qed
  from eq_levels_ok [OF this L r(1), of "log2ceil ?n"] obtain t3 c3 where
    c3: "res_fold (eq_level ?n r) [0..<log2ceil ?n] (t, c2) = Inr (t3, c3)" "at_eq_level ?n L r a1 a2 cd (log2ceil ?n) (t3, c3)" by auto
  have "(2 :: nat) ^ L \<le> 2 ^ log2ceil ?n" using L(1) log2ceil_bound [OF npos] by linarith
  then have "L \<le> log2ceil ?n" by simp
  from at_eq_last [OF c3(2) this] have "assigned c3 r \<and> (\<forall>m. cval c3 m r = same_bits cd m a1 a2 0 (2 ^ L))" .
  then have "computes cd c3 [r] (\<lambda>v _. \<forall>i<2 ^ L. v (a1 ! i) = v (a2 ! i)) {} (mWireCount c3 - mWireCount cd)"
    using c3(2) by (simp add: computes_def at_eq_level_def same_bits_def split: if_splits)
  moreover have "res_fold (\<lambda>i. addGate (a1 ! i) (a2 ! i) G_Nxor (t ! i)) [0..<?n] c1 = Inr c2"
    using c2(1) k a(1) by (simp add: bitwise_build_def)
  then have "eq_build a1 a2 [r] cd = Inr c3" using c3(1) t a(1) by (simp add: eq_build_def vec_at_def Let_def)
  ultimately show ?thesis by blast
qed

lemma take_eq_iff: "k \<le> length as \<Longrightarrow> k \<le> length bs \<Longrightarrow> take k as = take k bs \<longleftrightarrow> (\<forall>i<k. as ! i = bs ! i)"
  by (auto simp: list_eq_iff_nth_eq)

lemma eq_started:
  assumes st: "started [aSize, aSize] 1 0 c t cd" and L: "2 ^ L \<le> aSize" "aSize < 2 ^ Suc L"
  shows "c = [2 * aSize] \<and> (\<exists>cd' k. eq_build (bundles 0 [aSize, aSize] ! 0) (bundles 0 [aSize, aSize] ! 1) c cd = Inr cd'
    \<and> computes cd cd' c (\<lambda>v _. take (2 ^ L) (map (map v) (bundles 0 [aSize, aSize]) ! 0) = take (2 ^ L) (map (map v) (bundles 0 [aSize, aSize]) ! 1)) {} k)"
proof -
  let ?b = "bundles 0 [aSize, aSize]"
  note o = started_operand [OF st, of 0 Unsigned] started_operand [OF st, of 1 Unsigned]
  have c: "c = [2 * aSize]" using st by (simp add: started_def)
  have n: "length (?b ! 0) = aSize" "length (?b ! 1) = aSize" "2 * aSize \<notin> set (?b ! 0) \<union> set (?b ! 1)" by auto
  have "\<exists>cd' k. eq_build (?b ! 0) (?b ! 1) [2 * aSize] cd = Inr cd'
    \<and> computes cd cd' [2 * aSize] (\<lambda>v _. \<forall>i<2 ^ L. v (?b ! 0 ! i) = v (?b ! 1 ! i)) {} k"
  proof (rule eq_build_ok)
    show "\<forall>w\<in>set (?b ! 0) \<union> set (?b ! 1). assigned cd w" using o(1,4) by (auto simp: operand_def)
    show "2 * aSize < mWireCount cd" "circuit_ok cd" using st by (simp_all add: started_def)
  qed (use n L in simp_all)
  moreover have "(take (2 ^ L) (map (map v) ?b ! 0) = take (2 ^ L) (map (map v) ?b ! 1)) = (\<forall>i<2 ^ L. v (?b ! 0 ! i) = v (?b ! 1 ! i))" for v :: "wire \<Rightarrow> bool"
    using n(1,2) L(1) by (subst take_eq_iff) auto
  ultimately show ?thesis unfolding c by presburger
qed

lemma int_eq_runs:
  assumes "2 ^ L \<le> aSize" "aSize < 2 ^ Suc L" "2 * aSize + 1 \<le> no_wire"
  shows "runs (int_eq aSize) [aSize, aSize] 1 (\<lambda>ins _. take (2 ^ L) (ins ! 0) = take (2 ^ L) (ins ! 1))"
  unfolding int_eq_def by (rule new_circuit_ok) (use eq_started assms in \<open>blast, simp\<close>)

lemma int_neq_runs:
  assumes "2 ^ L \<le> aSize" "aSize < 2 ^ Suc L" "2 * aSize + 1 \<le> no_wire"
  shows "runs (int_neq aSize) [aSize, aSize] 1 (\<lambda>ins _. take (2 ^ L) (ins ! 0) \<noteq> take (2 ^ L) (ins ! 1))"
  unfolding int_neq_def
proof (rule new_circuit_ok)
  fix c t cd assume st: "started [aSize, aSize] 1 0 c t cd"
  let ?b = "bundles 0 [aSize, aSize]"
  let ?f = "\<lambda>v. take (2 ^ L) (map (map v) ?b ! 0) = take (2 ^ L) (map (map v) ?b ! 1)"
  from eq_started [OF st assms(1,2)] obtain cd1 k where c: "c = [2 * aSize]" "eq_build (?b ! 0) (?b ! 1) c cd = Inr cd1"
    "computes cd cd1 c (\<lambda>v _. ?f v) {} k" by blast
  have lt: "2 * aSize < mWireCount cd" "2 * aSize \<noteq> no_wire" using st assms(3) by (simp_all add: started_def)
  with c have "circuit_ok cd1" "assigned cd1 (2 * aSize)" by (auto simp: computes_def)
  from addInvert_ok [OF this] obtain cd2 where i: "addInvert (2 * aSize) cd1 = Inr cd2" "assigns cd1 cd2 (2 * aSize) (\<lambda>v. \<not> v (2 * aSize))" by blast
  have "computes cd cd2 c (\<lambda>v _. \<not> ?f v) {} k"
    using c(1,3) i(2) lt unfolding computes_def assigns_def same_frame_def extends_def by auto
  with c i(1) show "\<exists>cd' T k. res_bind (eq_build (?b ! 0) (?b ! 1) c cd) (addInvert (c ! 0)) = Inr cd' \<and> computes cd cd' c (\<lambda>v _. \<not> ?f v) T k"
    by auto
qed (use assms(3) in simp)

end
