(* ===== verification/CircuitGraph.thy ===== *)
theory CircuitGraph
  imports CircuitEq
begin

text \<open>
  The prefix graph of the parallel adder. Position \<open>i\<close> has a node at level \<open>l\<close> when bit \<open>l\<close> of \<open>i\<close> is set; the node joins the
  block of size \<open>2 ^ l\<close> that ends at \<open>i\<close> with the one before it. The marked nodes are closed under what they read.
\<close>

section \<open>The Sklansky network\<close>

definition block_start :: "nat \<Rightarrow> nat \<Rightarrow> nat" where
  "block_start l i = i div 2 ^ l * 2 ^ l"

fun last_level :: "nat \<Rightarrow> nat \<Rightarrow> nat option" where
  "last_level 0 i = None"
| "last_level (Suc l) i = (if bit i l then Some l else last_level l i)"

lemma bit_nat_odd: "bit (i :: nat) l \<longleftrightarrow> odd (i div 2 ^ l)"
  by (simp add: bit_iff_odd)

lemma block_start_le: "block_start l i \<le> i"
  by (simp add: block_start_def)

lemma block_start_gt: "i < block_start l i + 2 ^ l"
proof -
  have "i mod 2 ^ l < 2 ^ l" by simp
  with div_mult_mod_eq [of i "2 ^ l"] show ?thesis unfolding block_start_def by linarith
qed

lemma block_start_0 [simp]: "block_start 0 i = i"
  by (simp add: block_start_def)

lemma block_start_Suc: "block_start (Suc l) i = (if bit i l then block_start l i - 2 ^ l else block_start l i)"
proof -
  have "i div 2 ^ l = 2 * (i div 2 ^ Suc l) + of_bool (bit i l)"
  proof -
    have "i div 2 ^ Suc l = i div 2 ^ l div 2" by (simp add: power_Suc2 div_mult2_eq del: power_Suc)
    then show ?thesis by (simp add: bit_iff_odd)
  qed
  then show ?thesis by (simp add: block_start_def)
qed

lemma block_start_small: "i < 2 ^ l \<Longrightarrow> block_start l i = 0"
  by (simp add: block_start_def)

lemma block_start_ge: "bit i l \<Longrightarrow> 2 ^ l \<le> block_start l i"
  by (cases "i div 2 ^ l") (auto simp: block_start_def bit_iff_odd)

text \<open>The position before a block: the end of the block before it.\<close>

lemma before_block:
  assumes "bit i l"
  shows "block_start l (block_start l i - 1) = block_start l i - 2 ^ l" "l' < l \<Longrightarrow> bit (block_start l i - 1) l'"
    "\<not> bit (block_start l i - 1) l" "block_start l i - 1 < i" "block_start (Suc l) (block_start l i - 1) = block_start l i - 2 ^ l"
proof -
  obtain q where q: "block_start l i = 2 * q * 2 ^ l + 2 ^ l"
    using assms by (auto simp: block_start_def bit_iff_odd elim!: oddE)
  have d: "(block_start l i - 1) div 2 ^ l = 2 * q"
  proof (rule div_nat_eqI)
    obtain w where w: "w = (2 :: nat) ^ l" "1 \<le> w" by simp
    then show "2 ^ l * (2 * q) \<le> block_start l i - 1" "block_start l i - 1 < 2 ^ l * Suc (2 * q)" unfolding q w(1) [symmetric] by (simp_all add: algebra_simps)
  qed
  show "block_start l (block_start l i - 1) = block_start l i - 2 ^ l" unfolding block_start_def [of l "block_start l i - 1"] d using q by simp
  show b: "\<not> bit (block_start l i - 1) l" using d by (simp add: bit_iff_odd)
  then show "block_start (Suc l) (block_start l i - 1) = block_start l i - 2 ^ l"
    using \<open>block_start l (block_start l i - 1) = block_start l i - 2 ^ l\<close> by (simp add: block_start_Suc)
  have "1 \<le> block_start l i" using block_start_ge [OF assms] one_le_power [of "2 :: nat" l] by linarith
  then show "block_start l i - 1 < i" using block_start_le [of l i] by linarith
  have "take_bit l (block_start l i - 1) = mask l"
  proof -
    obtain w where w: "w = (2 :: nat) ^ l" "1 \<le> w" by simp
    have "block_start l i - 1 = w - 1 + 2 * q * w" using w(2) unfolding q w(1) [symmetric] by simp
    moreover have "(w - 1 + 2 * q * w) mod w = (w - 1) mod w" by (rule mod_mult_self1)
    moreover have "(w - 1) mod w = w - 1" using w(2) by simp
    ultimately show ?thesis unfolding w(1) by (simp only: take_bit_eq_mod mask_eq_exp_minus_1)
  qed
  then show "bit (block_start l i - 1) l'" if l': "l' < l"
    using l' bit_take_bit_iff [of l "block_start l i - 1" l'] by (simp add: bit_mask_iff)
qed

lemma last_level_Some: "last_level l i = Some k \<longleftrightarrow> k < l \<and> bit i k \<and> (\<forall>j. k < j \<and> j < l \<longrightarrow> \<not> bit i j)"
  by (induction l) (auto simp: less_Suc_eq)

lemma last_level_None: "last_level l i = None \<longleftrightarrow> (\<forall>j<l. \<not> bit i j)"
  by (induction l) (auto simp: less_Suc_eq)

lemma last_level_cong: "(\<And>j. j < l \<Longrightarrow> bit i j = bit k j) \<Longrightarrow> last_level l i = last_level l k"
  by (induction l) auto

lemma fold_upt:
  assumes "I a s" "\<And>k s. a \<le> k \<Longrightarrow> k < b \<Longrightarrow> I k s \<Longrightarrow> I (Suc k) (f k s)" "a \<le> b"
  shows "I b (fold f [a..<b] s)"
  using assms(3)
proof (induction rule: dec_induct)
  case (step n)
  then show ?case using assms(2) by simp
qed (simp add: assms(1))

text \<open>What the loop over a level leaves: a node at every position of \<open>C\<close>.\<close>

definition level_upd :: "nat \<Rightarrow> nat set \<Rightarrow> prefix_graph \<times> (nat \<Rightarrow> nat option) \<Rightarrow> prefix_graph \<times> (nat \<Rightarrow> nat option)" where
  "level_upd l C = (\<lambda>(graph, lvls).
     (\<lambda>(k, c). if k = l \<and> c \<in> C
        then (graph (l, c))\<lparr>nd_cur := (lvls c, c), nd_low := (lvls (block_start l c - 1), block_start l c - 1), nd_first := (block_start l c = 2 ^ l)\<rparr>
        else graph (k, c),
      \<lambda>c. if c \<in> C then Some l else lvls c))"

lemma level_upd_insert:
  assumes "c \<notin> C" "block_start l c - 1 \<notin> C"
  shows "(let (graph, lvls) = level_upd l C gl in
     (graph((l, c) := (graph (l, c))\<lparr>nd_cur := (lvls c, c), nd_low := (lvls (block_start l c - 1), block_start l c - 1), nd_first := (block_start l c = 2 ^ l)\<rparr>),
      lvls(c := Some l))) = level_upd l (insert c C) gl"
  using assms by (cases gl) (auto simp: level_upd_def fun_eq_iff Let_def)

definition level_positions :: "nat \<Rightarrow> nat \<Rightarrow> nat set" where
  "level_positions n l = {c. c < n \<and> bit c l}"

lemma block_start_eq:
  assumes "i mod 2 ^ l = 0" "i \<le> c" "c < i + 2 ^ l"
  shows "block_start l c = i" "bit c l \<longleftrightarrow> bit i l"
proof -
  have "i = i div 2 ^ l * 2 ^ l" using div_mult_mod_eq [of i "2 ^ l"] assms(1) by simp
  then obtain q where q: "i = q * 2 ^ l" by blast
  have "c div 2 ^ l = q" by (rule div_nat_eqI) (use q assms in \<open>simp_all add: algebra_simps\<close>)
  with q show "block_start l c = i" "bit c l \<longleftrightarrow> bit i l" by (simp_all add: block_start_def bit_iff_odd)
qed

lemma sk_level_start:
  fixes i :: nat
  assumes "2 ^ l \<le> i" "(i - 2 ^ l) mod 2 ^ (l + 1) = 0"
  shows "i mod 2 ^ l = 0" "bit i l"
proof -
  obtain q where "i - 2 ^ l = 2 ^ (l + 1) * q" using assms(2) by (auto simp: mod_eq_0_iff_dvd elim: dvdE)
  then have "i = (2 * q + 1) * 2 ^ l" using assms(1) by (simp add: algebra_simps)
  then show "i mod 2 ^ l = 0" "bit i l" by (simp_all add: bit_iff_odd)
qed

lemma sk_level_eq: "sk_level n l gl = level_upd l (level_positions n l) gl"
proof -
  let ?step = "\<lambda>i curWire (graph, lvls).
          (graph((l, curWire) := (graph (l, curWire))\<lparr>nd_cur := (lvls curWire, curWire), nd_low := (lvls (i - 1), i - 1), nd_first := (i = 2 ^ l)\<rparr>),
           lvls(curWire := Some l))"
  let ?P = "\<lambda>xs. {c \<in> level_positions n l. block_start l c \<in> set xs}"
  have outer: "fold (\<lambda>i. fold (?step i) [i..<min (i + 2 ^ l) n]) xs gl = level_upd l (?P xs) gl"
    if "\<forall>i\<in>set xs. i < n \<and> i mod 2 ^ l = 0 \<and> bit i l" "distinct xs" for xs
    using that
  proof (induction xs rule: rev_induct)
    case Nil
    show ?case by (cases gl) (simp add: level_upd_def fun_eq_iff)
  next
    case (snoc i xs)
    let ?C = "\<lambda>k. ?P xs \<union> {i..<k}"
    have i: "i < n" "i mod 2 ^ l = 0" "bit i l" "i \<notin> set xs" using snoc.prems by auto
    have bs: "block_start l c = i \<and> bit c l" if "i \<le> c" "c < i + 2 ^ l" for c using block_start_eq [OF i(2) that] i(3) by simp
    have "fold (?step i) [i..<min (i + 2 ^ l) n] (level_upd l (?P xs) gl) = level_upd l (?C (min (i + 2 ^ l) n)) gl"
    proof (rule fold_upt [where I = "\<lambda>k s. s = level_upd l (?C k) gl"])
      fix k s assume k: "i \<le> k" "k < min (i + 2 ^ l) n" "s = level_upd l (?C k) gl"
      have b: "block_start l k = i" using bs k by simp
      have "k \<notin> ?C k" using b i(4) by simp
      moreover have "\<not> bit (i - 1) l" using before_block(3) [of k l] bs [of k] k b by simp
      then have "block_start l k - 1 \<notin> ?C k" using b k i(3) by (cases i) (auto simp: level_positions_def)
      ultimately have "?step i k (level_upd l (?C k) gl) = level_upd l (insert k (?C k)) gl"
        using level_upd_insert [of k "?C k" l gl] b by (simp add: Let_def)
      moreover have "insert k (?C k) = ?C (Suc k)" using k(1) by auto
      ultimately show "?step i k s = level_upd l (?C (Suc k)) gl" using k(3) by simp
    qed (use i in simp_all)
    moreover have "?C (min (i + 2 ^ l) n) = ?P (xs @ [i])"
    proof -
      have "i \<le> c \<and> c < min (i + 2 ^ l) n \<longleftrightarrow> c \<in> level_positions n l \<and> block_start l c = i" for c
      proof
        assume "i \<le> c \<and> c < min (i + 2 ^ l) n"
        with bs [of c] show "c \<in> level_positions n l \<and> block_start l c = i" by (simp add: level_positions_def)
      next
        assume "c \<in> level_positions n l \<and> block_start l c = i"
        with block_start_gt [of c l] block_start_le [of l c] show "i \<le> c \<and> c < min (i + 2 ^ l) n" by (simp add: level_positions_def)
      qed
      then have "{i..<min (i + 2 ^ l) n} = {c \<in> level_positions n l. block_start l c = i}"
        by (intro set_eqI) (simp only: atLeastLessThan_iff mem_Collect_eq)
      moreover have "?P (xs @ [i]) = ?P xs \<union> {c \<in> level_positions n l. block_start l c = i}"
        by (simp only: set_append list.set) blast
      ultimately show ?thesis by (simp only:)
    qed
    moreover have "fold (\<lambda>i. fold (?step i) [i..<min (i + 2 ^ l) n]) xs gl = level_upd l (?P xs) gl"
      by (rule snoc.IH) (use snoc.prems in simp_all)
    ultimately show ?case by (simp only: fold_append fold_simps comp_apply)
  qed
  let ?starts = "filter (\<lambda>i. (i - 2 ^ l) mod 2 ^ (l + 1) = 0) [2 ^ l..<n]"
  have "sk_level n l gl = fold (\<lambda>i. fold (?step i) [i..<min (i + 2 ^ l) n]) ?starts gl" by (simp add: sk_level_def Let_def)
  also have "\<dots> = level_upd l (?P ?starts) gl"
    by (rule outer) (use sk_level_start [of l] in auto)
  also have "?P ?starts = level_positions n l"
  proof -
    have "block_start l c \<in> set ?starts" if "c \<in> level_positions n l" for c
    proof -
      have c: "c < n" "bit c l" using that by (auto simp: level_positions_def)
      then obtain q where q: "block_start l c = (2 * q + 1) * 2 ^ l" by (auto simp: block_start_def bit_iff_odd elim!: oddE)
      then have "block_start l c - 2 ^ l = q * 2 ^ (l + 1)" by simp
      with block_start_ge [OF c(2)] block_start_le [of l c] c(1) show ?thesis by simp
    qed
    then show ?thesis by auto
  qed
  finally show ?thesis .
qed

text \<open>The graph after all levels.\<close>

definition full_node :: "nat \<Rightarrow> nat \<Rightarrow> prefix_node" where
  "full_node l c = empty_node\<lparr>nd_cur := (last_level l c, c), nd_low := (last_level l (block_start l c - 1), block_start l c - 1),
     nd_first := (block_start l c = 2 ^ l)\<rparr>"

lemma sk_levels_eq:
  "fold (sk_level n) [0..<d] (\<lambda>_. empty_node, \<lambda>_. None)
   = (\<lambda>(l, c). if l < d \<and> c < n \<and> bit c l then full_node l c else empty_node, \<lambda>c. if c < n then last_level d c else None)"
proof (induction d)
  case (Suc d)
  have "block_start d c - 1 < n" if "c < n" for c using that block_start_le [of d c] by linarith
  with Suc show ?case
    by (auto simp: sk_level_eq level_upd_def level_positions_def full_node_def fun_eq_iff less_Suc_eq)
qed (simp add: fun_eq_iff)

section \<open>Marking\<close>

definition nodes :: "nat \<Rightarrow> nat \<Rightarrow> (nat \<times> nat) set" where
  "nodes d n = {(l, c). l < d \<and> Suc c < n \<and> bit c l}"

definition kids :: "nat \<times> nat \<Rightarrow> (nat \<times> nat) set" where
  "kids x = (case x of (l, c) \<Rightarrow> {(k, c) |k. last_level l c = Some k} \<union> {(k, block_start l c - 1) |k. last_level l (block_start l c - 1) = Some k})"

definition marked :: "nat \<Rightarrow> nat \<Rightarrow> (nat \<times> nat) set \<Rightarrow> (nat \<times> nat) set \<Rightarrow> prefix_graph" where
  "marked d n U E = (\<lambda>(l, c). if l < d \<and> c < n \<and> bit c l then (full_node l c)\<lparr>nd_used := (l, c) \<in> U, nd_enqued := (l, c) \<in> E\<rparr> else empty_node)"

lemma finite_nodes: "finite (nodes d n)" "card (nodes d n) \<le> d * n"
proof -
  have s: "nodes d n \<subseteq> {..<d} \<times> {..<n}" by (auto simp: nodes_def)
  then show "finite (nodes d n)" by (rule finite_subset) simp
  show "card (nodes d n) \<le> d * n" using card_mono [OF _ s] by simp
qed

lemma kids_nodes: "x \<in> nodes d n \<Longrightarrow> kids x \<subseteq> nodes d n"
  using before_block(4) by (fastforce simp: nodes_def kids_def last_level_Some)

text \<open>Adding a node that exists.\<close>

definition pending :: "nat \<Rightarrow> nat \<Rightarrow> (nat \<times> nat) set \<Rightarrow> (nat \<times> nat) set \<Rightarrow> (nat \<times> nat) list \<Rightarrow> bool" where
  "pending d n U E stack \<longleftrightarrow> distinct stack \<and> set stack = E \<and> E \<subseteq> nodes d n"

lemma sk_add_ok:
  assumes "pending d n U E stack" "\<And>l. fst idx = Some l \<Longrightarrow> (l, snd idx) \<in> nodes d n"
  shows "\<exists>E' xs. sk_add idx (marked d n U E, stack) = (marked d n U E', stack @ xs) \<and> pending d n U E' (stack @ xs)
    \<and> E' = E \<union> {(l, snd idx) |l. fst idx = Some l}"
proof (cases "fst idx")
  case None
  then have "sk_add idx (marked d n U E, stack) = (marked d n U E, stack @ [])" by (simp add: sk_add_def)
  with assms(1) None show ?thesis by (intro exI [of _ E] exI [of _ "[]"]) simp
next
  case (Some l)
  let ?x = "(l, snd idx)"
  have x: "l < d" "snd idx < n" "bit (snd idx) l" "?x \<in> nodes d n" using assms(2) [OF Some] by (auto simp: nodes_def)
  then have e: "nd_enqued (marked d n U E ?x) \<longleftrightarrow> ?x \<in> E" by (simp add: marked_def)
  show ?thesis
  proof (cases "?x \<in> E")
    case True
    with e Some have "sk_add idx (marked d n U E, stack) = (marked d n U E, stack @ [])" by (simp add: sk_add_def)
    with assms(1) Some True show ?thesis by (intro exI [of _ E] exI [of _ "[]"]) auto
  next
    case False
    have "(marked d n U E)(?x := (marked d n U E ?x)\<lparr>nd_enqued := True\<rparr>) = marked d n U (insert ?x E)"
      using x by (auto simp: marked_def fun_eq_iff)
    with e Some False have "sk_add idx (marked d n U E, stack) = (marked d n U (insert ?x E), stack @ [?x])" by (simp add: sk_add_def)
    moreover have "pending d n U (insert ?x E) (stack @ [?x])" using assms(1) False x by (auto simp: pending_def)
    ultimately show ?thesis using Some by (intro exI [of _ "insert ?x E"] exI [of _ "[?x]"]) auto
  qed
qed

lemma sk_mark_ok:
  assumes "pending d n U E stack" "U = set (take i stack)" "\<forall>x\<in>U. kids x \<subseteq> E" "card (nodes d n) \<le> fuel + i"
  shows "\<exists>V. sk_mark fuel i (marked d n U E, stack) = marked d n V V \<and> E \<subseteq> V \<and> V \<subseteq> nodes d n \<and> (\<forall>x\<in>V. kids x \<subseteq> V)"
  using assms
proof (induction fuel arbitrary: i U E stack)
  case 0
  have "length stack \<le> card (nodes d n)"
    using 0(1) card_mono [OF finite_nodes(1), of E d n] distinct_card [of stack] by (simp add: pending_def)
  with 0 have "U = E" by (simp add: pending_def)
  with 0 show ?case by (auto simp: pending_def)
next
  case (Suc fuel)
  show ?case
  proof (cases "i < length stack")
    case False
    with Suc.prems have "U = E" by (simp add: pending_def)
    with Suc.prems False show ?thesis by (auto simp: pending_def)
  next
    case True
    obtain l c where x: "stack ! i = (l, c)" by (cases "stack ! i")
    have N: "(l, c) \<in> nodes d n" using Suc.prems(1) True x nth_mem [OF True] by (auto simp: pending_def)
    then have lc: "l < d" "c < n" "bit c l" by (auto simp: nodes_def)
    let ?U = "insert (l, c) U"
    have g: "(marked d n U E)((l, c) := (marked d n U E (l, c))\<lparr>nd_used := True\<rparr>) = marked d n ?U E"
      using lc by (auto simp: marked_def fun_eq_iff)
    have n: "nd_cur (marked d n ?U E (l, c)) = (last_level l c, c)"
      "nd_low (marked d n ?U E (l, c)) = (last_level l (block_start l c - 1), block_start l c - 1)"
      using lc by (simp_all add: marked_def full_node_def)
    have p: "pending d n ?U E stack" using Suc.prems(1) by (simp add: pending_def)
    have "\<exists>E' xs. (if l \<noteq> 0 then sk_add (nd_low (marked d n ?U E (l, c))) (sk_add (nd_cur (marked d n ?U E (l, c))) (marked d n ?U E, stack))
        else (marked d n ?U E, stack)) = (marked d n ?U E', stack @ xs) \<and> pending d n ?U E' (stack @ xs) \<and> E' = E \<union> kids (l, c)"
    proof (cases "l = 0")
      case True
      with p show ?thesis by (intro exI [of _ E] exI [of _ "[]"]) (simp add: kids_def)
    next
      case False
      have k: "last_level l c = Some k \<Longrightarrow> (k, c) \<in> nodes d n"
        "last_level l (block_start l c - 1) = Some k \<Longrightarrow> (k, block_start l c - 1) \<in> nodes d n" for k
        using kids_nodes [OF N] by (auto simp: kids_def)
      from sk_add_ok [OF p, of "(last_level l c, c)"] k(1) obtain E1 xs1 where
        s1: "sk_add (last_level l c, c) (marked d n ?U E, stack) = (marked d n ?U E1, stack @ xs1)" "pending d n ?U E1 (stack @ xs1)"
          "E1 = E \<union> {(k, c) |k. last_level l c = Some k}" by auto
      from sk_add_ok [OF s1(2), of "(last_level l (block_start l c - 1), block_start l c - 1)"] k(2) obtain E2 xs2 where
        "sk_add (last_level l (block_start l c - 1), block_start l c - 1) (marked d n ?U E1, stack @ xs1) = (marked d n ?U E2, stack @ xs1 @ xs2)"
        "pending d n ?U E2 (stack @ xs1 @ xs2)" "E2 = E1 \<union> {(k, block_start l c - 1) |k. last_level l (block_start l c - 1) = Some k}" by auto
      with s1 False n show ?thesis by (intro exI [of _ E2] exI [of _ "xs1 @ xs2"]) (simp add: kids_def Un_assoc)
    qed
    then obtain E' xs where E': "(if l \<noteq> 0 then sk_add (nd_low (marked d n ?U E (l, c))) (sk_add (nd_cur (marked d n ?U E (l, c))) (marked d n ?U E, stack))
        else (marked d n ?U E, stack)) = (marked d n ?U E', stack @ xs)" "pending d n ?U E' (stack @ xs)" "E' = E \<union> kids (l, c)" by blast
    have "\<exists>V. sk_mark fuel (i + 1) (marked d n ?U E', stack @ xs) = marked d n V V \<and> E' \<subseteq> V \<and> V \<subseteq> nodes d n \<and> (\<forall>x\<in>V. kids x \<subseteq> V)"
    proof (rule Suc.IH [OF E'(2)])
      show "?U = set (take (i + 1) (stack @ xs))" using Suc.prems(2) True x by (simp add: take_Suc_conv_app_nth)
      show "\<forall>x\<in>?U. kids x \<subseteq> E'" using Suc.prems(3) E'(3) by auto
    qed (use Suc.prems(4) in simp)
    with E'(1,3) True x g show ?thesis by (auto simp: Let_def)
  qed
qed

text \<open>The graph that the adder uses.\<close>

definition closed_nodes :: "nat \<Rightarrow> nat \<Rightarrow> (nat \<times> nat) set \<Rightarrow> bool" where
  "closed_nodes d n V \<longleftrightarrow> V \<subseteq> nodes d n \<and> (\<forall>x\<in>V. kids x \<subseteq> V)"

lemma used_below: "closed_nodes d n V \<Longrightarrow> (l, c) \<in> V \<Longrightarrow> l' < l \<Longrightarrow> bit c l' \<Longrightarrow> (l', c) \<in> V"
proof (induction l rule: less_induct)
  case (less l)
  from less.prems(3,4) obtain k where k: "last_level l c = Some k" using last_level_None [of l c] by auto
  then have "(k, c) \<in> V" using less.prems(1,2) by (fastforce simp: closed_nodes_def kids_def)
  moreover have "k < l" "l' \<le> k" using k less.prems(3,4) by (auto simp: last_level_Some not_less [symmetric])
  ultimately show ?case using less.IH [of k] less.prems(1,4) by (cases "l' = k") auto
qed

lemma used_low:
  assumes V: "closed_nodes d n V" and "(l, c) \<in> V" "l' < l"
  shows "(l', block_start l c - 1) \<in> V"
proof -
  have b: "bit c l" using assms by (auto simp: closed_nodes_def nodes_def)
  have k: "last_level l (block_start l c - 1) = Some (l - 1)" using before_block(2) [OF b] assms(3) by (auto simp: last_level_Some)
  then have m: "(l - 1, block_start l c - 1) \<in> V" using assms(1,2) by (fastforce simp: closed_nodes_def kids_def)
  show ?thesis
  proof (cases "l' = l - 1")
    case False
    then show ?thesis using used_below [OF V m, of l'] before_block(2) [OF b, of l'] assms(3) by simp
  qed (use m in simp)
qed

lemma sk_graph_ok:
  assumes "n \<le> 2 ^ d"
  shows "\<exists>V. sk_graph d n wanted = marked d n V V \<and> closed_nodes d n V
    \<and> (\<forall>i l. 1 \<le> i \<longrightarrow> i < n \<longrightarrow> wanted i \<longrightarrow> bit (i - 1) l \<longrightarrow> (l, i - 1) \<in> V)"
proof -
  let ?lv = "\<lambda>c. if c < n then last_level d c else None"
  let ?f = "\<lambda>i gs. if wanted i then sk_add (?lv (i - 1), i - 1) gs else gs"
  have g0: "(\<lambda>(l, c). if l < d \<and> c < n \<and> bit c l then full_node l c else empty_node) = marked d n {} {}"
    by (auto simp: marked_def full_node_def empty_node_def fun_eq_iff)
  have "\<exists>E stack. fold ?f [1..<n] (marked d n {} {}, []) = (marked d n {} E, stack) \<and> pending d n {} E stack
    \<and> (\<forall>i k. 1 \<le> i \<longrightarrow> i < max 1 n \<longrightarrow> wanted i \<longrightarrow> last_level d (i - 1) = Some k \<longrightarrow> (k, i - 1) \<in> E)" (is "\<exists>E stack. _ = _ \<and> _ \<and> ?W (max 1 n) E")
  proof (cases "1 \<le> n")
    case True
    have "\<exists>E stack. fold ?f [1..<n] (marked d n {} {}, []) = (marked d n {} E, stack) \<and> pending d n {} E stack \<and> ?W n E"
    proof (rule fold_upt [where I = "\<lambda>j s. \<exists>E stack. s = (marked d n {} E, stack) \<and> pending d n {} E stack \<and> ?W j E"])
      show "\<exists>E stack. (marked d n {} {}, []) = (marked d n {} E, stack) \<and> pending d n {} E stack \<and> ?W 1 E"
        by (intro exI [of _ "{}"] exI [of _ "[]"]) (simp add: pending_def)
    next
      fix j s assume j: "1 \<le> j" "j < n" "\<exists>E stack. s = (marked d n {} E, stack) \<and> pending d n {} E stack \<and> ?W j E"
      then obtain E stack where E: "s = (marked d n {} E, stack)" "pending d n {} E stack" "?W j E" by blast
      show "\<exists>E stack. ?f j s = (marked d n {} E, stack) \<and> pending d n {} E stack \<and> ?W (Suc j) E"
      proof (cases "wanted j")
        case False
        with E show ?thesis by (auto simp: less_Suc_eq)
      next
        case True
        have "j - 1 < n" using j(2) by linarith
        then have lv: "?lv (j - 1) = last_level d (j - 1)" by simp
        have "last_level d (j - 1) = Some l \<Longrightarrow> (l, j - 1) \<in> nodes d n" for l using j(1,2) by (auto simp: nodes_def last_level_Some)
        with sk_add_ok [OF E(2), of "(last_level d (j - 1), j - 1)"] obtain E' xs where
          "sk_add (last_level d (j - 1), j - 1) (marked d n {} E, stack) = (marked d n {} E', stack @ xs)" "pending d n {} E' (stack @ xs)"
          "E' = E \<union> {(l, j - 1) |l. last_level d (j - 1) = Some l}" by auto
        with E True lv show ?thesis by (intro exI [of _ E'] exI [of _ "stack @ xs"]) (auto simp: less_Suc_eq)
      qed
    qed (rule True)
    with True show ?thesis by simp
  qed (auto simp: pending_def)
  then obtain E stack where E: "fold ?f [1..<n] (marked d n {} {}, []) = (marked d n {} E, stack)" "pending d n {} E stack" "?W (max 1 n) E" by blast
  have "card (nodes d n) \<le> d * n + 0" using finite_nodes(2) by simp
  from sk_mark_ok [OF E(2) _ _ this] obtain V where
    V: "sk_mark (d * n) 0 (marked d n {} E, stack) = marked d n V V" "E \<subseteq> V" "closed_nodes d n V" by (auto simp: closed_nodes_def)
  have "sk_graph d n wanted = marked d n V V"
    unfolding sk_graph_def sk_levels_eq using E(1) V(1) g0 by (simp add: Let_def)
  moreover have "(l, i - 1) \<in> V" if i: "1 \<le> i" "i < n" "wanted i" "bit (i - 1) l" for i l
  proof -
    have "l < d"
    proof (rule ccontr)
      assume "\<not> l < d"
      then have "(2 :: nat) ^ d \<le> 2 ^ l" by (simp add: power_increasing)
      with i(2) assms have "i - 1 < 2 ^ l" by linarith
      with i(4) show False by (simp add: bit_iff_odd)
    qed
    then obtain k where k: "last_level d (i - 1) = Some k" using i(4) last_level_None [of d "i - 1"] by auto
    then have "(k, i - 1) \<in> V" using E(3) V(2) i by auto
    moreover have "l \<le> k" using k i(4) \<open>l < d\<close> by (auto simp: last_level_Some not_less [symmetric])
    ultimately show ?thesis using used_below [OF V(3), of k "i - 1" l] i(4) by (cases "l = k") auto
  qed
  ultimately show ?thesis using V(3) by blast
qed

end
