(* ===== verification/CircuitPrefix.thy ===== *)
theory CircuitPrefix
  imports CircuitGraph
begin

text \<open>
  The parallel prefix adder meets the contract of an adder. Carries (or borrows) are generated and propagated over blocks of
  positions; the rounds over the graph double the blocks, in place, for the positions that an output needs.
\<close>

section \<open>Generating and propagating\<close>

fun gen_from :: "(nat \<Rightarrow> bool) \<Rightarrow> (nat \<Rightarrow> bool) \<Rightarrow> nat \<Rightarrow> nat \<Rightarrow> bool" where
  "gen_from p g lo 0 = False"
| "gen_from p g lo (Suc h) \<longleftrightarrow> lo \<le> h \<and> (g h \<or> p h \<and> gen_from p g lo h)"

definition prop_all :: "(nat \<Rightarrow> bool) \<Rightarrow> nat \<Rightarrow> nat \<Rightarrow> bool" where
  "prop_all p lo hi \<longleftrightarrow> (\<forall>j. lo \<le> j \<and> j < hi \<longrightarrow> p j)"

lemma gen_empty: "hi \<le> lo \<Longrightarrow> \<not> gen_from p g lo hi"
  by (cases hi) auto

lemma gen_split: "lo \<le> mid \<Longrightarrow> mid \<le> hi \<Longrightarrow> gen_from p g lo hi \<longleftrightarrow> gen_from p g mid hi \<or> prop_all p mid hi \<and> gen_from p g lo mid"
proof (induction hi)
  case (Suc hi)
  show ?case
  proof (cases "mid \<le> hi")
    case True
    then have "prop_all p mid (Suc hi) \<longleftrightarrow> p hi \<and> prop_all p mid hi" by (auto simp: prop_all_def less_Suc_eq)
    with Suc True show ?thesis by auto
  next
    case False
    with Suc.prems have "mid = Suc hi" by simp
    then show ?thesis using gen_empty [of "Suc hi" mid p g] by (auto simp: prop_all_def simp del: gen_from.simps)
  qed
qed (simp add: prop_all_def)

lemma gen_not_prop: "gen_from p g lo hi \<Longrightarrow> (\<And>j. \<not> (p j \<and> g j)) \<Longrightarrow> \<not> prop_all p lo hi"
proof (induction hi)
  case (Suc hi)
  then show ?case by (auto simp: prop_all_def less_Suc_eq)
qed simp

lemma prop_join: "lo \<le> mid \<Longrightarrow> mid \<le> hi \<Longrightarrow> prop_all p lo mid \<and> prop_all p mid hi \<longleftrightarrow> prop_all p lo hi"
  by (auto simp: prop_all_def) (metis le_trans less_le_trans not_less)+

definition leaf_p :: "AdderType \<Rightarrow> bool \<Rightarrow> bool \<Rightarrow> bool" where
  "leaf_p at a b \<longleftrightarrow> (if at = Addition then a \<noteq> b else a = b)"

definition leaf_g :: "AdderType \<Rightarrow> bool \<Rightarrow> bool \<Rightarrow> bool" where
  "leaf_g at a b \<longleftrightarrow> (if at = Addition then a \<and> b else \<not> a \<and> b)"

lemma leaf_excl: "\<not> (leaf_p at a b \<and> leaf_g at a b)"
  by (simp add: leaf_p_def leaf_g_def)

lemma chain_gen: "chain at a b i = gen_from (\<lambda>j. leaf_p at (bit a j) (bit b j)) (\<lambda>j. leaf_g at (bit a j) (bit b j)) 0 i"
  by (induction i) (auto simp: leaf_p_def leaf_g_def)

section \<open>The gates\<close>

text \<open>From one circuit to a later one that kept the values of all wires outside \<open>W\<close>.\<close>

definition kept :: "wire set \<Rightarrow> BetaCircuit \<Rightarrow> BetaCircuit \<Rightarrow> bool" where
  "kept W c c' \<longleftrightarrow> circuit_ok c' \<and> same_frame c c' \<and> (\<forall>w. assigned c w \<longrightarrow> assigned c' w) \<and> (\<forall>m w. w \<notin> W \<longrightarrow> cval c' m w = cval c m w)"

lemma kept_refl: "circuit_ok c \<Longrightarrow> kept W c c"
  by (simp add: kept_def same_frame_def)

lemma kept_trans: "kept W a b \<Longrightarrow> kept W b c \<Longrightarrow> kept W a c"
  by (simp add: kept_def same_frame_def)

lemma kept_mono: "kept W a b \<Longrightarrow> W \<subseteq> X \<Longrightarrow> kept X a b"
  by (auto simp: kept_def)

lemma kept_count: "kept W a b \<Longrightarrow> mWireCount b = mWireCount a"
  by (simp add: kept_def same_frame_def)

lemma kept_assigned: "kept W a b \<Longrightarrow> assigned a w \<Longrightarrow> assigned b w"
  by (simp add: kept_def)

lemma kept_val: "kept W a b \<Longrightarrow> w \<notin> W \<Longrightarrow> cval b m w = cval a m w"
  by (simp add: kept_def)

lemma assigns_kept: "assigns c c' w e \<Longrightarrow> kept {w} c c'"
  by (auto simp: assigns_def kept_def)

lemma addGate_kept:
  assumes "circuit_ok c" "assigned c a" "assigned c b" "out < mWireCount c" "gt \<notin> set unary_gates"
  shows "\<exists>c'. addGate a b gt out c = Inr c' \<and> kept {out} c c' \<and> assigned c' out \<and> (\<forall>m. cval c' m out = GateEval gt (cval c m a) (cval c m b))"
proof -
  from addGate_ok [OF assms(1-4)] assms(5) obtain c' where "addGate a b gt out c = Inr c'" "assigns c c' out (\<lambda>v. GateEval gt (v a) (v b))" by auto
  with assigns_kept [OF this(2)] assigns_val [OF this(2)] assigns_assigned [OF this(2)] show ?thesis by (intro exI [of _ c']) simp
qed

lemma addConst_kept:
  assumes "circuit_ok c" "out < mWireCount c"
  shows "\<exists>c'. addConst out v c = Inr c' \<and> kept {out} c c' \<and> assigned c' out \<and> (\<forall>m. cval c' m out = v)"
proof -
  from addConst_ok [OF assms] obtain c' where "addConst out v c = Inr c'" "assigns c c' out (\<lambda>_. v)" by auto
  with assigns_kept [OF this(2)] assigns_val [OF this(2)] assigns_assigned [OF this(2)] show ?thesis by (intro exI [of _ c']) simp
qed

text \<open>The wires of the adder.\<close>

definition prefix_wires :: "nat \<Rightarrow> wires \<Rightarrow> wires \<Rightarrow> wire \<Rightarrow> wire \<Rightarrow> wires \<Rightarrow> wires \<Rightarrow> BetaCircuit \<Rightarrow> bool" where
  "prefix_wires n a1 a2 zero tmp P G c \<longleftrightarrow> circuit_ok c \<and> 0 < n \<and> length P = n \<and> length G = n \<and> length a1 = n \<and> length a2 = n
     \<and> distinct (tmp # P @ G) \<and> set (tmp # P @ G) \<inter> (set a1 \<union> set a2 \<union> {zero}) = {}
     \<and> (\<forall>w\<in>set (tmp # P @ G). w < mWireCount c) \<and> (\<forall>w\<in>set a1 \<union> set a2 \<union> {zero}. assigned c w) \<and> (\<forall>m. \<not> cval c m zero)"

lemma prefix_wires_kept:
  assumes "prefix_wires n a1 a2 zero tmp P G c" "kept W c c'" "W \<inter> (set a1 \<union> set a2 \<union> {zero}) = {}"
  shows "prefix_wires n a1 a2 zero tmp P G c'"
  using assms kept_count [OF assms(2)] by (auto simp: prefix_wires_def kept_def)

lemma prefix_wires_nth:
  assumes "prefix_wires n a1 a2 zero tmp P G c" "i < n" "j < n"
  shows "P ! i = P ! j \<longleftrightarrow> i = j" "G ! i = G ! j \<longleftrightarrow> i = j" "P ! i \<noteq> G ! j" "P ! i \<noteq> tmp" "G ! i \<noteq> tmp"
    "P ! i < mWireCount c" "G ! i < mWireCount c" "tmp < mWireCount c" "P ! i \<in> set P" "G ! i \<in> set G"
    "assigned c (a1 ! i)" "assigned c (a2 ! i)" "a1 ! i \<notin> set P \<union> set G \<union> {tmp}" "a2 ! i \<notin> set P \<union> set G \<union> {tmp}"
proof -
  have l: "length P = n" "length G = n" "length a1 = n" "length a2 = n" and d: "distinct (tmp # P @ G)"
    using assms(1) by (auto simp: prefix_wires_def)
  then have m: "P ! i \<in> set P" "G ! j \<in> set G" "G ! i \<in> set G" "a1 ! i \<in> set a1" "a2 ! i \<in> set a2" using assms(2,3) by auto
  then show "P ! i \<in> set P" "G ! i \<in> set G" by simp_all
  from d have dj: "set P \<inter> set G = {}" "tmp \<notin> set P" "tmp \<notin> set G" by auto
  show "P ! i \<noteq> G ! j" "P ! i \<noteq> tmp" "G ! i \<noteq> tmp" using m dj by auto
  show "P ! i = P ! j \<longleftrightarrow> i = j" "G ! i = G ! j \<longleftrightarrow> i = j" using d l assms(2,3) by (auto simp: nth_eq_iff_index_eq)
  show "P ! i < mWireCount c" "G ! i < mWireCount c" "tmp < mWireCount c" using assms(1) m by (auto simp: prefix_wires_def)
  show "assigned c (a1 ! i)" "assigned c (a2 ! i)" using assms(1) m by (auto simp: prefix_wires_def)
  have "set (tmp # P @ G) \<inter> (set a1 \<union> set a2 \<union> {zero}) = {}" using assms(1) by (simp only: prefix_wires_def)
  then show "a1 ! i \<notin> set P \<union> set G \<union> {tmp}" "a2 ! i \<notin> set P \<union> set G \<union> {tmp}" using m by auto
qed

lemma prefix_leaf_ok:
  assumes pw: "prefix_wires n a1 a2 zero tmp P G c" and i: "i < n"
  shows "\<exists>c'. prefix_leaf a1 a2 zero at n P G i c = Inr c' \<and> kept {P ! i, G ! i} c c' \<and> assigned c' (P ! i) \<and> (i < n - 1 \<longrightarrow> assigned c' (G ! i))
    \<and> (\<forall>m. (at = Addition \<or> \<not> (a1 ! i = zero \<and> a2 ! i = zero) \<longrightarrow> cval c' m (P ! i) = leaf_p at (cval c m (a1 ! i)) (cval c m (a2 ! i)))
        \<and> (i < n - 1 \<longrightarrow> cval c' m (G ! i) = leaf_g at (cval c m (a1 ! i)) (cval c m (a2 ! i))))"
proof -
  note w = prefix_wires_nth [OF pw i i]
  have ok: "circuit_ok c" and z: "\<And>m. \<not> cval c m zero" using pw by (auto simp: prefix_wires_def)
  have "\<exists>c1. (if a1 ! i = zero \<and> a2 ! i = zero then addConst (P ! i) False c
      else addGate (a1 ! i) (a2 ! i) (if at = Addition then G_Xor else G_Nxor) (P ! i) c) = Inr c1 \<and> kept {P ! i} c c1 \<and> assigned c1 (P ! i)
    \<and> (\<forall>m. at = Addition \<or> \<not> (a1 ! i = zero \<and> a2 ! i = zero) \<longrightarrow> cval c1 m (P ! i) = leaf_p at (cval c m (a1 ! i)) (cval c m (a2 ! i)))"
  proof (cases "a1 ! i = zero \<and> a2 ! i = zero")
    case True
    with addConst_kept [OF ok w(6), of False] z show ?thesis by (auto simp: leaf_p_def)
  next
    case False
    with addGate_kept [OF ok w(11,12,6), of "if at = Addition then G_Xor else G_Nxor"] show ?thesis
      by (cases at) (auto simp: leaf_p_def unary_gates_def)
  qed
  then obtain c1 where c1: "(if a1 ! i = zero \<and> a2 ! i = zero then addConst (P ! i) False c
      else addGate (a1 ! i) (a2 ! i) (if at = Addition then G_Xor else G_Nxor) (P ! i) c) = Inr c1" "kept {P ! i} c c1" "assigned c1 (P ! i)"
    "\<And>m. at = Addition \<or> \<not> (a1 ! i = zero \<and> a2 ! i = zero) \<Longrightarrow> cval c1 m (P ! i) = leaf_p at (cval c m (a1 ! i)) (cval c m (a2 ! i))" by blast
  show ?thesis
  proof (cases "i < n - 1")
    case False
    with c1 show ?thesis using kept_mono [OF c1(2), of "{P ! i, G ! i}"] by (auto simp: prefix_leaf_def)
  next
    case True
    have "a1 ! i \<noteq> P ! i" "a2 ! i \<noteq> P ! i" using w(9,13,14) by auto
    then have v: "cval c1 m (a1 ! i) = cval c m (a1 ! i)" "cval c1 m (a2 ! i) = cval c m (a2 ! i)" for m using kept_val [OF c1(2)] by auto
    have "circuit_ok c1" "G ! i < mWireCount c1" using c1(2) w(7) kept_count [OF c1(2)] by (simp_all add: kept_def)
    from addGate_kept [OF this(1) kept_assigned [OF c1(2) w(11)] kept_assigned [OF c1(2) w(12)] this(2), of "if at = Addition then G_And else G_na_And"]
    obtain c2 where c2: "addGate (a1 ! i) (a2 ! i) (if at = Addition then G_And else G_na_And) (G ! i) c1 = Inr c2" "kept {G ! i} c1 c2"
      "assigned c2 (G ! i)" "\<And>m. cval c2 m (G ! i) = leaf_g at (cval c m (a1 ! i)) (cval c m (a2 ! i))"
      by (cases at) (auto simp: leaf_g_def unary_gates_def v)
    have "kept {P ! i, G ! i} c c2" by (rule kept_trans [OF kept_mono [OF c1(2)] kept_mono [OF c2(2)]]) auto
    moreover have "assigned c2 (P ! i)" "\<And>m. cval c2 m (P ! i) = cval c1 m (P ! i)"
      using kept_assigned [OF c2(2) c1(3)] kept_val [OF c2(2)] w(3) by auto
    ultimately show ?thesis using c1(1,4) c2 True by (auto simp: prefix_leaf_def)
  qed
qed

definition leaves_done :: "AdderType \<Rightarrow> wire \<Rightarrow> wires \<Rightarrow> wires \<Rightarrow> wires \<Rightarrow> wires \<Rightarrow> BetaCircuit \<Rightarrow> nat \<Rightarrow> BetaCircuit \<Rightarrow> bool" where
  "leaves_done at zero a1 a2 P G c i c' \<longleftrightarrow> kept (set P \<union> set G) c c' \<and> (\<forall>j<i. assigned c' (P ! j) \<and> (j < length P - 1 \<longrightarrow> assigned c' (G ! j))
     \<and> (\<forall>m. (at = Addition \<or> \<not> (a1 ! j = zero \<and> a2 ! j = zero) \<longrightarrow> cval c' m (P ! j) = leaf_p at (cval c m (a1 ! j)) (cval c m (a2 ! j)))
        \<and> (j < length P - 1 \<longrightarrow> cval c' m (G ! j) = leaf_g at (cval c m (a1 ! j)) (cval c m (a2 ! j)))))"

lemma prefix_leaves_ok:
  assumes pw: "prefix_wires n a1 a2 zero tmp P G c"
  shows "\<exists>c'. res_fold (prefix_leaf a1 a2 zero at n P G) [0..<n] c = Inr c' \<and> leaves_done at zero a1 a2 P G c n c'"
proof (rule res_fold_upt [where I = "leaves_done at zero a1 a2 P G c"])
  show "leaves_done at zero a1 a2 P G c 0 c" using pw by (simp add: leaves_done_def kept_refl prefix_wires_def)
next
  fix i d assume i: "i < n" and I: "leaves_done at zero a1 a2 P G c i d"
  have k: "kept (set P \<union> set G) c d" using I by (simp add: leaves_done_def)
  have l: "length P = n" using pw by (simp add: prefix_wires_def)
  have "prefix_wires n a1 a2 zero tmp P G d"
    by (rule prefix_wires_kept [OF pw k]) (use pw in \<open>auto simp: prefix_wires_def\<close>)
  note pd = this
  note w = prefix_wires_nth [OF pd i]
  have v: "cval d m (a1 ! i) = cval c m (a1 ! i)" "cval d m (a2 ! i) = cval c m (a2 ! i)" for m
    using kept_val [OF k] w(13,14) [OF i] by auto
  from prefix_leaf_ok [OF pd i, of at] obtain e where e: "prefix_leaf a1 a2 zero at n P G i d = Inr e" "kept {P ! i, G ! i} d e"
    "assigned e (P ! i)" "i < n - 1 \<Longrightarrow> assigned e (G ! i)"
    "\<And>m. at = Addition \<or> \<not> (a1 ! i = zero \<and> a2 ! i = zero) \<Longrightarrow> cval e m (P ! i) = leaf_p at (cval c m (a1 ! i)) (cval c m (a2 ! i))"
    "\<And>m. i < n - 1 \<Longrightarrow> cval e m (G ! i) = leaf_g at (cval c m (a1 ! i)) (cval c m (a2 ! i))" unfolding v by blast
  have "leaves_done at zero a1 a2 P G c (Suc i) e"
    unfolding leaves_done_def l
  proof (intro conjI allI impI)
    show "kept (set P \<union> set G) c e" using kept_trans [OF k kept_mono [OF e(2)]] w(9,10) [OF i] by blast
  next
    fix j assume j: "j < Suc i"
    show "assigned e (P ! j)" using j e(3) kept_assigned [OF e(2)] I by (cases "j = i") (auto simp: leaves_done_def)
    show "assigned e (G ! j)" if "j < n - 1" using j e(4) kept_assigned [OF e(2)] I l that by (cases "j = i") (auto simp: leaves_done_def)
    fix m
    show "cval e m (P ! j) = leaf_p at (cval c m (a1 ! j)) (cval c m (a2 ! j))" if "at = Addition \<or> \<not> (a1 ! j = zero \<and> a2 ! j = zero)"
    proof (cases "j = i")
      case False
      then have ji: "j < i" "j < n" using j i by auto
      have "P ! j \<noteq> P ! i" "P ! j \<noteq> G ! i" using prefix_wires_nth(1,3) [OF pd ji(2) i] False by auto
      with kept_val [OF e(2), of "P ! j" m] I ji that l show ?thesis by (simp add: leaves_done_def)
    qed (use e(5) that in simp)
    show "cval e m (G ! j) = leaf_g at (cval c m (a1 ! j)) (cval c m (a2 ! j))" if "j < n - 1"
    proof (cases "j = i")
      case False
      then have ji: "j < i" "j < n" using j i by auto
      have "G ! j \<noteq> G ! i" "G ! j \<noteq> P ! i" using prefix_wires_nth(2) [OF pd ji(2) i] prefix_wires_nth(3) [OF pd i ji(2)] False by auto
      with kept_val [OF e(2), of "G ! j" m] I ji that l show ?thesis by (simp add: leaves_done_def)
    qed (use e(6) that in simp)
  qed
  with e(1) show "\<exists>e. prefix_leaf a1 a2 zero at n P G i d = Inr e \<and> leaves_done at zero a1 a2 P G c (Suc i) e" by blast
qed

text \<open>One node: the block that ends at \<open>i\<close> is joined with the one that ends at \<open>lo\<close>.\<close>

lemma sk_combine_ok:
  assumes pw: "prefix_wires n a1 a2 zero tmp P G c" and V: "closed_nodes d n V" and l: "l < d" and i: "i < n"
    and as: "\<forall>j<n. assigned c (P ! j)" "\<forall>j<n - 1. assigned c (G ! j)"
  shows "(l, i) \<notin> V \<Longrightarrow> sk_combine (marked d n V V) n P G tmp l i c = Inr c"
    and "(l, i) \<in> V \<Longrightarrow> \<exists>c'. sk_combine (marked d n V V) n P G tmp l i c = Inr c' \<and> kept {tmp, P ! i, G ! i} c c'
      \<and> (\<forall>m. cval c' m (G ! i) = (cval c m (G ! i) \<noteq> (cval c m (P ! i) \<and> cval c m (G ! (block_start l i - 1))))
          \<and> (block_start l i \<noteq> 2 ^ l \<longrightarrow> cval c' m (P ! i) = (cval c m (P ! (block_start l i - 1)) \<and> cval c m (P ! i))))"
proof -
  have VN: "V \<subseteq> nodes d n" using V by (simp add: closed_nodes_def)
  have u: "nd_used (marked d n V V (l, i)) \<longleftrightarrow> (l, i) \<in> V"
    using VN by (auto simp: marked_def empty_node_def nodes_def)
  then show "(l, i) \<notin> V \<Longrightarrow> sk_combine (marked d n V V) n P G tmp l i c = Inr c" by (simp add: sk_combine_def Let_def)
  assume iV: "(l, i) \<in> V"
  then have b: "bit i l" "Suc i < n" using VN by (auto simp: nodes_def)
  then have b3: "i < n - 1" by linarith
  let ?lo = "block_start l i - 1"
  have lo: "?lo < i" "?lo < n" "?lo < n - 1" using before_block(4) [OF b(1)] i b(2) by linarith+
  have nd: "snd (nd_cur (marked d n V V (l, i))) = i" "snd (nd_low (marked d n V V (l, i))) = ?lo"
    "nd_first (marked d n V V (l, i)) \<longleftrightarrow> block_start l i = 2 ^ l"
    using l i b(1) by (simp_all add: marked_def full_node_def)
  note w = prefix_wires_nth [OF pw i lo(2)] and wl = prefix_wires_nth [OF pw lo(2) i]
  have ok: "circuit_ok c" using pw by (simp add: prefix_wires_def)
  have g: "assigned c (P ! i)" "assigned c (P ! ?lo)" "assigned c (G ! i)" "assigned c (G ! ?lo)" using as i b(2) lo by auto
  from addGate_kept [OF ok g(1,4) w(8), of G_And] obtain c1 where
    c1: "addGate (P ! i) (G ! ?lo) G_And tmp c = Inr c1" "kept {tmp} c c1" "assigned c1 tmp" "\<And>m. cval c1 m tmp = (cval c m (P ! i) \<and> cval c m (G ! ?lo))"
    by (auto simp: unary_gates_def)
  have k1: "circuit_ok c1" "G ! i < mWireCount c1" "assigned c1 (G ! i)" using c1(2) w(7) kept_count [OF c1(2)] kept_assigned [OF c1(2) g(3)] by (simp_all add: kept_def)
  from addGate_kept [OF k1(1) c1(3) k1(3,2), of G_Xor] obtain c2 where
    c2: "addGate tmp (G ! i) G_Xor (G ! i) c1 = Inr c2" "kept {G ! i} c1 c2" "\<And>m. cval c2 m (G ! i) = (cval c1 m tmp \<noteq> cval c1 m (G ! i))"
    by (auto simp: unary_gates_def)
  have k12: "kept {tmp, G ! i} c c2" by (rule kept_trans [OF kept_mono [OF c1(2)] kept_mono [OF c2(2)]]) auto
  have G2: "cval c2 m (G ! i) = (cval c m (G ! i) \<noteq> (cval c m (P ! i) \<and> cval c m (G ! ?lo)))" for m
    using c2(3) c1(4) kept_val [OF c1(2), of "G ! i"] w(5) by auto
  show "\<exists>c'. sk_combine (marked d n V V) n P G tmp l i c = Inr c' \<and> kept {tmp, P ! i, G ! i} c c'
      \<and> (\<forall>m. cval c' m (G ! i) = (cval c m (G ! i) \<noteq> (cval c m (P ! i) \<and> cval c m (G ! ?lo)))
          \<and> (block_start l i \<noteq> 2 ^ l \<longrightarrow> cval c' m (P ! i) = (cval c m (P ! ?lo) \<and> cval c m (P ! i))))"
  proof (cases "block_start l i = 2 ^ l")
    case True
    have "sk_combine (marked d n V V) n P G tmp l i c = Inr c2"
      using c1(1) c2(1) b3 u iV nd True by (simp add: sk_combine_def Let_def)
    with G2 True kept_mono [OF k12, of "{tmp, P ! i, G ! i}"] show ?thesis by auto
  next
    case False
    have k2: "circuit_ok c2" "P ! i < mWireCount c2" "assigned c2 (P ! i)" "assigned c2 (P ! ?lo)"
      using k12 w(6) kept_count [OF k12] kept_assigned [OF k12] g by (simp_all add: kept_def)
    from addGate_kept [OF k2(1,4,3,2), of G_And] obtain c3 where
      c3: "addGate (P ! ?lo) (P ! i) G_And (P ! i) c2 = Inr c3" "kept {P ! i} c2 c3" "\<And>m. cval c3 m (P ! i) = (cval c2 m (P ! ?lo) \<and> cval c2 m (P ! i))"
      by (auto simp: unary_gates_def)
    have "P ! i \<notin> {tmp, G ! i}" "P ! ?lo \<notin> {tmp, G ! i}" using prefix_wires_nth(3) [OF pw i i] w(4) wl(3,4) by auto
    then have "cval c3 m (P ! i) = (cval c m (P ! ?lo) \<and> cval c m (P ! i))" for m using c3(3) kept_val [OF k12] by simp
    moreover have "cval c3 m (G ! i) = cval c2 m (G ! i)" for m using kept_val [OF c3(2), of "G ! i"] prefix_wires_nth(3) [OF pw i i] by auto
    moreover have "kept {tmp, P ! i, G ! i} c c3" by (rule kept_trans [OF kept_mono [OF k12] kept_mono [OF c3(2)]]) auto
    moreover have "sk_combine (marked d n V V) n P G tmp l i c = Inr c3"
      using c1(1) c2(1) b3 u iV nd False c3(1) by (simp add: sk_combine_def Let_def)
    ultimately show ?thesis using G2 by auto
  qed
qed

text \<open>Between two nodes: the positions before \<open>k\<close> have been through the round.\<close>

definition valid_pos :: "(nat \<times> nat) set \<Rightarrow> nat \<Rightarrow> nat \<Rightarrow> bool" where
  "valid_pos V l i \<longleftrightarrow> (\<forall>k<l. bit i k \<longrightarrow> (k, i) \<in> V)"

definition in_round :: "(nat \<times> nat) set \<Rightarrow> ((wire \<Rightarrow> bool) \<Rightarrow> nat \<Rightarrow> bool) \<Rightarrow> ((wire \<Rightarrow> bool) \<Rightarrow> nat \<Rightarrow> bool) \<Rightarrow> wire \<Rightarrow> wires \<Rightarrow> wires
    \<Rightarrow> BetaCircuit \<Rightarrow> nat \<Rightarrow> nat \<Rightarrow> BetaCircuit \<Rightarrow> bool" where
  "in_round V p g tmp P G c0 l k c \<longleftrightarrow> kept (insert tmp (set P \<union> set G)) c0 c
     \<and> (\<forall>i<length P - 1. let lv = if i < k then Suc l else l in valid_pos V lv i \<longrightarrow> (\<forall>m.
          cval c m (G ! i) = gen_from (p m) (g m) (block_start lv i) (Suc i)
          \<and> (block_start lv i \<noteq> 0 \<longrightarrow> cval c m (P ! i) = prop_all (p m) (block_start lv i) (Suc i))))"

lemma in_roundI:
  assumes "kept (insert tmp (set P \<union> set G)) c0 c"
    and "\<And>i lv m. i < length P - 1 \<Longrightarrow> lv = (if i < k then Suc l else l) \<Longrightarrow> valid_pos V lv i
      \<Longrightarrow> cval c m (G ! i) = gen_from (p m) (g m) (block_start lv i) (Suc i)"
    and "\<And>i lv m. i < length P - 1 \<Longrightarrow> lv = (if i < k then Suc l else l) \<Longrightarrow> valid_pos V lv i \<Longrightarrow> block_start lv i \<noteq> 0
      \<Longrightarrow> cval c m (P ! i) = prop_all (p m) (block_start lv i) (Suc i)"
  shows "in_round V p g tmp P G c0 l k c"
  using assms unfolding in_round_def Let_def by blast

lemma in_roundD:
  assumes "in_round V p g tmp P G c0 l k c"
  shows "kept (insert tmp (set P \<union> set G)) c0 c"
    and "i < length P - 1 \<Longrightarrow> lv = (if i < k then Suc l else l) \<Longrightarrow> valid_pos V lv i
      \<Longrightarrow> cval c m (G ! i) = gen_from (p m) (g m) (block_start lv i) (Suc i)"
    and "i < length P - 1 \<Longrightarrow> lv = (if i < k then Suc l else l) \<Longrightarrow> valid_pos V lv i \<Longrightarrow> block_start lv i \<noteq> 0
      \<Longrightarrow> cval c m (P ! i) = prop_all (p m) (block_start lv i) (Suc i)"
  using assms unfolding in_round_def Let_def by blast+

lemma in_round_step:
  assumes pw: "prefix_wires n a1 a2 zero tmp P G c0" and V: "closed_nodes d n V" and l: "l < d" and k: "k < n"
    and as: "\<forall>j<n. assigned c0 (P ! j)" "\<forall>j<n - 1. assigned c0 (G ! j)" and ex: "\<And>m j. \<not> (p m j \<and> g m j)"
    and I: "in_round V p g tmp P G c0 l k c"
  shows "\<exists>c'. sk_combine (marked d n V V) n P G tmp l k c = Inr c' \<and> in_round V p g tmp P G c0 l (Suc k) c'"
proof -
  let ?W = "insert tmp (set P \<union> set G)"
  have len: "length P = n" using pw by (simp add: prefix_wires_def)
  have kc: "kept ?W c0 c" by (rule in_roundD(1) [OF I])
  have pc: "prefix_wires n a1 a2 zero tmp P G c" by (rule prefix_wires_kept [OF pw kc]) (use pw in \<open>auto simp: prefix_wires_def\<close>)
  have ac: "\<forall>j<n. assigned c (P ! j)" "\<forall>j<n - 1. assigned c (G ! j)" using as kept_assigned [OF kc] by auto
  note st = sk_combine_ok [OF pc V l k ac]
  show ?thesis
  proof (cases "(l, k) \<in> V")
    case False
    have lv: "valid_pos V l i \<and> block_start (if i < Suc k then Suc l else l) i = block_start (if i < k then Suc l else l) i
        \<and> valid_pos V (if i < k then Suc l else l) i"
      if "valid_pos V (if i < Suc k then Suc l else l) i" for i
    proof (cases "i = k")
      case True
      with that False have "\<not> bit k l" by (auto simp: valid_pos_def)
      with that True show ?thesis by (auto simp: valid_pos_def block_start_Suc)
    qed (use that in \<open>auto simp: valid_pos_def less_Suc_eq\<close>)
    have "in_round V p g tmp P G c0 l (Suc k) c"
    proof (rule in_roundI [OF kc])
      fix i lv m assume "i < length P - 1" "lv = (if i < Suc k then Suc l else l)" "valid_pos V lv i"
      with in_roundD(2,3) [OF I, of i _ m] lv [of i] show "cval c m (G ! i) = gen_from (p m) (g m) (block_start lv i) (Suc i)"
        "block_start lv i \<noteq> 0 \<Longrightarrow> cval c m (P ! i) = prop_all (p m) (block_start lv i) (Suc i)" by auto
    qed
    with st(1) [OF False] show ?thesis by blast
  next
    case True
    then have b: "bit k l" "Suc k < n" using V by (auto simp: closed_nodes_def nodes_def)
    let ?s = "block_start l k" and ?lo = "block_start l k - 1"
    note bb = before_block [OF b(1)]
    have s: "2 ^ l \<le> ?s" "1 \<le> ?s" "?s \<le> k" "Suc ?lo = ?s" using block_start_ge [OF b(1)] block_start_le [of l k] one_le_power [of "2 :: nat" l] by linarith+
    have "?lo < k" "?lo < length P - 1" "k < length P - 1" using bb(4) b(2) len by linarith+
    note lo = this
    have vk: "valid_pos V l k" "valid_pos V (Suc l) ?lo"
      using used_below [OF V True] used_low [OF V True] bb(3) by (auto simp: valid_pos_def less_Suc_eq)
    have s': "block_start (Suc l) k = ?s - 2 ^ l" "block_start (Suc l) ?lo = ?s - 2 ^ l" using b(1) bb(5) by (simp_all add: block_start_Suc)
    have val: "cval c m (G ! k) = gen_from (p m) (g m) ?s (Suc k)" "cval c m (P ! k) = prop_all (p m) ?s (Suc k)"
      "cval c m (G ! ?lo) = gen_from (p m) (g m) (?s - 2 ^ l) ?s" "?s - 2 ^ l \<noteq> 0 \<Longrightarrow> cval c m (P ! ?lo) = prop_all (p m) (?s - 2 ^ l) ?s" for m
      using in_roundD(2,3) [OF I lo(3), of l m] in_roundD(2,3) [OF I lo(2), of "Suc l" m] vk lo(1) s s' by simp_all
    from st(2) [OF True] obtain c' where c': "sk_combine (marked d n V V) n P G tmp l k c = Inr c'" "kept {tmp, P ! k, G ! k} c c'"
      "\<And>m. cval c' m (G ! k) = (cval c m (G ! k) \<noteq> (cval c m (P ! k) \<and> cval c m (G ! ?lo)))"
      "\<And>m. ?s \<noteq> 2 ^ l \<Longrightarrow> cval c' m (P ! k) = (cval c m (P ! ?lo) \<and> cval c m (P ! k))" by blast
    have "in_round V p g tmp P G c0 l (Suc k) c'"
    proof (rule in_roundI)
      have "P ! k \<in> set P" "G ! k \<in> set G" using prefix_wires_nth(9,10) [OF pw k k] by auto
      then show "kept ?W c0 c'" using kept_trans [OF kc kept_mono [OF c'(2)]] by auto
    next
      fix i lv m assume i: "i < length P - 1" "lv = (if i < Suc k then Suc l else l)" "valid_pos V lv i"
      show "cval c' m (G ! i) = gen_from (p m) (g m) (block_start lv i) (Suc i)"
      proof (cases "i = k")
        case True
        have "cval c' m (G ! k) = gen_from (p m) (g m) (?s - 2 ^ l) (Suc k)"
          using gen_split [of "?s - 2 ^ l" ?s "Suc k" "p m" "g m"] gen_not_prop [of "p m" "g m" ?s "Suc k"] ex s unfolding c'(3) val(1-3) by auto
        with True i s' show ?thesis by simp
      next
        case False
        have iw: "i < n" using i(1) len by simp
        have "G ! i \<notin> {tmp, P ! k, G ! k}" using prefix_wires_nth(2,5) [OF pw iw k] prefix_wires_nth(3) [OF pw k iw] False by auto
        with kept_val [OF c'(2)] in_roundD(2) [OF I i(1), of lv m] i False show ?thesis by (simp add: less_Suc_eq)
      qed
      show "cval c' m (P ! i) = prop_all (p m) (block_start lv i) (Suc i)" if nz: "block_start lv i \<noteq> 0"
      proof (cases "i = k")
        case True
        with nz i s' have ne: "?s - 2 ^ l \<noteq> 0" by simp
        then have "cval c' m (P ! k) = prop_all (p m) (?s - 2 ^ l) (Suc k)"
          using prop_join [of "?s - 2 ^ l" ?s "Suc k" "p m"] s unfolding c'(4) [of m, simplified] by (subst c'(4)) (use val(2,4) [of m] in auto)
        with True i s' show ?thesis by simp
      next
        case False
        have iw: "i < n" using i(1) len by simp
        have "P ! i \<notin> {tmp, P ! k, G ! k}" using prefix_wires_nth(1,3,4) [OF pw iw k] False by auto
        with kept_val [OF c'(2)] in_roundD(3) [OF I i(1), of lv m] i False nz show ?thesis by (simp add: less_Suc_eq)
      qed
    qed
    with c'(1) show ?thesis by blast
  qed
qed

lemma in_rounds:
  assumes pw: "prefix_wires n a1 a2 zero tmp P G c0" and V: "closed_nodes d n V"
    and as: "\<forall>j<n. assigned c0 (P ! j)" "\<forall>j<n - 1. assigned c0 (G ! j)" and ex: "\<And>m j. \<not> (p m j \<and> g m j)"
    and I: "in_round V p g tmp P G c0 0 0 c"
  shows "\<exists>c'. res_fold (\<lambda>level. res_fold (sk_combine (marked d n V V) n P G tmp level) [0..<n]) [0..<d] c = Inr c' \<and> in_round V p g tmp P G c0 d 0 c'"
proof (rule res_fold_upt [where I = "\<lambda>l. in_round V p g tmp P G c0 l 0", OF I])
  fix l c assume l: "l < d" and I: "in_round V p g tmp P G c0 l 0 c"
  have "\<exists>c'. res_fold (sk_combine (marked d n V V) n P G tmp l) [0..<n] c = Inr c' \<and> in_round V p g tmp P G c0 l n c'"
    by (rule res_fold_upt [where I = "in_round V p g tmp P G c0 l", OF I]) (rule in_round_step [OF pw V l _ as ex])
  then obtain c' where c': "res_fold (sk_combine (marked d n V V) n P G tmp l) [0..<n] c = Inr c'" "in_round V p g tmp P G c0 l n c'" by blast
  have n: "length P = n" using pw by (simp add: prefix_wires_def)
  have "in_round V p g tmp P G c0 (Suc l) 0 c'"
  proof (rule in_roundI [OF in_roundD(1) [OF c'(2)]])
    fix i lv m assume i: "i < length P - 1" "lv = (if i < 0 then Suc (Suc l) else Suc l)" "valid_pos V lv i"
    then have "lv = (if i < n then Suc l else l)" using n by simp
    note D = in_roundD(2,3) [OF c'(2) i(1) this i(3)]
    show "cval c' m (G ! i) = gen_from (p m) (g m) (block_start lv i) (Suc i)" by (rule D(1))
    show "block_start lv i \<noteq> 0 \<Longrightarrow> cval c' m (P ! i) = prop_all (p m) (block_start lv i) (Suc i)" by (rule D(2))
  qed
  with c'(1) show "\<exists>c'. res_fold (sk_combine (marked d n V V) n P G tmp l) [0..<n] c = Inr c' \<and> in_round V p g tmp P G c0 (Suc l) 0 c'" by blast
qed

lemma in_round_start:
  assumes "leaves_done at zero a1 a2 P G c0 n c" "length P = n" "\<forall>m. \<forall>j<n. cval c0 m (a1 ! j) = bit (A m) j \<and> cval c0 m (a2 ! j) = bit (B m) j"
    and "\<And>j. j < n - 1 \<Longrightarrow> at = Addition \<or> \<not> (a1 ! j = zero \<and> a2 ! j = zero)"
  shows "in_round V (\<lambda>m j. leaf_p at (bit (A m) j) (bit (B m) j)) (\<lambda>m j. leaf_g at (bit (A m) j) (bit (B m) j)) tmp P G c 0 0 c"
proof (rule in_roundI)
  show "kept (insert tmp (set P \<union> set G)) c c" using assms(1) by (auto simp: leaves_done_def kept_def same_frame_def)
next
  fix i lv m assume i: "i < length P - 1" and lv: "lv = (if i < 0 then Suc 0 else 0 :: nat)"
  have v: "cval c m (G ! i) = leaf_g at (bit (A m) i) (bit (B m) i)" "cval c m (P ! i) = leaf_p at (bit (A m) i) (bit (B m) i)"
    using assms i by (auto simp: leaves_done_def)
  show "cval c m (G ! i) = gen_from (\<lambda>j. leaf_p at (bit (A m) j) (bit (B m) j)) (\<lambda>j. leaf_g at (bit (A m) j) (bit (B m) j)) (block_start lv i) (Suc i)"
    using v(1) lv gen_empty [of i i] by simp
  show "cval c m (P ! i) = prop_all (\<lambda>j. leaf_p at (bit (A m) j) (bit (B m) j)) (block_start lv i) (Suc i)"
    using v(2) lv by (auto simp: prop_all_def less_Suc_eq_le dest: le_antisym)
qed

lemma res_fold_from:
  assumes "I a s" "\<And>k s. a \<le> k \<Longrightarrow> k < b \<Longrightarrow> I k s \<Longrightarrow> \<exists>s'. f k s = Inr s' \<and> I (Suc k) s'" "a \<le> b"
  shows "\<exists>s'. res_fold f [a..<b] s = Inr s' \<and> I b s'"
  using assms(3)
proof (induction rule: dec_induct)
  case (step k)
  with assms(2) [of k] show ?case by (fastforce simp: res_fold_append)
qed (use assms(1) in simp)

text \<open>The outputs.\<close>

definition sums_done :: "AdderType \<Rightarrow> ((wire \<Rightarrow> bool) \<Rightarrow> int) \<Rightarrow> ((wire \<Rightarrow> bool) \<Rightarrow> int) \<Rightarrow> wires \<Rightarrow> wires \<Rightarrow> BetaCircuit \<Rightarrow> nat \<Rightarrow> BetaCircuit \<Rightarrow> bool" where
  "sums_done at A B sums P c i c' \<longleftrightarrow> kept (set P \<union> (set sums - {no_wire})) c c'
     \<and> (\<forall>j<i. sums ! j \<noteq> no_wire \<longrightarrow> assigned c' (sums ! j) \<and> (\<forall>m. cval c' m (sums ! j) = bit (arith at (A m) (B m)) j))"

lemma prefix_sums_ok:
  assumes pw: "prefix_wires n a1 a2 zero tmp P G c" and ag: "\<forall>j<n - 1. assigned c (G ! j)"
    and sm: "length sums = n" "writable c sums" "(set sums - {no_wire}) \<inter> (set a1 \<union> set a2 \<union> {zero} \<union> set G) = {}"
      "\<And>j. 0 < j \<Longrightarrow> j < n \<Longrightarrow> P ! j \<notin> set sums - {no_wire}" "sums ! 0 \<noteq> no_wire \<Longrightarrow> P ! 0 = sums ! 0"
    and v: "\<And>m j. j < n \<Longrightarrow> cval c m (a1 ! j) = bit (A m) j \<and> cval c m (a2 ! j) = bit (B m) j"
    and carry: "\<And>m j. 0 < j \<Longrightarrow> j < n \<Longrightarrow> sums ! j \<noteq> no_wire \<Longrightarrow> cval c m (G ! (j - 1)) = chain at (A m) (B m) j"
  shows "\<exists>c'. res_bind (addGate (a1 ! 0) (a2 ! 0) G_Xor (P ! 0) c) (res_fold (prefix_sum a1 a2 zero sums P G) [1..<n]) = Inr c'
    \<and> sums_done at A B sums P c n c'"
proof -
  let ?R = "set sums - {no_wire}" and ?W = "set P \<union> (set sums - {no_wire})"
  have n: "0 < n" "length P = n" and ok: "circuit_ok c" using pw by (auto simp: prefix_wires_def)
  have Wd: "?W \<inter> (set a1 \<union> set a2 \<union> {zero}) = {}" "?W \<inter> set G = {}" using pw sm(3) by (auto simp: prefix_wires_def)
  note w0 = prefix_wires_nth [OF pw n(1) n(1)]
  from addGate_kept [OF ok w0(11,12,6), of G_Xor] obtain c1 where
    c1: "addGate (a1 ! 0) (a2 ! 0) G_Xor (P ! 0) c = Inr c1" "kept {P ! 0} c c1" "assigned c1 (P ! 0)"
      "\<And>m. cval c1 m (P ! 0) = (cval c m (a1 ! 0) \<noteq> cval c m (a2 ! 0))" by (auto simp: unary_gates_def)
  have I1: "sums_done at A B sums P c 1 c1"
    unfolding sums_done_def
  proof (intro conjI allI impI)
    show "kept ?W c c1" by (rule kept_mono [OF c1(2)]) (use w0(9) in auto)
    fix j assume "j < (1 :: nat)" "sums ! j \<noteq> no_wire"
    then have j: "j = 0" "P ! 0 = sums ! 0" using sm(5) by auto
    then show "assigned c1 (sums ! j)" using c1(3) by simp
    show "cval c1 m (sums ! j) = bit (arith at (A m) (B m)) j" for m using j c1(4) [of m] v [OF n(1), of m] by (simp add: bit_arith)
  qed
  have "\<exists>c'. res_fold (prefix_sum a1 a2 zero sums P G) [1..<n] c1 = Inr c' \<and> sums_done at A B sums P c n c'"
  proof (rule res_fold_from [where I = "sums_done at A B sums P c", OF I1])
    fix i d assume i: "1 \<le> i" "i < n" and I: "sums_done at A B sums P c i d"
    have kd: "kept ?W c d" using I by (simp add: sums_done_def)
    have pd: "prefix_wires n a1 a2 zero tmp P G d" by (rule prefix_wires_kept [OF pw kd Wd(1)])
    show "\<exists>e. prefix_sum a1 a2 zero sums P G i d = Inr e \<and> sums_done at A B sums P c (Suc i) e"
    proof (cases "sums ! i = no_wire")
      case True
      with I show ?thesis by (auto simp: prefix_sum_def sums_done_def less_Suc_eq)
    next
      case False
      note w = prefix_wires_nth [OF pd i(2) i(2)]
      have okd: "circuit_ok d" and z: "\<And>m. \<not> cval d m zero" using pd by (auto simp: prefix_wires_def)
      have opv: "cval d m (a1 ! i) = bit (A m) i" "cval d m (a2 ! i) = bit (B m) i" for m
      proof -
        have "a1 ! i \<in> set a1" "a2 ! i \<in> set a2" using pw i by (auto simp: prefix_wires_def)
        with kept_val [OF kd, of _ m] Wd(1) v [OF i(2), of m] show "cval d m (a1 ! i) = bit (A m) i" "cval d m (a2 ! i) = bit (B m) i" by blast+
      qed
      have "\<exists>d1. (if a1 ! i = zero \<and> a2 ! i = zero then addConst (P ! i) False d else addGate (a1 ! i) (a2 ! i) G_Xor (P ! i) d) = Inr d1
        \<and> kept {P ! i} d d1 \<and> assigned d1 (P ! i) \<and> (\<forall>m. cval d1 m (P ! i) = (cval d m (a1 ! i) \<noteq> cval d m (a2 ! i)))"
      proof (cases "a1 ! i = zero \<and> a2 ! i = zero")
        case True
        with addConst_kept [OF okd w(6), of False] show ?thesis by simp
      next
        case False
        with addGate_kept [OF okd w(11,12,6), of G_Xor] show ?thesis by (auto simp: unary_gates_def)
      qed
      then obtain d1 where d1: "(if a1 ! i = zero \<and> a2 ! i = zero then addConst (P ! i) False d else addGate (a1 ! i) (a2 ! i) G_Xor (P ! i) d) = Inr d1"
        "kept {P ! i} d d1" "assigned d1 (P ! i)" "\<And>m. cval d1 m (P ! i) = (bit (A m) i \<noteq> bit (B m) i)" unfolding opv by blast
      have si: "sums ! i \<in> ?R" using sm(1) i(2) False by simp
      have gi: "G ! (i - 1) \<in> set G" "i - 1 < n - 1" "i - 1 < n" using i pw by (auto simp: prefix_wires_def)
      have gd: "assigned d1 (G ! (i - 1))" using kept_assigned [OF d1(2)] kept_assigned [OF kd] ag gi(2) by blast
      have lt: "sums ! i < mWireCount d1" using sm(1,2) i(2) False kept_count [OF kd] kept_count [OF d1(2)] by (simp add: writable_def)
      have "circuit_ok d1" using d1(2) by (simp add: kept_def)
      from addGate_kept [OF this d1(3) gd lt, of G_Xor] obtain e where
        e: "addGate (P ! i) (G ! (i - 1)) G_Xor (sums ! i) d1 = Inr e" "kept {sums ! i} d1 e" "assigned e (sums ! i)"
          "\<And>m. cval e m (sums ! i) = (cval d1 m (P ! i) \<noteq> cval d1 m (G ! (i - 1)))" by (auto simp: unary_gates_def)
      have gv: "cval d1 m (G ! (i - 1)) = chain at (A m) (B m) i" for m
      proof -
        have "cval d1 m (G ! (i - 1)) = cval d m (G ! (i - 1))" using kept_val [OF d1(2), of "G ! (i - 1)" m] prefix_wires_nth(3) [OF pd i(2) gi(3)] by auto
        also have "\<dots> = cval c m (G ! (i - 1))" using kept_val [OF kd, of "G ! (i - 1)" m] Wd(2) gi(1) by blast
        also have "\<dots> = chain at (A m) (B m) i" using carry [of i m] i False by simp
        finally show ?thesis .
      qed
      have ke: "kept {P ! i, sums ! i} d e" by (rule kept_trans [OF kept_mono [OF d1(2)] kept_mono [OF e(2)]]) auto
      have "sums_done at A B sums P c (Suc i) e"
        unfolding sums_done_def
      proof (intro conjI allI impI)
        have "{P ! i, sums ! i} \<subseteq> ?W" using si w(9) by auto
        from kept_trans [OF kd kept_mono [OF ke this]] show "kept ?W c e" .
      next
        fix j assume j: "j < Suc i" "sums ! j \<noteq> no_wire"
        have eq: "sums ! j = sums ! i \<longleftrightarrow> j = i" using writable_nth [OF sm(2), of j i] sm(1) i(2) j by auto
        show "assigned e (sums ! j)" using e(3) kept_assigned [OF ke] I j by (cases "j = i") (auto simp: sums_done_def)
        fix m
        show "cval e m (sums ! j) = bit (arith at (A m) (B m)) j"
        proof (cases "j = i")
          case True
          then show ?thesis using e(4) [of m] d1(4) [of m] gv [of m] by (simp add: bit_arith)
        next
          case False
          then have "j < i" using j(1) by simp
          moreover have "sums ! j \<noteq> P ! i"
          proof
            assume "sums ! j = P ! i"
            moreover have "sums ! j \<in> ?R" using sm(1) i(2) j \<open>j < i\<close> by auto
            ultimately show False using sm(4) [of i] i by auto
          qed
          ultimately show ?thesis using kept_val [OF ke, of "sums ! j" m] eq False I j(2) by (simp add: sums_done_def)
        qed
      qed
      with d1(1) e(1) False show ?thesis by (auto simp: prefix_sum_def)
    qed
  qed (use n in simp)
  with c1(1) show ?thesis by auto
qed

section \<open>The adder\<close>

lemma signExtendResize_ok:
  assumes "it = Unsigned \<or> a \<noteq> []"
  shows "\<exists>b. signExtendResize a n zero it = Inr b \<and> length b = n \<and> set b \<subseteq> insert zero (set a)
    \<and> (it = TwosComplement \<longrightarrow> set b \<subseteq> set a) \<and> (\<forall>i<n. b ! i = zero \<longrightarrow> zero \<notin> set a \<longrightarrow> length a \<le> i)
    \<and> (\<forall>v i. \<not> v zero \<longrightarrow> i < n \<longrightarrow> v (b ! i) = bit (ival it (map v a)) i)"
proof (cases it)
  case Unsigned
  let ?b = "take n (a @ replicate (n - length a) zero)"
  have nth: "?b ! i = (if i < length a then a ! i else zero)" if "i < n" for i using that by (simp add: nth_append)
  have "set ?b \<subseteq> insert zero (set a)" by (auto dest: in_set_takeD split: if_splits)
  with nth show ?thesis by (intro exI [of _ ?b]) (auto simp: signExtendResize_def Unsigned bit_ival not_less [symmetric])
next
  case TwosComplement
  with assms have a: "a \<noteq> []" by simp
  let ?b = "take n (a @ replicate (n - length a) (last a))"
  obtain k where k: "length a = Suc k" using a by (cases a) auto
  have nth: "?b ! i = a ! min i (length a - 1)" if "i < n" for i using that a k by (auto simp: nth_append last_conv_nth min_def)
  have "set ?b \<subseteq> set a" using a by (auto dest: in_set_takeD split: if_splits)
  moreover have "?b ! i \<in> set a" if "i < n" for i unfolding nth [OF that] by (rule nth_mem) (simp add: k min_def)
  moreover have "min i (length a - 1) < length a" for i using a by (cases a) (simp_all add: min_def)
  ultimately show ?thesis using a nth by (intro exI [of _ ?b]) (auto simp: signExtendResize_def TwosComplement bit_ival)
qed

lemma parallelPrefix_ok:
  assumes ok: "circuit_ok cd" "mWireCount cd + 2 * length sums + 2 \<le> no_wire" and ops: "operand cd it a1" "operand cd it a2"
    and out: "writable cd sums" "sums \<noteq> []" "set sums \<inter> (set a1 \<union> set a2) = {}"
    and sz: "at = Subtraction \<Longrightarrow> it = Unsigned \<Longrightarrow> length sums \<le> max (length a1) (length a2) + 1"
  shows "\<exists>cd'. parallelPrefix_build a1 a2 sums it at cd = Inr cd'
    \<and> computes cd cd' sums (\<lambda>v. bit (arith at (ival it (map v a1)) (ival it (map v a2)))) {} (2 * length sums + 2)"
proof -
  let ?n = "length sums" and ?N = "mWireCount cd"
  define A where "A m = ival it (map (cval cd m) a1)" for m
  define B where "B m = ival it (map (cval cd m) a2)" for m
  obtain P0 c1 where c1: "addTempWireBundle (BetaBundle ?n) cd = (P0, c1)" by fastforce
  note k1 = addTempWireBundle_ok [OF ok(1) c1, simplified BetaBundle_def length_replicate]
  have ok1: "circuit_ok c1" using k1(1) by auto
  obtain G c2 where c2: "addTempWireBundle (BetaBundle ?n) c1 = (G, c2)" by fastforce
  note k2 = addTempWireBundle_ok [OF ok1 c2, simplified BetaBundle_def length_replicate]
  have ok2: "circuit_ok c2" using k2(1) by auto
  obtain zero c3 where c3: "addTempWire c2 = (zero, c3)" by fastforce
  note k3 = addTempWire_ok [OF ok2 c3]
  have ok3: "circuit_ok c3" using k3(1) by auto
  obtain tmp c4 where c4: "addTempWire c3 = (tmp, c4)" by fastforce
  note k4 = addTempWire_ok [OF ok3 c4]
  have ok4: "circuit_ok c4" using k4(1) by auto
  have w: "P0 = [?N..<?N + ?n]" "G = [?N + ?n..<?N + 2 * ?n]" "zero = ?N + 2 * ?n" "tmp = ?N + 2 * ?n + 1" "mWireCount c4 = ?N + 2 * ?n + 2"
    using k1(2,3) k2(2,3) k3(2,3) k4(2,3) by (simp_all add: mult_2 add.assoc)
  have "zero < mWireCount c4" using w by simp
  from addConst_ok [OF ok4 this, of False] obtain c5 where c5: "addConst zero False c4 = Inr c5" "assigns c4 c5 zero (\<lambda>_. False)" by auto
  have ok5: "circuit_ok c5" and n5: "mWireCount c5 = ?N + 2 * ?n + 2" using c5(2) w by (auto simp: assigns_def same_frame_def)
  have ex5: "extends cd c5"
    by (rule extends_trans [OF k1(1) extends_trans [OF k2(1) extends_trans [OF k3(1) extends_trans [OF k4(1) assigns_extends [OF c5(2)]]]]])
  have v5: "cval c5 m = (cval cd m)(zero := False)" for m using assigns_val [OF c5(2), of m] k1(4) k2(4) k3(4) k4(4) by simp
  have as5: "assigned c5 x \<longleftrightarrow> assigned cd x \<or> x = zero" for x
    using assigns_assigned [OF c5(2)] k1(5) k2(5) k3(5) k4(5) by simp
  have old: "x < ?N" if "x \<in> set a1 \<union> set a2" for x using that ops assigned_lt [OF ok(1)] by (auto simp: operand_def)
  have zn: "zero \<notin> set a1 \<union> set a2" using old w(3) by fastforce
  have vo: "map (cval c5 m) a1 = map (cval cd m) a1" "map (cval c5 m) a2 = map (cval cd m) a2" "\<not> cval c5 m zero" for m
    using zn by (auto simp: v5)
  have ne: "it = Unsigned \<or> a1 \<noteq> []" "it = Unsigned \<or> a2 \<noteq> []" using ops by (auto simp: operand_def)
  from signExtendResize_ok [OF ne(1), of ?n zero] obtain b1 where b1: "signExtendResize a1 ?n zero it = Inr b1" "length b1 = ?n"
    "set b1 \<subseteq> insert zero (set a1)" "it = TwosComplement \<Longrightarrow> set b1 \<subseteq> set a1" "\<And>i. i < ?n \<Longrightarrow> b1 ! i = zero \<Longrightarrow> zero \<notin> set a1 \<Longrightarrow> length a1 \<le> i"
    "\<And>v i. \<not> v zero \<Longrightarrow> i < ?n \<Longrightarrow> v (b1 ! i) = bit (ival it (map v a1)) i" by blast
  from signExtendResize_ok [OF ne(2), of ?n zero] obtain b2 where b2: "signExtendResize a2 ?n zero it = Inr b2" "length b2 = ?n"
    "set b2 \<subseteq> insert zero (set a2)" "it = TwosComplement \<Longrightarrow> set b2 \<subseteq> set a2" "\<And>i. i < ?n \<Longrightarrow> b2 ! i = zero \<Longrightarrow> zero \<notin> set a2 \<Longrightarrow> length a2 \<le> i"
    "\<And>v i. \<not> v zero \<Longrightarrow> i < ?n \<Longrightarrow> v (b2 ! i) = bit (ival it (map v a2)) i" by blast
  define P where "P = (if sums ! 0 \<noteq> no_wire then P0[0 := sums ! 0] else P0)"
  have n0: "0 < ?n" using out(2) by simp
  have Pnth: "P ! 0 = (if sums ! 0 \<noteq> no_wire then sums ! 0 else ?N)" "0 < j \<Longrightarrow> j < ?n \<Longrightarrow> P ! j = ?N + j" for j
    using n0 by (auto simp: P_def w(1))
  have Plen: "length P = ?n" by (simp add: P_def w(1))
  have so: "x < ?N" if "x \<in> set sums - {no_wire}" for x using that out(1) by (auto simp: writable_def)
  have s0: "sums ! 0 \<in> set sums" using n0 by simp
  have Pset: "x = sums ! 0 \<and> sums ! 0 \<noteq> no_wire \<or> ?N \<le> x \<and> x < ?N + ?n" if "x \<in> set P" for x
    using that set_update_subset_insert [of P0 0 "sums ! 0"] by (auto simp: P_def w(1) split: if_splits)
  have "sums ! 0 \<notin> set P0" if "sums ! 0 \<noteq> no_wire" using so [of "sums ! 0"] s0 that by (simp add: w(1))
  moreover have "distinct P0" by (simp add: w(1))
  ultimately have Pd: "distinct P" unfolding P_def by (simp add: distinct_list_update)
  have bs: "x < ?N \<and> x \<notin> set sums \<or> x = zero" if "x \<in> set b1 \<union> set b2 \<union> {zero}" for x
    using that b1(3) b2(3) old out(3) by blast
  have pw: "prefix_wires ?n b1 b2 zero tmp P G c5"
    unfolding prefix_wires_def
  proof (intro conjI)
    have "x \<notin> set P \<union> set G" if "x = tmp" for x using that Pset [of tmp] so [of "sums ! 0"] s0 w by auto
    moreover have "set P \<inter> set G = {}" using Pset so s0 w(2) by fastforce
    ultimately show "distinct (tmp # P @ G)" using Pd w(2) by auto
    have "x \<notin> {tmp} \<union> set P \<union> set G" if "x \<in> set b1 \<union> set b2 \<union> {zero}" for x
      using bs [OF that] Pset [of x] so [of "sums ! 0"] s0 w by auto
    then show "set (tmp # P @ G) \<inter> (set b1 \<union> set b2 \<union> {zero}) = {}" by auto
    show "\<forall>x\<in>set (tmp # P @ G). x < mWireCount c5" using Pset so [of "sums ! 0"] s0 w n5 by fastforce
    show "\<forall>x\<in>set b1 \<union> set b2 \<union> {zero}. assigned c5 x" using b1(3) b2(3) ops as5 by (auto simp: operand_def)
  qed (use ok5 n0 Plen b1 b2 w vo in simp_all)
  have bits: "cval c5 m (b1 ! j) = bit (A m) j \<and> cval c5 m (b2 ! j) = bit (B m) j" if "j < ?n" for m j
    using b1(6) [of "cval c5 m" j] b2(6) [of "cval c5 m" j] vo that by (simp add: A_def B_def)
  from prefix_leaves_ok [OF pw, of at] obtain c6 where
    c6: "res_fold (prefix_leaf b1 b2 zero at ?n P G) [0..<?n] c5 = Inr c6" "leaves_done at zero b1 b2 P G c5 ?n c6" by blast
  have k6: "kept (set P \<union> set G) c5 c6" using c6(2) by (simp add: leaves_done_def)
  have W6: "(set P \<union> set G) \<inter> (set b1 \<union> set b2 \<union> {zero}) = {}" using pw by (auto simp: prefix_wires_def)
  have pw6: "prefix_wires ?n b1 b2 zero tmp P G c6" by (rule prefix_wires_kept [OF pw k6 W6])
  have ag: "\<forall>j<?n. assigned c6 (P ! j)" "\<forall>j<?n - 1. assigned c6 (G ! j)" using c6(2) Plen by (auto simp: leaves_done_def)
  have nz: "at = Addition \<or> \<not> (b1 ! j = zero \<and> b2 ! j = zero)" if j: "j < ?n - 1" for j
  proof (rule ccontr)
    assume a: "\<not> (at = Addition \<or> \<not> (b1 ! j = zero \<and> b2 ! j = zero))"
    then have "at = Subtraction" by (cases at) simp_all
    have jn: "j < ?n" using j by simp
    have "length a1 \<le> j" "length a2 \<le> j" using b1(5) [OF jn] b2(5) [OF jn] a zn by auto
    moreover have "it = Unsigned"
    proof (rule ccontr)
      assume "it \<noteq> Unsigned"
      then have "it = TwosComplement" by (cases it) simp_all
      with b1(2,4) jn have "b1 ! j \<in> set a1" by auto
      with a zn show False by auto
    qed
    ultimately show False using sz [OF \<open>at = Subtraction\<close>] j by simp
  qed
  have "?n \<le> 2 ^ log2ceil ?n" by (rule log2ceil_bound [OF n0])
  from sk_graph_ok [OF this, of "\<lambda>i. sums ! i \<noteq> no_wire"] obtain V where
    V: "sk_graph (log2ceil ?n) ?n (\<lambda>i. sums ! i \<noteq> no_wire) = marked (log2ceil ?n) ?n V V" "closed_nodes (log2ceil ?n) ?n V"
      "\<And>i l. 1 \<le> i \<Longrightarrow> i < ?n \<Longrightarrow> sums ! i \<noteq> no_wire \<Longrightarrow> bit (i - 1) l \<Longrightarrow> (l, i - 1) \<in> V" by blast
  have "in_round V (\<lambda>m j. leaf_p at (bit (A m) j) (bit (B m) j)) (\<lambda>m j. leaf_g at (bit (A m) j) (bit (B m) j)) tmp P G c6 0 0 c6"
    by (rule in_round_start [OF c6(2) Plen]) (use bits nz in auto)
  from in_rounds [OF pw6 V(2) ag leaf_excl this] obtain c7 where
    c7: "res_fold (\<lambda>level. res_fold (sk_combine (marked (log2ceil ?n) ?n V V) ?n P G tmp level) [0..<?n]) [0..<log2ceil ?n] c6 = Inr c7"
      "in_round V (\<lambda>m j. leaf_p at (bit (A m) j) (bit (B m) j)) (\<lambda>m j. leaf_g at (bit (A m) j) (bit (B m) j)) tmp P G c6 (log2ceil ?n) 0 c7" by blast
  let ?W = "insert tmp (set P \<union> set G)"
  have k7: "kept ?W c6 c7" by (rule in_roundD(1) [OF c7(2)])
  have k57: "kept ?W c5 c7" by (rule kept_trans [OF kept_mono [OF k6] k7]) auto
  have W7: "?W \<inter> (set b1 \<union> set b2 \<union> {zero}) = {}" using pw by (auto simp: prefix_wires_def)
  have pw7: "prefix_wires ?n b1 b2 zero tmp P G c7" by (rule prefix_wires_kept [OF pw k57 W7])
  have carry: "cval c7 m (G ! (j - 1)) = chain at (A m) (B m) j" if j: "0 < j" "j < ?n" "sums ! j \<noteq> no_wire" for m j
  proof -
    have vp: "valid_pos V (log2ceil ?n) (j - 1)" using V(3) [of j] j by (auto simp: valid_pos_def)
    have "j - 1 < 2 ^ log2ceil ?n" using log2ceil_bound [OF n0] j by linarith
    then have "block_start (log2ceil ?n) (j - 1) = 0" by (rule block_start_small)
    moreover have "j - 1 < length P - 1" using j Plen by simp
    ultimately show ?thesis using in_roundD(2) [OF c7(2), of "j - 1" "log2ceil ?n" m] vp j by (simp add: chain_gen del: gen_from.simps)
  qed
  have "\<exists>c8. res_bind (addGate (b1 ! 0) (b2 ! 0) G_Xor (P ! 0) c7) (res_fold (prefix_sum b1 b2 zero sums P G) [1..<?n]) = Inr c8
    \<and> sums_done at A B sums P c7 ?n c8"
  proof (rule prefix_sums_ok [OF pw7])
    show "\<forall>j<?n - 1. assigned c7 (G ! j)" using ag(2) kept_assigned [OF k7] by blast
    show "writable c7 sums" using out(1) kept_count [OF k57] n5 by (auto simp: writable_def)
    show "(set sums - {no_wire}) \<inter> (set b1 \<union> set b2 \<union> {zero} \<union> set G) = {}" using so bs w by fastforce
    show "P ! j \<notin> set sums - {no_wire}" if "0 < j" "j < ?n" for j using Pnth(2) [OF that] so by fastforce
    show "sums ! 0 \<noteq> no_wire \<Longrightarrow> P ! 0 = sums ! 0" using Pnth(1) by simp
    show "cval c7 m (b1 ! j) = bit (A m) j \<and> cval c7 m (b2 ! j) = bit (B m) j" if "j < ?n" for m j
    proof -
      have "b1 ! j \<notin> ?W" "b2 ! j \<notin> ?W" using prefix_wires_nth(13,14) [OF pw that that] by auto
      with bits [OF that, of m] kept_val [OF k57] show ?thesis by simp
    qed
  qed (use carry in simp_all)
  then obtain c8 where c8: "res_bind (addGate (b1 ! 0) (b2 ! 0) G_Xor (P ! 0) c7) (res_fold (prefix_sum b1 b2 zero sums P G) [1..<?n]) = Inr c8"
    "sums_done at A B sums P c7 ?n c8" by blast
  have k8: "kept (set P \<union> (set sums - {no_wire})) c7 c8" using c8(2) by (simp add: sums_done_def)
  let ?X = "?W \<union> (set sums - {no_wire})"
  have k58: "kept ?X c5 c8" by (rule kept_trans [OF kept_mono [OF k57] kept_mono [OF k8]]) auto
  have dis: "areDistint cd' a2 sums" "areDistint cd' a1 sums" for cd' using out(3) by (auto intro!: areDistint_disjoint)
  have "parallelPrefix_build a1 a2 sums it at cd = Inr c8"
    using c1 c2 c3 c4 c5(1) b1(1) b2(1) c6(1) c7(1) c8(1) V(1) n0 dis by (simp add: parallelPrefix_build_def P_def [symmetric] Let_def)
  moreover have "computes cd c8 sums (\<lambda>v. bit (arith at (ival it (map v a1)) (ival it (map v a2)))) {} (2 * ?n + 2)"
  proof -
    have "extends cd c8" using ex5 k58 by (auto simp: kept_def same_frame_def extends_def)
    moreover have "mWireCount c8 \<le> ?N + (2 * ?n + 2)" using kept_count [OF k58] n5 by simp
    moreover have "assigned c8 x" if "assigned cd x" for x using kept_assigned [OF k58] as5 that by blast
    moreover have "cval c8 m x = cval cd m x" if "x \<notin> set sums" "x < ?N" for x m
    proof -
      have "x \<notin> ?X" "x \<noteq> zero" using that Pset [of x] s0 w by auto
      with kept_val [OF k58, of x m] v5 show ?thesis by simp
    qed
    ultimately show ?thesis using c8(2) by (simp add: computes_def sums_done_def A_def B_def)
  qed
  ultimately show ?thesis by blast
qed

interpretation prefix: adder Opt_Depth
proof (unfold_locales, goal_cases)
  case (1 cd out it a1 a2 temps at)
  from parallelPrefix_ok [OF 1(1,2,3,4,5,6,7) 1(9) [OF refl]] obtain cd' where
    "parallelPrefix_build a1 a2 out it at cd = Inr cd'"
    "computes cd cd' out (\<lambda>v. bit (arith at (ival it (map v a1)) (ival it (map v a2)))) {} (2 * length out + 2)" by blast
  then show ?case by (cases at) (auto simp: adder_build_def add_build_def subtract_build_def elim: computes_mono)
qed

section \<open>Both adders\<close>

lemma adder_all: "adder opt"
  by (cases opt) (simp_all add: ripple.adder_axioms prefix.adder_axioms)

interpretation adders: adder opt for opt
  by (rule adder_all)

text \<open>The circuits of the library that consist of one adder; the numbers of extra wires depend on the adder.\<close>

lemma int_int_add_runs:
  assumes "0 < aSize" "0 < bSize" "0 < cSize" "3 * aSize + bSize + 3 * cSize + 6 \<le> no_wire"
  shows "runs (int_int_add aSize bSize cSize opt) [aSize, bSize] cSize (\<lambda>ins. bit (ival TwosComplement (ins ! 0) + ival TwosComplement (ins ! 1)))"
  using adders.adder_runs [of TwosComplement aSize bSize cSize "if opt = Opt_Size then 4 else aSize * 2" opt Addition] assms
  by (simp add: int_int_add_def arith_def adder_build_def)

lemma int_int_subtract_runs:
  assumes "0 < aSize" "0 < bSize" "0 < cSize" "aSize + bSize + 5 * cSize + 6 \<le> no_wire"
  shows "runs (int_int_subtract aSize bSize cSize opt) [aSize, bSize] cSize (\<lambda>ins. bit (ival TwosComplement (ins ! 0) - ival TwosComplement (ins ! 1)))"
  using adders.adder_runs [of TwosComplement aSize bSize cSize "if opt = Opt_Depth then 2 * cSize else 4" opt Subtraction] assms
  by (cases opt) (simp_all add: int_int_subtract_def arith_def adder_build_def)

lemma uint_uint_add_runs:
  assumes "0 < cSize" "aSize + bSize + 5 * cSize + 6 \<le> no_wire"
  shows "runs (uint_uint_add aSize bSize cSize opt) [aSize, bSize] cSize (\<lambda>ins. bit (ival Unsigned (ins ! 0) + ival Unsigned (ins ! 1)))"
  using adders.adder_runs [of Unsigned aSize bSize cSize "if opt = Opt_Size then 4 else cSize * 2" opt Addition] assms
  by (simp add: uint_uint_add_def arith_def adder_build_def)

lemma uint_uint_subtract_runs:
  assumes "0 < cSize" "aSize + bSize + 5 * cSize + 6 \<le> no_wire" "opt = Opt_Size \<or> cSize \<le> max aSize bSize + 1"
  shows "runs (uint_uint_subtract aSize bSize cSize opt) [aSize, bSize] cSize (\<lambda>ins. bit (ival Unsigned (ins ! 0) - ival Unsigned (ins ! 1)))"
  using adders.adder_runs [of Unsigned aSize bSize cSize "if opt = Opt_Size then 4 else cSize * 2" opt Subtraction] assms
  by (cases opt) (simp_all add: uint_uint_subtract_def arith_def adder_build_def)

end
