(* ===== verification/CircuitMult.thy ===== *)
theory CircuitMult
  imports CircuitPrefix
begin

text \<open>
  The multiplication of the library is correct for every adder: rows of conjunctions, added one after the other to a running
  sum whose lowest bit is final after each addition.
\<close>

section \<open>Partial products\<close>

text \<open>The sum of the first \<open>i\<close> rows.\<close>

definition psum :: "int \<Rightarrow> int \<Rightarrow> nat \<Rightarrow> int" where
  "psum a b i = a * take_bit i b"

lemma psum_Suc: "psum a b (Suc i) = psum a b i + push_bit i (if bit b i then a else 0)"
  by (simp add: psum_def take_bit_Suc_from_most push_bit_eq_mult algebra_simps)

lemma drop_psum_Suc: "drop_bit i (psum a b (Suc i)) = drop_bit i (psum a b i) + (if bit b i then a else 0)"
  by (simp add: psum_Suc drop_bit_eq_div push_bit_eq_mult)

lemma psum_low: "j < i \<Longrightarrow> bit (psum a b (Suc i)) j = bit (psum a b i) j"
proof -
  assume j: "j < i"
  have "take_bit i (psum a b (Suc i)) = take_bit i (psum a b i)"
    by (simp add: psum_Suc take_bit_eq_mod push_bit_eq_mult)
  then have "bit (take_bit i (psum a b (Suc i))) j = bit (take_bit i (psum a b i)) j" by simp
  with j show ?thesis by (simp add: bit_take_bit_iff)
qed

lemma psum_final: "j < n \<Longrightarrow> bit (psum a b n) j = bit (a * b) j"
proof -
  assume j: "j < n"
  have "take_bit n (psum a b n) = take_bit n (a * b)" by (simp add: psum_def take_bit_eq_mod mod_mult_right_eq)
  then have "bit (take_bit n (psum a b n)) j = bit (take_bit n (a * b)) j" by simp
  with j show ?thesis by (simp add: bit_take_bit_iff)
qed

lemma bits_add:
  fixes x y x' y' :: int
  assumes "\<And>j. j < n \<Longrightarrow> bit x j = bit x' j" "\<And>j. j < n \<Longrightarrow> bit y j = bit y' j" "k < n"
  shows "bit (x + y) k = bit (x' + y') k"
proof -
  have "take_bit n x = take_bit n x'" "take_bit n y = take_bit n y'" using assms(1,2) by (auto intro!: bit_eqI simp: bit_take_bit_iff)
  then have "take_bit n (x + y) = take_bit n (x' + y')" by (metis take_bit_add)
  then have "bit (take_bit n (x + y)) k = bit (take_bit n (x' + y')) k" by simp
  with assms(3) show ?thesis by (simp add: bit_take_bit_iff)
qed

text \<open>A row: the conjunctions of a bit with the low bits of a bundle.\<close>

lemma bit_row:
  assumes "length w = min n (length a)" "\<And>j. j < length w \<Longrightarrow> w ! j = (x \<and> a ! j)" "a \<noteq> []" "j < n"
  shows "bit (ival it w) j = bit (if x then ival it a else 0) j"
proof -
  have w: "w \<noteq> []" "0 < length a" using assms(1,3,4) by (auto simp: min_def split: if_splits)
  show ?thesis
  proof (cases "n \<le> length a")
    case True
    with assms(1,2,4) show ?thesis by (simp add: bit_ival_lt)
  next
    case False
    then have "length w = length a" using assms(1) by simp
    moreover have "min j (length a - 1) < length a" unfolding min_less_iff_disj using w(2) by linarith
    ultimately show ?thesis using w assms(2,3) by (auto simp: bit_ival)
  qed
qed

text \<open>Dropping the lowest bit of a sum of two bundles keeps the others, if one bit more than the wider bundle was computed.\<close>

lemma bit_above:
  assumes "- (2 ^ n) \<le> t" "t < 2 ^ n" "n \<le> j"
  shows "bit (t :: int) j \<longleftrightarrow> t < 0"
proof -
  have "(2 :: int) ^ n \<le> 2 ^ j" using assms(3) by (simp add: power_increasing)
  with assms show ?thesis by (intro bit_sign) linarith+
qed

lemma bit_shifted_sum:
  assumes "length x \<le> n" "length y \<le> n" "x \<noteq> []" "y \<noteq> []" "Suc n \<le> l \<or> m \<le> l" "Suc j < m" "1 < l" "l \<le> Suc n"
    and t: "t = ival it x + ival it y"
  shows "bit (ival it (map (bit t) [1..<l])) j = bit t (Suc j)"
proof (cases "Suc j < l")
  case True
  then show ?thesis by (simp add: bit_ival_lt)
next
  case False
  then have l: "l = Suc n" using assms by linarith
  have n: "0 < n" using l assms(7) by simp
  have ne: "it = Unsigned \<or> map (bit t) [1..<l] \<noteq> []" using assms(7) by simp
  show ?thesis
  proof (cases it)
    case Unsigned
    have "(2 :: int) ^ length x \<le> 2 ^ n" "(2 :: int) ^ length y \<le> 2 ^ n" using assms(1,2) by (simp_all add: power_increasing)
    with ival_bounds [where bs = x and it = it] ival_bounds [where bs = y and it = it] t Unsigned have "0 \<le> t" "t < 2 ^ Suc n" unfolding power_Suc by linarith+
    then have "\<not> bit t (Suc j)" using bit_above [of "Suc n" t "Suc j"] False l by simp
    then show ?thesis using ne Unsigned False by (auto simp: bit_ival)
  next
    case TwosComplement
    have "(2 :: int) ^ (length x - 1) \<le> 2 ^ (n - 1)" "(2 :: int) ^ (length y - 1) \<le> 2 ^ (n - 1)"
      using assms(1,2) by (simp_all add: power_increasing)
    moreover have "(2 :: int) ^ n = 2 * 2 ^ (n - 1)" using n by (simp add: power_eq_if)
    ultimately have r: "- (2 ^ n) \<le> t" "t < 2 ^ n"
      using ival_bounds(4) [OF TwosComplement assms(3)] ival_bounds(4) [OF TwosComplement assms(4)] t by linarith+
    have "bit (ival it (map (bit t) [1..<l])) j = bit t n" using ne TwosComplement False l n by (simp add: bit_ival nth_append)
    then show ?thesis using bit_above [OF r, of n] bit_above [OF r, of "Suc j"] False l by simp
  qed
qed

section \<open>The rows\<close>

lemma and_row_ok:
  assumes "circuit_ok cd" "length row \<le> length a" "assigned cd x" "\<forall>w\<in>set a. assigned cd w" "\<forall>w\<in>set row. w < mWireCount cd"
    "distinct row" "set row \<inter> insert x (set a) = {}"
  shows "\<exists>cd'. res_fold (\<lambda>j. addGate x (a ! j) G_And (row ! j)) [0..<length row] cd = Inr cd' \<and> kept (set row) cd cd'
    \<and> (\<forall>w\<in>set row. assigned cd' w) \<and> (\<forall>m j. j < length row \<longrightarrow> cval cd' m (row ! j) = (cval cd m x \<and> cval cd m (a ! j)))"
proof -
  have "row ! i \<noteq> replicate (length a) x ! j \<and> row ! i \<noteq> a ! j" if "i < j" "j < length row" for i j
  proof -
    have "replicate (length a) x ! j = x" "row ! i \<in> set row" "a ! j \<in> set a" using that assms(2) by simp_all
    with assms(7) show ?thesis by (metis disjoint_iff insert_iff)
  qed
  moreover have "\<forall>w\<in>set (replicate (length a) x) \<union> set a. assigned cd w" using assms(3,4) by (auto simp: set_replicate_conv_if)
  moreover have "length (replicate (length a) x) = length a" "G_And \<notin> set unary_gates" by (simp_all add: unary_gates_def)
  ultimately obtain cd' where
    cd': "bitwise_build G_And (replicate (length a) x) a row cd = Inr cd'" "kept (set row) cd cd'" "\<forall>w\<in>set row. assigned cd' w"
      "\<forall>m j. j < length row \<longrightarrow> cval cd' m (row ! j) = (cval cd m (replicate (length a) x ! j) \<and> cval cd m (a ! j))"
    using bitwise_build_ok [of cd "replicate (length a) x" a row G_And] assms(1,2,5,6) by (auto simp: kept_def)
  moreover have "res_fold (\<lambda>j. addGate x (a ! j) G_And (row ! j)) [0..<length row] cd
      = res_fold (\<lambda>j. addGate (replicate (length a) x ! j) (a ! j) G_And (row ! j)) [0..<length row] cd"
    using assms(2) by (intro res_fold_cong) simp
  ultimately show ?thesis using assms(2) by (auto simp: bitwise_build_def)
qed

text \<open>The first \<open>k\<close> rows; the lowest bit of the first one is the lowest bit of the product.\<close>

definition rows_done :: "wires \<Rightarrow> wires \<Rightarrow> wires \<Rightarrow> BetaCircuit \<Rightarrow> nat \<Rightarrow> wires list \<times> BetaCircuit \<Rightarrow> bool" where
  "rows_done a b c cd k = (\<lambda>(rows, c1). length rows = k \<and> extends cd c1 \<and> mWireCount c1 \<le> mWireCount cd + k * length a
     \<and> (\<forall>w. assigned cd w \<longrightarrow> assigned c1 w) \<and> (\<forall>m w. w < mWireCount cd \<longrightarrow> w \<noteq> c ! 0 \<longrightarrow> cval c1 m w = cval cd m w)
     \<and> (\<forall>i<k. length (rows ! i) = min (length c - i) (length a)
         \<and> (\<forall>j<length (rows ! i). assigned c1 (rows ! i ! j)
              \<and> (if i = 0 \<and> j = 0 then rows ! i ! j = c ! 0 else mWireCount cd \<le> rows ! i ! j)
              \<and> (\<forall>m. cval c1 m (rows ! i ! j) = (cval cd m (b ! min i (length b - 1)) \<and> cval cd m (a ! j))))))"

lemma mult_row_ok:
  assumes ok: "circuit_ok cd" and ab: "2 \<le> length a" "b \<noteq> []" "\<forall>w\<in>set a \<union> set b. assigned cd w"
    and c: "\<forall>w\<in>set c. w < mWireCount cd" "set c \<inter> (set a \<union> set b) = {}" "numRows = 1 \<Longrightarrow> length c = 1" "i < length c"
    and I: "rows_done a b c cd i (rows, c1)"
  shows "\<exists>s'. mult_row numRows a b c i (rows, c1) = Inr s' \<and> rows_done a b c cd (Suc i) s'"
proof -
  let ?n = "min (length c - i) (length a)" and ?x = "b ! min i (length b - 1)"
  have ok1: "circuit_ok c1" using I by (auto simp: rows_done_def)
  obtain r0 c2 where c2: "addTempWireBundle (BetaBundle ?n) c1 = (r0, c2)" by fastforce
  note k2 = addTempWireBundle_ok [OF ok1 c2, simplified BetaBundle_def length_replicate]
  define row where "row = (if i = 0 then r0[0 := c ! 0] else r0)"
  have n: "0 < ?n" "length row = ?n" "length row \<le> length a" using ab(1) c(4) by (auto simp: row_def k2(3))
  have N: "mWireCount cd \<le> mWireCount c1" using I by (auto simp: rows_done_def extends_def)
  have nth: "row ! j = (if i = 0 \<and> j = 0 then c ! 0 else mWireCount c1 + j)" if "j < ?n" for j
    using that by (auto simp: row_def k2(3) nth_list_update)
  have c0: "c ! 0 \<in> set c" "c ! 0 < mWireCount cd" using c(1) nth_mem [of 0 c, OF le_less_trans [OF le0 c(4)]] by blast+
  have row: "w = c ! 0 \<and> i = 0 \<or> mWireCount c1 \<le> w \<and> w < mWireCount c2" if "w \<in> set row" for w
  proof -
    from that obtain j where "j < ?n" "w = row ! j" unfolding in_set_conv_nth n(2) by blast
    then show ?thesis using nth [of j] k2(2) by auto
  qed
  have x: "?x \<in> set b" using ab(2) by (intro nth_mem) (cases b; auto simp: min_def)
  have old: "w < mWireCount cd" if "w \<in> set a \<union> set b" for w using that ab(3) assigned_lt [OF ok] by auto
  have "circuit_ok c2" using k2(1) by auto
  moreover have "distinct row" using n(2) nth c0(2) N by (auto simp: distinct_conv_nth)
  moreover have "set row \<inter> insert ?x (set a) = {}" using row old x c0 c(2) N by fastforce
  moreover have as2: "assigned c2 w" if "assigned cd w" for w using that I k2(5) by (simp add: rows_done_def)
  moreover have "\<forall>w\<in>set row. w < mWireCount c2" using row c0(2) N k2(2) by fastforce
  ultimately obtain c3 where c3: "res_fold (\<lambda>j. addGate ?x (a ! j) G_And (row ! j)) [0..<length row] c2 = Inr c3" "kept (set row) c2 c3"
      "\<forall>w\<in>set row. assigned c3 w" "\<forall>m j. j < length row \<longrightarrow> cval c3 m (row ! j) = (cval c2 m ?x \<and> cval c2 m (a ! j))"
    using and_row_ok [of c2 row a ?x] n(3) ab(3) x by auto
  have v3: "cval c3 m w = cval c1 m w" if "w \<notin> set row" for m w using kept_val [OF c3(2) that] k2(4) by simp
  have v2: "cval c2 m w = cval cd m w" if "w \<in> set a \<union> set b" for m w
    using that I old [OF that] k2(4) c0(1) c(2) by (fastforce simp: rows_done_def)
  have res: "mult_row numRows a b c i (rows, c1) = Inr (rows @ [row], c3)"
  proof -
    have "(if numRows = 1 then row ! 0 # take (length row - 1) (drop 1 c) else row) = row"
    proof (cases "numRows = 1")
      case True
      then have "length row = 1" using c(3,4) n ab(1) by simp
      then show ?thesis using True by (cases row) simp_all
    qed simp
    moreover have "length row \<noteq> 0" "length r0 \<noteq> 0" using n(1) unfolding n(2) k2(3) length_upt by linarith+
    moreover have "0 < length b" using ab(2) by simp
    then have "min i (length b - 1) < length b" unfolding min_less_iff_disj by linarith
    ultimately show ?thesis using c2 c3(1) ab(1,2)
      by (simp add: mult_row_def row_def [symmetric] vec_at_def Let_def split del: if_split) 
  qed
  have lI: "length rows = i" using I by (simp add: rows_done_def)
  have as3: "assigned c3 w" if "assigned c1 w" for w using that k2(5) kept_assigned [OF c3(2)] by simp
  have old_row: "assigned c3 w \<and> (\<forall>m. cval c3 m w = cval c1 m w)" if "assigned c1 w" "0 < i" for w
  proof -
    have "w \<notin> set row" using row [of w] assigned_lt [OF ok1 that(1)] that(2) by auto
    then show ?thesis using v3 as3 that(1) by simp
  qed
  have "rows_done a b c cd (Suc i) (rows @ [row], c3)"
    unfolding rows_done_def prod.case
  proof (intro conjI allI impI)
    show "length (rows @ [row]) = Suc i" using lI by simp
    show "extends cd c3" using I k2(1) c3(2) by (auto simp: rows_done_def kept_def same_frame_def extends_def)
    have "?n \<le> length a" "mWireCount c1 \<le> mWireCount cd + i * length a" using I by (simp_all add: rows_done_def)
    then show "mWireCount c3 \<le> mWireCount cd + Suc i * length a" using k2(2) kept_count [OF c3(2)] unfolding mult_Suc by linarith
    show "assigned c3 w" if "assigned cd w" for w using that as3 I by (simp add: rows_done_def)
    show "cval c3 m w = cval cd m w" if "w < mWireCount cd" "w \<noteq> c ! 0" for m w
    proof -
      have "w \<notin> set row" using row [of w] that N by auto
      then show ?thesis using v3 I that by (simp add: rows_done_def)
    qed
    fix k assume k: "k < Suc i"
    show "length ((rows @ [row]) ! k) = min (length c - k) (length a)"
      using k I lI n(2) by (cases "k = i") (auto simp: rows_done_def nth_append)
    fix j assume j: "j < length ((rows @ [row]) ! k)"
    let ?w = "(rows @ [row]) ! k ! j"
    show "assigned c3 ?w" "if k = 0 \<and> j = 0 then ?w = c ! 0 else mWireCount cd \<le> ?w"
      "cval c3 m ?w = (cval cd m (b ! min k (length b - 1)) \<and> cval cd m (a ! j))" for m
    proof -
      have "assigned c3 ?w \<and> (if k = 0 \<and> j = 0 then ?w = c ! 0 else mWireCount cd \<le> ?w)
        \<and> (\<forall>m. cval c3 m ?w = (cval cd m (b ! min k (length b - 1)) \<and> cval cd m (a ! j)))"
      proof (cases "k = i")
        case True
        then have w: "?w = row ! j" "j < length row" using lI j by (simp_all add: nth_append)
        have "a ! j \<in> set a" using w(2) n(3) by simp
        then have "cval c3 m (row ! j) = (cval cd m ?x \<and> cval cd m (a ! j))" for m using c3(4) w(2) v2 x by simp
        moreover have "assigned c3 (row ! j)" using c3(3) w(2) by simp
        moreover have "if i = 0 \<and> j = 0 then row ! j = c ! 0 else mWireCount cd \<le> row ! j" using nth [of j] w(2) n(2) N by auto
        ultimately show ?thesis unfolding w(1) using True by simp
      next
        case False
        with k lI have w: "?w = rows ! k ! j" "k < i" "j < length (rows ! k)" using j by (simp_all add: nth_append)
        with I old_row show ?thesis by (auto simp: rows_done_def)
      qed
      then show "assigned c3 ?w" "if k = 0 \<and> j = 0 then ?w = c ! 0 else mWireCount cd \<le> ?w"
        "cval c3 m ?w = (cval cd m (b ! min k (length b - 1)) \<and> cval cd m (a ! j))" for m by blast+
    qed
  qed
  with res show ?thesis by blast
qed

lemma mult_rows_ok:
  assumes "circuit_ok cd" "2 \<le> length a" "b \<noteq> []" "\<forall>w\<in>set a \<union> set b. assigned cd w"
    "\<forall>w\<in>set c. w < mWireCount cd" "set c \<inter> (set a \<union> set b) = {}" "numRows = 1 \<Longrightarrow> length c = 1" "numRows \<le> length c"
  shows "\<exists>rows c1. res_fold (mult_row numRows a b c) [0..<numRows] ([], cd) = Inr (rows, c1) \<and> rows_done a b c cd numRows (rows, c1)"
proof -
  have "\<exists>s'. res_fold (mult_row numRows a b c) [0..<numRows] ([], cd) = Inr s' \<and> rows_done a b c cd numRows s'"
  proof (rule res_fold_upt)
    show "rows_done a b c cd 0 ([], cd)" using assms(1) by (simp add: rows_done_def)
    fix i s assume "i < numRows" "rows_done a b c cd i s"
    with mult_row_ok [OF assms(1-7), where i = i and rows = "fst s" and ?c1.0 = "snd s"] assms(8)
    show "\<exists>s'. mult_row numRows a b c i s = Inr s' \<and> rows_done a b c cd (Suc i) s'" by simp
  qed
  then show ?thesis by auto
qed

section \<open>The running sum\<close>

text \<open>
  Before row \<open>i\<close> is added: the bits of the product below \<open>i\<close> are final, and the bundle \<open>rows ! (i - 1)\<close> holds the bits above.
  The circuit \<open>c1\<close> is the one with the rows \<open>rows0\<close>; \<open>T\<close> are the temporary wires of the adder.
\<close>

definition sum_inv :: "IntType \<Rightarrow> ((wire \<Rightarrow> bool) \<Rightarrow> int) \<Rightarrow> ((wire \<Rightarrow> bool) \<Rightarrow> int) \<Rightarrow> nat \<Rightarrow> wires \<Rightarrow> wires \<Rightarrow> wires list \<Rightarrow> BetaCircuit
    \<Rightarrow> nat \<Rightarrow> wires list \<times> BetaCircuit \<Rightarrow> bool" where
  "sum_inv it A B la c T rows0 c1 i = (\<lambda>(rows, c2). length rows = length rows0 \<and> (\<forall>k. i \<le> k \<longrightarrow> k < length rows \<longrightarrow> rows ! k = rows0 ! k)
     \<and> extends c1 c2 \<and> mWireCount c2 \<le> mWireCount c1 + i * (3 * la + 5) \<and> (\<forall>w. assigned c1 w \<longrightarrow> assigned c2 w)
     \<and> (\<forall>m w. w < mWireCount c1 \<longrightarrow> w \<notin> set c \<union> set (take 4 T) \<longrightarrow> cval c2 m w = cval c1 m w)
     \<and> (\<forall>j<i. assigned c2 (c ! j) \<and> (\<forall>m. cval c2 m (c ! j) = bit (psum (A m) (B m) i) j))
     \<and> (let r = rows ! (i - 1) in length r \<le> min (length c - i) la \<and> (\<forall>w\<in>set r. assigned c2 w \<and> w \<notin> set (take 4 T))
         \<and> (if i = length rows then r = drop i c else r \<noteq> [] \<and> set r \<inter> set c = {})
         \<and> (\<forall>m j. j < length c - i \<longrightarrow> bit (ival it (map (cval c2 m) r)) j = bit (psum (A m) (B m) i) (i + j))))"

lemma bit_ival_tl: "tl xs \<noteq> [] \<Longrightarrow> bit (ival it (tl xs)) j = bit (ival it xs) (Suc j)"
  by (cases xs) (auto simp: bit_ival min_def nth_Cons split: nat.splits)

lemma psum_1: "psum a b (Suc 0) = (if bit b 0 then a else 0)"
  by (simp add: psum_Suc) (simp add: psum_def)

text \<open>The first row, with its lowest bit taken away, is the sum to start with.\<close>

lemma rows_doneD:
  assumes "rows_done a b c cd n (rows, c1)"
  shows "length rows = n" "extends cd c1" "i < n \<Longrightarrow> length (rows ! i) = min (length c - i) (length a)"
    "i < n \<Longrightarrow> j < length (rows ! i) \<Longrightarrow> assigned c1 (rows ! i ! j)"
    "0 < n \<Longrightarrow> rows ! 0 \<noteq> [] \<Longrightarrow> rows ! 0 ! 0 = c ! 0"
    "i < n \<Longrightarrow> j < length (rows ! i) \<Longrightarrow> 0 < i + j \<Longrightarrow> mWireCount cd \<le> rows ! i ! j"
proof -
  have I: "\<forall>i<n. \<forall>j<length (rows ! i). assigned c1 (rows ! i ! j) \<and> (if i = 0 \<and> j = 0 then rows ! i ! j = c ! 0 else mWireCount cd \<le> rows ! i ! j)"
    using assms by (simp add: rows_done_def)
  show "length rows = n" "extends cd c1" "i < n \<Longrightarrow> length (rows ! i) = min (length c - i) (length a)"
    using assms by (simp_all add: rows_done_def)
  show "i < n \<Longrightarrow> j < length (rows ! i) \<Longrightarrow> assigned c1 (rows ! i ! j)"
    "i < n \<Longrightarrow> j < length (rows ! i) \<Longrightarrow> 0 < i + j \<Longrightarrow> mWireCount cd \<le> rows ! i ! j" using I by auto
  show "rows ! 0 ! 0 = c ! 0" if "0 < n" "rows ! 0 \<noteq> []" using I [rule_format, of 0 0] that by simp
qed

lemma rows_done_bit:
  assumes "rows_done a b c cd n (rows, c1)" "a \<noteq> []" "i < n" "j < length c - i"
    and "bit (ival it (map (cval cd m) b)) i = cval cd m (b ! min i (length b - 1))"
  shows "bit (ival it (map (cval c1 m) (rows ! i))) j
    = bit (if bit (ival it (map (cval cd m) b)) i then ival it (map (cval cd m) a) else 0) j"
  by (rule bit_row [where n = "length c - i"]) (use assms in \<open>auto simp: rows_done_def\<close>)

lemma sum_inv_start:
  assumes I: "rows_done a b c cd n (rows, c1)" and n: "1 < n" "n \<le> length c" and ab: "2 \<le> length a" "circuit_ok cd"
    and c: "\<forall>w\<in>set c. w < mWireCount cd" and T: "\<forall>w\<in>set T. mWireCount c1 \<le> w"
    and c3: "circuit_ok c3" "\<And>m. cval c3 m = cval c1 m" "\<And>w. assigned c3 w \<longleftrightarrow> assigned c1 w"
    and bB: "\<And>m i. i < n \<Longrightarrow> bit (ival it (map (cval cd m) b)) i = cval cd m (b ! min i (length b - 1))"
  shows "sum_inv it (\<lambda>m. ival it (map (cval cd m) a)) (\<lambda>m. ival it (map (cval cd m) b)) (length a) c T rows c3 1 (rows[0 := tl (rows ! 0)], c3)"
proof -
  let ?r = "rows ! 0"
  note D = rows_doneD [OF I]
  have ok1: "circuit_ok c1" using D(2) by auto
  have l: "2 \<le> length ?r" using n ab(1) D(3) [of 0] by simp
  have r0: "?r \<noteq> []" and a0: "a \<noteq> []" using l ab(1) by auto
  have r: "length ?r = min (length c) (length a)" "?r ! 0 = c ! 0" "length rows = n"
    "\<And>j. 0 < j \<Longrightarrow> j < length ?r \<Longrightarrow> mWireCount cd \<le> ?r ! j" "\<And>j. j < length ?r \<Longrightarrow> assigned c1 (?r ! j)"
    using n D(1) D(3) [of 0] D(4) [of 0] D(5) [OF _ r0] D(6) [of 0] by auto
  have bits: "bit (ival it (map (cval c3 m) ?r)) j = bit (psum (ival it (map (cval cd m) a)) (ival it (map (cval cd m) b)) 1) j" if "j < length c" for m j
    using rows_done_bit [OF I _ _ _ bB, where i = 0 and j = j and m = m] that n(1) a0 c3(2) by (auto simp: psum_1)
  have tl: "assigned c1 w \<and> mWireCount cd \<le> w" if "w \<in> set (tl ?r)" for w
  proof -
    from that obtain k where k: "k < length ?r - 1" "w = tl ?r ! k" unfolding in_set_conv_nth by auto
    then have "w = ?r ! Suc k" by (simp add: nth_tl)
    then show ?thesis using r(4,5) [of "Suc k"] k(1) by simp
  qed
  show ?thesis
    unfolding sum_inv_def prod.case Let_def
  proof (intro conjI allI impI ballI)
    fix j :: nat assume "j < 1"
    then show "assigned c3 (c ! j)" using r(2) r(5) [of 0] r0 c3(3) by simp
    fix m
    have "cval c3 m (c ! 0) = bit (ival it (map (cval c3 m) ?r)) 0" using r0 r(2) bit_ival_lt [of 0 "map (cval c3 m) ?r" it] by simp
    then show "cval c3 m (c ! j) = bit (psum (ival it (map (cval cd m) a)) (ival it (map (cval cd m) b)) 1) j"
      using bits [of 0 m] \<open>j < 1\<close> n by (cases "c = []") simp_all
  next
    let ?q = "rows[0 := tl ?r] ! (1 - 1)"
    have q: "?q = tl ?r" using r(3) n(1) by simp
    show "length ?q \<le> min (length c - 1) (length a)" unfolding q by (simp add: r(1)) linarith
    show "assigned c3 w" "w \<notin> set (take 4 T)" if "w \<in> set ?q" for w
      using tl that assigned_lt [OF ok1] T c3(3) unfolding q by (fastforce dest: in_set_takeD)+
    have "tl ?r \<noteq> []" using l by (cases ?r) auto
    moreover have "set (tl ?r) \<inter> set c = {}" using tl c by fastforce
    ultimately show "if 1 = length (rows[0 := tl ?r]) then ?q = drop 1 c else ?q \<noteq> [] \<and> set ?q \<inter> set c = {}"
      using r(3) n(1) q by simp
    fix m j assume "j < length c - 1"
    moreover have "tl (map (cval c3 m) ?r) \<noteq> []" using l by (cases ?r) auto
    ultimately show "bit (ival it (map (cval c3 m) ?q)) j = bit (psum (ival it (map (cval cd m) a)) (ival it (map (cval cd m) b)) 1) (1 + j)"
      using bits [of "Suc j" m] bit_ival_tl [of "map (cval c3 m) ?r" it j] unfolding q map_tl by simp
  qed (use c3(1) in auto)
qed

context adder
begin

lemma mult_sum_ok:
  assumes c: "distinct c" "\<forall>w\<in>set c. w < mWireCount c1" and T: "4 \<le> length T" "distinct (take 4 T)" "\<forall>w\<in>set (take 4 T). w < mWireCount c1"
      "set (take 4 T) \<inter> set c = {}" and la: "0 < la" "length c \<le> la + length rows0" "length rows0 \<le> length c"
    and W: "0 < i" "i < length rows0" "length (rows0 ! i) = min (length c - i) la" "\<forall>w\<in>set (rows0 ! i). assigned c1 w \<and> w \<notin> set (take 4 T) \<union> set c"
      "\<And>m j. j < length c - i \<Longrightarrow> bit (ival it (map (cval c1 m) (rows0 ! i))) j = bit (if bit (B m) i then A m else 0) j"
    and ok: "circuit_ok c1" "mWireCount c1 + Suc i * (3 * la + 5) \<le> no_wire" and I: "sum_inv it A B la c T rows0 c1 i (rows, c2)"
  shows "\<exists>s'. mult_sum op it c T i (rows, c2) = Inr s' \<and> sum_inv it A B la c T rows0 c1 (Suc i) s'"
proof -
  let ?w = "rows0 ! i" and ?r = "rows ! (i - 1)" and ?n = "length rows0"
  define l where "l = min (length ?w + 1) (length c - i)"
  have I': "length rows = ?n" "rows ! i = ?w" "circuit_ok c2" "extends c1 c2" "mWireCount c1 \<le> mWireCount c2"
    "mWireCount c2 \<le> mWireCount c1 + i * (3 * la + 5)" "?r \<noteq> []" "length ?r \<le> min (length c - i) la" "set ?r \<inter> set c = {}"
    "\<forall>w\<in>set ?r. assigned c2 w \<and> w \<notin> set (take 4 T)"
    using I W(1,2) by (auto simp: sum_inv_def Let_def extends_def)
  obtain s0 c3 where c3: "addTempWireBundle (BetaBundle l) c2 = (s0, c3)" by fastforce
  note k3 = addTempWireBundle_ok [OF I'(3) c3, simplified BetaBundle_def length_replicate]
  have l: "0 < l" "l \<le> length c - i" "l \<le> la + 1" "?w \<noteq> []" using W(2,3) la(1,3) by (auto simp: l_def)
  define sums where "sums = (if i = ?n - 1 then s0[0 := c ! i] ! 0 # take (length s0 - 1) (drop (i + 1) c) else s0[0 := c ! i])"
  have ls: "length sums = l" using l(1,2) k3(3) by (simp add: sums_def)
  have nth: "sums ! j = (if j = 0 \<or> i = ?n - 1 then c ! (i + j) else mWireCount c2 + j)" if "j < l" for j
    using that l k3(3) by (auto simp: sums_def nth_Cons nth_list_update split: nat.splits)
  have cn: "c ! (i + j) \<in> set c" if "j < l" for j using that l(2) by (intro nth_mem) linarith
  have ss: "w \<in> set c \<or> mWireCount c2 \<le> w \<and> w < mWireCount c3" if "w \<in> set sums" for w
  proof -
    from that obtain j where j: "j < l" "w = sums ! j" unfolding in_set_conv_nth ls by blast
    then show ?thesis using nth [OF j(1)] cn [OF j(1)] k3(2) by auto
  qed
  have inj: "sums ! j \<noteq> sums ! k" if "j < l" "k < l" "j \<noteq> k" for j k
  proof -
    have "c ! (i + j) \<noteq> c ! (i + k)" using that c(1) l(2) by (subst nth_eq_iff_index_eq) linarith+
    moreover have "c ! (i + j) < mWireCount c2" "c ! (i + k) < mWireCount c2"
      using c(2) cn [OF that(1)] cn [OF that(2)] I'(5) by (meson less_le_trans)+
    ultimately show ?thesis using nth [OF that(1)] nth [OF that(2)] that(3) by auto
  qed
  have old: "w < mWireCount c2 \<and> w \<notin> set c \<union> set (take 4 T)" if "w \<in> set ?r \<union> set ?w" for w
    using that I'(5,9,10) W(4) assigned_lt [OF I'(3)] assigned_lt [OF ok(1)] by fastforce
  have st: "set sums \<inter> set (take 4 T) = {}" using ss T(3,4) I'(5) by fastforce
  have "\<exists>c4. adder_build op Addition it ?r ?w sums T c3 = Inr c4
    \<and> computes c3 c4 sums (\<lambda>v. bit (arith Addition (ival it (map v ?r)) (ival it (map v ?w)))) (set (take 4 T)) (2 * length sums + 2)"
  proof (rule adder_ok)
    show "circuit_ok c3" using k3(1) by auto
    show "mWireCount c3 + 2 * length sums + 2 \<le> no_wire" using k3(2) ls l(3) ok(2) I'(6) by simp
    show "operand c3 it ?r" "operand c3 it ?w" using I'(4,7,10) W(4) l(4) k3(5) I by (auto simp: operand_def sum_inv_def)
    have "distinct sums" using inj ls by (simp add: distinct_conv_nth)
    then show "writable c3 sums" using ss c(2) I'(5) k3(2) by (fastforce simp: writable_def)
    show "sums \<noteq> []" using ls l(1) by auto
    show "set sums \<inter> (set ?r \<union> set ?w) = {}" using ss old by fastforce
    show "temps_ok c3 T (?r @ ?w @ sums)" using T(1-3) st old I'(5) k3(2) by (fastforce simp: temps_ok_def)
  qed simp
  then obtain c4 where c4: "add_build op it ?r ?w sums T c3 = Inr c4"
    "computes c3 c4 sums (\<lambda>v. bit (ival it (map v ?r) + ival it (map v ?w))) (set (take 4 T)) (2 * l + 2)"
    by (auto simp: arith_def ls)
  have "mult_sum op it c T i (rows, c2) = Inr (rows[i := tl sums], c4)"
  proof -
    have "min (length (rows ! i) + 1) (length c - i) = l" by (simp add: l_def I'(2))
    then show ?thesis using c4(1) unfolding mult_sum_def prod.case Let_def c3 sums_def I'(1,2) length_list_update by (simp add: c3 split del: if_split)
  qed
  moreover have "sum_inv it A B la c T rows0 c1 (Suc i) (rows[i := tl sums], c4)"
  proof -
    define t where "t m = ival it (map (cval c2 m) ?r) + ival it (map (cval c1 m) ?w)" for m
    have "cval c2 m w = cval c1 m w" if "w \<in> set ?w" for m w
      using that W(4) I assigned_lt [OF ok(1)] by (fastforce simp: sum_inv_def)
    then have vw: "map (cval c2 m) ?w = map (cval c1 m) ?w" for m by simp
    have "sums ! j \<noteq> no_wire" if "j < l" for j
    proof -
      have "sums ! j \<in> set sums" using that ls by simp
      then show ?thesis using ss c(2) I'(5,6) k3(2) ok(2) l(3) by fastforce
    qed
    then have sv: "assigned c4 (sums ! j) \<and> (\<forall>m. cval c4 m (sums ! j) = bit (t m) j)" if "j < l" for j
      using c4(2) that ls by (simp add: computes_def t_def k3(4) vw)
    have bt: "bit (t m) j = bit (psum (A m) (B m) (Suc i)) (i + j)" if "j < length c - i" for m j
    proof -
      have "bit (t m) j = bit (drop_bit i (psum (A m) (B m) i) + (if bit (B m) i then A m else 0)) j"
        unfolding t_def by (rule bits_add [where n = "length c - i"]) (use I W(5) that in \<open>auto simp: sum_inv_def Let_def bit_drop_bit_eq\<close>)
      then show ?thesis by (simp add: drop_psum_Suc [symmetric] bit_drop_bit_eq)
    qed
    have mt: "map (cval c4 m) (tl sums) = map (bit (t m)) [1..<l]" for m
      using ls sv by (auto intro!: nth_equalityI simp: nth_tl)
    have lt: "w < mWireCount c1 \<Longrightarrow> w \<notin> set c \<union> set (take 4 T) \<Longrightarrow> w \<notin> set sums" for w using ss I'(5) by fastforce
    show ?thesis
      unfolding sum_inv_def prod.case Let_def
    proof (intro conjI allI impI ballI)
      show "length (rows[i := tl sums]) = ?n" using I'(1) by simp
      show "rows[i := tl sums] ! k = rows0 ! k" if "Suc i \<le> k" "k < length (rows[i := tl sums])" for k
        using that I by (auto simp: sum_inv_def)
      show "extends c1 c4" using I'(4) k3(1) c4(2) by (auto simp: computes_def intro: extends_trans)
      show "mWireCount c4 \<le> mWireCount c1 + Suc i * (3 * la + 5)" using c4(2) k3(2) I'(6) l(3) by (simp add: computes_def)
      show "assigned c4 w" if "assigned c1 w" for w using that I k3(5) c4(2) by (simp add: sum_inv_def computes_def)
      show "cval c4 m w = cval c1 m w" if "w < mWireCount c1" "w \<notin> set c \<union> set (take 4 T)" for m w
        using that lt [OF that] I I'(5) k3(2,4) c4(2) by (simp add: sum_inv_def computes_def)
      fix j assume j: "j < Suc i"
      show "assigned c4 (c ! j)" "cval c4 m (c ! j) = bit (psum (A m) (B m) (Suc i)) j" for m
      proof -
        have "assigned c4 (c ! j) \<and> (\<forall>m. cval c4 m (c ! j) = bit (psum (A m) (B m) (Suc i)) j)"
        proof (cases "j = i")
          case True
          then show ?thesis using sv [of 0] nth [of 0] bt [of 0] l(1,2) by simp
        next
          case False
          then have ji: "j < i" using j by simp
          have cj: "c ! j \<in> set c" using ji l(1,2) by (intro nth_mem) linarith
          then have cl: "c ! j < mWireCount c1" "c ! j \<notin> set (take 4 T)" using c(2) T(4) by auto
          have "c ! j \<noteq> sums ! k" if "k < l" for k
          proof -
            have "c ! j \<noteq> c ! (i + k)" using ji that c(1) l(2) by (subst nth_eq_iff_index_eq) linarith+
            then show ?thesis using nth [OF that] cl(1) I'(5) by (auto split: if_splits)
          qed
          then have "c ! j \<notin> set sums" unfolding in_set_conv_nth ls by metis
          then show ?thesis using I ji cl I'(5) k3(2,4,5) c4(2) by (simp add: sum_inv_def computes_def psum_low)
        qed
        then show "assigned c4 (c ! j)" "cval c4 m (c ! j) = bit (psum (A m) (B m) (Suc i)) j" for m by blast+
      qed
    next
      let ?q = "rows[i := tl sums] ! (Suc i - 1)"
      have q: "?q = tl sums" using I'(1) W(2) by simp
      show "length ?q \<le> min (length c - Suc i) la" unfolding q length_tl ls using l(1-3) by (intro min.boundedI) linarith+
      have tq: "w \<in> set sums" if "w \<in> set ?q" for w using that unfolding q by (rule list.set_sel(2) [rotated]) (use ls l(1) in auto)
      show "assigned c4 w" "w \<notin> set (take 4 T)" if "w \<in> set ?q" for w
      proof -
        from tq [OF that] obtain k where "k < l" "w = sums ! k" unfolding in_set_conv_nth ls by blast
        then show "assigned c4 w" using sv by simp
        show "w \<notin> set (take 4 T)" using tq [OF that] st by blast
      qed
      show "if Suc i = length (rows[i := tl sums]) then ?q = drop (Suc i) c else ?q \<noteq> [] \<and> set ?q \<inter> set c = {}"
      proof (cases "Suc i = ?n")
        case True
        then have "l = length c - i" using la(2) W(3) by (simp add: l_def)
        then have "take (length s0 - 1) (drop (i + 1) c) = drop (Suc i) c" using k3(3) by simp
        moreover have "i = ?n - 1" using True by simp
        ultimately have "tl sums = drop (Suc i) c" unfolding sums_def by (simp only: simp_thms if_True list.sel(3))
        then show ?thesis unfolding q using True I'(1) by simp
      next
        case False
        then have "1 < l" using W(2,3) la(1,3) by (simp add: l_def) 
        then have "tl sums \<noteq> []" using ls by (cases sums) auto
        moreover have "w \<notin> set c" if "w \<in> set (tl sums)" for w
        proof -
          from that obtain k where k: "k < l - 1" "w = tl sums ! k" unfolding in_set_conv_nth by (auto simp: ls)
          have "i \<noteq> ?n - 1" using False W(2) by simp
          then have "w = mWireCount c2 + Suc k" using nth [of "Suc k"] k ls by (simp add: nth_tl)
          then show ?thesis using c(2) I'(5) by fastforce
        qed
        ultimately show ?thesis using False I'(1) q by auto
      qed
      show "bit (ival it (map (cval c4 m) ?q)) j = bit (psum (A m) (B m) (Suc i)) (Suc i + j)" if "j < length c - Suc i" for m j
      proof -
        have "bit (ival it (map (bit (t m)) [1..<l])) j = bit (t m) (Suc j)"
        proof (rule bit_shifted_sum [where m = "length c - i" and n = "length ?w"])
          show "length (map (cval c2 m) ?r) \<le> length ?w" using I'(8) W(3) by simp
          have "1 < length c - i" using that by linarith
          then show "1 < l" using W(3) la(1) by (simp add: l_def)
        qed (use that W(3) I'(7) l(4) in \<open>auto simp: l_def t_def\<close>)
        then show ?thesis unfolding q mt using bt [of "Suc j" m] that by simp
      qed
    qed
  qed
  ultimately show ?thesis by blast
qed

lemma mult_build_ge_ok:
  assumes ok: "circuit_ok cd" "mWireCount cd + length c * (4 * length a + 5) + 3 * length a + 4 \<le> no_wire"
    and ab: "2 \<le> length b" "length b \<le> length a" "\<forall>w\<in>set a \<union> set b. assigned cd w"
    and c: "c \<noteq> []" "length c \<le> length a + length b" "distinct c" "\<forall>w\<in>set c. w < mWireCount cd" "set c \<inter> (set a \<union> set b) = {}"
  shows "\<exists>cd'. mult_build_ge op it a b c cd = Inr cd'
    \<and> computes cd cd' c (\<lambda>v. bit (ival it (map v a) * ival it (map v b))) {} (length c * (4 * length a + 5) + 3 * length a + 4)"
proof -
  define n where "n = (if it = TwosComplement then length c else min (length b) (length c))"
  define A where "A m = ival it (map (cval cd m) a)" for m
  define B where "B m = ival it (map (cval cd m) b)" for m
  have "0 < length c" using c(1) by simp
  then have n: "0 < n" "n \<le> length c" "n = 1 \<Longrightarrow> length c = 1" "length c \<le> length a + n"
    using ab(1) c(2) by (auto simp: n_def min_def split: if_splits)
  have ab0: "2 \<le> length a" "a \<noteq> []" "b \<noteq> []" using ab(1,2) by auto
  have bB: "bit (ival it (map (cval cd m) b)) i = cval cd m (b ! min i (length b - 1))" if "i < n" for m i
  proof -
    have "min i (length b - 1) < length b" using ab(1) by linarith
    then show ?thesis using that ab0(3) by (auto simp: bit_ival n_def split: if_splits)
  qed
  obtain rows c1 where c1: "res_fold (mult_row n a b c) [0..<n] ([], cd) = Inr (rows, c1)" "rows_done a b c cd n (rows, c1)"
    using mult_rows_ok [OF ok(1) ab0(1,3) ab(3) c(4,5) n(3,2)] by blast
  have fin: "bit (psum (A m) (B m) n) j = bit (A m * B m) j" if "j < length c" for m j
  proof (cases "n = length c")
    case True
    with that show ?thesis by (simp add: psum_final)
  next
    case False
    then have "it = Unsigned" "n = length b" using n(2) by (auto simp: n_def min_def split: if_splits intro: IntType.exhaust)
    then have "take_bit n (B m) = B m" using ival_bounds(2,3) [where bs = "map (cval cd m) b" and it = it]
      by (simp add: B_def take_bit_int_eq_self)
    then show ?thesis by (simp add: psum_def)
  qed
  show ?thesis
  proof (cases "n = 1")
    case True
    note D = rows_doneD [OF c1(2)]
    have r: "length (rows ! 0) = 1" using True n(3) D(3) [of 0] ab0(1) by simp
    then have r0: "rows ! 0 ! 0 = c ! 0" "assigned c1 (c ! 0)" using D(4) [of 0 0] D(5) True by force+
    have v: "cval c1 m (c ! 0) = bit (A m * B m) 0" for m
    proof -
      have "cval c1 m (c ! 0) = bit (ival it (map (cval c1 m) (rows ! 0))) 0"
        using r r0(1) bit_ival_lt [of 0 "map (cval c1 m) (rows ! 0)" it] by simp
      also have "\<dots> = bit (psum (A m) (B m) n) 0"
        using rows_done_bit [OF c1(2) ab0(2) _ _ bB, where i = 0 and j = 0 and m = m] True n(3) by (simp add: psum_1 A_def B_def)
      finally show ?thesis using fin [of 0 m] n(3) True by simp
    qed
    have comp: "computes cd c1 c (\<lambda>v. bit (ival it (map v a) * ival it (map v b))) {} (length a)"
    proof -
      have "w \<noteq> c ! 0" if "w \<notin> set c" for w using that c(1) by auto
      then show ?thesis using c1(2) v r0(2) n(3) True by (simp add: computes_def rows_done_def A_def B_def)
    qed
    have "mult_build_ge op it a b c cd = Inr c1" using c1(1) True by (simp add: mult_build_ge_def n_def [symmetric])
    then show ?thesis using computes_mono [OF comp subset_refl, of "length c * (4 * length a + 5) + 3 * length a + 4"] by auto
  next
    case False
    then have n1: "1 < n" using n(1) by simp
    note D = rows_doneD [OF c1(2)]
    have ok1: "circuit_ok c1" using D(2) by auto
    obtain T c2 where c2: "addTempWireBundle (BetaBundle (if op = Opt_Size then 4 else length a * 2)) c1 = (T, c2)" by fastforce
    note k2 = addTempWireBundle_ok [OF ok1 c2, simplified BetaBundle_def length_replicate]
    have ok2: "circuit_ok c2" using k2(1) by auto
    obtain t2 c3 where c3: "addTempWireBundle (BetaBundle (length (rows ! 1))) c2 = (t2, c3)" by fastforce
    note k3 = addTempWireBundle_ok [OF ok2 c3, simplified BetaBundle_def length_replicate]
    have same: "cval c3 m = cval c1 m" "assigned c3 w \<longleftrightarrow> assigned c1 w" for m w using k2(4,5) k3(4,5) by simp_all
    have T: "4 \<le> length T" "distinct T" "w \<in> set T \<Longrightarrow> mWireCount c1 \<le> w \<and> w < mWireCount c2" for w
      using k2(2,3) ab0(1) by auto
    have cnt: "mWireCount cd \<le> mWireCount c1" "mWireCount c1 \<le> mWireCount c2" "mWireCount c2 \<le> mWireCount c3"
      "mWireCount c3 + n * (3 * length a + 5) \<le> mWireCount cd + (length c * (4 * length a + 5) + 3 * length a + 4)"
    proof -
      have "length (rows ! 1) \<le> length a" using D(3) [OF n1] by simp
      moreover have "length T \<le> 4 + 2 * length a" using k2(3) by simp
      moreover have "mWireCount c1 \<le> mWireCount cd + n * length a" using c1(2) by (simp add: rows_done_def)
      moreover have "n * (4 * length a + 5) \<le> length c * (4 * length a + 5)" using n(2) by (rule mult_le_mono1)
      ultimately show "mWireCount c3 + n * (3 * length a + 5) \<le> mWireCount cd + (length c * (4 * length a + 5) + 3 * length a + 4)"
        using k2(2,3) k3(2) by (simp add: algebra_simps)
    qed (use D(2) k2(1) k3(1) in \<open>simp_all add: extends_def\<close>)
    have start: "sum_inv it A B (length a) c T rows c3 1 (rows[0 := tl (rows ! 0)], c3)"
      unfolding A_def B_def by (rule sum_inv_start [OF c1(2) n1 n(2) ab0(1) ok(1) c(4) _ _ same bB]) (use T k3(1) in auto)
    have "\<exists>s'. res_fold (mult_sum op it c T) [1..<n] (rows[0 := tl (rows ! 0)], c3) = Inr s' \<and> sum_inv it A B (length a) c T rows c3 n s'"
    proof (rule res_fold_from [where I = "sum_inv it A B (length a) c T rows c3", OF start])
      fix k s assume k: "1 \<le> k" "k < n" "sum_inv it A B (length a) c T rows c3 k s"
      have row: "w < mWireCount c1 \<and> assigned c1 w \<and> w \<notin> set c" if "w \<in> set (rows ! k)" for w
      proof -
        from that obtain j where "j < length (rows ! k)" "w = rows ! k ! j" unfolding in_set_conv_nth by blast
        then show ?thesis using D(4) [OF k(2), of j] D(6) [OF k(2), of j] k(1) c(4) assigned_lt [OF ok1] by fastforce
      qed
      obtain rs e where s: "s = (rs, e)" by (cases s)
      show "\<exists>s'. mult_sum op it c T k s = Inr s' \<and> sum_inv it A B (length a) c T rows c3 (Suc k) s'"
        unfolding s
      proof (rule mult_sum_ok [where i = k])
        show "sum_inv it A B (length a) c T rows c3 k (rs, e)" using k(3) s by simp
        show "\<forall>w\<in>set c. w < mWireCount c3" using c(4) cnt by fastforce
        show "distinct (take 4 T)" using T(2) by simp
        show "\<forall>w\<in>set (take 4 T). w < mWireCount c3" using T(3) cnt(3) by (fastforce dest: in_set_takeD)
        show "set (take 4 T) \<inter> set c = {}" using T(3) c(4) cnt(1) by (fastforce dest: in_set_takeD)
        show "\<forall>w\<in>set (rows ! k). assigned c3 w \<and> w \<notin> set (take 4 T) \<union> set c"
          using row same(2) T(3) by (fastforce dest: in_set_takeD)
        show "bit (ival it (map (cval c3 m) (rows ! k))) j = bit (if bit (B m) k then A m else 0) j" if "j < length c - k" for m j
          unfolding same(1) A_def B_def by (rule rows_done_bit [OF c1(2) ab0(2) k(2) that bB [OF k(2)]])
        have "Suc k * (3 * length a + 5) \<le> n * (3 * length a + 5)" using k(2) by (intro mult_le_mono1) simp
        then show "mWireCount c3 + Suc k * (3 * length a + 5) \<le> no_wire" using cnt(4) ok(2) by linarith
      qed (use k D(1) D(3) [OF k(2)] n(2,4) ab0(1) c(3) k3(1) T(1) in auto)
    qed (use n1 in simp)
    then obtain rs c4 where c4: "res_fold (mult_sum op it c T) [1..<n] (rows[0 := tl (rows ! 0)], c3) = Inr (rs, c4)"
      "sum_inv it A B (length a) c T rows c3 n (rs, c4)" by auto
    have "mult_build_ge op it a b c cd = Inr c4"
      using c1(1) n1 c2 c3 c4(1) by (simp add: mult_build_ge_def n_def [symmetric] Let_def)
    moreover have "computes cd c4 c (\<lambda>v. bit (ival it (map v a) * ival it (map v b))) {} (length c * (4 * length a + 5) + 3 * length a + 4)"
    proof -
      have o: "assigned c4 (c ! j) \<and> (\<forall>m. cval c4 m (c ! j) = bit (A m * B m) j)" if j: "j < length c" for j
      proof (cases "j < n")
        case True
        with c4(2) fin [OF j] show ?thesis by (simp add: sum_inv_def)
      next
        case False
        then obtain k where k: "j = n + k" using le_Suc_ex [of n j] by auto
        have r: "rs ! (n - 1) = drop n c" "k < length c - n" using c4(2) D(1) j k by (simp_all add: sum_inv_def Let_def)
        have "c ! j \<in> set (drop n c)" using j k by (auto simp: in_set_conv_nth intro!: exI [of _ k])
        then have "assigned c4 (c ! j)" using c4(2) r(1) by (simp add: sum_inv_def Let_def)
        moreover have "cval c4 m (c ! j) = bit (A m * B m) j" for m
        proof -
          have "cval c4 m (c ! j) = bit (ival it (map (cval c4 m) (drop n c))) k" using r(2) j k by (simp add: bit_ival_lt)
          also have "\<dots> = bit (psum (A m) (B m) n) (n + k)" using c4(2) r by (simp add: sum_inv_def Let_def)
          finally show ?thesis using fin [OF j] k by simp
        qed
        ultimately show ?thesis by simp
      qed
      have e: "extends c3 c4" "mWireCount c4 \<le> mWireCount c3 + n * (3 * length a + 5)" "\<And>w. assigned c3 w \<Longrightarrow> assigned c4 w"
        "\<And>m w. w < mWireCount c3 \<Longrightarrow> w \<notin> set c \<Longrightarrow> w \<notin> set (take 4 T) \<Longrightarrow> cval c4 m w = cval c3 m w"
        using c4(2) by (simp_all add: sum_inv_def)
      have "extends cd c4" by (rule extends_trans [OF D(2) extends_trans [OF k2(1) extends_trans [OF k3(1) e(1)]]])
      moreover have "mWireCount c4 \<le> mWireCount cd + (length c * (4 * length a + 5) + 3 * length a + 4)" using e(2) cnt(4) by linarith
      moreover have "assigned c4 w" if "assigned cd w" for w using that c1(2) same(2) e(3) by (simp add: rows_done_def)
      moreover have "cval c4 m w = cval cd m w" if "w \<notin> set c" "w < mWireCount cd" for w m
      proof -
        have "w \<notin> set (take 4 T)" using T(3) that(2) cnt(1) by (fastforce dest: in_set_takeD)
        moreover have "w \<noteq> c ! 0" using that(1) c(1) by auto
        ultimately show ?thesis using e(4) [of w m] same(1) c1(2) that cnt by (simp add: rows_done_def)
      qed
      ultimately show ?thesis using o by (simp add: computes_def A_def B_def)
    qed
    ultimately show ?thesis by blast
  qed
qed

lemma mult_build_ok:
  assumes "circuit_ok cd" "s = max (length a) (length b)" "mWireCount cd + length c * (4 * s + 5) + 3 * s + 4 \<le> no_wire"
    "2 \<le> length a" "2 \<le> length b" "\<forall>w\<in>set a \<union> set b. assigned cd w"
    "c \<noteq> []" "length c \<le> length a + length b" "distinct c" "\<forall>w\<in>set c. w < mWireCount cd" "set c \<inter> (set a \<union> set b) = {}"
  shows "\<exists>cd'. mult_build op it a b c cd = Inr cd'
    \<and> computes cd cd' c (\<lambda>v. bit (ival it (map v a) * ival it (map v b))) {} (length c * (4 * s + 5) + 3 * s + 4)"
proof (cases "length b \<le> length a")
  case True
  then show ?thesis using mult_build_ge_ok [of cd c a b it] assms by (simp add: mult_build_def)
next
  case False
  then have "s = length b" using assms(2) by simp
  then show ?thesis using False mult_build_ge_ok [of cd c b a it] assms by (simp add: mult_build_def Un_commute mult.commute add.commute)
qed

lemma mult_runs:
  assumes "2 \<le> aSize" "2 \<le> bSize" "0 < cSize" "cSize \<le> aSize + bSize" "s = max aSize bSize"
    "aSize + bSize + cSize * (4 * s + 6) + 3 * s + 4 \<le> no_wire"
  shows "runs (new_circuit [aSize, bSize] cSize 0 (\<lambda>ins c t. mult_build op it (ins ! 0) (ins ! 1) c)) [aSize, bSize] cSize
    (\<lambda>ins. bit (ival it (ins ! 0) * ival it (ins ! 1)))"
proof (rule new_circuit_ok)
  fix c t cd assume st: "started [aSize, bSize] cSize 0 c t cd"
  let ?b = "bundles 0 [aSize, bSize]"
  note o = started_operand [OF st, of 0 it] started_operand [OF st, of 1 it] and tg = started_writable [OF st] and d = started_distinct [OF st]
  have "\<exists>cd'. mult_build op it (?b ! 0) (?b ! 1) c cd = Inr cd'
    \<and> computes cd cd' c (\<lambda>v. bit (ival it (map v (?b ! 0)) * ival it (map v (?b ! 1)))) {} (length c * (4 * s + 5) + 3 * s + 4)"
  proof (rule mult_build_ok)
    show "mWireCount cd + length c * (4 * s + 5) + 3 * s + 4 \<le> no_wire" using st tg assms(6) by (simp add: started_def algebra_simps)
    show "c \<noteq> []" using tg assms(3) by auto
    show "set c \<inter> (set (?b ! 0) \<union> set (?b ! 1)) = {}" using o(2,5) tg by fastforce
    show "\<forall>w\<in>set (?b ! 0) \<union> set (?b ! 1). assigned cd w" using o assms(1,2) by (auto simp: operand_def)
  qed (use o assms(1,2,4,5) tg d in auto)
  then show "\<exists>cd' T k. mult_build op it (?b ! 0) (?b ! 1) c cd = Inr cd'
    \<and> computes cd cd' c (\<lambda>v. bit (ival it (map (map v) ?b ! 0) * ival it (map (map v) ?b ! 1))) T k"
    by auto
qed (use assms(6) in \<open>simp add: algebra_simps\<close>)

end

end
