(* ===== verification/Spec2Isabelle.thy ===== *)
theory Spec2Isabelle
  imports Locoram OtManager Program Prototype Preproc Legacy SimplestOt DistDpfOpen CircuitMult
begin

text \<open>
  A verification of the three-party computation prototype under \<^verbatim>\<open>src/mpc\<close>, with the library code under it. Two parties P0 and P1 hold shares of values
  and compute on them with correlated randomness from a dealer P2. The program has these parts:

  \<^item> a \<^emph>\<open>distributed point function\<close> (DPF): the dealer generates a pair of short keys whose evaluations xor to a
    programmed value at one secret index and to zero elsewhere (\<^verbatim>\<open>dpf.hpp\<close>, over \<^verbatim>\<open>aes.h\<close>, \<^verbatim>\<open>prg.h\<close>, \<^verbatim>\<open>types.hpp\<close>);
  \<^item> \<^emph>\<open>shares\<close> with their local operators, and \<^emph>\<open>protocols\<close> on them written as coroutines (\<^verbatim>\<open>shares.hpp\<close>, \<^verbatim>\<open>mpcops.hpp\<close>)
    over typed messages on sockets (\<^verbatim>\<open>network.hpp\<close>), with randomness drawn online or recorded on tapes and replayed;
  \<^item> a \<^emph>\<open>shared memory\<close> that the dealer's DPF keys read and update (\<^verbatim>\<open>locoram.hpp\<close>, \<^verbatim>\<open>locoram.tpp\<close>), with key transport
    (\<^verbatim>\<open>dpfio.hpp\<close>);
  \<^item> an \<^emph>\<open>oblivious transfer manager\<close> with a worker thread (\<^verbatim>\<open>ot_manager.hpp\<close>), over the random transfer of the libraries
    under \<^verbatim>\<open>src/libOTe\<close> (\<^verbatim>\<open>SimplestOT\<close>) and the parts of them that it runs on: block cipher, generator, bit vector;
  \<^item> the library's \<^emph>\<open>distributed DPF\<close> (\<^verbatim>\<open>libOTe/Dpf/RegularDpf.h\<close>, \<^verbatim>\<open>DpfMult.h\<close>): keys for many points made by a dealer or by two
    parties that hold shares of the points, and full-domain expansion with or without keys;
  \<^item> the library's \<^emph>\<open>boolean circuits\<close> (\<^verbatim>\<open>cryptoTools/Circuit\<close>): gates over wires with constants and inversions folded in while a
    circuit is built, evaluation, and builders for arithmetic, comparison and selection;
  \<^item> the \<^emph>\<open>programs\<close>: \<^verbatim>\<open>main.cpp\<close>, and the single-process prototypes \<^verbatim>\<open>dpf/dpf.cpp\<close> and \<^verbatim>\<open>dpf/preproc.cpp\<close> over \<^verbatim>\<open>dpf/dpf.h\<close>;
  \<^item> the \<^emph>\<open>earlier versions\<close> \<^verbatim>\<open>shares_old.hpp\<close> and \<^verbatim>\<open>mpcops_old.hpp\<close>.

  \<^bold>\<open>Theories.\<close> Definitions keep the names of the source where HOL allows it.

  \<^item> \<open>Prelude\<close>: integer widths, error values (\<open>Runtime_error\<close>, \<open>Assertion\<close>, and \<open>Undefined\<close> for undefined behaviour), byte
    images of words, lemmas on lists and words.
  \<^item> \<open>M128\<close>, \<open>VecOps\<close> (\<^verbatim>\<open>types.hpp\<close>, parts of \<^verbatim>\<open>common.hpp\<close>): intrinsics, masks and bit helpers, the arithmetic of \<^verbatim>\<open>mX\<close>;
    leaves and vector operators.
  \<^item> \<open>Aes\<close> (\<^verbatim>\<open>aes.h\<close>) and \<open>Prg\<close> (\<^verbatim>\<open>prg.h\<close>, \<^verbatim>\<open>prg.hpp\<close>). The locale \<open>block_prg\<close> is what the DPF relies on; \<open>PRG\<close> interprets it.
  \<^item> \<open>Dpf\<close>, \<open>DpfCorrect\<close>, \<open>DpfEval\<close> (\<^verbatim>\<open>dpf.hpp\<close>): \<^verbatim>\<open>gen\<close>, \<^verbatim>\<open>eval\<close>; the invariant of the layers and correctness; \<^verbatim>\<open>__evalinterval\<close>,
    which expands the tree in place inside the output array, equal to point evaluation. \<open>DpfWide\<close> (\<^verbatim>\<open>dpf/dpf.h\<close>): generation
    with a finalizer callback and leaves of several blocks.
  \<^item> \<open>Coro\<close>: the execution model. A coroutine awaits groups of reads and writes; a schedule is any interleaving of the
    single completed operations of the three parties. The locale \<open>diamond_lts\<close> shows that a system whose steps commute ends
    in one state in every schedule; \<open>every_run\<close> states the result of all runs.
  \<^item> \<open>Network\<close> (\<^verbatim>\<open>network.hpp\<close>), \<open>Shares\<close> (\<^verbatim>\<open>shares.hpp\<close>), \<open>MpcOps\<close> and \<open>MpcCorrect\<close> (\<^verbatim>\<open>mpcops.hpp\<close>): the operations of one party as
    coroutines that thread its state, then the joint correctness of the three parties. The locale \<open>binary_gate\<close> is the
    contract the zero test needs of a gate; conjunction and disjunction interpret it.
  \<^item> \<open>DpfIo\<close> (\<^verbatim>\<open>dpfio.hpp\<close>, the end of \<^verbatim>\<open>dpf.hpp\<close>): serialization over the locale \<open>raw_object\<close>, and transport.
  \<^item> \<open>Locoram\<close>: the record of the six vectors, every operation, the inductive set of reachable memories, and the refinement
    of a list of words under updates. \<open>OtManager\<close>: the transfer as a composition of messages, the queue as a state machine.
  \<^item> \<open>OcAes\<close> (\<^verbatim>\<open>AES.h\<close>, \<^verbatim>\<open>AES.cpp\<close>), \<open>Prng\<close> (\<^verbatim>\<open>PRNG.h\<close>, \<^verbatim>\<open>PRNG.cpp\<close>), \<open>BitVec\<close> (\<^verbatim>\<open>BitVector.h\<close>, \<^verbatim>\<open>BitVector.cpp\<close>, \<^verbatim>\<open>BitIterator.h\<close>) and
    \<open>SimplestOt\<close> (\<^verbatim>\<open>SimplestOT.cpp\<close>, \<^verbatim>\<open>SodiumCurve.cpp\<close>, the two tasks of \<^verbatim>\<open>ot_manager.hpp\<close>): the cipher in three instances, the
    buffered generator, the packed bit vector, and both parties of the transfer as coroutines. The locale \<open>byte_source\<close> is
    what a reader needs of a generator, \<open>bit_array\<close> what a loop over single bits needs of a vector.
  \<^item> \<open>DpfMultiplier\<close> (\<^verbatim>\<open>DpfMult.h\<close>): products of shared bits and blocks from two transfers each. \<open>DistDpf\<close> (\<^verbatim>\<open>RegularDpf.h\<close>): keys,
    their bytes, both generations of keys and both expansions. \<open>DistDpfTree\<close>: one level of the trees of two parties, which agree off the path.
    \<open>DistDpfKeys\<close>: the dealer's path and the invariant that ties it to the trees. \<open>DistDpfRun\<close>: one level of the protocol; \<open>DistDpfOpen\<close>: all levels,
    and keys and leaves that open to the point function.
  \<^item> \<open>Circuit\<close> (\<^verbatim>\<open>Gate.h\<close>, \<^verbatim>\<open>BetaCircuit.h\<close>, \<^verbatim>\<open>BetaCircuit.cpp\<close>): gates, circuits, evaluation, levels. \<open>CircuitSem\<close>: the value of a wire, what each
    construction step assigns, and that \<^verbatim>\<open>evaluate\<close> returns those values. \<open>CircuitLib\<close> (\<^verbatim>\<open>BetaLibrary.cpp\<close>): the builders and the circuits of
    the library. \<open>CircuitAdd\<close>, \<open>CircuitArith\<close>, \<open>CircuitTop\<close>, \<open>CircuitEq\<close>: correctness of the builders and of the finished circuits. The
    locale \<open>adder\<close> is the contract that comparison, negation and signs need of an adder; the ripple adder interprets it, and
    so does the parallel prefix adder (\<open>CircuitGraph\<close>: the marked Sklansky network; \<open>CircuitPrefix\<close>: the rounds over it). \<open>CircuitMult\<close>: multiplication,
    for every adder.
  \<^item> \<open>Program\<close> (\<^verbatim>\<open>main.cpp\<close>), \<open>Prototype\<close> (\<^verbatim>\<open>dpf/dpf.cpp\<close>), \<open>Preproc\<close> (\<^verbatim>\<open>dpf/preproc.cpp\<close>, \<^verbatim>\<open>dpf/shares.h\<close>, with
    the locale \<open>file_format\<close> that its two kinds of files interpret), \<open>Legacy\<close> (\<^verbatim>\<open>shares_old.hpp\<close>, \<^verbatim>\<open>mpcops_old.hpp\<close>).

  \<^bold>\<open>What is shown.\<close> The DPF keys open exactly the point function, by point and by interval evaluation, within the arrays.
  Multiplication, dot product, conjunction, disjunction and the zero test give shares of the right result in every
  interleaving, without deadlock and with no message left over, online and from recorded tapes; sharing, reconstruction,
  key transport and file formats are inverses; the programs print the values they should. Decryption inverts encryption.
  The transfer manager runs its tasks in order, and its two tasks deliver the chosen messages over
  the whole protocol beneath them. The cipher's instances agree, the generator is one stream, the bit vector a list of bits. The distributed DPF opens
  to the point function however its keys were made. The circuits of the
  library compute the functions they are named after (equality only on some of the bits), and levels that keep the order do not change that. The memory refines a plain list of
  words. Error properties give the inputs on which the code throws, reads uninitialised data, runs past a buffer or never
  returns.

  \<^bold>\<open>Assumptions and bounds.\<close> A socket delivers bytes in order, and operations outstanding on one direction of a socket
  take effect in the order in which they were started, each as a whole; for the dot product, which has two vectors outstanding at
  once, this is assumed up to \<open>one_segment\<close> bytes, the payload of a TCP segment. There is one connection per pair of parties. Values of
  \<^verbatim>\<open>arc4random_buf\<close> and of uninitialised memory are arguments, so every property holds for all of them. Sizes that the code
  computes through \<^verbatim>\<open>double\<close> are exact here, as they are in the code below \<open>2 ^ 47\<close> entries and for powers of two. The
  tree of disjunctions of the zero test has 64 leaves, so the fuel of 6 rounds of \<open>tree_loop\<close> reaches its root. \<^verbatim>\<open>connect_with_retry\<close>
  and \<^verbatim>\<open>await_future\<close> may run forever and return \<open>None\<close> then. In \<open>OtManager\<close> the random transfer is a
  parameter with the hypothesis \<open>rot_correct\<close>; in \<open>SimplestOt\<close> it is the code, and the parameters are the functions of libsodium
  and the hash, with the hypothesis \<open>sodium_ok\<close> (a group of prime order, as documented) and scalars that are not degenerate.
  Wires of circuits are natural numbers, and the properties bound their number by \<^verbatim>\<open>(u32)-1\<close>, where the counter of the code would wrap.
  Messages of the transfer and of the distributed DPF are reads of their exact size; the build is the one with libsodium. Secrecy is not stated: the properties are about results, not about what a party learns.

  \<^bold>\<open>Not modelled.\<close> Printing and timing; accepting and resolving connections, which are library calls; the rest of
  \<^verbatim>\<open>libOTe\<close> and \<^verbatim>\<open>cryptoTools\<close>, third-party code in the tree that the program does not call; reordering
  of circuits by depth, their JSON, binary and Bristol formats and the AES circuit; the tests and benchmarks. \<^verbatim>\<open>doram.hpp\<close> and \<^verbatim>\<open>doram.tpp\<close>, an earlier state of the
  memory: the header shares the include guard of \<^verbatim>\<open>locoram.hpp\<close> and includes \<^verbatim>\<open>locoram.tpp\<close>, and nothing includes \<^verbatim>\<open>doram.tpp\<close>.
  The copies \<^verbatim>\<open>dpf/dpf.hpp\<close>, \<^verbatim>\<open>dpf/dpf-copy.cpp\<close>, \<^verbatim>\<open>dpf/aes.h\<close>, \<^verbatim>\<open>dpf/prg.h\<close> and the parts of \<^verbatim>\<open>common.hpp\<close> that \<^verbatim>\<open>types.hpp\<close> and
  \<^verbatim>\<open>network.hpp\<close> replace. Templates that no type can instantiate: \<^verbatim>\<open>recv_dpf_key\<close> of \<^verbatim>\<open>common.hpp\<close>, \<^verbatim>\<open>operator>>\<close> of \<^verbatim>\<open>dpfio.hpp\<close>,
  the serialization in \<^verbatim>\<open>mpcops_old.hpp\<close>.
\<close>

section \<open>Distributed point functions\<close>

text \<open>
  C1: \<^verbatim>\<open>dpf_key::gen\<close> on a target inside the domain returns a pair of keys, and the
  two keys' \<^verbatim>\<open>eval\<close> at any index of the domain xor to the programmed value at the target and to zero
  everywhere else, for the AES generator and every leaf type whose packing is defined.
\<close>

theorem dpf_point_function:
  assumes "target < n" "elements_per_vector lt \<noteq> 0" "leaf_type val = lt" "i < n"
  shows "\<exists>k0 k1 v0 v1. gen PRG lt key n target val r0 r1 = Inr (k0, k1)
    \<and> eval PRG lt k0 i = Inr v0 \<and> eval PRG lt k1 i = Inr v1
    \<and> leaf_xor v0 v1 = (if i = target then val else set_zero val)"
proof -
  obtain k0 k1 where g: "gen PRG lt key n target val r0 r1 = Inr (k0, k1)"
    using aes_prg.gen_total [OF assms(1,2)] by metis
  with aes_prg.gen_shape [OF g] aes_prg.dpf_correct [OF g assms(3,4)] show ?thesis by (simp add: eval_def)
qed

theorem dpf_point_function_witness:
  "\<exists>k0 k1 v0 v1. gen PRG T_u64 default_aes_key 11 5 (L64 7) 12345 999 = Inr (k0, k1)
    \<and> eval PRG T_u64 k0 5 = Inr v0 \<and> eval PRG T_u64 k1 5 = Inr v1 \<and> leaf_xor v0 v1 = L64 7"
  using dpf_point_function [of 5 11 T_u64 "L64 7" 5 default_aes_key 12345 999]
  by (simp add: elements_per_vector_def)

text \<open>
  C2: \<^verbatim>\<open>__evalinterval\<close> over the whole domain, with arrays of at least as many nodes
  as the tree has, stays inside its arrays although it expands every layer in place, leaves in the output
  at each index exactly what \<^verbatim>\<open>eval\<close> returns there, leaves the tree's flags in the flag array, and does not
  touch the entries behind the nodes. The key has a correction word for every layer, as the keys of \<^verbatim>\<open>gen\<close> have; with
  fewer both functions read behind the vector of words.
\<close>

theorem evalinterval_pointwise:
  assumes "elements_per_vector lt \<noteq> 0" "0 < dk_nitems key"
    and "n = ceil_div (dk_nitems key) (leaves_per_node lt)" "n \<le> length out" "n \<le> length t"
    and "dpf_depth lt (dk_nitems key) \<le> length (dk_cw key)"
  shows "\<exists>out' t'. evalinterval PRG lt key 0 (dk_nitems key - 1) (out, t) = Inr (out', t')
    \<and> length out' = length out \<and> length t' = length t
    \<and> (\<forall>x<dk_nitems key. Inr (leaf_of_nodes lt [out' ! (x div leaves_per_node lt)] x) = eval PRG lt key x
          \<and> t' ! (x div leaves_per_node lt) = snd (eval_nodes PRG lt key x))
    \<and> (\<forall>i\<ge>n. out' ! i = out ! i \<and> t' ! i = t ! i)"
  using aes_prg.evalinterval_leaves [OF assms(1-3), of "(out, t)"] assms(4-) by (simp add: fits_def eval_def)

theorem evalinterval_pointwise_witness:
  "let key = \<lparr>dk_nitems = 4, dk_root = 5, dk_cw = [9], dk_finalizer = [3], dk_prgkey = default_aes_key\<rparr>
   in \<exists>out' t'. evalinterval PRG T_u64 key 0 3 ([0, 0], [0, 0]) = Inr (out', t')
     \<and> Inr (leaf_of_nodes T_u64 [out' ! 1] 3) = eval PRG T_u64 key 3"
proof -
  define key where "key = \<lparr>dk_nitems = 4, dk_root = 5, dk_cw = [9], dk_finalizer = [3], dk_prgkey = default_aes_key\<rparr>"
  have n: "dk_nitems key = 4" "length (dk_cw key) = 1" by (simp_all add: key_def)
  have d: "dpf_depth T_u64 4 = 1"
    by (simp add: dpf_depth_def ceil_div_def ceillog2_def leaves_per_node_def is_packed_def)
  have "\<exists>out' t'. evalinterval PRG T_u64 key 0 (dk_nitems key - 1) ([0, 0], [0, 0]) = Inr (out', t')
    \<and> length out' = length [0, 0 :: m128] \<and> length t' = length [0, 0 :: u8]
    \<and> (\<forall>x<dk_nitems key. Inr (leaf_of_nodes T_u64 [out' ! (x div leaves_per_node T_u64)] x) = eval PRG T_u64 key x
          \<and> t' ! (x div leaves_per_node T_u64) = snd (eval_nodes PRG T_u64 key x))
    \<and> (\<forall>i\<ge>2. out' ! i = [0, 0] ! i \<and> t' ! i = [0, 0] ! i)"
    by (rule evalinterval_pointwise)
      (simp_all add: n d elements_per_vector_def leaves_per_node_def is_packed_def ceil_div_def)
  then show ?thesis
    unfolding key_def [symmetric] Let_def
    by (auto simp: n leaves_per_node_def is_packed_def dest!: spec [of _ 3])
qed

text \<open>
  C3: the two parties' full-domain outputs for the two keys of one call of \<^verbatim>\<open>gen\<close> xor, leaf
  by leaf, to the point function.
\<close>

theorem dpf_full_domain:
  assumes "gen PRG lt key n target val r0 r1 = Inr (k0, k1)" "leaf_type val = lt"
    and "ceil_div n (leaves_per_node lt) \<le> length out" "ceil_div n (leaves_per_node lt) \<le> length t"
  shows "\<exists>o0 t0 o1 t1. evalinterval PRG lt k0 0 (n - 1) (out, t) = Inr (o0, t0)
    \<and> evalinterval PRG lt k1 0 (n - 1) (out, t) = Inr (o1, t1)
    \<and> (\<forall>x<n. leaf_xor (leaf_of_nodes lt [o0 ! (x div leaves_per_node lt)] x)
          (leaf_of_nodes lt [o1 ! (x div leaves_per_node lt)] x) = (if x = target then val else set_zero val))"
proof -
  have ok: "elements_per_vector lt \<noteq> 0" and n: "0 < n" "dk_nitems k0 = n" "dk_nitems k1 = n"
    and cw: "dpf_depth lt n \<le> length (dk_cw k0)" "dpf_depth lt n \<le> length (dk_cw k1)"
    using aes_prg.gen_shape [OF assms(1)] by simp_all
  have f: "fits (ceil_div n (leaves_per_node lt)) (out, t)" using assms(3,4) by (simp add: fits_def)
  from aes_prg.evalinterval_leaves [OF ok, of k0 "ceil_div n (leaves_per_node lt)" "(out, t)"]
    aes_prg.evalinterval_leaves [OF ok, of k1 "ceil_div n (leaves_per_node lt)" "(out, t)"]
    aes_prg.dpf_correct [OF assms(1,2)] n f cw
  show ?thesis by fastforce
qed

theorem dpf_full_domain_witness:
  "\<exists>k0 k1 o0 t0 o1 t1. gen PRG T_u64 default_aes_key 4 2 (L64 100) 17 23 = Inr (k0, k1)
    \<and> evalinterval PRG T_u64 k0 0 3 ([0, 0], [0, 0]) = Inr (o0, t0)
    \<and> evalinterval PRG T_u64 k1 0 3 ([0, 0], [0, 0]) = Inr (o1, t1)
    \<and> leaf_xor (leaf_of_nodes T_u64 [o0 ! 1] 2) (leaf_of_nodes T_u64 [o1 ! 1] 2) = L64 100"
proof -
  have c: "ceil_div 4 (leaves_per_node T_u64) = 2" "2 div leaves_per_node T_u64 = 1"
    by (simp_all add: ceil_div_def leaves_per_node_def is_packed_def)
  obtain k0 k1 where g: "gen PRG T_u64 default_aes_key 4 2 (L64 100) 17 23 = Inr (k0, k1)"
    using aes_prg.gen_total [of 2 4 T_u64 default_aes_key "L64 100" 17 23] by (auto simp: elements_per_vector_def)
  from dpf_full_domain [OF g, of "[0, 0]" "[0, 0]"] c obtain o0 t0 o1 t1 where
    "evalinterval PRG T_u64 k0 0 3 ([0, 0], [0, 0]) = Inr (o0, t0)"
    "evalinterval PRG T_u64 k1 0 3 ([0, 0], [0, 0]) = Inr (o1, t1)"
    and x: "\<forall>x<4. leaf_xor (leaf_of_nodes T_u64 [o0 ! (x div leaves_per_node T_u64)] x)
       (leaf_of_nodes T_u64 [o1 ! (x div leaves_per_node T_u64)] x) = (if x = 2 then L64 100 else set_zero (L64 100))"
    by auto
  moreover from x have "leaf_xor (leaf_of_nodes T_u64 [o0 ! 1] 2) (leaf_of_nodes T_u64 [o1 ! 1] 2) = L64 100"
    by (auto simp: c dest: spec [of _ 2])
  ultimately show ?thesis using g by blast
qed

text \<open>
  C4: the advice bits of the two keys at an index xor to one exactly when the index lies in the same
  node as the target; for packed leaves this is coarser than the target itself.
\<close>

theorem dpf_flags:
  assumes "gen PRG lt key n target val r0 r1 = Inr (k0, k1)" "i < n"
  shows "snd (eval_nodes PRG lt k0 i) XOR snd (eval_nodes PRG lt k1 i)
    = of_bool (i div leaves_per_node lt = target div leaves_per_node lt)"
  by (rule aes_prg.flags_differ [OF assms])

theorem dpf_flags_witness:
  "\<exists>k0 k1. gen PRG T_u64 default_aes_key 4 2 (L64 100) 17 23 = Inr (k0, k1)
    \<and> snd (eval_nodes PRG T_u64 k0 3) XOR snd (eval_nodes PRG T_u64 k1 3) = 1"
proof -
  obtain k0 k1 where g: "gen PRG T_u64 default_aes_key 4 2 (L64 100) 17 23 = Inr (k0, k1)"
    using aes_prg.gen_total [of 2 4 T_u64 default_aes_key "L64 100" 17 23] by (auto simp: elements_per_vector_def)
  from dpf_flags [OF g, of 3] have "snd (eval_nodes PRG T_u64 k0 3) XOR snd (eval_nodes PRG T_u64 k1 3) = 1"
    by (simp add: leaves_per_node_def is_packed_def)
  with g show ?thesis by blast
qed

text \<open>
  C30: the header \<^verbatim>\<open>dpf/dpf.h\<close> with leaves of one or more blocks. Key generation with the default finalizer
  returns keys whose evaluations xor to the value at the target and to zero elsewhere, and the in-place evaluation of the
  whole domain, whose layers share the end of the output array with the leaves, leaves exactly the point evaluations of
  both keys in the output and the advice bits in the flags.
\<close>

theorem wide_leaves:
  assumes "target < n" "wide lt" "leaf_type val = lt" "n * nodes_per_leaf lt \<le> length out" "n \<le> length t"
  shows "\<exists>k0 k1 out0 t0 out1 t1. gen_cb PRG lt key n target val (default_make_finalizer PRG lt) r0 r1 = Inr (k0, k1)
    \<and> evalinterval PRG lt k0 0 (n - 1) (out, t) = Inr (out0, t0) \<and> evalinterval PRG lt k1 0 (n - 1) (out, t) = Inr (out1, t1)
    \<and> (\<forall>x<n. let leaf = \<lambda>ns. leaf_of_nodes lt (take (nodes_per_leaf lt) (drop (x * nodes_per_leaf lt) ns)) x
        in Inr (leaf out0) = eval PRG lt k0 x \<and> Inr (leaf out1) = eval PRG lt k1 x
          \<and> leaf_xor (leaf out0) (leaf out1) = (if x = target then val else set_zero val)
          \<and> (t0 ! x \<noteq> t1 ! x \<longleftrightarrow> x = target))"
proof -
  obtain k0 k1 where g: "gen_cb PRG lt key n target val (default_make_finalizer PRG lt) r0 r1 = Inr (k0, k1)"
    and nk: "dk_nitems k0 = n" "dk_nitems k1 = n" "length (dk_cw k0) = ceillog2 n" "length (dk_cw k1) = ceillog2 n"
    and x: "\<And>i. i < n \<Longrightarrow> leaf_xor (eval_leaf PRG lt k0 i) (eval_leaf PRG lt k1 i) = (if i = target then val else set_zero val)"
    and f: "\<And>i. i < n \<Longrightarrow> \<exists>q. snd (eval_nodes PRG lt k0 i) = of_bool q \<and> snd (eval_nodes PRG lt k1 i) = of_bool (q \<noteq> (i = target))"
    by (rule aes_prg.gen_cb_pair [OF assms(1-3), of key r0 r1]) blast
  have n: "0 < n" using assms(1) by simp
  obtain out0 t0 where e0: "evalinterval PRG lt k0 0 (n - 1) (out, t) = Inr (out0, t0)"
    "\<And>x. x < n \<Longrightarrow> leaf_of_nodes lt (take (nodes_per_leaf lt) (drop (x * nodes_per_leaf lt) out0)) x = eval_leaf PRG lt k0 x"
    "\<And>x. x < n \<Longrightarrow> t0 ! x = snd (eval_nodes PRG lt k0 x)"
    by (rule aes_prg.evalinterval_wide [OF assms(2) n nk(1) refl assms(4,5)]) (use nk(3) in auto)
  obtain out1 t1 where e1: "evalinterval PRG lt k1 0 (n - 1) (out, t) = Inr (out1, t1)"
    "\<And>x. x < n \<Longrightarrow> leaf_of_nodes lt (take (nodes_per_leaf lt) (drop (x * nodes_per_leaf lt) out1)) x = eval_leaf PRG lt k1 x"
    "\<And>x. x < n \<Longrightarrow> t1 ! x = snd (eval_nodes PRG lt k1 x)"
    by (rule aes_prg.evalinterval_wide [OF assms(2) n nk(2) refl assms(4,5)]) (use nk(4) in auto)
  have "t0 ! x \<noteq> t1 ! x \<longleftrightarrow> x = target" if lt_n: "x < n" for x
  proof -
    from f [OF lt_n] obtain q where "t0 ! x = of_bool q" "t1 ! x = of_bool (q \<noteq> (x = target))"
      unfolding e0(3) [OF lt_n] e1(3) [OF lt_n] by blast
    then show ?thesis by (cases q) simp_all
  qed
  moreover have "eval PRG lt k0 x = Inr (eval_leaf PRG lt k0 x)" "eval PRG lt k1 x = Inr (eval_leaf PRG lt k1 x)" for x
    using nk wide_simps(5) [OF assms(2)] by (simp_all add: eval_def)
  ultimately show ?thesis using g e0(1,2) e1(1,2) x
    by (intro exI [of _ k0] exI [of _ k1] exI [of _ out0] exI [of _ t0] exI [of _ out1] exI [of _ t1]) (simp add: Let_def)
qed

theorem wide_leaves_witness:
  "\<exists>k0 k1 out0 t0 out1 t1. gen_cb PRG (T_arr 2) default_aes_key 3 1 (LArr [7, 8]) (default_make_finalizer PRG (T_arr 2)) 5 6 = Inr (k0, k1)
    \<and> evalinterval PRG (T_arr 2) k0 0 2 (replicate 6 0, replicate 3 0) = Inr (out0, t0)
    \<and> evalinterval PRG (T_arr 2) k1 0 2 (replicate 6 0, replicate 3 0) = Inr (out1, t1) \<and> t0 ! 1 \<noteq> t1 ! 1"
proof -
  have w: "wide (T_arr 2)" "nodes_per_leaf (T_arr 2) = 2"
    by (simp_all add: wide_def nodes_per_leaf_def is_packed_def ceil_div_def)
  show ?thesis
    using wide_leaves [of 1 3 "T_arr 2" "LArr [7, 8]" "replicate 6 0" "replicate 3 0" default_aes_key 5 6] w
    by (fastforce simp: Let_def)
qed

text \<open>
  C5: every outcome of \<^verbatim>\<open>gen\<close>. A target outside the domain throws; a leaf of two or more blocks
  divides by zero; otherwise a pair of keys results.
\<close>

theorem gen_outcomes:
  "(gen PRG lt key n target val r0 r1 = Inl (Runtime_error ''target point out of range'') \<longleftrightarrow> n \<le> target)
   \<and> gen PRG (T_arr (m + 2)) key n target val r0 r1 =
       (if n \<le> target then Inl (Runtime_error ''target point out of range'')
        else Inl (Undefined ''target % elements_per_vector: division by zero''))
   \<and> ((\<exists>ks. gen PRG lt key n target val r0 r1 = Inr ks) \<longleftrightarrow> target < n \<and> elements_per_vector lt \<noteq> 0)"
  by (auto simp: gen_def make_finalizer_def elements_per_vector_def Let_def split_def)


section \<open>Operations on shares\<close>

text \<open>
  A concrete wiring of the three parties in online mode, for the witnesses: fresh contexts over the three
  connections, with a generator that counts.
\<close>

definition party_state :: "role \<Rightarrow> pstate" where
  "party_state r =
     \<lparr>ps_ctx = MPCContext r (three (peer_at P0 P2) (peer_at P1 P2) (peer_at P0 P0) r)
        (three (Some (peer_at P1 P1)) (Some (peer_at P0 P0)) (Some (peer_at P0 P0)) r)
        (three None None (Some (peer_at P1 P1)) r),
      ps_rng = of_nat, ps_pos = 0\<rparr>"

lemma wired_party_state: "wired Online r (party_state r)"
  by (cases r) (simp_all add: wired_def party_state_def MPCContext_def)

lemmas wired_demo = wired_party_state [of P0] wired_party_state [of P1] wired_party_state [of P2]

text \<open>
  C6: the multiplication of additive shares, online. Whatever the generator of the dealer yields and
  however the parties' reads and writes interleave, no party fails or blocks forever, no message is left over, and
  the results of P0 and P1 are additive shares of the product of the shared values modulo \<open>2 ^ 64\<close>.
\<close>

theorem mpc_mul_correct:
  assumes "wired Online P0 s0" "wired Online P1 s1" "wired Online P2 s2"
  shows "\<exists>z0 z1. every_run (three (ashare_times (AShare a0 Ctx) (AShare b0 Ctx) s0)
        (ashare_times (AShare a1 Ctx) (AShare b1 Ctx) s1) (ashare_times (AShare a2 Ctx) (AShare b2 Ctx) s2)) quiet
      (three (Done (AShare z0 Ctx, s0)) (Done (AShare z1 Ctx, s1))
        (Done (AShare 0 Ctx, skip_rng 32 s2))) quiet
    \<and> z0 + z1 = (a0 + a1) * (b0 + b1)"
  by (rule joint_three_every_run_ex [OF ashare_times_online [OF assms, of a0 b0 a1 b1 a2 b2]])

theorem mpc_mul_correct_witness:
  "\<exists>z0 z1. every_run (three (ashare_times (AShare 3 Ctx) (AShare 10 Ctx) (party_state P0))
        (ashare_times (AShare 4 Ctx) (AShare 20 Ctx) (party_state P1))
        (ashare_times (AShare 0 Ctx) (AShare 0 Ctx) (party_state P2))) quiet
      (three (Done (AShare z0 Ctx, party_state P0)) (Done (AShare z1 Ctx, party_state P1))
        (Done (AShare 0 Ctx, skip_rng 32 (party_state P2)))) quiet
    \<and> z0 + z1 = 210"
  using mpc_mul_correct [OF wired_demo, of 3 10 4 20 0 0] by simp

text \<open>
  C7: the conjunction of xor shares, online, at any width of whole bytes: every run ends, leaves no
  message over, and the two results are xor shares of the bitwise conjunction.
\<close>

theorem mpc_and_correct:
  assumes "wired Online P0 s0" "wired Online P1 s1" "wired Online P2 s2" "8 dvd LENGTH('a::len)"
  shows "\<exists>z0 z1. every_run (three (xshare_times (XShare x0 Ctx) (XShare y0 Ctx) s0)
        (xshare_times (XShare x1 Ctx) (XShare y1 Ctx) s1) (xshare_times (XShare x2 Ctx) (XShare (y2 :: 'a word) Ctx) s2)) quiet
      (three (Done (XShare z0 Ctx, s0)) (Done (XShare z1 Ctx, s1))
        (Done (XShare 0 Ctx, skip_rng (4 * (LENGTH('a) div 8)) s2))) quiet
    \<and> z0 XOR z1 = (x0 XOR x1) AND (y0 XOR y1)"
  by (rule joint_three_every_run_ex [OF xshare_times_online [OF assms, of x0 y0 x1 y1 x2 y2]])

theorem mpc_and_correct_witness:
  "\<exists>z0 z1. every_run (three (xshare_times (XShare 12 Ctx) (XShare 6 Ctx) (party_state P0))
        (xshare_times (XShare 0 Ctx) (XShare 0 Ctx) (party_state P1))
        (xshare_times (XShare 0 Ctx) (XShare (0 :: u32) Ctx) (party_state P2))) quiet
      (three (Done (XShare z0 Ctx, party_state P0)) (Done (XShare z1 Ctx, party_state P1))
        (Done (XShare 0 Ctx, skip_rng 16 (party_state P2)))) quiet
    \<and> z0 XOR z1 = 4"
  using mpc_and_correct [OF wired_demo, where 'a = 32, of 12 6 0 0 0 0] by simp

text \<open>
  C8: the disjunction of xor shares, online, at any width of whole bytes.
\<close>

theorem mpc_or_correct:
  assumes "wired Online P0 s0" "wired Online P1 s1" "wired Online P2 s2" "8 dvd LENGTH('a::len)"
  shows "\<exists>z0 z1. every_run (three (xshare_or (XShare x0 Ctx) (XShare y0 Ctx) s0)
        (xshare_or (XShare x1 Ctx) (XShare y1 Ctx) s1) (xshare_or (XShare x2 Ctx) (XShare (y2 :: 'a word) Ctx) s2)) quiet
      (three (Done (XShare z0 Ctx, s0)) (Done (XShare z1 Ctx, s1))
        (Done (XShare (x2 XOR y2) Ctx, skip_rng (4 * (LENGTH('a) div 8)) s2))) quiet
    \<and> z0 XOR z1 = (x0 XOR x1) OR (y0 XOR y1)"
  by (rule joint_three_every_run_ex [OF xshare_or_online [OF assms, of x0 y0 x1 y1 x2 y2]])

theorem mpc_or_correct_witness:
  "\<exists>z0 z1. every_run (three (xshare_or (XShare 12 Ctx) (XShare 6 Ctx) (party_state P0))
        (xshare_or (XShare 0 Ctx) (XShare 0 Ctx) (party_state P1))
        (xshare_or (XShare 0 Ctx) (XShare (0 :: u8) Ctx) (party_state P2))) quiet
      (three (Done (XShare z0 Ctx, party_state P0)) (Done (XShare z1 Ctx, party_state P1))
        (Done (XShare 0 Ctx, skip_rng 4 (party_state P2)))) quiet
    \<and> z0 XOR z1 = 14"
  using mpc_or_correct [OF wired_demo, where 'a = 8, of 12 6 0 0 0 0] by simp

text \<open>
  C9: \<^verbatim>\<open>operator==(x, 0)\<close> on additive shares, with its 63 conjunctions in six rounds. Every run ends and
  the results are xor shares of 0 when the shared value is zero and of 1 when it is not, and the parties are
  ready for the next operation.
\<close>

theorem mpc_eqz_correct:
  assumes "wired Online P0 s0" "wired Online P1 s1" "wired Online P2 s2"
  shows "\<exists>z0 z1 t0 t1 t2. every_run (three (ashare_eq_zero (AShare x0 Ctx) 0 s0) (ashare_eq_zero (AShare x1 Ctx) 0 s1)
        (ashare_eq_zero (AShare x2 Ctx) 0 s2)) quiet
      (three (Done (XShare z0 Ctx, t0)) (Done (XShare z1 Ctx, t1))
        (Done (XShare 0 Ctx, t2))) quiet
    \<and> z0 XOR z1 = (if x0 + x1 = 0 then 0 else 1)
    \<and> wired Online P0 t0 \<and> wired Online P1 t1 \<and> wired Online P2 t2"
proof -
  obtain z0 z1 t0 t1 t2 where "joint (three (ashare_eq_zero (AShare x0 Ctx) 0 s0) (ashare_eq_zero (AShare x1 Ctx) 0 s1)
        (ashare_eq_zero (AShare x2 Ctx) 0 s2)) quiet (three (XShare z0 Ctx, t0) (XShare z1 Ctx, t1) (XShare 0 Ctx, t2)) quiet"
    "z0 XOR z1 = of_bool (x0 + x1 \<noteq> 0)" "wired Online P0 t0" "wired Online P1 t1" "wired Online P2 t2"
    using mpc_eqz_online [OF assms, of "AShare x0 Ctx" "AShare x1 Ctx" "AShare x2 Ctx"] by auto
  moreover have "of_bool (x0 + x1 \<noteq> 0) = (if x0 + x1 = 0 then 0 else 1 :: u64)" by simp
  ultimately show ?thesis by (metis joint_three_every_run)
qed

theorem mpc_eqz_correct_witness:
  "\<exists>z0 z1 t0 t1 t2. every_run (three (ashare_eq_zero (AShare 5 Ctx) 0 (party_state P0))
        (ashare_eq_zero (AShare (- 5) Ctx) 0 (party_state P1)) (ashare_eq_zero (AShare 0 Ctx) 0 (party_state P2))) quiet
      (three (Done (XShare z0 Ctx, t0)) (Done (XShare z1 Ctx, t1))
        (Done (XShare 0 Ctx, t2))) quiet
    \<and> z0 XOR z1 = 0"
  using mpc_eqz_correct [OF wired_demo, of 5 "- 5" 0] by (simp only: add.right_inverse simp_thms if_True) blast

text \<open>
  C10: the dot product of vectors of additive shares, with masks expanded from four seeds: for
  vectors of one length that fit into a segment each, every run ends and the two results are additive shares of the dot
  product of the shared vectors. A party has the writes of two vectors and the reads of two outstanding on one socket; larger
  vectors would be moved in parts, which the socket may take in turns.
\<close>

theorem mpc_dotproduct_correct:
  assumes "wired Online P0 s0" "wired Online P1 s1" "wired Online P2 s2" "sizeof TYPE(u64) * n \<le> one_segment"
    and "length x0 = n" "length x1 = n" "length x2 = n" "length y0 = n" "length y1 = n" "length y2 = n"
  shows "\<exists>z0 z1. every_run (three (avec_times \<lparr>av_vals = x0, av_ctx = Ctx\<rparr> \<lparr>av_vals = y0, av_ctx = Ctx\<rparr> s0)
        (avec_times \<lparr>av_vals = x1, av_ctx = Ctx\<rparr> \<lparr>av_vals = y1, av_ctx = Ctx\<rparr> s1)
        (avec_times \<lparr>av_vals = x2, av_ctx = Ctx\<rparr> \<lparr>av_vals = y2, av_ctx = Ctx\<rparr> s2)) quiet
      (three (Done (z0, s0)) (Done (z1, s1))
        (Done (0, skip_rng 64 s2))) quiet
    \<and> Inr (z0 + z1) = vec_dot (map2 (+) x0 x1) (map2 (+) y0 y1)"
proof -
  have small: "n < 2 ^ 64" using assms(4) by (simp add: sizeof_def one_segment_def)
  have "Inr z = vec_dot (map2 (+) x0 x1) (map2 (+) y0 y1) \<longleftrightarrow> z = dot_loop 0 (map2 (+) x0 x1) (map2 (+) y0 y1)" for z
    using assms by simp
  moreover have "\<exists>z0 z1. every_run (three (avec_times \<lparr>av_vals = x0, av_ctx = Ctx\<rparr> \<lparr>av_vals = y0, av_ctx = Ctx\<rparr> s0)
        (avec_times \<lparr>av_vals = x1, av_ctx = Ctx\<rparr> \<lparr>av_vals = y1, av_ctx = Ctx\<rparr> s1)
        (avec_times \<lparr>av_vals = x2, av_ctx = Ctx\<rparr> \<lparr>av_vals = y2, av_ctx = Ctx\<rparr> s2)) quiet
      (three (Done (z0, s0)) (Done (z1, s1)) (Done (0, skip_rng 64 s2))) quiet
    \<and> z0 + z1 = dot_loop 0 (map2 (+) x0 x1) (map2 (+) y0 y1)"
    by (rule joint_three_every_run_ex)
      (use mpc_dotproduct_online [OF assms(1-3), of "\<lparr>av_vals = x0, av_ctx = Ctx\<rparr>" "\<lparr>av_vals = x1, av_ctx = Ctx\<rparr>"
      "\<lparr>av_vals = x2, av_ctx = Ctx\<rparr>" n "\<lparr>av_vals = y0, av_ctx = Ctx\<rparr>" "\<lparr>av_vals = y1, av_ctx = Ctx\<rparr>"
      "\<lparr>av_vals = y2, av_ctx = Ctx\<rparr>"] small assms(5-) in simp)
  ultimately show ?thesis by simp
qed

theorem mpc_dotproduct_correct_witness:
  "\<exists>z0 z1. every_run (three (avec_times \<lparr>av_vals = [1, 2], av_ctx = Ctx\<rparr> \<lparr>av_vals = [3, 4], av_ctx = Ctx\<rparr> (party_state P0))
        (avec_times \<lparr>av_vals = [0, 5], av_ctx = Ctx\<rparr> \<lparr>av_vals = [7, 0], av_ctx = Ctx\<rparr> (party_state P1))
        (avec_times \<lparr>av_vals = [0, 0], av_ctx = Ctx\<rparr> \<lparr>av_vals = [0, 0], av_ctx = Ctx\<rparr> (party_state P2))) quiet
      (three (Done (z0, party_state P0)) (Done (z1, party_state P1))
        (Done (0, skip_rng 64 (party_state P2)))) quiet
    \<and> z0 + z1 = 38"
  using mpc_dotproduct_correct [OF wired_demo, of 2 "[1, 2]" "[0, 5]" "[0, 0]" "[3, 4]" "[7, 0]" "[0, 0]"]
  by (simp add: sizeof_def one_segment_def)


section \<open>Preprocessing: recorded and replayed randomness\<close>

text \<open>
  C12: a dealer that records a sequence of multiplications sends nothing and appends one entry
  per operation to each tape; two parties that later replay these entries from the same index obtain correct shares
  of any sequence of as many products, exchange messages among themselves only, and consume exactly the entries.
\<close>

theorem preprocessing_replays:
  assumes "recording idx t0 t1 st" "list_all has_ctx ops"
  shows "\<exists>zs st' e0 e1. mul_seq P2 self (Some p0) (Some p1) ops st = Return (zs, st')
    \<and> recording (idx + of_nat (length ops)) (t0 @ e0) (t1 @ e1) st' \<and> replays e0 e1 idx (length ops)"
  by (rule mul_seq_record_replay [OF assms])

theorem preprocessing_replays_witness:
  "\<exists>zs st' e0 e1. mul_seq P2 (peer_at P0 P0) (Some (peer_at P0 P0)) (Some (peer_at P1 P1))
      [(AShare 0 Ctx, AShare 0 Ctx), (AShare 0 Ctx, AShare 0 Ctx)]
      (party_state P2\<lparr>ps_ctx := (ps_ctx (party_state P2))\<lparr>mc_mode := Record, rand_out := Some [], mul_ctr := Some 0,
         mul_out_p0 := Some [], mul_out_p1 := Some []\<rparr>\<rparr>) = Return (zs, st')
    \<and> recording 2 ([] @ e0) ([] @ e1) st' \<and> replays e0 e1 0 2"
  using preprocessing_replays [of 0 "[]" "[]"
      "party_state P2\<lparr>ps_ctx := (ps_ctx (party_state P2))\<lparr>mc_mode := Record, rand_out := Some [], mul_ctr := Some 0,
         mul_out_p0 := Some [], mul_out_p1 := Some []\<rparr>\<rparr>"
      "[(AShare 0 Ctx, AShare 0 Ctx), (AShare 0 Ctx, AShare 0 Ctx)]" "peer_at P0 P0" "peer_at P0 P0" "peer_at P1 P1"]
  by (simp add: recording_def has_ctx_def flip: numeral_2_eq_2)

text \<open>
  A party whose tape is at another index than its counter throws the desynchronisation error before
  it reads any mask, whatever follows on the tape.
\<close>

theorem replay_desync:
  assumes "replaying is_p0 expected (tape_entry idx X Y (gamma :: u64) @ rest) st" "idx \<noteq> expected"
  shows "mul_material is_p0 self st
    = Throw (Runtime_error (''Replay desync in mpc_mul at '' @ (if is_p0 then ''P0'' else ''P1'')))"
  using assms by (cases is_p0) (simp_all add: replaying_def mul_material_def party_name_def tape_entry_desync)

theorem replay_desync_witness:
  "mul_material True (peer_at P0 P2) (party_state P0\<lparr>ps_ctx := (ps_ctx (party_state P0))\<lparr>mc_mode := Replay,
      mul_ctr := Some 1, mul_in_p0 := Some (tape_entry 0 1 2 (3 :: u64) @ [])\<rparr>\<rparr>)
    = Throw (Runtime_error ''Replay desync in mpc_mul at P0'')"
  using replay_desync [of True 1 0 1 2 3 "[]" "party_state P0\<lparr>ps_ctx := (ps_ctx (party_state P0))\<lparr>mc_mode := Replay,
      mul_ctr := Some 1, mul_in_p0 := Some (tape_entry 0 1 2 (3 :: u64) @ [])\<rparr>\<rparr>" "peer_at P0 P2"]
  by (simp add: replaying_def)

text \<open>
  A value drawn while recording is appended to the random tape, and replaying a tape that begins
  with it yields the same value and leaves the rest; replaying an exhausted tape throws.
\<close>

theorem mpc_random_replays:
  assumes "mc_mode (ps_ctx st) = Record" "rand_out (ps_ctx st) = Some c"
    and "mc_mode (ps_ctx st') = Replay" "8 dvd LENGTH('a::len)"
  shows "\<exists>v w. mpc_random st = Inr (v :: 'a word, w) \<and> rand_out (ps_ctx w) = Some (c @ to_bytes v)
    \<and> mpc_random (st'\<lparr>ps_ctx := (ps_ctx st')\<lparr>rand_in := Some (to_bytes v @ rest)\<rparr>\<rparr>)
        = Inr (v, st'\<lparr>ps_ctx := (ps_ctx st')\<lparr>rand_in := Some rest\<rparr>\<rparr>)
    \<and> (mpc_random (st'\<lparr>ps_ctx := (ps_ctx st')\<lparr>rand_in := Some []\<rparr>\<rparr>) :: ('a word \<times> pstate) result)
        = Inl (Runtime_error ''Out of preprocessing randomness'')"
proof -
  obtain v :: "'a word" and w where v: "mpc_random st = Inr (v, w)" "rand_out (ps_ctx w) = Some (c @ to_bytes v)"
    using mpc_random_record_replay [OF assms, of rest] by blast
  have "0 < LENGTH('a) div 8" using assms(4) by (simp add: div_greater_zero_iff dvd_imp_le)
  with v assms(3,4) show ?thesis
    by (intro exI [of _ v] exI [of _ w]) (simp add: mpc_random_def fread_def)
qed

theorem mpc_random_replays_witness:
  "let st = party_state P2\<lparr>ps_ctx := (ps_ctx (party_state P2))\<lparr>mc_mode := Record, rand_out := Some []\<rparr>\<rparr>;
       st' = party_state P2\<lparr>ps_ctx := (ps_ctx (party_state P2))\<lparr>mc_mode := Replay\<rparr>\<rparr>
   in \<exists>v w. mpc_random st = Inr (v :: u64, w)
     \<and> mpc_random (st'\<lparr>ps_ctx := (ps_ctx st')\<lparr>rand_in := Some (to_bytes v @ [7])\<rparr>\<rparr>)
         = Inr (v, st'\<lparr>ps_ctx := (ps_ctx st')\<lparr>rand_in := Some [7]\<rparr>\<rparr>)"
  unfolding Let_def
  using mpc_random_replays [where 'a = 64 and rest = "[7]" and c = "[]",
      of "party_state P2\<lparr>ps_ctx := (ps_ctx (party_state P2))\<lparr>mc_mode := Record, rand_out := Some []\<rparr>\<rparr>"
        "party_state P2\<lparr>ps_ctx := (ps_ctx (party_state P2))\<lparr>mc_mode := Replay\<rparr>\<rparr>"]
  by auto


section \<open>Sharing and reconstruction\<close>

text \<open>
  C14: a secret that was shared additively and reconstructed over the network comes back at
  both parties, for every random value and every interleaving.
\<close>

theorem additive_sharing_roundtrip:
  assumes "8 dvd LENGTH('a::len)"
  shows "every_run (three (reconstruct_remote_A (peer_at P1 P1) (fst (share_secret_additive rnd secret)))
        (reconstruct_remote_A (peer_at P0 P0) (snd (share_secret_additive rnd secret))) (Return 0)) quiet
      (three (Done (secret :: 'a word)) (Done secret) (Done 0)) quiet"
  using joint_three_every_run [OF exchange_A [OF assms, of "fst (share_secret_additive rnd secret)" "snd (share_secret_additive rnd secret)"]]
  by (simp add: share_secret_additive_def Let_def)

theorem additive_sharing_roundtrip_witness:
  "every_run (three (reconstruct_remote_A (peer_at P1 P1) (fst (share_secret_additive 77 (42 :: u32))))
        (reconstruct_remote_A (peer_at P0 P0) (snd (share_secret_additive 77 (42 :: u32)))) (Return 0)) quiet
      (three (Done 42) (Done 42) (Done 0)) quiet"
  using additive_sharing_roundtrip [where 'a = 32, of 77 42] by simp

text \<open>The same for xor shares.\<close>

theorem xor_sharing_roundtrip:
  assumes "8 dvd LENGTH('a::len)"
  shows "every_run (three (reconstruct_remote_X (peer_at P1 P1) (fst (share_secret_xor rnd secret)))
        (reconstruct_remote_X (peer_at P0 P0) (snd (share_secret_xor rnd secret))) (Return 0)) quiet
      (three (Done (secret :: 'a word)) (Done secret) (Done 0)) quiet"
  using joint_three_every_run [OF exchange_X [OF assms, of "fst (share_secret_xor rnd secret)" "snd (share_secret_xor rnd secret)"]]
  by (simp add: share_secret_xor_def Let_def)

theorem xor_sharing_roundtrip_witness:
  "every_run (three (reconstruct_remote_X (peer_at P1 P1) (fst (share_secret_xor 77 (42 :: u64))))
        (reconstruct_remote_X (peer_at P0 P0) (snd (share_secret_xor 77 (42 :: u64)))) (Return 0)) quiet
      (three (Done 42) (Done 42) (Done 0)) quiet"
  using xor_sharing_roundtrip [where 'a = 64, of 77 42] by simp

text \<open>
  Vectors of xor shares of one length, also empty ones, are reconstructed element by element.
\<close>

theorem vector_reconstruction:
  assumes "8 dvd LENGTH('a::len)" "length xs = length ys" "length ys < 2 ^ 64"
  shows "every_run (three (reconstruct_remote_vector (peer_at P1 P1) \<lparr>xv_vals = xs\<rparr>)
      (reconstruct_remote_vector (peer_at P0 P0) \<lparr>xv_vals = ys\<rparr>) (Return [])) quiet
     (three (Done (map2 (XOR) xs ys :: 'a word list)) (Done (map2 (XOR) xs ys)) (Done [])) quiet"
  by (rule joint_three_every_run [OF exchange_vec [OF assms]])

theorem vector_reconstruction_witness:
  "every_run (three (reconstruct_remote_vector (peer_at P1 P1) \<lparr>xv_vals = [1, 2, 3]\<rparr>)
      (reconstruct_remote_vector (peer_at P0 P0) \<lparr>xv_vals = [7, 7, 7 :: u64]\<rparr>) (Return [])) quiet
     (three (Done [6, 5, 4]) (Done [6, 5, 4]) (Done [])) quiet"
  using vector_reconstruction [where 'a = 64, of "[1, 2, 3]" "[7, 7, 7]"] by simp


section \<open>Keys on the wire\<close>

text \<open>
  C15: decoding the bytes of a key, with anything behind them, gives the key back, for every content of the
  padding inside the generator key, and the encoding has the exact length.
\<close>

theorem key_roundtrip:
  assumes "key_wf aes_key_ok lt key"
  shows "deserialize_dpf_key 192 aes_key_of_bytes lt (serialize_dpf_key (aes_key_bytes pad) key @ rest) = Inr key
    \<and> length (serialize_dpf_key (aes_key_bytes pad) key) = 224 + 16 * length (dk_cw key) + 16 * nodes_per_leaf lt"
  using aes_raw.deserialize_serialize [OF assms] aes_raw.length_serialize [OF assms] by simp

theorem key_roundtrip_witness:
  "let key = \<lparr>dk_nitems = 4, dk_root = 5, dk_cw = [9], dk_finalizer = [3], dk_prgkey = default_aes_key\<rparr>
   in deserialize_dpf_key 192 aes_key_of_bytes T_u64 (serialize_dpf_key (aes_key_bytes (\<lambda>_. 0)) key @ [1]) = Inr key
     \<and> length (serialize_dpf_key (aes_key_bytes (\<lambda>_. 0)) key) = 256"
  using key_roundtrip [of T_u64 "\<lparr>dk_nitems = 4, dk_root = 5, dk_cw = [9], dk_finalizer = [3], dk_prgkey = default_aes_key\<rparr>" "\<lambda>_. 0" "[1]"]
  by (simp add: key_wf_def nodes_per_leaf_def is_packed_def default_aes_key_def aes_key_ok_ctor)

text \<open>
  Decoding a proper prefix of a key's bytes reads past the end of the buffer; the length passed to
  \<^verbatim>\<open>deserialize_dpf_key\<close> does not prevent it.
\<close>

theorem truncated_key:
  assumes "key_wf aes_key_ok lt key" "m < length (serialize_dpf_key (aes_key_bytes pad) key)"
  shows "\<exists>e. deserialize_dpf_key 192 aes_key_of_bytes lt (take m (serialize_dpf_key (aes_key_bytes pad) key)) = Inl e"
  by (rule aes_raw.deserialize_truncated [OF assms])

theorem truncated_key_witness:
  "let key = \<lparr>dk_nitems = 4, dk_root = 5, dk_cw = [9], dk_finalizer = [3], dk_prgkey = default_aes_key\<rparr>
   in \<exists>e. deserialize_dpf_key 192 aes_key_of_bytes T_u64 (take 255 (serialize_dpf_key (aes_key_bytes (\<lambda>_. 0)) key)) = Inl e"
proof -
  define key where "key = \<lparr>dk_nitems = 4, dk_root = 5, dk_cw = [9], dk_finalizer = [3], dk_prgkey = default_aes_key\<rparr>"
  have "key_wf aes_key_ok T_u64 key"
    by (simp add: key_def key_wf_def nodes_per_leaf_def is_packed_def default_aes_key_def aes_key_ok_ctor)
  moreover from aes_raw.length_serialize [OF this] have "255 < length (serialize_dpf_key (aes_key_bytes (\<lambda>_. 0)) key)"
    by (simp add: key_def nodes_per_leaf_def is_packed_def)
  ultimately show ?thesis
    using truncated_key [of T_u64 key 255 "\<lambda>_. 0"] by (simp add: key_def Let_def)
qed

text \<open>
  The dealer generates a pair of keys and sends one to each party; in every run both
  parties receive exactly the key meant for them.
\<close>

theorem generated_keys_delivered:
  assumes "gen PRG lt (aes_key userkey) n target val r0 r1 = Inr (k0, k1)" "n < 2 ^ 64"
  shows "every_run (three (bind (recv_dpf_key 192 aes_key_of_bytes lt (peer_at P0 P2)) (\<lambda>k. Return (Some k)))
       (bind (recv_dpf_key 192 aes_key_of_bytes lt (peer_at P1 P2)) (\<lambda>k. Return (Some k)))
       (bind (send_dpf_key (aes_key_bytes pad) (peer_at P0 P0) k0) (\<lambda>_.
        bind (send_dpf_key (aes_key_bytes pad) (peer_at P1 P1) k1) (\<lambda>_. Return None)))) quiet
     (three (Done (Some k0)) (Done (Some k1)) (Done None)) quiet"
proof -
  note wfs = generated_key_wf [OF assms]
  have "length (serialize_dpf_key (aes_key_bytes pad) k) < 2 ^ 64"
    if "key_wf aes_key_ok lt k" "length (dk_cw k) \<le> 64" for k
    using aes_raw.length_serialize [OF that(1)] that(2) wfs(5) by simp
  with wfs show ?thesis by (intro joint_three_every_run aes_raw.keys_delivered) simp_all
qed

theorem generated_keys_delivered_witness:
  "\<exists>k0 k1. gen PRG T_u64 (aes_key 9) 4 2 (L64 100) 17 23 = Inr (k0, k1)
    \<and> every_run (three (bind (recv_dpf_key 192 aes_key_of_bytes T_u64 (peer_at P0 P2)) (\<lambda>k. Return (Some k)))
       (bind (recv_dpf_key 192 aes_key_of_bytes T_u64 (peer_at P1 P2)) (\<lambda>k. Return (Some k)))
       (bind (send_dpf_key (aes_key_bytes (\<lambda>_. 0)) (peer_at P0 P0) k0) (\<lambda>_.
        bind (send_dpf_key (aes_key_bytes (\<lambda>_. 0)) (peer_at P1 P1) k1) (\<lambda>_. Return None)))) quiet
     (three (Done (Some k0)) (Done (Some k1)) (Done None)) quiet"
proof -
  obtain k0 k1 where g: "gen PRG T_u64 (aes_key 9) 4 2 (L64 100) 17 23 = Inr (k0, k1)"
    using aes_prg.gen_total [of 2 4 T_u64 "aes_key 9" "L64 100" 17 23] by (auto simp: elements_per_vector_def)
  from generated_keys_delivered [OF g] g show ?thesis by auto
qed


section \<open>Block cipher, generator and block arithmetic\<close>

text \<open>
  C16: decryption under the schedule of \<^verbatim>\<open>AES_set_decrypt_key_fast\<close> inverts encryption, for every key
  the constructor builds and every array of blocks.
\<close>

theorem aes_decrypt_encrypt:
  assumes "length (rd_key dk) = 11"
  shows "AES_ecb_decrypt_blks (AES_ecb_encrypt_blks blks (aes_key userkey)) (AES_set_decrypt_key_fast dk (aes_key userkey)) = blks"
  by (rule decrypt_encrypt_block [where n = 10]) (simp_all add: aes_key_def assms)

theorem aes_decrypt_encrypt_witness:
  "AES_ecb_decrypt_blks (AES_ecb_encrypt_blks [1, 2] (aes_key 5))
     (AES_set_decrypt_key_fast \<lparr>rd_key = replicate 11 0, rounds = 0\<rparr> (aes_key 5)) = [1, 2]"
  using aes_decrypt_encrypt [of "\<lparr>rd_key = replicate 11 0, rounds = 0\<rparr>" "[1, 2]" 5] by simp

text \<open>
  \<^verbatim>\<open>PRG_safe\<close> writes the bytes of the blocks that \<^verbatim>\<open>PRG\<close> computes and nothing behind them; a null
  buffer fails the assertion.
\<close>

theorem prg_safe_equiv:
  assumes "16 * n \<le> length buf"
  shows "PRG_safe key seed (Some buf) n f = Inr (store_blocks (PRG key seed n f) @ drop (16 * n) buf)
    \<and> PRG_safe key seed None n f = Inl (Assertion ''outbuf != nullptr'')"
  using PRG_safe_eq [OF assms] by (simp add: PRG_safe_def)

theorem prg_safe_equiv_witness:
  "PRG_safe default_aes_key 3 (Some (replicate 20 7)) 1 0 = Inr (store_blocks (PRG default_aes_key 3 1 0) @ replicate 4 7)"
  using prg_safe_equiv [of 1 "replicate 20 7" default_aes_key 3 0] by simp

text \<open>
  \<^verbatim>\<open>fill_vector_with_prg\<close> fills a vector whose number of blocks fits into 32 bits; element \<open>i\<close> is the low or the high half of
  block \<open>i / 2\<close> of the generator's output, cut to the element type.
\<close>

theorem fill_vector_halves:
  assumes "i < n" "(n + 1) div 2 < 2 ^ 32"
  shows "length (fill_vector_with_prg n key seed :: 'a::len word list) = n
    \<and> (fill_vector_with_prg n key seed :: 'a word list) ! i =
        ucast (if even i then mm_cvtsi128_si64 (PRG key seed 1 (i div 2) ! 0)
               else mm_extract_epi64_1 (PRG key seed 1 (i div 2) ! 0))"
proof -
  define m where "m = (n + 1) div 2"
  have m: "i div 2 < m" "n \<le> 2 * m" using assms(1) unfolding m_def by linarith+
  have "PRG key seed m 0 ! (i div 2) = PRG key seed 1 (i div 2) ! 0"
    using aes_prg.nth_G [OF m(1), of key seed 0] by simp
  with nth_fill_loop [where 'a = 'a, of n "PRG key seed m 0" i] assms m(2) show ?thesis
    unfolding fill_vector_small [OF assms(2)] m_def [symmetric] by simp
qed

theorem fill_vector_halves_witness:
  "(fill_vector_with_prg 3 default_aes_key 1 :: u64 list) ! 1 = mm_extract_epi64_1 (PRG default_aes_key 1 1 0 ! 0)"
  using fill_vector_halves [where 'a = 64, of 1 3 default_aes_key 1] by simp

text \<open>
  C21: the 128-bit operations built from 64-bit halves are addition, subtraction and multiplication modulo
  \<open>2 ^ 128\<close>.
\<close>

theorem block_arithmetic:
  "uint (add128_mod2_128 a b) = (uint a + uint b) mod 2 ^ 128
   \<and> uint (sub128_mod2_128 a b) = (uint a - uint b) mod 2 ^ 128
   \<and> uint (mul128_mod2_128 a b) = (uint a * uint b) mod 2 ^ 128"
  by (simp add: m128_arith uint_word_ariths)

text \<open>
  Setting the two low bits of a block and reading them back, and that no other bit changes; clearing
  forgets them.
\<close>

theorem block_low_bits:
  "get_lsb (set_lsbs b (x, y)) 1 = of_bool x \<and> get_lsb (set_lsbs b (x, y)) 2 = of_bool y
   \<and> clear_lsb (set_lsbs b (x, y)) 3 = clear_lsb b 3
   \<and> get_lsb (set_lsb b x) 1 = of_bool x \<and> clear_lsb (set_lsb b x) 1 = clear_lsb b 1"
  by (intro conjI bit_word_eqI)
    (auto simp: get_lsb_1 get_lsb_2 get_lsb_1 [unfolded One_nat_def] bit_set_lsbs bit_set_lsb bit_clear_lsb
      bit_clear_lsb [unfolded One_nat_def] split: if_splits)


section \<open>Oblivious transfer\<close>

text \<open>
  The receiver obtains in every transfer of a batch exactly the message of its choice, whatever its
  random choices were, when the underlying random transfer gives the receiver the pad of its random choice.
\<close>

theorem ot_chosen_message:
  assumes "length msgs = n" "length choices = n" "length q = n" "rot_correct rots n"
  shows "ot_transfer rots n msgs choices q = Inr (map (\<lambda>i. if choices ! i then snd (msgs ! i) else fst (msgs ! i)) [0..<n])"
  using ot_transfer_correct [OF assms] by (simp add: sel_def)

theorem ot_chosen_message_witness:
  "ot_transfer (\<lambda>q. (map (\<lambda>b. (3, 5)) q, map (\<lambda>b. if b then 5 else 3) q))
      2 [(10, 11), (20, 21)] [True, False] [False, False] = Inr [11, 20]"
  using ot_chosen_message [of "[(10, 11), (20, 21)]" 2 "[True, False]" "[False, False]"
      "\<lambda>q. (map (\<lambda>b. (3, 5)) q, map (\<lambda>b. if b then 5 else 3) q)"]
  by (simp add: rot_correct_def sel_def upt_conv_Cons)

text \<open>
  C22: in every reachable state of the worker and its queue, what was submitted is what has been completed,
  then the task being executed, then the queue, in the order of submission; and the worker has exited only after
  shutdown with an empty queue.
\<close>

theorem ot_queue_order:
  assumes "ot_reach m"
  shows "submitted m = completed m @ in_progress m @ tasks m
    \<and> (worker m = Exited \<longrightarrow> \<not> running m \<and> completed m = submitted m)"
  using ot_reach_inv [OF assms] by (auto simp: ot_inv_def in_progress_def)

theorem ot_queue_order_witness:
  "let m = enqueue (2 :: nat) (enqueue 1 ot_mgr_init)
   in submitted m = completed m @ in_progress m @ tasks m \<and> tasks m = [1, 2]"
proof -
  have "running (enqueue (1 :: nat) ot_mgr_init)" "running (ot_mgr_init :: nat ot_mgr)"
    by (simp_all add: enqueue_def ot_mgr_init_def)
  then have "ot_reach (enqueue (2 :: nat) (enqueue 1 ot_mgr_init))"
    by (intro reach_step [OF reach_step [OF reach_init step_enqueue] step_enqueue])
  from ot_queue_order [OF this] show ?thesis by (simp add: enqueue_def ot_mgr_init_def)
qed

text \<open>
  C24: from every reachable state after shutdown no step leads away from the exit: some step is possible
  until the worker has exited, every step decreases the work left, and the steps lead to the exit with every submitted
  task completed.
\<close>

theorem ot_shutdown_drains:
  assumes "ot_reach m" "\<not> running m"
  shows "(worker m \<noteq> Exited \<longrightarrow> (\<exists>m'. ot_step m m'))
    \<and> (\<forall>m'. ot_step m m' \<longrightarrow> left_to_do m' < left_to_do m)
    \<and> (\<exists>m'. ot_step\<^sup>*\<^sup>* m m' \<and> worker m' = Exited \<and> completed m' = submitted m)"
  using ot_progress [OF assms(2)] ot_decrease [OF _ assms(2)] ot_drains [OF assms] by blast

theorem ot_shutdown_drains_witness:
  "\<exists>m'. ot_step\<^sup>*\<^sup>* (shut_down (enqueue (1 :: nat) ot_mgr_init)) m' \<and> worker m' = Exited \<and> completed m' = [1]"
proof -
  have "running (enqueue (1 :: nat) ot_mgr_init)" "running (ot_mgr_init :: nat ot_mgr)"
    by (simp_all add: enqueue_def ot_mgr_init_def)
  then have "ot_reach (shut_down (enqueue (1 :: nat) ot_mgr_init))"
    by (intro reach_step [OF reach_step [OF reach_init step_enqueue] step_shut_down])
  from ot_shutdown_drains [OF this] show ?thesis by (simp add: enqueue_def ot_mgr_init_def shut_down_def)
qed

text \<open>
  \<^verbatim>\<open>await_future\<close> returns the value of the future, or throws its exception, as soon as some poll
  finds it ready, and polls forever when none does.
\<close>

theorem await_future_returns:
  "await_future ready v = (if \<exists>i. ready i then Some v else None)"
proof (cases "\<exists>i. ready i")
  case True
  then obtain i where "ready i" by blast
  with await_loop_ready [of ready 0 i v] True show ?thesis by (simp add: await_future_def)
next
  case False
  with await_loop_never [of ready v 0] show ?thesis by (simp add: await_future_def)
qed


section \<open>The distributed memory\<close>

text \<open>
  C26: \<^verbatim>\<open>Locoram::update\<close> followed by \<^verbatim>\<open>reconstruct_with_ctx\<close>, for a memory of an even number of
  words and index shares that are all in range. Every run of the three parties ends, leaves no message over, and both
  computing parties see the memory with 100 xored into word 2 and every other word unchanged, whatever the index and
  value shares are: the dealer's target and value are constants of the code.
\<close>

theorem locoram_write_visible:
  assumes "wired Online P0 s0" "wired Online P1 s1" "wired Online P2 s2"
    and "lo_wf n lo0" "lo_wf n lo1" "lo_wf n lo2" "2 < n" "even n" "n * 8 < 2 ^ 64"
    and "unat i0 < n" "unat i1 < n" "unat i2 < n"
  shows "let m = memory_words lo0 lo1; m' = m[2 := m ! 2 XOR 100]
    in every_run (three (bind (locoram_update pad (XShare i0 Ctx) v0 lo0 s0) (\<lambda>(lo, st). reconstruct_with_ctx Ctx lo st))
        (bind (locoram_update pad (XShare i1 Ctx) v1 lo1 s1) (\<lambda>(lo, st). reconstruct_with_ctx Ctx lo st))
        (bind (locoram_update pad (XShare i2 Ctx) v2 lo2 s2) (\<lambda>(lo, st). reconstruct_with_ctx Ctx lo st))) quiet
      (three (Done m') (Done m') (Done [])) quiet"
  unfolding Let_def
  by (rule joint_three_every_run [OF update_then_reconstruct [OF assms, of pad v0 v1 v2, unfolded Let_def]])

theorem locoram_write_visible_witness:
  "every_run (three
      (bind (locoram_update (\<lambda>_. 0) (XShare 1 Ctx) (XShare 9 Ctx) (Locoram 4 default_aes_key) (party_state P0))
        (\<lambda>(lo, st). reconstruct_with_ctx Ctx lo st))
      (bind (locoram_update (\<lambda>_. 0) (XShare 2 Ctx) (XShare 7 Ctx) (Locoram 4 default_aes_key) (party_state P1))
        (\<lambda>(lo, st). reconstruct_with_ctx Ctx lo st))
      (bind (locoram_update (\<lambda>_. 0) (XShare 0 Ctx) (XShare 0 Ctx) (Locoram 4 default_aes_key) (party_state P2))
        (\<lambda>(lo, st). reconstruct_with_ctx Ctx lo st))) quiet
    (three (Done [0, 0, 100, 0]) (Done [0, 0, 100, 0]) (Done [])) quiet"
proof -
  have m: "memory_words (Locoram 4 default_aes_key) (Locoram 4 default_aes_key) = [0, 0, 0, 0]"
    by (simp add: memory_words_def Locoram_def numeral_eq_Suc)
  show ?thesis
    using locoram_write_visible [OF wired_demo lo_wf_Locoram lo_wf_Locoram lo_wf_Locoram, where n = 4 and ?i0.0 = 1
        and ?i1.0 = 2 and ?i2.0 = 0 and pad = "\<lambda>_. 0" and ?v0.0 = "XShare 9 Ctx" and ?v1.0 = "XShare 7 Ctx"
        and ?v2.0 = "XShare 0 Ctx", of default_aes_key default_aes_key default_aes_key] by (simp add: m Let_def)
qed

text \<open>
  C27: in every memory that the constructor and any sequence of \<^verbatim>\<open>set_share\<close>, updates and reads make, with any
  bytes as the received keys, the six vectors have the size given to the constructor. So an update with a received key fails
  only where the key's decoding or evaluation does, and a read's last step only below eight words.
\<close>

theorem locoram_sizes:
  assumes "memory n lo" "0 < n"
  shows "lo_wf n lo
    \<and> apply_update buf lo = res_bind (decode_key buf) (\<lambda>key. res_bind (eval_range key n) (\<lambda>(out, _).
        Inr (lo\<lparr>secret_share := map2 (XOR) (secret_share lo) out, blind := map2 (XOR) (blind lo) out\<rparr>)))
    \<and> ((\<exists>v. read_result lo = Inr v) \<longleftrightarrow> 8 \<le> n)"
  using memory_wf [OF assms(1)] memory_update_cases [OF assms] memory_read_result [OF assms(1)]
  by (simp add: range_error_def not_le)

theorem locoram_sizes_witness:
  "lo_wf 3 (Locoram 3 default_aes_key) \<and> \<not> (\<exists>v. read_result (Locoram 3 default_aes_key) = Inr v)"
  using locoram_sizes [OF memory.new, of 3] by simp

text \<open>
  C28: for an odd number of words the evaluation of a key writes whole blocks of two words and runs past
  the vector: an update with any bytes that decode to a key, with a correction word for every layer, ends in an access
  outside the output arrays.
\<close>

theorem locoram_odd_overrun:
  assumes "memory n lo" "odd n" "decode_key buf = Inr key" "dpf_depth T_u64 (dk_nitems key) \<le> length (dk_cw key)"
  shows "apply_update buf lo = Inl array_overrun"
proof -
  have "0 < n" using assms(2) by (cases n) auto
  with memory_update_cases [OF assms(1), of buf] eval_range_odd [OF assms(2,4)] assms(3) show ?thesis by simp
qed

theorem locoram_odd_overrun_witness:
  "apply_update (serialize_dpf_key (aes_key_bytes (\<lambda>_. 0))
      \<lparr>dk_nitems = 3, dk_root = 5, dk_cw = [9], dk_finalizer = [3], dk_prgkey = default_aes_key\<rparr>) (Locoram 3 default_aes_key) = Inl array_overrun"
proof -
  define key where "key = \<lparr>dk_nitems = 3, dk_root = 5, dk_cw = [9], dk_finalizer = [3], dk_prgkey = default_aes_key\<rparr>"
  have wf: "key_wf aes_key_ok T_u64 key"
    by (simp add: key_def key_wf_def nodes_per_leaf_def is_packed_def default_aes_key_def aes_key_ok_ctor)
  have "decode_key (serialize_dpf_key (aes_key_bytes (\<lambda>_. 0)) key) = Inr key"
    using aes_raw.deserialize_serialize [OF wf, of "\<lambda>_. 0" "[]"] by (simp add: decode_key_def)
  moreover have "dpf_depth T_u64 (dk_nitems key) \<le> length (dk_cw key)"
    by (simp add: key_def dpf_depth_def ceil_div_def ceillog2_def leaves_per_node_def is_packed_def)
  ultimately show ?thesis
    unfolding key_def [symmetric] by (intro locoram_odd_overrun [OF memory.new]) simp_all
qed

text \<open>
  C29: refinement of a plain memory. A sequence of updates by the three parties, with index shares in
  range, ends in every run, keeps the shape of all three memories, logs the value shares in order, and changes the shared
  memory, the xor of the two shares, as the same number of plain updates changes a list of words.
\<close>

theorem locoram_updates_refine:
  assumes "wired Online P0 s0" "wired Online P1 s1" "wired Online P2 s2"
    and "lo_wf n lo0" "lo_wf n lo1" "lo_wf n lo2" "2 < n" "even n" "n < 2 ^ 64" "\<forall>op \<in> set ops. in_range n op"
  shows "\<exists>lo0' lo1' lo2'. every_run (three (update_seq pad (map (\<lambda>op. op P0) ops) lo0 s0)
        (update_seq pad (map (\<lambda>op. op P1) ops) lo1 s1) (update_seq pad (map (\<lambda>op. op P2) ops) lo2 s2)) quiet
      (three (Done (lo0', s0)) (Done (lo1', s1)) (Done (lo2', skip_rng (48 * length ops) s2))) quiet
    \<and> lo_wf n lo0' \<and> lo_wf n lo1' \<and> lo_wf n lo2'
    \<and> memory_words lo0' lo1' = (plain_update ^^ length ops) (memory_words lo0 lo1)
    \<and> update_vals lo0' = update_vals lo0 @ map (\<lambda>op. snd (op P0)) ops
    \<and> update_vals lo1' = update_vals lo1 @ map (\<lambda>op. snd (op P1)) ops"
  using update_seq_refines [OF assms, of pad] by (elim exE conjE) (blast dest: joint_three_every_run)

theorem locoram_updates_refine_witness:
  "\<exists>lo0' lo1' lo2'. every_run (three
        (update_seq (\<lambda>_. 0) (map (\<lambda>op. op P0) (replicate 3 (\<lambda>_. (XShare 1 Ctx, XShare 7 Ctx)))) (Locoram 4 default_aes_key) (party_state P0))
        (update_seq (\<lambda>_. 0) (map (\<lambda>op. op P1) (replicate 3 (\<lambda>_. (XShare 1 Ctx, XShare 7 Ctx)))) (Locoram 4 default_aes_key) (party_state P1))
        (update_seq (\<lambda>_. 0) (map (\<lambda>op. op P2) (replicate 3 (\<lambda>_. (XShare 1 Ctx, XShare 7 Ctx)))) (Locoram 4 default_aes_key) (party_state P2))) quiet
      (three (Done (lo0', party_state P0)) (Done (lo1', party_state P1)) (Done (lo2', skip_rng 144 (party_state P2)))) quiet
    \<and> memory_words lo0' lo1' = [0, 0, 100, 0]"
proof -
  let ?ops = "replicate 3 (\<lambda>_ :: role. (XShare (1 :: u64) Ctx, XShare (7 :: u64) Ctx))"
  have m: "(plain_update ^^ 3) (memory_words (Locoram 4 default_aes_key) (Locoram 4 default_aes_key)) = [0, 0, 100, 0]"
    by (simp add: memory_words_def Locoram_def plain_update_def numeral_eq_Suc)
  have "\<forall>op \<in> set ?ops. in_range 4 op" by (simp add: in_range_def)
  from locoram_updates_refine [where pad = "\<lambda>_. 0", OF wired_demo lo_wf_Locoram lo_wf_Locoram lo_wf_Locoram _ _ _ this,
      of default_aes_key default_aes_key default_aes_key]
  show ?thesis by (simp add: m) blast
qed


section \<open>Connections\<close>

text \<open>
  C25: when attempt \<open>k\<close> (from 0) is the first that succeeds and lies below a positive limit, or
  there is no limit, the connection is returned; when all of a positive number of attempts fail the last error is
  thrown.
\<close>

theorem connect_with_retry_outcome:
  assumes "\<forall>j<k. \<exists>e. dial j = Inl e" "dial k = Inr s" "max_tries \<le> 0 \<or> int k < max_tries"
    and "\<forall>j\<le>m. dial' j = Inl (e j)"
  shows "connect_with_retry dial max_tries = Some (Inr s)
    \<and> connect_with_retry dial' (int m + 1) = Some (Inl (e m))"
  using connect_loop_success [where a = 0 and k = k and dial = dial and s = s and max_tries = max_tries]
    connect_loop_failure [where a = 0 and k = m and dial = dial' and e = e and max_tries = "int m + 1"] assms
  by (simp add: connect_with_retry_def)

theorem connect_with_retry_outcome_witness:
  "connect_with_retry (\<lambda>j. if j < 2 then Inl (Runtime_error ''refused'') else Inr P2) (- 1) = Some (Inr P2)
    \<and> connect_with_retry (\<lambda>j. Inl (Runtime_error ''refused'') :: role result) 3 = Some (Inl (Runtime_error ''refused''))"
  using connect_with_retry_outcome [where k = 2 and dial = "\<lambda>j. if j < 2 then Inl (Runtime_error ''refused'') else Inr P2"
      and s = P2 and max_tries = "- 1" and m = 2 and dial' = "\<lambda>j. Inl (Runtime_error ''refused'') :: role result"
      and e = "\<lambda>_. Runtime_error ''refused''"] by simp

text \<open>
  A lookup after \<^verbatim>\<open>add_peer\<close> finds the earlier peer of that role if there was one, else the new one under
  its own role, else throws.
\<close>

theorem peer_lookup:
  "nc_peer (add_peer nc r sock) r' =
     (case nc_peer nc r' of
        Inr p \<Rightarrow> Inr p
      | Inl e \<Rightarrow> if r' = r then Inr \<lparr>np_role = r, np_sock = sock\<rparr> else Inl (Runtime_error ''peer not found''))"
  unfolding nc_peer_add using find_peer_Inl by (fastforce simp: nc_peer_def split: sum.splits)


section \<open>Programs\<close>

text \<open>
  C31: \<^verbatim>\<open>main.cpp\<close>. With the arguments \<open>p0\<close>, \<open>p1\<close> and \<open>p2\<close> the three programs, once connected, end in every
  run with no message left over, and what P0 and P1 print are additive shares of 140, the product of the shared 10 and
  14, and xor shares of 0, the conjunction of the shared bits; with any other arguments the program exits with status 1.
\<close>

theorem program_results:
  "(\<exists>c0 c1 c2 z0 z1 a0 a1.
      main_program connections [exe, ''p0''] rng0 = Inr c0 \<and> main_program connections [exe, ''p1''] rng1 = Inr c1
    \<and> main_program connections [exe, ''p2''] rng2 = Inr c2
    \<and> every_run (three c0 c1 c2) quiet (three (Done [z0, a0]) (Done [z1, a1]) (Done [])) quiet
    \<and> z0 + z1 = 140 \<and> a0 XOR a1 = 0)
   \<and> (main_program conn argv rng = Inl 1 \<longleftrightarrow> length argv \<noteq> 2 \<or> argv ! 1 \<notin> {''p0'', ''p1'', ''p2''})"
proof -
  have "\<exists>z0 z1 a0 a1. every_run (three (run_p0 P2 P1 rng0) (run_p1 P2 P0 rng1) (run_p2 P0 P1 rng2)) quiet
      (three (Done [z0, a0]) (Done [z1, a1]) (Done [])) quiet \<and> z0 + z1 = 140 \<and> a0 XOR a1 = 0"
    using programs_joint [of rng0 rng1 rng2] by (elim exE conjE) (blast dest: joint_three_every_run)
  then show ?thesis by (simp add: main_program_def connections_def Let_def)
qed

theorem program_results_witness:
  "main_program connections [''mpc_async'', ''p3''] (\<lambda>_. 0) = Inl 1"
  using program_results [where conn = connections and argv = "[''mpc_async'', ''p3'']" and rng = "\<lambda>_. 0"] by simp

text \<open>
  C32: \<^verbatim>\<open>dpf/dpf.cpp\<close>, for every random input, uninitialised memory and at least \<open>2 ^ 10\<close> entries: the flags
  differ at the target only and select it; both blinded reads return the entry at the target; the corrected cancellation
  terms equal those of the refreshed blinds; the retrieval returns the entry at the rotated target; and the final
  comparison passes its assertion and reports the target only. With fewer entries key generation throws.
\<close>

theorem prototype_reads:
  assumes "log_nitems < 64" "n = 2 ^ log_nitems"
    and "length (fst (in_mem0 i)) = n" "length (snd (in_mem0 i)) = n" "length (fst (in_mem1 i)) = n" "length (snd (in_mem1 i)) = n"
  shows "if 10 \<le> log_nitems
    then \<exists>out. proto_main log_nitems i = Inr out \<and> out_flags out = [(5, 1)] \<and> out_dot out = 5
      \<and> out_assert1 out = out_assert2 out \<and> out_reconstruction out = [5] \<and> out_dot_new out = 5
      \<and> out_x out = proof_database n ! rot n (pir_offset i) 5 \<and> out_differ out = [5]
    else proto_main log_nitems i = Inl (Runtime_error ''target point out of range'')"
proof (cases "10 \<le> log_nitems")
  case True
  with proto_main_correct [OF True assms] show ?thesis by simp
next
  case False
  then have "2 ^ log_nitems \<le> (2 :: nat) ^ 9" by (intro power_increasing) simp_all
  with False proto_main_small [of log_nitems i] show ?thesis by simp
qed

theorem prototype_reads_witness:
  "\<exists>out. proto_main 10 \<lparr>in_X0 = replicate 1024 1, in_X1 = replicate 1024 2,
      in_Y0 = replicate 1024 3, in_Y1 = replicate 1024 4, in_f0 = replicate 1024 6, in_roots = (\<lambda>_. (1, 2)),
      in_mem0 = (replicate 1024 0, replicate 1024 0), in_mem1 = (replicate 1024 0, replicate 1024 0), in_alpha = 1,
      in_alpha0 = 2, in_proof0 = 3, in_proof1 = 4, in_target0 = 5\<rparr> = Inr out \<and> out_dot out = 5 \<and> out_differ out = [5]"
  using prototype_reads [of 10 1024 "\<lparr>in_X0 = replicate 1024 1, in_X1 = replicate 1024 2,
      in_Y0 = replicate 1024 3, in_Y1 = replicate 1024 4, in_f0 = replicate 1024 6, in_roots = (\<lambda>_. (1, 2)),
      in_mem0 = (replicate 1024 0, replicate 1024 0), in_mem1 = (replicate 1024 0, replicate 1024 0), in_alpha = 1,
      in_alpha0 = 2, in_proof0 = 3, in_proof1 = 4, in_target0 = 5\<rparr>"] by simp blast

text \<open>
  C33: \<^verbatim>\<open>dpf/preproc.cpp\<close>, for every random input and writable files: the two keys are those that \<^verbatim>\<open>gen\<close> returns, the
  keys, the shares and the output arrays that are loaded are those that were saved, each in its place; the shares add up to the
  target; the two output arrays hold the evaluations of the two loaded keys at every index, for leaves of four blocks, which xor to the value
  at the target and to zero elsewhere, and so differ at the target exactly when the value is not zero, before and after they are
  reloaded; and the bitwise zero test of a sharing of zero gives 1.
\<close>

theorem preproc_program:
  assumes "10 \<le> log_nitems" "log_nitems < 64" "n = 2 ^ log_nitems" "length (pi_value i) = 4"
    and "length (fst (pi_mem0 i)) = 4 * n" "length (snd (pi_mem0 i)) = n"
      "length (fst (pi_mem1 i)) = 4 * n" "length (snd (pi_mem1 i)) = n"
    and "can_write ''dpfkey0.bin''" "can_write ''dpfkey1.bin''" "can_write ''output0.bin''" "can_write ''output1.bin''"
  shows "\<exists>out. preproc_main can_write log_nitems i fs = Inr out \<and> po_rec out = 555 \<and> po_recc out = 555
    \<and> po_share0 out = pi_share i 0 \<and> po_share1 out = 555 - pi_share i 0
    \<and> po_loaded out = po_keys out \<and> po_loaded_outs out = po_outputs out
    \<and> gen_cb PRG (T_arr 4) default_aes_key n 555 (LArr (pi_value i)) (default_make_finalizer PRG (T_arr 4))
        (fst (pi_roots i)) (snd (pi_roots i)) = Inr (po_keys out)
    \<and> (\<forall>j<n. Inr (LArr (leaf_at (fst (po_outputs out)) j)) = eval PRG (T_arr 4) (fst (po_keys out)) j
        \<and> Inr (LArr (leaf_at (snd (po_outputs out)) j)) = eval PRG (T_arr 4) (snd (po_keys out)) j
        \<and> map2 (XOR) (leaf_at (fst (po_outputs out)) j) (leaf_at (snd (po_outputs out)) j) = (if j = 555 then pi_value i else replicate 4 0))
    \<and> po_unequal out = (if pi_value i = replicate 4 0 then [] else [555])
    \<and> po_unequal_loaded out = po_unequal out \<and> po_eqz out = 1"
  by (rule preproc_main_correct [OF assms])

theorem preproc_program_witness:
  "\<exists>out. preproc_main (\<lambda>_. True) 10 \<lparr>pi_roots = (1, 2), pi_value = [7, 0, 0, 0], pi_share = (\<lambda>_. 9),
      pi_mem0 = (replicate 4096 0, replicate 1024 0), pi_mem1 = (replicate 4096 0, replicate 1024 0), pi_pad = (\<lambda>_. 0),
      pi_r = 1, pi_r0 = 2, pi_r0_ashare = 3\<rparr> (\<lambda>_. None) = Inr out \<and> po_unequal_loaded out = [555]"
proof -
  have v: "[7, 0, 0, 0] \<noteq> replicate 4 (0 :: m128)" by (auto dest!: arg_cong [where f = hd])
  obtain out where "preproc_main (\<lambda>_. True) 10 \<lparr>pi_roots = (1, 2), pi_value = [7, 0, 0, 0], pi_share = (\<lambda>_. 9),
      pi_mem0 = (replicate 4096 0, replicate 1024 0), pi_mem1 = (replicate 4096 0, replicate 1024 0), pi_pad = (\<lambda>_. 0),
      pi_r = 1, pi_r0 = 2, pi_r0_ashare = 3\<rparr> (\<lambda>_. None) = Inr out"
    "po_unequal_loaded out = (if [7, 0, 0, 0] = replicate 4 (0 :: m128) then [] else [555])"
    using preproc_program [of 10 1024 "\<lparr>pi_roots = (1, 2), pi_value = [7, 0, 0, 0], pi_share = (\<lambda>_. 9),
      pi_mem0 = (replicate 4096 0, replicate 1024 0), pi_mem1 = (replicate 4096 0, replicate 1024 0), pi_pad = (\<lambda>_. 0),
      pi_r = 1, pi_r0 = 2, pi_r0_ashare = 3\<rparr>" "\<lambda>_. True" "\<lambda>_. None", OF _ _ _ _ _ _ _ _ TrueI TrueI TrueI TrueI]
    unfolding preproc_input.select_convs fst_conv snd_conv length_replicate by fastforce
  with v show ?thesis by (simp only: if_False) blast
qed

text \<open>
  C34: \<^verbatim>\<open>mpc_eqz\<close> of \<^verbatim>\<open>mpcops_old.hpp\<close> never returns at a computing party. In every run the dealer ends
  after sending material for one conjunction and its masks, the parties use up all of it in the first of 64 rounds, and
  both end with nothing left to write, no byte on any connection, and one read of at least a byte outstanding, from the dealer,
  which has returned.
\<close>

theorem old_eqz_blocks:
  "\<exists>th0 th1. every_run (three (old_eqz x0 P0 (peer_at P0 P2) (Some (peer_at P1 P1)) None s0)
        (old_eqz x1 P1 (peer_at P1 P2) (Some (peer_at P0 P0)) None s1)
        (old_eqz x2 P2 (peer_at P0 P0) (Some (peer_at P0 P0)) (Some (peer_at P1 P1)) s2)) quiet
      (three th0 th1 (Done (0, skip_rng 56 s2))) quiet
    \<and> waits_for P2 th0 \<and> waits_for P2 th1"
  by (rule old_eqz_blocked)

section \<open>The cryptographic library\<close>

text \<open>
  C17: the three instances of the library's AES class, for x86 and ARM instructions and in portable C++,
  compute the same key schedule and the same encryption of any number of blocks, those of \<^verbatim>\<open>mpc/aes.h\<close>, and decryption
  under any instance inverts encryption under any other.
\<close>

theorem aes_instances_agree:
  "setKey ty k = rd_key (aes_key k)
   \<and> ecbEncBlocks ty (setKey ty k) ps = AES_ecb_encrypt_blks ps (aes_key k)
   \<and> ecbDecBlock ty (decSetKey ty k) (ecbEncBlock ty' (setKey ty' k) p) = p"
  by (simp add: setKey_eq enc_simps AES_ecb_encrypt_blks_eq [of _ _ ty] ecbDec_ecbEnc [unfolded enc_simps setKey_eq])

text \<open>
  Counter mode and the two hash modes, which run in steps of eight blocks and a rest, work on every block
  alone: counter mode encrypts the consecutive indices, the hash is \<open>\<pi>(x) \<oplus> x\<close> and the tweakable hash
  \<open>\<pi>(\<pi>(x) \<oplus> t) \<oplus> \<pi>(x)\<close>, with the tweaks drawn in the order of the blocks.
\<close>

theorem aes_modes:
  "ecbEncCounterMode ty ks b n = map (\<lambda>i. ecbEncBlock ty ks (toBlock (b + of_nat i))) [0..<n]
   \<and> hashBlocks ty ks ps = map (\<lambda>p. ecbEncBlock ty ks p XOR p) ps
   \<and> TmmoHashBlocks ty ks f ps st =
       (map2 (\<lambda>p t. ecbEncBlock ty ks p XOR ecbEncBlock ty ks (ecbEncBlock ty ks p XOR t)) ps (fst (generateTweaks (length ps) f st)),
        snd (generateTweaks (length ps) f st))"
  by (simp add: ecbEncCounterMode_eq enc_simps TmmoHashBlocks_eq tmmo_def [abs_def])

text \<open>
  C18: a seeded generator is one byte stream. Any sequence of reads of arrays, single values and buffer spans
  returns without an error consecutive pieces of the counter-mode stream of the seed, each of the length it was asked for.
\<close>

theorem prng_stream:
  assumes "0 < bufferSize"
  shows "\<exists>p bs q. PRNG_seeded seed bufferSize = Inr p \<and> reads_seq prng_call p calls = Some (Inr (bs, q))
    \<and> list_all2 (\<lambda>c b. op_fits c (length b)) calls bs
    \<and> concat bs = map (\<lambda>n. to_bytes (ecbEncBlock NI (setKey NI seed) (toBlock (of_nat (n div 16)))) ! (n mod 16)) [0..<length (concat bs)]"
proof -
  obtain p where p: "PRNG_seeded seed bufferSize = Inr p" "prng_reads p (aes_stream seed) 0"
    using SetSeed_fresh [OF assms, of seed] by (auto simp: prng_reads_def)
  have "aes_stream seed = (\<lambda>n. to_bytes (ecbEncBlock NI (setKey NI seed) (toBlock (of_nat (n div 16)))) ! (n mod 16))"
    by (simp add: fun_eq_iff aes_stream_def enc_simps)
  with p aes_source.reads_seq_segments [OF p(2), of calls] show ?thesis by (auto simp: segment_def)
qed

theorem prng_stream_witness:
  "\<exists>p bs q. PRNG_seeded 7 2 = Inr p \<and> reads_seq prng_call p [Get 8 3, Get_one 16, Get 1 300] = Some (Inr (bs, q))
    \<and> map length bs = [24, 16, 300]"
  using prng_stream [of 2 7 "[Get 8 3, Get_one 16, Get 1 300]"] by (fastforce simp: list_all2_Cons1)

text \<open>
  A generator that was not seeded, or that was moved from, throws on every read of at least one byte, on a
  buffer span and on \<^verbatim>\<open>getSeed\<close>; so does seeding one with an empty buffer.
\<close>

theorem prng_not_keyed:
  assumes "p = PRNG_default junk \<or> p = snd (PRNG_move p')" "0 < l"
  shows "implGet p l = Some (Inl not_keyed) \<and> getBufferSpan p l = Inl not_keyed \<and> getSeed p = Inl not_keyed
    \<and> SetSeed p seed 0 = Inl not_keyed"
  using assms unkeyed_intros unkeyed_errors [of p] SetSeed_unkeyed [of p seed] by metis

theorem prng_not_keyed_witness: "implGet (PRNG_default []) 200 = Some (Inl not_keyed)"
  using prng_not_keyed [of "PRNG_default []" "[]" undefined 200 0] by simp

text \<open>
  C19: the packed bit vector refines a list of bits: appending, pushing, sections, complement,
  exclusive or, conjunction and disjunction, in place and as values, weight and (for vectors that are not empty) comparison are those of lists.
\<close>

theorem bitvector_refines_list:
  assumes "bv_ok v" "bv_ok w" "mNumBits v = mNumBits w" "0 < mNumBits v" "off + len \<le> mNumBits v"
  shows "(\<exists>u. bv_append_vec v w = Inr u \<and> bv_ok u \<and> bv_bits u = bv_bits v @ bv_bits w)
    \<and> (\<exists>u. bv_pushBack v b = Inr u \<and> bv_ok u \<and> bv_bits u = bv_bits v @ [b \<noteq> 0])
    \<and> (\<exists>u. bv_subvec v off (Some len) = Inr u \<and> bv_ok u \<and> bv_bits u = take len (drop off (bv_bits v)))
    \<and> (\<exists>u. bv_xor v w = Inr u \<and> bv_ok u \<and> bv_bits u = map2 (\<noteq>) (bv_bits v) (bv_bits w))
    \<and> (\<exists>u. bv_xor_eq v w = Inr u \<and> bv_ok u \<and> bv_bits u = map2 (\<noteq>) (bv_bits v) (bv_bits w))
    \<and> (\<exists>u. bv_and_eq v w = Inr u \<and> bv_ok u \<and> bv_bits u = map2 (\<and>) (bv_bits v) (bv_bits w))
    \<and> (\<exists>u. bv_or_eq v w = Inr u \<and> bv_ok u \<and> bv_bits u = map2 (\<or>) (bv_bits v) (bv_bits w))
    \<and> (\<exists>u. bv_and v w = Inr u \<and> bv_ok u \<and> bv_bits u = map2 (\<and>) (bv_bits v) (bv_bits w))
    \<and> (\<exists>u. bv_or v w = Inr u \<and> bv_ok u \<and> bv_bits u = map2 (\<or>) (bv_bits v) (bv_bits w))
    \<and> bv_bits (bv_not v) = map Not (bv_bits v)
    \<and> bv_hammingWeight v = length (filter id (bv_bits v))
    \<and> bv_equals v w = Inr (bv_bits v = bv_bits w)"
  using assms bv_xor_ok [OF assms(1-3)] bv_and_or_ok [OF assms(1-3)] bv_ops_ok [OF assms(1-3)]
  by (simp add: bv_append_vec_ok bv_pushBack_ok bv_subvec_eq bv_not_ok bv_hammingWeight_eq weight_def bv_equals_ok)

theorem bitvector_refines_list_witness:
  "\<exists>u. bv_append_vec (bv_reset BitVector_empty 3) (bv_reset BitVector_empty 3) = Inr u \<and> bv_bits u = replicate 6 False"
proof -
  let ?v = "bv_reset BitVector_empty 3"
  have v: "bv_ok ?v" "bv_bits ?v = replicate 3 False" using bv_reset_ok [of BitVector_empty 3] by simp_all
  have "mNumBits ?v = 3" using arg_cong [OF v(2), of length] by simp
  with bitvector_refines_list [OF v(1) v(1), of 0 0 1] v(2) show ?thesis by (auto simp: replicate_add [symmetric])
qed

text \<open>
  C20: \<^verbatim>\<open>nChoosek(n, k)\<close> is meant to choose a random set of \<open>k\<close> of \<open>n\<close> positions. It throws for \<open>k < 4\<close>, sets
  only \<open>k - 4\<close> bits when \<open>k mod 8 \<ge> 4\<close>, and when it sets \<open>k\<close> bits of more than \<open>k\<close> it sets bit \<open>k\<close> whatever the generator yields.
\<close>

theorem nChoosek_outcome:
  assumes "bv_ok v" "k \<le> n" "PRNG_seeded seed bufferSize = Inr p"
  shows "if k < 4 then bv_nChoosek v n k p = Some (Inl (Runtime_error ''rt error at''))
    else \<exists>w q. bv_nChoosek v n k p = Some (Inr (w, q)) \<and> bv_ok w \<and> mNumBits w = n
      \<and> bv_hammingWeight w = (if k mod 8 < 4 then k else k - 4) \<and> (k < n \<longrightarrow> k mod 8 < 4 \<longrightarrow> bv_bits w ! k)"
proof -
  have "0 < bufferSize"
  proof (rule ccontr)
    assume "\<not> 0 < bufferSize"
    with assms(3) SetSeed_unkeyed [OF unkeyed_intros(1), of "[]" seed] show False by (simp add: PRNG_seeded_def)
  qed
  then have "prng_at seed p 0" using SetSeed_fresh [of bufferSize seed] assms(3) by auto
  from bv_nChoosek_ok [OF assms(1,2) _ this] bv_nChoosek_small [OF assms(1,2)] show ?thesis
    by (auto simp: bv_hammingWeight_eq)
qed

theorem nChoosek_outcome_witness:
  "\<exists>p w q. PRNG_seeded 7 256 = Inr p \<and> bv_nChoosek BitVector_empty 16 5 p = Some (Inr (w, q)) \<and> bv_hammingWeight w = 1"
proof -
  obtain p where p: "PRNG_seeded 7 256 = Inr p" using SetSeed_fresh [of 256 7] by auto
  from nChoosek_outcome [OF BitVector_empty_ok(1) _ p, of 5 16] p show ?thesis by auto
qed

text \<open>
  C11: the sender's and the receiver's task of the transfer manager, with the whole random transfer under
  them (points, hashes, commitment, random choices and generators of the library), end in every interleaving; the
  receiver has exactly the message of its choice in every transfer, and no byte is left on the connection. The curve
  functions are a parameter that behaves as documented, and the scalars the two generators draw are not degenerate.
\<close>

theorem ot_tasks_deliver:
  assumes "sodium_ok E L enc sc" "length msgs = n" "length choices = n" "task_scalars E L sc s0 s1 n"
  shows "every_run (three (bind (ot_send_task E s0 n msgs P1) (\<lambda>x. Return (Inl x)))
      (bind (ot_receive_task E s1 n choices P0) (\<lambda>x. Return (Inr x))) (Return (Inl []))) quiet
    (three (Done (Inl msgs)) (Done (Inr (map (\<lambda>i. sel (msgs ! i) (choices ! i)) [0..<n]))) (Done (Inl []))) quiet"
  by (rule joint_three_every_run [OF ot_tasks_joint [OF assms]])

text \<open>A group of order 3 in which every scalar encodes 1.\<close>

definition small_dec :: "byte list \<Rightarrow> nat" where "small_dec p = unat (hd p)"
definition small_enc :: "nat \<Rightarrow> byte list" where "small_enc x = of_nat (x mod 3) # replicate 31 0"

definition small_group :: crypto_env where
  "small_group = \<lparr>scalar_reduce = take 32, ristretto_base = (\<lambda>s. Some (small_enc 1)),
     ristretto_mult = (\<lambda>s p. if small_dec p mod 3 = 0 then None else Some (small_enc (small_dec p))),
     ristretto_add = (\<lambda>p q. Some (small_enc (small_dec p + small_dec q))),
     ristretto_sub = (\<lambda>p q. Some (small_enc (small_dec p + (3 - small_dec q)))),
     blake2 = (\<lambda>n m. replicate n 0), overread = replicate 32 0, uninit = replicate 32 0\<rparr>"

lemma small_group_ok: "sodium_ok small_group 3 small_enc (\<lambda>_. 1)"
proof -
  have dec: "small_dec (small_enc x) = x mod 3" for x
    by (simp add: small_dec_def small_enc_def unat_of_nat mod_mod_cancel)
  have enc: "small_enc x = small_enc y \<longleftrightarrow> x mod 3 = y mod 3" for x y by (metis dec small_enc_def)
  have prime: "\<forall>x y :: nat. 3 dvd x * y \<longrightarrow> 3 dvd x \<or> 3 dvd y"
  proof (intro allI impI)
    fix x y :: nat
    assume "3 dvd x * y"
    then have "x mod 3 * (y mod 3) mod 3 = 0" by (simp add: mod_mult_eq mod_eq_0_iff_dvd)
    moreover have "x mod 3 \<in> {0, 1, 2}" "y mod 3 \<in> {0, 1, 2}" by auto
    ultimately show "3 dvd x \<or> 3 dvd y" by (auto simp: mod_eq_0_iff_dvd)
  qed
  have neg: "(x mod 3 + (3 - y mod 3)) mod 3 = (x + (3 - y)) mod 3" if "y \<le> 3" for x y :: nat
  proof -
    from that have "y = 0 \<or> y = 1 \<or> y = 2 \<or> y = 3" by arith
    then show ?thesis by (elim disjE; simp add: mod_Suc_eq mod_Suc_Suc_eq)
  qed
  have ops: "ristretto_base small_group s = Some (small_enc 1)"
    "ristretto_mult small_group s (small_enc x) = (if x mod 3 = 0 then None else Some (small_enc x))"
    "ristretto_add small_group (small_enc x) (small_enc y) = Some (small_enc ((x + y) mod 3))"
    "y \<le> 3 \<Longrightarrow> ristretto_sub small_group (small_enc x) (small_enc y) = Some (small_enc ((x + (3 - y)) mod 3))"
    for s x y
  proof -
    show "ristretto_base small_group s = Some (small_enc 1)" by (simp add: small_group_def)
    show "ristretto_mult small_group s (small_enc x) = (if x mod 3 = 0 then None else Some (small_enc x))"
      by (simp add: small_group_def dec enc)
    show "ristretto_add small_group (small_enc x) (small_enc y) = Some (small_enc ((x + y) mod 3))"
      by (simp add: small_group_def dec enc mod_simps)
    show "ristretto_sub small_group (small_enc x) (small_enc y) = Some (small_enc ((x + (3 - y)) mod 3))" if "y \<le> 3"
      using neg [OF that] by (simp add: small_group_def dec enc)
  qed
  have e: "small_enc (x mod 3) = small_enc x" for x by (simp add: enc)
  show ?thesis
    unfolding sodium_ok_def
    by (intro conjI prime) (simp_all add: ops e, simp_all add: small_group_def small_enc_def Point_size_def)
qed

theorem ot_tasks_deliver_witness:
  "every_run (three (bind (ot_send_task small_group 5 2 [(10, 11), (20, 21)] P1) (\<lambda>x. Return (Inl x)))
      (bind (ot_receive_task small_group 6 2 [True, False] P0) (\<lambda>x. Return (Inr x))) (Return (Inl []))) quiet
    (three (Done (Inl [(10, 11), (20, 21)])) (Done (Inr [11, 20])) (Done (Inl []))) quiet"
  using ot_tasks_deliver [OF small_group_ok, of "[(10, 11), (20, 21)]" 2 "[True, False]" 5 6]
  by (simp add: task_scalars_def good_scalars_def sel_def upt_conv_Cons)

text \<open>
  C23: a sender that commits to one seed and opens another one makes the receiver throw in every
  interleaving, whatever its point, so it cannot choose the seed after it has seen the receiver's points.
\<close>

theorem ot_rejects_equivocation:
  assumes "sodium_ok E L enc sc" "PRNG_seeded s1 256 = Inr p" "mNumBits q = n"
    and "\<forall>i<n. sc (scalar_at E s1 (32 * i)) mod L \<noteq> 0"
    and "length comm = HashSize" "length seed' = 16" "blake2 E HashSize seed' \<noteq> comm"
  shows "every_run (three (equivocating_sender (enc a) comm seed' n x)
      (bind (SimplestOT_receive E True q n p P0) (\<lambda>r. Return (f r))) (Return y)) quiet
    (three (Done x) (Failed (Runtime_error ''bad decommitment'')) (Done y)) quiet"
proof -
  have p: "prng_at s1 p 0" using SetSeed_fresh [of 256 s1] assms(2) by auto
  show ?thesis
    by (rule receive_rejects [OF assms(1) p assms(3) _ assms(5-7)]) (use assms(4) in simp)
qed

theorem ot_rejects_equivocation_witness:
  "\<exists>p. PRNG_seeded 9 256 = Inr p \<and>
    every_run (three (equivocating_sender (small_enc 2) (replicate 20 1) (replicate 16 0) 3 0)
      (bind (SimplestOT_receive small_group True (bv_reset BitVector_empty 3) 3 p P0) (\<lambda>r. Return (length (fst r)))) (Return 0)) quiet
    (three (Done 0) (Failed (Runtime_error ''bad decommitment'')) (Done 0)) quiet"
proof -
  obtain p where p: "PRNG_seeded 9 256 = Inr p" using SetSeed_fresh [of 256 9] by auto
  have n: "mNumBits (bv_reset BitVector_empty 3) = 3" by (simp add: bv_reset_def Let_def)
  have "blake2 small_group HashSize (replicate 16 0) \<noteq> replicate 20 1" by (simp add: small_group_def HashSize_def)
  from ot_rejects_equivocation [OF small_group_ok p n, of "replicate 20 1" "replicate 16 0" 2 0 "\<lambda>r. length (fst r)" 0] this p show ?thesis
    by (simp add: HashSize_def)
qed

section \<open>The distributed DPF of the library\<close>

text \<open>
  C13: \<^verbatim>\<open>RegularDpf\<close> between two parties with xor shares of points and values, set up with matching transfers
  in both directions. In every run of the interactive \<^verbatim>\<open>expand\<close>, and in every run of the interactive \<^verbatim>\<open>keyGen\<close> followed by
  \<^verbatim>\<open>expand\<close> of each key alone, both parties end without an error and with no message left over, and their outputs
  open, in every tree, to the shared value at the shared point and to zero elsewhere, with tags that differ at the point
  only; for every seed and every content of uninitialised memory.
\<close>

theorem dpf_protocol_opens:
  assumes "dpf_init 0 domain n RegularDpf_new = Inr e0" "dpf_setBaseOts ots0 got0 c0 e0 = Inr d0"
    and "dpf_init 1 domain n RegularDpf_new = Inr e1" "dpf_setBaseOts ots1 got1 c1 e1 = Inr d1"
    and "bv_ok c0" "bv_ok c1" "domain \<le> 2 ^ 63"
    and "\<And>i. i < length ots0 \<Longrightarrow> got0 ! i = sel (ots1 ! i) (bv_bits c0 ! i) \<and> got1 ! i = sel (ots0 ! i) (bv_bits c1 ! i)"
    and "length p0 = n" "length p1 = n" "length v0 = n" "length v1 = n" "\<And>k. k < n \<Longrightarrow> unat (p0 ! k XOR p1 ! k) < domain"
    and "mLeafVals key0 = []" "mLeafVals key1 = []"
  shows "(\<exists>y0 y1 d0' d1'. every_run (three (dpf_expand heap0 junk0 P1 p0 v0 seed0 d0) (dpf_expand heap1 junk1 P0 p1 v1 seed1 d1) (Return c)) quiet
        (three (Done (y0, None, d0')) (Done (y1, None, d1')) (Done c)) quiet
      \<and> opens_points domain n (\<lambda>k. p0 ! k XOR p1 ! k) (\<lambda>k. v0 ! k XOR v1 ! k) y0 y1)
    \<and> (\<exists>k0 k1 d0' d1' y0 y1 f0 f1. every_run (three (dpf_keyGen heap0 junk0 P1 p0 v0 seed0 key0 d0) (dpf_keyGen heap1 junk1 P0 p1 v1 seed1 key1 d1) (Return c)) quiet
        (three (Done ([], Some k0, d0')) (Done ([], Some k1, d1')) (Done c)) quiet
      \<and> static_expand heap2 junk2 peer0 0 domain k0 = Return (y0, None, f0) \<and> static_expand heap3 junk3 peer1 1 domain k1 = Return (y1, None, f1)
      \<and> opens_points domain n (\<lambda>k. p0 ! k XOR p1 ! k) (\<lambda>k. v0 ! k XOR v1 ! k) y0 y1)"
proof -
  have P: "partners domain n (log2ceil domain * n) d0 d1" by (rule set_up_partners [OF assms(1-6,8)])
  have dm: "2 \<le> domain" "0 < n" using assms(1) by (auto simp: dpf_init_def split: if_splits)
  then have D: "log2ceil domain \<le> 64" using log2ceil_le [of domain 63] assms(7) by simp
  show ?thesis
  proof
    show "\<exists>y0 y1 d0' d1'. every_run (three (dpf_expand heap0 junk0 P1 p0 v0 seed0 d0) (dpf_expand heap1 junk1 P0 p1 v1 seed1 d1) (Return c)) quiet
        (three (Done (y0, None, d0')) (Done (y1, None, d1')) (Done c)) quiet
      \<and> opens_points domain n (\<lambda>k. p0 ! k XOR p1 ! k) (\<lambda>k. v0 ! k XOR v1 ! k) y0 y1"
      by (rule protocol_leaves_open [where ?h0.0 = heap0 and ?j0.0 = junk0 and ?h1.0 = heap1 and ?j1.0 = junk1 and ?seed0.0 = seed0 and ?seed1.0 = seed1 and c = c,
          OF P dm(1) D dm(2) assms(9-13)], assumption) (intro exI conjI, erule joint_three_every_run, assumption)
    show "\<exists>k0 k1 d0' d1' y0 y1 f0 f1. every_run (three (dpf_keyGen heap0 junk0 P1 p0 v0 seed0 key0 d0) (dpf_keyGen heap1 junk1 P0 p1 v1 seed1 key1 d1) (Return c)) quiet
        (three (Done ([], Some k0, d0')) (Done ([], Some k1, d1')) (Done c)) quiet
      \<and> static_expand heap2 junk2 peer0 0 domain k0 = Return (y0, None, f0) \<and> static_expand heap3 junk3 peer1 1 domain k1 = Return (y1, None, f1)
      \<and> opens_points domain n (\<lambda>k. p0 ! k XOR p1 ! k) (\<lambda>k. v0 ! k XOR v1 ! k) y0 y1"
      by (rule protocol_keys_open [where ?h0.0 = heap0 and ?j0.0 = junk0 and ?h1.0 = heap1 and ?j1.0 = junk1 and ?seed0.0 = seed0 and ?seed1.0 = seed1 and c = c
          and ?heap0.0 = heap2 and ?junk0.0 = junk2 and ?peer0.0 = peer0 and ?heap1.0 = heap3 and ?junk1.0 = junk3 and ?peer1.0 = peer1,
          OF P dm(1) D dm(2) assms(9-15)], assumption) (intro exI conjI, erule joint_three_every_run, assumption+)
  qed
qed

theorem dpf_protocol_opens_witness:
  "\<exists>d0 d1 k0 k1 d0' d1' y0 y1 f0 f1. every_run (three (dpf_keyGen (\<lambda>_ _. 0) (\<lambda>_ _ _. 0) P1 [1] [5] 11
        \<lparr>mSeed = 0, mCorrectionWords = [], mCorrectionBits = [], mLeafVals = []\<rparr> d0)
      (dpf_keyGen (\<lambda>_ _. 0) (\<lambda>_ _ _. 0) P0 [0] [2] 12 \<lparr>mSeed = 0, mCorrectionWords = [], mCorrectionBits = [], mLeafVals = []\<rparr> d1)
      (Return ([], None, d0))) quiet
      (three (Done ([], Some k0, d0')) (Done ([], Some k1, d1')) (Done ([], None, d0))) quiet
    \<and> static_expand (\<lambda>_ _. 0) (\<lambda>_ _ _. 0) P0 0 2 k0 = Return (y0, None, f0) \<and> static_expand (\<lambda>_ _. 0) (\<lambda>_ _ _. 0) P0 1 2 k1 = Return (y1, None, f1)
    \<and> opens_points 2 1 (\<lambda>k. [1] ! k XOR [0] ! k) (\<lambda>k. [5] ! k XOR [2] ! k) y0 y1"
proof -
  let ?c = "bv_reset BitVector_empty 1"
  define e where "e p = (THE d. dpf_init p 2 1 RegularDpf_new = Inr d)" for p
  have l: "log2ceil 2 = 1" by (simp add: log2ceil_def bit_width.simps)
  have c: "bv_ok ?c" "bv_bits ?c = [False]" using bv_reset_ok [of BitVector_empty 1] by simp_all
  have c1: "mNumBits ?c = 1" using arg_cong [OF c(2), of length] by simp
  have init: "dpf_init p 2 1 RegularDpf_new = Inr (e p) \<and> mTotalMults (mMultiplier (e p)) = 1" if "p < 2" for p
    using that by (simp add: e_def dpf_init_def mult_init_def Let_def l)
  obtain d0 where d0: "dpf_init 0 2 1 RegularDpf_new = Inr (e 0)" "dpf_setBaseOts [(0, 0)] [0] ?c (e 0) = Inr d0"
    using init [of 0] by (auto simp: dpf_setBaseOts_def mult_setBaseOts_def c1 [unfolded One_nat_def])
  obtain d1 where d1: "dpf_init 1 2 1 RegularDpf_new = Inr (e 1)" "dpf_setBaseOts [(0, 0)] [0] ?c (e 1) = Inr d1"
    using init [of 1] by (auto simp: dpf_setBaseOts_def mult_setBaseOts_def c1 [unfolded One_nat_def])
  show ?thesis
    by (rule exI [of _ d0], rule exI [of _ d1], rule dpf_protocol_opens [OF d0 d1 c(1) c(1), THEN conjunct2]) (simp_all add: sel_def)
qed

text \<open>
  The dealer's \<^verbatim>\<open>keyGen\<close> makes the same kind of keys: with points in the domain it passes all its checks, and the two keys
  expand to outputs that open to the points and the values.
\<close>

theorem dpf_dealer_opens:
  assumes "2 \<le> domain" "domain \<le> 2 ^ 63" "length points = n" "length values = n" "0 < n" "\<And>k. k < n \<Longrightarrow> unat (points ! k) < domain"
    and "PRNG_seeded seed 256 = Inr prng" "mLeafVals key0 = []" "mLeafVals key1 = []"
  shows "\<exists>k0 k1 prng' y0 y1 f0 f1. static_keyGen domain points values prng [key0, key1] = Inr ([k0, k1], prng')
    \<and> static_expand heap0 junk0 peer0 0 domain k0 = Return (y0, None, f0) \<and> static_expand heap1 junk1 peer1 1 domain k1 = Return (y1, None, f1)
    \<and> opens_points domain n (\<lambda>k. points ! k) (\<lambda>k. values ! k) y0 y1"
proof -
  have D: "log2ceil domain \<le> 64" using log2ceil_le [of domain 63] assms(1,2) by simp
  have g: "prng_at seed prng 0" using SetSeed_fresh [of 256 seed] assms(7) by auto
  show ?thesis by (rule dealer_keys_open [where ?heap0.0 = heap0 and ?junk0.0 = junk0 and ?peer0.0 = peer0 and ?heap1.0 = heap1 and ?junk1.0 = junk1 and ?peer1.0 = peer1,
        OF assms(1) D assms(3-6) g assms(8,9)], assumption) (intro exI conjI, assumption+)
qed

theorem dpf_dealer_opens_witness:
  "\<exists>prng k0 k1 prng' y0 y1 f0 f1. static_keyGen 5 [4, 0] [7, 9] prng
      [\<lparr>mSeed = 0, mCorrectionWords = [], mCorrectionBits = [], mLeafVals = []\<rparr>, \<lparr>mSeed = 0, mCorrectionWords = [], mCorrectionBits = [], mLeafVals = []\<rparr>] = Inr ([k0, k1], prng')
    \<and> static_expand (\<lambda>_ _. 0) (\<lambda>_ _ _. 0) P0 0 5 k0 = Return (y0, None, f0) \<and> static_expand (\<lambda>_ _. 0) (\<lambda>_ _ _. 0) P0 1 5 k1 = Return (y1, None, f1)
    \<and> opens_points 5 2 (\<lambda>k. [4, 0] ! k) (\<lambda>k. [7, 9] ! k) y0 y1"
proof -
  obtain prng where p: "PRNG_seeded 3 256 = Inr prng" using SetSeed_fresh [of 256 3] by auto
  show ?thesis
    by (rule exI [of _ prng], rule dpf_dealer_opens [OF _ _ _ _ _ _ p]) (auto simp: less_2_cases_iff)
qed

text \<open>
  The bytes of a key are decoded, into a key of the same shape, to the same key; the buffer has to have the exact size.
\<close>

theorem dpf_key_bytes:
  assumes "length dest = key_sizeBytes k" "same_shape l k"
  shows "\<exists>bs. key_toBytes k dest = Inr bs \<and> length bs = key_sizeBytes k \<and> key_fromBytes l bs = Inr k
    \<and> (length dest' \<noteq> key_sizeBytes k \<longrightarrow> key_toBytes k dest' = Inl (Runtime_error ''RTE_LOC''))"
  using key_bytes [OF assms(1)] key_bytes_roundtrip [OF assms(2)] length_key_bytes [of k] by (auto simp: key_toBytes_def)

section \<open>Boolean circuits\<close>

text \<open>
  C35: the addition and subtraction circuits, with ripple adders and with parallel prefix adders, signed and
  unsigned, are built without an error and evaluate to the bits of the sum or the difference of the integers that the
  inputs stand for. The sizes are arbitrary, but for the unsigned subtraction with prefix adders, whose result must not be
  wider than the operands by more than one bit.
\<close>

theorem circuit_arithmetic:
  assumes "0 < aSize" "0 < bSize" "0 < cSize" "3 * aSize + bSize + 6 * cSize + 6 \<le> no_wire"
  shows "runs (int_int_add aSize bSize cSize opt) [aSize, bSize] cSize (\<lambda>ins. bit (ival TwosComplement (ins ! 0) + ival TwosComplement (ins ! 1)))
    \<and> runs (int_int_subtract aSize bSize cSize opt) [aSize, bSize] cSize (\<lambda>ins. bit (ival TwosComplement (ins ! 0) - ival TwosComplement (ins ! 1)))
    \<and> runs (uint_uint_add aSize bSize cSize opt) [aSize, bSize] cSize (\<lambda>ins. bit (ival Unsigned (ins ! 0) + ival Unsigned (ins ! 1)))
    \<and> (opt = Opt_Size \<or> cSize \<le> max aSize bSize + 1
        \<longrightarrow> runs (uint_uint_subtract aSize bSize cSize opt) [aSize, bSize] cSize (\<lambda>ins. bit (ival Unsigned (ins ! 0) - ival Unsigned (ins ! 1))))"
  using int_int_add_runs int_int_subtract_runs uint_uint_add_runs uint_uint_subtract_runs assms by simp

theorem circuit_arithmetic_witness:
  "\<exists>cd. int_int_add 3 3 4 Opt_Size = Inr cd
    \<and> evaluate cd [[True, True, False], [True, False, True]] [4] False = Inr ([], [[False, False, False, False]])"
proof -
  have "runs (int_int_add 3 3 4 Opt_Size) [3, 3] 4 (\<lambda>ins. bit (ival TwosComplement (ins ! 0) + ival TwosComplement (ins ! 1)))"
    using circuit_arithmetic [of 3 3 4 Opt_Size] by (simp add: no_wire_def)
  then obtain cd where cd: "int_int_add 3 3 4 Opt_Size = Inr cd"
    "\<And>input. map length input = [3, 3] \<Longrightarrow> evaluate cd input [4] False
      = Inr ([], [map (bit (ival TwosComplement (input ! 0) + ival TwosComplement (input ! 1))) [0..<4]])" by (auto simp: runs_def)
  have "ival TwosComplement [True, True, False] + ival TwosComplement [True, False, True] = 0" by code_simp
  with cd(1) cd(2) [of "[[True, True, False], [True, False, True]]"] show ?thesis by (auto simp: upt_conv_Cons)
qed

text \<open>
  C36: the multiplication circuits, signed and unsigned, with either adder, and of any sizes of inputs and
  product (at least two bits in each factor, and a product no wider than both factors together), evaluate to the bits of
  the product of the integers that the inputs stand for.
\<close>

theorem circuit_product:
  assumes "2 \<le> aSize" "2 \<le> bSize" "0 < cSize" "cSize \<le> aSize + bSize"
    "aSize + bSize + cSize * (4 * max aSize bSize + 6) + 3 * max aSize bSize + 4 \<le> no_wire"
  shows "runs (int_int_mult aSize bSize cSize opt) [aSize, bSize] cSize (\<lambda>ins. bit (ival TwosComplement (ins ! 0) * ival TwosComplement (ins ! 1)))
    \<and> runs (uint_uint_mult aSize bSize cSize opt) [aSize, bSize] cSize (\<lambda>ins. bit (ival Unsigned (ins ! 0) * ival Unsigned (ins ! 1)))"
  unfolding int_int_mult_def uint_uint_mult_def by (intro conjI adders.mult_runs [OF assms(1-4) refl assms(5)])

theorem circuit_product_witness:
  "\<exists>cd. int_int_mult 3 3 6 Opt_Depth = Inr cd
    \<and> evaluate cd [[True, True, False], [True, False, True]] [6] False = Inr ([], [[True, True, True, False, True, True]])"
proof -
  have "runs (int_int_mult 3 3 6 Opt_Depth) [3, 3] 6 (\<lambda>ins. bit (ival TwosComplement (ins ! 0) * ival TwosComplement (ins ! 1)))"
    using circuit_product [of 3 3 6 Opt_Depth] by (simp add: no_wire_def)
  then obtain cd where cd: "int_int_mult 3 3 6 Opt_Depth = Inr cd"
    "\<And>input. map length input = [3, 3] \<Longrightarrow> evaluate cd input [6] False
      = Inr ([], [map (bit (ival TwosComplement (input ! 0) * ival TwosComplement (input ! 1))) [0..<6]])" by (auto simp: runs_def)
  have "map (bit (ival TwosComplement [True, True, False] * ival TwosComplement [True, False, True])) [0..<6] = [True, True, True, False, True, True]"
    by code_simp
  with cd(1) cd(2) [of "[[True, True, False], [True, False, True]]"] show ?thesis by simp
qed

text \<open>
  C37: the comparison circuits yield the order of the integers that the inputs stand for, also when their
  difference does not fit into the size of the inputs.
\<close>

theorem circuit_compare:
  assumes "0 < aSize" "0 < bSize" "aSize + bSize + 5 * max aSize bSize + 9 \<le> no_wire"
  shows "runs (int_int_lt aSize bSize opt) [aSize, bSize] 1 (\<lambda>ins _. ival TwosComplement (ins ! 0) < ival TwosComplement (ins ! 1))
    \<and> runs (int_int_gteq aSize bSize opt) [aSize, bSize] 1 (\<lambda>ins _. ival TwosComplement (ins ! 1) \<le> ival TwosComplement (ins ! 0))
    \<and> runs (uint_uint_lt aSize bSize opt) [aSize, bSize] 1 (\<lambda>ins _. ival Unsigned (ins ! 0) < ival Unsigned (ins ! 1))
    \<and> runs (uint_uint_gteq aSize bSize opt) [aSize, bSize] 1 (\<lambda>ins _. ival Unsigned (ins ! 1) \<le> ival Unsigned (ins ! 0))"
  unfolding int_int_lt_def int_int_gteq_def uint_uint_lt_def uint_uint_gteq_def
  by (intro conjI adders.lessThan_runs) (use assms in simp_all)

theorem circuit_compare_witness:
  "\<exists>cd. int_int_lt 2 3 Opt_Depth = Inr cd \<and> evaluate cd [[False, True], [False, False, False]] [1] False = Inr ([], [[True]])"
proof -
  have "runs (int_int_lt 2 3 Opt_Depth) [2, 3] 1 (\<lambda>ins _. ival TwosComplement (ins ! 0) < ival TwosComplement (ins ! 1))"
    using circuit_compare [of 2 3 Opt_Depth] by (simp add: no_wire_def)
  then obtain cd where cd: "int_int_lt 2 3 Opt_Depth = Inr cd"
    "\<And>input. map length input = [2, 3] \<Longrightarrow> evaluate cd input [1] False
      = Inr ([], [map (\<lambda>_. ival TwosComplement (input ! 0) < ival TwosComplement (input ! 1)) [0..<1]])" by (auto simp: runs_def)
  have "ival TwosComplement [False, True] < ival TwosComplement [False, False, False]" by code_simp
  with cd(1) cd(2) [of "[[False, True], [False, False, False]]"] show ?thesis by auto
qed

text \<open>
  C38: negation, absolute value and conditional negation of a two's complement number.
\<close>

theorem circuit_signs:
  assumes "0 < aSize" "8 * aSize + 9 \<le> no_wire"
  shows "runs (int_negate aSize opt) [aSize] aSize (\<lambda>ins. bit (- ival TwosComplement (ins ! 0)))
    \<and> runs (int_removeSign aSize opt) [aSize] aSize (\<lambda>ins. bit \<bar>ival TwosComplement (ins ! 0)\<bar>)
    \<and> runs (int_addSign aSize opt) [aSize, 1] aSize
        (\<lambda>ins. bit (if ins ! 1 ! 0 then - ival TwosComplement (ins ! 0) else ival TwosComplement (ins ! 0)))"
  by (intro conjI adders.int_negate_runs adders.int_removeSign_runs adders.int_addSign_runs) (use assms in simp_all)

theorem circuit_signs_witness:
  "runs (int_removeSign 3 Opt_Depth) [3] 3 (\<lambda>ins. bit \<bar>ival TwosComplement (ins ! 0)\<bar>)"
  using circuit_signs [of 3 Opt_Depth] by (simp add: no_wire_def)

text \<open>
  The bitwise circuits, inversion and selection work bit by bit.
\<close>

theorem circuit_bitwise:
  assumes "cSize \<le> aSize" "3 * aSize + 4 \<le> no_wire"
  shows "runs (int_int_bitwiseAnd aSize aSize cSize) [aSize, aSize] cSize (\<lambda>ins i. ins ! 0 ! i \<and> ins ! 1 ! i)
    \<and> runs (int_int_bitwiseOr aSize aSize cSize) [aSize, aSize] cSize (\<lambda>ins i. ins ! 0 ! i \<or> ins ! 1 ! i)
    \<and> runs (int_int_bitwiseXor aSize aSize cSize) [aSize, aSize] cSize (\<lambda>ins i. ins ! 0 ! i \<noteq> ins ! 1 ! i)
    \<and> runs (int_bitInvert aSize) [aSize] aSize (\<lambda>ins i. \<not> ins ! 0 ! i)
    \<and> runs (int_int_multiplex aSize) [aSize, aSize, 1] aSize (\<lambda>ins i. if ins ! 2 ! 0 then ins ! 0 ! i else ins ! 1 ! i)"
  using bitwise_runs [of G_And cSize aSize] bitwise_runs [of G_Or cSize aSize] bitwise_runs [of G_Xor cSize aSize]
    bitInvert_runs [of aSize] multiplex_runs [of aSize] assms
  by (simp add: int_int_bitwiseAnd_def int_int_bitwiseOr_def int_int_bitwiseXor_def bitwiseAnd_build_def bitwiseOr_build_def
      bitwiseXor_build_def unary_gates_def)

theorem circuit_bitwise_witness:
  "runs (int_int_bitwiseXor 8 8 5) [8, 8] 5 (\<lambda>ins i. ins ! 0 ! i \<noteq> ins ! 1 ! i)"
  using circuit_bitwise [of 5 8] by (simp add: no_wire_def)

text \<open>
  C39: the equality circuit compares only the lowest \<open>2 ^ L\<close> bits, \<open>2 ^ L\<close> being the largest power of two
  that the size reaches: for sizes that are no power of two, different inputs with the same low bits are reported equal.
\<close>

theorem circuit_equality:
  assumes "2 ^ L \<le> aSize" "aSize < 2 ^ Suc L" "4 * aSize + 1 \<le> no_wire"
  shows "runs (int_eq aSize) [aSize, aSize] 1 (\<lambda>ins _. take (2 ^ L) (ins ! 0) = take (2 ^ L) (ins ! 1))
    \<and> runs (int_neq aSize) [aSize, aSize] 1 (\<lambda>ins _. take (2 ^ L) (ins ! 0) \<noteq> take (2 ^ L) (ins ! 1))"
  using int_eq_runs [OF assms(1,2)] int_neq_runs [OF assms(1,2)] assms(3) by simp

theorem circuit_equality_witness:
  "\<exists>cd. int_eq 3 = Inr cd \<and> evaluate cd [[True, False, False], [True, False, True]] [1] False = Inr ([], [[True]])"
  using circuit_equality [of 1 3] by (auto simp: runs_def no_wire_def)

text \<open>
  C40: levelling a circuit without reordering, with one level per nonlinear gate or one per gate, does not
  change what it evaluates to, and no gate reads a wire that its level has left out of date.
\<close>

theorem circuit_levels:
  assumes "runs (Inr cd) ins cSize f" "map length input = ins"
  shows "evaluate (levelNoReorder single cd) input [cSize] False = Inr ([], [map (f input) [0..<cSize]])"
proof -
  have cd: "circuit_ok cd" "mLevelCounts cd = []" "map length (mInputs cd) = ins" "map length (mOutputs cd) = [cSize]"
    "\<forall>w\<in>set (concat (mInputs cd)) \<union> set (concat (mOutputs cd)). w < mWireCount cd"
    "evaluate cd input [cSize] False = Inr ([], [map (f input) [0..<cSize]])" using assms by (auto simp: runs_def)
  then show ?thesis using evaluate_levelled [of cd input single] assms(2) by (simp add: ball_Un)
qed

theorem circuit_levels_witness:
  "\<exists>cd. int_eq 2 = Inr cd \<and> evaluate (levelNoReorder False cd) [[True, False], [True, False]] [1] False = Inr ([], [[True]])"
proof -
  have r: "runs (int_eq 2) [2, 2] 1 (\<lambda>ins _. take (2 ^ 1) (ins ! 0) = take (2 ^ 1) (ins ! 1))"
    by (rule int_eq_runs) (simp_all add: no_wire_def)
  then obtain cd where cd: "int_eq 2 = Inr cd" by (auto simp: runs_def)
  from circuit_levels [OF r [unfolded cd], of "[[True, False], [True, False]]" False] cd show ?thesis by simp
qed

end
